(* ===== verification/Wallet_Prelude.thy ===== *)
theory Wallet_Prelude
  imports Main "HOL-Library.AList" "HOL-Library.Sublist"
begin

text \<open>
  Shared ground of the development: the JavaScript values the wallet code manipulates
  (strings, JSON values, insertion-ordered \<open>Map\<close>s, integral numbers) and the generic
  facts about them, with the locale that turns "every step keeps the invariant" into
  "every run keeps the invariant".

  Conventions used by all theories:
  \<^item> A JavaScript string is a \<open>string\<close> whose characters are Latin-1 code units; every
    identifier the code handles (txids, outpoints, statuses, keys) is ASCII.
  \<^item> A JavaScript number that holds a count, an amount or a time is an \<open>int\<close>; a
    \<open>bigint\<close> is an \<open>int\<close>. \<open>undefined\<close> and \<open>null\<close> are \<open>None\<close>, except where the code
    tells them apart.
  \<^item> A JavaScript \<open>Map\<close> is an association list in insertion order (\<open>AList.update\<close>
    overwrites in place and appends new keys, as \<open>Map.set\<close> does).
  \<^item> The current time (\<open>Date.now()\<close>) is an argument.
\<close>

section \<open>Strings\<close>

text \<open>\<open>String.prototype.trim\<close> and \<open>toLowerCase\<close> on Latin-1 code units.\<close>

definition js_space :: "char \<Rightarrow> bool" where
  "js_space c = (let n = (of_char c :: nat) in n = 32 \<or> (9 \<le> n \<and> n \<le> 13) \<or> n = 160)"

definition js_trim :: "string \<Rightarrow> string" where
  "js_trim s = rev (dropWhile js_space (rev (dropWhile js_space s)))"

definition js_lower_char :: "char \<Rightarrow> char" where
  "js_lower_char c = (let n = (of_char c :: nat) in
     if (65 \<le> n \<and> n \<le> 90) \<or> (192 \<le> n \<and> n \<le> 222 \<and> n \<noteq> 215) then char_of (n + 32) else c)"

definition js_lower :: "string \<Rightarrow> string" where
  "js_lower s = map js_lower_char s"

text \<open>The character classes of the code's regular expressions: \<open>\d\<close> and \<open>[0-9a-f]\<close>.\<close>

definition js_digit :: "char \<Rightarrow> bool" where
  "js_digit c = (let n = (of_char c :: nat) in 48 \<le> n \<and> n \<le> 57)"

definition js_hex :: "char \<Rightarrow> bool" where
  "js_hex c = (let n = (of_char c :: nat) in (48 \<le> n \<and> n \<le> 57) \<or> (97 \<le> n \<and> n \<le> 102))"

text \<open>\<open>/^[0-9a-f]{n}$/.test(s)\<close>.\<close>

definition hex_of_len :: "nat \<Rightarrow> string \<Rightarrow> bool" where
  "hex_of_len n s = (length s = n \<and> list_all js_hex s)"

lemma of_char_lt_256: "(of_char c :: nat) < 256"
  using range_nat_of_char by auto

lemma js_lower_char_code:
  "(of_char (js_lower_char c) :: nat) =
     (let n = (of_char c :: nat) in
      if (65 \<le> n \<and> n \<le> 90) \<or> (192 \<le> n \<and> n \<le> 222 \<and> n \<noteq> 215) then n + 32 else n)"
  using of_char_lt_256 [of c] by (auto simp: js_lower_char_def Let_def)

lemma js_lower_char_idem [simp]: "js_lower_char (js_lower_char c) = js_lower_char c"
proof -
  have "(of_char (js_lower_char (js_lower_char c)) :: nat) = of_char (js_lower_char c)"
    using of_char_lt_256 [of c] by (auto simp: js_lower_char_code Let_def)
  then show ?thesis by simp
qed

lemma js_lower_char_digit [simp]: "js_digit (js_lower_char c) = js_digit c"
  by (auto simp: js_digit_def js_lower_char_code Let_def)

lemma js_lower_char_space [simp]: "js_space (js_lower_char c) = js_space c"
  by (auto simp: js_space_def js_lower_char_code Let_def)

lemma js_lower_char_low:
  assumes "(of_char d :: nat) < 97"
  shows "js_lower_char c = d \<longleftrightarrow> c = d \<and> \<not> (65 \<le> (of_char d :: nat) \<and> (of_char d :: nat) \<le> 90)"
proof -
  have "js_lower_char c = d \<longleftrightarrow> (of_char (js_lower_char c) :: nat) = of_char d"
    by simp
  also have "\<dots> \<longleftrightarrow> (of_char c :: nat) = of_char d \<and> \<not> (65 \<le> (of_char d :: nat) \<and> (of_char d :: nat) \<le> 90)"
    using assms by (auto simp: js_lower_char_code Let_def)
  finally show ?thesis by simp
qed

lemma js_lower_idem [simp]: "js_lower (js_lower s) = js_lower s"
  by (simp add: js_lower_def)

lemma js_lower_append [simp]: "js_lower (s @ t) = js_lower s @ js_lower t"
  by (simp add: js_lower_def)

lemma js_lower_Nil_iff [simp]: "js_lower s = [] \<longleftrightarrow> s = []"
  by (simp add: js_lower_def)

lemma dropWhile_lower: "dropWhile js_space (js_lower s) = js_lower (dropWhile js_space s)"
  by (induction s) (auto simp: js_lower_def)

lemma rev_lower: "rev (js_lower s) = js_lower (rev s)"
  by (simp add: js_lower_def rev_map)

lemma js_trim_lower: "js_trim (js_lower s) = js_lower (js_trim s)"
  by (simp add: js_trim_def dropWhile_lower rev_lower)

lemma dropWhile_idem_rev:
  assumes "dropWhile P s = s"
  shows "dropWhile P (rev (dropWhile P (rev s))) = rev (dropWhile P (rev s))"
proof (cases "rev (dropWhile P (rev s))")
  case Nil
  then show ?thesis by (simp only: Nil) simp
next
  case (Cons a t)
  have "suffix (dropWhile P (rev s)) (rev s)"
    by (rule suffix_dropWhile)
  then have "prefix (rev (dropWhile P (rev s))) s"
    by (simp add: suffix_to_prefix)
  then obtain u where "s = a # t @ u"
    using Cons by (auto simp: prefix_def)
  then have "\<not> P a"
    using assms by (metis dropWhile_eq_Cons_conv)
  then show ?thesis using Cons by simp
qed

lemma js_trim_idem [simp]: "js_trim (js_trim s) = js_trim s"
  by (simp add: js_trim_def dropWhile_idem_rev)

section \<open>JSON values\<close>

text \<open>
  A parsed JSON value. A property read \<open>r.f\<close> is \<open>json_field\<close>: \<open>None\<close> is
  \<open>undefined\<close>. (Inherited \<open>Object.prototype\<close> properties are not modelled.)
\<close>

datatype json =
    JNull
  | JBool bool
  | JNum int
  | JStr string
  | JArr "json list"
  | JObj "(string \<times> json) list"

fun json_field :: "json \<Rightarrow> string \<Rightarrow> json option" where
  "json_field (JObj fs) f = map_of fs f"
| "json_field _ f = None"

fun json_str :: "json option \<Rightarrow> string option" where
  "json_str (Some (JStr s)) = Some s"
| "json_str _ = None"

fun json_bool :: "json option \<Rightarrow> bool option" where
  "json_bool (Some (JBool b)) = Some b"
| "json_bool _ = None"

fun json_int :: "json option \<Rightarrow> int option" where
  "json_int (Some (JNum n)) = Some n"
| "json_int _ = None"

text \<open>\<open>opt_json\<close> is \<open>v ?? null\<close> on the way out.\<close>

definition opt_json :: "string option \<Rightarrow> json" where
  "opt_json v = (case v of None \<Rightarrow> JNull | Some s \<Rightarrow> JStr s)"

section \<open>Decimal texts\<close>

fun nat_digits :: "nat \<Rightarrow> string" where
  "nat_digits n = (if n < 10 then [char_of (48 + n)] else nat_digits (n div 10) @ [char_of (48 + n mod 10)])"

declare nat_digits.simps [simp del]

definition show_int :: "int \<Rightarrow> string" where
  "show_int n = (if n < 0 then CHR ''-'' # nat_digits (nat (- n)) else nat_digits (nat n))"

definition digit_val :: "char \<Rightarrow> nat" where
  "digit_val c = (of_char c :: nat) - 48"

definition nat_of_digits :: "string \<Rightarrow> nat" where
  "nat_of_digits s = foldl (\<lambda>a c. 10 * a + digit_val c) 0 s"

text \<open>
  \<open>Number(s)\<close> on the decimal integer texts \<open>[+-]?\d+\<close>, surrounding blanks allowed and
  the empty text 0. Texts with a fraction, an exponent or a radix prefix are outside the
  model (they give \<open>None\<close>, which the callers read as \<open>NaN\<close>).
\<close>

definition js_number_text :: "string \<Rightarrow> int option" where
  "js_number_text s = (case js_trim s of
      [] \<Rightarrow> Some 0
    | c # ds \<Rightarrow>
        if c = CHR ''-'' \<and> ds \<noteq> [] \<and> list_all js_digit ds then Some (- int (nat_of_digits ds))
        else if c = CHR ''+'' \<and> ds \<noteq> [] \<and> list_all js_digit ds then Some (int (nat_of_digits ds))
        else if list_all js_digit (c # ds) then Some (int (nat_of_digits (c # ds)))
        else None)"

text \<open>\<open>Number(v) || 0\<close> for a JSON value or \<open>undefined\<close>; \<open>NaN\<close> falls to 0.\<close>

fun js_number_or_0 :: "json option \<Rightarrow> int" where
  "js_number_or_0 (Some (JNum n)) = n"
| "js_number_or_0 (Some (JBool b)) = (if b then 1 else 0)"
| "js_number_or_0 (Some (JStr s)) = (case js_number_text s of Some n \<Rightarrow> n | None \<Rightarrow> 0)"
| "js_number_or_0 _ = 0"

lemma digit_val_char_of: "d < 10 \<Longrightarrow> digit_val (char_of (48 + d)) = d"
  by (simp add: digit_val_def)

lemma nat_of_digits_append_one: "nat_of_digits (s @ [c]) = 10 * nat_of_digits s + digit_val c"
  by (simp add: nat_of_digits_def)

lemma nat_of_digits_show: "nat_of_digits (nat_digits n) = n"
proof (induction n rule: nat_digits.induct)
  case (1 n)
  show ?case
  proof (cases "n < 10")
    case True
    then show ?thesis
      by (simp add: nat_digits.simps [of n] nat_of_digits_def digit_val_char_of)
  next
    case False
    then show ?thesis
      using "1.IH" by (simp add: nat_digits.simps [of n] nat_of_digits_append_one digit_val_char_of)
  qed
qed

lemma nat_digits_digits: "list_all js_digit (nat_digits n)"
proof (induction n rule: nat_digits.induct)
  case (1 n)
  have d: "js_digit (char_of (48 + k))" if "k < 10" for k :: nat
    using that by (simp add: js_digit_def)
  show ?case
    using 1 by (cases "n < 10") (simp_all add: nat_digits.simps [of n] d)
qed

lemma nat_digits_nonempty [simp]: "nat_digits n \<noteq> []"
  by (subst nat_digits.simps) simp

lemma show_int_inj: "show_int a = show_int b \<Longrightarrow> a = b"
proof -
  have d: "hd (nat_digits n) \<noteq> CHR ''-''" for n
    using nat_digits_digits [of n] nat_digits_nonempty [of n] by (cases "nat_digits n") (auto simp: js_digit_def)
  have i: "nat_digits m = nat_digits n \<Longrightarrow> m = n" for m n
    by (metis nat_of_digits_show)
  show "show_int a = show_int b \<Longrightarrow> a = b"
    using d [of "nat a"] d [of "nat b"] i [of "nat a" "nat b"] i [of "nat (- a)" "nat (- b)"]
    by (auto simp: show_int_def split: if_splits) (metis list.sel(1))+
qed

section \<open>Insertion-ordered maps\<close>

text \<open>\<open>map.get\<close>, \<open>map.set\<close>, \<open>map.delete\<close> of a JavaScript \<open>Map\<close>.\<close>

type_synonym ('k, 'v) jsmap = "('k \<times> 'v) list"

abbreviation jsmap_get :: "('k, 'v) jsmap \<Rightarrow> 'k \<Rightarrow> 'v option" where
  "jsmap_get m k \<equiv> map_of m k"

abbreviation jsmap_set :: "'k \<Rightarrow> 'v \<Rightarrow> ('k, 'v) jsmap \<Rightarrow> ('k, 'v) jsmap" where
  "jsmap_set \<equiv> AList.update"

abbreviation jsmap_delete :: "'k \<Rightarrow> ('k, 'v) jsmap \<Rightarrow> ('k, 'v) jsmap" where
  "jsmap_delete \<equiv> AList.delete"

text \<open>
  A loop \<open>for (const [k, r] of map) map.set(k, f r)\<close> over existing keys is a map over the
  rows: it neither adds nor reorders keys.
\<close>

definition jsmap_map :: "('v \<Rightarrow> 'v) \<Rightarrow> ('k, 'v) jsmap \<Rightarrow> ('k, 'v) jsmap" where
  "jsmap_map f m = map (\<lambda>(k, v). (k, f v)) m"

definition jsmap_wf :: "('k, 'v) jsmap \<Rightarrow> bool" where
  "jsmap_wf m = distinct (map fst m)"

lemma jsmap_wf_set [simp]: "jsmap_wf m \<Longrightarrow> jsmap_wf (jsmap_set k v m)"
  by (simp add: jsmap_wf_def distinct_update)

lemma jsmap_wf_delete [simp]: "jsmap_wf m \<Longrightarrow> jsmap_wf (jsmap_delete k m)"
  by (simp add: jsmap_wf_def distinct_delete)

lemma jsmap_wf_map [simp]: "jsmap_wf (jsmap_map f m) = jsmap_wf m"
  by (simp add: jsmap_wf_def jsmap_map_def comp_def case_prod_unfold)

lemma jsmap_get_set [simp]: "jsmap_get (jsmap_set k v m) k' = (if k' = k then Some v else jsmap_get m k')"
  by (simp add: update_conv')

lemma jsmap_get_delete [simp]: "jsmap_get (jsmap_delete k m) k' = (if k' = k then None else jsmap_get m k')"
  by (simp add: delete_conv')

lemma jsmap_get_map [simp]: "jsmap_get (jsmap_map f m) k = map_option f (jsmap_get m k)"
  by (induction m) (auto simp: jsmap_map_def)

lemma jsmap_get_in: "jsmap_wf m \<Longrightarrow> (k, v) \<in> set m \<longleftrightarrow> jsmap_get m k = Some v"
  by (simp add: jsmap_wf_def)

lemma jsmap_set_in: "(k', v') \<in> set (jsmap_set k v m) \<Longrightarrow> (k', v') = (k, v) \<or> (k', v') \<in> set m"
  by (induction m) (auto split: if_splits)

lemma jsmap_delete_in: "(k', v') \<in> set (jsmap_delete k m) \<Longrightarrow> (k', v') \<in> set m"
  by (induction m) (auto simp: AList.delete_eq split: if_splits)

lemma jsmap_set_new: "k \<notin> fst ` set m \<Longrightarrow> jsmap_set k v m = m @ [(k, v)]"
  by (induction m) auto

text \<open>\<open>findIndex\<close> and \<open>splice(index, 1)\<close>: the list without its first element of the kind.\<close>

fun remove_first :: "('b \<Rightarrow> bool) \<Rightarrow> 'b list \<Rightarrow> 'b list option" where
  "remove_first P [] = None"
| "remove_first P (x # xs) = (if P x then Some xs else map_option ((#) x) (remove_first P xs))"

section \<open>Runs of a step function\<close>

text \<open>
  A component is a state and a step per operation or event; \<open>fold_steps\<close> runs a list of
  them. The locale turns the one-step invariant lemma into the run lemma.
\<close>

fun fold_steps :: "('s \<Rightarrow> 'e \<Rightarrow> 's) \<Rightarrow> 's \<Rightarrow> 'e list \<Rightarrow> 's" where
  "fold_steps f s [] = s"
| "fold_steps f s (e # es) = fold_steps f (f s e) es"

lemma fold_steps_append [simp]: "fold_steps f s (es @ es') = fold_steps f (fold_steps f s es) es'"
  by (induction es arbitrary: s) auto

locale invariant_machine =
  fixes step :: "'s \<Rightarrow> 'e \<Rightarrow> 's"
    and legal :: "'e \<Rightarrow> bool"
    and inv :: "'s \<Rightarrow> bool"
  assumes step_inv: "inv s \<Longrightarrow> legal e \<Longrightarrow> inv (step s e)"
begin

lemma run_inv: "inv s \<Longrightarrow> list_all legal es \<Longrightarrow> inv (fold_steps step s es)"
  by (induction es arbitrary: s) (auto intro: step_inv)

lemma run_prefix_inv:
  assumes "inv s" and "list_all legal (es @ es')"
  shows "inv (fold_steps step s es)"
  using assms run_inv [of s es] by simp

end

text \<open>The same with a guard that may depend on the state.\<close>

fun legal_run :: "('s \<Rightarrow> 'e \<Rightarrow> bool) \<Rightarrow> ('s \<Rightarrow> 'e \<Rightarrow> 's) \<Rightarrow> 's \<Rightarrow> 'e list \<Rightarrow> bool" where
  "legal_run legal step s [] = True"
| "legal_run legal step s (e # es) = (legal s e \<and> legal_run legal step (step s e) es)"

locale guarded_machine =
  fixes step :: "'s \<Rightarrow> 'e \<Rightarrow> 's"
    and legal :: "'s \<Rightarrow> 'e \<Rightarrow> bool"
    and inv :: "'s \<Rightarrow> bool"
  assumes guarded_step_inv: "inv s \<Longrightarrow> legal s e \<Longrightarrow> inv (step s e)"
begin

lemma guarded_run_inv: "inv s \<Longrightarrow> legal_run legal step s es \<Longrightarrow> inv (fold_steps step s es)"
  by (induction es arbitrary: s) (auto intro: guarded_step_inv)

end

sublocale invariant_machine \<subseteq> guarded: guarded_machine step "\<lambda>_. legal" inv
  by unfold_locales (rule step_inv)

end
