(* ===== verification/Outpoint_Format.thy ===== *)
theory Outpoint_Format
  imports Wallet_Prelude
begin

text \<open>
  Outpoint keys (\<open>src/src/wallet/outpointFormat.ts\<close>): the dotted form \<open>txid.vout\<close> and
  the underscore form \<open>txid_vout\<close>. The overlay and the lifecycle store key every coin by
  the underscore form; what they need of it is that normalising is idempotent, so a
  normalised key finds itself again.
\<close>

text \<open>\<open>n.replace(/\.(\d+)$/, '_$1')\<close> with the two separators as arguments.\<close>

definition replace_vout_sep :: "char \<Rightarrow> char \<Rightarrow> string \<Rightarrow> string" where
  "replace_vout_sep old new s =
     (let ds = takeWhile js_digit (rev s); rest = dropWhile js_digit (rev s) in
      case rest of
        c # t \<Rightarrow> if c = old \<and> ds \<noteq> [] then rev t @ new # rev ds else s
      | [] \<Rightarrow> s)"

definition toUnderscoreOutpoint :: "string \<Rightarrow> string" where
  "toUnderscoreOutpoint outpoint =
     (let n = js_trim outpoint in
      if CHR ''_'' \<in> set n then js_lower n
      else js_lower (replace_vout_sep CHR ''.'' CHR ''_'' n))"

definition toDottedOutpoint :: "string \<Rightarrow> string" where
  "toDottedOutpoint outpoint = replace_vout_sep CHR ''_'' CHR ''.'' (toUnderscoreOutpoint outpoint)"

text \<open>\<open>normalizeOutpointKey\<close> of \<open>txLifecycle.ts\<close>.\<close>

definition normalizeOutpointKey :: "string \<Rightarrow> string" where
  "normalizeOutpointKey outpoint = toUnderscoreOutpoint outpoint"

lemma takeWhile_lower: "takeWhile js_digit (js_lower s) = js_lower (takeWhile js_digit s)"
  by (induction s) (auto simp: js_lower_def)

lemma dropWhile_digit_lower: "dropWhile js_digit (js_lower s) = js_lower (dropWhile js_digit s)"
  by (induction s) (auto simp: js_lower_def)

lemma js_lower_Cons: "js_lower (c # s) = js_lower_char c # js_lower s"
  by (simp add: js_lower_def)

lemma underscore_lower [simp]: "CHR ''_'' \<in> set (js_lower s) \<longleftrightarrow> CHR ''_'' \<in> set s"
  using js_lower_char_low [of "CHR ''_''"] by (auto simp: js_lower_def image_iff eq_commute)

lemma lower_dot [simp]: "js_lower_char c = CHR ''.'' \<longleftrightarrow> c = CHR ''.''"
  using js_lower_char_low [of "CHR ''.''"] by simp

text \<open>Replacing the separator either changes nothing or leaves the new separator behind.\<close>

lemma replace_vout_sep_cases:
  "replace_vout_sep old new s = s \<or> new \<in> set (replace_vout_sep old new s)"
  by (auto simp: replace_vout_sep_def Let_def split: list.splits)

lemma replace_vout_sep_lower:
  assumes "replace_vout_sep CHR ''.'' new s = s" and "new \<noteq> CHR ''.''"
  shows "replace_vout_sep CHR ''.'' new (js_lower s) = js_lower s"
proof (cases "dropWhile js_digit (rev s)")
  case Nil
  have "dropWhile js_digit (rev (js_lower s)) = []"
    by (simp only: rev_lower dropWhile_digit_lower Nil) (simp add: js_lower_def)
  then show ?thesis
    by (simp only: replace_vout_sep_def Let_def) simp
next
  case (Cons c t)
  have keep: "\<not> (c = CHR ''.'' \<and> takeWhile js_digit (rev s) \<noteq> [])"
  proof
    assume h: "c = CHR ''.'' \<and> takeWhile js_digit (rev s) \<noteq> []"
    have "rev s = takeWhile js_digit (rev s) @ c # t"
      using Cons by (metis takeWhile_dropWhile_id)
    then have "s = rev t @ c # rev (takeWhile js_digit (rev s))"
      by (metis rev.simps(2) rev_append rev_rev_ident append.assoc append_Cons append_Nil)
    moreover have "s = rev t @ new # rev (takeWhile js_digit (rev s))"
      using assms(1) h Cons by (simp add: replace_vout_sep_def Let_def)
    ultimately have "c = new"
      by (metis append_same_eq list.inject same_append_eq)
    then show False using h assms(2) by simp
  qed
  then show ?thesis
    using Cons
    by (auto simp: replace_vout_sep_def Let_def rev_lower dropWhile_digit_lower takeWhile_lower
        js_lower_Cons)
qed

text \<open>A trimmed text neither starts nor ends with a blank.\<close>

lemma dropWhile_length_hd:
  "s \<noteq> [] \<Longrightarrow> P (hd s) \<Longrightarrow> length (dropWhile P s) < length s"
  by (cases s) (auto simp: le_imp_less_Suc length_dropWhile_le)

lemma dropWhile_id_hd: "s \<noteq> [] \<Longrightarrow> \<not> P (hd s) \<Longrightarrow> dropWhile P s = s"
  by (cases s) auto

lemma js_trim_id_iff:
  "js_trim s = s \<longleftrightarrow> s = [] \<or> (\<not> js_space (hd s) \<and> \<not> js_space (last s))"
proof
  assume t: "js_trim s = s"
  have le: "length (js_trim s) \<le> length (dropWhile js_space s)"
    by (simp add: js_trim_def) (metis length_dropWhile_le length_rev)
  have "\<not> js_space (hd s)" if "s \<noteq> []"
    using that t le dropWhile_length_hd [of s js_space] by force
  moreover have "\<not> js_space (last s)" if ne: "s \<noteq> []"
  proof
    assume sp: "js_space (last s)"
    have "dropWhile js_space s = s"
      using \<open>s \<noteq> [] \<Longrightarrow> \<not> js_space (hd s)\<close> ne by (simp add: dropWhile_id_hd)
    then have "length (js_trim s) < length s"
      using dropWhile_length_hd [of "rev s" js_space] ne sp by (simp add: js_trim_def hd_rev)
    then show False using t by simp
  qed
  ultimately show "s = [] \<or> (\<not> js_space (hd s) \<and> \<not> js_space (last s))" by blast
next
  assume "s = [] \<or> (\<not> js_space (hd s) \<and> \<not> js_space (last s))"
  then show "js_trim s = s"
    by (cases "s = []") (simp_all add: js_trim_def dropWhile_id_hd hd_rev)
qed

lemma replace_vout_sep_trim:
  assumes "js_trim s = s"
  shows "js_trim (replace_vout_sep CHR ''.'' CHR ''_'' s) = replace_vout_sep CHR ''.'' CHR ''_'' s"
proof (cases "replace_vout_sep CHR ''.'' CHR ''_'' s = s")
  case True
  then show ?thesis using assms by simp
next
  case False
  define ds where "ds = rev (takeWhile js_digit (rev s))"
  from False obtain t where d: "dropWhile js_digit (rev s) = CHR ''.'' # t"
    and ds: "ds \<noteq> []"
    and r: "replace_vout_sep CHR ''.'' CHR ''_'' s = rev t @ CHR ''_'' # ds"
    by (auto simp: replace_vout_sep_def Let_def ds_def split: list.splits if_splits)
  have "rev s = takeWhile js_digit (rev s) @ CHR ''.'' # t"
    using d by (metis takeWhile_dropWhile_id)
  then have "rev (rev s) = rev (takeWhile js_digit (rev s) @ CHR ''.'' # t)"
    by (rule arg_cong)
  then have s: "s = rev t @ CHR ''.'' # ds"
    by (simp add: ds_def)
  have "\<not> js_space (last s) \<and> \<not> js_space (hd s)"
    using assms s by (auto simp: js_trim_id_iff)
  then have "\<not> js_space (last (rev t @ CHR ''_'' # ds)) \<and> \<not> js_space (hd (rev t @ CHR ''_'' # ds))"
    using ds unfolding s by (cases "rev t") (auto simp: js_space_def)
  then show ?thesis
    unfolding r by (simp add: js_trim_id_iff)
qed

text \<open>Normalising twice is normalising once: a stored key is found again.\<close>

lemma toUnderscoreOutpoint_idem [simp]:
  "toUnderscoreOutpoint (toUnderscoreOutpoint p) = toUnderscoreOutpoint p"
proof -
  define n where "n = js_trim p"
  define r where "r = replace_vout_sep CHR ''.'' CHR ''_'' n"
  have n: "js_trim n = n" by (simp add: n_def)
  have rt: "js_trim r = r" unfolding r_def by (rule replace_vout_sep_trim [OF n])
  show ?thesis
  proof (cases "CHR ''_'' \<in> set n")
    case True
    then show ?thesis
      using n by (simp add: toUnderscoreOutpoint_def Let_def n_def [symmetric] js_trim_lower)
  next
    case False
    have u: "toUnderscoreOutpoint p = js_lower r"
      using False by (simp add: toUnderscoreOutpoint_def Let_def n_def [symmetric] r_def)
    have tr: "js_trim (js_lower r) = js_lower r"
      by (simp add: js_trim_lower rt)
    show ?thesis
    proof (cases "CHR ''_'' \<in> set r")
      case True
      then show ?thesis unfolding u by (simp add: toUnderscoreOutpoint_def tr Let_def)
    next
      case nr: False
      then have "r = n"
        using replace_vout_sep_cases [of "CHR ''.''" "CHR ''_''" n] by (simp add: r_def)
      then have "replace_vout_sep CHR ''.'' CHR ''_'' (js_lower r) = js_lower r"
        by (intro replace_vout_sep_lower) (simp_all add: r_def)
      then show ?thesis
        using nr unfolding u by (simp add: toUnderscoreOutpoint_def tr Let_def)
    qed
  qed
qed

lemma normalizeOutpointKey_idem [simp]:
  "normalizeOutpointKey (normalizeOutpointKey p) = normalizeOutpointKey p"
  by (simp add: normalizeOutpointKey_def)

end
