(* ===== verification/Utxo_Overlay.thy ===== *)
theory Utxo_Overlay
  imports Outpoint_Format
begin

text \<open>
  The optimistic UTXO overlay: \<open>src/src/wallet/utxoLifecycle.ts\<close> (the record, its JSON
  reader and its predicates) and \<open>src/src/wallet/utxoLockManager.ts\<close> (the overlay map and
  every operation on it). The state holds the in-memory map (\<open>cache\<close>, \<open>None\<close> until first
  loaded), the pending write (\<open>dirtyKey\<close>, \<open>flushQueued\<close>), the un-seal counter, the durable
  store as parsed JSON per storage key, and the storage key of the account in use
  (\<open>storageKey()\<close>). The microtask that runs the queued flush is an operation of its own,
  so any interleaving of operations and flushes is a list of operations. Listener
  callbacks are not modelled: they change no state here.
\<close>

section \<open>The overlay record (\<open>utxoLifecycle.ts\<close>)\<close>

record utxo_lock =
  ul_outpoint :: string
  ul_spendable :: bool
  ul_spentBy :: "string option"
  ul_lockOwnerId :: "string option"
  ul_satoshis :: int
  ul_diagnostic :: "string option"
  ul_lockedAt :: int
  ul_updatedAt :: int

text \<open>\<open>LEGACY_STATUS\<close>: the Cloud names of 1.2.233 as (spendable, spentBy, reserved).\<close>

definition LEGACY_STATUS :: "string \<Rightarrow> (bool \<times> string option \<times> bool) option" where
  "LEGACY_STATUS = map_of
     [(''UNSPENT'', (True, None, False)),
      (''SOFT_LOCKED_PENDING'', (True, None, True)),
      (''SPENT_CONFIRMED'', (False, Some [], False)),
      (''FROZEN_ERROR'', (False, None, False)),
      (''available'', (True, None, False)),
      (''selected'', (True, None, True)),
      (''spent'', (False, Some [], False)),
      (''quarantine'', (False, None, False))]"

fun asBool :: "json option \<Rightarrow> bool \<Rightarrow> bool" where
  "asBool (Some (JBool b)) fallback = b"
| "asBool _ fallback = fallback"

fun asSpentBy :: "json option \<Rightarrow> string option" where
  "asSpentBy (Some (JStr s)) = Some s"
| "asSpentBy (Some (JNum n)) = Some (show_int n)"
| "asSpentBy _ = None"

text \<open>The BRC-38 or legacy \<open>(spendable, spentBy)\<close> of a row; \<open>None\<close> when it has neither.\<close>

definition coerce_spend_fields :: "json \<Rightarrow> (bool \<times> string option) option" where
  "coerce_spend_fields r =
     (if json_bool (json_field r ''spendable'') \<noteq> None \<or> json_field r ''spentBy'' \<noteq> None then
        (let unspent = (json_field r ''spentBy'' = None \<or> json_field r ''spentBy'' = Some JNull);
             spentBy = asSpentBy (json_field r ''spentBy'')
         in Some (if spentBy \<noteq> None then False else asBool (json_field r ''spendable'') unspent, spentBy))
      else case json_str (json_field r ''status'') of
        None \<Rightarrow> None
      | Some status \<Rightarrow>
          (case LEGACY_STATUS status of
             None \<Rightarrow> None
           | Some (spendable, spentBy, reserved) \<Rightarrow>
               if reserved \<and> (case json_str (json_field r ''lockOwnerId'') of None \<Rightarrow> True | Some o' \<Rightarrow> o' = [])
               then Some (True, None) else Some (spendable, spentBy)))"

definition coerceUtxoLock :: "int \<Rightarrow> json \<Rightarrow> utxo_lock option" where
  "coerceUtxoLock now row =
     (case json_str (json_field row ''outpoint'') of
        None \<Rightarrow> None
      | Some p \<Rightarrow>
          (case coerce_spend_fields row of
             None \<Rightarrow> None
           | Some (spendable, spentBy) \<Rightarrow> Some
               \<lparr>ul_outpoint = normalizeOutpointKey p,
                ul_spendable = (if spentBy \<noteq> None then False else spendable),
                ul_spentBy = spentBy,
                ul_lockOwnerId = (if spentBy \<noteq> None then None else json_str (json_field row ''lockOwnerId'')),
                ul_satoshis = max 0 (js_number_or_0 (json_field row ''satoshis'')),
                ul_diagnostic = json_str (json_field row ''diagnostic''),
                ul_lockedAt = (case json_int (json_field row ''lockedAt'') of Some t \<Rightarrow> t | None \<Rightarrow> now),
                ul_updatedAt = (case json_int (json_field row ''updatedAt'') of Some t \<Rightarrow> t | None \<Rightarrow> now)\<rparr>))"

definition isConsumed :: "utxo_lock \<Rightarrow> bool" where
  "isConsumed r = (ul_spentBy r \<noteq> None)"

definition isReserved :: "utxo_lock \<Rightarrow> bool" where
  "isReserved r = (ul_lockOwnerId r \<noteq> None \<and> ul_spentBy r = None)"

definition isUnspendable :: "utxo_lock \<Rightarrow> bool" where
  "isUnspendable r = (\<not> ul_spendable r \<and> ul_spentBy r = None \<and> ul_lockOwnerId r = None)"

definition isQuarantined :: "utxo_lock \<Rightarrow> bool" where
  "isQuarantined r = (case ul_diagnostic r of None \<Rightarrow> False | Some d \<Rightarrow> prefix ''quarantine:'' d)"

definition isHiddenFromSpend :: "utxo_lock \<Rightarrow> bool" where
  "isHiddenFromSpend r = (\<not> ul_spendable r \<or> ul_lockOwnerId r \<noteq> None \<or> ul_spentBy r \<noteq> None)"

definition countsTowardSpendable :: "utxo_lock \<Rightarrow> bool" where
  "countsTowardSpendable r = (ul_spendable r \<and> ul_spentBy r = None \<and> ul_lockOwnerId r = None)"

definition canMarkSpendable :: "utxo_lock \<Rightarrow> bool" where
  "canMarkSpendable r = (ul_spentBy r = None)"

definition makeUtxoLock :: "int \<Rightarrow> string \<Rightarrow> int \<Rightarrow> string \<Rightarrow> utxo_lock" where
  "makeUtxoLock now outpoint satoshis lockOwnerId =
     \<lparr>ul_outpoint = normalizeOutpointKey outpoint, ul_spendable = True, ul_spentBy = None,
      ul_lockOwnerId = Some lockOwnerId, ul_satoshis = max 0 satoshis, ul_diagnostic = None,
      ul_lockedAt = now, ul_updatedAt = now\<rparr>"

named_theorems lock_preds
declare isConsumed_def [lock_preds] isReserved_def [lock_preds] isUnspendable_def [lock_preds]
  canMarkSpendable_def [lock_preds] isHiddenFromSpend_def [lock_preds] countsTowardSpendable_def [lock_preds]

text \<open>The predicates partition the coins: exactly one of the four states holds.\<close>

lemma lock_state_partition:
  "isConsumed r \<noteq> (isReserved r \<noteq> (isUnspendable r \<noteq> countsTowardSpendable r))"
  "isHiddenFromSpend r = (\<not> countsTowardSpendable r)"
  by (auto simp: lock_preds)

section \<open>State of the overlay (\<open>utxoLockManager.ts\<close>)\<close>

record overlay =
  ov_cache :: "(string, utxo_lock) jsmap option"
  ov_dirtyKey :: "string option"
  ov_flushQueued :: bool
  ov_unsealGeneration :: nat
  ov_durable :: "(string, json) jsmap"
  ov_storageKey :: string

definition MAX_ENTRIES :: nat where
  "MAX_ENTRIES = 2000"

text \<open>The loop of \<open>load\<close> over the parsed rows.\<close>

fun load_rows :: "int \<Rightarrow> json list \<Rightarrow> (string, utxo_lock) jsmap \<Rightarrow> (string, utxo_lock) jsmap" where
  "load_rows now [] m = m"
| "load_rows now (row # rows) m =
     (case coerceUtxoLock now row of
        None \<Rightarrow> load_rows now rows m
      | Some r \<Rightarrow> load_rows now rows (jsmap_set (ul_outpoint r) r m))"

definition durable_rows :: "overlay \<Rightarrow> json list" where
  "durable_rows st = (case jsmap_get (ov_durable st) (ov_storageKey st) of
     Some (JArr rows) \<Rightarrow> rows | _ \<Rightarrow> [])"

definition ov_load :: "int \<Rightarrow> overlay \<Rightarrow> overlay" where
  "ov_load now st = (case ov_cache st of
     Some m \<Rightarrow> st
   | None \<Rightarrow> st\<lparr>ov_cache := Some (load_rows now (durable_rows st) [])\<rparr>)"

definition ov_map :: "overlay \<Rightarrow> (string, utxo_lock) jsmap" where
  "ov_map st = (case ov_cache st of Some m \<Rightarrow> m | None \<Rightarrow> [])"

definition persist :: "overlay \<Rightarrow> overlay" where
  "persist st = st\<lparr>ov_dirtyKey := Some (ov_storageKey st), ov_flushQueued := True\<rparr>"

text \<open>\<open>JSON.stringify\<close> of a row.\<close>

definition lock_to_json :: "utxo_lock \<Rightarrow> json" where
  "lock_to_json r = JObj
     [(''outpoint'', JStr (ul_outpoint r)), (''spendable'', JBool (ul_spendable r)),
      (''spentBy'', opt_json (ul_spentBy r)), (''lockOwnerId'', opt_json (ul_lockOwnerId r)),
      (''satoshis'', JNum (ul_satoshis r)), (''diagnostic'', opt_json (ul_diagnostic r)),
      (''lockedAt'', JNum (ul_lockedAt r)), (''updatedAt'', JNum (ul_updatedAt r))]"

text \<open>
  The cap of \<open>flushUtxoLocks\<close>: \<open>ordered\<close> is newest first, so \<open>pop\<close> takes the oldest; the
  argument here is that list reversed. The loop stops at the first row it may not forget.
\<close>

fun evict_oldest :: "utxo_lock list \<Rightarrow> (string, utxo_lock) jsmap \<Rightarrow> (string, utxo_lock) jsmap" where
  "evict_oldest [] m = m"
| "evict_oldest (oldest # rest) m =
     (if length (oldest # rest) > MAX_ENTRIES then
        (if isConsumed oldest then evict_oldest rest (jsmap_delete (ul_outpoint oldest) m) else m)
      else m)"

definition cap_entries :: "(string, utxo_lock) jsmap \<Rightarrow> (string, utxo_lock) jsmap" where
  "cap_entries m =
     (if length m > MAX_ENTRIES
      then evict_oldest (rev (sort_key (\<lambda>r. - ul_updatedAt r) (map snd m))) m else m)"

definition flushUtxoLocks :: "int \<Rightarrow> overlay \<Rightarrow> overlay" where
  "flushUtxoLocks now st0 =
     (let st = st0\<lparr>ov_flushQueued := False\<rparr> in
      case ov_dirtyKey st of
        None \<Rightarrow> st
      | Some key \<Rightarrow>
          (let st1 = st\<lparr>ov_dirtyKey := None\<rparr> in
           if key \<noteq> ov_storageKey st1 then st1
           else let st2 = ov_load now st1; m = cap_entries (ov_map st2)
                in st2\<lparr>ov_cache := Some m,
                       ov_durable := jsmap_set key (JArr (map (lock_to_json \<circ> snd) m)) (ov_durable st2)\<rparr>))"

definition put :: "int \<Rightarrow> utxo_lock \<Rightarrow> overlay \<Rightarrow> overlay" where
  "put now r st =
     (let st1 = ov_load now st
      in persist (st1\<lparr>ov_cache := Some (jsmap_set (ul_outpoint r) r (ov_map st1))\<rparr>))"

section \<open>Operations\<close>

text \<open>
  \<open>Partial<...>\<close> of \<open>upsertUtxoLock\<close>: the outer \<open>None\<close> is \<open>undefined\<close>; for \<open>spentBy\<close>,
  \<open>lockOwnerId\<close> and \<open>diagnostic\<close> the inner \<open>None\<close> is \<open>null\<close>.
\<close>

record lock_patch =
  pt_spendable :: "bool option"
  pt_spentBy :: "string option option"
  pt_lockOwnerId :: "string option option"
  pt_diagnostic :: "string option option"
  pt_satoshis :: "int option"

definition upsert_record :: "int \<Rightarrow> string \<Rightarrow> utxo_lock option \<Rightarrow> lock_patch \<Rightarrow> utxo_lock" where
  "upsert_record now key cur patch =
     (let nextSpentBy = (case pt_spentBy patch of Some v \<Rightarrow> v | None \<Rightarrow> Option.bind cur ul_spentBy) in
      \<lparr>ul_outpoint = key,
       ul_spendable = (if nextSpentBy \<noteq> None then False
         else case pt_spendable patch of Some b \<Rightarrow> b
              | None \<Rightarrow> (case cur of Some c \<Rightarrow> ul_spendable c | None \<Rightarrow> True)),
       ul_spentBy = nextSpentBy,
       ul_lockOwnerId = (if nextSpentBy \<noteq> None then None
         else case pt_lockOwnerId patch of Some v \<Rightarrow> v | None \<Rightarrow> Option.bind cur ul_lockOwnerId),
       ul_satoshis = max 0 (case pt_satoshis patch of Some n \<Rightarrow> n
         | None \<Rightarrow> (case cur of Some c \<Rightarrow> ul_satoshis c | None \<Rightarrow> 0)),
       ul_diagnostic = (case pt_diagnostic patch of Some v \<Rightarrow> v | None \<Rightarrow> Option.bind cur ul_diagnostic),
       ul_lockedAt = (case cur of Some c \<Rightarrow> ul_lockedAt c | None \<Rightarrow> now),
       ul_updatedAt = now\<rparr>)"

definition upsertUtxoLock :: "int \<Rightarrow> string \<Rightarrow> lock_patch \<Rightarrow> overlay \<Rightarrow> overlay \<times> utxo_lock" where
  "upsertUtxoLock now outpoint patch st0 =
     (let st = ov_load now st0; key = normalizeOutpointKey outpoint; cur = jsmap_get (ov_map st) key in
      case cur of
        Some c \<Rightarrow>
          if isConsumed c \<and> (pt_spendable patch = Some True \<or> pt_spentBy patch = Some None) then (st, c)
          else (let r = upsert_record now key cur patch in (put now r st, r))
      | None \<Rightarrow> (let r = upsert_record now key None patch in (put now r st, r)))"

definition hideUtxo :: "int \<Rightarrow> string \<Rightarrow> string option \<Rightarrow> int option \<Rightarrow> string option \<Rightarrow> overlay \<Rightarrow> overlay \<times> utxo_lock" where
  "hideUtxo now outpoint spentBy satoshis diagnostic =
     upsertUtxoLock now outpoint
       \<lparr>pt_spendable = Some False, pt_spentBy = Some spentBy, pt_lockOwnerId = Some None,
        pt_diagnostic = Some diagnostic, pt_satoshis = satoshis\<rparr>"

definition releaseConsumedUtxo :: "int \<Rightarrow> string \<Rightarrow> string \<Rightarrow> overlay \<Rightarrow> overlay \<times> utxo_lock option" where
  "releaseConsumedUtxo now outpoint diagnostic st0 =
     (let st = ov_load now st0; key = normalizeOutpointKey outpoint in
      case jsmap_get (ov_map st) key of
        None \<Rightarrow> (st, None)
      | Some cur \<Rightarrow>
          (let r = cur\<lparr>ul_spendable := True, ul_spentBy := None, ul_lockOwnerId := None,
                       ul_diagnostic := Some diagnostic, ul_updatedAt := now\<rparr>
           in (put now r (st\<lparr>ov_unsealGeneration := Suc (ov_unsealGeneration st)\<rparr>), Some r)))"

definition getUtxoLock :: "int \<Rightarrow> overlay \<Rightarrow> string \<Rightarrow> utxo_lock option" where
  "getUtxoLock now st outpoint = jsmap_get (ov_map (ov_load now st)) (normalizeOutpointKey outpoint)"

definition creditUtxo :: "int \<Rightarrow> string \<Rightarrow> int option \<Rightarrow> overlay \<Rightarrow> overlay \<times> utxo_lock option" where
  "creditUtxo now outpoint satoshis st0 =
     (let st = ov_load now st0; cur = getUtxoLock now st outpoint in
      if (case cur of Some c \<Rightarrow> isConsumed c | None \<Rightarrow> False) then (st, cur)
      else
        (let revived = (case cur of Some c \<Rightarrow> isUnspendable c | None \<Rightarrow> False);
             (st1, r) = upsertUtxoLock now outpoint
               \<lparr>pt_spendable = Some True, pt_spentBy = Some None, pt_lockOwnerId = Some None,
                pt_diagnostic = Some None, pt_satoshis = satoshis\<rparr> st
         in (if revived then st1\<lparr>ov_unsealGeneration := Suc (ov_unsealGeneration st1)\<rparr> else st1, Some r)))"

definition sealedSpenderOf :: "int \<Rightarrow> overlay \<Rightarrow> string \<Rightarrow> string option" where
  "sealedSpenderOf now st outpoint =
     (case getUtxoLock now st outpoint of
        None \<Rightarrow> None
      | Some r \<Rightarrow>
          if ul_spendable r then None
          else (let by' = (case ul_spentBy r of Some s \<Rightarrow> js_lower (js_trim s) | None \<Rightarrow> [])
                in if hex_of_len 64 by' then Some by' else None))"

definition isUtxoBlockedFromRestore :: "int \<Rightarrow> overlay \<Rightarrow> string \<Rightarrow> bool" where
  "isUtxoBlockedFromRestore now st outpoint =
     (case getUtxoLock now st outpoint of None \<Rightarrow> False | Some r \<Rightarrow> isConsumed r \<or> isReserved r)"

text \<open>\<open>rebindUtxoLocksForAccount\<close>, after the account's storage key has changed.\<close>

definition rebindUtxoLocksForAccount :: "int \<Rightarrow> overlay \<Rightarrow> overlay" where
  "rebindUtxoLocksForAccount now st =
     ov_load now ((flushUtxoLocks now st)\<lparr>ov_cache := None, ov_unsealGeneration := 0\<rparr>)"

datatype lock_refusal =
    AlreadyReserved string
  | AlreadySpent string
  | NotSpendable string

text \<open>The checking loop of \<open>softLockInputs\<close>: the map is only read.\<close>

fun soft_lock_prepare ::
  "int \<Rightarrow> string \<Rightarrow> (string, utxo_lock) jsmap \<Rightarrow> (string \<times> int) list \<Rightarrow> lock_refusal + utxo_lock list" where
  "soft_lock_prepare now owner m [] = Inr []"
| "soft_lock_prepare now owner m ((outpoint, satoshis) # inputs) =
     (let key = normalizeOutpointKey outpoint;
          go = (case soft_lock_prepare now owner m inputs of
                  Inl e \<Rightarrow> Inl e
                | Inr locks \<Rightarrow> Inr (makeUtxoLock now key satoshis owner # locks))
      in case jsmap_get m key of
           Some existing \<Rightarrow>
             if isReserved existing \<and> ul_lockOwnerId existing \<noteq> Some owner then Inl (AlreadyReserved key)
             else if isConsumed existing then Inl (AlreadySpent key)
             else if isUnspendable existing then Inl (NotSpendable key)
             else go
         | None \<Rightarrow> go)"

definition softLockInputs ::
  "int \<Rightarrow> string \<Rightarrow> (string \<times> int) list \<Rightarrow> overlay \<Rightarrow> overlay \<times> (lock_refusal + utxo_lock list)" where
  "softLockInputs now owner inputs st0 =
     (let st = ov_load now st0 in
      case soft_lock_prepare now owner (ov_map st) inputs of
        Inl e \<Rightarrow> (st, Inl e)
      | Inr prepared \<Rightarrow>
          (persist (st\<lparr>ov_cache := Some (fold (\<lambda>l m. jsmap_set (ul_outpoint l) l m) prepared (ov_map st))\<rparr>),
           Inr prepared))"

text \<open>A loop over all rows that rewrites those that match, and persists when any did.\<close>

definition rewrite_rows :: "int \<Rightarrow> (utxo_lock \<Rightarrow> bool) \<Rightarrow> (utxo_lock \<Rightarrow> utxo_lock) \<Rightarrow> overlay \<Rightarrow> overlay \<times> nat" where
  "rewrite_rows now hit f st0 =
     (let st = ov_load now st0;
          n = length (filter (hit \<circ> snd) (ov_map st));
          st1 = st\<lparr>ov_cache := Some (jsmap_map (\<lambda>r. if hit r then f r else r) (ov_map st))\<rparr>
      in (if n > 0 then persist st1 else st1, n))"

definition rollbackLocks :: "int \<Rightarrow> string \<Rightarrow> overlay \<Rightarrow> overlay \<times> nat" where
  "rollbackLocks now owner =
     rewrite_rows now (\<lambda>r. isReserved r \<and> ul_lockOwnerId r = Some owner)
       (\<lambda>r. r\<lparr>ul_spendable := True, ul_spentBy := None, ul_lockOwnerId := None,
              ul_diagnostic := None, ul_updatedAt := now\<rparr>)"

definition confirmSpentLocks :: "int \<Rightarrow> string \<Rightarrow> string option \<Rightarrow> overlay \<Rightarrow> overlay \<times> nat" where
  "confirmSpentLocks now owner spentBy =
     (let spender = (case spentBy of Some s \<Rightarrow> js_lower (js_trim s) | None \<Rightarrow> []);
          named = (if hex_of_len 64 spender then Some spender else None)
      in rewrite_rows now (\<lambda>r. isReserved r \<and> ul_lockOwnerId r = Some owner)
           (\<lambda>r. r\<lparr>ul_spendable := False, ul_spentBy := named, ul_lockOwnerId := None,
                  ul_diagnostic := (if named \<noteq> None then ul_diagnostic r else Some ''quarantine:spent-unknown''),
                  ul_updatedAt := now\<rparr>))"

definition UTXO_RESERVATION_TTL_MS :: int where
  "UTXO_RESERVATION_TTL_MS = 15 * 60000"

definition expireStaleUtxoReservations :: "int \<Rightarrow> string list \<Rightarrow> int \<Rightarrow> overlay \<Rightarrow> overlay \<times> nat" where
  "expireStaleUtxoReservations now liveOwnerIds ttl =
     (let live = filter (\<lambda>s. s \<noteq> []) (map js_trim liveOwnerIds) in
      rewrite_rows now
        (\<lambda>r. isReserved r \<and> (case ul_lockOwnerId r of None \<Rightarrow> False | Some owner \<Rightarrow> owner \<noteq> [] \<and> owner \<notin> set live)
             \<and> \<not> (now - ul_lockedAt r < ttl))
        (\<lambda>r. r\<lparr>ul_spendable := True, ul_spentBy := None, ul_lockOwnerId := None,
               ul_diagnostic := Some ''reservation-expired'', ul_updatedAt := now\<rparr>))"

definition freezeUtxo :: "int \<Rightarrow> string \<Rightarrow> string \<Rightarrow> overlay \<Rightarrow> overlay \<times> utxo_lock" where
  "freezeUtxo now outpoint diagnostic = hideUtxo now outpoint None None (Some diagnostic)"

definition thawUtxo :: "int \<Rightarrow> string \<Rightarrow> overlay \<Rightarrow> overlay \<times> utxo_lock option" where
  "thawUtxo now outpoint st0 =
     (let st = ov_load now st0; cur = getUtxoLock now st outpoint in
      case cur of
        Some c \<Rightarrow>
          if isConsumed c \<or> \<not> canMarkSpendable c \<or> isQuarantined c then (st, cur)
          else (let (st1, r) = upsertUtxoLock now outpoint
                  \<lparr>pt_spendable = Some True, pt_spentBy = Some None, pt_lockOwnerId = Some None,
                   pt_diagnostic = Some None, pt_satoshis = None\<rparr> st in (st1, Some r))
      | None \<Rightarrow>
          (let (st1, r) = upsertUtxoLock now outpoint
                  \<lparr>pt_spendable = Some True, pt_spentBy = Some None, pt_lockOwnerId = Some None,
                   pt_diagnostic = Some None, pt_satoshis = None\<rparr> st in (st1, Some r)))"

definition softLockedSatsTotal :: "int \<Rightarrow> overlay \<Rightarrow> int" where
  "softLockedSatsTotal now st =
     sum_list (map (\<lambda>(k, r). if isReserved r then ul_satoshis r else 0) (ov_map (ov_load now st)))"

definition optimisticSpendableSats :: "int \<Rightarrow> overlay \<Rightarrow> int \<Rightarrow> int" where
  "optimisticSpendableSats now st toolboxSpendableSats =
     (let base = max 0 toolboxSpendableSats in max 0 (base - softLockedSatsTotal now st))"

text \<open>
  One operation of the module, with the time it runs at. \<open>SwitchAccount\<close> is the change of
  the account scope that the caller makes before \<open>rebindUtxoLocksForAccount\<close>; \<open>Flush\<close> is
  the queued microtask or an explicit call.
\<close>

datatype overlay_op =
    Upsert string lock_patch
  | Hide string "string option" "int option" "string option"
  | ReleaseConsumed string string
  | Credit string "int option"
  | SoftLock string "(string \<times> int) list"
  | Rollback string
  | ConfirmSpent string "string option"
  | Expire "string list" int
  | Freeze string string
  | Thaw string
  | Flush
  | SwitchAccount string
  | Rebind

fun overlay_step :: "overlay \<Rightarrow> int \<times> overlay_op \<Rightarrow> overlay" where
  "overlay_step st (now, Upsert p patch) = fst (upsertUtxoLock now p patch st)"
| "overlay_step st (now, Hide p by' sats d) = fst (hideUtxo now p by' sats d st)"
| "overlay_step st (now, ReleaseConsumed p d) = fst (releaseConsumedUtxo now p d st)"
| "overlay_step st (now, Credit p sats) = fst (creditUtxo now p sats st)"
| "overlay_step st (now, SoftLock owner inputs) = fst (softLockInputs now owner inputs st)"
| "overlay_step st (now, Rollback owner) = fst (rollbackLocks now owner st)"
| "overlay_step st (now, ConfirmSpent owner by') = fst (confirmSpentLocks now owner by' st)"
| "overlay_step st (now, Expire live ttl) = fst (expireStaleUtxoReservations now live ttl st)"
| "overlay_step st (now, Freeze p d) = fst (freezeUtxo now p d st)"
| "overlay_step st (now, Thaw p) = fst (thawUtxo now p st)"
| "overlay_step st (now, Flush) = flushUtxoLocks now st"
| "overlay_step st (now, SwitchAccount key) = st\<lparr>ov_storageKey := key\<rparr>"
| "overlay_step st (now, Rebind) = rebindUtxoLocksForAccount now st"

section \<open>The invariant\<close>

text \<open>
  Every row sits under its own normalised outpoint, a consumed row is neither spendable nor
  reserved, amounts are non-negative, and no key repeats.
\<close>

definition lock_ok :: "string \<Rightarrow> utxo_lock \<Rightarrow> bool" where
  "lock_ok k r = (ul_outpoint r = k \<and> normalizeOutpointKey k = k \<and>
     (ul_spentBy r \<noteq> None \<longrightarrow> \<not> ul_spendable r \<and> ul_lockOwnerId r = None) \<and> 0 \<le> ul_satoshis r)"

definition rows_ok :: "(string, utxo_lock) jsmap \<Rightarrow> bool" where
  "rows_ok m = (jsmap_wf m \<and> (\<forall>(k, r) \<in> set m. lock_ok k r))"

definition overlay_inv :: "overlay \<Rightarrow> bool" where
  "overlay_inv st = (case ov_cache st of None \<Rightarrow> True | Some m \<Rightarrow> rows_ok m)"

lemma ov_load_simps [simp]:
  "ov_load now' (ov_load now st) = ov_load now st"
  "ov_durable (ov_load now st) = ov_durable st"
  "ov_storageKey (ov_load now st) = ov_storageKey st"
  "ov_dirtyKey (ov_load now st) = ov_dirtyKey st"
  "ov_flushQueued (ov_load now st) = ov_flushQueued st"
  "ov_unsealGeneration (ov_load now st) = ov_unsealGeneration st"
  "ov_cache st = Some m \<Longrightarrow> ov_load now st = st"
  "ov_cache (ov_load now st) = Some (ov_map (ov_load now st))"
  by (auto simp: ov_load_def ov_map_def split: option.splits)

lemma persist_simps [simp]:
  "ov_cache (persist st) = ov_cache st"
  "ov_map (persist st) = ov_map st"
  "ov_load now (persist st) = persist (ov_load now st)"
  by (auto simp: persist_def ov_map_def ov_load_def durable_rows_def split: option.splits)

lemma ov_map_cache [simp]: "ov_map (st\<lparr>ov_cache := Some m\<rparr>) = m"
  by (simp add: ov_map_def)

lemma ov_map_gen [simp]:
  "ov_map (st\<lparr>ov_unsealGeneration := g\<rparr>) = ov_map st"
  "ov_map (st\<lparr>ov_durable := d\<rparr>) = ov_map st"
  "ov_map (st\<lparr>ov_storageKey := k\<rparr>) = ov_map st"
  "ov_load now (st\<lparr>ov_unsealGeneration := g\<rparr>) = (ov_load now st)\<lparr>ov_unsealGeneration := g\<rparr>"
  by (auto simp: ov_map_def ov_load_def durable_rows_def split: option.splits)

lemma rows_ok_Nil [simp]: "rows_ok []"
  by (simp add: rows_ok_def jsmap_wf_def)

lemma rows_ok_set: "rows_ok m \<Longrightarrow> lock_ok k r \<Longrightarrow> rows_ok (jsmap_set k r m)"
  by (auto simp: rows_ok_def dest!: jsmap_set_in)

lemma rows_ok_delete: "rows_ok m \<Longrightarrow> rows_ok (jsmap_delete k m)"
  by (auto simp: rows_ok_def dest!: jsmap_delete_in)

lemma rows_ok_map:
  "rows_ok m \<Longrightarrow> (\<And>k r. lock_ok k r \<Longrightarrow> lock_ok k (f r)) \<Longrightarrow> rows_ok (jsmap_map f m)"
  by (auto simp: rows_ok_def jsmap_map_def jsmap_wf_def comp_def case_prod_unfold)

lemma rows_ok_get: "rows_ok m \<Longrightarrow> jsmap_get m k = Some r \<Longrightarrow> lock_ok k r"
  by (auto simp: rows_ok_def dest: map_of_SomeD)

lemma coerce_ok: "coerceUtxoLock now row = Some r \<Longrightarrow> lock_ok (ul_outpoint r) r"
  by (auto simp: coerceUtxoLock_def lock_ok_def split: option.splits)

lemma load_rows_ok: "rows_ok m \<Longrightarrow> rows_ok (load_rows now rows m)"
  by (induction rows arbitrary: m) (auto simp: coerce_ok rows_ok_set split: option.splits)

lemma ov_load_ok: "overlay_inv st \<Longrightarrow> rows_ok (ov_map (ov_load now st))"
  by (auto simp: overlay_inv_def ov_load_def ov_map_def load_rows_ok split: option.splits)

lemma ov_load_inv [simp]: "overlay_inv st \<Longrightarrow> overlay_inv (ov_load now st)"
  by (simp add: overlay_inv_def [of "ov_load now st"] ov_load_ok)

lemma persist_inv [simp]: "overlay_inv (persist st) = overlay_inv st"
  by (simp add: overlay_inv_def)

lemma overlay_inv_updates [simp]:
  "overlay_inv (st\<lparr>ov_unsealGeneration := g\<rparr>) = overlay_inv st"
  "overlay_inv (st\<lparr>ov_storageKey := k\<rparr>) = overlay_inv st"
  "overlay_inv (st\<lparr>ov_dirtyKey := dk\<rparr>) = overlay_inv st"
  "overlay_inv (st\<lparr>ov_flushQueued := q\<rparr>) = overlay_inv st"
  "overlay_inv (st\<lparr>ov_durable := d\<rparr>) = overlay_inv st"
  "overlay_inv (st\<lparr>ov_cache := Some m\<rparr>) = rows_ok m"
  by (auto simp: overlay_inv_def)

lemma put_inv: "overlay_inv st \<Longrightarrow> lock_ok (ul_outpoint r) r \<Longrightarrow> overlay_inv (put now r st)"
  by (simp add: put_def Let_def rows_ok_set ov_load_ok)

lemma upsert_record_ok: "normalizeOutpointKey key = key \<Longrightarrow> lock_ok key (upsert_record now key cur patch)"
  by (auto simp: upsert_record_def lock_ok_def Let_def)

lemma upsert_record_outpoint [simp]: "ul_outpoint (upsert_record now key cur patch) = key"
  by (simp add: upsert_record_def Let_def)

lemma upsert_inv [simp]: "overlay_inv st \<Longrightarrow> overlay_inv (fst (upsertUtxoLock now p patch st))"
  by (auto simp: upsertUtxoLock_def Let_def upsert_record_ok split: option.splits intro!: put_inv)

lemma release_inv [simp]: "overlay_inv st \<Longrightarrow> overlay_inv (fst (releaseConsumedUtxo now p d st))"
proof -
  assume inv: "overlay_inv st"
  have "lock_ok (normalizeOutpointKey p)
      (r\<lparr>ul_spendable := True, ul_spentBy := None, ul_lockOwnerId := None, ul_diagnostic := Some d,
         ul_updatedAt := now\<rparr>)"
    if "jsmap_get (ov_map (ov_load now st)) (normalizeOutpointKey p) = Some r" for r
    using rows_ok_get [OF ov_load_ok [OF inv] that] by (simp add: lock_ok_def)
  then show ?thesis
    using inv by (auto simp: releaseConsumedUtxo_def Let_def lock_ok_def split: option.splits intro!: put_inv)
qed

lemma hide_inv [simp]: "overlay_inv st \<Longrightarrow> overlay_inv (fst (hideUtxo now p by' sats d st))"
  by (simp add: hideUtxo_def)

lemma freeze_inv [simp]: "overlay_inv st \<Longrightarrow> overlay_inv (fst (freezeUtxo now p d st))"
  by (simp add: freezeUtxo_def)

lemma credit_inv [simp]: "overlay_inv st \<Longrightarrow> overlay_inv (fst (creditUtxo now p sats st))"
  by (simp add: creditUtxo_def Let_def case_prod_unfold)

lemma thaw_inv [simp]: "overlay_inv st \<Longrightarrow> overlay_inv (fst (thawUtxo now p st))"
  by (simp add: thawUtxo_def Let_def case_prod_unfold split: option.splits)

lemma makeUtxoLock_ok: "lock_ok (normalizeOutpointKey p) (makeUtxoLock now p sats owner)"
  by (simp add: makeUtxoLock_def lock_ok_def)

lemma soft_lock_prepare_ok:
  "soft_lock_prepare now owner m inputs = Inr locks \<Longrightarrow> l \<in> set locks \<Longrightarrow> lock_ok (ul_outpoint l) l"
proof (induction inputs arbitrary: locks)
  case Nil
  then show ?case by simp
next
  case (Cons i inputs)
  then show ?case
    using makeUtxoLock_ok [of "normalizeOutpointKey (fst i)" now "snd i" owner]
    by (cases i) (auto simp: Let_def lock_ok_def split: option.splits if_splits sum.splits)
qed

lemma fold_set_rows_ok:
  "rows_ok m \<Longrightarrow> (\<And>l. l \<in> set ls \<Longrightarrow> lock_ok (ul_outpoint l) l) \<Longrightarrow>
   rows_ok (fold (\<lambda>l m. jsmap_set (ul_outpoint l) l m) ls m)"
  by (induction ls arbitrary: m) (auto simp: rows_ok_set)

lemma soft_lock_inv [simp]: "overlay_inv st \<Longrightarrow> overlay_inv (fst (softLockInputs now owner inputs st))"
  by (auto simp: softLockInputs_def Let_def ov_load_ok dest: soft_lock_prepare_ok
      intro!: fold_set_rows_ok split: sum.splits)

lemma rewrite_rows_inv:
  "overlay_inv st \<Longrightarrow> (\<And>k r. lock_ok k r \<Longrightarrow> hit r \<Longrightarrow> lock_ok k (f r)) \<Longrightarrow>
   overlay_inv (fst (rewrite_rows now hit f st))"
  by (auto simp: rewrite_rows_def Let_def intro!: rows_ok_map ov_load_ok)

lemma rollback_inv [simp]: "overlay_inv st \<Longrightarrow> overlay_inv (fst (rollbackLocks now owner st))"
  unfolding rollbackLocks_def by (rule rewrite_rows_inv) (auto simp: lock_ok_def)

lemma confirm_inv [simp]: "overlay_inv st \<Longrightarrow> overlay_inv (fst (confirmSpentLocks now owner by' st))"
  unfolding confirmSpentLocks_def Let_def by (rule rewrite_rows_inv) (auto simp: lock_ok_def)

lemma expire_inv [simp]: "overlay_inv st \<Longrightarrow> overlay_inv (fst (expireStaleUtxoReservations now live ttl st))"
  unfolding expireStaleUtxoReservations_def Let_def by (rule rewrite_rows_inv) (auto simp: lock_ok_def)

lemma evict_ok: "rows_ok m \<Longrightarrow> rows_ok (evict_oldest rs m)"
  by (induction rs arbitrary: m) (auto simp: rows_ok_delete)

lemma cap_ok: "rows_ok m \<Longrightarrow> rows_ok (cap_entries m)"
  by (simp add: cap_entries_def evict_ok)

lemma flush_inv [simp]: "overlay_inv st \<Longrightarrow> overlay_inv (flushUtxoLocks now st)"
  by (auto simp: flushUtxoLocks_def Let_def overlay_inv_def [of "ov_durable_update _ _"]
      cap_ok ov_load_ok split: option.splits)

lemma rebind_inv [simp]: "overlay_inv st \<Longrightarrow> overlay_inv (rebindUtxoLocksForAccount now st)"
  by (auto simp: rebindUtxoLocksForAccount_def overlay_inv_def [of "ov_unsealGeneration_update _ _"] intro!: ov_load_inv)
    (simp add: overlay_inv_def)

lemma overlay_step_inv: "overlay_inv st \<Longrightarrow> overlay_inv (overlay_step st e)"
  by (cases e; cases "snd e") auto

interpretation ovl: invariant_machine overlay_step "\<lambda>_. True" overlay_inv
  by unfold_locales (rule overlay_step_inv)

section \<open>What the operations do to one coin\<close>

lemma put_map: "ov_map (put now r st) = jsmap_set (ul_outpoint r) r (ov_map (ov_load now st))"
  by (simp add: put_def Let_def)

lemma put_cache: "ov_cache (put now r st) = Some (jsmap_set (ul_outpoint r) r (ov_map (ov_load now st)))"
  by (simp add: put_def Let_def)

definition upsert_refused :: "utxo_lock option \<Rightarrow> lock_patch \<Rightarrow> bool" where
  "upsert_refused cur patch = (case cur of None \<Rightarrow> False
     | Some c \<Rightarrow> isConsumed c \<and> (pt_spendable patch = Some True \<or> pt_spentBy patch = Some None))"

lemma upsert_map:
  "ov_map (fst (upsertUtxoLock now p patch st)) =
     (let m = ov_map (ov_load now st); k = normalizeOutpointKey p; cur = jsmap_get m k in
      if upsert_refused cur patch then m else jsmap_set k (upsert_record now k cur patch) m)"
  by (auto simp: upsertUtxoLock_def upsert_refused_def Let_def put_map split: option.splits)

lemma upsert_cache: "ov_cache (fst (upsertUtxoLock now p patch st)) \<noteq> None"
  by (auto simp: upsertUtxoLock_def Let_def put_cache split: option.splits)

lemma rewrite_rows_map:
  "ov_map (fst (rewrite_rows now hit f st)) =
     jsmap_map (\<lambda>r. if hit r then f r else r) (ov_map (ov_load now st))"
  by (simp add: rewrite_rows_def Let_def)

lemma rewrite_rows_cache: "ov_cache (fst (rewrite_rows now hit f st)) \<noteq> None"
  by (simp add: rewrite_rows_def Let_def)

lemma length_jsmap_map [simp]: "length (jsmap_map f m) = length m"
  by (simp add: jsmap_map_def)

lemma length_jsmap_set: "length (jsmap_set k v m) \<le> Suc (length m)"
  by (induction m) auto

lemma length_fold_set:
  "length (fold (\<lambda>l m. jsmap_set (ul_outpoint l) l m) ls m) \<le> length m + length ls"
proof (induction ls arbitrary: m)
  case Nil
  then show ?case by simp
next
  case (Cons l ls)
  have "length (fold (\<lambda>l m. jsmap_set (ul_outpoint l) l m) ls (jsmap_set (ul_outpoint l) l m))
      \<le> length (jsmap_set (ul_outpoint l) l m) + length ls"
    by (rule Cons.IH)
  then show ?case using length_jsmap_set [of "ul_outpoint l" l m] by simp
qed

lemma soft_lock_prepare_length:
  "soft_lock_prepare now owner m inputs = Inr locks \<Longrightarrow> length locks = length inputs"
  by (induction inputs arbitrary: locks) (auto simp: Let_def split: option.splits if_splits sum.splits)

lemma soft_lock_prepare_outpoints:
  "soft_lock_prepare now owner m inputs = Inr locks \<Longrightarrow>
   map ul_outpoint locks = map (normalizeOutpointKey \<circ> fst) inputs"
  by (induction inputs arbitrary: locks)
    (auto simp: Let_def makeUtxoLock_def split: option.splits if_splits sum.splits)

lemma soft_lock_prepare_owned:
  "soft_lock_prepare now owner m inputs = Inr locks \<Longrightarrow> l \<in> set locks \<Longrightarrow>
   ul_lockOwnerId l = Some owner \<and> ul_spentBy l = None \<and> ul_spendable l"
  by (induction inputs arbitrary: locks)
    (auto simp: Let_def makeUtxoLock_def split: option.splits if_splits sum.splits)

definition lockable_by :: "string \<Rightarrow> utxo_lock option \<Rightarrow> bool" where
  "lockable_by owner c = (case c of None \<Rightarrow> True
     | Some r \<Rightarrow> \<not> isConsumed r \<and> \<not> isUnspendable r \<and> (isReserved r \<longrightarrow> ul_lockOwnerId r = Some owner))"

lemma soft_lock_prepare_free:
  "soft_lock_prepare now owner m inputs = Inr locks \<Longrightarrow> i \<in> set inputs \<Longrightarrow>
   lockable_by owner (jsmap_get m (normalizeOutpointKey (fst i)))"
proof (induction inputs arbitrary: locks)
  case Nil
  then show ?case by simp
next
  case (Cons j inputs)
  then show ?case
    by (cases j) (auto simp: Let_def lockable_by_def split: option.splits if_splits sum.splits)
qed

lemma soft_lock_prepare_was_free:
  assumes "soft_lock_prepare now owner m inputs = Inr locks" and "l \<in> set locks"
  shows "lockable_by owner (jsmap_get m (ul_outpoint l))"
proof -
  have "ul_outpoint l \<in> set (map ul_outpoint locks)" using assms(2) by simp
  then obtain i where "i \<in> set inputs" "ul_outpoint l = normalizeOutpointKey (fst i)"
    unfolding soft_lock_prepare_outpoints [OF assms(1)] by auto
  then show ?thesis using soft_lock_prepare_free [OF assms(1)] by simp
qed

lemma fold_set_get:
  "jsmap_get (fold (\<lambda>l m. jsmap_set (ul_outpoint l) l m) ls m) k =
     (case filter (\<lambda>l. ul_outpoint l = k) (rev ls) of [] \<Rightarrow> jsmap_get m k | l # _ \<Rightarrow> Some l)"
proof (induction ls arbitrary: m rule: rev_induct)
  case Nil
  then show ?case by simp
next
  case (snoc l ls)
  then show ?case by simp
qed

text \<open>How many rows an operation can add, and which operations may lift the seal of a coin.\<close>

fun op_keys :: "overlay_op \<Rightarrow> nat" where
  "op_keys (SoftLock _ inputs) = length inputs"
| "op_keys (Upsert _ _) = 1"
| "op_keys (Hide _ _ _ _) = 1"
| "op_keys (Credit _ _) = 1"
| "op_keys (Freeze _ _) = 1"
| "op_keys (Thaw _) = 1"
| "op_keys (ReleaseConsumed _ _) = 1"
| "op_keys _ = 0"

fun lifts_seal :: "string \<Rightarrow> overlay_op \<Rightarrow> bool" where
  "lifts_seal k (ReleaseConsumed p _) = (normalizeOutpointKey p = k)"
| "lifts_seal k (SwitchAccount _) = True"
| "lifts_seal k Rebind = True"
| "lifts_seal k _ = False"

definition sealed_coin :: "string \<Rightarrow> nat \<Rightarrow> overlay \<Rightarrow> bool" where
  "sealed_coin k n st = (\<exists>m r. ov_cache st = Some m \<and> length m \<le> n \<and> jsmap_get m k = Some r \<and> isConsumed r)"

lemma sealed_coin_map: "sealed_coin k n st \<Longrightarrow> ov_map st = m \<Longrightarrow> length m \<le> n \<and> (\<exists>r. jsmap_get m k = Some r \<and> isConsumed r)"
  by (auto simp: sealed_coin_def ov_map_def)

lemma sealed_coin_load [simp]: "sealed_coin k n st \<Longrightarrow> ov_load now st = st"
  by (auto simp: sealed_coin_def)

lemma sealed_coinI:
  "ov_cache st \<noteq> None \<Longrightarrow> length (ov_map st) \<le> n \<Longrightarrow> jsmap_get (ov_map st) k = Some r \<Longrightarrow> isConsumed r \<Longrightarrow>
   sealed_coin k n st"
  by (auto simp: sealed_coin_def ov_map_def)

lemma upsert_record_consumed:
  "isConsumed c \<Longrightarrow> \<not> upsert_refused (Some c) patch \<Longrightarrow> isConsumed (upsert_record now k (Some c) patch)"
  by (auto simp: isConsumed_def upsert_refused_def upsert_record_def Let_def split: option.splits)

lemma upsert_sealed:
  assumes s: "sealed_coin k n st"
  shows "sealed_coin k (Suc n) (fst (upsertUtxoLock now p patch st))"
proof -
  obtain r where r: "jsmap_get (ov_map st) k = Some r" "isConsumed r" and n: "length (ov_map st) \<le> n"
    using sealed_coin_map [OF s refl] by blast
  let ?m = "ov_map (fst (upsertUtxoLock now p patch st))"
  have "length ?m \<le> Suc n"
    using n le_trans [OF length_jsmap_set [of "normalizeOutpointKey p" _ "ov_map st"], of "Suc n"]
    by (simp add: upsert_map Let_def sealed_coin_load [OF s])
  moreover have "\<exists>r'. jsmap_get ?m k = Some r' \<and> isConsumed r'"
    using r by (auto simp: upsert_map Let_def sealed_coin_load [OF s] intro: upsert_record_consumed)
  ultimately show ?thesis
    using upsert_cache by (blast intro: sealed_coinI)
qed

lemma rewrite_sealed:
  assumes s: "sealed_coin k n st" and hit: "\<And>r. isConsumed r \<Longrightarrow> \<not> hit r"
  shows "sealed_coin k n (fst (rewrite_rows now hit f st))"
proof -
  obtain r where r: "jsmap_get (ov_map st) k = Some r" "isConsumed r" and n: "length (ov_map st) \<le> n"
    using sealed_coin_map [OF s refl] by blast
  show ?thesis
    by (rule sealed_coinI [where r = r])
      (use r n hit in \<open>simp_all add: rewrite_rows_map rewrite_rows_cache sealed_coin_load [OF s]\<close>)
qed

lemma sealed_coin_mono: "sealed_coin k n st \<Longrightarrow> n \<le> n' \<Longrightarrow> sealed_coin k n' st"
  by (fastforce simp: sealed_coin_def)

lemma sealed_coin_gen [simp]: "sealed_coin k n (st\<lparr>ov_unsealGeneration := g\<rparr>) = sealed_coin k n st"
  by (simp add: sealed_coin_def)

lemma release_sealed:
  assumes s: "sealed_coin k n st" and "normalizeOutpointKey p \<noteq> k" and "overlay_inv st"
  shows "sealed_coin k (Suc n) (fst (releaseConsumedUtxo now p d st))"
proof (cases "jsmap_get (ov_map st) (normalizeOutpointKey p)")
  case None
  then show ?thesis
    using s by (simp add: releaseConsumedUtxo_def Let_def sealed_coin_load [OF s] sealed_coin_mono)
next
  case (Some c)
  obtain r where r: "jsmap_get (ov_map st) k = Some r" "isConsumed r" and n: "length (ov_map st) \<le> n"
    using sealed_coin_map [OF s refl] by blast
  have "ul_outpoint c = normalizeOutpointKey p"
    using rows_ok_get [OF ov_load_ok [OF assms(3), of now]] Some
    by (simp add: sealed_coin_load [OF s] lock_ok_def)
  then have m: "ov_map (fst (releaseConsumedUtxo now p d st)) = jsmap_set (normalizeOutpointKey p)
      (c\<lparr>ul_spendable := True, ul_spentBy := None, ul_lockOwnerId := None, ul_diagnostic := Some d,
         ul_updatedAt := now\<rparr>) (ov_map st)"
    using Some by (simp add: releaseConsumedUtxo_def Let_def sealed_coin_load [OF s] put_map)
  show ?thesis
  proof (rule sealed_coinI)
    show "ov_cache (fst (releaseConsumedUtxo now p d st)) \<noteq> None"
      using Some by (simp add: releaseConsumedUtxo_def Let_def sealed_coin_load [OF s] put_cache)
    show "length (ov_map (fst (releaseConsumedUtxo now p d st))) \<le> Suc n"
      unfolding m by (rule le_trans [OF length_jsmap_set]) (use n in simp)
    show "jsmap_get (ov_map (fst (releaseConsumedUtxo now p d st))) k = Some r"
      unfolding m using r assms(2) by simp
  qed (rule r)
qed

lemma soft_lock_sealed:
  assumes s: "sealed_coin k n st"
  shows "sealed_coin k (n + length inputs) (fst (softLockInputs now owner inputs st))"
proof (cases "soft_lock_prepare now owner (ov_map st) inputs")
  case (Inl e)
  then show ?thesis using s by (simp add: softLockInputs_def Let_def sealed_coin_mono)
next
  case (Inr locks)
  obtain r where r: "jsmap_get (ov_map st) k = Some r" "isConsumed r" and n: "length (ov_map st) \<le> n"
    using sealed_coin_map [OF s refl] by blast
  have "ul_outpoint l \<noteq> k" if "l \<in> set locks" for l
    using soft_lock_prepare_was_free [OF Inr that] r by (auto simp: lockable_by_def)
  then have "filter (\<lambda>l. ul_outpoint l = k) (rev locks) = []"
    by (simp add: filter_empty_conv)
  moreover have "length (fold (\<lambda>l m. jsmap_set (ul_outpoint l) l m) locks (ov_map st)) \<le> n + length inputs"
    using length_fold_set [of locks "ov_map st"] n soft_lock_prepare_length [OF Inr] by simp
  ultimately show ?thesis
    using Inr r
    by (intro sealed_coinI [where r = r])
      (simp_all add: softLockInputs_def Let_def sealed_coin_load [OF s] fold_set_get)
qed

lemma cap_small: "length m \<le> MAX_ENTRIES \<Longrightarrow> cap_entries m = m"
  by (simp add: cap_entries_def)

lemma flush_map_small:
  assumes "ov_cache st = Some m" and "length m \<le> MAX_ENTRIES"
  shows "ov_cache (flushUtxoLocks now st) = Some m"
  using assms by (auto simp: flushUtxoLocks_def Let_def ov_load_def ov_map_def cap_small split: option.splits)

lemma overlay_step_sealed:
  assumes s: "sealed_coin k n st" and inv: "overlay_inv st" and keep: "\<not> lifts_seal k op"
    and cap: "n \<le> MAX_ENTRIES"
  shows "sealed_coin k (n + op_keys op) (overlay_step st (now, op))"
proof -
  note load = sealed_coin_load [OF s]
  have res: "\<not> isReserved r" if "isConsumed r" for r
    using that by (simp add: lock_preds)
  have mono: "sealed_coin k (Suc n) st" by (rule sealed_coin_mono [OF s]) simp
  show ?thesis
  proof (cases op)
    case (ReleaseConsumed p d)
    then show ?thesis using keep release_sealed [OF s _ inv] by simp
  next
    case (Credit p sats)
    then show ?thesis
      using upsert_sealed [OF s] mono by (simp add: creditUtxo_def Let_def load case_prod_unfold)
  next
    case (Thaw p)
    then show ?thesis
      using upsert_sealed [OF s] mono by (simp add: thawUtxo_def Let_def load case_prod_unfold split: option.splits)
  next
    case Flush
    obtain m where m: "ov_cache st = Some m" "length m \<le> n"
      using s by (auto simp: sealed_coin_def)
    have "ov_cache (flushUtxoLocks now st) = ov_cache st"
      using flush_map_small [OF m(1) le_trans [OF m(2) cap]] m(1) by simp
    then show ?thesis using s Flush by (simp add: sealed_coin_def)
  next
    case (ConfirmSpent owner by')
    then show ?thesis
      by (auto simp: confirmSpentLocks_def Let_def res intro!: rewrite_sealed [OF s])
  next
    case (Expire live ttl)
    then show ?thesis
      by (auto simp: expireStaleUtxoReservations_def Let_def res intro!: rewrite_sealed [OF s])
  next
    case (Rollback owner)
    then show ?thesis
      by (auto simp: rollbackLocks_def res intro!: rewrite_sealed [OF s])
  qed (use keep upsert_sealed [OF s] soft_lock_sealed [OF s] in \<open>simp_all add: hideUtxo_def freezeUtxo_def\<close>)
qed

lemma overlay_run_sealed:
  assumes "sealed_coin k n st" and "overlay_inv st" and "list_all (\<lambda>e. \<not> lifts_seal k (snd e)) es"
    and "n + sum_list (map (op_keys \<circ> snd) es) \<le> MAX_ENTRIES"
  shows "sealed_coin k (n + sum_list (map (op_keys \<circ> snd) es)) (fold_steps overlay_step st es)"
  using assms
proof (induction es arbitrary: st n)
  case Nil
  then show ?case by simp
next
  case (Cons e es)
  obtain now op where e: "e = (now, op)" by (cases e)
  have "sealed_coin k (n + op_keys op) (overlay_step st (now, op))"
    using Cons.prems e by (intro overlay_step_sealed) auto
  from Cons.IH [OF this overlay_step_inv [OF Cons.prems(2)]]
  show ?case using Cons.prems e by (simp add: add.assoc)
qed

text \<open>
  The durable text is a faithful copy: reading back what was written gives the same map,
  in the same order.
\<close>

lemma coerce_lock_to_json: "lock_ok k r \<Longrightarrow> coerceUtxoLock now (lock_to_json r) = Some r"
  by (cases r; cases "ul_spentBy r"; cases "ul_lockOwnerId r"; cases "ul_diagnostic r")
    (auto simp: coerceUtxoLock_def coerce_spend_fields_def lock_to_json_def lock_ok_def opt_json_def)

lemma load_rows_written:
  "rows_ok (m0 @ m) \<Longrightarrow> load_rows now (map (lock_to_json \<circ> snd) m) m0 = m0 @ m"
proof (induction m arbitrary: m0)
  case Nil
  then show ?case by simp
next
  case (Cons kr m)
  obtain k r where kr: "kr = (k, r)" by (cases kr)
  have ok: "lock_ok k r" using Cons.prems kr by (simp add: rows_ok_def)
  have new: "jsmap_set k r m0 = m0 @ [(k, r)]"
    using Cons.prems kr by (intro jsmap_set_new) (auto simp: rows_ok_def jsmap_wf_def)
  have "ul_outpoint r = k" using ok by (simp add: lock_ok_def)
  then show ?case
    using Cons.IH [of "m0 @ [(k, r)]"] Cons.prems kr new by (simp add: coerce_lock_to_json [OF ok])
qed

text \<open>The cap forgets consumed rows only.\<close>

lemma evict_keeps:
  "(\<And>r. r \<in> set rs \<Longrightarrow> lock_ok (ul_outpoint r) r \<and> jsmap_get m (ul_outpoint r) = Some r) \<Longrightarrow>
   distinct (map ul_outpoint rs) \<Longrightarrow> jsmap_get m k = Some c \<Longrightarrow> \<not> isConsumed c \<Longrightarrow>
   jsmap_get (evict_oldest rs m) k = Some c"
proof (induction rs arbitrary: m)
  case Nil
  then show ?case by simp
next
  case (Cons a rs)
  show ?case
  proof (cases "length (a # rs) > MAX_ENTRIES \<and> isConsumed a")
    case False
    then show ?thesis using Cons.prems(3) by auto
  next
    case True
    have "jsmap_get m (ul_outpoint a) = Some a" using Cons.prems(1) by simp
    then have "ul_outpoint a \<noteq> k" using True Cons.prems(3,4) by auto
    moreover have "ul_outpoint r \<noteq> ul_outpoint a" if "r \<in> set rs" for r
      using Cons.prems(2) that by (metis distinct.simps(2) imageI list.set_map list.simps(9))
    ultimately have "jsmap_get (evict_oldest rs (jsmap_delete (ul_outpoint a) m)) k = Some c"
      using Cons.prems by (intro Cons.IH) auto
    then show ?thesis using True by simp
  qed
qed

lemma rows_ok_outpoints: "rows_ok m \<Longrightarrow> map (ul_outpoint \<circ> snd) m = map fst m"
  by (auto simp: rows_ok_def lock_ok_def)

lemma cap_keeps:
  assumes ok: "rows_ok m" and get: "jsmap_get m k = Some c" "\<not> isConsumed c"
  shows "jsmap_get (cap_entries m) k = Some c"
proof -
  have row: "lock_ok (ul_outpoint r) r \<and> jsmap_get m (ul_outpoint r) = Some r" if "r \<in> snd ` set m" for r
  proof -
    from that obtain k' where kr: "(k', r) \<in> set m" by auto
    then have "lock_ok k' r" using ok by (auto simp: rows_ok_def)
    then show ?thesis using kr ok by (auto simp: rows_ok_def jsmap_wf_def lock_ok_def)
  qed
  have "distinct (map ul_outpoint (map snd m))"
    unfolding map_map rows_ok_outpoints [OF ok] using ok by (simp add: rows_ok_def jsmap_wf_def)
  then have d: "distinct (map ul_outpoint (rev (sort_key (\<lambda>r. - ul_updatedAt r) (map snd m))))"
    unfolding distinct_map [of ul_outpoint] by simp
  have rows: "lock_ok (ul_outpoint r) r \<and> jsmap_get m (ul_outpoint r) = Some r"
    if "r \<in> set (rev (sort_key (\<lambda>r. - ul_updatedAt r) (map snd m)))" for r
    using that by (intro row) simp
  show ?thesis
    using evict_keeps [OF rows d get] get(1) by (simp add: cap_entries_def)
qed

section \<open>Facts the properties share\<close>

definition boot :: "(string, json) jsmap \<Rightarrow> string \<Rightarrow> overlay" where
  "boot durable key = \<lparr>ov_cache = None, ov_dirtyKey = None, ov_flushQueued = False,
     ov_unsealGeneration = 0, ov_durable = durable, ov_storageKey = key\<rparr>"

definition loaded :: "(string, utxo_lock) jsmap \<Rightarrow> overlay" where
  "loaded m = (boot [] ''k'')\<lparr>ov_cache := Some m\<rparr>"

lemma ov_load_empty: "ov_cache st = None \<Longrightarrow> ov_map (ov_load now st) = load_rows now (durable_rows st) []"
  by (simp add: ov_load_def)

lemma ov_map_durable_cache [simp]: "ov_map (st\<lparr>ov_cache := Some m, ov_durable := d\<rparr>) = m"
  by (simp add: ov_map_def)

lemma overlay_inv_boot [simp]: "overlay_inv (boot durable key)"
  by (simp add: overlay_inv_def boot_def)

definition reserved_sats :: "(string, utxo_lock) jsmap \<Rightarrow> int" where
  "reserved_sats m = sum_list (map (\<lambda>(k, r). if isReserved r then ul_satoshis r else 0) m)"

lemma softLockedSatsTotal_map: "softLockedSatsTotal now st = reserved_sats (ov_map (ov_load now st))"
  by (simp add: softLockedSatsTotal_def reserved_sats_def)

lemma reserved_sats_set:
  "\<not> isReserved v \<Longrightarrow> (\<And>u. jsmap_get m k = Some u \<Longrightarrow> \<not> isReserved u) \<Longrightarrow>
   reserved_sats (jsmap_set k v m) = reserved_sats m"
  by (induction m) (auto simp: reserved_sats_def)

lemma jsmap_map_set: "jsmap_map f (jsmap_set k v m) = jsmap_set k (f v) (jsmap_map f m)"
  by (induction m) (auto simp: jsmap_map_def)

lemma reserved_sats_fold:
  assumes "\<And>l. l \<in> set ls \<Longrightarrow> \<not> isReserved (f l) \<and>
      (\<forall>u. jsmap_get m (ul_outpoint l) = Some u \<longrightarrow> \<not> isReserved (f u))"
  shows "reserved_sats (jsmap_map f (fold (\<lambda>l m. jsmap_set (ul_outpoint l) l m) ls m))
       = reserved_sats (jsmap_map f m)"
  using assms
proof (induction ls rule: rev_induct)
  case Nil
  then show ?case by simp
next
  case (snoc l ls)
  let ?g = "\<lambda>ls. fold (\<lambda>l m. jsmap_set (ul_outpoint l) l m) ls m"
  have "reserved_sats (jsmap_set (ul_outpoint l) (f l) (jsmap_map f (?g ls))) = reserved_sats (jsmap_map f (?g ls))"
  proof (rule reserved_sats_set)
    fix u assume "jsmap_get (jsmap_map f (?g ls)) (ul_outpoint l) = Some u"
    then obtain w where w: "jsmap_get (?g ls) (ul_outpoint l) = Some w" "u = f w" by auto
    show "\<not> isReserved u"
    proof (cases "filter (\<lambda>l'. ul_outpoint l' = ul_outpoint l) (rev ls)")
      case Nil
      then show ?thesis using w snoc.prems [of l] by (simp add: fold_set_get)
    next
      case (Cons l' t)
      then have "l' \<in> set ls" by (metis Cons_eq_filterD in_set_conv_decomp set_rev)
      then show ?thesis using w Cons snoc.prems [of l'] by (simp add: fold_set_get)
    qed
  qed (use snoc.prems [of l] in simp)
  moreover have "reserved_sats (jsmap_map f (?g ls)) = reserved_sats (jsmap_map f m)"
    by (rule snoc.IH) (rule snoc.prems, simp)
  ultimately show ?case by (simp add: jsmap_map_set)
qed

lemma soft_lock_map:
  assumes "softLockInputs now owner inputs st = (st', Inr locks)"
  shows "ov_map st' = fold (\<lambda>l m. jsmap_set (ul_outpoint l) l m) locks (ov_map (ov_load now st))"
    and "ov_cache st' \<noteq> None"
    and "soft_lock_prepare now owner (ov_map (ov_load now st)) inputs = Inr locks"
  using assms by (auto simp: softLockInputs_def Let_def split: sum.splits)

lemma soft_lock_get:
  assumes run: "softLockInputs now owner inputs st = (st', Inr locks)" and p: "p \<in> fst ` set inputs"
  shows "\<exists>r. getUtxoLock now' st' p = Some r \<and> isReserved r \<and> ul_lockOwnerId r = Some owner"
proof -
  obtain m where c: "ov_cache st' = Some m" using soft_lock_map(2) [OF run] by blast
  have "normalizeOutpointKey p \<in> set (map ul_outpoint locks)"
    unfolding soft_lock_prepare_outpoints [OF soft_lock_map(3) [OF run]] using p by force
  then obtain l where l: "l \<in> set locks" "ul_outpoint l = normalizeOutpointKey p" by auto
  let ?hits = "filter (\<lambda>l. ul_outpoint l = normalizeOutpointKey p) (rev locks)"
  from l have "l \<in> set ?hits" by simp
  then obtain h t where h: "?hits = h # t" by (cases ?hits) auto
  then have hl: "h \<in> set locks" by (metis Cons_eq_filterD in_set_conv_decomp set_rev)
  have "getUtxoLock now' st' p = Some h"
    using c h by (simp add: getUtxoLock_def soft_lock_map(1) [OF run] fold_set_get)
  then show ?thesis
    using soft_lock_prepare_owned [OF soft_lock_map(3) [OF run] hl] by (auto simp: isReserved_def)
qed

lemma rewrite_rows_get:
  assumes "ov_cache st \<noteq> None"
  shows "getUtxoLock now' (fst (rewrite_rows now hit f st)) p =
     map_option (\<lambda>r. if hit r then f r else r) (getUtxoLock now st p)"
proof -
  obtain m where "ov_cache (fst (rewrite_rows now hit f st)) = Some m"
    using rewrite_rows_cache by blast
  then show ?thesis by (simp add: getUtxoLock_def rewrite_rows_map)
qed

section \<open>Properties\<close>

text \<open>C1. Whatever sequence of overlay operations, flushes and account switches runs from
  module start, over any durable text: every cached row sits under its own normalised key, a
  consumed row is neither spendable nor reserved, amounts are non-negative, no key repeats.\<close>

theorem overlay_run_keeps_rows_wellformed:
  "overlay_inv (fold_steps overlay_step (boot durable key) es)"
  by (rule ovl.run_inv) (simp_all add: list_all_iff)

text \<open>C2. A coin known to be consumed stays consumed through any run that does not release
  that very coin and does not switch account, as long as the run cannot push the map over
  its cap: no upsert, credit, thaw, rollback, lock, expiry or flush un-spends it.\<close>

theorem consumed_coin_stays_consumed:
  assumes "ov_cache st = Some m" and "overlay_inv st" and "jsmap_get m (normalizeOutpointKey p) = Some r"
    and "isConsumed r"
    and "list_all (\<lambda>e. \<not> lifts_seal (normalizeOutpointKey p) (snd e)) es"
    and "length m + sum_list (map (op_keys \<circ> snd) es) \<le> MAX_ENTRIES"
  shows "\<exists>r'. getUtxoLock now (fold_steps overlay_step st es) p = Some r' \<and> isConsumed r'
    \<and> isHiddenFromSpend r' \<and> isUtxoBlockedFromRestore now (fold_steps overlay_step st es) p"
proof -
  have "sealed_coin (normalizeOutpointKey p) (length m) st"
    using assms by (auto simp: sealed_coin_def)
  from overlay_run_sealed [OF this assms(2,5,6)]
  show ?thesis
    by (auto simp: sealed_coin_def getUtxoLock_def isUtxoBlockedFromRestore_def lock_preds ov_map_def)
qed

definition spent_row :: "string \<Rightarrow> utxo_lock" where
  "spent_row k = \<lparr>ul_outpoint = k, ul_spendable = False, ul_spentBy = Some ''ab'', ul_lockOwnerId = None,
     ul_satoshis = 5, ul_diagnostic = None, ul_lockedAt = 1, ul_updatedAt = 1\<rparr>"

lemma consumed_coin_stays_consumed_witness:
  "\<exists>r'. getUtxoLock 9 (fold_steps overlay_step (loaded [(''a_0'', spent_row ''a_0'')])
      [(2, Credit ''A.0'' (Some 7)), (3, Thaw ''a_0''), (4, SoftLock ''o'' [(''b.1'', 3)]), (5, Flush)]) ''a.0'' = Some r'
    \<and> isConsumed r' \<and> isHiddenFromSpend r'
    \<and> isUtxoBlockedFromRestore 9 (fold_steps overlay_step (loaded [(''a_0'', spent_row ''a_0'')])
      [(2, Credit ''A.0'' (Some 7)), (3, Thaw ''a_0''), (4, SoftLock ''o'' [(''b.1'', 3)]), (5, Flush)]) ''a.0''"
proof -
  have k: "normalizeOutpointKey ''a.0'' = ''a_0''" "normalizeOutpointKey ''a_0'' = ''a_0''" by code_simp+
  show ?thesis
    by (rule consumed_coin_stays_consumed [where m = "[(''a_0'', spent_row ''a_0'')]" and r = "spent_row ''a_0''"])
      (simp_all add: k loaded_def spent_row_def rows_ok_def jsmap_wf_def lock_ok_def isConsumed_def MAX_ENTRIES_def)
qed

text \<open>C3. \<open>softLockInputs\<close> is all or nothing. When it succeeds, every input it was given was
  absent, free or already reserved by the same owner, each is now reserved by that owner, and
  every other coin is as before; when it refuses, no row of the map changes.\<close>

theorem softLockInputs_all_or_nothing:
  "case softLockInputs now owner inputs st of
     (st', Inr locks) \<Rightarrow>
       (\<forall>p \<in> fst ` set inputs. lockable_by owner (getUtxoLock now st p) \<and>
          (\<exists>r. getUtxoLock now st' p = Some r \<and> isReserved r \<and> ul_lockOwnerId r = Some owner)) \<and>
       (\<forall>q. normalizeOutpointKey q \<notin> normalizeOutpointKey ` fst ` set inputs \<longrightarrow>
          getUtxoLock now st' q = getUtxoLock now st q)
   | (st', Inl e) \<Rightarrow> st' = ov_load now st"
proof (cases "softLockInputs now owner inputs st")
  case (Pair st' res)
  show ?thesis
  proof (cases res)
    case (Inl e)
    then show ?thesis using Pair by (auto simp: softLockInputs_def Let_def split: sum.splits)
  next
    case (Inr locks)
    note run = Pair [unfolded Inr]
    have others: "getUtxoLock now st' q = getUtxoLock now st q"
      if q: "normalizeOutpointKey q \<notin> normalizeOutpointKey ` fst ` set inputs" for q
    proof -
      have "normalizeOutpointKey q \<notin> set (map ul_outpoint locks)"
        unfolding soft_lock_prepare_outpoints [OF soft_lock_map(3) [OF run]] using q by auto
      then have none: "filter (\<lambda>l. ul_outpoint l = normalizeOutpointKey q) (rev locks) = []"
        by (force simp: filter_empty_conv)
      obtain m where "ov_cache st' = Some m" using soft_lock_map(2) [OF run] by blast
      then show ?thesis using none by (simp add: getUtxoLock_def soft_lock_map(1) [OF run] fold_set_get)
    qed
    have mine: "lockable_by owner (getUtxoLock now st p)" if "p \<in> fst ` set inputs" for p
      using that soft_lock_prepare_free [OF soft_lock_map(3) [OF run]] by (auto simp: getUtxoLock_def)
    show ?thesis
      using others mine soft_lock_get [OF run] by (auto simp: run)
  qed
qed

lemma softLockInputs_all_or_nothing_witness:
  "getUtxoLock 3 (fst (softLockInputs 3 ''me'' [(''a.0'', 7)] (loaded [(''b_1'', spent_row ''b_1'')]))) ''b_1''
     = Some (spent_row ''b_1'')"
proof -
  have k: "normalizeOutpointKey ''a.0'' = ''a_0''" "normalizeOutpointKey ''b_1'' = ''b_1''"
    "normalizeOutpointKey ''a_0'' = ''a_0''" by code_simp+
  have run: "softLockInputs 3 ''me'' [(''a.0'', 7)] (loaded [(''b_1'', spent_row ''b_1'')]) =
     (persist (loaded [(''b_1'', spent_row ''b_1''), (''a_0'', makeUtxoLock 3 ''a_0'' 7 ''me'')]),
      Inr [makeUtxoLock 3 ''a_0'' 7 ''me''])"
    by (simp add: softLockInputs_def loaded_def Let_def k makeUtxoLock_def)
  show ?thesis
    using softLockInputs_all_or_nothing [where now = 3 and owner = "''me''" and inputs = "[(''a.0'', 7)]"
        and st = "loaded [(''b_1'', spent_row ''b_1'')]"]
    unfolding run by (simp add: k getUtxoLock_def loaded_def)
qed

text \<open>Locking inputs for a send and rolling that send back leaves the soft-locked total
  as it was, when the owner held no reservation before: a failed send does not shrink the
  balance, and releases nothing that another owner holds.\<close>

theorem rollback_restores_soft_locked_total:
  assumes run: "softLockInputs now owner inputs st = (st', Inr locks)"
    and fresh: "\<forall>r \<in> snd ` set (ov_map (ov_load now st)). ul_lockOwnerId r \<noteq> Some owner"
  shows "softLockedSatsTotal now'' (fst (rollbackLocks now' owner st')) = softLockedSatsTotal now st"
proof -
  let ?m = "ov_map (ov_load now st)"
  let ?f = "\<lambda>r. if isReserved r \<and> ul_lockOwnerId r = Some owner
     then r\<lparr>ul_spendable := True, ul_spentBy := None, ul_lockOwnerId := None, ul_diagnostic := None,
            ul_updatedAt := now'\<rparr> else r"
  obtain mm where c: "ov_cache (fst (rollbackLocks now' owner st')) = Some mm"
    unfolding rollbackLocks_def using rewrite_rows_cache by blast
  obtain m' where m': "ov_cache st' = Some m'" using soft_lock_map(2) [OF run] by blast
  have "softLockedSatsTotal now'' (fst (rollbackLocks now' owner st')) =
      reserved_sats (jsmap_map ?f (fold (\<lambda>l m. jsmap_set (ul_outpoint l) l m) locks ?m))"
    using c m' by (simp add: softLockedSatsTotal_map rollbackLocks_def rewrite_rows_map soft_lock_map(1) [OF run])
  also have "\<dots> = reserved_sats (jsmap_map ?f ?m)"
  proof (rule reserved_sats_fold)
    fix l assume l: "l \<in> set locks"
    note prep = soft_lock_map(3) [OF run]
    have "\<not> isReserved (?f l)"
      using soft_lock_prepare_owned [OF prep l] by (simp add: isReserved_def)
    moreover have "\<not> isReserved (?f u)" if "jsmap_get ?m (ul_outpoint l) = Some u" for u
      using soft_lock_prepare_was_free [OF prep l] that by (auto simp: lockable_by_def isReserved_def)
    ultimately show "\<not> isReserved (?f l) \<and>
        (\<forall>u. jsmap_get ?m (ul_outpoint l) = Some u \<longrightarrow> \<not> isReserved (?f u))" by blast
  qed
  also have "jsmap_map ?f ?m = ?m"
    unfolding jsmap_map_def by (rule map_idI) (use fresh in force)
  finally show ?thesis by (simp add: softLockedSatsTotal_map)
qed

lemma rollback_restores_soft_locked_total_witness:
  "softLockedSatsTotal 9 (fst (rollbackLocks 5 ''me''
     (fst (softLockInputs 3 ''me'' [(''a.0'', 7)] (loaded [(''b_1'', makeUtxoLock 2 ''b_1'' 4 ''you'')]))))) =
   softLockedSatsTotal 3 (loaded [(''b_1'', makeUtxoLock 2 ''b_1'' 4 ''you'')])"
proof -
  have k: "normalizeOutpointKey ''a.0'' = ''a_0''" "normalizeOutpointKey ''b_1'' = ''b_1''"
    "normalizeOutpointKey ''a_0'' = ''a_0''" by code_simp+
  show ?thesis
    by (rule rollback_restores_soft_locked_total
        [where inputs = "[(''a.0'', 7)]" and locks = "[makeUtxoLock 3 ''a_0'' 7 ''me'']"])
      (simp_all add: softLockInputs_def loaded_def Let_def k makeUtxoLock_def)
qed

text \<open>Once a send has locked its inputs, \<open>confirmSpentLocks\<close> with its txid consumes every
  one of them and each then names that txid as its spender; without a usable txid the coins
  are hidden and marked, never left spendable.\<close>

theorem confirm_consumes_locked_inputs:
  assumes run: "softLockInputs now owner inputs st = (st', Inr locks)" and p: "p \<in> fst ` set inputs"
  shows "\<exists>r. getUtxoLock now' (fst (confirmSpentLocks now' owner txid st')) p = Some r
    \<and> \<not> countsTowardSpendable r \<and> \<not> isReserved r
    \<and> (case txid of
         Some t \<Rightarrow> if hex_of_len 64 (js_lower (js_trim t))
           then sealedSpenderOf now' (fst (confirmSpentLocks now' owner txid st')) p = Some (js_lower (js_trim t))
           else isUnspendable r \<and> isQuarantined r
       | None \<Rightarrow> isUnspendable r \<and> isQuarantined r)"
proof -
  obtain r where r: "getUtxoLock now' st' p = Some r" "isReserved r" "ul_lockOwnerId r = Some owner"
    using soft_lock_get [OF run p] by blast
  note get = rewrite_rows_get [OF soft_lock_map(2) [OF run], of now' now' _ _ p]
  have h0: "\<not> hex_of_len 64 []" by (simp add: hex_of_len_def)
  show ?thesis
  proof (cases "\<exists>t. txid = Some t \<and> hex_of_len 64 (js_lower (js_trim t))")
    case True
    then obtain t where t: "txid = Some t" "hex_of_len 64 (js_lower (js_trim t))" by blast
    have l: "js_lower (js_trim (js_lower (js_trim t))) = js_lower (js_trim t)"
      by (simp add: js_trim_lower)
    show ?thesis
      using r t by (simp add: confirmSpentLocks_def Let_def get sealedSpenderOf_def lock_preds l)
  next
    case False
    then show ?thesis
      using r h0 by (auto simp: confirmSpentLocks_def Let_def get lock_preds isQuarantined_def split: option.splits)
  qed
qed

lemma confirm_consumes_locked_inputs_witness:
  "\<exists>r. getUtxoLock 4 (fst (confirmSpentLocks 4 ''me'' None
      (fst (softLockInputs 3 ''me'' [(''a.0'', 7)] (loaded []))))) ''a.0'' = Some r \<and> isUnspendable r \<and> isQuarantined r"
proof -
  have k: "normalizeOutpointKey ''a.0'' = ''a_0''" "normalizeOutpointKey ''a_0'' = ''a_0''" by code_simp+
  have "softLockInputs 3 ''me'' [(''a.0'', 7)] (loaded []) =
     (fst (softLockInputs 3 ''me'' [(''a.0'', 7)] (loaded [])), Inr [makeUtxoLock 3 ''a_0'' 7 ''me''])"
    by (simp add: softLockInputs_def loaded_def Let_def k makeUtxoLock_def)
  from confirm_consumes_locked_inputs [OF this, of "''a.0''" 4 None] show ?thesis by auto
qed

text \<open>C4. What a flush writes is what the next load reads: after \<open>flushUtxoLocks\<close> writes a
  dirty map, dropping the cache and loading again gives the capped map with every row, field
  and position unchanged; and the cap forgets no row but consumed ones.\<close>

theorem flush_then_reload_is_identity:
  assumes inv: "overlay_inv st" and dirty: "ov_dirtyKey st = Some (ov_storageKey st)"
  shows "ov_map (ov_load now' ((flushUtxoLocks now st)\<lparr>ov_cache := None\<rparr>)) = ov_map (flushUtxoLocks now st)
    \<and> (\<forall>k c. jsmap_get (ov_map (ov_load now st)) k = Some c \<longrightarrow> \<not> isConsumed c \<longrightarrow>
          jsmap_get (ov_map (flushUtxoLocks now st)) k = Some c)"
proof -
  let ?st = "st\<lparr>ov_flushQueued := False, ov_dirtyKey := None\<rparr>"
  have ok: "rows_ok (ov_map (ov_load now ?st))"
    using inv by (intro ov_load_ok) simp
  have m: "ov_map (ov_load now ?st) = ov_map (ov_load now st)"
    by (auto simp: ov_load_def ov_map_def durable_rows_def split: option.splits)
  have f: "flushUtxoLocks now st = (ov_load now ?st)\<lparr>ov_cache := Some (cap_entries (ov_map (ov_load now ?st))),
      ov_durable := jsmap_set (ov_storageKey st)
        (JArr (map (lock_to_json \<circ> snd) (cap_entries (ov_map (ov_load now ?st))))) (ov_durable st)\<rparr>"
    using dirty by (simp add: flushUtxoLocks_def Let_def)
  have "load_rows now' (map (lock_to_json \<circ> snd) (cap_entries (ov_map (ov_load now ?st)))) [] =
      cap_entries (ov_map (ov_load now ?st))"
    using load_rows_written [of "[]"] cap_ok [OF ok] by simp
  then have "ov_map (ov_load now' ((flushUtxoLocks now st)\<lparr>ov_cache := None\<rparr>)) = ov_map (flushUtxoLocks now st)"
    unfolding f by (simp add: ov_load_empty durable_rows_def)
  moreover have "ov_map (flushUtxoLocks now st) = cap_entries (ov_map (ov_load now st))"
    unfolding f m [symmetric] by simp
  ultimately show ?thesis
    using cap_keeps [OF ok] by (simp add: m)
qed

lemma flush_then_reload_is_identity_witness:
  "ov_map (ov_load 8 ((flushUtxoLocks 7 (persist (loaded [(''b_1'', spent_row ''b_1'')])))\<lparr>ov_cache := None\<rparr>)) =
     ov_map (flushUtxoLocks 7 (persist (loaded [(''b_1'', spent_row ''b_1'')])))"
proof -
  have "normalizeOutpointKey ''b_1'' = ''b_1''" by code_simp
  then have "overlay_inv (persist (loaded [(''b_1'', spent_row ''b_1'')]))"
    by (simp add: loaded_def rows_ok_def jsmap_wf_def lock_ok_def spent_row_def)
  from flush_then_reload_is_identity [OF this, of 8 7] show ?thesis by (simp add: persist_def)
qed

text \<open>Expiry touches stale reservations only: a coin that is not reserved, or whose owner
  is live, or that was locked less than the TTL ago, is unchanged; every other reserved coin
  (with a non-empty owner) becomes spendable again.\<close>

theorem expire_releases_exactly_the_stale:
  "getUtxoLock now (fst (expireStaleUtxoReservations now live ttl st)) p =
     (case getUtxoLock now st p of
        None \<Rightarrow> None
      | Some r \<Rightarrow>
          if isReserved r \<and> ul_lockOwnerId r \<noteq> Some [] \<and> the (ul_lockOwnerId r) \<notin> js_trim ` set live \<and> ttl \<le> now - ul_lockedAt r
          then Some (r\<lparr>ul_spendable := True, ul_lockOwnerId := None,
                       ul_diagnostic := Some ''reservation-expired'', ul_updatedAt := now\<rparr>)
          else Some r)"
proof -
  have c: "ov_cache (ov_load now st) \<noteq> None" by simp
  have "getUtxoLock now (fst (expireStaleUtxoReservations now live ttl st)) p =
    map_option (\<lambda>r. if isReserved r \<and> (case ul_lockOwnerId r of None \<Rightarrow> False
         | Some owner \<Rightarrow> owner \<noteq> [] \<and> owner \<notin> set (filter (\<lambda>s. s \<noteq> []) (map js_trim live)))
             \<and> \<not> (now - ul_lockedAt r < ttl)
       then r\<lparr>ul_spendable := True, ul_spentBy := None, ul_lockOwnerId := None,
               ul_diagnostic := Some ''reservation-expired'', ul_updatedAt := now\<rparr> else r)
     (getUtxoLock now (ov_load now st) p)"
    unfolding expireStaleUtxoReservations_def Let_def
    using rewrite_rows_get [OF c, of now now _ _ p] by (simp add: rewrite_rows_def)
  also have "getUtxoLock now (ov_load now st) p = getUtxoLock now st p"
    by (simp add: getUtxoLock_def)
  finally show ?thesis
    by (auto simp: isReserved_def split: option.splits)
qed

end
