(* ===== verification/Tx_Lifecycle.thy ===== *)
theory Tx_Lifecycle
  imports Outpoint_Format
begin

text \<open>
  The confirmation lifecycle of a transaction: the status graph, the ARC statuses and how
  they map to local ones (\<open>src/src/wallet/txLifecycle.ts\<close>, \<open>arcStatusMap.ts\<close>), the checks
  made before anything is locked (\<open>protocolValidate.ts\<close>) and the state chart of
  \<open>txLifecycleMachine.ts\<close>. The chart is a step function from a chart state and its context;
  an event with no transition in the current state leaves both unchanged, as XState does.
\<close>

section \<open>Statuses (\<open>txLifecycle.ts\<close>)\<close>

datatype TxStatus =
  DRAFT | VALIDATING | BROADCASTING | SEEN_IN_MEMPOOL | MINED | FAILED_REJECTED | REORG_ORPHANED

text \<open>\<open>ArcStatus\<close>; the constructors carry an \<open>A\<close> because \<open>MINED\<close> is also a \<open>TxStatus\<close>.\<close>

datatype ArcStatus =
  A_STORED | A_ANNOUNCED_TO_NETWORK | A_SEEN_ON_NETWORK | A_MINED | A_REJECTED | A_DOUBLE_SPEND_ATTEMPTED

datatype TxDiagnosticCode =
  DUST_OUTPUT | INVALID_SATOSHIS | INSUFFICIENT_FUNDS | EMPTY_INPUTS | FEE_TOO_LOW | SCRIPT_INVALID
  | PROTOCOL_REFUSE | ARC_REJECTED | ARC_DOUBLE_SPEND | BUMP_UNVERIFIED | REORG | UNKNOWN

fun TX_FORWARD :: "TxStatus \<Rightarrow> TxStatus list" where
  "TX_FORWARD DRAFT = [VALIDATING, FAILED_REJECTED]"
| "TX_FORWARD VALIDATING = [BROADCASTING, SEEN_IN_MEMPOOL, FAILED_REJECTED]"
| "TX_FORWARD BROADCASTING = [SEEN_IN_MEMPOOL, MINED, FAILED_REJECTED]"
| "TX_FORWARD SEEN_IN_MEMPOOL = [MINED, FAILED_REJECTED, REORG_ORPHANED]"
| "TX_FORWARD MINED = [REORG_ORPHANED]"
| "TX_FORWARD FAILED_REJECTED = []"
| "TX_FORWARD REORG_ORPHANED = [SEEN_IN_MEMPOOL, FAILED_REJECTED]"

definition canTransitionTx :: "TxStatus \<Rightarrow> TxStatus \<Rightarrow> bool" where
  "canTransitionTx from' to = (from' = to \<or> to \<in> set (TX_FORWARD from'))"

fun txStatusFromArc :: "ArcStatus \<Rightarrow> TxStatus" where
  "txStatusFromArc A_STORED = BROADCASTING"
| "txStatusFromArc A_ANNOUNCED_TO_NETWORK = BROADCASTING"
| "txStatusFromArc A_SEEN_ON_NETWORK = SEEN_IN_MEMPOOL"
| "txStatusFromArc A_MINED = SEEN_IN_MEMPOOL"
| "txStatusFromArc A_REJECTED = FAILED_REJECTED"
| "txStatusFromArc A_DOUBLE_SPEND_ATTEMPTED = FAILED_REJECTED"

definition diagnosticFromArc :: "ArcStatus \<Rightarrow> TxDiagnosticCode option" where
  "diagnosticFromArc arc =
     (if arc = A_REJECTED then Some ARC_REJECTED
      else if arc = A_DOUBLE_SPEND_ATTEMPTED then Some ARC_DOUBLE_SPEND else None)"

definition isHardFinal :: "TxStatus \<Rightarrow> bool" where
  "isHardFinal status = (status = MINED)"

definition isTerminalFailure :: "TxStatus \<Rightarrow> bool" where
  "isTerminalFailure status = (status = FAILED_REJECTED)"

definition isOptimisticPending :: "TxStatus \<Rightarrow> bool" where
  "isOptimisticPending status =
     (status = DRAFT \<or> status = VALIDATING \<or> status = BROADCASTING \<or> status = SEEN_IN_MEMPOOL
      \<or> status = REORG_ORPHANED)"

text \<open>The names the store writes and reads.\<close>

fun status_name :: "TxStatus \<Rightarrow> string" where
  "status_name DRAFT = ''DRAFT''"
| "status_name VALIDATING = ''VALIDATING''"
| "status_name BROADCASTING = ''BROADCASTING''"
| "status_name SEEN_IN_MEMPOOL = ''SEEN_IN_MEMPOOL''"
| "status_name MINED = ''MINED''"
| "status_name FAILED_REJECTED = ''FAILED_REJECTED''"
| "status_name REORG_ORPHANED = ''REORG_ORPHANED''"

fun arc_name :: "ArcStatus \<Rightarrow> string" where
  "arc_name A_STORED = ''STORED''"
| "arc_name A_ANNOUNCED_TO_NETWORK = ''ANNOUNCED_TO_NETWORK''"
| "arc_name A_SEEN_ON_NETWORK = ''SEEN_ON_NETWORK''"
| "arc_name A_MINED = ''MINED''"
| "arc_name A_REJECTED = ''REJECTED''"
| "arc_name A_DOUBLE_SPEND_ATTEMPTED = ''DOUBLE_SPEND_ATTEMPTED''"

fun diag_name :: "TxDiagnosticCode \<Rightarrow> string" where
  "diag_name DUST_OUTPUT = ''DUST_OUTPUT''"
| "diag_name INVALID_SATOSHIS = ''INVALID_SATOSHIS''"
| "diag_name INSUFFICIENT_FUNDS = ''INSUFFICIENT_FUNDS''"
| "diag_name EMPTY_INPUTS = ''EMPTY_INPUTS''"
| "diag_name FEE_TOO_LOW = ''FEE_TOO_LOW''"
| "diag_name SCRIPT_INVALID = ''SCRIPT_INVALID''"
| "diag_name PROTOCOL_REFUSE = ''PROTOCOL_REFUSE''"
| "diag_name ARC_REJECTED = ''ARC_REJECTED''"
| "diag_name ARC_DOUBLE_SPEND = ''ARC_DOUBLE_SPEND''"
| "diag_name BUMP_UNVERIFIED = ''BUMP_UNVERIFIED''"
| "diag_name REORG = ''REORG''"
| "diag_name UNKNOWN = ''UNKNOWN''"

definition all_statuses :: "TxStatus list" where
  "all_statuses = [DRAFT, VALIDATING, BROADCASTING, SEEN_IN_MEMPOOL, MINED, FAILED_REJECTED, REORG_ORPHANED]"

definition status_of_name :: "string \<Rightarrow> TxStatus option" where
  "status_of_name s = find (\<lambda>t. status_name t = s) all_statuses"

lemma status_of_name_name [simp]: "status_of_name (status_name t) = Some t"
  by (cases t) (simp_all add: status_of_name_def all_statuses_def)

section \<open>ARC texts (\<open>arcStatusMap.ts\<close>)\<close>

text \<open>
  \<open>toUpperCase\<close> on Latin-1. (The three characters whose upper case leaves Latin-1 are left
  as they are: no key of the table contains their upper case, so the lookup misses either way.)
\<close>

definition js_upper_char :: "char \<Rightarrow> char" where
  "js_upper_char c = (let n = (of_char c :: nat) in
     if (97 \<le> n \<and> n \<le> 122) \<or> (224 \<le> n \<and> n \<le> 254 \<and> n \<noteq> 247) then char_of (n - 32) else c)"

definition js_upper :: "string \<Rightarrow> string" where
  "js_upper s = map js_upper_char s"

text \<open>\<open>replace(/[\s-]+/g, '_')\<close>; the flag says that the previous character was one of them.\<close>

fun collapse_seps :: "bool \<Rightarrow> string \<Rightarrow> string" where
  "collapse_seps inrun [] = []"
| "collapse_seps inrun (c # s) =
     (if js_space c \<or> c = CHR ''-'' then (if inrun then collapse_seps True s else CHR ''_'' # collapse_seps True s)
      else c # collapse_seps False s)"

definition ARC_CODE_MAP :: "string \<Rightarrow> ArcStatus option" where
  "ARC_CODE_MAP = map_of
     [(''QUEUED'', A_STORED), (''RECEIVED'', A_STORED), (''STORED'', A_STORED),
      (''ANNOUNCED_TO_NETWORK'', A_ANNOUNCED_TO_NETWORK), (''ANNOUNCED'', A_ANNOUNCED_TO_NETWORK),
      (''REQUESTED_BY_NETWORK'', A_ANNOUNCED_TO_NETWORK), (''SENT_TO_NETWORK'', A_ANNOUNCED_TO_NETWORK),
      (''ACCEPTED_BY_NETWORK'', A_ANNOUNCED_TO_NETWORK), (''SEEN_ON_NETWORK'', A_SEEN_ON_NETWORK),
      (''SEEN_MULTIPLE_NODES'', A_SEEN_ON_NETWORK), (''SEEN_IN_ORPHAN_MEMPOOL'', A_SEEN_ON_NETWORK),
      (''MINED'', A_MINED), (''CONFIRMED'', A_MINED), (''IMMUTABLE'', A_MINED),
      (''REJECTED'', A_REJECTED), (''DOUBLE_SPEND_ATTEMPTED'', A_DOUBLE_SPEND_ATTEMPTED),
      (''DOUBLESPENDATTEMPTED'', A_DOUBLE_SPEND_ATTEMPTED)]"

definition parseArcStatus :: "string option \<Rightarrow> ArcStatus option" where
  "parseArcStatus raw = (case raw of
     None \<Rightarrow> None
   | Some r \<Rightarrow> if r = [] then None else ARC_CODE_MAP (collapse_seps False (js_upper (js_trim r))))"

record post_beef_summary =
  pb_accepted :: bool
  pb_doubleSpend :: bool
  pb_missingInputs :: bool

definition arcStatusFromPostBeef :: "post_beef_summary \<Rightarrow> ArcStatus" where
  "arcStatusFromPostBeef summary =
     (if pb_accepted summary then A_ANNOUNCED_TO_NETWORK
      else if pb_doubleSpend summary \<or> pb_missingInputs summary then A_DOUBLE_SPEND_ATTEMPTED
      else A_REJECTED)"

record arc_rejection_policy =
  ap_rollbackLocks :: bool
  ap_confirmSpent :: bool
  ap_releaseStaleOutputs :: bool

definition handleArcRejection :: "ArcStatus \<Rightarrow> arc_rejection_policy" where
  "handleArcRejection status = (case status of
     A_REJECTED \<Rightarrow> \<lparr>ap_rollbackLocks = True, ap_confirmSpent = False, ap_releaseStaleOutputs = False\<rparr>
   | A_DOUBLE_SPEND_ATTEMPTED \<Rightarrow> \<lparr>ap_rollbackLocks = False, ap_confirmSpent = True, ap_releaseStaleOutputs = False\<rparr>
   | _ \<Rightarrow> \<lparr>ap_rollbackLocks = False, ap_confirmSpent = False, ap_releaseStaleOutputs = False\<rparr>)"

lemma parse_arc_name: "parseArcStatus (Some (arc_name a)) = Some a"
proof (cases a)
  case A_STORED
  show ?thesis unfolding A_STORED by code_simp
next
  case A_ANNOUNCED_TO_NETWORK
  show ?thesis unfolding A_ANNOUNCED_TO_NETWORK by code_simp
next
  case A_SEEN_ON_NETWORK
  show ?thesis unfolding A_SEEN_ON_NETWORK by code_simp
next
  case A_MINED
  show ?thesis unfolding A_MINED by code_simp
next
  case A_REJECTED
  show ?thesis unfolding A_REJECTED by code_simp
next
  case A_DOUBLE_SPEND_ATTEMPTED
  show ?thesis unfolding A_DOUBLE_SPEND_ATTEMPTED by code_simp
qed

section \<open>Checks before locking (\<open>protocolValidate.ts\<close>)\<close>

definition DUST_LIMIT_SATS :: int where "DUST_LIMIT_SATS = 1"

definition MIN_FEE_FLOOR_SATS :: int where "MIN_FEE_FLOOR_SATS = 1"

record validate_input =
  vi_satoshis :: int
  vi_availableSats :: int
  vi_feeSats :: "int option"
  vi_inputOutpoints :: "string list option"
  vi_protocolRefuse :: bool
  vi_protocolRefuseDetail :: "string option"

text \<open>Amounts are integers here: the code's test that they are is part of the type.\<close>

definition validateBeforeOptimisticLock :: "validate_input \<Rightarrow> (TxDiagnosticCode \<times> string) option" where
  "validateBeforeOptimisticLock i =
     (if vi_protocolRefuse i then
        Some (PROTOCOL_REFUSE,
          (let d = (case vi_protocolRefuseDetail i of None \<Rightarrow> [] | Some s \<Rightarrow> js_trim s)
           in if d = [] then ''Protocol refused this path'' else d))
      else
        (let sats = vi_satoshis i in
         if sats \<le> 0 then Some (INVALID_SATOSHIS, ''Amount must be a positive integer satoshi value'')
         else if sats < DUST_LIMIT_SATS then
           Some (DUST_OUTPUT, ''Output '' @ show_int sats @ '' sat is below dust limit '' @ show_int DUST_LIMIT_SATS)
         else
           (let available = max 0 (vi_availableSats i);
                fee = (case vi_feeSats i of None \<Rightarrow> 0 | Some f \<Rightarrow> max 0 f)
            in if vi_feeSats i \<noteq> None \<and> fee < MIN_FEE_FLOOR_SATS then
                 Some (FEE_TOO_LOW, ''Fee '' @ show_int fee @ '' sat is below floor '' @ show_int MIN_FEE_FLOOR_SATS)
               else if available < sats + fee then
                 Some (INSUFFICIENT_FUNDS, ''Need '' @ show_int (sats + fee) @ '' sats, have '' @ show_int available)
               else if vi_inputOutpoints i = Some [] then Some (EMPTY_INPUTS, ''No UTXOs selected for this spend'')
               else None)))"

lemma validated_funds:
  "validateBeforeOptimisticLock i = None \<longleftrightarrow>
     \<not> vi_protocolRefuse i \<and> 0 < vi_satoshis i \<and> vi_inputOutpoints i \<noteq> Some [] \<and>
     (case vi_feeSats i of
        None \<Rightarrow> vi_satoshis i \<le> vi_availableSats i
      | Some f \<Rightarrow> 1 \<le> f \<and> vi_satoshis i + f \<le> vi_availableSats i)"
  by (auto simp: validateBeforeOptimisticLock_def Let_def DUST_LIMIT_SATS_def MIN_FEE_FLOOR_SATS_def
      split: option.splits if_splits)

section \<open>The state chart (\<open>txLifecycleMachine.ts\<close>)\<close>

datatype chart_state =
  Idle | Draft | Validating | Broadcasting | SeenInMempool | Mined | ReorgOrphaned | Failed

record chart_context =
  cc_id :: string
  cc_txid :: "string option"
  cc_status :: TxStatus
  cc_arcStatus :: "ArcStatus option"
  cc_diagnostic :: "TxDiagnosticCode option"
  cc_minedHeight :: "int option"
  cc_error :: "string option"

datatype chart_event =
    START string
  | VALIDATED
  | VALIDATE_FAIL TxDiagnosticCode "string option"
  | DISPATCH
  | TXID string
  | ARC ArcStatus
  | MEMPOOL
  | BUMP_VERIFIED int
  | BUMP_FAIL "string option"
  | REJECT TxDiagnosticCode "string option"
  | REORG_EV
  | REANNOUNCED
  | RESET

definition chart_initial_context :: chart_context where
  "chart_initial_context = \<lparr>cc_id = [], cc_txid = None, cc_status = DRAFT, cc_arcStatus = None,
     cc_diagnostic = None, cc_minedHeight = None, cc_error = None\<rparr>"

fun act_begin :: "chart_event \<Rightarrow> chart_context \<Rightarrow> chart_context" where
  "act_begin (START i) c = \<lparr>cc_id = i, cc_txid = None, cc_status = DRAFT, cc_arcStatus = None,
     cc_diagnostic = None, cc_minedHeight = None, cc_error = None\<rparr>"
| "act_begin _ c = c"

definition act_toMempool :: "chart_context \<Rightarrow> chart_context" where
  "act_toMempool c = c\<lparr>cc_status := SEEN_IN_MEMPOOL, cc_diagnostic := None, cc_error := None\<rparr>"

fun act_toMined :: "chart_event \<Rightarrow> chart_context \<Rightarrow> chart_context" where
  "act_toMined (BUMP_VERIFIED h) c = c\<lparr>cc_status := MINED, cc_minedHeight := Some h,
     cc_arcStatus := Some A_MINED, cc_diagnostic := None, cc_error := None\<rparr>"
| "act_toMined _ c = c"

definition or_code :: "string option \<Rightarrow> TxDiagnosticCode \<Rightarrow> string" where
  "or_code detail code = (case detail of Some d \<Rightarrow> d | None \<Rightarrow> diag_name code)"

fun act_toFailed :: "chart_event \<Rightarrow> chart_context \<Rightarrow> chart_context" where
  "act_toFailed (VALIDATE_FAIL code detail) c =
     c\<lparr>cc_status := FAILED_REJECTED, cc_diagnostic := Some code, cc_error := Some (or_code detail code)\<rparr>"
| "act_toFailed (REJECT code detail) c =
     c\<lparr>cc_status := FAILED_REJECTED, cc_diagnostic := Some code, cc_error := Some (or_code detail code)\<rparr>"
| "act_toFailed (ARC status) c =
     (let code = (if status = A_DOUBLE_SPEND_ATTEMPTED then ARC_DOUBLE_SPEND else ARC_REJECTED)
      in c\<lparr>cc_status := FAILED_REJECTED, cc_diagnostic := Some code, cc_error := Some (diag_name code),
            cc_arcStatus := Some status\<rparr>)"
| "act_toFailed (BUMP_FAIL detail) c =
     c\<lparr>cc_status := SEEN_IN_MEMPOOL, cc_diagnostic := Some BUMP_UNVERIFIED,
        cc_error := Some (or_code detail BUMP_UNVERIFIED)\<rparr>"
| "act_toFailed _ c = c"

definition act_toOrphaned :: "chart_context \<Rightarrow> chart_context" where
  "act_toOrphaned c = c\<lparr>cc_status := REORG_ORPHANED, cc_minedHeight := None, cc_diagnostic := Some REORG,
     cc_error := Some ''Block reorg orphaned this transaction''\<rparr>"

fun act_setTxid :: "chart_event \<Rightarrow> chart_context \<Rightarrow> chart_context" where
  "act_setTxid (TXID t) c = c\<lparr>cc_txid := Some (js_lower t)\<rparr>"
| "act_setTxid _ c = c"

fun act_setArc :: "chart_event \<Rightarrow> chart_context \<Rightarrow> chart_context" where
  "act_setArc (ARC s) c = c\<lparr>cc_arcStatus := Some s\<rparr>"
| "act_setArc _ c = c"

fun arcReject :: "chart_event \<Rightarrow> bool" where
  "arcReject (ARC s) = (s = A_REJECTED \<or> s = A_DOUBLE_SPEND_ATTEMPTED)"
| "arcReject _ = False"

fun arcSeen :: "chart_event \<Rightarrow> bool" where
  "arcSeen (ARC s) = (s = A_SEEN_ON_NETWORK \<or> s = A_STORED \<or> s = A_ANNOUNCED_TO_NETWORK \<or> s = A_MINED)"
| "arcSeen _ = False"

type_synonym chart = "chart_state \<times> chart_context"

fun chart_step :: "chart \<Rightarrow> chart_event \<Rightarrow> chart" where
  "chart_step (Idle, c) e = (case e of START _ \<Rightarrow> (Draft, act_begin e c) | _ \<Rightarrow> (Idle, c))"
| "chart_step (Draft, c) e = (case e of
       VALIDATED \<Rightarrow> (Validating, c\<lparr>cc_status := VALIDATING\<rparr>)
     | VALIDATE_FAIL _ _ \<Rightarrow> (Failed, act_toFailed e c)
     | _ \<Rightarrow> (Draft, c))"
| "chart_step (Validating, c) e = (case e of
       DISPATCH \<Rightarrow> (Broadcasting, c\<lparr>cc_status := BROADCASTING\<rparr>)
     | TXID _ \<Rightarrow> (Validating, act_setTxid e c)
     | MEMPOOL \<Rightarrow> (SeenInMempool, act_toMempool c)
     | VALIDATE_FAIL _ _ \<Rightarrow> (Failed, act_toFailed e c)
     | _ \<Rightarrow> (Validating, c))"
| "chart_step (Broadcasting, c) e = (case e of
       TXID _ \<Rightarrow> (Broadcasting, act_setTxid e c)
     | MEMPOOL \<Rightarrow> (SeenInMempool, act_toMempool c)
     | ARC _ \<Rightarrow> (if arcReject e then (Failed, act_toFailed e (act_setArc e c))
                else if arcSeen e then (SeenInMempool, act_toMempool (act_setArc e c))
                else (Broadcasting, c))
     | REJECT _ _ \<Rightarrow> (Failed, act_toFailed e c)
     | _ \<Rightarrow> (Broadcasting, c))"
| "chart_step (SeenInMempool, c) e = (case e of
       BUMP_VERIFIED _ \<Rightarrow> (Mined, act_toMined e c)
     | BUMP_FAIL _ \<Rightarrow> (SeenInMempool, act_toFailed e c)
     | ARC _ \<Rightarrow> (if arcReject e then (Failed, act_toFailed e (act_setArc e c)) else (SeenInMempool, act_setArc e c))
     | REJECT _ _ \<Rightarrow> (Failed, act_toFailed e c)
     | REORG_EV \<Rightarrow> (ReorgOrphaned, act_toOrphaned c)
     | _ \<Rightarrow> (SeenInMempool, c))"
| "chart_step (Mined, c) e = (case e of
       REORG_EV \<Rightarrow> (ReorgOrphaned, act_toOrphaned c)
     | RESET \<Rightarrow> (Idle, chart_initial_context)
     | _ \<Rightarrow> (Mined, c))"
| "chart_step (ReorgOrphaned, c) e = (case e of
       REANNOUNCED \<Rightarrow> (SeenInMempool, act_toMempool c)
     | REJECT _ _ \<Rightarrow> (Failed, act_toFailed e c)
     | MEMPOOL \<Rightarrow> (SeenInMempool, act_toMempool c)
     | _ \<Rightarrow> (ReorgOrphaned, c))"
| "chart_step (Failed, c) e = (case e of RESET \<Rightarrow> (Idle, chart_initial_context) | _ \<Rightarrow> (Failed, c))"

section \<open>The chart and the status graph agree\<close>

text \<open>The abstract state of the chart: the status it stands for.\<close>

fun status_of_chart :: "chart_state \<Rightarrow> TxStatus" where
  "status_of_chart Idle = DRAFT"
| "status_of_chart Draft = DRAFT"
| "status_of_chart Validating = VALIDATING"
| "status_of_chart Broadcasting = BROADCASTING"
| "status_of_chart SeenInMempool = SEEN_IN_MEMPOOL"
| "status_of_chart Mined = MINED"
| "status_of_chart ReorgOrphaned = REORG_ORPHANED"
| "status_of_chart Failed = FAILED_REJECTED"

definition chart_inv :: "chart \<Rightarrow> bool" where
  "chart_inv x = (cc_status (snd x) = status_of_chart (fst x)
     \<and> (cc_minedHeight (snd x) \<noteq> None \<longleftrightarrow> fst x = Mined))"

lemma chart_step_inv: "chart_inv x \<Longrightarrow> chart_inv (chart_step x e)"
  by (cases x; cases "fst x"; cases e)
    (auto simp: chart_inv_def act_toMempool_def act_toOrphaned_def chart_initial_context_def Let_def)

interpretation chart: invariant_machine chart_step "\<lambda>_. True" chart_inv
  by unfold_locales (rule chart_step_inv)

lemma chart_step_follows_graph:
  "canTransitionTx (status_of_chart (fst x)) (status_of_chart (fst (chart_step x e))) \<or> e = RESET"
  by (cases x; cases "fst x"; cases e) (auto simp: canTransitionTx_def)

lemma chart_mined_only_by_bump:
  "fst (chart_step x e) = Mined \<Longrightarrow> fst x = Mined \<or> (\<exists>h. e = BUMP_VERIFIED h \<and> cc_minedHeight (snd (chart_step x e)) = Some h)"
  by (cases x; cases "fst x"; cases e) (auto split: if_splits)

section \<open>Properties\<close>

text \<open>The chart refines the status graph. After any events from the start, the recorded
  status is the one the chart's state stands for; the next event moves it only along an edge
  the store allows (a reset apart); and it becomes \<open>MINED\<close> only on a verified BUMP, whose
  height is recorded.\<close>

theorem chart_refines_status_graph:
  assumes "x = fold_steps chart_step (Idle, chart_initial_context) es" and "y = chart_step x e"
  shows "cc_status (snd x) = status_of_chart (fst x)
    \<and> (e = RESET \<or> canTransitionTx (cc_status (snd x)) (cc_status (snd y)))
    \<and> (cc_status (snd y) = MINED \<longrightarrow> cc_status (snd x) = MINED \<or>
         (\<exists>h. e = BUMP_VERIFIED h \<and> cc_minedHeight (snd y) = Some h))"
proof -
  have x: "chart_inv x"
    unfolding assms(1) by (rule chart.run_inv) (simp_all add: chart_inv_def chart_initial_context_def list_all_iff)
  have y: "chart_inv y" unfolding assms(2) by (rule chart_step_inv [OF x])
  have "fst y = Mined" if "cc_status (snd y) = MINED"
    using y that by (cases "fst y") (simp_all add: chart_inv_def)
  then show ?thesis
    using x y chart_step_follows_graph [of x e] chart_mined_only_by_bump [of x e] assms(2)
    by (auto simp: chart_inv_def)
qed

lemma chart_refines_status_graph_witness:
  "cc_status (snd (fold_steps chart_step (Idle, chart_initial_context)
     [START ''t'', VALIDATED, DISPATCH, MEMPOOL])) = SEEN_IN_MEMPOOL"
  using chart_refines_status_graph [OF refl refl, of "[START ''t'', VALIDATED, DISPATCH, MEMPOOL]" "BUMP_VERIFIED 9"]
  by simp

end
