(* ===== verification/Tx_Store.thy ===== *)
theory Tx_Store
  imports Tx_Lifecycle
begin

text \<open>
  The durable transaction store (\<open>src/src/wallet/txStore.ts\<close>): the record and its JSON
  reader, the coalesced write, the per-txid index that is rebuilt per write, and every
  operation that changes a record. \<open>ts_gen\<close> stands for the identity of the \<open>Map\<close> object
  held in \<open>cache\<close>: it changes whenever the code makes a new one. Listener callbacks change
  no state here and are left out.
\<close>

section \<open>Records\<close>

datatype chain_proof = Unconfirmed | HeaderProven

record tx_record =
  tr_id :: string
  tr_status :: TxStatus
  tr_txid :: "string option"
  tr_satoshis :: int
  tr_to :: "string option"
  tr_inputOutpoints :: "string list"
  tr_arcStatus :: json
  tr_diagnostic :: json
  tr_diagnosticDetail :: "string option"
  tr_minedHeight :: "int option"
  tr_chainProof :: "chain_proof option"
  tr_createdAt :: int
  tr_updatedAt :: int

definition arc_json :: "ArcStatus option \<Rightarrow> json" where
  "arc_json a = (case a of None \<Rightarrow> JNull | Some x \<Rightarrow> JStr (arc_name x))"

definition diag_json :: "TxDiagnosticCode option \<Rightarrow> json" where
  "diag_json d = (case d of None \<Rightarrow> JNull | Some x \<Rightarrow> JStr (diag_name x))"

fun json_strings :: "json option \<Rightarrow> string list" where
  "json_strings (Some (JArr vs)) = List.map_filter (\<lambda>v. json_str (Some v)) vs"
| "json_strings _ = []"

definition default_proof :: "TxStatus \<Rightarrow> chain_proof option" where
  "default_proof status = (if status = MINED then Some HeaderProven
     else if status = SEEN_IN_MEMPOOL then Some Unconfirmed else None)"

definition coerceRecord :: "int \<Rightarrow> json \<Rightarrow> tx_record option" where
  "coerceRecord now r =
     (case json_str (json_field r ''id'') of
        None \<Rightarrow> None
      | Some i \<Rightarrow> if i = [] then None else
          (case Option.bind (json_str (json_field r ''status'')) status_of_name of
             None \<Rightarrow> None
           | Some status \<Rightarrow> Some
               \<lparr>tr_id = i, tr_status = status,
                tr_txid = map_option js_lower (json_str (json_field r ''txid'')),
                tr_satoshis = max 0 (js_number_or_0 (json_field r ''satoshis'')),
                tr_to = json_str (json_field r ''to''),
                tr_inputOutpoints = map normalizeOutpointKey (json_strings (json_field r ''inputOutpoints'')),
                tr_arcStatus = (case json_field r ''arcStatus'' of Some v \<Rightarrow> v | None \<Rightarrow> JNull),
                tr_diagnostic = (case json_field r ''diagnostic'' of Some v \<Rightarrow> v | None \<Rightarrow> JNull),
                tr_diagnosticDetail = json_str (json_field r ''diagnosticDetail''),
                tr_minedHeight = json_int (json_field r ''minedHeight''),
                tr_chainProof =
                  (if json_field r ''chainProof'' = Some (JStr ''unconfirmed'') then Some Unconfirmed
                   else if json_field r ''chainProof'' = Some (JStr ''headerProven'') then Some HeaderProven
                   else default_proof status),
                tr_createdAt = (case json_int (json_field r ''createdAt'') of Some t \<Rightarrow> t | None \<Rightarrow> now),
                tr_updatedAt = (case json_int (json_field r ''updatedAt'') of Some t \<Rightarrow> t | None \<Rightarrow> now)\<rparr>))"

text \<open>\<open>JSON.stringify\<close> of a record.\<close>

definition record_to_json :: "tx_record \<Rightarrow> json" where
  "record_to_json r = JObj
     [(''id'', JStr (tr_id r)), (''status'', JStr (status_name (tr_status r))), (''txid'', opt_json (tr_txid r)),
      (''satoshis'', JNum (tr_satoshis r)), (''to'', opt_json (tr_to r)),
      (''inputOutpoints'', JArr (map JStr (tr_inputOutpoints r))), (''arcStatus'', tr_arcStatus r),
      (''diagnostic'', tr_diagnostic r), (''diagnosticDetail'', opt_json (tr_diagnosticDetail r)),
      (''minedHeight'', (case tr_minedHeight r of None \<Rightarrow> JNull | Some h \<Rightarrow> JNum h)),
      (''chainProof'', (case tr_chainProof r of None \<Rightarrow> JNull | Some Unconfirmed \<Rightarrow> JStr ''unconfirmed''
                        | Some HeaderProven \<Rightarrow> JStr ''headerProven'')),
      (''createdAt'', JNum (tr_createdAt r)), (''updatedAt'', JNum (tr_updatedAt r))]"

section \<open>The store\<close>

record tx_store =
  ts_cache :: "(string, tx_record) jsmap option"
  ts_gen :: nat
  ts_dirtyKey :: "string option"
  ts_flushQueued :: bool
  ts_writeVersion :: nat
  ts_index :: "(nat \<times> nat \<times> (string, tx_record) jsmap) option"
  ts_durable :: "(string, json) jsmap"
  ts_storageKey :: string

definition TX_MAX_ENTRIES :: nat where
  "TX_MAX_ENTRIES = 500"

fun load_records :: "int \<Rightarrow> json list \<Rightarrow> (string, tx_record) jsmap \<Rightarrow> (string, tx_record) jsmap" where
  "load_records now [] m = m"
| "load_records now (row # rows) m =
     (case coerceRecord now row of
        None \<Rightarrow> load_records now rows m
      | Some r \<Rightarrow> load_records now rows (jsmap_set (tr_id r) r m))"

definition ts_rows :: "tx_store \<Rightarrow> json list" where
  "ts_rows st = (case jsmap_get (ts_durable st) (ts_storageKey st) of Some (JArr rows) \<Rightarrow> rows | _ \<Rightarrow> [])"

definition ts_load :: "int \<Rightarrow> tx_store \<Rightarrow> tx_store" where
  "ts_load now st = (case ts_cache st of
     Some m \<Rightarrow> st
   | None \<Rightarrow> st\<lparr>ts_cache := Some (load_records now (ts_rows st) []), ts_gen := Suc (ts_gen st)\<rparr>)"

definition ts_map :: "tx_store \<Rightarrow> (string, tx_record) jsmap" where
  "ts_map st = (case ts_cache st of Some m \<Rightarrow> m | None \<Rightarrow> [])"

definition ts_persist :: "tx_store \<Rightarrow> tx_store" where
  "ts_persist st = st\<lparr>ts_writeVersion := Suc (ts_writeVersion st), ts_dirtyKey := Some (ts_storageKey st),
     ts_flushQueued := True\<rparr>"

text \<open>\<open>load().set(id, rec); persist()\<close>.\<close>

definition ts_put :: "int \<Rightarrow> tx_record \<Rightarrow> tx_store \<Rightarrow> tx_store" where
  "ts_put now r st =
     (let st1 = ts_load now st in ts_persist (st1\<lparr>ts_cache := Some (jsmap_set (tr_id r) r (ts_map st1))\<rparr>))"

text \<open>The rows newest first: \<open>sort\<close> is stable.\<close>

definition newest_first :: "tx_record list \<Rightarrow> tx_record list" where
  "newest_first rs = sort_key (\<lambda>r. - tr_updatedAt r) rs"

definition flushTxStore :: "int \<Rightarrow> tx_store \<Rightarrow> tx_store" where
  "flushTxStore now st0 =
     (let st = st0\<lparr>ts_flushQueued := False\<rparr> in
      case ts_dirtyKey st of
        None \<Rightarrow> st
      | Some key \<Rightarrow>
          (let st1 = st\<lparr>ts_dirtyKey := None\<rparr> in
           if key \<noteq> ts_storageKey st1 then st1
           else let st2 = ts_load now st1;
                    rows = newest_first (map snd (ts_map st2));
                    kept = take TX_MAX_ENTRIES rows;
                    dropped = rev (List.drop TX_MAX_ENTRIES rows)
                in st2\<lparr>ts_cache := Some (fold (\<lambda>r m. jsmap_delete (tr_id r) m) dropped (ts_map st2)),
                       ts_writeVersion := ts_writeVersion st2 + length dropped,
                       ts_durable := jsmap_set key (JArr (map record_to_json kept)) (ts_durable st2)\<rparr>))"

definition listTxRecords :: "int \<Rightarrow> tx_store \<Rightarrow> tx_record list" where
  "listTxRecords now st = newest_first (map snd (ts_map (ts_load now st)))"

definition getTxRecord :: "int \<Rightarrow> tx_store \<Rightarrow> string \<Rightarrow> tx_record option" where
  "getTxRecord now st i = jsmap_get (ts_map (ts_load now st)) i"

text \<open>The index: first record per txid, in map order.\<close>

fun index_rows :: "tx_record list \<Rightarrow> (string, tx_record) jsmap \<Rightarrow> (string, tx_record) jsmap" where
  "index_rows [] by' = by'"
| "index_rows (r # rs) by' =
     (case tr_txid r of
        Some t \<Rightarrow> index_rows rs (if t \<noteq> [] \<and> jsmap_get by' t = None then jsmap_set t r by' else by')
      | None \<Rightarrow> index_rows rs by')"

definition getTxByTxid :: "int \<Rightarrow> string \<Rightarrow> tx_store \<Rightarrow> tx_store \<times> tx_record option" where
  "getTxByTxid now txid st0 =
     (let needle = js_lower (js_trim txid) in
      if \<not> hex_of_len 64 needle then (st0, None)
      else
        (let st = ts_load now st0;
             fresh = (case ts_index st of None \<Rightarrow> False
                      | Some (g, v, _) \<Rightarrow> g = ts_gen st \<and> v = ts_writeVersion st);
             st1 = (if fresh then st
                    else st\<lparr>ts_index := Some (ts_gen st, ts_writeVersion st, index_rows (map snd (ts_map st)) [])\<rparr>)
         in (st1, case ts_index st1 of None \<Rightarrow> None | Some (_, _, by') \<Rightarrow> jsmap_get by' needle)))"

definition isLocalUnconfirmedTxid :: "int \<Rightarrow> string \<Rightarrow> tx_store \<Rightarrow> bool" where
  "isLocalUnconfirmedTxid now txid st =
     (case snd (getTxByTxid now txid st) of
        None \<Rightarrow> False
      | Some rec \<Rightarrow>
          if tr_chainProof rec = Some HeaderProven \<or> tr_status rec = MINED then False
          else tr_chainProof rec = Some Unconfirmed \<or> tr_status rec = SEEN_IN_MEMPOOL \<or> tr_status rec = BROADCASTING)"

definition rebindTxStoreForAccount :: "int \<Rightarrow> tx_store \<Rightarrow> tx_store" where
  "rebindTxStoreForAccount now st = ts_load now ((flushTxStore now st)\<lparr>ts_cache := None\<rparr>)"

text \<open>\<open>createDraftTx\<close>; \<open>fresh\<close> is what \<open>newId()\<close> would return.\<close>

definition createDraftTx ::
  "int \<Rightarrow> string \<Rightarrow> int \<Rightarrow> string option \<Rightarrow> string list option \<Rightarrow> string option \<Rightarrow> tx_store \<Rightarrow> tx_store \<times> tx_record" where
  "createDraftTx now fresh satoshis to inputs i st =
     (let r = \<lparr>tr_id = (case i of Some x \<Rightarrow> x | None \<Rightarrow> fresh), tr_status = DRAFT, tr_txid = None,
               tr_satoshis = max 0 satoshis,
               tr_to = (case to of None \<Rightarrow> None | Some t \<Rightarrow> if js_trim t = [] then None else Some (js_trim t)),
               tr_inputOutpoints = map normalizeOutpointKey (case inputs of None \<Rightarrow> [] | Some xs \<Rightarrow> xs),
               tr_arcStatus = JNull, tr_diagnostic = JNull, tr_diagnosticDetail = None, tr_minedHeight = None,
               tr_chainProof = None, tr_createdAt = now, tr_updatedAt = now\<rparr>
      in (ts_put now r st, r))"

text \<open>The patch of \<open>transitionTx\<close>: the outer \<open>None\<close> is \<open>undefined\<close> (keep).\<close>

record tx_patch =
  tp_txid :: "string option option"
  tp_arcStatus :: "ArcStatus option option"
  tp_diagnostic :: "TxDiagnosticCode option option"
  tp_diagnosticDetail :: "string option option"
  tp_minedHeight :: "int option option"
  tp_chainProof :: "chain_proof option option"
  tp_inputOutpoints :: "string list option"
  tp_satoshis :: "int option"
  tp_to :: "string option option"

definition no_patch :: tx_patch where
  "no_patch = \<lparr>tp_txid = None, tp_arcStatus = None, tp_diagnostic = None, tp_diagnosticDetail = None,
     tp_minedHeight = None, tp_chainProof = None, tp_inputOutpoints = None, tp_satoshis = None, tp_to = None\<rparr>"

definition patch_or :: "'a option \<Rightarrow> 'a \<Rightarrow> 'a" where
  "patch_or p d = (case p of None \<Rightarrow> d | Some v \<Rightarrow> v)"

definition apply_tx_patch :: "int \<Rightarrow> TxStatus \<Rightarrow> tx_patch \<Rightarrow> tx_record \<Rightarrow> tx_record" where
  "apply_tx_patch now to p cur =
     \<lparr>tr_id = tr_id cur, tr_status = to,
      tr_txid = (case tp_txid p of None \<Rightarrow> tr_txid cur | Some t \<Rightarrow> map_option js_lower t),
      tr_satoshis = patch_or (tp_satoshis p) (tr_satoshis cur),
      tr_to = patch_or (tp_to p) (tr_to cur),
      tr_inputOutpoints = (case tp_inputOutpoints p of None \<Rightarrow> tr_inputOutpoints cur
                           | Some xs \<Rightarrow> map normalizeOutpointKey xs),
      tr_arcStatus = (case tp_arcStatus p of None \<Rightarrow> tr_arcStatus cur | Some a \<Rightarrow> arc_json a),
      tr_diagnostic = (case tp_diagnostic p of None \<Rightarrow> tr_diagnostic cur | Some d \<Rightarrow> diag_json d),
      tr_diagnosticDetail = patch_or (tp_diagnosticDetail p) (tr_diagnosticDetail cur),
      tr_minedHeight = patch_or (tp_minedHeight p) (tr_minedHeight cur),
      tr_chainProof = patch_or (tp_chainProof p) (tr_chainProof cur),
      tr_createdAt = tr_createdAt cur, tr_updatedAt = now\<rparr>"

definition transitionTx ::
  "int \<Rightarrow> string \<Rightarrow> TxStatus \<Rightarrow> tx_patch \<Rightarrow> tx_store \<Rightarrow> tx_store \<times> tx_record option" where
  "transitionTx now i to p st0 =
     (let st = ts_load now st0 in
      case jsmap_get (ts_map st) i of
        None \<Rightarrow> (st, None)
      | Some cur \<Rightarrow>
          if \<not> canTransitionTx (tr_status cur) to then (st, None)
          else let r = apply_tx_patch now to p cur
               in (ts_persist (st\<lparr>ts_cache := Some (jsmap_set i r (ts_map st))\<rparr>), Some r))"

definition applyArcStatus :: "int \<Rightarrow> string \<Rightarrow> ArcStatus \<Rightarrow> tx_store \<Rightarrow> tx_store \<times> tx_record option" where
  "applyArcStatus now i arc st0 =
     (let st = ts_load now st0 in
      case getTxRecord now st i of
        None \<Rightarrow> (st, None)
      | Some cur \<Rightarrow>
          (let mapped = txStatusFromArc arc; diag = diagnosticFromArc arc in
           if mapped = FAILED_REJECTED then
             transitionTx now i FAILED_REJECTED
               (no_patch\<lparr>tp_arcStatus := Some (Some arc), tp_diagnostic := Some diag,
                         tp_diagnosticDetail := Some (map_option diag_name diag)\<rparr>) st
           else
             (let target = (if tr_status cur = DRAFT then (if mapped = SEEN_IN_MEMPOOL then BROADCASTING else mapped)
                            else if mapped = BROADCASTING \<and> tr_status cur = SEEN_IN_MEMPOOL then SEEN_IN_MEMPOOL
                            else mapped)
              in if \<not> canTransitionTx (tr_status cur) target \<and> tr_status cur \<noteq> target then
                   (if tr_status cur = SEEN_IN_MEMPOOL \<and> target = SEEN_IN_MEMPOOL
                    then transitionTx now i SEEN_IN_MEMPOOL (no_patch\<lparr>tp_arcStatus := Some (Some arc)\<rparr>) st
                    else (st, None))
                 else transitionTx now i target
                   (no_patch\<lparr>tp_arcStatus := Some (Some arc), tp_diagnostic := Some None,
                             tp_diagnosticDetail := Some None\<rparr>) st)))"

definition markTxMined :: "int \<Rightarrow> string \<Rightarrow> int \<Rightarrow> tx_store \<Rightarrow> tx_store \<times> tx_record option" where
  "markTxMined now i height = transitionTx now i MINED
     (no_patch\<lparr>tp_minedHeight := Some (Some height), tp_chainProof := Some (Some HeaderProven),
       tp_arcStatus := Some (Some A_MINED), tp_diagnostic := Some None, tp_diagnosticDetail := Some None\<rparr>)"

definition markTxFailed ::
  "int \<Rightarrow> string \<Rightarrow> TxDiagnosticCode \<Rightarrow> string option \<Rightarrow> tx_store \<Rightarrow> tx_store \<times> tx_record option" where
  "markTxFailed now i code detail = transitionTx now i FAILED_REJECTED
     (no_patch\<lparr>tp_diagnostic := Some (Some code), tp_diagnosticDetail := Some (Some (or_code detail code))\<rparr>)"

definition markTxReorgOrphaned :: "int \<Rightarrow> string \<Rightarrow> tx_store \<Rightarrow> tx_store \<times> tx_record option" where
  "markTxReorgOrphaned now i = transitionTx now i REORG_ORPHANED
     (no_patch\<lparr>tp_minedHeight := Some None, tp_diagnostic := Some (Some REORG),
       tp_diagnosticDetail := Some (Some ''Block reorg orphaned this transaction'')\<rparr>)"

definition listPendingConfirmation :: "int \<Rightarrow> tx_store \<Rightarrow> tx_record list" where
  "listPendingConfirmation now st = filter
     (\<lambda>r. tr_status r = BROADCASTING \<or> tr_status r = SEEN_IN_MEMPOOL \<or> tr_status r = REORG_ORPHANED)
     (listTxRecords now st)"

definition resetTxStoreForTests :: "tx_store \<Rightarrow> tx_store" where
  "resetTxStoreForTests st = st\<lparr>ts_cache := Some [], ts_gen := Suc (ts_gen st), ts_dirtyKey := None,
     ts_flushQueued := False, ts_durable := jsmap_set (ts_storageKey st) (JArr []) (ts_durable st)\<rparr>"

text \<open>One operation of the module, with the time it runs at.\<close>

datatype store_op =
    CreateDraft string int "string option" "string list option" "string option"
  | Transition string TxStatus tx_patch
  | ApplyArc string ArcStatus
  | MarkMined string int
  | MarkFailed string TxDiagnosticCode "string option"
  | MarkReorg string
  | LookupTxid string
  | FlushStore
  | SwitchStoreAccount string
  | RebindStore
  | ResetStore

fun store_step :: "tx_store \<Rightarrow> int \<times> store_op \<Rightarrow> tx_store" where
  "store_step st (now, CreateDraft fresh sats to inputs i) = fst (createDraftTx now fresh sats to inputs i st)"
| "store_step st (now, Transition i to p) = fst (transitionTx now i to p st)"
| "store_step st (now, ApplyArc i arc) = fst (applyArcStatus now i arc st)"
| "store_step st (now, MarkMined i h) = fst (markTxMined now i h st)"
| "store_step st (now, MarkFailed i code d) = fst (markTxFailed now i code d st)"
| "store_step st (now, MarkReorg i) = fst (markTxReorgOrphaned now i st)"
| "store_step st (now, LookupTxid t) = fst (getTxByTxid now t st)"
| "store_step st (now, FlushStore) = flushTxStore now st"
| "store_step st (now, SwitchStoreAccount key) = st\<lparr>ts_storageKey := key\<rparr>"
| "store_step st (now, RebindStore) = rebindTxStoreForAccount now st"
| "store_step st (now, ResetStore) = resetTxStoreForTests st"

section \<open>Reading and writing the map\<close>

lemma ts_load_simps [simp]:
  "ts_cache st = Some m \<Longrightarrow> ts_load now st = st"
  "ts_cache (ts_load now st) = Some (ts_map (ts_load now st))"
  "ts_load now' (ts_load now st) = ts_load now st"
  "ts_storageKey (ts_load now st) = ts_storageKey st"
  "ts_durable (ts_load now st) = ts_durable st"
  by (auto simp: ts_load_def ts_map_def split: option.splits)

lemma ts_map_simps [simp]:
  "ts_map (st\<lparr>ts_cache := Some m\<rparr>) = m"
  "ts_map (ts_persist st) = ts_map st"
  "ts_cache (ts_persist st) = ts_cache st"
  "ts_map (st\<lparr>ts_index := x\<rparr>) = ts_map st"
  "ts_map (st\<lparr>ts_storageKey := k\<rparr>) = ts_map st"
  by (auto simp: ts_map_def ts_persist_def)

lemma getTxRecord_cache: "ts_cache st = Some m \<Longrightarrow> getTxRecord now st i = jsmap_get m i"
  by (simp add: getTxRecord_def ts_map_def)

lemma getTxRecord_load [simp]: "getTxRecord now (ts_load now st) i = getTxRecord now st i"
  by (simp add: getTxRecord_def)

lemma transition_result:
  "snd (transitionTx now i to p st) = (case getTxRecord now st i of None \<Rightarrow> None
     | Some cur \<Rightarrow> if canTransitionTx (tr_status cur) to then Some (apply_tx_patch now to p cur) else None)"
  by (simp add: transitionTx_def getTxRecord_def Let_def split: option.splits)

lemma transition_cache:
  "ts_cache (fst (transitionTx now i to p st)) = Some (case snd (transitionTx now i to p st) of
     None \<Rightarrow> ts_map (ts_load now st) | Some r \<Rightarrow> jsmap_set i r (ts_map (ts_load now st)))"
  by (simp add: transitionTx_def Let_def split: option.splits)

lemma transition_get:
  "getTxRecord now' (fst (transitionTx now i to p st)) j =
     (if j = i \<and> snd (transitionTx now i to p st) \<noteq> None then snd (transitionTx now i to p st)
      else getTxRecord now st j)"
  unfolding getTxRecord_cache [OF transition_cache] getTxRecord_def [of now st]
  by (auto split: option.splits)

lemma apply_tx_patch_status [simp]: "tr_status (apply_tx_patch now to p cur) = to"
  "tr_id (apply_tx_patch now to p cur) = tr_id cur"
  by (simp_all add: apply_tx_patch_def)

text \<open>The outcome of an ARC answer, as a table over the current status.\<close>

definition arc_next :: "TxStatus \<Rightarrow> ArcStatus \<Rightarrow> TxStatus option" where
  "arc_next cur arc =
     (if arc = A_REJECTED \<or> arc = A_DOUBLE_SPEND_ATTEMPTED then (if cur = MINED then None else Some FAILED_REJECTED)
      else if arc = A_STORED \<or> arc = A_ANNOUNCED_TO_NETWORK then
        (if cur = VALIDATING \<or> cur = BROADCASTING then Some BROADCASTING
         else if cur = SEEN_IN_MEMPOOL then Some SEEN_IN_MEMPOOL else None)
      else if cur = DRAFT \<or> cur = MINED \<or> cur = FAILED_REJECTED then None else Some SEEN_IN_MEMPOOL)"

text \<open>An ARC answer is one transition of that record, or nothing.\<close>

lemma applyArc_is_transition:
  "\<exists>to p. to \<noteq> MINED \<and>
     (applyArcStatus now i arc st = transitionTx now i to p st \<or> applyArcStatus now i arc st = (ts_load now st, None))"
proof -
  have load: "transitionTx now i to p (ts_load now st) = transitionTx now i to p st" for to p
    by (simp add: transitionTx_def Let_def)
  have t: "txStatusFromArc arc \<noteq> MINED" by (cases arc) auto
  show ?thesis
    using t by (auto simp: applyArcStatus_def Let_def load split: option.splits)
qed

lemma applyArc_status:
  "map_option tr_status (snd (applyArcStatus now i arc st)) =
     (case getTxRecord now st i of None \<Rightarrow> None | Some cur \<Rightarrow> arc_next (tr_status cur) arc)"
proof (cases "getTxRecord now st i")
  case None
  then show ?thesis by (simp add: applyArcStatus_def Let_def)
next
  case (Some cur)
  then show ?thesis
    by (cases arc; cases "tr_status cur")
      (simp_all add: applyArcStatus_def Let_def transition_result arc_next_def canTransitionTx_def)
qed

section \<open>One step moves a record along the status graph\<close>

text \<open>Operations that put another record under the key \<open>i\<close>, and those that may commit \<open>MINED\<close>.\<close>

fun replaces_record :: "string \<Rightarrow> store_op \<Rightarrow> bool" where
  "replaces_record i (CreateDraft fresh _ _ _ i') = ((case i' of Some x \<Rightarrow> x | None \<Rightarrow> fresh) = i)"
| "replaces_record i (SwitchStoreAccount _) = False"
| "replaces_record i RebindStore = True"
| "replaces_record i ResetStore = True"
| "replaces_record i _ = False"

fun commits_mined :: "string \<Rightarrow> store_op \<Rightarrow> bool" where
  "commits_mined i (MarkMined i' _) = (i' = i)"
| "commits_mined i (Transition i' to _) = (i' = i \<and> to = MINED)"
| "commits_mined i _ = False"

definition status_at :: "tx_store \<Rightarrow> string \<Rightarrow> TxStatus option" where
  "status_at st i = map_option tr_status (jsmap_get (ts_map st) i)"

definition step_fine :: "string \<Rightarrow> store_op \<Rightarrow> tx_store \<Rightarrow> tx_store \<Rightarrow> bool" where
  "step_fine i op st st' = (ts_cache st' \<noteq> None \<and>
     (status_at st' i = None \<or> (\<exists>s s'. status_at st i = Some s \<and> status_at st' i = Some s' \<and>
        canTransitionTx s s' \<and> (s' = MINED \<longrightarrow> s = MINED \<or> commits_mined i op))))"

lemma canTransitionTx_refl [simp]: "canTransitionTx s s"
  by (simp add: canTransitionTx_def)

lemma status_at_same [simp]: "ts_cache st \<noteq> None \<Longrightarrow> step_fine i op st st"
  by (cases "status_at st i") (auto simp: step_fine_def)

lemma transition_fine:
  assumes "ts_cache st = Some m" and "to = MINED \<and> j = i \<longrightarrow> commits_mined i op"
  shows "step_fine i op st (fst (transitionTx now j to p st))"
proof -
  have m: "ts_map st = m" using assms(1) by (simp add: ts_map_def)
  have "ts_cache (fst (transitionTx now j to p st)) \<noteq> None"
    using transition_cache by simp
  moreover have "ts_map (fst (transitionTx now j to p st)) =
      (case snd (transitionTx now j to p st) of None \<Rightarrow> m | Some r \<Rightarrow> jsmap_set j r m)"
    using transition_cache [of now j to p st, unfolded ts_load_simps(1) [OF assms(1)] m]
    by (simp add: ts_map_def [of "fst (transitionTx now j to p st)"])
  ultimately show ?thesis
    using assms(2) by (cases "jsmap_get m i")
      (auto simp: step_fine_def status_at_def m transition_result getTxRecord_cache [OF assms(1)] split: option.splits)
qed

lemma fold_delete_get:
  "jsmap_get (fold (\<lambda>r m. jsmap_delete (tr_id r) m) rs m) i = (if i \<in> tr_id ` set rs then None else jsmap_get m i)"
  by (induction rs arbitrary: m) auto

lemma flush_fine:
  assumes "ts_cache st = Some m"
  shows "step_fine i op st (flushTxStore now st)"
proof (cases "jsmap_get m i")
  case None
  then show ?thesis using assms
    by (auto simp: flushTxStore_def Let_def step_fine_def status_at_def ts_map_def fold_delete_get split: option.splits)
next
  case (Some r)
  then show ?thesis using assms
    by (auto simp: flushTxStore_def Let_def step_fine_def status_at_def ts_map_def fold_delete_get split: option.splits)
qed

lemma store_step_fine:
  assumes c: "ts_cache st = Some m" and r: "\<not> replaces_record i op"
  shows "step_fine i op st (store_step st (now, op))"
proof (cases op)
  case (ApplyArc j arc)
  obtain to p where "to \<noteq> MINED" "applyArcStatus now j arc st = transitionTx now j to p st
      \<or> applyArcStatus now j arc st = (ts_load now st, None)"
    using applyArc_is_transition by blast
  then show ?thesis
    using ApplyArc transition_fine [OF c, of to j i op now p] c by auto
next
  case (CreateDraft fresh sats to inputs i')
  then show ?thesis using c r
    by (cases "jsmap_get m i")
      (auto simp: createDraftTx_def Let_def ts_put_def step_fine_def status_at_def ts_map_def)
next
  case (LookupTxid t)
  then show ?thesis using c
    by (cases "jsmap_get m i")
      (auto simp: getTxByTxid_def Let_def step_fine_def status_at_def ts_map_def)
next
  case (SwitchStoreAccount k)
  then show ?thesis using c
    by (cases "jsmap_get m i") (auto simp: step_fine_def status_at_def ts_map_def)
qed (use r transition_fine [OF c] flush_fine [OF c] in
    \<open>auto simp: markTxMined_def markTxFailed_def markTxReorgOrphaned_def\<close>)

definition run_fine :: "TxStatus \<Rightarrow> bool \<Rightarrow> TxStatus option \<Rightarrow> bool" where
  "run_fine s may_mine after = (case after of None \<Rightarrow> True
     | Some s' \<Rightarrow> canTransitionTx\<^sup>*\<^sup>* s s' \<and> (s = FAILED_REJECTED \<longrightarrow> s' = FAILED_REJECTED)
         \<and> (s' = MINED \<longrightarrow> s = MINED \<or> may_mine))"

lemma store_run_none:
  "ts_cache st \<noteq> None \<Longrightarrow> status_at st i = None \<Longrightarrow> list_all (\<lambda>e. \<not> replaces_record i (snd e)) es \<Longrightarrow>
   status_at (fold_steps store_step st es) i = None"
proof (induction es arbitrary: st)
  case Nil
  then show ?case by simp
next
  case (Cons e es)
  obtain now op where e: "e = (now, op)" by (cases e)
  obtain m where "ts_cache st = Some m" using Cons.prems(1) by blast
  then have "step_fine i op st (store_step st (now, op))"
    using Cons.prems(3) e by (intro store_step_fine) auto
  then show ?case using Cons e by (auto simp: step_fine_def)
qed

lemma store_run_fine:
  "ts_cache st \<noteq> None \<Longrightarrow> status_at st i = Some s \<Longrightarrow> list_all (\<lambda>e. \<not> replaces_record i (snd e)) es \<Longrightarrow>
   run_fine s (\<exists>e \<in> set es. commits_mined i (snd e)) (status_at (fold_steps store_step st es) i)"
proof (induction es arbitrary: st s)
  case Nil
  then show ?case by (simp add: run_fine_def)
next
  case (Cons e es)
  obtain now op where e: "e = (now, op)" by (cases e)
  obtain m where "ts_cache st = Some m" using Cons.prems(1) by blast
  then have f: "step_fine i op st (store_step st (now, op))"
    using Cons.prems(3) e by (intro store_step_fine) auto
  show ?case
  proof (cases "status_at (store_step st (now, op)) i")
    case None
    then show ?thesis using f Cons.prems(3) e store_run_none by (simp add: step_fine_def run_fine_def)
  next
    case (Some s1)
    then have t: "canTransitionTx s s1" "s1 = MINED \<longrightarrow> s = MINED \<or> commits_mined i op"
      using f Cons.prems(2) by (auto simp: step_fine_def)
    have ih: "run_fine s1 (\<exists>e \<in> set es. commits_mined i (snd e)) (status_at (fold_steps store_step st (e # es)) i)"
      using Cons.IH [OF _ Some] f Cons.prems(3) e by (simp add: step_fine_def)
    have "s = FAILED_REJECTED \<longrightarrow> s1 = FAILED_REJECTED"
      using t(1) by (auto simp: canTransitionTx_def)
    then show ?thesis
      using ih t e converse_rtranclp_into_rtranclp [of canTransitionTx, OF t(1)]
      by (auto simp: run_fine_def split: option.splits)
  qed
qed

section \<open>The per-txid index is never stale\<close>

definition first_with_txid :: "string \<Rightarrow> (string, tx_record) jsmap \<Rightarrow> tx_record option" where
  "first_with_txid t m = find (\<lambda>r. tr_txid r = Some t) (map snd m)"

definition index_inv :: "tx_store \<Rightarrow> bool" where
  "index_inv st = (case ts_index st of None \<Rightarrow> True | Some (g, v, by') \<Rightarrow>
     ts_cache st \<noteq> None \<and> g \<le> ts_gen st \<and> v \<le> ts_writeVersion st \<and>
     (g = ts_gen st \<and> v = ts_writeVersion st \<longrightarrow> by' = index_rows (map snd (ts_map st)) []))"

lemma index_rows_get:
  "t \<noteq> [] \<Longrightarrow> jsmap_get (index_rows rs by') t =
     (case jsmap_get by' t of Some r \<Rightarrow> Some r | None \<Rightarrow> find (\<lambda>r. tr_txid r = Some t) rs)"
  by (induction rs arbitrary: by') (auto split: option.splits)

lemma getTxByTxid_correct:
  assumes "index_inv st"
  shows "snd (getTxByTxid now txid st) =
     (if hex_of_len 64 (js_lower (js_trim txid))
      then first_with_txid (js_lower (js_trim txid)) (ts_map (ts_load now st)) else None)"
proof -
  have "js_lower (js_trim txid) \<noteq> []" if "hex_of_len 64 (js_lower (js_trim txid))"
    using that by (auto simp: hex_of_len_def js_lower_def)
  moreover have "by' = index_rows (map snd (ts_map (ts_load now st))) []"
    if "ts_index (ts_load now st) = Some (ts_gen (ts_load now st), ts_writeVersion (ts_load now st), by')" for by'
    using that assms by (auto simp: index_inv_def ts_load_def split: option.splits)
  ultimately show ?thesis
    by (auto simp: getTxByTxid_def Let_def first_with_txid_def index_rows_get split: option.splits)
qed

lemma index_inv_load: "index_inv st \<Longrightarrow> index_inv (ts_load now st)"
  by (auto simp: index_inv_def ts_load_def split: option.splits)

lemma index_inv_write: "index_inv st \<Longrightarrow> index_inv (ts_persist (st\<lparr>ts_cache := Some m\<rparr>))"
  by (auto simp: index_inv_def ts_persist_def split: option.splits)

lemma index_inv_transition: "index_inv st \<Longrightarrow> index_inv (fst (transitionTx now i to p st))"
  by (simp add: transitionTx_def Let_def index_inv_load index_inv_write split: option.splits)

lemma index_inv_lookup: "index_inv st \<Longrightarrow> index_inv (fst (getTxByTxid now t st))"
  using index_inv_load [of st now]
  by (auto simp: getTxByTxid_def Let_def index_inv_def [of "ts_index_update _ _"] split: option.splits)

lemma index_inv_rewrite:
  "index_inv st \<Longrightarrow> (n = 0 \<Longrightarrow> m = ts_map st) \<Longrightarrow>
   index_inv (st\<lparr>ts_cache := Some m, ts_writeVersion := ts_writeVersion st + n, ts_durable := d\<rparr>)"
  by (auto simp: index_inv_def ts_map_def split: option.splits)

lemma index_inv_marks: "index_inv (st\<lparr>ts_flushQueued := q, ts_dirtyKey := k\<rparr>) = index_inv st"
  "index_inv (st\<lparr>ts_flushQueued := q\<rparr>) = index_inv st"
  by (auto simp: index_inv_def ts_map_def split: option.splits)

lemma index_inv_flush:
  assumes inv: "index_inv st"
  shows "index_inv (flushTxStore now st)"
proof -
  let ?st = "ts_load now (st\<lparr>ts_flushQueued := False, ts_dirtyKey := None\<rparr>)"
  have i: "index_inv ?st" using inv by (intro index_inv_load) (simp add: index_inv_marks)
  show ?thesis
    unfolding flushTxStore_def Let_def
    using inv index_inv_rewrite [OF i] by (auto simp: index_inv_marks split: option.splits)
qed

lemma index_inv_rebind: "index_inv st \<Longrightarrow> index_inv (rebindTxStoreForAccount now st)"
  using index_inv_flush [of st now]
  by (auto simp: rebindTxStoreForAccount_def index_inv_def ts_load_def split: option.splits)

lemma store_step_index: "index_inv st \<Longrightarrow> index_inv (store_step st e)"
proof (cases e)
  case (Pair now op)
  assume inv: "index_inv st"
  show ?thesis
  proof (cases op)
    case (ApplyArc j arc)
    obtain to p where "applyArcStatus now j arc st = transitionTx now j to p st
        \<or> applyArcStatus now j arc st = (ts_load now st, None)"
      using applyArc_is_transition by blast
    then show ?thesis
      using ApplyArc Pair index_inv_transition [OF inv, of now j to p] index_inv_load [OF inv] by auto
  next
    case (CreateDraft fresh sats to inputs i')
    then show ?thesis using Pair index_inv_write [OF index_inv_load [OF inv]]
      by (simp add: createDraftTx_def Let_def ts_put_def)
  next
    case (SwitchStoreAccount k)
    then show ?thesis using Pair inv by (auto simp: index_inv_def split: option.splits)
  next
    case ResetStore
    then show ?thesis using Pair inv by (auto simp: index_inv_def resetTxStoreForTests_def split: option.splits)
  qed (use Pair index_inv_transition [OF inv] index_inv_lookup [OF inv] index_inv_flush [OF inv]
        index_inv_rebind [OF inv] in \<open>simp_all add: markTxMined_def markTxFailed_def markTxReorgOrphaned_def\<close>)
qed

interpretation txindex: invariant_machine store_step "\<lambda>_. True" index_inv
  by unfold_locales (rule store_step_index)

definition store_boot :: "(string, json) jsmap \<Rightarrow> string \<Rightarrow> tx_store" where
  "store_boot durable key = \<lparr>ts_cache = None, ts_gen = 0, ts_dirtyKey = None, ts_flushQueued = False,
     ts_writeVersion = 0, ts_index = None, ts_durable = durable, ts_storageKey = key\<rparr>"

section \<open>Records survive the disk\<close>

definition record_ok :: "string \<Rightarrow> tx_record \<Rightarrow> bool" where
  "record_ok k r = (tr_id r = k \<and> k \<noteq> [] \<and> 0 \<le> tr_satoshis r \<and> map_option js_lower (tr_txid r) = tr_txid r
     \<and> map normalizeOutpointKey (tr_inputOutpoints r) = tr_inputOutpoints r)"

definition records_ok :: "(string, tx_record) jsmap \<Rightarrow> bool" where
  "records_ok m = (jsmap_wf m \<and> (\<forall>(k, r) \<in> set m. record_ok k r))"

definition store_inv :: "tx_store \<Rightarrow> bool" where
  "store_inv st = (case ts_cache st of None \<Rightarrow> True | Some m \<Rightarrow> records_ok m)"

text \<open>What an operation must respect: a new id is not empty and an amount is not negative.\<close>

fun legal_op :: "store_op \<Rightarrow> bool" where
  "legal_op (CreateDraft fresh _ _ _ i') = ((case i' of Some x \<Rightarrow> x | None \<Rightarrow> fresh) \<noteq> [])"
| "legal_op (Transition _ _ p) = (0 \<le> patch_or (tp_satoshis p) 0)"
| "legal_op _ = True"

lemma records_ok_set: "records_ok m \<Longrightarrow> record_ok k r \<Longrightarrow> records_ok (jsmap_set k r m)"
  by (auto simp: records_ok_def dest!: jsmap_set_in)

lemma records_ok_get: "records_ok m \<Longrightarrow> jsmap_get m k = Some r \<Longrightarrow> record_ok k r"
  by (auto simp: records_ok_def dest: map_of_SomeD)

lemma records_ok_delete: "records_ok m \<Longrightarrow> records_ok (jsmap_delete k m)"
  by (auto simp: records_ok_def dest!: jsmap_delete_in)

lemma map_option_js_lower [simp]: "map_option js_lower (map_option js_lower x) = map_option js_lower x"
  by (cases x) auto

lemma coerceRecord_ok:
  assumes "coerceRecord now row = Some r"
  shows "record_ok (tr_id r) r"
proof (cases "json_str (json_field row ''id'')")
  case (Some i)
  note i = this
  show ?thesis
  proof (cases "Option.bind (json_str (json_field row ''status'')) status_of_name")
    case (Some s)
    then show ?thesis using assms i by (cases "i = []") (auto simp: coerceRecord_def record_ok_def)
  qed (use assms i in \<open>simp add: coerceRecord_def split: if_splits\<close>)
qed (use assms in \<open>simp add: coerceRecord_def\<close>)

lemma load_records_ok: "records_ok m \<Longrightarrow> records_ok (load_records now rows m)"
  by (induction rows arbitrary: m) (auto simp: coerceRecord_ok records_ok_set split: option.splits)

lemma ts_load_ok: "store_inv st \<Longrightarrow> records_ok (ts_map (ts_load now st))"
  by (auto simp: store_inv_def ts_load_def ts_map_def intro!: load_records_ok split: option.splits)
    (simp add: records_ok_def jsmap_wf_def)

lemma store_inv_load: "store_inv st \<Longrightarrow> store_inv (ts_load now st)"
  by (simp add: store_inv_def [of "ts_load now st"] ts_load_ok)

lemma transition_inv:
  assumes "store_inv st" and "0 \<le> patch_or (tp_satoshis p) 0"
  shows "store_inv (fst (transitionTx now i to p st))"
proof (cases "snd (transitionTx now i to p st)")
  case None
  then show ?thesis
    using assms ts_load_ok by (simp add: store_inv_def [of "fst _"] transition_cache)
next
  case (Some r)
  then obtain cur where "jsmap_get (ts_map (ts_load now st)) i = Some cur" and r: "r = apply_tx_patch now to p cur"
    by (auto simp: transition_result getTxRecord_def split: option.splits if_splits)
  then have "record_ok i cur" using records_ok_get ts_load_ok [OF assms(1)] by blast
  then have "record_ok i r"
    using assms(2) unfolding r record_ok_def
    by (auto simp: apply_tx_patch_def patch_or_def split: option.splits)
  then show ?thesis
    using Some records_ok_set [OF ts_load_ok [OF assms(1)]] by (simp add: store_inv_def transition_cache)
qed

lemma fold_delete_ok: "records_ok m \<Longrightarrow> records_ok (fold (\<lambda>r m. jsmap_delete (tr_id r) m) rs m)"
  by (induction rs arbitrary: m) (auto simp: records_ok_delete)

lemma store_inv_marks [simp]: "store_inv (st\<lparr>ts_flushQueued := q\<rparr>) = store_inv st"
  "store_inv (st\<lparr>ts_dirtyKey := d\<rparr>) = store_inv st" "store_inv (st\<lparr>ts_storageKey := k\<rparr>) = store_inv st"
  "store_inv (st\<lparr>ts_index := x\<rparr>) = store_inv st" "store_inv (st\<lparr>ts_durable := y\<rparr>) = store_inv st"
  "store_inv (st\<lparr>ts_writeVersion := v\<rparr>) = store_inv st"
  "store_inv (st\<lparr>ts_cache := Some m\<rparr>) = records_ok m" "store_inv (ts_persist st) = store_inv st"
  by (simp_all add: store_inv_def ts_persist_def)

lemma flush_store_inv: "store_inv st \<Longrightarrow> store_inv (flushTxStore now st)"
  by (auto simp: flushTxStore_def Let_def intro!: fold_delete_ok ts_load_ok split: option.splits)

lemma store_step_inv:
  assumes inv: "store_inv st" and legal: "legal_op (snd e)"
  shows "store_inv (store_step st e)"
proof (cases e)
  case (Pair now op)
  show ?thesis
  proof (cases op)
    case (CreateDraft fresh sats to inputs i)
    then show ?thesis
      using Pair legal
      by (auto simp: createDraftTx_def Let_def ts_put_def record_ok_def comp_def intro!: records_ok_set ts_load_ok [OF inv])
  next
    case (Transition i to p)
    then show ?thesis using Pair legal transition_inv [OF inv] by simp
  next
    case (ApplyArc i arc)
    have l: "transitionTx now i to p (ts_load now st) = transitionTx now i to p st" for to p
      by (simp add: transitionTx_def Let_def)
    show ?thesis
      using ApplyArc Pair inv store_inv_load [OF inv, of now]
      by (auto simp: applyArcStatus_def Let_def l no_patch_def patch_or_def intro!: transition_inv split: option.splits)
  next
    case (LookupTxid t)
    then show ?thesis using Pair inv store_inv_load [OF inv, of now] by (simp add: getTxByTxid_def Let_def)
  next
    case RebindStore
    then show ?thesis
      using Pair by (auto simp: rebindTxStoreForAccount_def intro!: store_inv_load) (simp add: store_inv_def)
  next
    case ResetStore
    have "records_ok []" by (simp add: records_ok_def jsmap_wf_def)
    then show ?thesis using ResetStore Pair by (simp add: resetTxStoreForTests_def store_inv_def)
  qed (use Pair inv in \<open>auto simp: markTxMined_def markTxFailed_def markTxReorgOrphaned_def no_patch_def patch_or_def
          intro!: transition_inv flush_store_inv\<close>)
qed

interpretation txst: invariant_machine store_step "\<lambda>e. legal_op (snd e)" store_inv
  by unfold_locales (rule store_step_inv)

text \<open>What reading a written record back changes: a record that had no proof kind gets the one
  its status implies.\<close>

definition reproof :: "tx_record \<Rightarrow> tx_record" where
  "reproof r = r\<lparr>tr_chainProof := (case tr_chainProof r of None \<Rightarrow> default_proof (tr_status r) | Some p \<Rightarrow> Some p)\<rparr>"

lemma json_strings_map [simp]: "List.map_filter (\<lambda>v. json_str (Some v)) (map JStr xs) = xs"
  by (induction xs) (simp_all add: List.map_filter_def)

lemma coerce_record_to_json:
  assumes "record_ok k r"
  shows "coerceRecord now (record_to_json r) = Some (reproof r)"
proof -
  have f: "json_field (record_to_json r) f = map_of
     [(''id'', JStr (tr_id r)), (''status'', JStr (status_name (tr_status r))), (''txid'', opt_json (tr_txid r)),
      (''satoshis'', JNum (tr_satoshis r)), (''to'', opt_json (tr_to r)),
      (''inputOutpoints'', JArr (map JStr (tr_inputOutpoints r))), (''arcStatus'', tr_arcStatus r),
      (''diagnostic'', tr_diagnostic r), (''diagnosticDetail'', opt_json (tr_diagnosticDetail r)),
      (''minedHeight'', (case tr_minedHeight r of None \<Rightarrow> JNull | Some h \<Rightarrow> JNum h)),
      (''chainProof'', (case tr_chainProof r of None \<Rightarrow> JNull | Some Unconfirmed \<Rightarrow> JStr ''unconfirmed''
                        | Some HeaderProven \<Rightarrow> JStr ''headerProven'')),
      (''createdAt'', JNum (tr_createdAt r)), (''updatedAt'', JNum (tr_updatedAt r))] f" for f
    by (simp add: record_to_json_def)
  have o: "json_str (Some (opt_json x)) = x" for x by (cases x) (simp_all add: opt_json_def)
  have h: "json_int (Some (case x of None \<Rightarrow> JNull | Some h \<Rightarrow> JNum h)) = x" for x by (cases x) simp_all
  show ?thesis
    using assms unfolding coerceRecord_def f
    by (cases r; cases "tr_chainProof r"; cases "the (tr_chainProof r)") (simp_all add: o h record_ok_def reproof_def)
qed

lemma load_records_written:
  "\<forall>r \<in> set rs. record_ok (tr_id r) r \<Longrightarrow> distinct (map tr_id rs) \<Longrightarrow> set (map tr_id rs) \<inter> fst ` set m0 = {} \<Longrightarrow>
   load_records now (map record_to_json rs) m0 = m0 @ map (\<lambda>r. (tr_id r, reproof r)) rs"
proof (induction rs arbitrary: m0)
  case Nil
  then show ?case by simp
next
  case (Cons r rs)
  have new: "jsmap_set (tr_id r) (reproof r) m0 = m0 @ [(tr_id r, reproof r)]"
  proof (rule jsmap_set_new)
    show "tr_id r \<notin> fst ` set m0" using Cons.prems(3) by auto
  qed
  have i: "tr_id (reproof r) = tr_id r" by (simp add: reproof_def)
  have c: "coerceRecord now (record_to_json r) = Some (reproof r)"
    using Cons.prems(1) by (intro coerce_record_to_json [of "tr_id r"]) simp
  have ih: "load_records now (map record_to_json rs) (m0 @ [(tr_id r, reproof r)]) =
      (m0 @ [(tr_id r, reproof r)]) @ map (\<lambda>r. (tr_id r, reproof r)) rs"
    using Cons.prems by (intro Cons.IH) auto
  show ?case by (simp add: c i new ih)
qed

lemma map_of_rows:
  assumes ok: "records_ok m" and rs: "set rs = snd ` set m"
  shows "map_of (map (\<lambda>r. (tr_id r, f r)) rs) k = map_option f (jsmap_get m k)"
proof (cases "jsmap_get m k")
  case None
  have "tr_id r \<noteq> k" if r: "r \<in> set rs" for r
  proof -
    obtain k' where kr: "(k', r) \<in> set m" using r rs by auto
    then have "tr_id r = k'" using ok by (auto simp: records_ok_def record_ok_def)
    then show ?thesis using None kr by (force simp: map_of_eq_None_iff)
  qed
  then have "k \<notin> tr_id ` set rs" by auto
  then have "map_of (map (\<lambda>r. (tr_id r, f r)) rs) k = None" by (auto simp: map_of_eq_None_iff)
  then show ?thesis using None by simp
next
  case (Some r)
  have k: "tr_id r = k" using records_ok_get [OF ok Some] by (simp add: record_ok_def)
  have r: "r \<in> set rs" using map_of_SomeD [OF Some] rs by force
  have uniq: "r' = r" if "r' \<in> set rs" "tr_id r' = k" for r'
  proof -
    have "r' \<in> snd ` set m" using that(1) rs by simp
    then obtain k' where kr: "(k', r') \<in> set m" by auto
    then have "tr_id r' = k'" using ok by (auto simp: records_ok_def record_ok_def)
    then have "jsmap_get m k = Some r'"
      using kr that(2) ok by (simp add: records_ok_def jsmap_wf_def)
    then show ?thesis using Some by simp
  qed
  have "map_of (map (\<lambda>r. (tr_id r, f r)) rs') k = Some (f r)"
    if "r \<in> set rs'" "set rs' \<subseteq> set rs" for rs'
    using that
  proof (induction rs')
    case (Cons a rs')
    show ?case
    proof (cases "tr_id a = k")
      case True
      then show ?thesis using uniq [of a] Cons.prems(2) by simp
    next
      case False
      then have "r \<in> set rs'" using Cons.prems(1) k by auto
      then show ?thesis using Cons False by simp
    qed
  qed simp
  then show ?thesis using Some r by simp
qed

section \<open>Properties\<close>

text \<open>C5. Over any run of store operations on a loaded store that does not replace record \<open>i\<close>
  (a new draft under the same id, an account reload, the test reset), the status of \<open>i\<close> only
  moves along the status graph (or the record is dropped by the cap): a failed record stays
  failed, and it is \<open>MINED\<close> only if it was or some operation of the run committed it.\<close>

theorem store_run_follows_status_graph:
  assumes "ts_cache st = Some m" and "jsmap_get m i = Some r"
    and "list_all (\<lambda>e. \<not> replaces_record i (snd e)) es"
  shows "run_fine (tr_status r) (\<exists>e \<in> set es. commits_mined i (snd e))
     (map_option tr_status (getTxRecord now (fold_steps store_step st es) i))"
proof -
  have c: "ts_cache (fold_steps store_step st es) \<noteq> None"
    using assms(1,3)
  proof (induction es arbitrary: st m)
    case (Cons e es)
    obtain now op where e: "e = (now, op)" by (cases e)
    have "ts_cache (store_step st (now, op)) \<noteq> None"
      using store_step_fine [OF Cons.prems(1), of i op now] Cons.prems(2) e by (simp add: step_fine_def)
    then show ?case using Cons e by auto
  qed simp
  then obtain m' where "ts_cache (fold_steps store_step st es) = Some m'" by blast
  then have "map_option tr_status (getTxRecord now (fold_steps store_step st es) i) =
      status_at (fold_steps store_step st es) i"
    by (simp add: status_at_def getTxRecord_def)
  moreover have "status_at st i = Some (tr_status r)"
    using assms(1,2) by (simp add: status_at_def ts_map_def)
  ultimately show ?thesis
    using store_run_fine [OF _ _ assms(3), of st "tr_status r"] assms(1) by simp
qed

definition sample_record :: "string \<Rightarrow> TxStatus \<Rightarrow> tx_record" where
  "sample_record i s = \<lparr>tr_id = i, tr_status = s, tr_txid = Some (replicate 64 CHR ''a''), tr_satoshis = 5, tr_to = None,
     tr_inputOutpoints = [], tr_arcStatus = JNull, tr_diagnostic = JNull, tr_diagnosticDetail = None,
     tr_minedHeight = None, tr_chainProof = None, tr_createdAt = 1, tr_updatedAt = 1\<rparr>"

definition sample_store :: "TxStatus \<Rightarrow> tx_store" where
  "sample_store s = (store_boot [] ''k'')\<lparr>ts_cache := Some [(''t'', sample_record ''t'' s)]\<rparr>"

lemma store_run_follows_status_graph_witness:
  "run_fine FAILED_REJECTED True (map_option tr_status
     (getTxRecord 9 (fold_steps store_step (sample_store FAILED_REJECTED)
        [(2, MarkMined ''t'' 7), (3, ApplyArc ''t'' A_MINED), (4, FlushStore)]) ''t''))"
  using store_run_follows_status_graph [of "sample_store FAILED_REJECTED" _ "''t''" "sample_record ''t'' FAILED_REJECTED"
      "[(2, MarkMined ''t'' 7), (3, ApplyArc ''t'' A_MINED), (4, FlushStore)]" 9]
  by (simp add: sample_store_def) (simp add: sample_record_def)

text \<open>An ARC answer moves a record exactly as the table \<open>arc_next\<close> says (nothing when the
  table has no entry), it never yields \<open>MINED\<close>, whatever the network claims, and it changes no
  other record.\<close>

theorem applyArcStatus_never_mines:
  "map_option tr_status (snd (applyArcStatus now i arc st)) =
     (case getTxRecord now st i of None \<Rightarrow> None | Some cur \<Rightarrow> arc_next (tr_status cur) arc)
   \<and> map_option tr_status (snd (applyArcStatus now i arc st)) \<noteq> Some MINED
   \<and> (j = i \<or> getTxRecord now (fst (applyArcStatus now i arc st)) j = getTxRecord now st j)"
proof -
  obtain to p where t: "to \<noteq> MINED" "applyArcStatus now i arc st = transitionTx now i to p st \<or>
      applyArcStatus now i arc st = (ts_load now st, None)"
    using applyArc_is_transition by blast
  have "map_option tr_status (snd (applyArcStatus now i arc st)) \<noteq> Some MINED"
    using t by (auto simp: transition_result split: option.splits if_splits)
  moreover have "j = i \<or> getTxRecord now (fst (applyArcStatus now i arc st)) j = getTxRecord now st j"
    using t(2) transition_get [of now now i to p st j] by (auto split: if_splits)
  ultimately show ?thesis by (simp add: applyArc_status)
qed

text \<open>The per-txid lookup is never stale: after any operations from module start,
  \<open>getTxByTxid\<close> returns the first record in map order that carries the txid.\<close>

theorem getTxByTxid_is_first_match:
  "snd (getTxByTxid now txid (fold_steps store_step (store_boot durable key) es)) =
     (let t = js_lower (js_trim txid) in
      if hex_of_len 64 t
      then first_with_txid t (ts_map (ts_load now (fold_steps store_step (store_boot durable key) es))) else None)"
proof -
  have "index_inv (fold_steps store_step (store_boot durable key) es)"
    by (rule txindex.run_inv) (simp_all add: index_inv_def store_boot_def list_all_iff)
  from getTxByTxid_correct [OF this] show ?thesis by (simp add: Let_def)
qed

text \<open>What the store writes is what the next session reads: after any legal operations
  from module start that end with a dirty store of at most \<open>TX_MAX_ENTRIES\<close> records, flushing
  and loading again finds every record, field for field, with the proof kind its status implies
  where it had none.\<close>

theorem store_flush_reload_roundtrip:
  assumes "list_all (\<lambda>e. legal_op (snd e)) es" and "st = fold_steps store_step (store_boot durable key) es"
    and "ts_dirtyKey st = Some (ts_storageKey st)" and "ts_cache st = Some m" and "length m \<le> TX_MAX_ENTRIES"
  shows "getTxRecord now' ((flushTxStore now st)\<lparr>ts_cache := None\<rparr>) i = map_option reproof (getTxRecord now st i)"
proof -
  have inv: "store_inv st"
    unfolding assms(2) by (rule txst.run_inv [OF _ assms(1)]) (simp add: store_inv_def store_boot_def)
  then have ok: "records_ok m" using assms(4) by (simp add: store_inv_def)
  define rs where "rs = newest_first (map snd m)"
  have small: "take TX_MAX_ENTRIES rs = rs" using assms(5) by (simp add: rs_def newest_first_def)
  have rs: "set rs = snd ` set m" by (simp add: rs_def newest_first_def)
  have r_ok: "record_ok (tr_id r) r" if "r \<in> set rs" for r
    using that ok rs by (auto simp: records_ok_def record_ok_def)
  have "map (tr_id \<circ> snd) m = map fst m"
    using ok by (auto simp: records_ok_def record_ok_def)
  then have "distinct (map tr_id (map snd m))"
    unfolding map_map using ok by (metis records_ok_def jsmap_wf_def)
  then have d: "distinct (map tr_id rs)"
    unfolding rs_def newest_first_def distinct_map [of tr_id] by simp
  have "load_records now' (map record_to_json rs) [] = map (\<lambda>r. (tr_id r, reproof r)) rs"
    using load_records_written [of rs "[]"] r_ok d by simp
  then have "getTxRecord now' ((flushTxStore now st)\<lparr>ts_cache := None\<rparr>) i =
      map_of (map (\<lambda>r. (tr_id r, reproof r)) rs) i"
    using assms(3,4) small
    by (simp add: flushTxStore_def Let_def getTxRecord_def ts_load_def ts_map_def ts_rows_def rs_def)
  then show ?thesis
    using map_of_rows [OF ok rs] getTxRecord_cache [OF assms(4)] by simp
qed

lemma store_flush_reload_roundtrip_witness:
  "getTxRecord 9 ((flushTxStore 5 (fold_steps store_step (store_boot [] ''k'')
      [(2, CreateDraft ''t'' 7 None None None)]))\<lparr>ts_cache := None\<rparr>) ''t'' =
   map_option reproof (getTxRecord 5 (fold_steps store_step (store_boot [] ''k'')
      [(2, CreateDraft ''t'' 7 None None None)]) ''t'')"
  by (rule store_flush_reload_roundtrip [OF _ refl])
    (simp_all add: createDraftTx_def ts_put_def ts_persist_def ts_load_def ts_rows_def ts_map_def store_boot_def TX_MAX_ENTRIES_def Let_def, simp)

text \<open>A reorg does not retract the proof kind: a mined record orphaned by
  \<open>markTxReorgOrphaned\<close> is no longer \<open>MINED\<close> and has no height, yet still carries
  \<open>headerProven\<close>, so it is not counted as locally unconfirmed.\<close>

theorem reorg_keeps_header_proof:
  assumes "getTxRecord now st i = Some cur" and "tr_status cur = SEEN_IN_MEMPOOL"
  shows "\<exists>r. snd (markTxReorgOrphaned now'' i (fst (markTxMined now i h st))) = Some r
    \<and> tr_status r = REORG_ORPHANED \<and> tr_minedHeight r = None \<and> tr_chainProof r = Some HeaderProven"
proof -
  have "getTxRecord now'' (fst (markTxMined now i h st)) i = snd (markTxMined now i h st)"
    using assms by (simp add: markTxMined_def transition_get transition_result canTransitionTx_def)
  then show ?thesis
    using assms
    by (simp add: markTxReorgOrphaned_def markTxMined_def transition_result canTransitionTx_def apply_tx_patch_def
        no_patch_def patch_or_def)
qed

lemma reorg_keeps_header_proof_witness:
  "\<exists>r. snd (markTxReorgOrphaned 3 ''t'' (fst (markTxMined 2 ''t'' 800 (sample_store SEEN_IN_MEMPOOL)))) = Some r
    \<and> tr_status r = REORG_ORPHANED \<and> tr_minedHeight r = None \<and> tr_chainProof r = Some HeaderProven"
  by (rule reorg_keeps_header_proof [of _ _ _ "sample_record ''t'' SEEN_IN_MEMPOOL"])
    (simp_all add: sample_store_def getTxRecord_def ts_map_def, simp add: sample_record_def)

end
