(* ===== verification/Dual_Layer.thy ===== *)
theory Dual_Layer
  imports Utxo_Overlay Tx_Store
begin

text \<open>
  The dual-layer send (\<open>src/src/wallet/dualLayerSend.ts\<close>) over the two stores, with the SPV
  gate of \<open>spvFinality.ts\<close>. The state is the overlay and the transaction store;
  \<open>tryFinalizeDualLayerTx\<close> awaits the proof, so it is two steps with anything in between: the
  part before the await, which remembers the record it read, and the part after it. Each call
  reads the clock once. The answers of the wallet's services (the merkle path of a txid, the
  verdict of \<open>path.verify\<close>) are a parameter, \<open>finality_env\<close>.
\<close>

section \<open>SPV finality (\<open>spvFinality.ts\<close>)\<close>

datatype finality_reason = NoWallet | NoProof | Invalid | UnknownHeight | ProofError

datatype spv_finality = FinalAt int | NotFinal finality_reason "string option"

text \<open>
  \<open>fe_path\<close>: \<open>Inl\<close> is a thrown error, \<open>Inr None\<close> no path, \<open>Inr (Some h)\<close> a path whose
  height is \<open>h\<close> (\<open>None\<close>: not a finite number). \<open>fe_verify\<close>: \<open>Inl\<close> thrown, \<open>Inr None\<close>
  neither \<open>true\<close> nor \<open>false\<close>.
\<close>

record finality_env =
  fe_active :: bool
  fe_services :: bool
  fe_path :: "string \<Rightarrow> string + int option option"
  fe_verify :: "string \<Rightarrow> string + bool option"

definition verifyBumpFinality :: "finality_env \<Rightarrow> string \<Rightarrow> spv_finality" where
  "verifyBumpFinality env txid =
     (let needle = js_lower (js_trim txid) in
      if \<not> hex_of_len 64 needle then NotFinal NoProof (Some ''invalid txid'')
      else if \<not> fe_active env then NotFinal NoWallet None
      else if \<not> fe_services env then NotFinal UnknownHeight (Some ''merkle/chainTracker unavailable'')
      else (case fe_path env needle of
              Inl e \<Rightarrow> NotFinal ProofError (Some e)
            | Inr None \<Rightarrow> NotFinal NoProof None
            | Inr (Some None) \<Rightarrow> NotFinal UnknownHeight (Some ''missing block height'')
            | Inr (Some (Some height)) \<Rightarrow>
                if height \<le> 0 then NotFinal UnknownHeight (Some ''missing block height'')
                else (case fe_verify env needle of
                        Inl e \<Rightarrow> NotFinal ProofError (Some e)
                      | Inr (Some True) \<Rightarrow> FinalAt height
                      | Inr (Some False) \<Rightarrow> NotFinal Invalid None
                      | Inr None \<Rightarrow> NotFinal UnknownHeight (Some ''chainTracker behind or inconclusive''))))"

section \<open>State and operations\<close>

record dual =
  dl_overlay :: overlay
  dl_store :: tx_store
  dl_pending :: "(string \<times> tx_record) list"

definition on_store :: "(tx_store \<Rightarrow> tx_store \<times> 'a) \<Rightarrow> dual \<Rightarrow> dual \<times> 'a" where
  "on_store f d = (let (s, x) = f (dl_store d) in (d\<lparr>dl_store := s\<rparr>, x))"

definition on_overlay :: "(overlay \<Rightarrow> overlay \<times> 'a) \<Rightarrow> dual \<Rightarrow> dual \<times> 'a" where
  "on_overlay f d = (let (s, x) = f (dl_overlay d) in (d\<lparr>dl_overlay := s\<rparr>, x))"

record begin_args =
  ba_satoshis :: int
  ba_availableSats :: int
  ba_to :: "string option"
  ba_feeSats :: "int option"
  ba_inputs :: "(string \<times> int) list option"
  ba_protocolRefuse :: bool
  ba_protocolRefuseDetail :: "string option"
  ba_skipSoftLock :: bool

datatype begin_result = BeginOk tx_record | BeginRefused TxDiagnosticCode string tx_record

fun refusal_text :: "lock_refusal \<Rightarrow> string" where
  "refusal_text (AlreadyReserved k) = ''UTXO already reserved: '' @ k"
| "refusal_text (AlreadySpent k) = ''UTXO already spent: '' @ k"
| "refusal_text (NotSpendable k) = ''UTXO not spendable: '' @ k"

definition validate_args :: "begin_args \<Rightarrow> validate_input" where
  "validate_args a = \<lparr>vi_satoshis = ba_satoshis a, vi_availableSats = ba_availableSats a, vi_feeSats = ba_feeSats a,
     vi_inputOutpoints = map_option (map fst) (ba_inputs a), vi_protocolRefuse = ba_protocolRefuse a,
     vi_protocolRefuseDetail = ba_protocolRefuseDetail a\<rparr>"

definition begin_refused :: "int \<Rightarrow> tx_record \<Rightarrow> TxDiagnosticCode \<Rightarrow> string \<Rightarrow> dual \<Rightarrow> dual \<times> begin_result" where
  "begin_refused now draft code detail d =
     (let d1 = fst (on_store (markTxFailed now (tr_id draft) code (Some detail)) d)
      in (d1, BeginRefused code detail (case getTxRecord now (dl_store d1) (tr_id draft) of Some r \<Rightarrow> r | None \<Rightarrow> draft)))"

definition begin_lock :: "int \<Rightarrow> string \<Rightarrow> begin_args \<Rightarrow> dual \<Rightarrow> dual \<times> (lock_refusal + utxo_lock list)" where
  "begin_lock now i a d = (case ba_inputs a of
     Some (x # xs) \<Rightarrow> if ba_skipSoftLock a then (d, Inr []) else on_overlay (softLockInputs now i (x # xs)) d
   | _ \<Rightarrow> (d, Inr []))"

definition begin_dispatch :: "int \<Rightarrow> string \<Rightarrow> dual \<Rightarrow> dual \<times> begin_result" where
  "begin_dispatch now i d =
     (let (d', broadcasting) = on_store (transitionTx now i BROADCASTING no_patch) d
      in (d', BeginOk (case broadcasting of Some r \<Rightarrow> r | None \<Rightarrow> the (getTxRecord now (dl_store d') i))))"

definition beginDualLayerSend :: "int \<Rightarrow> string \<Rightarrow> begin_args \<Rightarrow> dual \<Rightarrow> dual \<times> begin_result" where
  "beginDualLayerSend now fresh a d0 =
     (let (d1, draft) = on_store (createDraftTx now fresh (ba_satoshis a) (ba_to a)
            (Some (map fst (case ba_inputs a of None \<Rightarrow> [] | Some xs \<Rightarrow> xs))) None) d0;
          d2 = fst (on_store (transitionTx now (tr_id draft) VALIDATING no_patch) d1)
      in case validateBeforeOptimisticLock (validate_args a) of
           Some (code, detail) \<Rightarrow> begin_refused now draft code detail d2
         | None \<Rightarrow>
             (let (d3, locked) = begin_lock now (tr_id draft) a d2
              in case locked of
                   Inl e \<Rightarrow> begin_refused now draft PROTOCOL_REFUSE (refusal_text e) d3
                 | Inr _ \<Rightarrow> begin_dispatch now (tr_id draft) d3))"

definition noteDualLayerTxid :: "int \<Rightarrow> string \<Rightarrow> string \<Rightarrow> dual \<Rightarrow> dual \<times> tx_record option" where
  "noteDualLayerTxid now i txid =
     on_store (transitionTx now i BROADCASTING (no_patch\<lparr>tp_txid := Some (Some (js_lower txid))\<rparr>))"

definition beginSignedTxLifecycle ::
  "int \<Rightarrow> string \<Rightarrow> string \<Rightarrow> int \<Rightarrow> string option \<Rightarrow> dual \<Rightarrow> dual \<times> tx_record" where
  "beginSignedTxLifecycle now fresh txid satoshis to d0 =
     (let (d1, existing) = on_store (getTxByTxid now txid) d0 in
      case existing of
        Some r \<Rightarrow> (d1, r)
      | None \<Rightarrow>
          (let (d2, draft) = on_store (createDraftTx now fresh satoshis to None None) d1;
               d3 = fst (on_store (transitionTx now (tr_id draft) VALIDATING no_patch) d2);
               (d4, r) = on_store (transitionTx now (tr_id draft) BROADCASTING
                 (no_patch\<lparr>tp_txid := Some (Some (js_lower (js_trim txid))), tp_chainProof := Some None\<rparr>)) d3
           in (d4, case r of Some x \<Rightarrow> x | None \<Rightarrow> the (getTxRecord now (dl_store d4) (tr_id draft)))))"

definition noteDualLayerSigned :: "int \<Rightarrow> string \<Rightarrow> string \<Rightarrow> dual \<Rightarrow> dual \<times> tx_record option" where
  "noteDualLayerSigned now i txid = on_store (transitionTx now i BROADCASTING
     (no_patch\<lparr>tp_txid := Some (Some (js_lower txid)), tp_chainProof := Some None\<rparr>))"

definition applyDualLayerArcStatus :: "int \<Rightarrow> string \<Rightarrow> ArcStatus \<Rightarrow> dual \<Rightarrow> dual \<times> tx_record option" where
  "applyDualLayerArcStatus now i status d0 =
     (let policy = handleArcRejection status;
          (d1, next) = on_store (applyArcStatus now i status) d0;
          d2 = (if map_option tr_status next = Some SEEN_IN_MEMPOOL \<or> map_option tr_status next = Some MINED
                   \<or> ap_confirmSpent policy
                then fst (on_overlay (confirmSpentLocks now i
                       (Some (case Option.bind next tr_txid of Some t \<Rightarrow> t | None \<Rightarrow> []))) d1)
                else d1);
          d3 = (if ap_rollbackLocks policy then fst (on_overlay (rollbackLocks now i) d2) else d2)
      in (d3, next))"

text \<open>
  \<open>applyDualLayerArc\<close> on a raw text. A text that is no ARC status is passed on as it is: the
  policy has no branch for it and \<open>applyArcStatus\<close> finds no legal target, so nothing changes.
\<close>

definition applyDualLayerArc :: "int \<Rightarrow> string \<Rightarrow> string \<Rightarrow> dual \<Rightarrow> dual \<times> tx_record option" where
  "applyDualLayerArc now i raw d = (case parseArcStatus (Some raw) of
     Some status \<Rightarrow> applyDualLayerArcStatus now i status d
   | None \<Rightarrow> on_store (\<lambda>s. (ts_load now s, None)) d)"

definition noteDualLayerPostBeef :: "int \<Rightarrow> string \<Rightarrow> post_beef_summary \<Rightarrow> dual \<Rightarrow> dual \<times> tx_record option" where
  "noteDualLayerPostBeef now i summary = applyDualLayerArc now i (arc_name (arcStatusFromPostBeef summary))"

definition failDualLayerSend ::
  "int \<Rightarrow> string \<Rightarrow> TxDiagnosticCode \<Rightarrow> string option \<Rightarrow> bool \<Rightarrow> dual \<Rightarrow> dual \<times> tx_record option" where
  "failDualLayerSend now i code detail hideInputs d0 =
     (let d1 = (if hideInputs
          then fst (on_overlay (confirmSpentLocks now i
                 (Some (case Option.bind (getTxRecord now (dl_store d0) i) tr_txid of Some t \<Rightarrow> t | None \<Rightarrow> [])))
               (d0\<lparr>dl_store := ts_load now (dl_store d0)\<rparr>))
          else fst (on_overlay (rollbackLocks now i) d0))
      in on_store (markTxFailed now i code detail) d1)"

text \<open>\<open>tryFinalizeDualLayerTx\<close> up to its await, and after it.\<close>

definition finalize_start :: "int \<Rightarrow> string \<Rightarrow> dual \<Rightarrow> dual \<times> tx_record option" where
  "finalize_start now i d =
     (let d1 = d\<lparr>dl_store := ts_load now (dl_store d)\<rparr> in
      case getTxRecord now (dl_store d1) i of
        None \<Rightarrow> (d1, None)
      | Some rec \<Rightarrow>
          if tr_txid rec = None \<or> tr_txid rec = Some [] then (d1, Some rec)
          else if tr_status rec \<noteq> SEEN_IN_MEMPOOL \<and> tr_status rec \<noteq> BROADCASTING \<and> tr_status rec \<noteq> REORG_ORPHANED
          then (d1, Some rec)
          else
            (let d2 = (if tr_status rec = REORG_ORPHANED
                       then fst (on_store (transitionTx now i SEEN_IN_MEMPOOL no_patch) d1) else d1)
             in (d2\<lparr>dl_pending := dl_pending d2 @ [(i, rec)]\<rparr>, None)))"

definition finalize_end :: "int \<Rightarrow> string \<Rightarrow> tx_record \<Rightarrow> spv_finality \<Rightarrow> dual \<Rightarrow> dual \<times> tx_record option" where
  "finalize_end now i rec proof_result d = (case proof_result of
     FinalAt height \<Rightarrow>
       (let (d1, mined) = on_store (markTxMined now i height) d
        in (fst (on_overlay (confirmSpentLocks now i (tr_txid rec)) d1), mined))
   | NotFinal Invalid detail \<Rightarrow>
       on_store (transitionTx now i (tr_status rec)
         (no_patch\<lparr>tp_diagnostic := Some (Some BUMP_UNVERIFIED),
                   tp_diagnosticDetail := Some (Some (case detail of Some x \<Rightarrow> x | None \<Rightarrow> ''invalid merkle proof''))\<rparr>)) d
   | NotFinal _ _ \<Rightarrow> on_store (\<lambda>s. (ts_load now s, getTxRecord now s i)) d)"

definition orphanDualLayerTx :: "int \<Rightarrow> string \<Rightarrow> dual \<Rightarrow> dual \<times> tx_record option" where
  "orphanDualLayerTx now i = on_store (markTxReorgOrphaned now i)"

text \<open>One call of the module; \<open>RunMicrotasks\<close> is the queued flush of both stores.\<close>

datatype dual_op =
    BeginSend string begin_args
  | NoteTxid string string
  | BeginSigned string string int "string option"
  | NoteSigned string string
  | NotePostBeef string post_beef_summary
  | NoteArc string string
  | FailSend string TxDiagnosticCode "string option" bool
  | FinalizeStart string
  | FinalizeEnd nat finality_env
  | Orphan string
  | RunMicrotasks

fun dual_step :: "dual \<Rightarrow> int \<times> dual_op \<Rightarrow> dual" where
  "dual_step d (now, BeginSend fresh a) = fst (beginDualLayerSend now fresh a d)"
| "dual_step d (now, NoteTxid i t) = fst (noteDualLayerTxid now i t d)"
| "dual_step d (now, BeginSigned fresh t sats to) = fst (beginSignedTxLifecycle now fresh t sats to d)"
| "dual_step d (now, NoteSigned i t) = fst (noteDualLayerSigned now i t d)"
| "dual_step d (now, NotePostBeef i s) = fst (noteDualLayerPostBeef now i s d)"
| "dual_step d (now, NoteArc i raw) = fst (applyDualLayerArc now i raw d)"
| "dual_step d (now, FailSend i code detail hide) = fst (failDualLayerSend now i code detail hide d)"
| "dual_step d (now, FinalizeStart i) = fst (finalize_start now i d)"
| "dual_step d (now, FinalizeEnd n env) =
     (if n < length (dl_pending d) then
        (case dl_pending d ! n of (i, rec) \<Rightarrow>
           fst (finalize_end now i rec (verifyBumpFinality env (the (tr_txid rec)))
             (d\<lparr>dl_pending := take n (dl_pending d) @ List.drop (Suc n) (dl_pending d)\<rparr>)))
      else d)"
| "dual_step d (now, Orphan i) = fst (orphanDualLayerTx now i d)"
| "dual_step d (now, RunMicrotasks) =
     d\<lparr>dl_overlay := flushUtxoLocks now (dl_overlay d), dl_store := flushTxStore now (dl_store d)\<rparr>"

section \<open>Mined records are proven records\<close>

text \<open>\<open>recs_ok M X s\<close>: in the (loaded) store every \<open>MINED\<close> record satisfies \<open>M\<close>, and every
  record's txid is one \<open>X\<close> allows.\<close>

definition recs_ok :: "(string \<Rightarrow> tx_record \<Rightarrow> bool) \<Rightarrow> (string \<Rightarrow> string option \<Rightarrow> bool) \<Rightarrow> tx_store \<Rightarrow> bool" where
  "recs_ok M X s = (ts_cache s \<noteq> None \<and> (\<forall>k r. jsmap_get (ts_map s) k = Some r \<longrightarrow>
     (tr_status r = MINED \<longrightarrow> M k r) \<and> X k (tr_txid r)))"

lemma recs_ok_load [simp]: "recs_ok M X s \<Longrightarrow> ts_load now s = s"
  by (auto simp: recs_ok_def)

lemma recs_ok_get: "recs_ok M X s \<Longrightarrow> getTxRecord now s k = jsmap_get (ts_map s) k"
  by (simp add: getTxRecord_def)

lemma recs_ok_transition:
  assumes ok: "recs_ok M X s"
    and new: "\<And>cur. jsmap_get (ts_map s) i = Some cur \<Longrightarrow> to = MINED \<Longrightarrow> M i (apply_tx_patch now to p cur)"
    and txid: "tp_txid p = None \<or> (\<forall>t. X i t)"
  shows "recs_ok M X (fst (transitionTx now i to p s))"
proof -
  have m: "ts_map (fst (transitionTx now i to p s)) = (case snd (transitionTx now i to p s) of
      None \<Rightarrow> ts_map s | Some r \<Rightarrow> jsmap_set i r (ts_map s))"
    using transition_cache [of now i to p s, unfolded recs_ok_load [OF ok]]
    by (simp add: ts_map_def [of "fst _"])
  have x: "X i (tr_txid (apply_tx_patch now to p cur))" if "jsmap_get (ts_map s) i = Some cur" for cur
    using txid that ok by (auto simp: recs_ok_def apply_tx_patch_def)
  show ?thesis
    using ok new x transition_cache [of now i to p s]
    by (auto simp: recs_ok_def m transition_result getTxRecord_def recs_ok_load [OF ok] split: option.splits if_splits)
qed

lemma no_txid_patch: "tp_txid no_patch = None"
  by (simp add: no_patch_def)

lemma recs_ok_mark:
  assumes ok: "recs_ok M X s"
    and new: "\<And>(cur :: tx_record) (r :: tx_record). X i (tr_txid cur) \<Longrightarrow> tr_txid r = tr_txid cur \<Longrightarrow> tr_chainProof r = Some HeaderProven \<Longrightarrow>
      tr_minedHeight r = Some h \<Longrightarrow> M i r"
  shows "recs_ok M X (fst (markTxMined now i h s))"
  unfolding markTxMined_def
proof (rule recs_ok_transition [OF ok])
  fix cur
  assume "jsmap_get (ts_map s) i = Some cur"
  then have "X i (tr_txid cur)" using ok by (auto simp: recs_ok_def)
  then show "M i (apply_tx_patch now MINED (no_patch\<lparr>tp_minedHeight := Some (Some h), tp_chainProof := Some (Some HeaderProven),
       tp_arcStatus := Some (Some A_MINED), tp_diagnostic := Some None, tp_diagnosticDetail := Some None\<rparr>) cur)"
    by (rule new) (simp_all add: apply_tx_patch_def no_patch_def patch_or_def)
qed (simp add: no_txid_patch)

lemma recs_ok_arc:
  assumes ok: "recs_ok M X s"
  shows "recs_ok M X (fst (applyArcStatus now i arc s))"
proof -
  have t: "txStatusFromArc arc \<noteq> MINED" by (cases arc) auto
  have tr: "recs_ok M X (fst (transitionTx now i to p s))" if "to \<noteq> MINED" "tp_txid p = None" for to p
    by (rule recs_ok_transition [OF ok]) (use that in auto)
  show ?thesis
    using t ok by (auto simp: applyArcStatus_def Let_def recs_ok_load [OF ok] no_txid_patch intro!: tr split: option.splits)
qed

lemma recs_ok_failed: "recs_ok M X s \<Longrightarrow> recs_ok M X (fst (markTxFailed now i code d s))"
  unfolding markTxFailed_def by (rule recs_ok_transition) (simp_all add: no_txid_patch)

lemma recs_okI:
  assumes "recs_ok M X s" and "ts_cache s' = Some m'"
    and "\<And>k r. jsmap_get m' k = Some r \<Longrightarrow> jsmap_get (ts_map s) k = Some r \<or> tr_status r \<noteq> MINED \<and> (\<forall>t. X k t)"
  shows "recs_ok M X s'"
proof -
  have "ts_map s' = m'" using assms(2) by (simp add: ts_map_def)
  then show ?thesis using assms unfolding recs_ok_def by blast
qed

lemma recs_ok_create:
  assumes ok: "recs_ok M X s" and x: "\<forall>t. X fresh t"
  shows "recs_ok M X (fst (createDraftTx now fresh sats to inputs None s))"
  by (rule recs_okI [OF ok], simp add: createDraftTx_def Let_def ts_put_def recs_ok_load [OF ok])
    (use x in \<open>auto split: if_splits\<close>)

lemma recs_ok_lookup:
  assumes ok: "recs_ok M X s"
  shows "recs_ok M X (fst (getTxByTxid now t s))"
proof -
  obtain m where m: "ts_cache s = Some m" using ok by (auto simp: recs_ok_def)
  then have tm: "ts_map s = m" by (simp add: ts_map_def)
  show ?thesis
    by (rule recs_okI [OF ok]) (auto simp: getTxByTxid_def Let_def recs_ok_load [OF ok] m tm)
qed

lemma recs_ok_flush:
  assumes ok: "recs_ok M X s"
  shows "recs_ok M X (flushTxStore now s)"
proof -
  obtain m where m: "ts_cache s = Some m" using ok by (auto simp: recs_ok_def)
  then have tm: "ts_map s = m" by (simp add: ts_map_def)
  show ?thesis
  proof (cases "ts_dirtyKey s = Some (ts_storageKey s)")
    case True
    show ?thesis
      by (rule recs_okI [OF ok], use True in \<open>simp add: flushTxStore_def Let_def m ts_map_def\<close>)
        (auto simp: fold_delete_get tm split: if_splits)
  next
    case False
    show ?thesis
      by (rule recs_okI [OF ok, where m' = m])
        (use False in \<open>auto simp: flushTxStore_def Let_def m tm split: option.splits\<close>)
  qed
qed

lemma dual_store_ops:
  "recs_ok M X (dl_store d) \<Longrightarrow> (recs_ok M X (dl_store d) \<Longrightarrow> recs_ok M X (fst (f (dl_store d)))) \<Longrightarrow>
   recs_ok M X (dl_store (fst (on_store f d)))"
  by (simp add: on_store_def case_prod_unfold Let_def)

lemma dual_overlay_ops [simp]: "dl_store (fst (on_overlay f d)) = dl_store d" "dl_pending (fst (on_overlay f d)) = dl_pending d"
  by (simp_all add: on_overlay_def case_prod_unfold Let_def)

lemma on_store_pending [simp]: "dl_pending (fst (on_store f d)) = dl_pending d"
  by (simp add: on_store_def case_prod_unfold Let_def)

lemmas recs_ok_ops = recs_ok_arc recs_ok_failed recs_ok_create recs_ok_lookup recs_ok_flush

lemma recs_ok_begin:
  "recs_ok M X (dl_store d) \<Longrightarrow> \<forall>t. X fresh t \<Longrightarrow> recs_ok M X (dl_store (fst (beginDualLayerSend now fresh a d)))"
  by (auto simp: beginDualLayerSend_def begin_refused_def begin_lock_def begin_dispatch_def Let_def case_prod_unfold no_txid_patch
      intro!: dual_store_ops recs_ok_transition recs_ok_ops split: option.splits list.splits sum.splits)

lemma recs_ok_signed:
  assumes ok: "recs_ok M X (dl_store d)" and x: "\<forall>t. X fresh t"
  shows "recs_ok M X (dl_store (fst (beginSignedTxLifecycle now fresh t sats to d)))"
proof -
  have "tr_id (snd (on_store (createDraftTx now fresh sats to None None) d')) = fresh" for d'
    by (simp add: on_store_def createDraftTx_def Let_def case_prod_unfold)
  then show ?thesis using ok x
    by (auto simp: beginSignedTxLifecycle_def Let_def case_prod_unfold
        intro!: dual_store_ops recs_ok_transition recs_ok_ops split: option.splits)
qed

lemma recs_ok_arc_status: "recs_ok M X (dl_store d) \<Longrightarrow> recs_ok M X (dl_store (fst (applyDualLayerArcStatus now i s d)))"
  by (auto simp: applyDualLayerArcStatus_def Let_def case_prod_unfold intro!: dual_store_ops recs_ok_ops)

lemma recs_ok_arc_text: "recs_ok M X (dl_store d) \<Longrightarrow> recs_ok M X (dl_store (fst (applyDualLayerArc now i raw d)))"
  by (auto simp: applyDualLayerArc_def recs_ok_arc_status intro!: dual_store_ops split: option.splits)

lemma recs_ok_fail: "recs_ok M X (dl_store d) \<Longrightarrow> recs_ok M X (dl_store (fst (failDualLayerSend now i code detail hide d)))"
  by (auto simp: failDualLayerSend_def Let_def intro!: dual_store_ops recs_ok_ops)

lemma recs_ok_start: "recs_ok M X (dl_store d) \<Longrightarrow> recs_ok M X (dl_store (fst (finalize_start now i d)))"
proof -
  assume ok: "recs_ok M X (dl_store d)"
  have "recs_ok M X (dl_store (fst (on_store (transitionTx now i SEEN_IN_MEMPOOL no_patch) d)))"
    using ok by (intro dual_store_ops recs_ok_transition) (auto simp: no_txid_patch)
  then show ?thesis using ok
    by (auto simp: finalize_start_def Let_def on_store_def case_prod_unfold split: option.splits)
qed

lemma recs_ok_end:
  assumes ok: "recs_ok M X (dl_store d)" and rec: "tr_status rec \<noteq> MINED"
    and new: "\<And>h (cur :: tx_record) (r :: tx_record). pr = FinalAt h \<Longrightarrow> X i (tr_txid cur) \<Longrightarrow> tr_txid r = tr_txid cur \<Longrightarrow>
      tr_chainProof r = Some HeaderProven \<Longrightarrow> tr_minedHeight r = Some h \<Longrightarrow> M i r"
  shows "recs_ok M X (dl_store (fst (finalize_end now i rec pr d)))"
proof (cases pr)
  case (FinalAt height)
  have "recs_ok M X (dl_store (fst (on_store (markTxMined now i height) d)))"
    by (rule dual_store_ops [OF ok]) (rule recs_ok_mark, assumption, rule new [OF FinalAt])
  then show ?thesis using FinalAt by (simp add: finalize_end_def case_prod_unfold Let_def)
next
  case (NotFinal reason detail)
  then show ?thesis
    using ok rec by (cases reason) (auto simp: finalize_end_def no_txid_patch intro!: dual_store_ops recs_ok_transition)
qed

section \<open>How a record was mined\<close>

text \<open>The calls that may change the txid of record \<open>i\<close>, or put a new record in its place.\<close>

fun changes_txid :: "string \<Rightarrow> dual_op \<Rightarrow> bool" where
  "changes_txid i (NoteTxid j t) = (j = i)"
| "changes_txid i (NoteSigned j t) = (j = i)"
| "changes_txid i (BeginSend fresh a) = (fresh = i)"
| "changes_txid i (BeginSigned fresh t sats to) = (fresh = i)"
| "changes_txid i _ = False"

lemma recs_ok_step:
  assumes ok: "recs_ok M X (dl_store d)" and x: "\<And>i. changes_txid i op \<Longrightarrow> \<forall>t. X i t" and op: "\<And>n env. op \<noteq> FinalizeEnd n env"
  shows "recs_ok M X (dl_store (dual_step d (now, op)))"
proof (cases op)
  case (NoteTxid i t)
  then show ?thesis using ok x
    by (auto simp: noteDualLayerTxid_def intro!: dual_store_ops recs_ok_transition)
next
  case (NoteSigned i t)
  then show ?thesis using ok x
    by (auto simp: noteDualLayerSigned_def intro!: dual_store_ops recs_ok_transition)
next
  case (Orphan i)
  then show ?thesis using ok
    by (auto simp: orphanDualLayerTx_def markTxReorgOrphaned_def no_txid_patch intro!: dual_store_ops recs_ok_transition)
next
  case (FinalizeEnd n env)
  then show ?thesis using op by blast
qed (use ok x recs_ok_begin recs_ok_signed recs_ok_arc_text recs_ok_fail recs_ok_start recs_ok_flush in
    \<open>simp_all add: noteDualLayerPostBeef_def\<close>)

lemma pending_step:
  assumes "x \<in> set (dl_pending (dual_step d (now, op)))"
  shows "x \<in> set (dl_pending d) \<or> (\<exists>i rec. op = FinalizeStart i \<and> x = (i, rec) \<and> getTxRecord now (dl_store d) i = Some rec \<and>
    tr_txid rec \<noteq> None \<and> tr_status rec \<noteq> MINED)"
proof (cases op)
  case (FinalizeStart i)
  have "getTxRecord now (ts_load now (dl_store d)) i = getTxRecord now (dl_store d) i"
    by (simp add: getTxRecord_def)
  then show ?thesis using assms FinalizeStart
    by (auto simp: finalize_start_def Let_def split: option.splits if_splits)
next
  case (FinalizeEnd n env)
  then show ?thesis using assms
    by (auto simp: finalize_end_def case_prod_unfold Let_def dest: in_set_takeD in_set_dropD
        split: spv_finality.splits finality_reason.splits if_splits)
qed (use assms in \<open>auto simp: beginDualLayerSend_def begin_refused_def begin_lock_def begin_dispatch_def noteDualLayerTxid_def
  beginSignedTxLifecycle_def noteDualLayerSigned_def noteDualLayerPostBeef_def applyDualLayerArc_def applyDualLayerArcStatus_def
  failDualLayerSend_def orphanDualLayerTx_def Let_def case_prod_unfold split: option.splits list.splits sum.splits if_splits\<close>)

text \<open>
  The evidence for a mined record: a finality attempt in the run read the record, the services
  gave a path of that record's txid at a height, the path verified, and that height is the
  record's; and the txid is still the record's unless it was changed while the proof was awaited.
\<close>

definition proven_path :: "finality_env \<Rightarrow> string \<Rightarrow> int \<Rightarrow> bool" where
  "proven_path env txid h = (let t = js_lower (js_trim txid) in
     fe_path env t = Inr (Some (Some h)) \<and> fe_verify env t = Inr (Some True) \<and> 0 < h \<and> hex_of_len 64 t)"

lemma final_is_proven: "verifyBumpFinality env txid = FinalAt h \<Longrightarrow> proven_path env txid h"
  by (auto simp: verifyBumpFinality_def proven_path_def Let_def split: if_splits sum.splits option.splits bool.splits)

definition read_by :: "dual \<Rightarrow> (int \<times> dual_op) list \<Rightarrow> string \<Rightarrow> tx_record \<Rightarrow> (int \<times> dual_op) list \<Rightarrow> bool" where
  "read_by d es i rec since = (\<exists>before now0. es = before @ (now0, FinalizeStart i) # since \<and>
     getTxRecord now0 (dl_store (fold_steps dual_step d before)) i = Some rec)"

definition mined_by :: "dual \<Rightarrow> (int \<times> dual_op) list \<Rightarrow> string \<Rightarrow> tx_record \<Rightarrow> bool" where
  "mined_by d es i r = (\<exists>es1 now1 n env es2 rec since txid h.
     es = es1 @ (now1, FinalizeEnd n env) # es2 \<and> n < length (dl_pending (fold_steps dual_step d es1)) \<and>
     dl_pending (fold_steps dual_step d es1) ! n = (i, rec) \<and> read_by d es1 i rec since \<and>
     tr_txid rec = Some txid \<and> proven_path env txid h \<and>
     tr_chainProof r = Some HeaderProven \<and> tr_minedHeight r = Some h \<and>
     (tr_txid r = Some txid \<or> (\<exists>e \<in> set since. changes_txid i (snd e))))"

definition txid_of_reads :: "dual \<Rightarrow> (int \<times> dual_op) list \<Rightarrow> string \<Rightarrow> string option \<Rightarrow> bool" where
  "txid_of_reads d es i t = (\<forall>rec since. read_by d es i rec since \<longrightarrow> t = tr_txid rec \<or> (\<exists>e \<in> set since. changes_txid i (snd e)))"

definition run_ok :: "dual \<Rightarrow> (int \<times> dual_op) list \<Rightarrow> bool" where
  "run_ok d es = (let d' = fold_steps dual_step d es in
     recs_ok (mined_by d es) (txid_of_reads d es) (dl_store d') \<and>
     (\<forall>(i, rec) \<in> set (dl_pending d'). tr_status rec \<noteq> MINED \<and> tr_txid rec \<noteq> None \<and> (\<exists>since. read_by d es i rec since)))"

lemma read_by_snoc:
  "read_by d (es @ [e]) i rec since \<longleftrightarrow>
     (since = [] \<and> (\<exists>now0. e = (now0, FinalizeStart i) \<and> getTxRecord now0 (dl_store (fold_steps dual_step d es)) i = Some rec)) \<or>
     (\<exists>since'. since = since' @ [e] \<and> read_by d es i rec since')"
proof (cases since rule: rev_cases)
  case Nil
  then show ?thesis by (auto simp: read_by_def)
next
  case (snoc since' e')
  then show ?thesis by (auto simp: read_by_def)
qed

lemma mined_by_snoc: "mined_by d es i r \<Longrightarrow> mined_by d (es @ [e]) i r"
  unfolding mined_by_def by (elim exE conjE) (metis append.assoc append_Cons)

lemma recs_ok_mono: "recs_ok M X s \<Longrightarrow> (\<And>i r. M i r \<Longrightarrow> M' i r) \<Longrightarrow> (\<And>i r. jsmap_get (ts_map s) i = Some r \<Longrightarrow> X i (tr_txid r) \<Longrightarrow> X' i (tr_txid r)) \<Longrightarrow> recs_ok M' X' s"
  by (simp add: recs_ok_def)

text \<open>Before a call runs, its record satisfies what the longer run will ask of it.\<close>

lemma recs_ok_before:
  assumes ok: "recs_ok (mined_by d es) (txid_of_reads d es) (dl_store (fold_steps dual_step d es))"
  shows "recs_ok (mined_by d (es @ [e])) (txid_of_reads d (es @ [e])) (dl_store (fold_steps dual_step d es))"
proof (rule recs_ok_mono [OF ok mined_by_snoc])
  fix i r
  assume r: "jsmap_get (ts_map (dl_store (fold_steps dual_step d es))) i = Some r" and x: "txid_of_reads d es i (tr_txid r)"
  show "txid_of_reads d (es @ [e]) i (tr_txid r)"
    unfolding txid_of_reads_def
  proof (intro allI impI)
    fix rec since
    assume "read_by d (es @ [e]) i rec since"
    then consider (now) now0 where "e = (now0, FinalizeStart i)" "getTxRecord now0 (dl_store (fold_steps dual_step d es)) i = Some rec"
      | (old) since' where "since = since' @ [e]" "read_by d es i rec since'"
      by (auto simp: read_by_snoc)
    then show "tr_txid r = tr_txid rec \<or> (\<exists>e \<in> set since. changes_txid i (snd e))"
    proof cases
      case now
      then show ?thesis using r recs_ok_get [OF ok] by simp
    next
      case old
      then show ?thesis using x by (auto simp: txid_of_reads_def)
    qed
  qed
qed

lemma changed_allows:
  assumes "changes_txid i (snd e)" and "\<And>n env. snd e \<noteq> FinalizeEnd n env"
  shows "txid_of_reads d (es @ [e]) i t"
  using assms by (auto simp: txid_of_reads_def read_by_snoc)

lemma run_ok_end:
  assumes ok: "run_ok d es"
  shows "recs_ok (mined_by d (es @ [(now, FinalizeEnd n env)])) (txid_of_reads d (es @ [(now, FinalizeEnd n env)]))
    (dl_store (dual_step (fold_steps dual_step d es) (now, FinalizeEnd n env)))"
proof -
  define d' where "d' = fold_steps dual_step d es"
  define e where "e = (now, FinalizeEnd n env)"
  have recs: "recs_ok (mined_by d (es @ [e])) (txid_of_reads d (es @ [e])) (dl_store d')"
    using ok recs_ok_before unfolding run_ok_def d'_def Let_def by blast
  show ?thesis
  proof (cases "n < length (dl_pending d')")
    case True
    obtain i rec where r: "dl_pending d' ! n = (i, rec)" by (cases "dl_pending d' ! n")
    then have "(i, rec) \<in> set (dl_pending d')" using True by (metis nth_mem)
    then obtain since txid where p: "tr_status rec \<noteq> MINED" "tr_txid rec = Some txid" "read_by d es i rec since"
      using ok by (auto simp: run_ok_def Let_def d'_def)
    have "recs_ok (mined_by d (es @ [e])) (txid_of_reads d (es @ [e]))
      (dl_store (fst (finalize_end now i rec (verifyBumpFinality env (the (tr_txid rec)))
        (d'\<lparr>dl_pending := take n (dl_pending d') @ List.drop (Suc n) (dl_pending d')\<rparr>))))"
    proof (rule recs_ok_end [OF _ p(1)])
      fix h and cur r' :: tx_record
      assume f: "verifyBumpFinality env (the (tr_txid rec)) = FinalAt h" "txid_of_reads d (es @ [e]) i (tr_txid cur)"
        "tr_txid r' = tr_txid cur" "tr_chainProof r' = Some HeaderProven" "tr_minedHeight r' = Some h"
      have path: "proven_path env txid h" using final_is_proven [OF f(1)] p(2) by simp
      have "read_by d (es @ [e]) i rec (since @ [e])" using p(3) by (auto simp: read_by_snoc)
      then have "tr_txid cur = tr_txid rec \<or> (\<exists>e \<in> set since. changes_txid i (snd e))"
        using f(2) unfolding txid_of_reads_def by (fastforce simp: e_def)
      then show "mined_by d (es @ [e]) i r'"
        unfolding mined_by_def e_def using True r p path f(3-5) unfolding d'_def by (metis (no_types, lifting))
    qed (use recs in simp)
    then show ?thesis using True r by (simp add: e_def d'_def)
  qed (use recs in \<open>simp add: e_def d'_def\<close>)
qed

lemma run_ok_snoc:
  assumes ok: "run_ok d es"
  shows "run_ok d (es @ [e])"
proof -
  define d' where "d' = fold_steps dual_step d es"
  have step: "fold_steps dual_step d (es @ [e]) = dual_step d' e" by (simp add: d'_def)
  have recs: "recs_ok (mined_by d (es @ [e])) (txid_of_reads d (es @ [e])) (dl_store (dual_step d' e))"
  proof (cases "\<exists>n env. snd e = FinalizeEnd n env")
    case True
    then show ?thesis using run_ok_end [OF ok] by (cases e) (auto simp: d'_def)
  next
    case False
    have "recs_ok (mined_by d (es @ [e])) (txid_of_reads d (es @ [e])) (dl_store d')"
      using ok recs_ok_before unfolding run_ok_def d'_def Let_def by blast
    then have "recs_ok (mined_by d (es @ [e])) (txid_of_reads d (es @ [e])) (dl_store (dual_step d' (fst e, snd e)))"
      by (rule recs_ok_step) (use changed_allows [of _ e] False in auto)
    then show ?thesis by simp
  qed
  have pend: "tr_status rec \<noteq> MINED \<and> tr_txid rec \<noteq> None \<and> (\<exists>since. read_by d (es @ [e]) i rec since)"
    if x: "(i, rec) \<in> set (dl_pending (dual_step d' e))" for i rec
  proof -
    have "(i, rec) \<in> set (dl_pending (dual_step d' (fst e, snd e)))" using x by simp
    from pending_step [OF this] show ?thesis
    proof
      assume "(i, rec) \<in> set (dl_pending d')"
      then obtain since where "tr_status rec \<noteq> MINED" "tr_txid rec \<noteq> None" "read_by d es i rec since"
        using ok unfolding run_ok_def Let_def d'_def by blast
      then show ?thesis using read_by_snoc by blast
    next
      assume "\<exists>i' rec'. snd e = FinalizeStart i' \<and> (i, rec) = (i', rec') \<and> getTxRecord (fst e) (dl_store d') i' = Some rec' \<and>
        tr_txid rec' \<noteq> None \<and> tr_status rec' \<noteq> MINED"
      then show ?thesis by (cases e) (auto simp: read_by_snoc d'_def)
    qed
  qed
  show ?thesis unfolding run_ok_def Let_def step using recs pend by blast
qed

lemma run_ok_all: "run_ok d [] \<Longrightarrow> run_ok d es"
  by (induction es rule: rev_induct) (auto intro: run_ok_snoc)

section \<open>What a refused send leaves behind\<close>

definition dual_boot :: dual where
  "dual_boot = \<lparr>dl_overlay = loaded [], dl_store = (store_boot [] ''k'')\<lparr>ts_cache := Some []\<rparr>, dl_pending = []\<rparr>"

lemma on_store_overlay [simp]: "dl_overlay (fst (on_store f d)) = dl_overlay d"
  by (simp add: on_store_def case_prod_unfold Let_def)

lemma on_overlay_proj [simp]:
  "dl_overlay (fst (on_overlay f d)) = fst (f (dl_overlay d))"
  "dl_store (fst (on_overlay f d)) = dl_store d"
  "snd (on_overlay f d) = snd (f (dl_overlay d))"
  by (simp_all add: on_overlay_def case_prod_unfold Let_def)

lemma on_store_proj [simp]:
  "dl_store (fst (on_store f d)) = fst (f (dl_store d))"
  "snd (on_store f d) = snd (f (dl_store d))"
  by (simp_all add: on_store_def case_prod_unfold Let_def)

lemma rewrite_get_any:
  "getUtxoLock now (fst (rewrite_rows now hit f st)) p =
     map_option (\<lambda>r. if hit r then f r else r) (getUtxoLock now st p)"
proof -
  have "getUtxoLock now (fst (rewrite_rows now hit f (ov_load now st))) p =
      map_option (\<lambda>r. if hit r then f r else r) (getUtxoLock now (ov_load now st) p)"
    by (rule rewrite_rows_get) simp
  then show ?thesis by (simp add: rewrite_rows_def getUtxoLock_def Let_def)
qed

text \<open>A fresh draft walks \<open>DRAFT\<close>, \<open>VALIDATING\<close>, and then either status the send ends in.\<close>

lemma created_get:
  "getTxRecord now (fst (createDraftTx now fresh sats to inputs None s)) fresh =
     Some (snd (createDraftTx now fresh sats to inputs None s))"
  "tr_id (snd (createDraftTx now fresh sats to inputs None s)) = fresh"
  "tr_status (snd (createDraftTx now fresh sats to inputs None s)) = DRAFT"
proof -
  let ?r = "snd (createDraftTx now fresh sats to inputs None s)"
  have c: "ts_cache (fst (createDraftTx now fresh sats to inputs None s)) =
      Some (jsmap_set fresh ?r (ts_map (ts_load now s)))"
    by (simp add: createDraftTx_def Let_def ts_put_def)
  show "getTxRecord now (fst (createDraftTx now fresh sats to inputs None s)) fresh = Some ?r"
    unfolding getTxRecord_cache [OF c] by simp
qed (simp_all add: createDraftTx_def Let_def)

definition drafted :: "int \<Rightarrow> string \<Rightarrow> begin_args \<Rightarrow> tx_store \<Rightarrow> tx_store" where
  "drafted now fresh a s = fst (transitionTx now fresh VALIDATING no_patch
     (fst (createDraftTx now fresh (ba_satoshis a) (ba_to a)
       (Some (map fst (case ba_inputs a of None \<Rightarrow> [] | Some xs \<Rightarrow> xs))) None s)))"

lemma drafted_get:
  "\<exists>r. getTxRecord now (drafted now fresh a s) fresh = Some r \<and> tr_status r = VALIDATING"
  by (simp add: drafted_def transition_get transition_result created_get canTransitionTx_def)

lemma drafted_ends:
  assumes "to = FAILED_REJECTED \<or> to = BROADCASTING"
  shows "\<exists>r. snd (transitionTx now fresh to p (drafted now fresh a s)) = Some r \<and> tr_status r = to \<and>
    getTxRecord now (fst (transitionTx now fresh to p (drafted now fresh a s))) fresh = Some r"
  using drafted_get [of now fresh a s] assms
  by (auto simp: transition_get transition_result canTransitionTx_def)

section \<open>Properties\<close>

text \<open>C6. Hard finality is earned: from a state with no mined record, after any interleaving of
  sends, ARC answers, failures, reorgs, flushes and finality attempts (whose services answer
  anything), every \<open>MINED\<close> record was mined by the end of a finality attempt of its own: the attempt
  had read this record in this run, the services gave a path of the txid it read, that path
  verified, and the record is header-proven at that path's height. Its txid is the proven one
  unless a call changed the record's txid while the proof was awaited.\<close>

theorem mined_only_after_verified_bump:
  assumes "ts_cache (dl_store d) = Some m" and "dl_pending d = []"
    and "\<forall>r \<in> snd ` set m. tr_status r \<noteq> MINED"
    and "getTxRecord now (dl_store (fold_steps dual_step d es)) i = Some r" and "tr_status r = MINED"
  shows "\<exists>before now0 since now1 n env after rec txid h.
    es = before @ (now0, FinalizeStart i) # since @ (now1, FinalizeEnd n env) # after \<and>
    getTxRecord now0 (dl_store (fold_steps dual_step d before)) i = Some rec \<and> tr_txid rec = Some txid \<and>
    (let d' = fold_steps dual_step d (before @ (now0, FinalizeStart i) # since) in
       n < length (dl_pending d') \<and> dl_pending d' ! n = (i, rec)) \<and>
    (let t = js_lower (js_trim txid) in hex_of_len 64 t \<and> fe_path env t = Inr (Some (Some h)) \<and> fe_verify env t = Inr (Some True)) \<and>
    0 < h \<and> tr_chainProof r = Some HeaderProven \<and> tr_minedHeight r = Some h \<and>
    (tr_txid r = Some txid \<or> (\<exists>e \<in> set since. changes_txid i (snd e)))"
proof -
  have m: "ts_map (dl_store d) = m" using assms(1) by (simp add: ts_map_def)
  have "run_ok d []"
    using assms(1-3) by (auto simp: run_ok_def recs_ok_def m txid_of_reads_def read_by_def dest!: map_of_SomeD)
  from run_ok_all [OF this, of es]
  have ok: "recs_ok (mined_by d es) (txid_of_reads d es) (dl_store (fold_steps dual_step d es))" by (simp add: run_ok_def Let_def)
  then have "mined_by d es i r" using assms(4,5) recs_ok_get [OF ok] by (auto simp: recs_ok_def)
  then show ?thesis
    unfolding mined_by_def read_by_def proven_path_def Let_def by (elim exE conjE) (simp, blast)
qed

definition yes_env :: finality_env where
  "yes_env = \<lparr>fe_active = True, fe_services = True, fe_path = (\<lambda>_. Inr (Some (Some 800))),
     fe_verify = (\<lambda>_. Inr (Some True))\<rparr>"

definition seen_dual :: dual where
  "seen_dual = \<lparr>dl_overlay = loaded [], dl_store = sample_store SEEN_IN_MEMPOOL, dl_pending = []\<rparr>"

lemma seen_dual_mined:
  "\<exists>r. getTxRecord 5 (dl_store (fold_steps dual_step seen_dual [(2, FinalizeStart ''t''), (3, FinalizeEnd 0 yes_env)])) ''t''
     = Some r \<and> tr_status r = MINED"
proof -
  have t: "verifyBumpFinality yes_env (replicate 64 CHR ''a'') = FinalAt 800" by code_simp
  show ?thesis
    by (simp add: seen_dual_def sample_store_def sample_record_def finalize_start_def finalize_end_def t Let_def
        getTxRecord_def ts_map_def on_store_def on_overlay_def case_prod_unfold markTxMined_def transitionTx_def
        canTransitionTx_def ts_persist_def apply_tx_patch_def ts_load_def)
qed

lemma mined_only_after_verified_bump_witness:
  "\<exists>r. getTxRecord 5 (dl_store (fold_steps dual_step seen_dual [(2, FinalizeStart ''t''), (3, FinalizeEnd 0 yes_env)])) ''t''
     = Some r \<and> tr_chainProof r = Some HeaderProven"
proof -
  obtain r where "getTxRecord 5 (dl_store (fold_steps dual_step seen_dual [(2, FinalizeStart ''t''), (3, FinalizeEnd 0 yes_env)])) ''t''
     = Some r" "tr_status r = MINED"
    using seen_dual_mined by blast
  moreover have "ts_cache (dl_store seen_dual) = Some [(''t'', sample_record ''t'' SEEN_IN_MEMPOOL)]"
    "dl_pending seen_dual = []" "\<forall>r \<in> snd ` set [(''t'', sample_record ''t'' SEEN_IN_MEMPOOL)]. tr_status r \<noteq> MINED"
    by (simp_all add: seen_dual_def sample_store_def) (simp add: sample_record_def)
  ultimately show ?thesis using mined_only_after_verified_bump by blast
qed

text \<open>The exception in C6 is real: a record signed anew while the proof of its first transaction
  is awaited becomes \<open>MINED\<close> with the second txid, for which no path was ever given.\<close>

definition first_only_env :: finality_env where
  "first_only_env = \<lparr>fe_active = True, fe_services = True,
     fe_path = (\<lambda>t. if t = replicate 64 CHR ''a'' then Inr (Some (Some 800)) else Inr None), fe_verify = (\<lambda>_. Inr (Some True))\<rparr>"

lemma resigned_during_proof_is_mined:
  "\<exists>r. getTxRecord 5 (dl_store (fold_steps dual_step (seen_dual\<lparr>dl_store := sample_store BROADCASTING\<rparr>)
      [(2, FinalizeStart ''t''), (2, NoteSigned ''t'' (replicate 64 CHR ''b'')), (3, FinalizeEnd 0 first_only_env)])) ''t'' = Some r
    \<and> tr_status r = MINED \<and> tr_txid r = Some (replicate 64 CHR ''b'') \<and> tr_chainProof r = Some HeaderProven
    \<and> verifyBumpFinality first_only_env (replicate 64 CHR ''b'') = NotFinal NoProof None"
proof -
  have t: "verifyBumpFinality first_only_env (replicate 64 CHR ''a'') = FinalAt 800"
    "verifyBumpFinality first_only_env (replicate 64 CHR ''b'') = NotFinal NoProof None"
    "js_lower (replicate 64 CHR ''b'') = replicate 64 CHR ''b''" by code_simp+
  show ?thesis
    by (simp add: seen_dual_def sample_store_def sample_record_def finalize_start_def finalize_end_def noteDualLayerSigned_def
        t Let_def getTxRecord_def ts_map_def on_store_def on_overlay_def case_prod_unfold markTxMined_def
        transitionTx_def canTransitionTx_def ts_persist_def apply_tx_patch_def ts_load_def no_patch_def patch_or_def)
qed

text \<open>The recovery policy for a refused broadcast: \<open>REJECTED\<close> makes exactly the coins this
  send had reserved spendable again; a double spend hides exactly those coins instead, so none
  of them can be selected; in both cases every other coin is as it was, and no coin is left
  reserved by the send.\<close>

theorem arc_refusal_settles_reserved_coins:
  "getUtxoLock now (dl_overlay (fst (applyDualLayerArcStatus now i arc d))) p =
     (case getUtxoLock now (dl_overlay d) p of
        None \<Rightarrow> None
      | Some r \<Rightarrow>
          if isReserved r \<and> ul_lockOwnerId r = Some i \<and> arc = A_REJECTED then
            Some (r\<lparr>ul_spendable := True, ul_lockOwnerId := None, ul_diagnostic := None, ul_updatedAt := now\<rparr>)
          else if isReserved r \<and> ul_lockOwnerId r = Some i \<and> arc = A_DOUBLE_SPEND_ATTEMPTED then
            (let t = (case Option.bind (snd (applyDualLayerArcStatus now i arc d)) tr_txid of
                        Some x \<Rightarrow> js_lower (js_trim x) | None \<Rightarrow> []);
                 named = hex_of_len 64 t
             in Some (r\<lparr>ul_spendable := False, ul_spentBy := (if named then Some t else None), ul_lockOwnerId := None,
                        ul_diagnostic := (if named then ul_diagnostic r else Some ''quarantine:spent-unknown''),
                        ul_updatedAt := now\<rparr>))
          else Some r)"
  if "arc = A_REJECTED \<or> arc = A_DOUBLE_SPEND_ATTEMPTED"
proof -
  have e: "js_lower (js_trim []) = []" by (simp add: js_trim_def js_lower_def)
  let ?next = "snd (applyArcStatus now i arc (dl_store d))"
  have not: "map_option tr_status ?next \<noteq> Some SEEN_IN_MEMPOOL" "map_option tr_status ?next \<noteq> Some MINED"
    using that by (auto simp: applyArc_status arc_next_def split: option.splits if_splits)
  show ?thesis
  proof (cases "arc = A_REJECTED")
    case True
    then show ?thesis
      using not by (cases "getUtxoLock now (dl_overlay d) p")
        (auto simp: applyDualLayerArcStatus_def Let_def case_prod_unfold handleArcRejection_def
          rollbackLocks_def rewrite_get_any isReserved_def)
  next
    case False
    then have "arc = A_DOUBLE_SPEND_ATTEMPTED" using that by simp
    then show ?thesis
      using not by (cases "Option.bind ?next tr_txid")
        (auto simp: applyDualLayerArcStatus_def Let_def case_prod_unfold handleArcRejection_def
          confirmSpentLocks_def rewrite_get_any e split: option.splits)
  qed
qed

lemma arc_refusal_settles_reserved_coins_witness:
  "\<exists>r. getUtxoLock 5 (dl_overlay (fst (applyDualLayerArcStatus 5 ''me'' A_REJECTED
      (dual_boot\<lparr>dl_overlay := loaded [(''b_1'', makeUtxoLock 2 ''b_1'' 4 ''me'')]\<rparr>)))) ''b_1'' = Some r
     \<and> countsTowardSpendable r"
proof -
  have k: "normalizeOutpointKey ''b_1'' = ''b_1''" by code_simp
  then have "getUtxoLock 5 (loaded [(''b_1'', makeUtxoLock 2 ''b_1'' 4 ''me'')]) ''b_1'' = Some (makeUtxoLock 2 ''b_1'' 4 ''me'')"
    by (simp add: getUtxoLock_def loaded_def)
  with arc_refusal_settles_reserved_coins [of A_REJECTED 5 "''me''"
      "dual_boot\<lparr>dl_overlay := loaded [(''b_1'', makeUtxoLock 2 ''b_1'' 4 ''me'')]\<rparr>" "''b_1''"]
  show ?thesis by (simp add: lock_preds makeUtxoLock_def)
qed

lemma begin_refused_result:
  assumes "begin_refused now draft code detail d = (d', res)" and "dl_store d = drafted now fresh a s"
    and "tr_id draft = fresh"
  shows "\<exists>r. res = BeginRefused code detail r \<and> tr_status r = FAILED_REJECTED
    \<and> getTxRecord now (dl_store d') fresh = Some r \<and> tr_diagnostic r = JStr (diag_name code)
    \<and> tr_diagnosticDetail r = Some detail \<and> dl_overlay d' = dl_overlay d"
proof -
  let ?p = "no_patch\<lparr>tp_diagnostic := Some (Some code), tp_diagnosticDetail := Some (Some (or_code (Some detail) code))\<rparr>"
  obtain r where r: "snd (transitionTx now fresh FAILED_REJECTED ?p (drafted now fresh a s)) = Some r"
    "tr_status r = FAILED_REJECTED"
    "getTxRecord now (fst (transitionTx now fresh FAILED_REJECTED ?p (drafted now fresh a s))) fresh = Some r"
    using drafted_ends by blast
  have "tr_diagnostic r = JStr (diag_name code) \<and> tr_diagnosticDetail r = Some detail"
    using r(1) by (auto simp: transition_result apply_tx_patch_def patch_or_def diag_json_def or_code_def
        split: option.splits if_splits)
  moreover have "d' = fst (on_store (markTxFailed now fresh code (Some detail)) d)"
    and "res = BeginRefused code detail (case getTxRecord now (dl_store d') fresh of Some r \<Rightarrow> r | None \<Rightarrow> draft)"
    using assms(1,3) by (auto simp: begin_refused_def Let_def)
  ultimately show ?thesis
    using r assms(2) by (auto simp: markTxFailed_def)
qed

text \<open>C7. Starting a send is all or nothing. Accepted: the funds cover amount and fee, the record
  is \<open>BROADCASTING\<close>, and every input is reserved for it (unless the caller reserves itself).
  Refused: the record is \<open>FAILED_REJECTED\<close> with the reported reason and no coin changed.\<close>

theorem beginDualLayerSend_all_or_nothing:
  "case beginDualLayerSend now fresh a d of
     (d', BeginOk r) \<Rightarrow>
        tr_status r = BROADCASTING \<and> getTxRecord now (dl_store d') fresh = Some r
        \<and> 0 < ba_satoshis a \<and> ba_satoshis a + max 0 (case ba_feeSats a of None \<Rightarrow> 0 | Some f \<Rightarrow> f) \<le> ba_availableSats a
        \<and> (ba_skipSoftLock a \<or> (\<forall>p \<in> fst ` set (case ba_inputs a of None \<Rightarrow> [] | Some xs \<Rightarrow> xs).
             \<exists>l. getUtxoLock now (dl_overlay d') p = Some l \<and> isReserved l \<and> ul_lockOwnerId l = Some fresh))
   | (d', BeginRefused code detail r) \<Rightarrow>
        tr_status r = FAILED_REJECTED \<and> getTxRecord now (dl_store d') fresh = Some r
        \<and> tr_diagnostic r = JStr (diag_name code) \<and> tr_diagnosticDetail r = Some detail
        \<and> (\<forall>p. getUtxoLock now (dl_overlay d') p = getUtxoLock now (dl_overlay d) p)"
proof -
  let ?xs = "case ba_inputs a of None \<Rightarrow> [] | Some xs \<Rightarrow> xs"
  let ?mk = "createDraftTx now fresh (ba_satoshis a) (ba_to a) (Some (map fst ?xs)) None"
  define draft where "draft = snd (?mk (dl_store d))"
  define d2 where "d2 = fst (on_store (transitionTx now fresh VALIDATING no_patch) (fst (on_store ?mk d)))"
  define lock where "lock = begin_lock now fresh a d2"
  have i: "tr_id draft = fresh" by (simp add: draft_def created_get)
  have d2: "dl_store d2 = drafted now fresh a (dl_store d)" "dl_overlay d2 = dl_overlay d"
    by (simp_all add: d2_def drafted_def)
  have b: "beginDualLayerSend now fresh a d = (case validateBeforeOptimisticLock (validate_args a) of
      Some (code, detail) \<Rightarrow> begin_refused now draft code detail d2
    | None \<Rightarrow> (case snd lock of
        Inl e \<Rightarrow> begin_refused now draft PROTOCOL_REFUSE (refusal_text e) (fst lock)
      | Inr _ \<Rightarrow> begin_dispatch now fresh (fst lock)))"
    unfolding beginDualLayerSend_def Let_def case_prod_unfold lock_def d2_def draft_def
    by (simp add: created_get split: option.split sum.split)
  have ls: "dl_store (fst lock) = drafted now fresh a (dl_store d)"
    by (simp add: lock_def begin_lock_def d2 split: option.splits list.splits)
  show ?thesis
  proof (cases "validateBeforeOptimisticLock (validate_args a)")
    case (Some cd)
    obtain code detail d' res where cd: "cd = (code, detail)"
      and br: "begin_refused now draft code detail d2 = (d', res)" by (metis surj_pair)
    from begin_refused_result [OF br d2(1) i] show ?thesis
      using Some cd br by (auto simp: b d2)
  next
    case None
    note valid = None
    show ?thesis
    proof (cases "snd lock")
      case (Inl e)
      obtain d' res where br: "begin_refused now draft PROTOCOL_REFUSE (refusal_text e) (fst lock) = (d', res)"
        by (metis surj_pair)
      have "fst (softLockInputs now fresh xs (dl_overlay d)) = ov_load now (dl_overlay d)"
        if "snd (softLockInputs now fresh xs (dl_overlay d)) = Inl e" for xs
        using that by (auto simp: softLockInputs_def Let_def split: sum.splits)
      then have "getUtxoLock now (dl_overlay (fst lock)) p = getUtxoLock now (dl_overlay d) p" for p
        using Inl by (auto simp: lock_def begin_lock_def d2 getUtxoLock_def split: option.splits list.splits if_splits)
      with begin_refused_result [OF br ls i] show ?thesis
        using valid Inl br by (auto simp: b)
    next
      case (Inr locks)
      obtain r where r: "snd (transitionTx now fresh BROADCASTING no_patch (dl_store (fst lock))) = Some r"
        "tr_status r = BROADCASTING"
        "getTxRecord now (fst (transitionTx now fresh BROADCASTING no_patch (dl_store (fst lock)))) fresh = Some r"
        unfolding ls using drafted_ends by blast
      have funds: "0 < ba_satoshis a \<and>
          ba_satoshis a + max 0 (case ba_feeSats a of None \<Rightarrow> 0 | Some f \<Rightarrow> f) \<le> ba_availableSats a"
        using valid by (auto simp: validated_funds validate_args_def split: option.splits)
      have locked: "\<exists>l. getUtxoLock now (dl_overlay (fst lock)) p = Some l \<and> isReserved l \<and> ul_lockOwnerId l = Some fresh"
        if take: "\<not> ba_skipSoftLock a" and p: "p \<in> fst ` set ?xs" for p
      proof -
        obtain x xs where xs: "ba_inputs a = Some (x # xs)"
          using p by (cases "ba_inputs a"; cases "the (ba_inputs a)") auto
        then have l: "lock = on_overlay (softLockInputs now fresh (x # xs)) d2" using take by (simp add: lock_def begin_lock_def)
        then have "softLockInputs now fresh (x # xs) (dl_overlay d) =
            (fst (softLockInputs now fresh (x # xs) (dl_overlay d)), Inr locks)"
          using Inr by (simp add: d2 prod_eq_iff)
        from soft_lock_get [OF this, of p now] show ?thesis
          using p xs l by (simp add: d2)
      qed
      then have locked_all: "ba_skipSoftLock a \<or> (\<forall>p \<in> fst ` set ?xs.
          \<exists>l. getUtxoLock now (dl_overlay (fst lock)) p = Some l \<and> isReserved l \<and> ul_lockOwnerId l = Some fresh)"
        by blast
      show ?thesis
        using valid Inr r funds locked_all by (simp add: b begin_dispatch_def Let_def case_prod_unfold)
    qed
  qed
qed

lemma beginDualLayerSend_all_or_nothing_witness:
  "\<exists>d' r. beginDualLayerSend 2 ''t'' \<lparr>ba_satoshis = 5, ba_availableSats = 9, ba_to = None, ba_feeSats = Some 1,
      ba_inputs = None, ba_protocolRefuse = False, ba_protocolRefuseDetail = None, ba_skipSoftLock = False\<rparr> dual_boot
     = (d', BeginOk r) \<and> tr_status r = BROADCASTING"
  (is "\<exists>d' r. beginDualLayerSend _ _ ?a _ = _ \<and> _")
proof -
  have v: "validateBeforeOptimisticLock (validate_args ?a) = None"
    by (simp add: validated_funds validate_args_def)
  obtain d' r where "beginDualLayerSend 2 ''t'' ?a dual_boot = (d', BeginOk r)"
    by (simp add: beginDualLayerSend_def begin_lock_def begin_dispatch_def Let_def case_prod_unfold v)
  with beginDualLayerSend_all_or_nothing [where now = 2 and fresh = "''t''" and a = ?a and d = dual_boot]
  show ?thesis by auto
qed

end
