(* ===== verification/Kernel_Fates.thy ===== *)
theory Kernel_Fates
  imports Wallet_Prelude
begin

text \<open>
  The pure decision kernel, \<open>src/src/wallet/kernel/\<close> and \<open>spendVerdict/classify.ts\<close>: what
  happens to a coin, a cheque, a hint or a row given the facts the wallet could collect. Every
  decision is a function of a record of facts; an answer nobody gave is \<open>None\<close> or an
  "unknown" constructor. The reason texts are datatypes with the interpolated values as
  arguments (the texts themselves are not ASCII).
\<close>

section \<open>Text matching\<close>

text \<open>\<open>a.?b\<close> at the start of a text; \<open>.\<close> is any character but a line end.\<close>

definition gap_at :: "string \<Rightarrow> string \<Rightarrow> string \<Rightarrow> bool" where
  "gap_at a b s = (prefix a s \<and> (let r = List.drop (length a) s in
     prefix b r \<or> (case r of [] \<Rightarrow> False | c # r' \<Rightarrow> (of_char c :: nat) \<noteq> 10 \<and> (of_char c :: nat) \<noteq> 13 \<and> prefix b r')))"

fun has_gap :: "string \<Rightarrow> string \<Rightarrow> string \<Rightarrow> bool" where
  "has_gap a b [] = gap_at a b []"
| "has_gap a b (c # s) = (gap_at a b (c # s) \<or> has_gap a b s)"

fun has_text :: "string \<Rightarrow> string \<Rightarrow> bool" where
  "has_text a [] = (a = [])"
| "has_text a (c # s) = (prefix a (c # s) \<or> has_text a s)"

section \<open>Abandoned spends (\<open>abandonedSpendFate.ts\<close>)\<close>

datatype InputSpentStatus = InUnspent | InSpent | InUnknown | InPhantom

record abandoned_facts =
  af_hasArcadeContact :: bool
  af_onChain :: "bool option"
  af_inputs :: "InputSpentStatus list"
  af_createdAt :: int
  af_now :: int

datatype keep_reason =
  OnChain | AbsenceUnconfirmed | ArcadePinned | InputsUnknown | InputStatusUnconfirmed | InputSpentElsewhere
  | AgeUnknown | WithinGrace

datatype abandoned_reason = EveryInputPhantom | NeverBroadcast

datatype AbandonedSpendFate = KeepSpend keep_reason | Abandoned abandoned_reason

definition ABANDON_GRACE_MS :: int where
  "ABANDON_GRACE_MS = 6 * 60 * 60000"

definition decideAbandonedSpend :: "abandoned_facts \<Rightarrow> AbandonedSpendFate" where
  "decideAbandonedSpend f =
     (if af_onChain f = Some True then KeepSpend OnChain
      else if af_onChain f \<noteq> Some False then KeepSpend AbsenceUnconfirmed
      else if af_hasArcadeContact f then KeepSpend ArcadePinned
      else if af_inputs f = [] then KeepSpend InputsUnknown
      else if list_ex (\<lambda>s. s = InUnknown) (af_inputs f) then KeepSpend InputStatusUnconfirmed
      else if list_ex (\<lambda>s. s = InSpent) (af_inputs f) then KeepSpend InputSpentElsewhere
      else if af_createdAt f \<le> 0 then KeepSpend AgeUnknown
      else if af_now f - af_createdAt f < ABANDON_GRACE_MS then KeepSpend WithinGrace
      else if list_all (\<lambda>s. s = InPhantom) (af_inputs f) then Abandoned EveryInputPhantom
      else Abandoned NeverBroadcast)"

section \<open>The Arcade pin (\<open>arcadePinFate.ts\<close>)\<close>

datatype ArcadeVerdict = VAccepted | VRejected | VPending | VUnknown

datatype pin_reason = NoContact | RejectedByArcade | AcceptedByArcade | StillWorking | VerdictUnavailable

datatype ArcadePinFate = Binds pin_reason | VoidPin pin_reason

definition decideArcadePinFate :: "bool \<Rightarrow> ArcadeVerdict \<Rightarrow> ArcadePinFate" where
  "decideArcadePinFate hasPin verdict =
     (if \<not> hasPin then VoidPin NoContact
      else case verdict of
        VRejected \<Rightarrow> VoidPin RejectedByArcade
      | VAccepted \<Rightarrow> Binds AcceptedByArcade
      | VPending \<Rightarrow> Binds StillWorking
      | VUnknown \<Rightarrow> Binds VerdictUnavailable)"

section \<open>Promotion throttle (\<open>chainedChangeHeal.ts\<close>)\<close>

record heal_state =
  hs_stuckSats :: int
  hs_stuckAt :: int
  hs_lastAttemptAt :: int
  hs_inFlight :: bool

datatype heal_skip = NoPendingChange | KnownStuck | Cooldown | InFlight

definition CHAINED_CHANGE_HEAL_COOLDOWN_MS :: int where
  "CHAINED_CHANGE_HEAL_COOLDOWN_MS = 12000"

definition CHAINED_CHANGE_HEAL_STUCK_RETRY_MS :: int where
  "CHAINED_CHANGE_HEAL_STUCK_RETRY_MS = 10 * 60000"

text \<open>\<open>None\<close> is \<open>run: true\<close>.\<close>

definition decideChainedChangeHeal :: "int \<Rightarrow> int \<Rightarrow> heal_state \<Rightarrow> heal_skip option" where
  "decideChainedChangeHeal pendingChange now st =
     (if \<not> pendingChange > 0 then Some NoPendingChange
      else if hs_inFlight st then Some InFlight
      else if pendingChange = hs_stuckSats st \<and> now - hs_stuckAt st < CHAINED_CHANGE_HEAL_STUCK_RETRY_MS
      then Some KnownStuck
      else if now - hs_lastAttemptAt st < CHAINED_CHANGE_HEAL_COOLDOWN_MS then Some Cooldown
      else None)"

section \<open>May a cheque leave the device (\<open>chequeBroadcast.ts\<close>)\<close>

datatype BeefAncestryGap = GapNone | UnconfirmedParents | MissingBodies

datatype cheque_parents = ParentsHeaderProven | ParentsUnconfirmedBodies

datatype cheque_refusal = SubjectMissing | BodiesMissing

datatype ChequeBroadcastDecision = Broadcast cheque_parents | RefuseCheque cheque_refusal

definition decideChequeBroadcast :: "bool \<Rightarrow> BeefAncestryGap \<Rightarrow> ChequeBroadcastDecision" where
  "decideChequeBroadcast subjectBodyPresent gap =
     (if \<not> subjectBodyPresent then RefuseCheque SubjectMissing
      else if gap = MissingBodies then RefuseCheque BodiesMissing
      else Broadcast (if gap = GapNone then ParentsHeaderProven else ParentsUnconfirmedBodies))"

datatype missing_inputs_reading = StillUnconfirmed | PossibleSpent | IncompletePackage

fun interpretMissingInputs :: "ChequeBroadcastDecision \<Rightarrow> missing_inputs_reading" where
  "interpretMissingInputs (RefuseCheque _) = IncompletePackage"
| "interpretMissingInputs (Broadcast p) =
     (if p = ParentsUnconfirmedBodies then StillUnconfirmed else PossibleSpent)"

section \<open>Inbound hints (\<open>inboundHintFate.ts\<close>)\<close>

datatype body_lookup = LHit | LMiss | LUnknown

record missing_ancestor =
  ma_txid :: string
  ma_bodyLookup :: body_lookup
  ma_onChain :: "bool option"

record package_conflict =
  pc_outpoint :: string
  pc_spender :: string

record hint_facts =
  hf_isArcadeGhost :: bool
  hf_hasDeliverableBeef :: bool
  hf_bodyLookup :: body_lookup
  hf_rawBodyCanRecover :: bool
  hf_onChain :: "bool option"
  hf_missingAncestor :: "missing_ancestor option"
  hf_conflict :: "package_conflict option"
  hf_firstSeenAt :: int
  hf_now :: int

datatype unresolvable_reason =
    DoubleSpent string string
  | DeadAncestor string
  | NoUsableBeef
  | SenderNeverBroadcast

datatype InboundHintFate = RetryHint | ArcadeGhost | Unresolvable unresolvable_reason

definition UNRESOLVABLE_GRACE_MS :: int where
  "UNRESOLVABLE_GRACE_MS = 2 * 60 * 60000"

definition BODYLESS_HINT_RETRY_MS :: int where
  "BODYLESS_HINT_RETRY_MS = 15 * 60000"

definition ageMs :: "int \<Rightarrow> int \<Rightarrow> int" where
  "ageMs firstSeenAt now = (if firstSeenAt \<le> 0 then 0 else max 0 (now - firstSeenAt))"

definition mayBeUnresolvable :: "hint_facts \<Rightarrow> bool" where
  "mayBeUnresolvable f =
     (if hf_isArcadeGhost f then False
      else if hf_conflict f \<noteq> None then True
      else if hf_missingAncestor f \<noteq> None then ageMs (hf_firstSeenAt f) (hf_now f) \<ge> UNRESOLVABLE_GRACE_MS
      else if hf_hasDeliverableBeef f then False
      else if hf_bodyLookup f = LUnknown then False
      else if hf_bodyLookup f = LHit \<and> hf_rawBodyCanRecover f then False
      else ageMs (hf_firstSeenAt f) (hf_now f) \<ge> UNRESOLVABLE_GRACE_MS)"

definition decideInboundHintFate :: "hint_facts \<Rightarrow> InboundHintFate" where
  "decideInboundHintFate f =
     (if hf_isArcadeGhost f then ArcadeGhost
      else case hf_conflict f of
        Some c \<Rightarrow> Unresolvable (DoubleSpent (pc_outpoint c) (take 12 (pc_spender c)))
      | None \<Rightarrow>
          if ageMs (hf_firstSeenAt f) (hf_now f) < UNRESOLVABLE_GRACE_MS then RetryHint
          else (case hf_missingAncestor f of
              Some p \<Rightarrow>
                if ma_bodyLookup p = LMiss \<and> ma_onChain p = Some False
                then Unresolvable (DeadAncestor (take 12 (ma_txid p))) else RetryHint
            | None \<Rightarrow>
                if hf_hasDeliverableBeef f then RetryHint
                else if hf_bodyLookup f = LHit \<and> \<not> hf_rawBodyCanRecover f then Unresolvable NoUsableBeef
                else if hf_bodyLookup f \<noteq> LMiss then RetryHint
                else if hf_onChain f \<noteq> Some False then RetryHint
                else Unresolvable SenderNeverBroadcast))"

definition shouldDeferBodylessHintRetry :: "int option \<Rightarrow> int \<Rightarrow> int \<Rightarrow> int option \<Rightarrow> int option \<Rightarrow> bool" where
  "shouldDeferBodylessHintRetry lastFailAt firstSeenAt now graceMs retryMs =
     (case lastFailAt of
        None \<Rightarrow> False
      | Some t \<Rightarrow>
          (let grace = (case graceMs of Some g \<Rightarrow> g | None \<Rightarrow> UNRESOLVABLE_GRACE_MS) in
           if ageMs firstSeenAt now \<ge> grace then False
           else now - t < (case retryMs of Some r \<Rightarrow> r | None \<Rightarrow> BODYLESS_HINT_RETRY_MS)))"

definition isTerminalInboundHintStatus :: "string option \<Rightarrow> bool" where
  "isTerminalInboundHintStatus status =
     (let s = js_lower (js_trim (case status of Some x \<Rightarrow> x | None \<Rightarrow> []))
      in if s = [] then False else s = ''received'' \<or> prefix ''unavailable'' s)"

section \<open>Input certainty (\<open>inputCertainty.ts\<close>)\<close>

datatype CoinAnswer = Cleared | SpentBy string | CoinUnknown

datatype ParentStanding = Certified | Landed | Rejected | Unlanded

datatype CertaintyInput = MinedInput string CoinAnswer | ChainedInput string string ParentStanding

datatype UncertainReason = ExplorerSilent | ParentUnlanded | Unreadable

datatype InputCertainty =
    Certain
  | Retire "(string \<times> string) list" "string list"
  | Uncertain UncertainReason "string list"

text \<open>\<open>Set.add\<close> in insertion order.\<close>

definition set_add :: "'a \<Rightarrow> 'a list \<Rightarrow> 'a list" where
  "set_add x xs = (if x \<in> set xs then xs else xs @ [x])"

fun sort_inputs ::
  "CertaintyInput list \<Rightarrow> (string \<times> string) list \<times> string list \<times> string list \<times> string list \<Rightarrow>
   (string \<times> string) list \<times> string list \<times> string list \<times> string list" where
  "sort_inputs [] acc = acc"
| "sort_inputs (MinedInput outpoint answer # rest) (spends, dead, silent, unlanded) =
     sort_inputs rest (case answer of
         SpentBy spender \<Rightarrow> (spends @ [(outpoint, spender)], dead, silent, unlanded)
       | CoinUnknown \<Rightarrow> (spends, dead, silent @ [outpoint], unlanded)
       | Cleared \<Rightarrow> (spends, dead, silent, unlanded))"
| "sort_inputs (ChainedInput outpoint parent standing # rest) (spends, dead, silent, unlanded) =
     sort_inputs rest
       (if standing = Rejected then (spends, set_add parent dead, silent, unlanded)
        else if standing = Unlanded then (spends, dead, silent, unlanded @ [outpoint])
        else (spends, dead, silent, unlanded))"

definition judgeInputCertainty :: "CertaintyInput list \<Rightarrow> InputCertainty" where
  "judgeInputCertainty inputs =
     (case sort_inputs inputs ([], [], [], []) of (spends, deadParents, silent, unlanded) \<Rightarrow>
        if spends \<noteq> [] \<or> deadParents \<noteq> [] then Retire spends deadParents
        else if unlanded \<noteq> [] then Uncertain ParentUnlanded (unlanded @ silent)
        else if silent \<noteq> [] then Uncertain ExplorerSilent silent
        else Certain)"

definition retireHitsNamedInput :: "(string \<times> string) list \<Rightarrow> string list \<Rightarrow> string list \<Rightarrow> bool" where
  "retireHitsNamedInput spends deadParents named =
     (if named = [] then False
      else if list_ex (\<lambda>(outpoint, spender). outpoint \<in> set named) spends then True
      else list_ex (\<lambda>outpoint. take 64 outpoint \<in> set deadParents) named)"

section \<open>Landing (\<open>landingFate.ts\<close>)\<close>

datatype LandingArcade =
    ArcLanded string
  | ArcQueued string
  | ArcStalled string string
  | ArcRejected string "(string \<times> string) option"
  | ArcUnknown

record landing_evidence =
  le_onChain :: "bool option"
  le_spentElsewhere :: "(string \<times> string) list"
  le_rejectedParents :: "string list"

datatype landed_reason = ArcadeSays string | LandedOnChain

datatype dead_reason = DeadInputs nat string | DeadRejected string | DeadParent string

datatype wait_reason =
  NameDeadInputs | ArcadeText string string | NoVerdictYet | ArcadeQueued string | ArcadeSilent
  | RetryingNoneSpent | NotYetNoneSpent

datatype LandingDeadCause = CauseArcadeRejected | CauseInputSpent | CauseParentRejected

datatype LandingFate =
    FateLanded landed_reason
  | FateDead LandingDeadCause dead_reason
  | GatherEvidence wait_reason
  | FateWaiting wait_reason

definition QUEUED_EVIDENCE_AFTER_MS :: int where
  "QUEUED_EVIDENCE_AFTER_MS = 15000"

definition withArcadeConflict :: "landing_evidence \<Rightarrow> LandingArcade \<Rightarrow> landing_evidence" where
  "withArcadeConflict evidence arcade = (case arcade of
     ArcRejected _ (Some (outpoint, spender)) \<Rightarrow>
       if list_ex (\<lambda>s. fst s = outpoint) (le_spentElsewhere evidence) then evidence
       else evidence\<lparr>le_spentElsewhere := le_spentElsewhere evidence @ [(outpoint, spender)]\<rparr>
   | _ \<Rightarrow> evidence)"

definition decideLanding :: "LandingArcade \<Rightarrow> int \<Rightarrow> landing_evidence option \<Rightarrow> LandingFate" where
  "decideLanding arcade elapsedMs evidence =
     (case arcade of
        ArcLanded status \<Rightarrow> FateLanded (ArcadeSays status)
      | _ \<Rightarrow>
          (case evidence of
             None \<Rightarrow>
               (case arcade of
                  ArcRejected _ _ \<Rightarrow> GatherEvidence NameDeadInputs
                | ArcStalled status reason \<Rightarrow> GatherEvidence (ArcadeText status reason)
                | _ \<Rightarrow>
                    if elapsedMs \<ge> QUEUED_EVIDENCE_AFTER_MS then GatherEvidence NoVerdictYet
                    else FateWaiting (case arcade of ArcQueued status \<Rightarrow> ArcadeQueued status | _ \<Rightarrow> ArcadeSilent))
           | Some e0 \<Rightarrow>
               if le_onChain e0 = Some True then FateLanded LandedOnChain
               else
                 (let e = withArcadeConflict e0 arcade in
                  case le_spentElsewhere e of
                    (outpoint, spender) # _ \<Rightarrow>
                      FateDead CauseInputSpent (DeadInputs (length (le_spentElsewhere e)) (take 12 spender))
                  | [] \<Rightarrow>
                      (case arcade of
                         ArcRejected reason _ \<Rightarrow> FateDead CauseArcadeRejected (DeadRejected reason)
                       | _ \<Rightarrow>
                           (case le_rejectedParents e of
                              p # _ \<Rightarrow> FateDead CauseParentRejected (DeadParent (take 12 p))
                            | [] \<Rightarrow> FateWaiting (case arcade of ArcStalled _ _ \<Rightarrow> RetryingNoneSpent | _ \<Rightarrow> NotYetNoneSpent))))))"

section \<open>Spends of another install (\<open>peerDeviceSpends.ts\<close>)\<close>

record snapshot_tx =
  st_txid :: string
  st_status :: string
  st_inputs :: "string list"

definition SPENDS_NOTHING :: "string list" where
  "SPENDS_NOTHING = [''failed'', ''unsigned'']"

fun claim_inputs :: "string \<Rightarrow> string list \<Rightarrow> string list \<Rightarrow> (string \<times> string) list \<Rightarrow> (string \<times> string) list" where
  "claim_inputs txid [] spendableHere out = out"
| "claim_inputs txid (outpoint # rest) spendableHere out =
     (if outpoint \<notin> set spendableHere \<or> outpoint \<in> fst ` set out then claim_inputs txid rest spendableHere out
      else claim_inputs txid rest spendableHere (out @ [(outpoint, txid)]))"

text \<open>\<open>claimed\<close> holds the outpoints of \<open>out\<close> throughout, so it is not a state of its own.\<close>

fun candidates_loop :: "snapshot_tx list \<Rightarrow> string list \<Rightarrow> (string \<times> string) list \<Rightarrow> (string \<times> string) list" where
  "candidates_loop [] spendableHere out = out"
| "candidates_loop (tx # txs) spendableHere out =
     (if st_status tx \<in> set SPENDS_NOTHING then candidates_loop txs spendableHere out
      else candidates_loop txs spendableHere (claim_inputs (st_txid tx) (st_inputs tx) spendableHere out))"

definition peerSpendCandidates :: "snapshot_tx list \<Rightarrow> string list \<Rightarrow> (string \<times> string) list" where
  "peerSpendCandidates txs spendableHere = candidates_loop txs spendableHere []"

record peer_plan =
  pl_spends :: "(string \<times> string) list"
  pl_withdrawn :: "string list"

definition planPeerSpends ::
  "snapshot_tx list \<Rightarrow> (string \<times> string) list \<Rightarrow> string list \<Rightarrow> string list \<Rightarrow> peer_plan" where
  "planPeerSpends txs candidates knownHere recordedSpenders =
     (let failed = map st_txid (filter (\<lambda>tx. st_status tx = ''failed'') txs) in
      \<lparr>pl_spends = filter (\<lambda>(outpoint, spender). spender \<notin> set knownHere) candidates,
       pl_withdrawn = filter (\<lambda>txid. txid \<in> set failed) recordedSpenders\<rparr>)"

section \<open>SPV verdicts (\<open>spvVerdict.ts\<close>)\<close>

datatype SpvVerdict = Verified | InvalidTx string | Incomplete string

definition INVALID_TEXTS :: "string list" where
  "INVALID_TEXTS = [''has no inputs'', ''has no outputs'', ''coinbase input'', ''more than once'',
     ''source output that does not exist'', ''script evaluation error'', ''script verification failed'',
     ''does not reference its supplied source'', ''insufficient fee'']"

definition SPV_SCRIPT_FAILED :: SpvVerdict where
  "SPV_SCRIPT_FAILED = InvalidTx ''a signature, script or amount does not verify''"

definition classifySpvThrow :: "string \<Rightarrow> SpvVerdict" where
  "classifySpvThrow text =
     (let message = take 240 text in
      if list_ex (\<lambda>t. has_text t (js_lower message)) INVALID_TEXTS then InvalidTx message else Incomplete message)"

section \<open>Finality of unmined transactions (\<open>txFinality.ts\<close>)\<close>

definition SEQUENCE_FINAL :: int where "SEQUENCE_FINAL = 0xffffffff"
definition LOCKTIME_THRESHOLD :: int where "LOCKTIME_THRESHOLD = 500000000"
definition MEDIAN_TIME_LAG_S :: int where "MEDIAN_TIME_LAG_S = 3600"

record finality_tx =
  ft_txid :: string
  ft_lockTime :: int
  ft_sequences :: "int list"

record chain_tip =
  ct_height :: int
  ct_nowSec :: int

datatype Finality = Final | NonFinal string int bool

definition finalAtAnyTip :: "finality_tx \<Rightarrow> bool" where
  "finalAtAnyTip tx = (ft_lockTime tx = 0 \<or> list_all (\<lambda>s. s = SEQUENCE_FINAL) (ft_sequences tx))"

definition lockTimeReached :: "int \<Rightarrow> chain_tip \<Rightarrow> bool" where
  "lockTimeReached lockTime tip =
     (if lockTime < LOCKTIME_THRESHOLD then lockTime < ct_height tip + 1
      else lockTime < ct_nowSec tip - MEDIAN_TIME_LAG_S)"

text \<open>The flag of \<open>NonFinal\<close> is \<open>by = 'height'\<close>; \<open>None\<close> is the \<open>null\<close> answer.\<close>

fun judgeFinality :: "finality_tx list \<Rightarrow> chain_tip option \<Rightarrow> Finality option" where
  "judgeFinality [] tip = Some Final"
| "judgeFinality (tx # txs) tip =
     (if finalAtAnyTip tx then judgeFinality txs tip
      else case tip of
        None \<Rightarrow> None
      | Some t \<Rightarrow>
          if lockTimeReached (ft_lockTime tx) t then judgeFinality txs tip
          else Some (NonFinal (ft_txid tx) (ft_lockTime tx) (ft_lockTime tx < LOCKTIME_THRESHOLD)))"

section \<open>Liveness of a local transaction (\<open>txLiveness.ts\<close>)\<close>

definition LIVE_LOCAL_TX_STATUSES :: "string list" where
  "LIVE_LOCAL_TX_STATUSES = [''sending'', ''unproven'', ''completed'', ''nosend'', ''unsent'', ''nonfinal'',
     ''unfail'', ''unmined'', ''callback'', ''unconfirmed'', ''unknown'']"

definition APP_HELD_TX_STATUSES :: "string list" where
  "APP_HELD_TX_STATUSES = [''nosend'', ''unsent'']"

definition RESERVING_TX_STATUSES :: "string list" where
  "RESERVING_TX_STATUSES = [''unsigned'', ''unprocessed'', ''nosend'', ''unsent'', ''sending'', ''nonfinal'']"

definition isReservingTxStatus :: "string \<Rightarrow> bool" where
  "isReservingTxStatus status = (js_lower status \<in> set RESERVING_TX_STATUSES)"

definition isLiveLocalTxStatus :: "string \<Rightarrow> bool" where
  "isLiveLocalTxStatus status = (js_lower status \<in> set LIVE_LOCAL_TX_STATUSES)"

definition isAppHeldTxStatus :: "string \<Rightarrow> bool" where
  "isAppHeldTxStatus status = (js_lower status \<in> set APP_HELD_TX_STATUSES)"

datatype TxLiveness = LPending | LSettled | LDead | LNone

definition txLivenessFromStatus :: "string \<Rightarrow> TxLiveness" where
  "txLivenessFromStatus status =
     (let normalized = js_lower status in
      if normalized = [] then LNone
      else if normalized = ''completed'' then LSettled
      else if isLiveLocalTxStatus normalized then LPending else LDead)"

section \<open>Written-off coins and items (\<open>writtenOffCoinFate.ts\<close>, \<open>writtenOffItemFate.ts\<close>)\<close>

record written_coin =
  wc_satoshis :: int
  wc_creator :: TxLiveness
  wc_spentLocally :: bool
  wc_overlayHeld :: bool
  wc_hasScript :: bool

definition isWrittenOffCandidate :: "written_coin \<Rightarrow> bool" where
  "isWrittenOffCandidate f =
     (if wc_satoshis f \<le> 0 then False
      else if wc_spentLocally f \<or> wc_overlayHeld f then False
      else wc_creator f = LSettled \<or> wc_creator f = LPending)"

datatype ChainSpendAnswer = ChainUnspent | ChainSpent string bool | ChainUnknown

datatype coin_keep = NotCandidate | ChainSilent | SpenderLocal | LiveChange | NoScript

datatype WrittenOffCoinFate = RestoreCoin | HideCoin string | KeepCoin coin_keep

definition decideWrittenOffCoinFate :: "written_coin \<Rightarrow> ChainSpendAnswer \<Rightarrow> WrittenOffCoinFate" where
  "decideWrittenOffCoinFate f chain =
     (if \<not> isWrittenOffCandidate f then KeepCoin NotCandidate
      else case chain of
        ChainUnknown \<Rightarrow> KeepCoin ChainSilent
      | ChainSpent spender spenderIsLocal \<Rightarrow> (if spenderIsLocal then KeepCoin SpenderLocal else HideCoin spender)
      | ChainUnspent \<Rightarrow>
          if wc_creator f \<noteq> LSettled then KeepCoin LiveChange
          else if \<not> wc_hasScript f then KeepCoin NoScript else RestoreCoin)"

record written_item =
  wi_spentLocally :: bool
  wi_leftOnPurpose :: bool
  wi_overlayHeld :: bool
  wi_creatorStatus :: string

datatype item_keep = ItemSpentLocally | ItemLeftOnPurpose | ItemOverlayHeld | CreatorUnsigned | CreatorMissing

datatype WrittenOffItemFate = RestoreItem | ReviveCreator | PinCreator | KeepItem item_keep

definition decideWrittenOffItemFate :: "written_item \<Rightarrow> WrittenOffItemFate" where
  "decideWrittenOffItemFate f =
     (if wi_spentLocally f then KeepItem ItemSpentLocally
      else if wi_leftOnPurpose f then KeepItem ItemLeftOnPurpose
      else if wi_overlayHeld f then KeepItem ItemOverlayHeld
      else
        (let status = js_lower (js_trim (wi_creatorStatus f)) in
         if status = [] then KeepItem CreatorMissing
         else if status = ''failed'' then ReviveCreator
         else if status \<in> set APP_HELD_TX_STATUSES then PinCreator
         else if status = ''completed'' \<or> isLiveLocalTxStatus status then RestoreItem
         else KeepItem CreatorUnsigned))"

section \<open>Failure texts (\<open>spendVerdict/classify.ts\<close>)\<close>

datatype SpendArcadeKind = KAccepted | KAncestryIncomplete | KGhostMissingInputs | KAlreadySpent | KUnknown

definition classifySpendFailureMessage :: "string \<Rightarrow> SpendArcadeKind" where
  "classifySpendFailureMessage reason =
     (let text = js_trim reason in
      if text = [] then KUnknown
      else
        (let lower = js_lower text in
         if has_gap ''ancestry'' ''incomplete'' lower \<or> has_text ''beef_ancestry_incomplete'' lower
            \<or> has_text ''beef ancestry incomplete'' lower then KAncestryIncomplete
         else
           (let alreadySpent = (has_gap ''already'' ''spent'' lower \<or> has_gap ''double'' ''spend'' lower
                  \<or> has_text ''doublespend'' lower);
                missingInputs = (has_gap ''missing'' ''inputs'' lower \<or> has_text ''missingorspent'' lower
                  \<or> has_text ''mempool-conflict'' lower)
            in if alreadySpent then KAlreadySpent
               else if missingInputs then KGhostMissingInputs else KUnknown)))"

definition isAlreadySpentListingFailure :: "string \<Rightarrow> bool" where
  "isAlreadySpentListingFailure reason = (classifySpendFailureMessage reason = KAlreadySpent)"

definition isGhostMissingInputsMessage :: "string \<Rightarrow> bool" where
  "isGhostMissingInputsMessage reason = (classifySpendFailureMessage reason = KGhostMissingInputs)"

definition isAlreadySpentInputError :: "string \<Rightarrow> bool" where
  "isAlreadySpentInputError message =
     (let kind = classifySpendFailureMessage message in kind = KAlreadySpent \<or> kind = KGhostMissingInputs)"

section \<open>Facts about the loops\<close>

lemma set_set_add [simp]: "set (set_add x xs) = insert x (set xs)"
  by (auto simp: set_add_def)

lemma distinct_set_add: "distinct xs \<Longrightarrow> distinct (set_add x xs)"
  by (auto simp: set_add_def)

fun spent_in :: "CertaintyInput \<Rightarrow> (string \<times> string) list" where
  "spent_in (MinedInput p (SpentBy s)) = [(p, s)]"
| "spent_in _ = []"

fun silent_in :: "CertaintyInput \<Rightarrow> string list" where
  "silent_in (MinedInput p CoinUnknown) = [p]"
| "silent_in _ = []"

fun unlanded_in :: "CertaintyInput \<Rightarrow> string list" where
  "unlanded_in (ChainedInput p _ Unlanded) = [p]"
| "unlanded_in _ = []"

fun dead_in :: "CertaintyInput \<Rightarrow> string list" where
  "dead_in (ChainedInput _ q Rejected) = [q]"
| "dead_in _ = []"

lemma sort_inputs_spec:
  "sort_inputs inputs (a, d, b, c) = (a @ concat (map spent_in inputs),
     fold set_add (concat (map dead_in inputs)) d,
     b @ concat (map silent_in inputs), c @ concat (map unlanded_in inputs))"
proof (induction inputs arbitrary: a b c d)
  case (Cons i inputs)
  show ?case
  proof (cases i)
    case (MinedInput p ans)
    then show ?thesis by (cases ans) (simp_all add: Cons.IH)
  next
    case (ChainedInput p q st)
    then show ?thesis by (cases st) (simp_all add: Cons.IH)
  qed
qed simp

lemma set_fold_add: "set (fold set_add xs d) = set d \<union> set xs"
  by (induction xs arbitrary: d) auto

lemma distinct_fold_add: "distinct d \<Longrightarrow> distinct (fold set_add xs d)"
  by (induction xs arbitrary: d) (auto simp: distinct_set_add)

lemma input_kind_iff:
  "(p, s) \<in> set (spent_in i) \<longleftrightarrow> i = MinedInput p (SpentBy s)"
  "q \<in> set (dead_in i) \<longleftrightarrow> (\<exists>p. i = ChainedInput p q Rejected)"
  "p \<in> set (silent_in i) \<longleftrightarrow> i = MinedInput p CoinUnknown"
  "p \<in> set (unlanded_in i) \<longleftrightarrow> (\<exists>q. i = ChainedInput p q Unlanded)"
     apply (cases i rule: spent_in.cases; auto)
    apply (cases i rule: dead_in.cases; auto)
   apply (cases i rule: silent_in.cases; auto)
  apply (cases i rule: unlanded_in.cases; auto)
  done

definition good_input :: "CertaintyInput \<Rightarrow> bool" where
  "good_input i = (spent_in i = [] \<and> silent_in i = [] \<and> unlanded_in i = [] \<and> dead_in i = [])"

lemma good_input_cases:
  "good_input i = (case i of MinedInput _ a \<Rightarrow> a = Cleared | ChainedInput _ _ s \<Rightarrow> s = Certified \<or> s = Landed)"
  by (cases i rule: spent_in.cases; cases i rule: silent_in.cases; cases i rule: unlanded_in.cases;
      cases i rule: dead_in.cases) (auto simp: good_input_def)

lemma claim_inputs_in:
  "set (claim_inputs t ins here out) = set out \<union> {(p, t) |p. p \<in> set ins \<and> p \<in> set here \<and> p \<notin> fst ` set out}"
  by (induction t ins here out rule: claim_inputs.induct) (auto simp: image_iff)

lemma claim_inputs_distinct: "distinct (map fst out) \<Longrightarrow> distinct (map fst (claim_inputs t ins here out))"
  by (induction t ins here out rule: claim_inputs.induct) auto

definition consumes :: "snapshot_tx list \<Rightarrow> string \<Rightarrow> string \<Rightarrow> bool" where
  "consumes txs p t = (\<exists>tx \<in> set txs. st_txid tx = t \<and> p \<in> set (st_inputs tx) \<and> st_status tx \<notin> set SPENDS_NOTHING)"

lemma candidates_sound:
  "(p, t) \<in> set (candidates_loop txs here out) \<Longrightarrow> (p, t) \<in> set out \<or> p \<in> set here \<and> consumes txs p t"
  by (induction txs here out rule: candidates_loop.induct)
    (auto simp: claim_inputs_in consumes_def split: if_splits)

lemma candidates_distinct: "distinct (map fst out) \<Longrightarrow> distinct (map fst (candidates_loop txs here out))"
  by (induction txs here out rule: candidates_loop.induct) (auto simp: claim_inputs_distinct)

lemma candidates_keep: "set out \<subseteq> set (candidates_loop txs here out)"
  by (induction txs here out rule: candidates_loop.induct) (auto simp: claim_inputs_in)

lemma candidates_complete:
  "p \<in> set here \<Longrightarrow> consumes txs p t \<Longrightarrow> p \<in> fst ` set (candidates_loop txs here out)"
proof (induction txs here out rule: candidates_loop.induct)
  case (2 tx txs here out)
  show ?case
  proof (cases "consumes [tx] p t")
    case True
    let ?out = "claim_inputs (st_txid tx) (st_inputs tx) here out"
    have "p \<in> set (st_inputs tx)" "st_status tx \<notin> set SPENDS_NOTHING"
      using True by (auto simp: consumes_def)
    then have "p \<in> fst ` set ?out"
      using "2.prems"(1) unfolding claim_inputs_in by (cases "p \<in> fst ` set out") (auto simp: image_Un image_iff)
    moreover have "fst ` set ?out \<subseteq> fst ` set (candidates_loop txs here ?out)"
      by (rule image_mono) (rule candidates_keep)
    ultimately show ?thesis
      using \<open>st_status tx \<notin> set SPENDS_NOTHING\<close> by auto
  next
    case False
    then have "consumes txs p t" using "2.prems"(2) by (auto simp: consumes_def)
    then show ?thesis using "2.IH" "2.prems"(1) by simp
  qed
qed (simp add: consumes_def)

lemma judgeFinality_iff:
  "judgeFinality txs tip = Some Final \<longleftrightarrow>
     list_all (\<lambda>tx. finalAtAnyTip tx \<or> (case tip of None \<Rightarrow> False | Some t \<Rightarrow> lockTimeReached (ft_lockTime tx) t)) txs"
  by (induction txs tip rule: judgeFinality.induct) (auto split: option.splits)

lemma lockTimeReached_mono:
  "lockTimeReached l t \<Longrightarrow> ct_height t \<le> ct_height t' \<Longrightarrow> ct_nowSec t \<le> ct_nowSec t' \<Longrightarrow> lockTimeReached l t'"
  by (auto simp: lockTimeReached_def)

section \<open>Properties\<close>

text \<open>C8. A signed spend is declared abandoned exactly when its absence from the chain is a
  positive answer, no broadcaster ever accepted it, every input is known to be unspent or
  phantom, and the grace window has passed; so turning any answer into silence keeps it.\<close>

theorem abandoned_only_on_positive_evidence:
  "(\<exists>r. decideAbandonedSpend f = Abandoned r) \<longleftrightarrow>
     af_onChain f = Some False \<and> \<not> af_hasArcadeContact f \<and> af_inputs f \<noteq> [] \<and>
     set (af_inputs f) \<subseteq> {InUnspent, InPhantom} \<and> 0 < af_createdAt f \<and>
     ABANDON_GRACE_MS \<le> af_now f - af_createdAt f"
proof -
  have "set (af_inputs f) \<subseteq> {InUnspent, InPhantom} \<longleftrightarrow>
      \<not> list_ex (\<lambda>s. s = InUnknown) (af_inputs f) \<and> \<not> list_ex (\<lambda>s. s = InSpent) (af_inputs f)"
  proof -
    have "x \<in> {InUnspent, InPhantom} \<longleftrightarrow> x \<noteq> InUnknown \<and> x \<noteq> InSpent" for x
      by (cases x) simp_all
    then show ?thesis unfolding list_ex_iff subset_iff by blast
  qed
  then show ?thesis by (auto simp: decideAbandonedSpend_def)
qed

text \<open>A cheque is declared dead only on gathered evidence that names the cause, never when
  the chain or a node holds it; and a queued, stalled or rejected cheque without evidence is
  never left waiting once the queue time has passed.\<close>

theorem landing_dead_only_on_evidence:
  "(case decideLanding arcade t ev of
      FateDead cause _ \<Rightarrow>
        (case ev of None \<Rightarrow> False | Some e \<Rightarrow> le_onChain e \<noteq> Some True \<and>
          (case cause of
             CauseInputSpent \<Rightarrow> le_spentElsewhere (withArcadeConflict e arcade) \<noteq> []
           | CauseArcadeRejected \<Rightarrow> (\<exists>reason c. arcade = ArcRejected reason c)
           | CauseParentRejected \<Rightarrow> le_rejectedParents e \<noteq> []))
        \<and> (\<forall>s. arcade \<noteq> ArcLanded s)
    | FateLanded _ \<Rightarrow> (\<exists>s. arcade = ArcLanded s) \<or> (\<exists>e. ev = Some e \<and> le_onChain e = Some True)
    | GatherEvidence _ \<Rightarrow> ev = None
    | FateWaiting _ \<Rightarrow> (case ev of Some _ \<Rightarrow> True | None \<Rightarrow> t < QUEUED_EVIDENCE_AFTER_MS))"
proof -
  have w: "le_rejectedParents (withArcadeConflict e a) = le_rejectedParents e" for e a
    by (simp add: withArcadeConflict_def split: LandingArcade.split option.split)
  show ?thesis
    by (cases arcade; cases ev) (auto simp: decideLanding_def Let_def w split: list.split option.split)
qed

text \<open>\<open>judgeInputCertainty\<close> says \<open>certain\<close> only when every input is proven good; it retires
  exactly the inputs proven dead whenever there is one; otherwise it names exactly the inputs
  nobody could vouch for. No verdict depends on the order of the inputs.\<close>

theorem input_certainty_is_exact:
  "case judgeInputCertainty inputs of
     Certain \<Rightarrow> list_all good_input inputs
   | Retire spends dead \<Rightarrow> 0 < List.length spends + List.length dead \<and> distinct dead
       \<and> set spends = {(p, s). MinedInput p (SpentBy s) \<in> set inputs}
       \<and> set dead = {q. \<exists>p. ChainedInput p q Rejected \<in> set inputs}
   | Uncertain reason outpoints \<Rightarrow>
       list_all (\<lambda>i. spent_in i = [] \<and> dead_in i = []) inputs \<and> outpoints \<noteq> []
       \<and> set outpoints = {p. MinedInput p CoinUnknown \<in> set inputs \<or> (\<exists>q. ChainedInput p q Unlanded \<in> set inputs)}
       \<and> reason = (if \<exists>p q. ChainedInput p q Unlanded \<in> set inputs then ParentUnlanded else ExplorerSilent)"
proof -
  define sp where "sp = concat (map spent_in inputs)"
  define dead where "dead = fold set_add (concat (map dead_in inputs)) []"
  define si where "si = concat (map silent_in inputs)"
  define un where "un = concat (map unlanded_in inputs)"
  have j: "judgeInputCertainty inputs = (if sp \<noteq> [] \<or> dead \<noteq> [] then Retire sp dead
      else if un \<noteq> [] then Uncertain ParentUnlanded (un @ si)
      else if si \<noteq> [] then Uncertain ExplorerSilent si else Certain)"
    by (simp only: judgeInputCertainty_def sort_inputs_spec prod.case append_Nil sp_def dead_def si_def un_def)
  have dist: "distinct dead" by (simp add: dead_def distinct_fold_add)
  have sets: "set sp = {(p, s). MinedInput p (SpentBy s) \<in> set inputs}"
    "set dead = {q. \<exists>p. ChainedInput p q Rejected \<in> set inputs}"
    "set si = {p. MinedInput p CoinUnknown \<in> set inputs}"
    "set un = {p. \<exists>q. ChainedInput p q Unlanded \<in> set inputs}"
    by (auto simp: input_kind_iff set_fold_add sp_def dead_def si_def un_def)
  have none: "i \<in> set inputs \<Longrightarrow> spent_in i = [] \<and> dead_in i = []" if "sp = []" "dead = []" for i
    using that input_kind_iff sets(1,2) by (cases i rule: spent_in.cases; cases i rule: dead_in.cases) auto
  have none2: "i \<in> set inputs \<Longrightarrow> silent_in i = [] \<and> unlanded_in i = []" if "si = []" "un = []" for i
    using that by (simp add: si_def un_def)
  consider "sp \<noteq> [] \<or> dead \<noteq> []" | "sp = []" "dead = []" "un \<noteq> []"
    | "sp = []" "dead = []" "un = []" "si \<noteq> []" | "sp = []" "dead = []" "un = []" "si = []"
    by blast
  then show ?thesis
  proof cases
    case 1
    then have "judgeInputCertainty inputs = Retire sp dead" unfolding j by simp
    then show ?thesis using 1 dist sets(1,2) by simp
  next
    case 2
    then have v: "judgeInputCertainty inputs = Uncertain ParentUnlanded (un @ si)" unfolding j by simp
    have "set un \<noteq> {}" using 2(3) by (simp only: set_empty not_False_eq_True)
    then have "\<exists>p q. ChainedInput p q Unlanded \<in> set inputs"
      unfolding sets(4) by blast
    moreover have "set (un @ si) = {p. MinedInput p CoinUnknown \<in> set inputs \<or> (\<exists>q. ChainedInput p q Unlanded \<in> set inputs)}"
      unfolding set_append sets(3,4) by auto
    ultimately show ?thesis using 2 none unfolding v by (simp add: list_all_iff)
  next
    case 3
    then have v: "judgeInputCertainty inputs = Uncertain ExplorerSilent si" unfolding j by simp
    have "set un = {}" using 3(3) by (simp only: set_empty)
    then have e: "\<not> (\<exists>p q. ChainedInput p q Unlanded \<in> set inputs)"
      unfolding sets(4) by blast
    then have "set si = {p. MinedInput p CoinUnknown \<in> set inputs \<or> (\<exists>q. ChainedInput p q Unlanded \<in> set inputs)}"
      unfolding sets(3) by auto
    then show ?thesis using 3 none e unfolding v by (simp add: list_all_iff)
  next
    case 4
    then have "judgeInputCertainty inputs = Certain" unfolding j by simp
    moreover have "list_all good_input inputs"
      using none [OF 4(1,2)] none2 [OF 4(4,3)] by (auto simp: list_all_iff good_input_def)
    ultimately show ?thesis by simp
  qed
qed

text \<open>An inbound hint is given up only on positive evidence: a named competing spender, a
  parent no provider has and the chain denies, a body that cannot stand in for the package, or
  a body no provider has and a chain that denies it; and the cheap pre-check never hides a hint
  that would be given up.\<close>

theorem hint_given_up_only_on_evidence:
  assumes "decideInboundHintFate f = Unresolvable r"
  shows "mayBeUnresolvable f \<and> \<not> hf_isArcadeGhost f \<and>
    (case r of
       DoubleSpent p s \<Rightarrow> (\<exists>c. hf_conflict f = Some c \<and> pc_outpoint c = p \<and> prefix s (pc_spender c))
     | DeadAncestor t \<Rightarrow> (\<exists>a. hf_missingAncestor f = Some a \<and> ma_bodyLookup a = LMiss \<and> ma_onChain a = Some False
          \<and> prefix t (ma_txid a))
     | NoUsableBeef \<Rightarrow> \<not> hf_hasDeliverableBeef f \<and> hf_bodyLookup f = LHit \<and> \<not> hf_rawBodyCanRecover f
     | SenderNeverBroadcast \<Rightarrow> \<not> hf_hasDeliverableBeef f \<and> hf_bodyLookup f = LMiss \<and> hf_onChain f = Some False)
    \<and> (hf_conflict f = None \<longrightarrow> UNRESOLVABLE_GRACE_MS \<le> ageMs (hf_firstSeenAt f) (hf_now f))"
proof -
  have p: "prefix (take 12 s) s" for s :: string by (simp add: take_is_prefix)
  show ?thesis
    using assms p by (auto simp: decideInboundHintFate_def mayBeUnresolvable_def split: option.splits if_splits)
qed

lemma hint_given_up_only_on_evidence_witness:
  "mayBeUnresolvable \<lparr>hf_isArcadeGhost = False, hf_hasDeliverableBeef = False, hf_bodyLookup = LMiss,
     hf_rawBodyCanRecover = True, hf_onChain = Some False, hf_missingAncestor = None, hf_conflict = None,
     hf_firstSeenAt = 1, hf_now = 10000000\<rparr>"
proof -
  have "decideInboundHintFate \<lparr>hf_isArcadeGhost = False, hf_hasDeliverableBeef = False, hf_bodyLookup = LMiss,
     hf_rawBodyCanRecover = True, hf_onChain = Some False, hf_missingAncestor = None, hf_conflict = None,
     hf_firstSeenAt = 1, hf_now = 10000000\<rparr> = Unresolvable SenderNeverBroadcast"
    by (simp add: decideInboundHintFate_def ageMs_def UNRESOLVABLE_GRACE_MS_def)
  from hint_given_up_only_on_evidence [OF this] show ?thesis by simp
qed

text \<open>A package is final exactly when every transaction opted out of its lock time or its
  lock time has been reached, the answer is withheld only when a tip is needed and unknown, and
  a package final at one tip is final at every later tip.\<close>

theorem finality_exact_and_stable:
  "(judgeFinality txs (Some t) = Some Final \<longleftrightarrow>
      list_all (\<lambda>tx. finalAtAnyTip tx \<or> lockTimeReached (ft_lockTime tx) t) txs)
   \<and> (ct_height t \<le> ct_height t' \<and> ct_nowSec t \<le> ct_nowSec t' \<and> judgeFinality txs (Some t) = Some Final \<longrightarrow>
      judgeFinality txs (Some t') = Some Final)
   \<and> (judgeFinality txs tip = None \<longleftrightarrow> tip = None \<and> \<not> list_all finalAtAnyTip txs)"
proof -
  have "judgeFinality txs tip = None \<longleftrightarrow> tip = None \<and> \<not> list_all finalAtAnyTip txs"
    by (induction txs tip rule: judgeFinality.induct) (auto split: option.splits)
  then show ?thesis
    by (auto simp: judgeFinality_iff list_all_iff intro: lockTimeReached_mono)
qed

lemma finality_exact_and_stable_witness:
  "judgeFinality [\<lparr>ft_txid = ''t'', ft_lockTime = 100, ft_sequences = [0]\<rparr>] (Some \<lparr>ct_height = 250, ct_nowSec = 9\<rparr>) = Some Final"
proof -
  have "judgeFinality [\<lparr>ft_txid = ''t'', ft_lockTime = 100, ft_sequences = [0]\<rparr>] (Some \<lparr>ct_height = 200, ct_nowSec = 8\<rparr>) = Some Final"
    by (simp add: finalAtAnyTip_def lockTimeReached_def SEQUENCE_FINAL_def LOCKTIME_THRESHOLD_def)
  with finality_exact_and_stable [of "[\<lparr>ft_txid = ''t'', ft_lockTime = 100, ft_sequences = [0]\<rparr>]"
      "\<lparr>ct_height = 200, ct_nowSec = 8\<rparr>" "\<lparr>ct_height = 250, ct_nowSec = 9\<rparr>"]
  show ?thesis by simp
qed

text \<open>Coins retired on another install's word: each is spendable here, is consumed by a
  live transaction of the snapshot this device does not know, and is retired once; every
  spendable coin a live snapshot transaction consumes is considered; and only recorded spenders
  the snapshot shows failed are withdrawn.\<close>

theorem peer_spends_sound_and_complete:
  fixes txs here known recorded
  defines "plan \<equiv> planPeerSpends txs (peerSpendCandidates txs here) known recorded"
  shows "(\<forall>(p, t) \<in> set (pl_spends plan). p \<in> set here \<and> t \<notin> set known \<and> consumes txs p t)
    \<and> distinct (map fst (pl_spends plan))
    \<and> (\<forall>p \<in> set here. (\<exists>t. consumes txs p t) = (p \<in> fst ` set (peerSpendCandidates txs here)))
    \<and> (\<forall>t \<in> set (pl_withdrawn plan). t \<in> set recorded \<and> (\<exists>tx \<in> set txs. st_txid tx = t \<and> st_status tx = ''failed''))"
proof -
  have d: "distinct (map fst (filter P (peerSpendCandidates txs here)))" for P
    unfolding peerSpendCandidates_def using candidates_distinct [of "[]" txs here]
    by (simp add: distinct_map_filter)
  have c: "(\<exists>t. consumes txs p t) = (p \<in> fst ` set (peerSpendCandidates txs here))" if "p \<in> set here" for p
    using candidates_complete [OF that, of txs _ "[]"] candidates_sound [of p _ txs here "[]"]
    by (force simp: peerSpendCandidates_def)
  show ?thesis
    using d c candidates_sound [of _ _ txs here "[]"]
    by (auto simp: plan_def planPeerSpends_def Let_def peerSpendCandidates_def)
qed

lemma peer_spends_sound_and_complete_witness:
  "\<exists>t. (''p'', t) \<in> set (peerSpendCandidates [\<lparr>st_txid = ''t'', st_status = ''unproven'', st_inputs = [''p'']\<rparr>] [''p''])"
proof -
  have "consumes [\<lparr>st_txid = ''t'', st_status = ''unproven'', st_inputs = [''p'']\<rparr>] ''p'' ''t''"
    by (simp add: consumes_def SPENDS_NOTHING_def)
  with peer_spends_sound_and_complete [of "[\<lparr>st_txid = ''t'', st_status = ''unproven'', st_inputs = [''p'']\<rparr>]" "[''p'']"]
  show ?thesis by fastforce
qed

text \<open>A written-off coin is restored only when it is worth something, nobody local holds or
  spent it, its creator is settled, its script is there and the chain says unspent; it is hidden
  only under a spender the chain names and this wallet never stored; silence changes nothing.\<close>

theorem written_off_coin_exact:
  "(decideWrittenOffCoinFate f chain = RestoreCoin \<longleftrightarrow> 0 < wc_satoshis f \<and> \<not> wc_spentLocally f \<and> \<not> wc_overlayHeld f
      \<and> wc_creator f = LSettled \<and> wc_hasScript f \<and> chain = ChainUnspent)
   \<and> (decideWrittenOffCoinFate f chain = HideCoin s \<longleftrightarrow> isWrittenOffCandidate f \<and> chain = ChainSpent s False)
   \<and> (\<exists>k. decideWrittenOffCoinFate f ChainUnknown = KeepCoin k)"
  by (cases chain) (auto simp: decideWrittenOffCoinFate_def isWrittenOffCandidate_def)

end
