(* ===== verification/Swap_Offer.thy ===== *)
theory Swap_Offer
  imports Wallet_Prelude
begin

text \<open>
  Direct swap offers (\<open>src/src/wallet/swap/offer.ts\<close>) and HandCash's cut
  (\<open>swap/fee.ts\<close>). Amounts are decimal texts in the records, as in the code, and integers
  in the arithmetic. The asset names are the code's strings. SHA-256 and the check of a
  signature against the maker's derived key are parameters (\<open>swap_crypto\<close>): the code calls
  \<open>primitives/coinCrypto.ts\<close> and \<open>@noble/hashes\<close> for them. A field's JavaScript type is part
  of the record type; every other test of the shape checks is made by the model.
\<close>

section \<open>Texts\<close>

text \<open>\<open>/^[1-9]\d{0,17}$/\<close>, and \<open>BigInt\<close> of such a text.\<close>

definition is_units :: "string \<Rightarrow> bool" where
  "is_units s = (case s of [] \<Rightarrow> False
     | c # ds \<Rightarrow> js_digit c \<and> c \<noteq> CHR ''0'' \<and> list_all js_digit ds \<and> length ds \<le> 17)"

definition units :: "string \<Rightarrow> int" where
  "units s = int (nat_of_digits s)"

text \<open>\<open>/^0[23][0-9a-f]{64}$/\<close>.\<close>

definition is_pub :: "string \<Rightarrow> bool" where
  "is_pub s = (case s of a # b # r \<Rightarrow> a = CHR ''0'' \<and> (b = CHR ''2'' \<or> b = CHR ''3'') \<and> hex_of_len 64 r | _ \<Rightarrow> False)"

definition is_safe_integer :: "int \<Rightarrow> bool" where
  "is_safe_integer n = (\<bar>n\<bar> \<le> 2 ^ 53 - 1)"

text \<open>\<open>/^https:\/\/\S+$/\<close>.\<close>

definition is_https_url :: "string \<Rightarrow> bool" where
  "is_https_url s = (prefix ''https://'' s \<and> length s > 8 \<and> list_all (\<lambda>c. \<not> js_space c) (List.drop 8 s))"

text \<open>\<open>JSON.stringify\<close> of a string.\<close>

definition hex_digit :: "nat \<Rightarrow> char" where
  "hex_digit n = (if n < 10 then char_of (48 + n) else char_of (87 + n))"

definition json_escape_char :: "char \<Rightarrow> string" where
  "json_escape_char c = (let n = (of_char c :: nat) in
     if n = 34 then [char_of (92::nat), char_of (34::nat)]
     else if n = 92 then [char_of (92::nat), char_of (92::nat)]
     else if n = 8 then [char_of (92::nat), CHR ''b'']
     else if n = 9 then [char_of (92::nat), CHR ''t'']
     else if n = 10 then [char_of (92::nat), CHR ''n'']
     else if n = 12 then [char_of (92::nat), CHR ''f'']
     else if n = 13 then [char_of (92::nat), CHR ''r'']
     else if n < 32 then [char_of (92::nat), CHR ''u'', CHR ''0'', CHR ''0'', hex_digit (n div 16), hex_digit (n mod 16)]
     else [c])"

definition json_string_text :: "string \<Rightarrow> string" where
  "json_string_text s = char_of (34::nat) # concat (map json_escape_char s) @ [char_of (34::nat)]"

text \<open>\<open>JSON.stringify\<close> of an array whose elements have these texts.\<close>

fun json_join :: "string list \<Rightarrow> string" where
  "json_join [] = []"
| "json_join [t] = t"
| "json_join (t # ts) = t @ CHR '','' # json_join ts"

definition json_array_text :: "string list \<Rightarrow> string" where
  "json_array_text ts = CHR ''['' # json_join ts @ [CHR '']'']"

section \<open>The fee (\<open>fee.ts\<close>)\<close>

datatype SwapLegId = LegTaker | LegMaker

record swap_fee =
  sf_leg :: SwapLegId
  sf_amount :: string

definition SWAP_ASSETS :: "string list" where
  "SWAP_ASSETS = [''bsv'', ''ltc'', ''bch'', ''btc'', ''doge'', ''arc-usd'']"

definition isSwapAsset :: "string \<Rightarrow> bool" where
  "isSwapAsset value = (value \<in> set SWAP_ASSETS)"

text \<open>The table of \<open>DIRECT_CLAIM_COST\<close>. Other names never reach it (offers are checked first).\<close>

definition DIRECT_CLAIM_COST :: "string \<Rightarrow> int" where
  "DIRECT_CLAIM_COST a = (case map_of
     [(''bsv'', 100), (''ltc'', 1000), (''bch'', 500), (''btc'', 5000), (''doge'', 200000), (''arc-usd'', 100000)] a of
     Some n \<Rightarrow> n | None \<Rightarrow> 0)"

definition SWAP_FEE_BPS :: int where "SWAP_FEE_BPS = 50"
definition FEE_FLOOR_CLAIMS :: int where "FEE_FLOOR_CLAIMS = 10"

record swap_price =
  pr_give :: string
  pr_get :: string

record swap_offer =
  so_v :: int
  so_maker :: string
  so_give :: string
  so_get :: string
  so_price :: swap_price
  so_minGet :: string
  so_maxGet :: string
  so_createdAt :: int
  so_expiresAt :: int
  so_nonce :: string
  so_messagebox :: "string option"

record signed_offer = swap_offer +
  so_sig :: string

definition feeLegOf :: "('a) swap_offer_scheme \<Rightarrow> SwapLegId" where
  "feeLegOf offer = (if so_get offer = ''bsv'' then LegTaker else LegMaker)"

definition swapFee :: "('a) swap_offer_scheme \<Rightarrow> int \<Rightarrow> int \<Rightarrow> swap_fee option" where
  "swapFee offer pay receive =
     (let leg = feeLegOf offer;
          chain = (if leg = LegTaker then so_get offer else so_give offer);
          amount = ((if leg = LegTaker then pay else receive) * SWAP_FEE_BPS) div 10000
      in if amount < DIRECT_CLAIM_COST chain * FEE_FLOOR_CLAIMS then None
         else Some \<lparr>sf_leg = leg, sf_amount = show_int amount\<rparr>)"

record taker_totals =
  tt_pays :: int
  tt_receives :: int
  tt_fee :: int

definition takerTotals :: "string \<Rightarrow> string \<Rightarrow> swap_fee option \<Rightarrow> taker_totals" where
  "takerTotals pay receive fee =
     (let amount = (case fee of Some x \<Rightarrow> units (sf_amount x) | None \<Rightarrow> 0);
          onTaker = (map_option sf_leg fee = Some LegTaker)
      in \<lparr>tt_pays = units pay + (if onTaker then amount else 0),
          tt_receives = units receive - (if onTaker then 0 else amount), tt_fee = amount\<rparr>)"

definition lockWithin :: "('a) swap_offer_scheme \<Rightarrow> int \<Rightarrow> (int \<Rightarrow> int option) \<Rightarrow> int" where
  "lockWithin offer budget receiveOf =
     (if feeLegOf offer \<noteq> LegTaker then budget
      else case receiveOf budget of
        None \<Rightarrow> budget
      | Some whole \<Rightarrow> if swapFee offer budget whole = None then budget
                      else (budget * 10000) div (10000 + SWAP_FEE_BPS))"

section \<open>Offers (\<open>offer.ts\<close>)\<close>

definition MAX_OFFER_TTL_MS :: int where "MAX_OFFER_TTL_MS = 24 * 60 * 60000"
definition MAX_SKEW_MS :: int where "MAX_SKEW_MS = 5 * 60000"

text \<open>
  The cryptography the swap code calls. \<open>sc_verify digest nonce maker sig\<close> is
  \<open>verifyCoinDigest\<close> under the child key \<open>nonce\<close> of \<open>maker\<close>; \<open>None\<close> is a thrown error. The
  other members are the BRC-42 keys of \<open>settle.ts\<close>, as public keys.
\<close>

record swap_crypto =
  sc_sha256 :: "string \<Rightarrow> string"
  sc_verify :: "string \<Rightarrow> string \<Rightarrow> string \<Rightarrow> string \<Rightarrow> bool option"
  sc_self_pub :: "string \<Rightarrow> string \<Rightarrow> string"
  sc_child_pub :: "string \<Rightarrow> string \<Rightarrow> string \<Rightarrow> string"
  sc_derive_pub :: "string \<Rightarrow> string \<Rightarrow> string \<Rightarrow> string"
  sc_secret_hash :: "string \<Rightarrow> string \<Rightarrow> string"

definition OFFER_DOMAIN :: string where
  "OFFER_DOMAIN = ''handcash swap offer v1'' @ [char_of (10::nat)]"

definition offer_fields :: "('a) swap_offer_scheme \<Rightarrow> string list" where
  "offer_fields o' =
     [show_int (so_v o'), json_string_text (so_maker o'), json_string_text (so_give o'), json_string_text (so_get o'),
      json_string_text (pr_give (so_price o')), json_string_text (pr_get (so_price o')),
      json_string_text (so_minGet o'), json_string_text (so_maxGet o'), show_int (so_createdAt o'),
      show_int (so_expiresAt o'), json_string_text (so_nonce o'),
      json_string_text (case so_messagebox o' of Some m \<Rightarrow> m | None \<Rightarrow> [])]"

definition swap_offer_preimage :: "('a) swap_offer_scheme \<Rightarrow> string" where
  "swap_offer_preimage o' = OFFER_DOMAIN @ json_array_text (offer_fields o')"

definition swapOfferDigest :: "swap_crypto \<Rightarrow> ('a) swap_offer_scheme \<Rightarrow> string" where
  "swapOfferDigest cr o' = sc_sha256 cr (swap_offer_preimage o')"

definition wellFormed :: "signed_offer \<Rightarrow> bool" where
  "wellFormed o' =
     (so_v o' = 1 \<and> is_pub (so_maker o') \<and> isSwapAsset (so_give o') \<and> isSwapAsset (so_get o') \<and>
      so_give o' \<noteq> so_get o' \<and> is_units (pr_give (so_price o')) \<and> is_units (pr_get (so_price o')) \<and>
      is_units (so_minGet o') \<and> is_units (so_maxGet o') \<and> units (so_minGet o') \<le> units (so_maxGet o') \<and>
      is_safe_integer (so_createdAt o') \<and> is_safe_integer (so_expiresAt o') \<and> hex_of_len 64 (so_nonce o') \<and>
      (case so_messagebox o' of None \<Rightarrow> True | Some m \<Rightarrow> is_https_url m) \<and>
      16 \<le> length (so_sig o') \<and> length (so_sig o') \<le> 160 \<and> list_all js_hex (so_sig o'))"

datatype OfferRefusal = Malformed | BadSignature | Expired | NotYetValid | TooLong

definition verifySwapOffer :: "swap_crypto \<Rightarrow> signed_offer \<Rightarrow> int \<Rightarrow> OfferRefusal + signed_offer" where
  "verifySwapOffer cr o' now =
     (if \<not> wellFormed o' then Inl Malformed
      else if so_expiresAt o' \<le> now then Inl Expired
      else if so_createdAt o' > now + MAX_SKEW_MS then Inl NotYetValid
      else if so_expiresAt o' - so_createdAt o' > MAX_OFFER_TTL_MS then Inl TooLong
      else case sc_verify cr (swapOfferDigest cr o') (so_nonce o') (so_maker o') (so_sig o') of
        Some valid \<Rightarrow> (if valid then Inr o' else Inl BadSignature)
      | None \<Rightarrow> Inl BadSignature)"

definition fillOffer :: "('a) swap_offer_scheme \<Rightarrow> int \<Rightarrow> int \<Rightarrow> int option" where
  "fillOffer offer pay filled =
     (if pay < units (so_minGet offer) \<or> pay > units (so_maxGet offer) - filled then None
      else Some ((pay * units (pr_give (so_price offer))) div units (pr_get (so_price offer))))"

definition offerRoom :: "('a) swap_offer_scheme \<Rightarrow> int \<Rightarrow> (int \<times> int) option" where
  "offerRoom offer filled =
     (let mx = units (so_maxGet offer) - filled; mn = units (so_minGet offer)
      in if mx \<ge> mn then Some (mn, mx) else None)"

definition fillsInParts :: "('a) swap_offer_scheme \<Rightarrow> bool" where
  "fillsInParts offer = (units (so_minGet offer) < units (so_maxGet offer))"

section \<open>Amounts and texts\<close>

lemma units_nonneg [simp]: "0 \<le> units s"
  by (simp add: units_def)

lemma nat_digits_head: "0 < n \<Longrightarrow> hd (nat_digits n) \<noteq> CHR ''0''"
proof (induction n rule: nat_digits.induct)
  case (1 n)
  have d: "char_of (48 + n) \<noteq> CHR ''0''" if "n < 10"
  proof -
    have "(of_char (char_of (48 + n)) :: nat) \<noteq> of_char (CHR ''0'')" using that "1.prems" by simp
    then show ?thesis by metis
  qed
  show ?case using 1 d by (cases "n < 10") (simp_all add: nat_digits.simps [of n])
qed

lemma length_nat_digits: "n < 10 ^ Suc k \<Longrightarrow> length (nat_digits n) \<le> Suc k"
proof (induction k arbitrary: n)
  case 0
  then show ?case by (simp add: nat_digits.simps [of n])
next
  case (Suc k)
  then have "n div 10 < 10 ^ Suc k" by (simp add: less_mult_imp_div_less mult.commute)
  then show ?case using Suc.IH [of "n div 10"] by (cases "n < 10") (simp_all add: nat_digits.simps [of n])
qed

lemma units_show [simp]: "0 \<le> n \<Longrightarrow> units (show_int n) = n"
  by (simp add: units_def show_int_def nat_of_digits_show)

lemma is_units_show:
  assumes "0 < n" and "n < 10 ^ 18"
  shows "is_units (show_int n)"
proof -
  obtain m where m: "n = int m" "0 < m" using assms(1) by (metis pos_int_cases)
  have "m < 10 ^ Suc 17" using assms(2) m(1) by simp
  from length_nat_digits [OF this] have l: "length (nat_digits m) \<le> 18" by simp
  obtain c ds where c: "nat_digits m = c # ds" using nat_digits_nonempty [of m] by (cases "nat_digits m") auto
  then show ?thesis
    using nat_digits_digits [of m] nat_digits_head [OF m(2)] l m
    by (simp add: is_units_def show_int_def)
qed

lemma is_units_pos:
  assumes "is_units s"
  shows "1 \<le> units s"
proof -
  obtain c ds where s: "s = c # ds" "js_digit c" "c \<noteq> CHR ''0''" using assms by (auto simp: is_units_def split: list.splits)
  have c: "1 \<le> digit_val c"
  proof -
    have "(of_char c :: nat) \<noteq> of_char (CHR ''0'')"
      using s(3) by (simp only: of_char_eq_iff not_False_eq_True)
    then show ?thesis using s(2) by (simp add: digit_val_def js_digit_def Let_def) arith
  qed
  have "a \<le> foldl (\<lambda>a c. 10 * a + digit_val c) a ds" for a
  proof (induction ds arbitrary: a)
    case (Cons d ds)
    have "a \<le> 10 * a + digit_val d" by simp
    also have "\<dots> \<le> foldl (\<lambda>a c. 10 * a + digit_val c) (10 * a + digit_val d) ds" by (rule Cons.IH)
    finally show ?case by simp
  qed simp
  from this [of "digit_val c"] show ?thesis using c s(1) by (simp add: units_def nat_of_digits_def)
qed

section \<open>Reading the signed bytes back\<close>

text \<open>
  What the maker signs determines the offer: the JSON texts of the fields can be told apart.
  \<open>scan_string\<close> splits the JSON text of a string from what follows it.
\<close>

definition quote :: char where "quote = char_of (34::nat)"

text \<open>Reading one escaped character back.\<close>

definition hex_val :: "char \<Rightarrow> nat" where
  "hex_val c = (let n = (of_char c :: nat) in if n < 58 then n - 48 else n - 87)"

definition unescape1 :: "string \<Rightarrow> (char \<times> string) option" where
  "unescape1 s = (case s of [] \<Rightarrow> None | x # r \<Rightarrow>
     if (of_char x :: nat) \<noteq> 92 then Some (x, r)
     else (case r of [] \<Rightarrow> None | y # r' \<Rightarrow>
       (let k = (of_char y :: nat) in
        if k = 117 then Some (char_of (16 * hex_val (r' ! 2) + hex_val (r' ! 3)), List.drop 4 r')
        else Some (char_of (if k = 98 then 8 else if k = 116 then 9 else if k = 110 then 10
               else if k = 102 then 12 else if k = 114 then 13 else k), r'))))"

lemma hex_val_digit: "n < 16 \<Longrightarrow> hex_val (hex_digit n) = n"
  by (simp add: hex_val_def hex_digit_def Let_def)

lemma unescape1_escape: "unescape1 (json_escape_char c @ r) = Some (c, r)"
proof -
  define n where "n = (of_char c :: nat)"
  have c: "c = char_of n" by (simp add: n_def)
  have n: "n < 256" using of_char_lt_256 by (simp add: n_def)
  have n16: "16 * (n div 16) + n mod 16 = n" by simp
  have hv: "hex_val (hex_digit (n mod 16)) = n mod 16" by (rule hex_val_digit) simp
  consider "n = 34" | "n = 92" | "n = 8" | "n = 9" | "n = 10" | "n = 12" | "n = 13"
    | "n < 32" "n \<noteq> 8" "n \<noteq> 9" "n \<noteq> 10" "n \<noteq> 12" "n \<noteq> 13" | "32 \<le> n" "n \<noteq> 34" "n \<noteq> 92" by linarith
  then show ?thesis
  proof cases
    case 8
    then have "hex_val (hex_digit (n div 16)) = n div 16" by (intro hex_val_digit) simp
    then show ?thesis
      using 8 hv n16 by (simp add: json_escape_char_def n_def [symmetric] unescape1_def Let_def c [symmetric])
  next
    case 9
    then show ?thesis
      by (simp add: json_escape_char_def n_def [symmetric] unescape1_def Let_def)
  qed (simp_all add: json_escape_char_def n_def [symmetric] unescape1_def Let_def, simp_all add: c)
qed

lemma escape_split: "json_escape_char c @ r = json_escape_char d @ r' \<Longrightarrow> c = d \<and> r = r'"
  by (metis option.inject prod.inject unescape1_escape)

lemma escape_not_quote: "json_escape_char c @ r \<noteq> quote # r'"
  by (auto simp: json_escape_char_def Let_def quote_def)

lemma escaped_split:
  "concat (map json_escape_char s) @ quote # r = concat (map json_escape_char s') @ quote # r' \<Longrightarrow> s = s' \<and> r = r'"
proof (induction s arbitrary: s')
  case Nil
  then show ?case using escape_not_quote by (cases s') (auto, metis+)
next
  case (Cons c s)
  show ?case
  proof (cases s')
    case Nil
    then show ?thesis using Cons.prems escape_not_quote by auto
  next
    case (Cons d t)
    then show ?thesis using Cons.prems Cons.IH escape_split [of c _ d] by auto
  qed
qed

lemma json_string_split: "json_string_text s @ r = json_string_text s' @ r' \<Longrightarrow> s = s' \<and> r = r'"
  using escaped_split [of s r s' r'] by (simp add: json_string_text_def quote_def)

text \<open>A decimal text followed by a comma.\<close>

definition int_char :: "char \<Rightarrow> bool" where
  "int_char c = (js_digit c \<or> c = CHR ''-'')"

lemma int_chars: "list_all int_char (show_int n)"
  using nat_digits_digits by (auto simp: show_int_def int_char_def list_all_iff)

lemma until_comma:
  "list_all int_char s \<Longrightarrow> list_all int_char s' \<Longrightarrow> s @ CHR '','' # r = s' @ CHR '','' # r' \<Longrightarrow> s = s' \<and> r = r'"
proof (induction s arbitrary: s')
  case Nil
  then show ?case by (cases s') (auto simp: int_char_def js_digit_def)
next
  case (Cons c s)
  then show ?case by (cases s') (auto simp: int_char_def js_digit_def)
qed

lemma show_int_split: "show_int a @ CHR '','' # r = show_int b @ CHR '','' # r' \<Longrightarrow> a = b \<and> r = r'"
  using until_comma [OF int_chars int_chars] show_int_inj by blast

lemma str_field: "json_string_text s @ CHR '','' # r = json_string_text s' @ CHR '','' # r' \<Longrightarrow> s = s' \<and> r = r'"
  using json_string_split [of s "CHR '','' # r" s' "CHR '','' # r'"] by simp

lemma json_join_Cons2: "json_join (t # u # ts) = t @ CHR '','' # json_join (u # ts)"
  by simp

lemma fields_inj:
  assumes "json_array_text (offer_fields a) = json_array_text (offer_fields b)"
  shows "so_v a = so_v b \<and> so_maker a = so_maker b \<and> so_give a = so_give b \<and> so_get a = so_get b
    \<and> pr_give (so_price a) = pr_give (so_price b) \<and> pr_get (so_price a) = pr_get (so_price b)
    \<and> so_minGet a = so_minGet b \<and> so_maxGet a = so_maxGet b \<and> so_createdAt a = so_createdAt b
    \<and> so_expiresAt a = so_expiresAt b \<and> so_nonce a = so_nonce b
    \<and> (case so_messagebox a of Some m \<Rightarrow> m | None \<Rightarrow> []) = (case so_messagebox b of Some m \<Rightarrow> m | None \<Rightarrow> [])"
proof -
  have last: "s = s'" if "json_string_text s = json_string_text s'" for s s'
    using json_string_split [of s "[]" s' "[]"] that by simp
  note eq = assms [unfolded json_array_text_def offer_fields_def json_join_Cons2]
  from eq have "json_join (offer_fields a) = json_join (offer_fields b)"
    using assms by (simp add: json_array_text_def)
  note s0 = this [unfolded offer_fields_def json_join_Cons2 json_join.simps(2)]
  note s1 = show_int_split [OF s0]
  note s2 = str_field [OF s1 [THEN conjunct2]]
  note s3 = str_field [OF s2 [THEN conjunct2]]
  note s4 = str_field [OF s3 [THEN conjunct2]]
  note s5 = str_field [OF s4 [THEN conjunct2]]
  note s6 = str_field [OF s5 [THEN conjunct2]]
  note s7 = str_field [OF s6 [THEN conjunct2]]
  note s8 = str_field [OF s7 [THEN conjunct2]]
  note s9 = show_int_split [OF s8 [THEN conjunct2]]
  note s10 = show_int_split [OF s9 [THEN conjunct2]]
  note s11 = str_field [OF s10 [THEN conjunct2]]
  show ?thesis
    using s1 s2 s3 s4 s5 s6 s7 s8 s9 s10 s11 last [OF s11 [THEN conjunct2]] by blast
qed

lemma units_price: "wellFormed o' \<Longrightarrow> 1 \<le> units (pr_get (so_price o')) \<and> 1 \<le> units (pr_give (so_price o')) \<and> 1 \<le> units (so_minGet o')"
  by (simp add: wellFormed_def is_units_pos)

lemma DIRECT_CLAIM_COST_nonneg [simp]: "0 \<le> DIRECT_CLAIM_COST a"
proof (cases "map_of [(''bsv'', 100), (''ltc'', 1000), (''bch'', 500), (''btc'', 5000), (''doge'', 200000), (''arc-usd'', 100000)] a :: int option")
  case (Some n)
  then have "(a, n) \<in> set [(''bsv'', 100), (''ltc'', 1000), (''bch'', 500), (''btc'', 5000), (''doge'', 200000), (''arc-usd'', 100000)]"
    by (rule map_of_SomeD)
  then have "0 \<le> n" by auto
  then show ?thesis unfolding DIRECT_CLAIM_COST_def Some by simp
qed (simp add: DIRECT_CLAIM_COST_def)

lemma swapFee_amount:
  assumes "swapFee offer pay receive = Some f" and "0 \<le> pay" and "0 \<le> receive"
  shows "sf_leg f = feeLegOf offer \<and> units (sf_amount f) = ((if feeLegOf offer = LegTaker then pay else receive) * 50) div 10000"
  using assms by (auto simp: swapFee_def Let_def SWAP_FEE_BPS_def split: if_splits)

lemma fill_bounds:
  assumes "wellFormed o'" and "fillOffer o' pay filled = Some r"
  shows "0 < pay \<and> 0 \<le> r \<and> filled + pay \<le> units (so_maxGet o')"
  using assms units_price [OF assms(1)]
  by (auto simp: fillOffer_def pos_imp_zdiv_nonneg_iff split: if_splits)

lemma lock_fee_bound:
  assumes "wellFormed offer" and "lock = lockWithin offer budget (\<lambda>pay. fillOffer offer pay filled)"
    and "fillOffer offer lock filled = Some gross"
  shows "tt_pays (takerTotals (show_int lock) (show_int gross) (swapFee offer lock gross)) \<le> budget \<and> lock \<le> budget"
proof -
  have pos: "0 < lock" "0 \<le> gross" using fill_bounds [OF assms(1,3)] by simp_all
  have pays: "tt_pays (takerTotals (show_int lock) (show_int gross) (swapFee offer lock gross)) =
      lock + (if feeLegOf offer = LegTaker \<and> swapFee offer lock gross \<noteq> None then (lock * 50) div 10000 else 0)"
    using pos swapFee_amount [of offer lock gross]
    by (cases "swapFee offer lock gross") (auto simp: takerTotals_def Let_def)
  show ?thesis
  proof (cases "feeLegOf offer = LegTaker")
    case False
    then show ?thesis using pays assms(2) by (simp add: lockWithin_def)
  next
    case taker: True
    consider "lock = budget" "swapFee offer budget gross = None" | "lock = (budget * 10000) div 10050"
      using assms(2,3) taker by (auto simp: lockWithin_def SWAP_FEE_BPS_def split: option.splits if_splits)
    then show ?thesis
    proof cases
      case 1
      then show ?thesis using pays by simp
    next
      case 2
      then have "lock * 10050 \<le> budget * 10000" by simp
      moreover have "10000 * ((lock * 50) div 10000) \<le> lock * 50" by simp
      moreover have "0 \<le> (lock * 50) div 10000" using pos by simp
      ultimately have "lock + (lock * 50) div 10000 \<le> budget" "lock \<le> budget" by linarith+
      then show ?thesis using pays by simp
    qed
  qed
qed

section \<open>Properties\<close>

text \<open>C9. A signature binds the whole offer: two well-formed offers with the same signed bytes
  agree in every field, so (SHA-256 and the signature scheme apart) nobody can alter an offer.\<close>

theorem offer_signature_binds_every_field:
  assumes "wellFormed a" and "wellFormed b" and "swap_offer_preimage a = swap_offer_preimage b"
  shows "swap_offer.truncate a = swap_offer.truncate b"
proof -
  have m: "so_messagebox x = (let t = (case so_messagebox x of Some m \<Rightarrow> m | None \<Rightarrow> []) in if t = [] then None else Some t)"
    if "wellFormed x" for x
    using that by (auto simp: wellFormed_def is_https_url_def split: option.splits)
  have f: "json_array_text (offer_fields a) = json_array_text (offer_fields b)"
    using assms(3) by (simp add: swap_offer_preimage_def)
  note fields = fields_inj [OF f]
  have "so_messagebox a = so_messagebox b" using m [OF assms(1)] m [OF assms(2)] fields by metis
  moreover have "so_price a = so_price b" using fields by (cases "so_price a"; cases "so_price b") simp
  ultimately show ?thesis using fields by (simp add: swap_offer.truncate_def)
qed

definition sample_offer :: signed_offer where
  "sample_offer = \<lparr>so_v = 1, so_maker = ''02'' @ replicate 64 CHR ''a'', so_give = ''ltc'', so_get = ''bsv'',
     so_price = \<lparr>pr_give = ''3'', pr_get = ''2''\<rparr>, so_minGet = ''1000000'', so_maxGet = ''90000000'', so_createdAt = 1000,
     so_expiresAt = 80000000, so_nonce = replicate 64 CHR ''b'', so_messagebox = None, so_sig = replicate 16 CHR ''c''\<rparr>"

lemmas check_defs = wellFormed_def is_pub_def isSwapAsset_def SWAP_ASSETS_def is_units_def units_def nat_of_digits_def
  digit_val_def js_digit_def js_hex_def hex_of_len_def is_safe_integer_def list_all_iff Let_def

lemma sample_offer_wf: "wellFormed sample_offer"
  by (simp add: sample_offer_def check_defs)

lemma sample_units: "units ''3'' = 3" "units ''2'' = 2" "units ''1000000'' = 1000000" "units ''90000000'' = 90000000"
  by (simp_all add: check_defs)

lemma offer_signature_binds_every_field_witness:
  "swap_offer.truncate sample_offer = swap_offer.truncate (sample_offer\<lparr>so_sig := replicate 18 CHR ''d''\<rparr>)"
proof (rule offer_signature_binds_every_field)
  show "wellFormed (sample_offer\<lparr>so_sig := replicate 18 CHR ''d''\<rparr>)"
    by (simp add: sample_offer_def check_defs)
  show "swap_offer_preimage sample_offer = swap_offer_preimage (sample_offer\<lparr>so_sig := replicate 18 CHR ''d''\<rparr>)"
    by (simp add: swap_offer_preimage_def offer_fields_def)
qed (rule sample_offer_wf)

text \<open>C10. The price protects the maker and the room protects the offer: a fill pays the signed
  price rounded down to a unit, is at least the signed minimum and at most the signed maximum less
  what is filled, and splitting a take in parts never pays the taker more than one take of the
  whole. Outside those bounds nothing is filled.\<close>

theorem fill_never_beats_signed_price:
  assumes "wellFormed o'" and "fillOffer o' pay filled = Some r"
  shows "r * units (pr_get (so_price o')) \<le> pay * units (pr_give (so_price o'))
    \<and> pay * units (pr_give (so_price o')) < (r + 1) * units (pr_get (so_price o'))
    \<and> 0 < pay \<and> 0 \<le> r \<and> units (so_minGet o') \<le> pay \<and> filled + pay \<le> units (so_maxGet o')
    \<and> (\<forall>p. p < units (so_minGet o') \<or> units (so_maxGet o') < filled + p \<longrightarrow> fillOffer o' p filled = None)
    \<and> (\<forall>p1 p2 r1 r2. pay = p1 + p2 \<and> fillOffer o' p1 filled = Some r1 \<and> fillOffer o' p2 (filled + p1) = Some r2 \<longrightarrow> r1 + r2 \<le> r)"
proof -
  define g where "g = units (pr_get (so_price o'))"
  define v where "v = units (pr_give (so_price o'))"
  have u: "1 \<le> g" "1 \<le> v" "1 \<le> units (so_minGet o')" using units_price [OF assms(1)] by (simp_all add: g_def v_def)
  have r: "r = (pay * v) div g" "units (so_minGet o') \<le> pay" "pay \<le> units (so_maxGet o') - filled"
    using assms(2) by (auto simp: fillOffer_def g_def v_def split: if_splits)
  have "r * g \<le> pay * v" using u r(1) by (metis div_mult_mod_eq le_add_same_cancel1 pos_mod_sign zero_less_one order_less_le_trans)
  moreover have "pay * v < (r + 1) * g"
  proof -
    have "pay * v = g * r + (pay * v) mod g" using r(1) by simp
    moreover have "(pay * v) mod g < g" using u(1) by simp
    ultimately show ?thesis by (simp add: algebra_simps)
  qed
  moreover have "0 \<le> r" using r u by (simp add: pos_imp_zdiv_nonneg_iff)
  moreover have "fillOffer o' p filled = None" if "p < units (so_minGet o') \<or> units (so_maxGet o') < filled + p" for p
    using that by (auto simp: fillOffer_def)
  moreover have "r1 + r2 \<le> r" if "pay = p1 + p2" "fillOffer o' p1 filled = Some r1" "fillOffer o' p2 (filled + p1) = Some r2" for p1 p2 r1 r2
  proof -
    have "r1 = (p1 * v) div g" "r2 = (p2 * v) div g"
      using that(2,3) by (auto simp: fillOffer_def g_def v_def split: if_splits)
    moreover have "(p1 * v) div g + (p2 * v) div g \<le> (p1 * v + p2 * v) div g"
      using u(1) div_add1_eq [of "p1 * v" "p2 * v" g] by (simp add: pos_imp_zdiv_nonneg_iff)
    ultimately show ?thesis using r(1) that(1) by (simp add: distrib_right)
  qed
  ultimately show ?thesis using r u unfolding g_def [symmetric] v_def [symmetric] by auto
qed

lemma fill_never_beats_signed_price_witness:
  "fillOffer sample_offer 1000001 0 = Some 1500001 \<and> 1500001 * 2 \<le> (1000001 * 3 :: int)"
proof -
  have f: "fillOffer sample_offer 1000001 0 = Some 1500001"
    by (simp add: fillOffer_def sample_offer_def sample_units)
  have p: "units (pr_get (so_price sample_offer)) = 2" "units (pr_give (so_price sample_offer)) = 3"
    by (simp_all add: sample_offer_def sample_units)
  from fill_never_beats_signed_price [OF sample_offer_wf f] f show ?thesis by (simp add: p)
qed

text \<open>A taker never spends more than the budget it named: what \<open>lockWithin\<close> puts into the
  offer, with HandCash's cut on the taker's leg added, is at most the budget.\<close>

theorem lock_and_fee_stay_within_budget:
  assumes "wellFormed offer" and "lock = lockWithin offer budget (\<lambda>pay. fillOffer offer pay filled)"
    and "fillOffer offer lock filled = Some gross"
  shows "tt_pays (takerTotals (show_int lock) (show_int gross) (swapFee offer lock gross)) \<le> budget \<and> lock \<le> budget
    \<and> tt_receives (takerTotals (show_int lock) (show_int gross) (swapFee offer lock gross)) \<le> gross"
proof -
  have "0 < lock" "0 \<le> gross" using fill_bounds [OF assms(1,3)] by simp_all
  then have "tt_receives (takerTotals (show_int lock) (show_int gross) (swapFee offer lock gross)) \<le> gross"
    by (cases "swapFee offer lock gross") (simp_all add: takerTotals_def Let_def)
  with lock_fee_bound [OF assms] show ?thesis by simp
qed

lemma lock_and_fee_stay_within_budget_witness:
  "tt_pays (takerTotals (show_int 2985074) (show_int 4477611) (swapFee sample_offer 2985074 4477611)) \<le> 3000000"
proof -
  have l: "2985074 = lockWithin sample_offer 3000000 (\<lambda>pay. fillOffer sample_offer pay 0)"
    by (simp add: lockWithin_def feeLegOf_def fillOffer_def swapFee_def SWAP_FEE_BPS_def FEE_FLOOR_CLAIMS_def
        DIRECT_CLAIM_COST_def sample_offer_def sample_units Let_def)
  have f: "fillOffer sample_offer 2985074 0 = Some 4477611"
    by (simp add: fillOffer_def sample_offer_def sample_units)
  from lock_and_fee_stay_within_budget [OF sample_offer_wf l f] show ?thesis by simp
qed

end
