(* ===== verification/Swap_Routing.thy ===== *)
theory Swap_Routing
  imports Swap_Offer
begin

text \<open>
  Which way a swap goes (\<open>src/src/wallet/swap/routing.ts\<close>): the loop that verifies and prices
  every direct offer, and the queue of routes with the Exolix backstop. The intercept price,
  which is floating-point arithmetic on market rates, is not modelled.
\<close>

record swap_request =
  rq_from :: string
  rq_to :: string
  rq_pay :: int

record exolix_quote =
  xq_from :: string
  xq_to :: string
  xq_pay :: int
  xq_receive :: int

record direct_route =
  dr_offer :: signed_offer
  dr_pay :: int
  dr_lock :: int
  dr_receive :: int
  dr_fee :: int
  dr_net :: int

datatype swap_route = Direct direct_route | Exolix exolix_quote

fun route_net :: "swap_route \<Rightarrow> int" where
  "route_net (Direct d) = dr_net d"
| "route_net (Exolix q) = xq_receive q"

datatype skip_reason = Refused OfferRefusal | WrongPair | OutOfBounds | OwnOffer | Duplicate

record route_opts =
  ro_now :: int
  ro_self :: "string option"
  ro_claimCost :: "string \<Rightarrow> int"
  ro_filled :: "string \<Rightarrow> int option"

definition filled_of :: "route_opts \<Rightarrow> signed_offer \<Rightarrow> int" where
  "filled_of opts offer = (case ro_filled opts (so_nonce offer) of Some n \<Rightarrow> n | None \<Rightarrow> 0)"

text \<open>The pricing of one verified offer of the right pair; \<open>None\<close> is out of bounds.\<close>

definition price_offer :: "swap_request \<Rightarrow> route_opts \<Rightarrow> signed_offer \<Rightarrow> direct_route option" where
  "price_offer req opts offer =
     (let filled = filled_of opts offer;
          lock = lockWithin offer (rq_pay req) (\<lambda>pay. fillOffer offer pay filled)
      in case fillOffer offer lock filled of
           None \<Rightarrow> None
         | Some gross \<Rightarrow>
             (let totals = takerTotals (show_int lock) (show_int gross) (swapFee offer lock gross)
              in if tt_receives totals \<le> ro_claimCost opts (rq_to req) then None
                 else Some \<lparr>dr_offer = offer, dr_pay = tt_pays totals, dr_lock = lock, dr_receive = tt_receives totals,
                   dr_fee = tt_fee totals, dr_net = tt_receives totals - ro_claimCost opts (rq_to req)\<rparr>))"

fun route_loop ::
  "swap_crypto \<Rightarrow> swap_request \<Rightarrow> route_opts \<Rightarrow> signed_offer list \<Rightarrow> string list \<Rightarrow> direct_route list \<Rightarrow>
   (string \<times> skip_reason) list \<Rightarrow> direct_route list \<times> (string \<times> skip_reason) list" where
  "route_loop cr req opts [] seen direct skipped = (direct, skipped)"
| "route_loop cr req opts (raw # offers) seen direct skipped =
     (case verifySwapOffer cr raw (ro_now opts) of
        Inl reason \<Rightarrow> route_loop cr req opts offers seen direct (skipped @ [(so_nonce raw, Refused reason)])
      | Inr offer \<Rightarrow>
          if so_nonce offer \<in> set seen then
            route_loop cr req opts offers seen direct (skipped @ [(so_nonce raw, Duplicate)])
          else if so_get offer \<noteq> rq_from req \<or> so_give offer \<noteq> rq_to req then
            route_loop cr req opts offers (so_nonce offer # seen) direct (skipped @ [(so_nonce raw, WrongPair)])
          else if ro_self opts = Some (so_maker offer) \<and> so_maker offer \<noteq> [] then
            route_loop cr req opts offers (so_nonce offer # seen) direct (skipped @ [(so_nonce raw, OwnOffer)])
          else (case price_offer req opts offer of
              None \<Rightarrow> route_loop cr req opts offers (so_nonce offer # seen) direct (skipped @ [(so_nonce raw, OutOfBounds)])
            | Some r \<Rightarrow> route_loop cr req opts offers (so_nonce offer # seen) (direct @ [r]) skipped))"

record swap_routing =
  sr_routes :: "swap_route list"
  sr_chosen :: "swap_route option"
  sr_skipped :: "(string \<times> skip_reason) list"

text \<open>\<open>sort\<close> with \<open>byBest || createdAt\<close>: both sorts are stable, so the last key decides first.\<close>

definition best_first :: "direct_route list \<Rightarrow> direct_route list" where
  "best_first ds = sort_key (\<lambda>d. - dr_net d) (sort_key (\<lambda>d. so_createdAt (dr_offer d)) ds)"

definition backstop_of :: "swap_request \<Rightarrow> exolix_quote option \<Rightarrow> exolix_quote option" where
  "backstop_of req exolix = (case exolix of None \<Rightarrow> None
     | Some q \<Rightarrow> if xq_from q = rq_from req \<and> xq_to q = rq_to req \<and> xq_pay q = rq_pay req then Some q else None)"

definition routeSwap ::
  "swap_crypto \<Rightarrow> swap_request \<Rightarrow> signed_offer list \<Rightarrow> exolix_quote option \<Rightarrow> route_opts \<Rightarrow> swap_routing" where
  "routeSwap cr req offers exolix opts =
     (let (direct, skipped) = route_loop cr req opts offers [] [] [];
          srt = best_first direct;
          routes = (case backstop_of req exolix of
              Some q \<Rightarrow> map Direct (filter (\<lambda>d. dr_net d \<ge> xq_receive q) srt) @ Exolix q #
                        map Direct (filter (\<lambda>d. dr_net d < xq_receive q) srt)
            | None \<Rightarrow> map Direct srt)
      in \<lparr>sr_routes = routes, sr_chosen = (case routes of [] \<Rightarrow> None | r # _ \<Rightarrow> Some r), sr_skipped = skipped\<rparr>)"

section \<open>What the loop keeps\<close>

definition route_sound :: "swap_crypto \<Rightarrow> swap_request \<Rightarrow> route_opts \<Rightarrow> signed_offer list \<Rightarrow> direct_route \<Rightarrow> bool" where
  "route_sound cr req opts offers d =
     (dr_offer d \<in> set offers \<and> verifySwapOffer cr (dr_offer d) (ro_now opts) = Inr (dr_offer d) \<and>
      so_get (dr_offer d) = rq_from req \<and> so_give (dr_offer d) = rq_to req \<and>
      ro_self opts \<noteq> Some (so_maker (dr_offer d)) \<and> dr_pay d \<le> rq_pay req \<and>
      filled_of opts (dr_offer d) + dr_lock d \<le> units (so_maxGet (dr_offer d)) \<and>
      units (so_minGet (dr_offer d)) \<le> dr_lock d \<and>
      0 < dr_net d \<and> dr_net d = dr_receive d - ro_claimCost opts (rq_to req))"

lemma verify_ok: "verifySwapOffer cr raw now = Inr offer \<Longrightarrow> offer = raw \<and> wellFormed raw"
  by (auto simp: verifySwapOffer_def split: if_splits option.splits)

lemma price_offer_sound:
  assumes "price_offer req opts offer = Some d" and "wellFormed offer"
  shows "dr_offer d = offer" "dr_pay d \<le> rq_pay req"
    "filled_of opts offer + dr_lock d \<le> units (so_maxGet offer)"
    "units (so_minGet offer) \<le> dr_lock d" "0 < dr_net d"
    "dr_net d = dr_receive d - ro_claimCost opts (rq_to req)"
proof -
  define lock where "lock = lockWithin offer (rq_pay req) (\<lambda>pay. fillOffer offer pay (filled_of opts offer))"
  obtain gross where f: "fillOffer offer lock (filled_of opts offer) = Some gross"
    using assms(1) by (auto simp: price_offer_def Let_def lock_def split: option.splits)
  define totals where "totals = takerTotals (show_int lock) (show_int gross) (swapFee offer lock gross)"
  have d: "ro_claimCost opts (rq_to req) < tt_receives totals \<and>
      d = \<lparr>dr_offer = offer, dr_pay = tt_pays totals, dr_lock = lock, dr_receive = tt_receives totals,
           dr_fee = tt_fee totals, dr_net = tt_receives totals - ro_claimCost opts (rq_to req)\<rparr>"
    using assms(1) f
    by (simp add: price_offer_def Let_def lock_def [symmetric] totals_def [symmetric] split: if_splits)
  have "tt_pays totals \<le> rq_pay req"
    using lock_fee_bound [OF assms(2) lock_def f] by (simp add: totals_def)
  moreover have "units (so_minGet offer) \<le> lock" "lock \<le> units (so_maxGet offer) - filled_of opts offer"
    using f by (simp_all add: fillOffer_def split: if_splits)
  ultimately show "dr_offer d = offer" "dr_pay d \<le> rq_pay req"
    "filled_of opts offer + dr_lock d \<le> units (so_maxGet offer)"
    "units (so_minGet offer) \<le> dr_lock d" "0 < dr_net d"
    "dr_net d = dr_receive d - ro_claimCost opts (rq_to req)"
    using d by simp_all
qed

definition loop_inv ::
  "swap_crypto \<Rightarrow> swap_request \<Rightarrow> route_opts \<Rightarrow> signed_offer list \<Rightarrow> string list \<Rightarrow> direct_route list \<Rightarrow> bool" where
  "loop_inv cr req opts offers seen direct =
     (list_all (route_sound cr req opts offers) direct \<and> distinct (map (so_nonce \<circ> dr_offer) direct) \<and>
      list_all (\<lambda>d. so_nonce (dr_offer d) \<in> set seen) direct)"

lemma loop_inv_skip: "loop_inv cr req opts all seen direct \<Longrightarrow> loop_inv cr req opts all (n # seen) direct"
  by (simp add: loop_inv_def list_all_iff)

lemma loop_inv_add:
  assumes "loop_inv cr req opts all seen direct" and "raw \<in> set all"
    and v: "verifySwapOffer cr raw (ro_now opts) = Inr offer"
    and "so_nonce offer \<notin> set seen" "so_get offer = rq_from req" "so_give offer = rq_to req"
    and own: "\<not> (ro_self opts = Some (so_maker offer) \<and> so_maker offer \<noteq> [])"
    and p: "price_offer req opts offer = Some d"
  shows "loop_inv cr req opts all (so_nonce offer # seen) (direct @ [d])"
proof -
  have wf: "wellFormed offer" and r: "raw = offer" using verify_ok [OF v] by simp_all
  have "so_maker offer \<noteq> []" using wf by (auto simp: wellFormed_def is_pub_def)
  then have "ro_self opts \<noteq> Some (so_maker offer)" using own by blast
  then have s: "route_sound cr req opts all d"
    using price_offer_sound [OF p wf] assms(2,5,6) v unfolding r by (simp add: route_sound_def)
  have "dr_offer d = offer" by (rule price_offer_sound(1) [OF p wf])
  moreover have "so_nonce offer \<notin> set (map (so_nonce \<circ> dr_offer) direct)"
    using assms(1,4) by (auto simp: loop_inv_def list_all_iff)
  ultimately show ?thesis
    using assms(1) s by (simp add: loop_inv_def list_all_iff)
qed

lemma route_loop_sound:
  "loop_inv cr req opts all seen direct \<Longrightarrow> set offers \<subseteq> set all \<Longrightarrow>
   \<exists>seen'. loop_inv cr req opts all seen' (fst (route_loop cr req opts offers seen direct skipped))"
proof (induction offers arbitrary: seen direct skipped)
  case Nil
  then show ?case by auto
next
  case (Cons raw offers)
  then have raw: "raw \<in> set all" and sub: "set offers \<subseteq> set all" by simp_all
  note skip = Cons.IH [OF loop_inv_skip [OF Cons.prems(1)] sub] and same = Cons.IH [OF Cons.prems(1) sub]
  show ?case
  proof (cases "verifySwapOffer cr raw (ro_now opts)")
    case (Inl e)
    then show ?thesis using same by simp
  next
    case (Inr offer)
    show ?thesis
    proof (cases "so_nonce offer \<in> set seen \<or> so_get offer \<noteq> rq_from req \<or> so_give offer \<noteq> rq_to req
        \<or> (ro_self opts = Some (so_maker offer) \<and> so_maker offer \<noteq> []) \<or> price_offer req opts offer = None")
      case True
      then consider "so_nonce offer \<in> set seen"
        | "so_nonce offer \<notin> set seen" "so_get offer \<noteq> rq_from req \<or> so_give offer \<noteq> rq_to req"
        | "so_nonce offer \<notin> set seen" "so_get offer = rq_from req" "so_give offer = rq_to req"
          "ro_self opts = Some (so_maker offer) \<and> so_maker offer \<noteq> []"
        | "so_nonce offer \<notin> set seen" "so_get offer = rq_from req" "so_give offer = rq_to req"
          "\<not> (ro_self opts = Some (so_maker offer) \<and> so_maker offer \<noteq> [])" "price_offer req opts offer = None"
        by argo
      then show ?thesis
        by cases (use same skip Inr in simp_all)
    next
      case False
      then obtain d where d: "price_offer req opts offer = Some d" by auto
      have "loop_inv cr req opts all (so_nonce offer # seen) (direct @ [d])"
        by (rule loop_inv_add [OF Cons.prems(1) raw Inr _ _ _ _ d]) (use False in simp_all)
      moreover have "\<not> (ro_self opts = Some (so_maker offer) \<and> so_maker offer \<noteq> [])" using False by argo
      ultimately show ?thesis using Cons.IH [OF _ sub] Inr False d by (simp only: route_loop.simps sum.case option.case if_False) simp
    qed
  qed
qed

lemma set_best_first [simp]: "set (best_first ds) = set ds"
  by (simp add: best_first_def)

lemma best_first_sorted: "sorted_wrt (\<lambda>a b. dr_net b \<le> dr_net a) (best_first ds)"
proof -
  have "sorted (map (\<lambda>d. - dr_net d) (best_first ds))" by (simp add: best_first_def)
  then show ?thesis by (simp add: sorted_wrt_map)
qed

lemma routeSwap_routes:
  "sr_routes (routeSwap cr req offers exolix opts) =
     (let srt = best_first (fst (route_loop cr req opts offers [] [] [])) in
      case backstop_of req exolix of
        Some q \<Rightarrow> map Direct (filter (\<lambda>d. dr_net d \<ge> xq_receive q) srt) @ Exolix q #
                  map Direct (filter (\<lambda>d. dr_net d < xq_receive q) srt)
      | None \<Rightarrow> map Direct srt)"
  "sr_chosen (routeSwap cr req offers exolix opts) =
     (case sr_routes (routeSwap cr req offers exolix opts) of [] \<Rightarrow> None | r # _ \<Rightarrow> Some r)"
  by (simp_all add: routeSwap_def Let_def case_prod_unfold)

lemma routes_sorted:
  "sorted_wrt (\<lambda>a b. route_net b \<le> route_net a) (sr_routes (routeSwap cr req offers exolix opts))"
proof -
  have d: "sorted_wrt (\<lambda>a b. route_net b \<le> route_net a) (map Direct (filter P (best_first ds)))" for P ds
    using sorted_wrt_filter [OF best_first_sorted] by (simp add: sorted_wrt_map)
  have t: "sorted_wrt (\<lambda>a b. route_net b \<le> route_net a) (map Direct (best_first ds))" for ds
    using best_first_sorted by (simp add: sorted_wrt_map)
  show ?thesis
    unfolding routeSwap_routes
    by (cases "backstop_of req exolix") (auto simp: Let_def sorted_wrt_append d t)
qed

section \<open>Properties\<close>

text \<open>C11. The default route is the best one on what lands: no route nets more than the chosen
  one; when the Exolix quote answers the request, a direct swap is the default exactly when
  some direct route nets at least as much as Exolix pays, and there is always a route.\<close>

theorem chosen_route_is_best:
  "case sr_chosen (routeSwap cr req offers exolix opts) of
     None \<Rightarrow> sr_routes (routeSwap cr req offers exolix opts) = [] \<and> backstop_of req exolix = None
   | Some r \<Rightarrow> r \<in> set (sr_routes (routeSwap cr req offers exolix opts))
       \<and> list_all (\<lambda>r'. route_net r' \<le> route_net r) (sr_routes (routeSwap cr req offers exolix opts))
       \<and> (case backstop_of req exolix of None \<Rightarrow> True
          | Some q \<Rightarrow> (\<exists>d. r = Direct d) = list_ex (\<lambda>d. xq_receive q \<le> dr_net d) (fst (route_loop cr req opts offers [] [] [])))"
proof (cases "sr_routes (routeSwap cr req offers exolix opts)")
  case Nil
  then show ?thesis by (auto simp: routeSwap_routes Let_def split: option.splits)
next
  case (Cons r rs)
  have best: "list_all (\<lambda>r'. route_net r' \<le> route_net r) (r # rs)"
    using routes_sorted [of cr req offers exolix opts] unfolding Cons by (simp add: list_all_iff)
  have "(\<exists>d. r = Direct d) = list_ex (\<lambda>d. xq_receive q \<le> dr_net d) (fst (route_loop cr req opts offers [] [] []))"
    if q: "backstop_of req exolix = Some q" for q
  proof (cases "filter (\<lambda>d. dr_net d \<ge> xq_receive q) (best_first (fst (route_loop cr req opts offers [] [] [])))")
    case Nil
    then have "r = Exolix q" using Cons q by (simp add: routeSwap_routes Let_def)
    then show ?thesis using Nil by (auto simp: list_ex_iff filter_empty_conv)
  next
    case (Cons d ds)
    then have "r = Direct d" using \<open>sr_routes _ = r # rs\<close> q by (simp add: routeSwap_routes Let_def)
    moreover have "d \<in> set (filter (\<lambda>d. dr_net d \<ge> xq_receive q) (best_first (fst (route_loop cr req opts offers [] [] []))))"
      unfolding Cons by simp
    ultimately show ?thesis by (auto simp: list_ex_iff)
  qed
  then show ?thesis
    using best by (simp add: routeSwap_routes(2) Cons split: option.splits)
qed

text \<open>Every direct route offered to the user is sound: its offer was verified now, is of the
  asked pair and not the user's own, the wallet spends at most what was asked, the lock fits the
  offer's bounds and room, more lands than the claim costs, and no offer appears twice.\<close>

theorem direct_routes_are_sound:
  assumes "Direct d \<in> set (sr_routes (routeSwap cr req offers exolix opts))"
  shows "route_sound cr req opts offers d
    \<and> distinct (map (so_nonce \<circ> dr_offer) (fst (route_loop cr req opts offers [] [] [])))"
proof -
  have "loop_inv cr req opts offers [] []" by (simp add: loop_inv_def)
  then obtain seen where "loop_inv cr req opts offers seen (fst (route_loop cr req opts offers [] [] []))"
    using route_loop_sound [OF _ order_refl] by blast
  moreover have "d \<in> set (fst (route_loop cr req opts offers [] [] []))"
    using assms by (auto simp: routeSwap_routes Let_def split: option.splits)
  ultimately show ?thesis by (simp add: loop_inv_def list_all_iff)
qed

definition trusting :: swap_crypto where
  "trusting = \<lparr>sc_sha256 = (\<lambda>s. s), sc_verify = (\<lambda>_ _ _ _. Some True), sc_self_pub = (\<lambda>r k. r @ k),
     sc_child_pub = (\<lambda>r k c. r @ k @ c), sc_derive_pub = (\<lambda>r k c. c @ k @ r), sc_secret_hash = (\<lambda>r k. r @ k)\<rparr>"

definition sample_request :: swap_request where
  "sample_request = \<lparr>rq_from = ''bsv'', rq_to = ''ltc'', rq_pay = 3000000\<rparr>"

definition sample_opts :: route_opts where
  "sample_opts = \<lparr>ro_now = 2000, ro_self = None, ro_claimCost = DIRECT_CLAIM_COST, ro_filled = (\<lambda>_. None)\<rparr>"

lemma sample_route:
  "sr_routes (routeSwap trusting sample_request [sample_offer] None sample_opts) =
     [Direct \<lparr>dr_offer = sample_offer, dr_pay = 2999999, dr_lock = 2985074, dr_receive = 4477611, dr_fee = 14925,
        dr_net = 4476611\<rparr>]"
proof -
  have v: "verifySwapOffer trusting sample_offer 2000 = Inr sample_offer"
    using sample_offer_wf by (simp add: verifySwapOffer_def trusting_def MAX_SKEW_MS_def MAX_OFFER_TTL_MS_def)
      (simp add: sample_offer_def)
  have p: "price_offer sample_request sample_opts sample_offer = Some \<lparr>dr_offer = sample_offer, dr_pay = 2999999,
      dr_lock = 2985074, dr_receive = 4477611, dr_fee = 14925, dr_net = 4476611\<rparr>"
    by (simp add: price_offer_def filled_of_def sample_request_def sample_opts_def lockWithin_def feeLegOf_def fillOffer_def
        swapFee_def SWAP_FEE_BPS_def FEE_FLOOR_CLAIMS_def DIRECT_CLAIM_COST_def sample_offer_def sample_units Let_def takerTotals_def)
  show ?thesis
    by (simp add: routeSwap_routes backstop_of_def best_first_def sample_opts_def [THEN arg_cong, of ro_now] v p)
      (simp add: sample_opts_def sample_request_def sample_offer_def v p)
qed

lemma direct_routes_are_sound_witness:
  "\<exists>d. route_sound trusting sample_request sample_opts [sample_offer] d"
proof -
  have "Direct \<lparr>dr_offer = sample_offer, dr_pay = 2999999, dr_lock = 2985074, dr_receive = 4477611, dr_fee = 14925,
        dr_net = 4476611\<rparr> \<in> set (sr_routes (routeSwap trusting sample_request [sample_offer] None sample_opts))"
    by (simp add: sample_route)
  from direct_routes_are_sound [OF this] show ?thesis by blast
qed

end
