(* ===== verification/Swap_Settle.thy ===== *)
theory Swap_Settle
  imports Swap_Offer
begin

text \<open>
  The settlement of a direct swap (\<open>src/src/wallet/swap/settle.ts\<close>): the terms a taker
  proposes, the maker's check of them, the room a part-filled offer has left, and
  \<open>nextSettleStep\<close>, which picks the one next step of a swap from facts. Times are
  integers: Unix milliseconds for \<open>now\<close> and \<open>takenAt\<close>, seconds for lock times. Keys are the
  parameters of \<open>swap_crypto\<close>; the random swap id is an argument. Scripts and outputs
  (\<open>legOutputs\<close>, \<open>htlc.ts\<close>) and the message texts are not modelled.
\<close>

section \<open>Terms\<close>

datatype SwapTermsVersion = V1 | V2

record swap_windows =
  makerLock :: int
  takerLock :: int
  makerFundBeforeT2 :: int
  takerClaimBeforeT2 :: int

fun swapWindows :: "SwapTermsVersion \<Rightarrow> swap_windows" where
  "swapWindows V1 = \<lparr>makerLock = 12 * 3600, takerLock = 36 * 3600, makerFundBeforeT2 = 8 * 3600, takerClaimBeforeT2 = 3 * 3600\<rparr>"
| "swapWindows V2 = \<lparr>makerLock = 48 * 3600, takerLock = 72 * 3600, makerFundBeforeT2 = 20 * 3600, takerClaimBeforeT2 = 3 * 3600\<rparr>"

definition MAKER_LOCK_S :: int where "MAKER_LOCK_S = makerLock (swapWindows V2)"
definition TAKER_LOCK_S :: int where "TAKER_LOCK_S = takerLock (swapWindows V2)"
definition TAKER_FUND_WITHIN_S :: int where "TAKER_FUND_WITHIN_S = 3600"
definition BLOCK_TIME_LEEWAY_S :: int where "BLOCK_TIME_LEEWAY_S = 2 * 3600"
definition TAKE_SKEW_MS :: int where "TAKE_SKEW_MS = 5 * 60000"
definition ACCEPT_WAIT_MS :: int where "ACCEPT_WAIT_MS = 10 * 60000"

definition SECONDS :: "int \<Rightarrow> int" where "SECONDS ms = ms div 1000"

datatype SwapRole = Taker | Maker

record SwapTerms =
  st_v :: SwapTermsVersion
  st_swapId :: string
  st_offer :: signed_offer
  st_taker :: string
  st_pay :: string
  st_receive :: string
  st_fee :: "swap_fee option"
  st_hash :: string
  st_takerPub :: string
  st_makerPub :: "string option"
  st_takenAt :: int
  st_t1 :: int
  st_t2 :: int

record SwapLeg =
  sl_id :: SwapLegId
  sl_chain :: string
  sl_payer :: SwapRole
  sl_amount :: int
  sl_fee :: int
  sl_locktime :: int

record TakePreview =
  tp_totals :: taker_totals
  tp_feeLeg :: "SwapLegId option"
  tp_makerLockS :: int
  tp_takerLockS :: int

definition previewTake :: "signed_offer \<Rightarrow> int \<Rightarrow> TakePreview option" where
  "previewTake offer pay =
     (case fillOffer offer pay 0 of
        None \<Rightarrow> None
      | Some receive \<Rightarrow>
          (let fee = swapFee offer pay receive;
               totals = takerTotals (show_int pay) (show_int receive) fee
           in if tt_receives totals \<le> DIRECT_CLAIM_COST (so_give offer) then None
              else Some \<lparr>tp_totals = totals, tp_feeLeg = map_option sf_leg fee,
                         tp_makerLockS = MAKER_LOCK_S, tp_takerLockS = TAKER_LOCK_S\<rparr>))"

section \<open>Partial fills\<close>

datatype SettleOutcome = Swapped | Refunded | Declined | OutExpired | Missed | Unsent

definition RELEASES_ROOM :: "SettleOutcome \<Rightarrow> bool" where
  "RELEASES_ROOM oc = (oc = Declined \<or> oc = OutExpired)"

record settle_take =
  tk_terms :: SwapTerms
  tk_outcome :: "SettleOutcome option"

definition take_counts :: "signed_offer \<Rightarrow> ('a) settle_take_scheme \<Rightarrow> bool" where
  "take_counts offer t = (so_nonce (st_offer (tk_terms t)) = so_nonce offer \<and>
     \<not> (case tk_outcome t of Some oc \<Rightarrow> RELEASES_ROOM oc | None \<Rightarrow> False))"

definition taken_of :: "signed_offer \<Rightarrow> ('a) settle_take_scheme list \<Rightarrow> int" where
  "taken_of offer takes = foldl (\<lambda>sum t. sum + units (st_pay (tk_terms t))) 0 (filter (take_counts offer) takes)"

definition offerRemaining :: "signed_offer \<Rightarrow> ('a) settle_take_scheme list \<Rightarrow> int" where
  "offerRemaining offer takes =
     (let left = units (so_maxGet offer) - taken_of offer takes in if left > 0 then left else 0)"

definition takeFits :: "signed_offer \<Rightarrow> int \<Rightarrow> int \<Rightarrow> bool" where
  "takeFits offer remaining pay = (pay \<ge> units (so_minGet offer) \<and> pay \<le> remaining)"

datatype own_state = OwnOpen | OwnTaken | OwnCancelled

record OwnOffer =
  oo_offer :: signed_offer
  oo_state :: own_state
  oo_cancelledAt :: "int option"

datatype room_refusal = OfferUnknown | OfferState own_state | OfferCancelled | OfferFilled

definition judgeTakeRoom :: "OwnOffer option \<Rightarrow> ('a) settle_take_scheme list \<Rightarrow> SwapTerms \<Rightarrow> room_refusal + (int \<times> bool)" where
  "judgeTakeRoom own takes terms =
     (case own of
        None \<Rightarrow> Inl OfferUnknown
      | Some o' \<Rightarrow>
          if st_v terms = V1 \<and> oo_state o' \<noteq> OwnOpen then Inl (OfferState (oo_state o'))
          else if st_v terms = V2 \<and> (case oo_cancelledAt o' of Some c \<Rightarrow> c \<le> st_takenAt terms | None \<Rightarrow> False) then Inl OfferCancelled
          else (let remaining = offerRemaining (oo_offer o') takes in
            if \<not> takeFits (oo_offer o') remaining (units (st_pay terms)) then Inl OfferFilled
            else (let left = remaining - units (st_pay terms) in
              Inr (left, st_v terms = V1 \<or> left < units (so_minGet (oo_offer o'))))))"

section \<open>Legs\<close>

definition swapLegs :: "SwapTerms \<Rightarrow> SwapLeg \<times> SwapLeg" where
  "swapLegs terms =
     (let fee = (case st_fee terms of Some x \<Rightarrow> units (sf_amount x) | None \<Rightarrow> 0);
          onTaker = (map_option sf_leg (st_fee terms) = Some LegTaker)
      in (\<lparr>sl_id = LegTaker, sl_chain = so_get (st_offer terms), sl_payer = Taker, sl_amount = units (st_pay terms),
           sl_fee = (if onTaker then fee else 0), sl_locktime = st_t1 terms\<rparr>,
          \<lparr>sl_id = LegMaker, sl_chain = so_give (st_offer terms), sl_payer = Maker,
           sl_amount = units (st_receive terms) - (if onTaker then 0 else fee),
           sl_fee = (if onTaker then 0 else fee), sl_locktime = st_t2 terms\<rparr>))"

section \<open>The take\<close>

text \<open>\<open>settleKeyOf\<close> as the public key it derives.\<close>

definition settle_pub_of :: "swap_crypto \<Rightarrow> string \<Rightarrow> SwapTerms \<Rightarrow> SwapRole \<Rightarrow> string" where
  "settle_pub_of cr root terms role =
     (if role = Maker \<and> st_v terms = V2 then sc_child_pub cr root (st_swapId terms) (st_taker terms)
      else sc_self_pub cr root (st_swapId terms))"

definition agreedTerms :: "SwapTerms \<Rightarrow> string option \<Rightarrow> SwapTerms option" where
  "agreedTerms terms acceptedMakerPub =
     (case (if st_v terms = V2 then st_makerPub terms else acceptedMakerPub) of
        Some k \<Rightarrow> if k \<noteq> [] then Some (terms\<lparr>st_makerPub := Some k\<rparr>) else None
      | None \<Rightarrow> None)"

datatype TakeRefusal = TMalformed | WrongKey | TOffer | TOwnOffer | TOutOfBounds | WrongReceive | WrongFee | WrongTimes
  | Stale | NothingLeft

definition take_totals :: "SwapTerms \<Rightarrow> taker_totals" where
  "take_totals t = takerTotals (st_pay t) (st_receive t) (st_fee t)"

definition proposeTerms ::
  "swap_crypto \<Rightarrow> signed_offer \<Rightarrow> int \<Rightarrow> string \<Rightarrow> string \<Rightarrow> int \<Rightarrow> string \<Rightarrow> TakeRefusal + SwapTerms" where
  "proposeTerms cr offer pay identityKey root now swapId =
     (case verifySwapOffer cr offer now of
        Inl _ \<Rightarrow> Inl TOffer
      | Inr _ \<Rightarrow>
          if so_maker offer = identityKey then Inl TOwnOffer
          else (case fillOffer offer pay 0 of
              None \<Rightarrow> Inl TOutOfBounds
            | Some receive \<Rightarrow>
                (let w = swapWindows V2;
                     terms = \<lparr>st_v = V2, st_swapId = swapId, st_offer = offer, st_taker = identityKey,
                       st_pay = show_int pay, st_receive = show_int receive, st_fee = swapFee offer pay receive,
                       st_hash = sc_secret_hash cr root swapId, st_takerPub = sc_self_pub cr root swapId,
                       st_makerPub = Some (sc_derive_pub cr root swapId (so_maker offer)), st_takenAt = now,
                       st_t1 = SECONDS now + takerLock w, st_t2 = SECONDS now + makerLock w\<rparr>
                 in if tt_receives (take_totals terms) \<le> DIRECT_CLAIM_COST (so_give offer) then Inl NothingLeft
                    else Inr terms)))"

definition wellFormedTerms :: "SwapTerms \<Rightarrow> bool" where
  "wellFormedTerms t =
     ((st_v t = V1 \<or> st_v t = V2 \<and> (case st_makerPub t of Some k \<Rightarrow> is_pub k | None \<Rightarrow> False)) \<and>
      hex_of_len 32 (st_swapId t) \<and> is_pub (st_taker t) \<and> is_units (st_pay t) \<and> is_units (st_receive t) \<and>
      (case st_fee t of None \<Rightarrow> True | Some f \<Rightarrow> is_units (sf_amount f)) \<and>
      hex_of_len 64 (st_hash t) \<and> is_pub (st_takerPub t) \<and>
      is_safe_integer (st_takenAt t) \<and> is_safe_integer (st_t1 t) \<and> is_safe_integer (st_t2 t))"

definition checkTake :: "swap_crypto \<Rightarrow> SwapTerms \<Rightarrow> string \<Rightarrow> int \<Rightarrow> string option \<Rightarrow> TakeRefusal + SwapTerms" where
  "checkTake cr t maker now makerRoot =
     (if \<not> wellFormedTerms t then Inl TMalformed
      else (let w = swapWindows (st_v t) in
       case verifySwapOffer cr (st_offer t) (if st_v t = V2 then st_takenAt t else now) of
         Inl _ \<Rightarrow> Inl TOffer
       | Inr _ \<Rightarrow>
         if so_maker (st_offer t) \<noteq> maker then Inl TOffer
         else if st_taker t = maker then Inl TOwnOffer
         else (case fillOffer (st_offer t) (units (st_pay t)) 0 of
             None \<Rightarrow> Inl TOutOfBounds
           | Some receive \<Rightarrow>
             if show_int receive \<noteq> st_receive t then Inl WrongReceive
             else if swapFee (st_offer t) (units (st_pay t)) receive \<noteq> st_fee t then Inl WrongFee
             else if (if st_v t = V1 then \<bar>now - st_takenAt t\<bar> > TAKE_SKEW_MS else st_takenAt t > now + TAKE_SKEW_MS) then Inl Stale
             else if st_t1 t \<noteq> SECONDS (st_takenAt t) + takerLock w \<or> st_t2 t \<noteq> SECONDS (st_takenAt t) + makerLock w then Inl WrongTimes
             else if st_v t = V2 \<and> SECONDS now \<ge> st_t2 t - makerFundBeforeT2 w then Inl Stale
             else if st_v t = V2 \<and> (case makerRoot of Some r \<Rightarrow> Some (settle_pub_of cr r t Maker) \<noteq> st_makerPub t | None \<Rightarrow> False) then Inl WrongKey
             else if tt_receives (take_totals t) \<le> DIRECT_CLAIM_COST (so_give (st_offer t)) then Inl NothingLeft
             else Inr t)))"

definition takerLockSeenBy :: "SwapTerms \<Rightarrow> int" where
  "takerLockSeenBy terms = SECONDS (st_takenAt terms) + TAKER_FUND_WITHIN_S + BLOCK_TIME_LEEWAY_S"

definition takerLockTooLate :: "SwapTerms \<Rightarrow> int option \<Rightarrow> bool" where
  "takerLockTooLate terms blockTime =
     (if st_v terms \<noteq> V2 then False else case blockTime of None \<Rightarrow> False | Some b \<Rightarrow> b > takerLockSeenBy terms)"

section \<open>What to do next\<close>

record LegFacts =
  lf_funded :: bool
  lf_buried :: bool
  lf_claimed :: bool
  lf_refunded :: bool
  lf_presigned :: bool
  lf_feeUnspent :: bool
  lf_unsent :: bool
  lf_started :: bool

record SettleFacts =
  fa_role :: SwapRole
  fa_now :: int
  fa_accepted :: bool
  fa_declined :: bool
  fa_secretKnown :: bool
  fa_own :: LegFacts
  fa_peer :: LegFacts
  fa_ownOnBsv :: bool
  fa_peerChainTime :: "int option"

datatype SettleWait = WAccept | WPresign | WPeerFunding | WPeerBurial | WChainTime | WSecret | WLocktime

datatype SettleStep = SWait SettleWait "int option" | SRequestPresign | SFund | SClaim | SRefund | SRefundFee
  | SDone SettleOutcome

definition own_lock :: "SwapTerms \<Rightarrow> SettleFacts \<Rightarrow> int" where
  "own_lock terms f = (if fa_role f = Taker then st_t1 terms else st_t2 terms)"

definition refundOrWait :: "SwapTerms \<Rightarrow> SettleFacts \<Rightarrow> SettleStep" where
  "refundOrWait terms f =
     (if lf_refunded (fa_own f) then SDone Refunded
      else if SECONDS (fa_now f) \<ge> own_lock terms f then SRefund
      else SWait WLocktime (Some (own_lock terms f * 1000)))"

text \<open>The taker's branch, and the maker's.\<close>

definition taker_step :: "SwapTerms \<Rightarrow> SettleFacts \<Rightarrow> SettleStep" where
  "taker_step terms f =
     (let now = fa_now f; nowS = SECONDS now; w = swapWindows (st_v terms); own = fa_own f; peer = fa_peer f;
          presigns = (st_v terms = V1 \<and> fa_ownOnBsv f); claimBy = st_t2 terms - takerClaimBeforeT2 w
      in if st_v terms = V1 \<and> \<not> fa_accepted f then
           (if now - st_takenAt terms > ACCEPT_WAIT_MS then SDone OutExpired else SWait WAccept None)
         else if \<not> lf_funded own then
           (if nowS > SECONDS (st_takenAt terms) + TAKER_FUND_WITHIN_S then SDone OutExpired
            else if presigns \<and> \<not> lf_presigned own then SRequestPresign
            else SFund)
         else if nowS \<ge> claimBy \<or> (case fa_peerChainTime f of Some t \<Rightarrow> t | None \<Rightarrow> 0) \<ge> claimBy then refundOrWait terms f
         else if \<not> lf_funded peer \<and> fa_declined f then refundOrWait terms f
         else if \<not> lf_funded peer then SWait WPeerFunding (Some ((st_t2 terms - makerFundBeforeT2 w) * 1000))
         else if \<not> lf_buried peer then SWait WPeerBurial (Some (claimBy * 1000))
         else if fa_peerChainTime f = None then SWait WChainTime (Some (claimBy * 1000))
         else SClaim)"

definition maker_step :: "SwapTerms \<Rightarrow> SettleFacts \<Rightarrow> SettleStep" where
  "maker_step terms f =
     (let nowS = SECONDS (fa_now f); w = swapWindows (st_v terms); own = fa_own f; peer = fa_peer f;
          presigns = (st_v terms = V1 \<and> fa_ownOnBsv f); fundBy = st_t2 terms - makerFundBeforeT2 w
      in if \<not> lf_funded own then
           (if nowS \<ge> fundBy then SDone OutExpired
            else if \<not> lf_funded peer then
              (if nowS > takerLockSeenBy terms then SDone OutExpired else SWait WPeerFunding (Some (takerLockSeenBy terms * 1000)))
            else if \<not> lf_buried peer then SWait WPeerBurial (Some (fundBy * 1000))
            else if presigns \<and> \<not> lf_presigned own then SRequestPresign
            else SFund)
         else if fa_secretKnown f then (if lf_refunded peer then SDone Missed else SClaim)
         else if lf_refunded own then SDone Refunded
         else if nowS \<ge> own_lock terms f then SRefund
         else SWait WSecret (Some (own_lock terms f * 1000)))"

definition nextSettleStep :: "SwapTerms \<Rightarrow> SettleFacts \<Rightarrow> SettleStep" where
  "nextSettleStep terms f =
     (let nowS = SECONDS (fa_now f); own = fa_own f; peer = fa_peer f in
      if lf_claimed peer then
        (if \<not> lf_feeUnspent own then SDone Swapped
         else if nowS \<ge> own_lock terms f then SRefundFee
         else SWait WLocktime (Some (own_lock terms f * 1000)))
      else if lf_funded own \<and> lf_unsent own then SDone Unsent
      else if lf_started own \<and> \<not> lf_funded own then SFund
      else if fa_declined f \<and> \<not> lf_funded own then SDone Declined
      else if fa_role f = Taker then taker_step terms f
      else maker_step terms f)"

section \<open>Signing a lock\<close>

text \<open>
  \<open>fund\<close> (\<open>swap/settleSteps.ts\<close>) on a coin chain. \<open>cl_locks\<close> are the payments of the coin wallet
  that carry a lock, as transaction and swap id; \<open>cl_started\<close> and \<open>cl_funding\<close> are the record's
  \<open>own.fundingStartedAt\<close> and \<open>own.funding\<close>. The wallet's \<open>fundLocks\<close> is an argument: it sends the
  lock, or throws, with the lock already signed and held in its record or without.
\<close>

record coin_leg =
  cl_locks :: "(string \<times> string) list"
  cl_started :: "int option"
  cl_funding :: "string option"

datatype lock_reply = LockSent string | LockThrown "string option"

datatype fund_end = FundDone string | FundThrows

definition fund_coin :: "string \<Rightarrow> int \<Rightarrow> lock_reply \<Rightarrow> coin_leg \<Rightarrow> coin_leg \<times> fund_end" where
  "fund_coin swapId now reply c =
     (case find (\<lambda>p. snd p = swapId) (cl_locks c) of
        Some already \<Rightarrow> (c\<lparr>cl_funding := Some (fst already)\<rparr>, FundDone (fst already))
      | None \<Rightarrow>
          if cl_started c \<noteq> None then (c\<lparr>cl_started := None\<rparr>, FundThrows)
          else (case reply of
              LockSent txid \<Rightarrow> (c\<lparr>cl_started := Some now, cl_locks := cl_locks c @ [(txid, swapId)], cl_funding := Some txid\<rparr>, FundDone txid)
            | LockThrown (Some txid) \<Rightarrow> (c\<lparr>cl_started := Some now, cl_locks := cl_locks c @ [(txid, swapId)]\<rparr>, FundThrows)
            | LockThrown None \<Rightarrow> (c\<lparr>cl_started := None\<rparr>, FundThrows)))"

lemma fund_resumes: "cl_started c \<noteq> None \<Longrightarrow> cl_locks (fst (fund_coin i now reply c)) = cl_locks c"
  by (simp add: fund_coin_def split: option.split)

text \<open>However often a swap is funded, the coin wallet signs at most one lock for it.\<close>

lemma fund_signs_once:
  assumes "length (filter (\<lambda>p. snd p = i) (cl_locks c)) \<le> 1"
  shows "length (filter (\<lambda>p. snd p = i) (cl_locks (fst (fund_coin j now reply c)))) \<le> 1"
proof (cases "find (\<lambda>p. snd p = j) (cl_locks c)")
  case None
  then have "filter (\<lambda>p. snd p = j) (cl_locks c) = []" by (auto simp: find_None_iff filter_empty_conv)
  then show ?thesis using assms None by (auto simp: fund_coin_def split: lock_reply.split option.split)
qed (use assms in \<open>simp add: fund_coin_def\<close>)

section \<open>What a step says about the facts\<close>

lemmas step_defs = nextSettleStep_def taker_step_def maker_step_def refundOrWait_def Let_def

lemma unlocked_only_ends:
  "\<not> lf_funded (fa_own f) \<Longrightarrow> \<not> lf_claimed (fa_peer f) \<Longrightarrow>
   nextSettleStep terms f \<in> {SFund, SRequestPresign, SDone Declined, SDone OutExpired}
     \<or> (\<exists>w u. nextSettleStep terms f = SWait w u)"
  by (cases "fa_role f") (simp_all add: step_defs)

lemma locked_steps:
  assumes "lf_funded (fa_own f)" and "st_v terms = V1 \<Longrightarrow> fa_accepted f"
  shows "nextSettleStep terms f \<in> {SClaim, SRefund, SRefundFee, SDone Swapped, SDone Refunded, SDone Missed, SDone Unsent}
     \<or> (\<exists>w u. nextSettleStep terms f = SWait w u)"
  using assms by (cases "fa_role f"; cases "st_v terms") (simp_all add: step_defs)

lemma maker_fund_window:
  assumes "nextSettleStep terms f = SFund" and "fa_role f = Maker" and "\<not> lf_started (fa_own f)"
  shows "\<not> lf_funded (fa_own f) \<and> lf_funded (fa_peer f) \<and> lf_buried (fa_peer f)
    \<and> SECONDS (fa_now f) < st_t2 terms - makerFundBeforeT2 (swapWindows (st_v terms))"
  using assms by (simp add: step_defs split: if_splits)

lemma taker_fund_window:
  assumes "nextSettleStep terms f = SFund" and "fa_role f = Taker" and "\<not> lf_started (fa_own f)"
  shows "\<not> lf_funded (fa_own f) \<and> SECONDS (fa_now f) \<le> SECONDS (st_takenAt terms) + TAKER_FUND_WITHIN_S"
  using assms by (simp add: step_defs split: if_splits)

lemma taker_claim_window:
  assumes "nextSettleStep terms f = SClaim" and "fa_role f = Taker"
  shows "lf_funded (fa_own f) \<and> lf_funded (fa_peer f) \<and> lf_buried (fa_peer f) \<and> \<not> lf_claimed (fa_peer f)
    \<and> (\<exists>t. fa_peerChainTime f = Some t \<and> t < st_t2 terms - takerClaimBeforeT2 (swapWindows (st_v terms)))
    \<and> SECONDS (fa_now f) < st_t2 terms - takerClaimBeforeT2 (swapWindows (st_v terms))"
  using assms by (auto simp: step_defs split: if_splits option.splits)

lemma maker_claim_facts:
  assumes "nextSettleStep terms f = SClaim" and "fa_role f = Maker"
  shows "lf_funded (fa_own f) \<and> fa_secretKnown f \<and> \<not> lf_refunded (fa_peer f) \<and> \<not> lf_claimed (fa_peer f)"
  using assms by (simp add: step_defs split: if_splits)

lemma refund_facts:
  assumes "nextSettleStep terms f = SRefund"
  shows "lf_funded (fa_own f) \<and> \<not> lf_refunded (fa_own f) \<and> \<not> lf_claimed (fa_peer f) \<and> own_lock terms f \<le> SECONDS (fa_now f)
    \<and> (fa_role f = Maker \<longrightarrow> \<not> fa_secretKnown f)"
  using assms by (cases "fa_role f") (simp_all add: step_defs split: if_splits)

lemma refund_fee_facts:
  assumes "nextSettleStep terms f = SRefundFee"
  shows "lf_claimed (fa_peer f) \<and> lf_feeUnspent (fa_own f) \<and> own_lock terms f \<le> SECONDS (fa_now f)"
  using assms by (cases "fa_role f") (simp_all add: step_defs split: if_splits)

text \<open>What each end of a swap stands for.\<close>

definition done_facts :: "SwapTerms \<Rightarrow> SettleFacts \<Rightarrow> SettleOutcome \<Rightarrow> bool" where
  "done_facts terms f oc = (case oc of
       Swapped \<Rightarrow> lf_claimed (fa_peer f) \<and> \<not> lf_feeUnspent (fa_own f)
     | Refunded \<Rightarrow> lf_funded (fa_own f) \<and> lf_refunded (fa_own f) \<and> \<not> lf_claimed (fa_peer f)
     | Declined \<Rightarrow> fa_declined f \<and> \<not> lf_funded (fa_own f) \<and> \<not> lf_started (fa_own f)
     | OutExpired \<Rightarrow> \<not> lf_started (fa_own f) \<and> \<not> lf_funded (fa_own f) \<or> st_v terms = V1 \<and> fa_role f = Taker \<and> \<not> fa_accepted f
     | Missed \<Rightarrow> fa_role f = Maker \<and> lf_funded (fa_own f) \<and> fa_secretKnown f \<and> lf_refunded (fa_peer f) \<and> \<not> lf_claimed (fa_peer f)
     | Unsent \<Rightarrow> lf_funded (fa_own f) \<and> lf_unsent (fa_own f) \<and> \<not> lf_claimed (fa_peer f))"

lemma done_step_facts: "nextSettleStep terms f = SDone oc \<Longrightarrow> done_facts terms f oc"
  by (cases "fa_role f"; cases oc) (simp_all add: step_defs done_facts_def split: if_splits)

section \<open>Shapes of amounts\<close>

lemma foldl_digits_bound: "list_all js_digit ds \<Longrightarrow> foldl (\<lambda>a c. 10 * a + digit_val c) a ds < (a + 1) * 10 ^ List.length ds"
proof (induction ds arbitrary: a)
  case (Cons d ds)
  have "js_digit d" using Cons.prems by simp
  then have "digit_val d \<le> 9" unfolding js_digit_def digit_val_def Let_def by linarith
  then have "10 * a + digit_val d + 1 \<le> (a + 1) * 10" by simp
  then have "(10 * a + digit_val d + 1) * 10 ^ List.length ds \<le> (a + 1) * 10 * 10 ^ List.length ds" by (rule mult_le_mono1)
  with Cons.IH [of "10 * a + digit_val d"] Cons.prems
  have "foldl (\<lambda>a c. 10 * a + digit_val c) (10 * a + digit_val d) ds < (a + 1) * 10 * 10 ^ List.length ds"
    by (auto intro: order_less_le_trans)
  then show ?case by (simp add: algebra_simps)
qed simp

lemma is_units_bound:
  assumes "is_units s"
  shows "units s < 10 ^ 18"
proof -
  obtain c ds where s: "s = c # ds" "list_all js_digit s" "List.length ds \<le> 17"
    using assms by (auto simp: is_units_def split: list.splits)
  have "nat_of_digits s < 10 ^ List.length s"
    using foldl_digits_bound [OF s(2), of 0] by (simp add: nat_of_digits_def)
  also have "\<dots> \<le> 10 ^ 18" using s by (intro power_increasing) simp_all
  finally show ?thesis unfolding units_def by (metis of_nat_less_iff of_nat_numeral of_nat_power)
qed

lemma swap_asset_cost: "isSwapAsset a \<Longrightarrow> 0 < DIRECT_CLAIM_COST a"
  by (auto simp: isSwapAsset_def SWAP_ASSETS_def DIRECT_CLAIM_COST_def)

lemma fee_units:
  assumes w: "wellFormed offer" and f: "swapFee offer pay receive = Some x"
    and "0 < pay" "pay < 10 ^ 18" "0 \<le> receive" "receive < 10 ^ 18"
  shows "is_units (sf_amount x)"
proof -
  define base where "base = (if feeLegOf offer = LegTaker then pay else receive)"
  have b: "0 \<le> base" "base < 10 ^ 18" using assms(3-6) by (simp_all add: base_def)
  define chain where "chain = (if feeLegOf offer = LegTaker then so_get offer else so_give offer)"
  have c: "0 < DIRECT_CLAIM_COST chain"
    using w by (simp add: chain_def wellFormed_def swap_asset_cost)
  have x: "sf_amount x = show_int ((base * 50) div 10000)" "\<not> (base * 50) div 10000 < DIRECT_CLAIM_COST chain * 10"
    using f by (auto simp: swapFee_def Let_def SWAP_FEE_BPS_def FEE_FLOOR_CLAIMS_def base_def chain_def split: if_splits)
  have "0 < (base * 50) div 10000" using x(2) c by linarith
  moreover have "(base * 50) div 10000 < 10 ^ 18" using b by simp
  ultimately show ?thesis unfolding x(1) by (rule is_units_show)
qed

section \<open>Properties of terms and steps\<close>

text \<open>C12. What an honest taker proposes, an honest maker accepts: when both derive the same key
  for the maker (BRC-42), the keys have their shape and the take reaches the maker while it may
  still fund, \<open>checkTake\<close> accepts the terms of \<open>proposeTerms\<close> unchanged.\<close>

theorem proposed_terms_pass_the_makers_check:
  assumes p: "proposeTerms cr offer pay me root now swapId = Inr t"
    and keys: "hex_of_len 32 swapId" "is_pub me" "is_pub (sc_self_pub cr root swapId)"
      "is_pub (sc_derive_pub cr root swapId (so_maker offer))" "hex_of_len 64 (sc_secret_hash cr root swapId)"
    and brc42: "sc_child_pub cr makerRoot swapId me = sc_derive_pub cr root swapId (so_maker offer)"
    and times: "is_safe_integer now" "\<bar>now\<bar> \<le> 2 ^ 52" "now \<le> makerNow + TAKE_SKEW_MS"
      "SECONDS makerNow < SECONDS now + MAKER_LOCK_S - makerFundBeforeT2 (swapWindows V2)"
    and size: "units (st_receive t) < 10 ^ 18"
  shows "checkTake cr t (so_maker offer) makerNow (Some makerRoot) = Inr t"
proof -
  obtain v where v: "verifySwapOffer cr offer now = Inr v" and other: "so_maker offer \<noteq> me"
    using p by (auto simp: proposeTerms_def split: sum.splits if_splits)
  obtain r where r: "fillOffer offer pay 0 = Some r"
    using p v other by (auto simp: proposeTerms_def split: option.splits)
  define w where "w = swapWindows V2"
  have t: "t = \<lparr>st_v = V2, st_swapId = swapId, st_offer = offer, st_taker = me,
       st_pay = show_int pay, st_receive = show_int r, st_fee = swapFee offer pay r,
       st_hash = sc_secret_hash cr root swapId, st_takerPub = sc_self_pub cr root swapId,
       st_makerPub = Some (sc_derive_pub cr root swapId (so_maker offer)), st_takenAt = now,
       st_t1 = SECONDS now + takerLock w, st_t2 = SECONDS now + makerLock w\<rparr>"
    and left: "\<not> tt_receives (take_totals t) \<le> DIRECT_CLAIM_COST (so_give offer)"
    using p v other r by (auto simp: proposeTerms_def Let_def w_def split: if_splits)
  have wf: "wellFormed offer"
    using v by (auto simp: verifySwapOffer_def split: if_splits)
  have pay: "0 < pay" "0 \<le> r" "pay \<le> units (so_maxGet offer)" using fill_bounds [OF wf r] by simp_all
  have pay18: "pay < 10 ^ 18" using pay(3) is_units_bound [of "so_maxGet offer"] wf by (simp add: wellFormed_def)
  have rec: "units (st_receive t) = r" using pay(2) t by simp
  have "tt_receives (take_totals t) \<le> r"
    unfolding take_totals_def takerTotals_def Let_def rec by (simp split: option.split)
  then have r18: "r < 10 ^ 18" "0 < r"
    using size rec left DIRECT_CLAIM_COST_nonneg [of "so_give offer"] by linarith+
  have up: "units (st_pay t) = pay" "is_units (st_pay t)" "is_units (st_receive t)"
    using pay pay18 r18 t by (simp_all add: is_units_show)
  have fee: "case st_fee t of None \<Rightarrow> True | Some f \<Rightarrow> is_units (sf_amount f)"
    using fee_units [OF wf _ pay(1) pay18 pay(2) r18(1)] t by (simp split: option.split)
  have safe: "is_safe_integer (st_t1 t)" "is_safe_integer (st_t2 t)"
    using times(2) t by (simp_all add: is_safe_integer_def SECONDS_def w_def abs_le_iff) linarith+
  have wft: "wellFormedTerms t"
    using keys times(1) up(2,3) fee safe t by (simp add: wellFormedTerms_def)
  have "settle_pub_of cr makerRoot t Maker = sc_derive_pub cr root swapId (so_maker offer)"
    using brc42 t by (simp add: settle_pub_of_def)
  then show ?thesis
    using wft v other r up(1) left times(3,4) t
    by (simp add: checkTake_def Let_def w_def MAKER_LOCK_S_def)
qed

text \<open>A stand-in for the key derivations, by which the two parties' keys agree.\<close>

definition sample_keys :: swap_crypto where
  "sample_keys = \<lparr>sc_sha256 = (\<lambda>s. s), sc_verify = (\<lambda>_ _ _ _. Some True), sc_self_pub = (\<lambda>r k. ''02'' @ k @ k),
     sc_child_pub = (\<lambda>r k c. ''03'' @ k @ k), sc_derive_pub = (\<lambda>r k c. ''03'' @ k @ k),
     sc_secret_hash = (\<lambda>r k. k @ k)\<rparr>"

definition sample_id :: string where "sample_id = replicate 32 CHR ''e''"
definition sample_taker :: string where "sample_taker = ''03'' @ replicate 64 CHR ''d''"

definition sample_terms :: SwapTerms where
  "sample_terms = \<lparr>st_v = V2, st_swapId = sample_id, st_offer = sample_offer, st_taker = sample_taker,
     st_pay = show_int 1000000, st_receive = show_int 1500000,
     st_fee = Some \<lparr>sf_leg = LegTaker, sf_amount = show_int 5000\<rparr>,
     st_hash = sample_id @ sample_id, st_takerPub = ''02'' @ sample_id @ sample_id,
     st_makerPub = Some (''03'' @ sample_id @ sample_id), st_takenAt = 2000,
     st_t1 = 2 + 72 * 3600, st_t2 = 2 + 48 * 3600\<rparr>"

lemma sample_offer_parts [simp]: "so_maker sample_offer = ''02'' @ replicate 64 CHR ''a''" "so_give sample_offer = ''ltc''"
  "so_get sample_offer = ''bsv''" "so_createdAt sample_offer = 1000" "so_expiresAt sample_offer = 80000000"
  by (simp_all add: sample_offer_def)

lemma sample_fill: "fillOffer sample_offer 1000000 0 = Some 1500000"
  "swapFee sample_offer 1000000 1500000 = Some \<lparr>sf_leg = LegTaker, sf_amount = show_int 5000\<rparr>"
  by (simp_all add: fillOffer_def swapFee_def feeLegOf_def SWAP_FEE_BPS_def FEE_FLOOR_CLAIMS_def DIRECT_CLAIM_COST_def
      sample_offer_def sample_units Let_def)

lemma sample_proposal:
  "proposeTerms sample_keys sample_offer 1000000 sample_taker [] 2000 sample_id = Inr sample_terms"
proof -
  have v: "verifySwapOffer sample_keys sample_offer 2000 = Inr sample_offer"
    using sample_offer_wf by (simp add: verifySwapOffer_def sample_keys_def MAX_SKEW_MS_def MAX_OFFER_TTL_MS_def)
  have k: "sc_secret_hash sample_keys r k = k @ k" "sc_self_pub sample_keys r k = ''02'' @ k @ k"
    "sc_derive_pub sample_keys r k c = ''03'' @ k @ k" for r k c by (simp_all add: sample_keys_def)
  have "so_maker sample_offer \<noteq> sample_taker" by (simp add: sample_taker_def)
  moreover have "tt_receives (take_totals sample_terms) = 1500000"
    by (simp add: take_totals_def takerTotals_def sample_terms_def)
  moreover have "\<not> 1500000 \<le> DIRECT_CLAIM_COST ''ltc''" by (simp add: DIRECT_CLAIM_COST_def)
  ultimately show ?thesis
    using v sample_fill k
    by (simp add: proposeTerms_def Let_def sample_terms_def SECONDS_def)
qed

lemma proposed_terms_pass_the_makers_check_witness:
  "checkTake sample_keys sample_terms (so_maker sample_offer) 36002000 (Some []) = Inr sample_terms"
proof (rule proposed_terms_pass_the_makers_check [OF sample_proposal])
  show "hex_of_len 32 sample_id" "is_pub sample_taker" "is_pub (sc_self_pub sample_keys [] sample_id)"
    "is_pub (sc_derive_pub sample_keys [] sample_id (so_maker sample_offer))"
    "hex_of_len 64 (sc_secret_hash sample_keys [] sample_id)"
    by (simp_all add: sample_id_def sample_taker_def sample_keys_def is_pub_def hex_of_len_def js_hex_def js_digit_def Let_def list_all_iff)
  show "sc_child_pub sample_keys [] sample_id sample_taker = sc_derive_pub sample_keys [] sample_id (so_maker sample_offer)"
    by (simp add: sample_keys_def)
  show "is_safe_integer 2000" "\<bar>2000\<bar> \<le> (2 ^ 52 :: int)" "2000 \<le> 36002000 + TAKE_SKEW_MS"
    "SECONDS 36002000 < SECONDS 2000 + MAKER_LOCK_S - makerFundBeforeT2 (swapWindows V2)"
    by (simp_all add: is_safe_integer_def TAKE_SKEW_MS_def SECONDS_def MAKER_LOCK_S_def)
  show "units (st_receive sample_terms) < 10 ^ 18" by (simp add: sample_terms_def)
qed

text \<open>The window a lock is signed in: a taker within the hour of its take, a maker against a buried
  taker lock and 20 hours (v1: 8) before its own lock time.\<close>

definition lock_window :: "SwapTerms \<Rightarrow> SettleFacts \<Rightarrow> bool" where
  "lock_window terms f = (case fa_role f of
       Taker \<Rightarrow> SECONDS (fa_now f) \<le> SECONDS (st_takenAt terms) + 3600
     | Maker \<Rightarrow> lf_funded (fa_peer f) \<and> lf_buried (fa_peer f) \<and>
         SECONDS (fa_now f) < st_t2 terms - (case st_v terms of V1 \<Rightarrow> 8 * 3600 | V2 \<Rightarrow> 20 * 3600))"

lemma fund_window:
  assumes "nextSettleStep terms f = SFund" and "\<not> lf_started (fa_own f)"
  shows "lock_window terms f"
  using maker_fund_window [OF assms(1) _ assms(2)] taker_fund_window [OF assms(1) _ assms(2)]
  by (cases "fa_role f"; cases "st_v terms") (simp_all add: lock_window_def TAKER_FUND_WITHIN_S_def)

lemma presign_window:
  assumes "nextSettleStep terms f = SRequestPresign"
  shows "\<not> lf_funded (fa_own f) \<and> \<not> lf_started (fa_own f) \<and> st_v terms = V1 \<and> fa_ownOnBsv f \<and>
    \<not> lf_presigned (fa_own f) \<and> lock_window terms f"
  using assms
  by (cases "fa_role f"; cases "st_v terms") (simp_all add: step_defs lock_window_def TAKER_FUND_WITHIN_S_def split: if_splits)

text \<open>C13. Coins move only inside their windows. A new lock is signed only within the hour of the
  take (taker), or against a buried taker lock and 20 hours (v1: 8) before the own lock time (maker);
  refund co-signatures are asked for only there too. A lock that was begun earlier is resumed at any
  time, and resuming it signs nothing. A taker claims only a buried maker lock, with the device
  clock and the chain's clock both more than 3 hours before the maker may refund; a maker claims
  only with the secret. A refund waits for the own lock time, and so does the refund of the fee,
  which comes only after the claim. Each end of a swap states the facts it stands for, and a v2
  swap with coins locked never ends declined or expired. The one hypothesis is how \<open>gather\<close> reads
  \<open>started\<close> off the record.\<close>

theorem coins_move_only_in_their_windows:
  assumes "lf_started (fa_own f) = (cl_funding c = None \<and> cl_started c \<noteq> None)"
  shows "case nextSettleStep terms f of
     SFund \<Rightarrow> \<not> lf_funded (fa_own f) \<and> \<not> lf_claimed (fa_peer f) \<and>
       (if lf_started (fa_own f) then cl_locks (fst (fund_coin (st_swapId terms) (fa_now f) reply c)) = cl_locks c
        else lock_window terms f)
   | SRequestPresign \<Rightarrow> \<not> lf_funded (fa_own f) \<and> \<not> lf_started (fa_own f) \<and> st_v terms = V1 \<and> fa_ownOnBsv f \<and>
       \<not> lf_presigned (fa_own f) \<and> lock_window terms f
   | SClaim \<Rightarrow> lf_funded (fa_own f) \<and> \<not> lf_claimed (fa_peer f) \<and> (case fa_role f of
         Taker \<Rightarrow> lf_funded (fa_peer f) \<and> lf_buried (fa_peer f) \<and>
           SECONDS (fa_now f) < st_t2 terms - takerClaimBeforeT2 (swapWindows (st_v terms)) \<and>
           (case fa_peerChainTime f of None \<Rightarrow> False
            | Some t \<Rightarrow> t < st_t2 terms - takerClaimBeforeT2 (swapWindows (st_v terms)))
       | Maker \<Rightarrow> fa_secretKnown f \<and> \<not> lf_refunded (fa_peer f))
   | SRefund \<Rightarrow> lf_funded (fa_own f) \<and> \<not> lf_refunded (fa_own f) \<and> \<not> lf_claimed (fa_peer f) \<and>
       own_lock terms f \<le> SECONDS (fa_now f) \<and> (case fa_role f of Taker \<Rightarrow> True | Maker \<Rightarrow> \<not> fa_secretKnown f)
   | SRefundFee \<Rightarrow> lf_claimed (fa_peer f) \<and> lf_feeUnspent (fa_own f) \<and> own_lock terms f \<le> SECONDS (fa_now f)
   | SDone oc \<Rightarrow> done_facts terms f oc
   | SWait w u \<Rightarrow> True"
proof (cases "nextSettleStep terms f")
  case SFund
  have "\<not> lf_funded (fa_own f) \<and> \<not> lf_claimed (fa_peer f)"
    using SFund by (cases "fa_role f") (simp_all add: step_defs split: if_splits)
  then show ?thesis
    using SFund fund_window [OF SFund] fund_resumes [of c] assms by simp
next
  case SRequestPresign
  then show ?thesis using presign_window [OF SRequestPresign] by simp
next
  case SClaim
  then show ?thesis
    using taker_claim_window [OF SClaim] maker_claim_facts [OF SClaim] by (cases "fa_role f") auto
next
  case SRefund
  then show ?thesis using refund_facts [OF SRefund] by (cases "fa_role f") simp_all
next
  case SRefundFee
  then show ?thesis using refund_fee_facts [OF SRefundFee] by simp
next
  case (SDone oc)
  then show ?thesis using done_step_facts [OF SDone] by simp
qed simp

text \<open>C14. Past its own lock time a swap with coins locked never waits: its one step is a claim, a
  refund, the refund of an unclaimed fee, or the end that says where the coins went.\<close>

theorem locked_coins_never_wait_past_locktime:
  assumes "lf_funded (fa_own f)" and "\<not> lf_unsent (fa_own f)" and "st_v terms = V2 \<or> fa_accepted f"
    and "st_t2 terms \<le> st_t1 terms" and "own_lock terms f \<le> SECONDS (fa_now f)"
  shows "nextSettleStep terms f =
    (if lf_claimed (fa_peer f) then (if lf_feeUnspent (fa_own f) then SRefundFee else SDone Swapped)
     else if fa_role f = Maker \<and> fa_secretKnown f then (if lf_refunded (fa_peer f) then SDone Missed else SClaim)
     else if lf_refunded (fa_own f) then SDone Refunded else SRefund)"
proof (cases "fa_role f")
  case Taker
  have "st_t2 terms - takerClaimBeforeT2 (swapWindows (st_v terms)) \<le> SECONDS (fa_now f)"
    using assms(4,5) Taker by (cases "st_v terms") (simp_all add: own_lock_def)
  then show ?thesis using assms Taker by (auto simp: step_defs)
next
  case Maker
  then show ?thesis using assms by (simp add: step_defs)
qed

definition moved_leg :: LegFacts where
  "moved_leg = \<lparr>lf_funded = True, lf_buried = True, lf_claimed = False, lf_refunded = False, lf_presigned = False,
     lf_feeUnspent = True, lf_unsent = False, lf_started = False\<rparr>"

lemma coins_move_only_in_their_windows_witness:
  "nextSettleStep sample_terms \<lparr>fa_role = Taker, fa_now = 1000 * (2 + 72 * 3600), fa_accepted = True, fa_declined = False,
     fa_secretKnown = True, fa_own = moved_leg, fa_peer = moved_leg\<lparr>lf_claimed := True\<rparr>, fa_ownOnBsv = True,
     fa_peerChainTime = None\<rparr> = SRefundFee \<and> 2 + 72 * 3600 \<le> SECONDS (1000 * (2 + 72 * 3600))"
proof -
  define f where "f = \<lparr>fa_role = Taker, fa_now = 1000 * (2 + 72 * 3600), fa_accepted = True, fa_declined = False,
     fa_secretKnown = True, fa_own = moved_leg, fa_peer = moved_leg\<lparr>lf_claimed := True\<rparr>, fa_ownOnBsv = True,
     fa_peerChainTime = None\<rparr>"
  have s: "nextSettleStep sample_terms f = SRefundFee"
    by (simp add: f_def moved_leg_def sample_terms_def step_defs own_lock_def SECONDS_def)
  have "lf_started (fa_own f) = (cl_funding \<lparr>cl_locks = [(''t'', sample_id)], cl_started = None, cl_funding = Some ''t''\<rparr> = None \<and>
      cl_started \<lparr>cl_locks = [(''t'', sample_id)], cl_started = None, cl_funding = Some ''t''\<rparr> \<noteq> None)"
    by (simp add: f_def moved_leg_def)
  from coins_move_only_in_their_windows [OF this, of sample_terms "LockThrown None"] s
  have "own_lock sample_terms f \<le> SECONDS (fa_now f)" by simp
  then show ?thesis using s by (simp add: f_def own_lock_def sample_terms_def)
qed

definition sample_leg :: LegFacts where
  "sample_leg = \<lparr>lf_funded = True, lf_buried = True, lf_claimed = False, lf_refunded = False, lf_presigned = False,
     lf_feeUnspent = False, lf_unsent = False, lf_started = False\<rparr>"

definition sample_facts :: "SwapRole \<Rightarrow> int \<Rightarrow> SettleFacts" where
  "sample_facts role now = \<lparr>fa_role = role, fa_now = now, fa_accepted = True, fa_declined = False,
     fa_secretKnown = (role = Taker), fa_own = sample_leg, fa_peer = sample_leg, fa_ownOnBsv = True,
     fa_peerChainTime = None\<rparr>"

lemma locked_coins_never_wait_past_locktime_witness:
  "nextSettleStep sample_terms (sample_facts Taker (1000 * (2 + 72 * 3600))) = SRefund"
  using locked_coins_never_wait_past_locktime [of "sample_facts Taker (1000 * (2 + 72 * 3600))" sample_terms]
  by (simp add: sample_facts_def sample_leg_def sample_terms_def own_lock_def SECONDS_def)

end
