(* ===== verification/Swap_Intake.thy ===== *)
theory Swap_Intake
  imports Swap_Settle
begin

text \<open>
  The maker's side of the \<open>swap-settle\<close> box: \<open>intakeTake\<close> (\<open>swap/settleIntake.ts\<close>) on the
  stored swaps and offers (\<open>swap/settleStore.ts\<close>), and the chart of one swap
  (\<open>src/src/machines/swapSettleMachine.ts\<close>) as the runner restores and drives it
  (\<open>swap/settleRunner.ts\<close>). \<open>intakeTake\<close> reads the store, awaits \<open>canLock\<close> and writes the store it
  read: it is two steps, and offers published or withdrawn and takes of this wallet's own between
  them are steps of their own. The box is read one message at a time and the swaps are advanced
  after it (\<open>serving\<close> in \<open>serveSwapSettle\<close>), so no second take and no end of a swap falls between.
  What \<open>canLock\<close> answers is an argument; the listing update, the transport, a change of account in
  the wait, the restore from the custody journal and the logs are not modelled.
\<close>

section \<open>Stored swaps and offers\<close>

record settle_rec = settle_take +
  rc_role :: SwapRole
  rc_counterparty :: string
  rc_makerPub :: "string option"
  rc_accepted :: bool
  rc_createdAt :: int

record settle_state =
  ss_swaps :: "(string \<times> settle_rec) list"
  ss_offers :: "(string \<times> OwnOffer) list"




section \<open>Taking a take in\<close>

datatype decline_reason = DCheck TakeRefusal | DSender | DRoom room_refusal | DShort string

datatype intake_reply = NoReply | DeclineMsg string decline_reason | AcceptMsg string string

definition decline :: "string \<Rightarrow> decline_reason \<Rightarrow> intake_reply" where
  "decline swapId reason = (if swapId \<noteq> [] then DeclineMsg swapId reason else NoReply)"

text \<open>What \<open>intakeTake\<close> holds while it awaits \<open>canLock\<close>, and its two halves.\<close>

record intake_wait =
  iw_sender :: string
  iw_terms :: SwapTerms
  iw_state :: settle_state
  iw_published :: OwnOffer
  iw_usedUp :: bool

datatype intake_start = Ended intake_reply | Waiting intake_wait


text \<open>\<open>saved\<close> is whether the write is stored; one that is not throws.\<close>

definition intakeTake_end ::
  "swap_crypto \<Rightarrow> string \<Rightarrow> int \<Rightarrow> string option \<Rightarrow> bool \<Rightarrow> intake_wait \<Rightarrow> settle_state \<Rightarrow> settle_state \<times> intake_reply" where
  "intakeTake_end cr root now short saved w st =
     (let terms = iw_terms w; state = iw_state w in
      case short of
        Some s \<Rightarrow> (st, decline (st_swapId terms) (DShort s))
      | None \<Rightarrow>
          (let makerPub = (if st_v terms = V2 then (case st_makerPub terms of Some k \<Rightarrow> k | None \<Rightarrow> [])
                           else sc_self_pub cr root (st_swapId terms));
               rc = \<lparr>tk_terms = terms, tk_outcome = None, rc_role = Maker, rc_counterparty = iw_sender w,
                      rc_makerPub = Some makerPub, rc_accepted = True, rc_createdAt = now\<rparr>;
               st1 = state\<lparr>ss_swaps := jsmap_set (st_swapId terms) rc (ss_swaps state)\<rparr>;
               st2 = (if iw_usedUp w \<and> oo_state (iw_published w) = OwnOpen
                      then st1\<lparr>ss_offers := jsmap_set (so_nonce (st_offer terms)) ((iw_published w)\<lparr>oo_state := OwnTaken\<rparr>) (ss_offers st1)\<rparr>
                      else st1)
           in if saved then (st2, AcceptMsg (st_swapId terms) makerPub) else (st, NoReply)))"



section \<open>The box, the panel and the runner\<close>






section \<open>The chart of a swap\<close>

datatype SwapSettlePhase = Negotiating | Presigning | Locking | PLocked | Claiming | Refunding | Settled | PRefunded | Ended | PMissed

datatype SwapSettleEvent = EvPresign | EvFund | EvClaim | EvRefund | EvRefundFee | EvDone SettleOutcome | EvOk | EvFail

definition nothingLocked :: "SettleOutcome \<Rightarrow> bool" where
  "nothingLocked oc = (oc = Declined \<or> oc = OutExpired)"

text \<open>\<open>None\<close>: the chart does not take the event (\<open>can\<close> is false).\<close>

fun swapSettleMachine :: "SwapSettlePhase \<Rightarrow> SwapSettleEvent \<Rightarrow> SwapSettlePhase option" where
  "swapSettleMachine Negotiating e = (case e of EvPresign \<Rightarrow> Some Presigning | EvFund \<Rightarrow> Some Locking
     | EvDone oc \<Rightarrow> if nothingLocked oc then Some Ended else None | _ \<Rightarrow> None)"
| "swapSettleMachine Presigning e = (case e of EvPresign \<Rightarrow> Some Presigning | EvFund \<Rightarrow> Some Locking
     | EvDone oc \<Rightarrow> if nothingLocked oc then Some Ended else None | _ \<Rightarrow> None)"
| "swapSettleMachine Locking e = (case e of EvOk \<Rightarrow> Some PLocked | EvFail \<Rightarrow> Some Locking | EvFund \<Rightarrow> Some Locking
     | EvDone oc \<Rightarrow> if nothingLocked oc then Some Ended else None | _ \<Rightarrow> None)"
| "swapSettleMachine PLocked e = (case e of EvClaim \<Rightarrow> Some Claiming | EvRefund \<Rightarrow> Some Refunding | EvRefundFee \<Rightarrow> Some Refunding
     | EvDone oc \<Rightarrow> (case oc of Swapped \<Rightarrow> Some Settled | Refunded \<Rightarrow> Some PRefunded | Missed \<Rightarrow> Some PMissed
         | Unsent \<Rightarrow> Some Ended | _ \<Rightarrow> None) | _ \<Rightarrow> None)"
| "swapSettleMachine Claiming e = (case e of EvOk \<Rightarrow> Some PLocked | EvFail \<Rightarrow> Some PLocked | _ \<Rightarrow> None)"
| "swapSettleMachine Refunding e = (case e of EvOk \<Rightarrow> Some PLocked | EvFail \<Rightarrow> Some PLocked | _ \<Rightarrow> None)"
| "swapSettleMachine _ e = None"

definition chart_take :: "SwapSettlePhase \<Rightarrow> SwapSettleEvent \<Rightarrow> SwapSettlePhase" where
  "chart_take p e = (case swapSettleMachine p e of Some q \<Rightarrow> q | None \<Rightarrow> p)"

text \<open>\<open>chart\<close> of \<open>settleRunner.ts\<close>: the phase a pass starts from.\<close>

definition chart_restore :: "SwapSettlePhase option \<Rightarrow> bool \<Rightarrow> SwapSettlePhase" where
  "chart_restore saved funding =
     (let phase = (case saved of Some p \<Rightarrow> p | None \<Rightarrow> Negotiating);
          p1 = (if phase = Locking \<and> funding then chart_take phase EvOk else phase)
      in if phase = Claiming \<or> phase = Refunding then chart_take p1 EvFail else p1)"

fun eventOf :: "SettleStep \<Rightarrow> SwapSettleEvent option" where
  "eventOf SRequestPresign = Some EvPresign"
| "eventOf SFund = Some EvFund"
| "eventOf SClaim = Some EvClaim"
| "eventOf SRefund = Some EvRefund"
| "eventOf SRefundFee = Some EvRefundFee"
| "eventOf (SDone oc) = Some (EvDone oc)"
| "eventOf (SWait w u) = None"

section \<open>The room of an offer\<close>

lemma foldl_sum: "foldl (\<lambda>sum x. sum + f x) (a :: int) xs = a + (\<Sum>x \<leftarrow> xs. f x)"
  by (induction xs arbitrary: a) simp_all

lemma taken_of_sum: "taken_of offer takes = (\<Sum>t \<leftarrow> filter (take_counts offer) takes. units (st_pay (tk_terms t)))"
  by (simp add: taken_of_def foldl_sum)

lemma taken_of_append [simp]: "taken_of offer (xs @ ys) = taken_of offer xs + taken_of offer ys"
  by (simp add: taken_of_sum)


lemma taken_of_Nil [simp]: "taken_of offer [] = 0"
  by (simp add: taken_of_sum)





























section \<open>What the wait loses\<close>

text \<open>
  The write after the wait is of the store read before it: the offers become what they were then,
  and so a withdrawal in between is undone, and a take of this wallet's own is dropped.
\<close>

lemma accept_writes_the_old_store:
  assumes "intakeTake_end cr root now None True w st = (st', reply)"
  shows "(so_nonce p \<noteq> so_nonce (st_offer (iw_terms w)) \<longrightarrow> map_of (ss_offers st') (so_nonce p) = map_of (ss_offers (iw_state w)) (so_nonce p))
    \<and> (k \<noteq> st_swapId (iw_terms w) \<longrightarrow> map_of (ss_swaps st') k = map_of (ss_swaps (iw_state w)) k)"
  using assms unfolding intakeTake_end_def Let_def by (auto split: if_splits)

section \<open>The chart takes every step\<close>

definition phase_fits :: "SwapSettlePhase \<Rightarrow> bool \<Rightarrow> bool" where
  "phase_fits phase funded = (phase \<in> (if funded then {Locking, PLocked, Claiming, Refunding} else {Negotiating, Presigning, Locking}))"

lemma restore_locked: "phase_fits phase True \<Longrightarrow> chart_restore (Some phase) True = PLocked"
  by (auto simp: phase_fits_def chart_restore_def chart_take_def Let_def)

lemma restore_open: "phase_fits phase False \<Longrightarrow> chart_restore (Some phase) False = phase"
  by (auto simp: phase_fits_def chart_restore_def Let_def)

definition final_phase :: "SwapSettlePhase \<Rightarrow> bool" where
  "final_phase p = (p = Settled \<or> p = PRefunded \<or> p = Ended \<or> p = PMissed)"

text \<open>What one pass may do with the chart: the step's event, then \<open>OK\<close> or \<open>FAIL\<close>.\<close>

definition step_taken :: "SwapSettlePhase \<Rightarrow> SettleStep \<Rightarrow> bool" where
  "step_taken p step = (case eventOf step of
     None \<Rightarrow> True
   | Some e \<Rightarrow> (case swapSettleMachine p e of
       None \<Rightarrow> False
     | Some q \<Rightarrow> (case step of
           SDone oc \<Rightarrow> final_phase q \<and> chart_take q EvOk = q
         | SFund \<Rightarrow> phase_fits (chart_take q EvOk) True \<and> phase_fits (chart_take q EvFail) True \<and> phase_fits (chart_take q EvFail) False
         | SRequestPresign \<Rightarrow> phase_fits (chart_take q EvOk) False \<and> phase_fits (chart_take q EvFail) False
         | _ \<Rightarrow> chart_take q EvOk = PLocked \<and> chart_take q EvFail = PLocked)))"

lemma locked_step_taken:
  "step \<in> {SClaim, SRefund, SRefundFee, SDone Swapped, SDone Refunded, SDone Missed, SDone Unsent} \<Longrightarrow> step_taken PLocked step"
  by (auto simp: step_taken_def chart_take_def final_phase_def)

lemma open_step_taken:
  "phase_fits p False \<Longrightarrow> step \<in> {SFund, SDone Declined, SDone OutExpired} \<or> step = SRequestPresign \<and> p \<noteq> Locking \<Longrightarrow> step_taken p step"
  by (auto simp: step_taken_def chart_take_def final_phase_def phase_fits_def nothingLocked_def)

lemma wait_step_taken: "step_taken p (SWait w u)"
  by (simp add: step_taken_def)

lemma presign_only_unsigned:
  "nextSettleStep terms f = SRequestPresign \<Longrightarrow> st_v terms = V1 \<and> \<not> lf_presigned (fa_own f)"
  by (cases "fa_role f") (simp_all add: step_defs split: if_splits)

section \<open>Properties\<close>








text \<open>C16. The chart never blocks a swap: with the saved phase fitting whether this wallet has
  locked, the restored chart takes every step \<open>nextSettleStep\<close> asks for, a \<open>done\<close> ends in a final
  state, and the phase fits again afterwards whether the step succeeded or failed.\<close>

theorem chart_takes_every_step:
  assumes "phase_fits phase (lf_funded (fa_own f))"
    and "lf_funded (fa_own f) \<Longrightarrow> st_v terms = V1 \<Longrightarrow> fa_accepted f"
    and "\<not> lf_funded (fa_own f) \<Longrightarrow> \<not> lf_claimed (fa_peer f)"
    and "phase = Locking \<Longrightarrow> st_v terms = V1 \<Longrightarrow> lf_presigned (fa_own f)"
  shows "step_taken (chart_restore (Some phase) (lf_funded (fa_own f))) (nextSettleStep terms f)"
proof (cases "lf_funded (fa_own f)")
  case True
  from locked_steps [OF True assms(2) [OF True]] show ?thesis
    using restore_locked assms(1) True locked_step_taken wait_step_taken by metis
next
  case False
  then have fits: "phase_fits phase False" and r: "chart_restore (Some phase) (lf_funded (fa_own f)) = phase"
    using assms(1) restore_open by auto
  from unlocked_only_ends [OF False assms(3) [OF False], of terms] show ?thesis
  proof
    assume "\<exists>w u. nextSettleStep terms f = SWait w u"
    then show ?thesis using wait_step_taken by auto
  next
    assume s: "nextSettleStep terms f \<in> {SFund, SRequestPresign, SDone Declined, SDone OutExpired}"
    then show ?thesis
      using open_step_taken [OF fits, of "nextSettleStep terms f"] presign_only_unsigned [of terms f] assms(4) r by auto
  qed
qed

lemma chart_takes_every_step_witness:
  "step_taken (chart_restore (Some Locking) True) (nextSettleStep sample_terms (sample_facts Maker (1000 * (2 + 48 * 3600))))"
  using chart_takes_every_step [of Locking "sample_facts Maker (1000 * (2 + 48 * 3600))" sample_terms]
  by (simp add: phase_fits_def sample_facts_def sample_leg_def sample_terms_def)

end
