(* ===== verification/Swap_World.thy ===== *)
theory Swap_World
  imports Swap_Settle
begin

text \<open>
  The two locks of a swap on their chains, with one honest wallet that takes the steps of
  \<open>nextSettleStep\<close> (\<open>src/src/wallet/swap/settle.ts\<close>) and a counterparty that may do whatever
  the chains allow: lock, claim with the secret once it is public, take back after the lock
  time. \<open>w_clock\<close> is the time the chains enforce, in seconds. What a wallet sees is any facts
  record the view predicates admit.

  In the taker's world the chain takes a broadcast claim within the three hours the taker
  leaves before the maker may refund (\<open>takerClaimBeforeT2\<close>), and of the device clock and the
  chain time in the facts at least one is right.

  In the maker's world \<open>w_clock\<close> is the device clock, and each chain judges lock times by a clock of
  its own within \<open>wb_skew\<close> of it (\<open>advance\<close> in \<open>settleRunner.ts\<close>: a coin chain uses its median
  block time). Spends are broadcast first and land later: \<open>w_refund\<close> and \<open>w_claim\<close> are the
  maker's on their way, \<open>w_theirs\<close> the taker's claim, each with its moment. \<open>w_took\<close> is the
  record's \<open>own.refunded\<close>, \<open>w_told\<close> that the taker sent the secret, \<open>w_last\<close> the maker's last step.
  Not modelled: reorganizations, reads that fail, the fee outputs and the claim watchtowers.
\<close>

section \<open>The locks\<close>

datatype lock_state = Absent | Standing | LClaimed | LRefunded

record world =
  w_clock :: int
  w_taker :: lock_state
  w_maker :: lock_state

record taker_world = world +
  w_pending :: "int option"

record maker_world = world +
  w_last :: int
  w_refund :: "int option"
  w_claim :: "int option"
  w_theirs :: "int option"
  w_took :: bool
  w_told :: bool

locale transition_invariant =
  fixes step :: "'s \<Rightarrow> 's \<Rightarrow> bool" and inv :: "'s \<Rightarrow> bool"
  assumes step_inv: "step s s' \<Longrightarrow> inv s \<Longrightarrow> inv s'"
begin

lemma reach_inv: "step\<^sup>*\<^sup>* s s' \<Longrightarrow> inv s \<Longrightarrow> inv s'"
  by (induction rule: rtranclp_induct) (auto intro: step_inv)

end

section \<open>An honest taker\<close>

definition taker_view :: "SwapTerms \<Rightarrow> taker_world \<Rightarrow> SettleFacts \<Rightarrow> bool" where
  "taker_view t w f =
     (fa_role f = Taker \<and> (SECONDS (fa_now f) = w_clock w \<or> fa_peerChainTime f = Some (w_clock w)) \<and>
      lf_funded (fa_own f) = (w_taker w \<noteq> Absent) \<and> \<not> lf_started (fa_own f) \<and> \<not> lf_unsent (fa_own f) \<and>
      lf_refunded (fa_own f) = (w_taker w = LRefunded) \<and>
      (lf_buried (fa_peer f) \<longrightarrow> w_maker w \<noteq> Absent) \<and>
      (lf_claimed (fa_peer f) \<longrightarrow> w_pending w \<noteq> None \<or> w_maker w = LClaimed))"

fun taker_act :: "SwapTerms \<Rightarrow> taker_world \<Rightarrow> SettleStep \<Rightarrow> taker_world" where
  "taker_act t w SFund = (if w_taker w = Absent then w\<lparr>w_taker := Standing\<rparr> else w)"
| "taker_act t w SClaim = (if w_maker w = LClaimed then w else w\<lparr>w_pending := Some (w_clock w)\<rparr>)"
| "taker_act t w SRefund = (if w_taker w = Standing \<and> st_t1 t \<le> w_clock w then w\<lparr>w_taker := LRefunded\<rparr> else w)"
| "taker_act t w _ = w"

abbreviation claim_margin :: "SwapTerms \<Rightarrow> int" where
  "claim_margin t \<equiv> takerClaimBeforeT2 (swapWindows (st_v t))"

inductive taker_run :: "SwapTerms \<Rightarrow> taker_world \<Rightarrow> taker_world \<Rightarrow> bool" for t where
  taker_time: "w_clock w \<le> c \<Longrightarrow> (case w_pending w of None \<Rightarrow> True | Some b \<Rightarrow> c \<le> b + claim_margin t) \<Longrightarrow>
     taker_run t w (w\<lparr>w_clock := c\<rparr>)"
| taker_acts: "taker_view t w f \<Longrightarrow> taker_run t w (taker_act t w (nextSettleStep t f))"
| claim_lands: "w_pending w = Some b \<Longrightarrow> w_maker w = Standing \<Longrightarrow>
     taker_run t w (w\<lparr>w_maker := LClaimed, w_pending := None\<rparr>)"
| any_maker_locks: "w_maker w = Absent \<Longrightarrow> taker_run t w (w\<lparr>w_maker := Standing\<rparr>)"
| any_maker_refunds: "w_maker w = Standing \<Longrightarrow> st_t2 t \<le> w_clock w \<Longrightarrow> taker_run t w (w\<lparr>w_maker := LRefunded\<rparr>)"
| any_maker_claims: "w_taker w = Standing \<Longrightarrow> w_pending w \<noteq> None \<or> w_maker w = LClaimed \<Longrightarrow>
     taker_run t w (w\<lparr>w_taker := LClaimed\<rparr>)"

definition taker_inv :: "SwapTerms \<Rightarrow> taker_world \<Rightarrow> bool" where
  "taker_inv t w =
     ((case w_pending w of None \<Rightarrow> True
        | Some b \<Rightarrow> w_maker w = Standing \<and> b < st_t2 t - claim_margin t \<and> w_clock w \<le> b + claim_margin t) \<and>
      (w_maker w = LRefunded \<longrightarrow> st_t2 t \<le> w_clock w) \<and>
      (w_taker w = LClaimed \<longrightarrow> w_pending w \<noteq> None \<or> w_maker w = LClaimed) \<and>
      (w_taker w = LRefunded \<longrightarrow> st_t1 t \<le> w_clock w))"

lemma claim_margin_pos: "0 < claim_margin t"
  by (cases "st_v t") simp_all

lemma taker_claims_in_time:
  assumes "taker_view t w f" and "nextSettleStep t f = SClaim"
  shows "w_clock w < st_t2 t - claim_margin t \<and> w_maker w \<noteq> Absent"
  using taker_claim_window [OF assms(2)] assms(1) by (auto simp: taker_view_def)

lemma taker_act_inv:
  assumes "taker_view t w f" and "taker_inv t w"
  shows "taker_inv t (taker_act t w (nextSettleStep t f))"
proof (cases "nextSettleStep t f")
  case SClaim
  show ?thesis
  proof (cases "w_maker w = LClaimed")
    case False
    have "w_clock w < st_t2 t - claim_margin t" "w_maker w \<noteq> Absent"
      using taker_claims_in_time [OF assms(1) SClaim] by simp_all
    moreover from this have "w_maker w \<noteq> LRefunded"
      using assms(2) claim_margin_pos [of t] by (auto simp: taker_inv_def)
    ultimately have "w_maker w = Standing" using False by (cases "w_maker w") simp_all
    then show ?thesis
      using SClaim assms(2) claim_margin_pos [of t] \<open>w_clock w < _\<close> by (simp add: taker_inv_def)
  qed (use SClaim assms(2) in simp)
qed (use assms(2) in \<open>auto simp: taker_inv_def split: option.splits\<close>)

interpretation tworld: transition_invariant "taker_run t" "taker_inv t" for t
proof unfold_locales
  fix w w'
  assume "taker_run t w w'" and i: "taker_inv t w"
  then show "taker_inv t w'"
  proof (cases rule: taker_run.cases)
    case (taker_acts f)
    then show ?thesis using taker_act_inv i by blast
  qed (use i in \<open>auto simp: taker_inv_def split: option.splits\<close>)
qed

section \<open>An honest maker\<close>

text \<open>
  How far the clocks of the two chains may lie from the device's, how long a broadcast spend of a
  lock takes to land, how often the maker's wallet takes a step while its lock stands, and whether
  the maker's chain keeps the first spend it saw.
\<close>

record world_bounds =
  wb_skew :: int
  wb_delay :: int
  wb_period :: int
  wb_firstSeen :: bool

definition near :: "world_bounds \<Rightarrow> int \<Rightarrow> int \<Rightarrow> bool" where
  "near b c m = (\<bar>m - c\<bar> \<le> wb_skew b)"

definition in_time :: "world_bounds \<Rightarrow> int \<Rightarrow> int option \<Rightarrow> bool" where
  "in_time b c p = (case p of None \<Rightarrow> True | Some s \<Rightarrow> c \<le> s + wb_delay b)"

text \<open>
  \<open>gather\<close> (\<open>settleFacts.ts\<close>) on reads that succeed: a refund and a claim of this wallet are
  recorded when they are broadcast; the secret is read off the own lock's spend only while no
  refund is recorded, or comes from the taker's message.
\<close>

definition maker_view :: "SwapTerms \<Rightarrow> maker_world \<Rightarrow> SettleFacts \<Rightarrow> bool" where
  "maker_view t w f =
     (fa_role f = Maker \<and> SECONDS (fa_now f) = w_clock w \<and>
      lf_funded (fa_own f) = (w_maker w \<noteq> Absent) \<and> \<not> lf_started (fa_own f) \<and> \<not> lf_unsent (fa_own f) \<and>
      lf_refunded (fa_own f) = w_took w \<and>
      (w_maker w = LClaimed \<and> \<not> w_took w \<longrightarrow> fa_secretKnown f) \<and>
      (fa_secretKnown f \<longrightarrow> w_maker w = LClaimed \<or> w_theirs w \<noteq> None \<or> w_told w) \<and>
      (lf_buried (fa_peer f) \<longrightarrow> w_taker w \<noteq> Absent) \<and>
      lf_claimed (fa_peer f) = (w_claim w \<noteq> None \<or> w_taker w = LClaimed) \<and>
      (lf_refunded (fa_peer f) \<longrightarrow> w_taker w = LRefunded))"

text \<open>The step at a moment the maker's chain judges lock times by \<open>m\<close>: before its lock time the
  refund is refused as not final, and any spend is refused while another is on its way.\<close>

fun maker_act :: "SwapTerms \<Rightarrow> int \<Rightarrow> maker_world \<Rightarrow> SettleStep \<Rightarrow> maker_world" where
  "maker_act t m w SFund = (if w_maker w = Absent then w\<lparr>w_maker := Standing\<rparr> else w)"
| "maker_act t m w SClaim = (if w_taker w = Standing \<and> w_claim w = None then w\<lparr>w_claim := Some (w_clock w)\<rparr> else w)"
| "maker_act t m w SRefund =
     (if w_maker w = Standing \<and> w_refund w = None \<and> w_theirs w = None \<and> st_t2 t \<le> m
      then w\<lparr>w_refund := Some (w_clock w), w_took := True\<rparr> else w)"
| "maker_act t m w _ = w"

inductive maker_run :: "SwapTerms \<Rightarrow> world_bounds \<Rightarrow> maker_world \<Rightarrow> maker_world \<Rightarrow> bool" for t b where
  maker_time: "w_clock w \<le> c \<Longrightarrow> w_maker w = Absent \<or> c \<le> w_last w + wb_period b \<Longrightarrow>
     in_time b c (w_refund w) \<Longrightarrow> in_time b c (w_claim w) \<Longrightarrow> in_time b c (w_theirs w) \<Longrightarrow>
     maker_run t b w (w\<lparr>w_clock := c\<rparr>)"
| maker_acts: "maker_view t w f \<Longrightarrow> near b (w_clock w) m \<Longrightarrow>
     maker_run t b w ((maker_act t m w (nextSettleStep t f))\<lparr>w_last := w_clock w\<rparr>)"
| refund_lands: "w_refund w \<noteq> None \<Longrightarrow> maker_run t b w (w\<lparr>w_maker := LRefunded, w_refund := None\<rparr>)"
| claim_confirms: "w_claim w \<noteq> None \<Longrightarrow> maker_run t b w (w\<lparr>w_taker := LClaimed, w_claim := None\<rparr>)"
| theirs_lands: "w_theirs w \<noteq> None \<Longrightarrow> maker_run t b w (w\<lparr>w_maker := LClaimed, w_theirs := None\<rparr>)"
| any_taker_locks: "w_taker w = Absent \<Longrightarrow> maker_run t b w (w\<lparr>w_taker := Standing\<rparr>)"
| any_taker_tells: "maker_run t b w (w\<lparr>w_told := True\<rparr>)"
| any_taker_claims: "w_maker w = Standing \<Longrightarrow> w_theirs w = None \<Longrightarrow> w_refund w = None \<or> \<not> wb_firstSeen b \<Longrightarrow>
     maker_run t b w (w\<lparr>w_theirs := Some (w_clock w), w_refund := None\<rparr>)"
| any_taker_refunds: "w_taker w = Standing \<Longrightarrow> w_claim w = None \<Longrightarrow> near b (w_clock w) m \<Longrightarrow> st_t1 t \<le> m \<Longrightarrow>
     maker_run t b w (w\<lparr>w_taker := LRefunded\<rparr>)"

definition secured :: "maker_world \<Rightarrow> bool" where
  "secured w = (w_claim w \<noteq> None \<or> w_taker w = LClaimed)"

definition exposed :: "maker_world \<Rightarrow> bool" where
  "exposed w = ((w_maker w = Standing \<or> w_maker w = LClaimed) \<and> w_refund w = None \<and> \<not> secured w)"

definition secret_out :: "maker_world \<Rightarrow> bool" where
  "secret_out w = (w_maker w = LClaimed \<or> w_theirs w \<noteq> None \<or> w_told w)"

text \<open>The bounds under which the maker is safe, and the moment its risk ends.\<close>

definition risk_ends :: "SwapTerms \<Rightarrow> world_bounds \<Rightarrow> int" where
  "risk_ends t b = st_t2 t + wb_skew b + 2 * wb_period b + wb_delay b"

definition safe_bounds :: "SwapTerms \<Rightarrow> world_bounds \<Rightarrow> bool" where
  "safe_bounds t b = (wb_firstSeen b \<and> 0 \<le> wb_skew b \<and> 0 \<le> wb_delay b \<and> 0 \<le> wb_period b \<and>
     risk_ends t b + wb_skew b < st_t1 t)"

definition locks_consistent :: "SwapTerms \<Rightarrow> world_bounds \<Rightarrow> maker_world \<Rightarrow> bool" where
  "locks_consistent t b w =
     ((w_refund w \<noteq> None \<longrightarrow> w_maker w = Standing \<and> w_theirs w = None) \<and>
      (w_theirs w \<noteq> None \<longrightarrow> w_maker w = Standing) \<and>
      (w_claim w \<noteq> None \<longrightarrow> w_taker w = Standing) \<and>
      (w_took w \<longrightarrow> w_refund w \<noteq> None \<or> w_maker w = LRefunded) \<and>
      (w_taker w = LRefunded \<longrightarrow> st_t1 t \<le> w_clock w + wb_skew b) \<and>
      (secured w \<longrightarrow> secret_out w) \<and>
      (w_maker w \<noteq> Absent \<longrightarrow> w_taker w \<noteq> Absent \<and> w_clock w \<le> w_last w + wb_period b) \<and>
      w_last w \<le> w_clock w)"

definition exposure_bounded :: "SwapTerms \<Rightarrow> world_bounds \<Rightarrow> maker_world \<Rightarrow> bool" where
  "exposure_bounded t b w = (exposed w \<longrightarrow>
     (if w_maker w = LClaimed then w_last w \<le> st_t2 t + wb_skew b + wb_period b + wb_delay b
      else case w_theirs w of
          None \<Rightarrow> w_last w < st_t2 t + wb_skew b
        | Some s \<Rightarrow> s \<le> st_t2 t + wb_skew b + wb_period b \<and> w_clock w \<le> s + wb_delay b))"

definition maker_inv :: "SwapTerms \<Rightarrow> world_bounds \<Rightarrow> maker_world \<Rightarrow> bool" where
  "maker_inv t b w = (locks_consistent t b w \<and> exposure_bounded t b w)"

lemmas maker_world_defs = locks_consistent_def exposure_bounded_def exposed_def secured_def secret_out_def

lemma exposed_in_risk:
  assumes "maker_inv t b w" and "safe_bounds t b" and "exposed w"
  shows "w_clock w \<le> risk_ends t b \<and> w_taker w \<noteq> LRefunded"
proof -
  have "w_clock w \<le> risk_ends t b"
    using assms
    by (auto simp: maker_inv_def exposure_bounded_def locks_consistent_def exposed_def safe_bounds_def risk_ends_def
        split: if_splits option.splits)
  then show ?thesis using assms(1,2) by (auto simp: maker_inv_def locks_consistent_def safe_bounds_def)
qed

lemma fund_margin_pos: "0 < makerFundBeforeT2 (swapWindows (st_v t))"
  by (cases "st_v t") simp_all

lemma maker_fund_in_time:
  assumes "maker_view t w f" and "nextSettleStep t f = SFund"
  shows "w_maker w = Absent \<and> w_taker w \<noteq> Absent \<and> w_clock w < st_t2 t \<and> \<not> secured w"
proof -
  have "\<not> lf_claimed (fa_peer f)" using assms(2) by (cases "fa_role f") (simp_all add: step_defs split: if_splits)
  then show ?thesis
    using maker_fund_window [OF assms(2)] assms(1) fund_margin_pos [of t] by (auto simp: maker_view_def secured_def)
qed

text \<open>What an exposed maker does: it claims once the secret is out and refunds past its lock time.\<close>

lemma exposed_step:
  assumes "maker_view t w f" and "exposed w" and "w_taker w \<noteq> LRefunded" and "\<not> w_took w"
  shows "nextSettleStep t f = (if fa_secretKnown f then SClaim
    else if st_t2 t \<le> w_clock w then SRefund else SWait WSecret (Some (st_t2 t * 1000)))"
  using assms by (auto simp: maker_view_def exposed_def secured_def nextSettleStep_def maker_step_def own_lock_def Let_def)

lemma last_irrelevant [simp]:
  "exposed (w\<lparr>w_last := x\<rparr>) = exposed w" "secured (w\<lparr>w_last := x\<rparr>) = secured w" "secret_out (w\<lparr>w_last := x\<rparr>) = secret_out w"
  "exposed (w\<lparr>w_clock := x\<rparr>) = exposed w" "secured (w\<lparr>w_clock := x\<rparr>) = secured w" "secret_out (w\<lparr>w_clock := x\<rparr>) = secret_out w"
  by (simp_all add: exposed_def secured_def secret_out_def)

lemma unexposed_stays:
  assumes "maker_inv t b w" and "safe_bounds t b" and "\<not> exposed w"
  shows "maker_inv t b (w\<lparr>w_last := w_clock w\<rparr>)"
  using assms by (simp add: maker_inv_def locks_consistent_def exposure_bounded_def safe_bounds_def)

lemma unexposed_step:
  assumes v: "maker_view t w f" and i: "maker_inv t b w" and s: "safe_bounds t b" and n: "near b (w_clock w) m" and e: "\<not> exposed w"
  shows "maker_inv t b ((maker_act t m w (nextSettleStep t f))\<lparr>w_last := w_clock w\<rparr>)"
proof (cases "nextSettleStep t f")
  case SFund
  note fact = maker_fund_in_time [OF v SFund]
  have "st_t2 t < st_t1 t - wb_skew b" using s by (simp add: safe_bounds_def risk_ends_def)
  then have "w_taker w \<noteq> LRefunded" using fact i by (auto simp: maker_inv_def locks_consistent_def)
  have pending: "w_refund w = None" "w_theirs w = None" using i fact by (auto simp: maker_inv_def locks_consistent_def)
  show ?thesis using fact i s SFund pending by (auto simp: maker_inv_def maker_world_defs safe_bounds_def)
next
  case SClaim
  then have "fa_secretKnown f \<and> \<not> secured w \<and> w_maker w \<noteq> Absent"
    using maker_claim_facts [OF SClaim] v by (auto simp: maker_view_def secured_def)
  then have "w_refund w \<noteq> None \<or> w_maker w = LRefunded" using e by (cases "w_maker w") (auto simp: exposed_def)
  moreover have "secret_out w" using \<open>fa_secretKnown f \<and> _\<close> v by (auto simp: maker_view_def secret_out_def)
  ultimately show ?thesis using i s SClaim by (auto simp: maker_inv_def maker_world_defs safe_bounds_def)
next
  case SRefund
  have "\<not> (w_maker w = Standing \<and> w_refund w = None)"
    using refund_facts [OF SRefund] v e by (auto simp: maker_view_def exposed_def secured_def)
  then have "maker_act t m w (nextSettleStep t f) = w" using SRefund by auto
  then show ?thesis using unexposed_stays [OF i s e] by simp
qed (use unexposed_stays [OF i s e] in simp_all)

lemma maker_act_inv:
  assumes v: "maker_view t w f" and i: "maker_inv t b w" and s: "safe_bounds t b" and n: "near b (w_clock w) m"
  shows "maker_inv t b ((maker_act t m w (nextSettleStep t f))\<lparr>w_last := w_clock w\<rparr>)"
proof (cases "exposed w")
  case True
  have nr: "w_taker w \<noteq> LRefunded" using exposed_in_risk [OF i s True] by simp
  have nt: "\<not> w_took w" using i True by (auto simp: maker_inv_def locks_consistent_def exposed_def)
  have tk: "w_taker w = Standing" using True i nr
    by (cases "w_taker w") (auto simp: maker_inv_def locks_consistent_def exposed_def secured_def)
  note step = exposed_step [OF v True nr nt]
  show ?thesis
  proof (cases "fa_secretKnown f")
    case known: True
    then have "secret_out w" using v by (auto simp: maker_view_def secret_out_def)
    then show ?thesis using step known tk True i s by (auto simp: maker_inv_def maker_world_defs safe_bounds_def)
  next
    case unknown: False
    then have st: "w_maker w = Standing" using v True nt by (auto simp: maker_view_def exposed_def)
    show ?thesis
      using step unknown tk st True i s n
      by (auto simp: maker_inv_def maker_world_defs safe_bounds_def near_def split: option.splits)
  qed
qed (rule unexposed_step [OF v i s n])

lemma maker_moves_inv:
  assumes i: "maker_inv t b w" and s: "safe_bounds t b"
  shows "w_refund w \<noteq> None \<Longrightarrow> maker_inv t b (w\<lparr>w_maker := LRefunded, w_refund := None\<rparr>)"
    and "w_claim w \<noteq> None \<Longrightarrow> maker_inv t b (w\<lparr>w_taker := LClaimed, w_claim := None\<rparr>)"
    and "w_theirs w \<noteq> None \<Longrightarrow> maker_inv t b (w\<lparr>w_maker := LClaimed, w_theirs := None\<rparr>)"
    and "maker_inv t b (w\<lparr>w_told := True\<rparr>)"
  using assms by (auto simp: maker_inv_def maker_world_defs safe_bounds_def split: option.splits if_splits)

lemma taker_moves_inv:
  assumes i: "maker_inv t b w" and s: "safe_bounds t b"
  shows "w_taker w = Absent \<Longrightarrow> maker_inv t b (w\<lparr>w_taker := Standing\<rparr>)"
    and "w_maker w = Standing \<Longrightarrow> w_theirs w = None \<Longrightarrow> w_refund w = None \<Longrightarrow>
      maker_inv t b (w\<lparr>w_theirs := Some (w_clock w), w_refund := None\<rparr>)"
    and "w_taker w = Standing \<Longrightarrow> w_claim w = None \<Longrightarrow> near b (w_clock w) m \<Longrightarrow> st_t1 t \<le> m \<Longrightarrow>
      maker_inv t b (w\<lparr>w_taker := LRefunded\<rparr>)"
  using assms by (auto simp: maker_inv_def maker_world_defs safe_bounds_def near_def split: option.splits if_splits)

lemma maker_time_inv:
  assumes i: "maker_inv t b w" and s: "safe_bounds t b" and "w_clock w \<le> c" "w_maker w = Absent \<or> c \<le> w_last w + wb_period b"
    "in_time b c (w_theirs w)"
  shows "maker_inv t b (w\<lparr>w_clock := c\<rparr>)"
proof -
  have "locks_consistent t b (w\<lparr>w_clock := c\<rparr>)"
    using assms by (simp add: maker_inv_def locks_consistent_def) linarith
  moreover have "exposure_bounded t b (w\<lparr>w_clock := c\<rparr>)"
    using assms by (simp add: maker_inv_def exposure_bounded_def in_time_def split: option.splits)
  ultimately show ?thesis by (simp add: maker_inv_def)
qed

lemma maker_run_inv:
  assumes "safe_bounds t b" and "maker_run t b w w'" and i: "maker_inv t b w"
  shows "maker_inv t b w'"
  using assms(2)
proof (cases rule: maker_run.cases)
  case (maker_acts f m)
  then show ?thesis using maker_act_inv i assms(1) by blast
next
  case (any_taker_refunds m)
  then show ?thesis using taker_moves_inv(3) i assms(1) by blast
qed (use maker_moves_inv [OF i assms(1)] taker_moves_inv(1,2) [OF i assms(1)] maker_time_inv [OF i assms(1)] assms(1)
  in \<open>auto simp: safe_bounds_def\<close>)

interpretation mworld: transition_invariant "maker_run t b" "\<lambda>w. safe_bounds t b \<longrightarrow> maker_inv t b w" for t b
  by unfold_locales (use maker_run_inv in blast)

section \<open>Properties\<close>

definition taker_start :: "int \<Rightarrow> taker_world" where
  "taker_start c = \<lparr>w_clock = c, w_taker = Absent, w_maker = Absent, w_pending = None\<rparr>"

definition maker_start :: "int \<Rightarrow> maker_world" where
  "maker_start c = \<lparr>w_clock = c, w_taker = Absent, w_maker = Absent, w_last = c, w_refund = None, w_claim = None,
     w_theirs = None, w_took = False, w_told = False\<rparr>"

text \<open>C17. A taker that follows \<open>nextSettleStep\<close> cannot be robbed, whatever the maker does: if the
  taker's lock has been claimed, then the maker's lock has been claimed by the taker or stands
  with the taker's claim of it broadcast, to land before the maker may take it back; and the
  taker takes its own lock back only after its lock time.\<close>

theorem honest_taker_is_never_robbed:
  assumes "(taker_run t)\<^sup>*\<^sup>* (taker_start c) w"
  shows "(w_taker w = LClaimed \<longrightarrow> (case w_pending w of
      None \<Rightarrow> w_maker w = LClaimed
    | Some b \<Rightarrow> w_maker w = Standing \<and> w_clock w \<le> b + claim_margin t \<and> b + claim_margin t < st_t2 t))
    \<and> (w_taker w = LRefunded \<longrightarrow> st_t1 t \<le> w_clock w)"
proof -
  have "taker_inv t (taker_start c)" by (simp add: taker_inv_def taker_start_def)
  from tworld.reach_inv [OF assms this] show ?thesis by (auto simp: taker_inv_def split: option.splits)
qed

definition no_leg :: LegFacts where
  "no_leg = \<lparr>lf_funded = False, lf_buried = False, lf_claimed = False, lf_refunded = False, lf_presigned = False,
     lf_feeUnspent = False, lf_unsent = False, lf_started = False\<rparr>"

lemma sample_taker_run:
  "(taker_run sample_terms)\<^sup>*\<^sup>* (taker_start 10) \<lparr>w_clock = 10, w_taker = LClaimed, w_maker = Standing, w_pending = Some 10\<rparr>"
proof -
  define f1 where "f1 = (sample_facts Taker 10000)\<lparr>fa_own := no_leg, fa_peer := no_leg\<rparr>"
  define f2 where "f2 = (sample_facts Taker 10000)\<lparr>fa_peerChainTime := Some 10\<rparr>"
  have s: "nextSettleStep sample_terms f1 = SFund" "nextSettleStep sample_terms f2 = SClaim"
    by (simp_all add: f1_def f2_def sample_facts_def sample_leg_def no_leg_def sample_terms_def step_defs SECONDS_def TAKER_FUND_WITHIN_S_def)
  have v1: "taker_view sample_terms (taker_start 10) f1"
    by (simp add: taker_view_def taker_start_def f1_def sample_facts_def no_leg_def SECONDS_def)
  have r1: "taker_run sample_terms (taker_start 10) \<lparr>w_clock = 10, w_taker = Standing, w_maker = Absent, w_pending = None\<rparr>"
    using taker_acts [OF v1] by (simp add: s taker_start_def)
  have r2: "taker_run sample_terms \<lparr>w_clock = 10, w_taker = Standing, w_maker = Absent, w_pending = None\<rparr>
      \<lparr>w_clock = 10, w_taker = Standing, w_maker = Standing, w_pending = None\<rparr>"
    using any_maker_locks [of "\<lparr>w_clock = 10, w_taker = Standing, w_maker = Absent, w_pending = None\<rparr>"] by simp
  have v3: "taker_view sample_terms \<lparr>w_clock = 10, w_taker = Standing, w_maker = Standing, w_pending = None\<rparr> f2"
    by (simp add: taker_view_def f2_def sample_facts_def sample_leg_def SECONDS_def)
  have r3: "taker_run sample_terms \<lparr>w_clock = 10, w_taker = Standing, w_maker = Standing, w_pending = None\<rparr>
      \<lparr>w_clock = 10, w_taker = Standing, w_maker = Standing, w_pending = Some 10\<rparr>"
    using taker_acts [OF v3] by (simp add: s)
  have r4: "taker_run sample_terms \<lparr>w_clock = 10, w_taker = Standing, w_maker = Standing, w_pending = Some 10\<rparr>
      \<lparr>w_clock = 10, w_taker = LClaimed, w_maker = Standing, w_pending = Some 10\<rparr>"
    using any_maker_claims [of "\<lparr>w_clock = 10, w_taker = Standing, w_maker = Standing, w_pending = Some 10\<rparr>"] by simp
  show ?thesis
    using r1 r2 r3 r4 by (meson rtranclp.rtrancl_refl converse_rtranclp_into_rtranclp)
qed

lemma honest_taker_is_never_robbed_witness: "10 + claim_margin sample_terms < st_t2 sample_terms"
  using honest_taker_is_never_robbed [OF sample_taker_run] by simp

text \<open>C18. A maker that follows \<open>nextSettleStep\<close> cannot be robbed by any taker while it takes a
  step at least every \<open>wb_period\<close> seconds its lock stands: when the taker takes its lock back, the
  maker's lock was never made, is back, or its refund is on its way; the maker claims only after the
  secret got out; and by \<open>risk_ends\<close> the lock is taken back (or its refund on its way) or the taker's
  lock is claimed (or the claim on its way). The chains' clocks may run \<open>wb_skew\<close> from the
  device's, so a refund may be refused as not final; a broadcast spend lands within \<open>wb_delay\<close>; and
  the maker's chain keeps the first spend it saw. The bounds must fit between the lock times:
  \<open>t2 + 2 skew + 2 period + delay < t1\<close> (with clocks and blocks within two hours, a step every
  eight hours).\<close>

theorem steady_maker_is_never_robbed:
  assumes run: "(maker_run t b)\<^sup>*\<^sup>* (maker_start c) w"
    and bounds: "wb_firstSeen b" "0 \<le> wb_skew b" "0 \<le> wb_delay b" "0 \<le> wb_period b"
      "st_t2 t + 2 * wb_skew b + 2 * wb_period b + wb_delay b < st_t1 t"
  shows "(w_taker w = LRefunded \<longrightarrow> w_maker w = Absent \<or> w_maker w = LRefunded \<or> w_refund w \<noteq> None \<and> w_theirs w = None)
    \<and> (w_taker w = LClaimed \<or> w_claim w \<noteq> None \<longrightarrow> w_maker w = LClaimed \<or> w_theirs w \<noteq> None \<or> w_told w)
    \<and> (st_t2 t + wb_skew b + 2 * wb_period b + wb_delay b < w_clock w \<longrightarrow>
        w_maker w = Absent \<or> w_maker w = LRefunded \<or> w_refund w \<noteq> None \<and> w_theirs w = None \<or> w_claim w \<noteq> None \<or> w_taker w = LClaimed)"
proof -
  have s: "safe_bounds t b" using bounds by (simp add: safe_bounds_def risk_ends_def)
  have "maker_inv t b (maker_start c)" by (simp add: maker_inv_def maker_world_defs maker_start_def)
  then have i: "maker_inv t b w" using mworld.reach_inv [OF run] s by blast
  have sec: "secured w \<longrightarrow> secret_out w" "w_claim w \<noteq> None \<longrightarrow> w_taker w = Standing" "w_refund w \<noteq> None \<longrightarrow> w_theirs w = None"
    using i by (simp_all add: maker_inv_def locks_consistent_def)
  have "w_maker w = Absent \<or> w_maker w = LRefunded \<or> w_refund w \<noteq> None \<or> secured w \<or> exposed w"
    by (cases "w_maker w") (auto simp: exposed_def)
  then show ?thesis
    using exposed_in_risk [OF i s] sec by (auto simp: secured_def secret_out_def risk_ends_def)
qed

text \<open>Clocks and blocks within two hours, a step every eight hours.\<close>

definition sample_bounds :: world_bounds where
  "sample_bounds = \<lparr>wb_skew = 7200, wb_delay = 7200, wb_period = 28800, wb_firstSeen = True\<rparr>"

abbreviation mw :: "int \<Rightarrow> lock_state \<Rightarrow> lock_state \<Rightarrow> int \<Rightarrow> maker_world" where
  "mw c tk mk l \<equiv> \<lparr>w_clock = c, w_taker = tk, w_maker = mk, w_last = l, w_refund = None, w_claim = None,
     w_theirs = None, w_took = False, w_told = False\<rparr>"

lemma maker_locks_run: "(maker_run sample_terms b)\<^sup>*\<^sup>* (maker_start 10) (mw 10 Standing Standing 10)"
  if "0 \<le> wb_skew b" for b
proof -
  define f where "f = (sample_facts Maker 10000)\<lparr>fa_own := no_leg\<rparr>"
  have s: "nextSettleStep sample_terms f = SFund"
    by (simp add: f_def sample_facts_def sample_leg_def no_leg_def sample_terms_def step_defs SECONDS_def)
  have r1: "maker_run sample_terms b (maker_start 10) (mw 10 Standing Absent 10)"
    using any_taker_locks [of "maker_start 10"] by (simp add: maker_start_def)
  have v: "maker_view sample_terms (mw 10 Standing Absent 10) f"
    by (simp add: maker_view_def f_def sample_facts_def sample_leg_def no_leg_def SECONDS_def)
  have r2: "maker_run sample_terms b (mw 10 Standing Absent 10) (mw 10 Standing Standing 10)"
    using maker_acts [OF v, of b 10] that by (simp add: s near_def)
  show ?thesis using r1 r2 by (meson rtranclp.rtrancl_refl converse_rtranclp_into_rtranclp)
qed

lemma sample_maker_run:
  "(maker_run sample_terms sample_bounds)\<^sup>*\<^sup>* (maker_start 10) ((mw 20010 Standing LClaimed 20010)\<lparr>w_claim := Some 20010\<rparr>)"
proof -
  define f where "f = (sample_facts Maker 20010000)\<lparr>fa_secretKnown := True\<rparr>"
  have s: "nextSettleStep sample_terms f = SClaim"
    by (simp add: f_def sample_facts_def sample_leg_def no_leg_def sample_terms_def step_defs SECONDS_def)
  have r1: "maker_run sample_terms sample_bounds (mw 10 Standing Standing 10) (mw 20010 Standing Standing 10)"
    using maker_time [of "mw 10 Standing Standing 10" 20010 sample_bounds] by (simp add: in_time_def sample_bounds_def)
  have r2: "maker_run sample_terms sample_bounds (mw 20010 Standing Standing 10) ((mw 20010 Standing Standing 10)\<lparr>w_theirs := Some 20010\<rparr>)"
    using any_taker_claims [of "mw 20010 Standing Standing 10"] by simp
  have r3: "maker_run sample_terms sample_bounds ((mw 20010 Standing Standing 10)\<lparr>w_theirs := Some 20010\<rparr>) (mw 20010 Standing LClaimed 10)"
    using theirs_lands [of "(mw 20010 Standing Standing 10)\<lparr>w_theirs := Some 20010\<rparr>"] by simp
  have v: "maker_view sample_terms (mw 20010 Standing LClaimed 10) f"
    by (simp add: maker_view_def f_def sample_facts_def sample_leg_def no_leg_def SECONDS_def)
  have r4: "maker_run sample_terms sample_bounds (mw 20010 Standing LClaimed 10) ((mw 20010 Standing LClaimed 20010)\<lparr>w_claim := Some 20010\<rparr>)"
    using maker_acts [OF v, of sample_bounds 20010] by (simp add: s near_def sample_bounds_def)
  have "(maker_run sample_terms sample_bounds)\<^sup>*\<^sup>* (mw 10 Standing Standing 10) ((mw 20010 Standing LClaimed 20010)\<lparr>w_claim := Some 20010\<rparr>)"
    using r1 r2 r3 r4 by (meson rtranclp.rtrancl_refl converse_rtranclp_into_rtranclp)
  then show ?thesis using maker_locks_run [of sample_bounds] by (simp add: sample_bounds_def)
qed

lemma steady_maker_is_never_robbed_witness:
  "w_taker ((mw 20010 Standing LClaimed 20010)\<lparr>w_claim := Some 20010\<rparr>) \<noteq> LRefunded \<and> wb_firstSeen sample_bounds"
  using steady_maker_is_never_robbed [OF sample_maker_run] by (simp add: sample_bounds_def sample_terms_def)

section \<open>Two ways to lose a standing lock\<close>

text \<open>
  \<open>refund\<close> (\<open>settleSteps.ts\<close>) records the lock as taken back when the refund is broadcast, and
  \<open>gather\<close> then stops reading the own lock's spend, so the next step ends the swap. Where the
  chain lets the taker's claim displace that refund, the maker never claims the taker's lock.
\<close>

lemma refund_in_flight_ends_the_swap:
  assumes "maker_view t w f" and "w_took w" and "w_maker w \<noteq> Absent" and "\<not> secured w" and "\<not> fa_secretKnown f"
  shows "nextSettleStep t f = SDone Refunded"
  using assms by (auto simp: maker_view_def secured_def nextSettleStep_def maker_step_def Let_def)

definition loose_bounds :: "bool \<Rightarrow> world_bounds" where
  "loose_bounds first = \<lparr>wb_skew = 0, wb_delay = 86400, wb_period = 259192, wb_firstSeen = first\<rparr>"

lemma displaced_refund_robs_maker:
  "(maker_run sample_terms (loose_bounds False))\<^sup>*\<^sup>* (maker_start 10) ((mw 259202 LRefunded LClaimed 172802)\<lparr>w_took := True\<rparr>)"
proof -
  let ?b = "loose_bounds False"
  let ?t = "\<lambda>w. w\<lparr>w_took := True\<rparr>"
  define f where "f = sample_facts Maker 172802000"
  have s: "nextSettleStep sample_terms f = SRefund"
    by (simp add: f_def sample_facts_def sample_leg_def sample_terms_def step_defs own_lock_def SECONDS_def)
  have t2: "st_t2 sample_terms = 172802" "st_t1 sample_terms = 259202" by (simp_all add: sample_terms_def)
  have r1: "maker_run sample_terms ?b (mw 10 Standing Standing 10) (mw 172802 Standing Standing 10)"
    using maker_time [of "mw 10 Standing Standing 10" 172802 ?b] by (simp add: in_time_def loose_bounds_def)
  have v: "maker_view sample_terms (mw 172802 Standing Standing 10) f"
    by (simp add: maker_view_def f_def sample_facts_def sample_leg_def SECONDS_def)
  have r2: "maker_run sample_terms ?b (mw 172802 Standing Standing 10) (?t ((mw 172802 Standing Standing 172802)\<lparr>w_refund := Some 172802\<rparr>))"
    using maker_acts [OF v, of ?b 172802] by (simp add: s near_def loose_bounds_def t2)
  have r3: "maker_run sample_terms ?b (?t ((mw 172802 Standing Standing 172802)\<lparr>w_refund := Some 172802\<rparr>))
      (?t ((mw 172802 Standing Standing 172802)\<lparr>w_theirs := Some 172802\<rparr>))"
    using any_taker_claims [of "?t ((mw 172802 Standing Standing 172802)\<lparr>w_refund := Some 172802\<rparr>)" ?b]
    by (simp add: loose_bounds_def)
  have r4: "maker_run sample_terms ?b (?t ((mw 172802 Standing Standing 172802)\<lparr>w_theirs := Some 172802\<rparr>)) (?t (mw 172802 Standing LClaimed 172802))"
    using theirs_lands [of "?t ((mw 172802 Standing Standing 172802)\<lparr>w_theirs := Some 172802\<rparr>)"] by simp
  have r5: "maker_run sample_terms ?b (?t (mw 172802 Standing LClaimed 172802)) (?t (mw 259202 Standing LClaimed 172802))"
    using maker_time [of "?t (mw 172802 Standing LClaimed 172802)" 259202 ?b] by (simp add: in_time_def loose_bounds_def)
  have r6: "maker_run sample_terms ?b (?t (mw 259202 Standing LClaimed 172802)) (?t (mw 259202 LRefunded LClaimed 172802))"
    using any_taker_refunds [of "?t (mw 259202 Standing LClaimed 172802)" ?b 259202 sample_terms] by (simp add: near_def loose_bounds_def t2)
  have "(maker_run sample_terms ?b)\<^sup>*\<^sup>* (mw 10 Standing Standing 10) (?t (mw 259202 LRefunded LClaimed 172802))"
    using r1 r2 r3 r4 r5 r6 by (meson rtranclp.rtrancl_refl converse_rtranclp_into_rtranclp)
  then show ?thesis using maker_locks_run [of ?b] by (simp add: loose_bounds_def)
qed

text \<open>
  A maker back online past both lock times with its own lock still standing would refund it. If the
  taker, its own lock taken back, now sends the secret, the step ends the swap as missed instead,
  and the standing lock is left to whoever holds the secret.
\<close>

lemma late_secret_forfeits_standing_lock:
  assumes "maker_view t w f" and "w_maker w = Standing" and "w_taker w = LRefunded" and "w_claim w = None" and "\<not> w_took w"
    and "st_t2 t \<le> w_clock w" and "lf_refunded (fa_peer f)"
  shows "nextSettleStep t f = (if fa_secretKnown f then SDone Missed else SRefund)"
  using assms by (simp add: maker_view_def nextSettleStep_def maker_step_def own_lock_def Let_def)

end
