(* ===== verification/Change_Selection.thy ===== *)
theory Change_Selection
  imports Complex_Main Wallet_Prelude "HOL-Library.Multiset"
begin

text \<open>
  Which coins fund an action (\<open>src/packages/wallet-engine/src/storage/methods/actionPlanning.ts\<close>):
  the reference policy \<open>selectCanonicalChange\<close> (exact, least over, largest under), the selector
  that sorts once and finds its place by binary search, the repeatable random numbers and the
  Fisher-Yates assignment of output indices. Satoshis and ids are integers; lengths stay below
  \<open>2 ^ 31\<close>, where \<open>>>> 1\<close> halves.
\<close>

record candidate =
  cd_outputId :: int
  cd_satoshis :: int

section \<open>The reference policy\<close>

text \<open>\<open>sort((a, b) => a.satoshis - b.satoshis || a.outputId - b.outputId)\<close> and its reverse order: the
  sorts are stable, so the last key decides first.\<close>

definition sort_asc :: "('a) candidate_scheme list \<Rightarrow> ('a) candidate_scheme list" where
  "sort_asc cs = sort_key cd_satoshis (sort_key cd_outputId cs)"

definition sort_desc :: "('a) candidate_scheme list \<Rightarrow> ('a) candidate_scheme list" where
  "sort_desc cs = sort_key (\<lambda>c. - cd_satoshis c) (sort_key (\<lambda>c. - cd_outputId c) cs)"

definition first_of :: "'b list \<Rightarrow> 'b option" where
  "first_of xs = (case xs of [] \<Rightarrow> None | x # _ \<Rightarrow> Some x)"

definition selectCanonicalChange :: "('a) candidate_scheme list \<Rightarrow> int \<Rightarrow> int option \<Rightarrow> ('a) candidate_scheme option" where
  "selectCanonicalChange outputs target exact =
     (case (case exact of None \<Rightarrow> None
            | Some e \<Rightarrow> first_of (sort_key cd_outputId (filter (\<lambda>c. cd_satoshis c = e) outputs))) of
        Some c \<Rightarrow> Some c
      | None \<Rightarrow> (case first_of (sort_asc (filter (\<lambda>c. cd_satoshis c \<ge> target) outputs)) of
            Some c \<Rightarrow> Some c
          | None \<Rightarrow> first_of (sort_desc (filter (\<lambda>c. cd_satoshis c < target) outputs))))"

section \<open>The selector that sorts once\<close>

record selector =
  sel_sorted :: "candidate list"
  sel_allocated :: "int list"

definition new_selector :: "candidate list \<Rightarrow> selector" where
  "new_selector outputs = \<lparr>sel_sorted = sort_asc outputs, sel_allocated = []\<rparr>"

function lower_bound :: "candidate list \<Rightarrow> int \<Rightarrow> nat \<Rightarrow> nat \<Rightarrow> nat" where
  "lower_bound cs satoshis low high =
     (if low < high then
        (let middle = (low + high) div 2 in
         if cd_satoshis (cs ! middle) < satoshis then lower_bound cs satoshis (middle + 1) high
         else lower_bound cs satoshis low middle)
      else low)"
  by pat_completeness auto

termination by (relation "measure (\<lambda>(cs, s, low, high). high - low)") auto

declare lower_bound.simps [simp del]

definition lowerBound :: "selector \<Rightarrow> int \<Rightarrow> nat" where
  "lowerBound sel satoshis = lower_bound (sel_sorted sel) satoshis 0 (List.length (sel_sorted sel))"

definition allocate :: "selector \<Rightarrow> candidate \<Rightarrow> selector" where
  "allocate sel c = sel\<lparr>sel_allocated := List.insert (cd_outputId c) (sel_allocated sel)\<rparr>"

text \<open>The three scanning loops: upwards while the amount is exact, upwards, downwards.\<close>

fun scan_exact :: "int \<Rightarrow> int list \<Rightarrow> candidate list \<Rightarrow> candidate option" where
  "scan_exact e allocated [] = None"
| "scan_exact e allocated (c # cs) =
     (if cd_satoshis c \<noteq> e then None
      else if cd_outputId c \<notin> set allocated then Some c else scan_exact e allocated cs)"

fun scan_free :: "int list \<Rightarrow> candidate list \<Rightarrow> candidate option" where
  "scan_free allocated [] = None"
| "scan_free allocated (c # cs) = (if cd_outputId c \<notin> set allocated then Some c else scan_free allocated cs)"

definition selector_find :: "selector \<Rightarrow> int \<Rightarrow> int option \<Rightarrow> candidate option" where
  "selector_find sel target exact =
     (let cs = sel_sorted sel; allocated = sel_allocated sel in
      case (case exact of None \<Rightarrow> None | Some e \<Rightarrow> scan_exact e allocated (List.drop (lowerBound sel e) cs)) of
        Some c \<Rightarrow> Some c
      | None \<Rightarrow> (case scan_free allocated (List.drop (lowerBound sel target) cs) of
            Some c \<Rightarrow> Some c
          | None \<Rightarrow> scan_free allocated (rev (List.take (lowerBound sel target) cs))))"

definition selector_take :: "selector \<Rightarrow> int \<Rightarrow> int option \<Rightarrow> selector \<times> candidate option" where
  "selector_take sel target exact =
     (case selector_find sel target exact of Some c \<Rightarrow> (allocate sel c, Some c) | None \<Rightarrow> (sel, None))"

definition selector_release :: "selector \<Rightarrow> int \<Rightarrow> selector" where
  "selector_release sel outputId = sel\<lparr>sel_allocated := removeAll outputId (sel_allocated sel)\<rparr>"

section \<open>Binary search\<close>

lemma lower_bound_spec:
  assumes "sorted (map cd_satoshis cs)" and "high \<le> List.length cs" and "low \<le> high"
    and "\<And>j. j < low \<Longrightarrow> cd_satoshis (cs ! j) < s"
    and "\<And>j. high \<le> j \<Longrightarrow> j < List.length cs \<Longrightarrow> s \<le> cd_satoshis (cs ! j)"
  shows "lower_bound cs s low high \<le> List.length cs
    \<and> (\<forall>j < lower_bound cs s low high. cd_satoshis (cs ! j) < s)
    \<and> (\<forall>j. lower_bound cs s low high \<le> j \<and> j < List.length cs \<longrightarrow> s \<le> cd_satoshis (cs ! j))"
  using assms
proof (induction cs s low high rule: lower_bound.induct)
  case (1 cs s low high)
  have mono: "i \<le> j \<Longrightarrow> j < List.length cs \<Longrightarrow> cd_satoshis (cs ! i) \<le> cd_satoshis (cs ! j)" for i j
    using sorted_nth_mono [OF "1.prems"(1), of i j] by simp
  define middle where "middle = (low + high) div 2"
  show ?case
  proof (cases "low < high")
    case True
    then have m: "low \<le> middle" "middle < high" by (auto simp: middle_def)
    show ?thesis
    proof (cases "cd_satoshis (cs ! middle) < s")
      case less: True
      have "cd_satoshis (cs ! j) < s" if "j < middle + 1" for j
        using mono [of j middle] that m less "1.prems"(2) by (simp add: less_Suc_eq_le)
      note below = this
      have e: "lower_bound cs s low high = lower_bound cs s (middle + 1) high"
        using True less by (simp add: lower_bound.simps [of cs s low high] middle_def [symmetric] Let_def)
      show ?thesis
        unfolding e
        by (rule "1.IH"(1) [OF True middle_def less "1.prems"(1,2) _ below "1.prems"(5)]) (use m in simp_all)
    next
      case False
      have "s \<le> cd_satoshis (cs ! j)" if "middle \<le> j" "j < List.length cs" for j
        using mono [of middle j] that False by simp
      note above = this
      have e: "lower_bound cs s low high = lower_bound cs s low middle"
        using True False by (simp add: lower_bound.simps [of cs s low high] middle_def [symmetric] Let_def)
      show ?thesis
        unfolding e
        by (rule "1.IH"(2) [OF True middle_def False "1.prems"(1) _ m(1) "1.prems"(4) above]) (use m "1.prems"(2) in simp_all)
    qed
  next
    case False
    then have "lower_bound cs s low high = low" by (simp add: lower_bound.simps [of cs s low high])
    then show ?thesis using "1.prems" False by simp
  qed
qed

lemma split_at_bound:
  assumes "sorted (map cd_satoshis cs)"
  shows "List.take (lower_bound cs s 0 (List.length cs)) cs = filter (\<lambda>c. cd_satoshis c < s) cs"
    and "List.drop (lower_bound cs s 0 (List.length cs)) cs = filter (\<lambda>c. s \<le> cd_satoshis c) cs"
proof -
  define i where "i = lower_bound cs s 0 (List.length cs)"
  have i: "i \<le> List.length cs" "\<And>j. j < i \<Longrightarrow> cd_satoshis (cs ! j) < s"
    "\<And>j. i \<le> j \<Longrightarrow> j < List.length cs \<Longrightarrow> s \<le> cd_satoshis (cs ! j)"
    using lower_bound_spec [OF assms, of "List.length cs" 0 s] by (simp_all add: i_def)
  have t: "\<forall>c \<in> set (List.take i cs). cd_satoshis c < s"
    using i(1,2) by (auto simp: in_set_conv_nth)
  have d: "\<forall>c \<in> set (List.drop i cs). s \<le> cd_satoshis c"
    using i(1,3) by (auto simp: in_set_conv_nth)
  have "filter (\<lambda>c. cd_satoshis c < s) (List.take i cs @ List.drop i cs) = List.take i cs"
    using t d unfolding filter_append by (subst filter_True, simp, subst filter_False) (auto simp: not_less)
  moreover have "filter (\<lambda>c. s \<le> cd_satoshis c) (List.take i cs @ List.drop i cs) = List.drop i cs"
    using t d unfolding filter_append by (subst filter_False, force simp: not_le, subst filter_True) auto
  ultimately show "List.take (lower_bound cs s 0 (List.length cs)) cs = filter (\<lambda>c. cd_satoshis c < s) cs"
    "List.drop (lower_bound cs s 0 (List.length cs)) cs = filter (\<lambda>c. s \<le> cd_satoshis c) cs"
    by (simp_all add: i_def)
qed

section \<open>The selector keeps the policy's order\<close>

lemma set_sort_asc [simp]: "set (sort_asc cs) = set cs"
  by (simp add: sort_asc_def)

lemma set_sort_desc [simp]: "set (sort_desc cs) = set cs"
  by (simp add: sort_desc_def)

lemma sorted_sort_asc: "sorted (map cd_satoshis (sort_asc cs))"
  by (simp add: sort_asc_def)

lemma filter_sort_asc: "filter P (sort_asc cs) = sort_asc (filter P cs)"
  by (simp add: sort_asc_def filter_sort)

lemma sort_key_const: "(\<And>x. x \<in> set xs \<Longrightarrow> f x = k) \<Longrightarrow> sort_key f xs = xs"
  by (induction xs) (simp_all add: insort_is_Cons)

lemma sort_asc_same: "(\<And>c. c \<in> set cs \<Longrightarrow> cd_satoshis c = e) \<Longrightarrow> sort_asc cs = sort_key cd_outputId cs"
  unfolding sort_asc_def by (rule sort_key_const [where k = e]) simp

text \<open>Both orders as one strict order; with distinct ids a list has one arrangement in it.\<close>

definition cd_less :: "('a) candidate_scheme \<Rightarrow> ('a) candidate_scheme \<Rightarrow> bool" where
  "cd_less a b = (cd_satoshis a < cd_satoshis b \<or> cd_satoshis a = cd_satoshis b \<and> cd_outputId a < cd_outputId b)"

lemma sort_key_keeps_order:
  assumes "sorted_wrt R xs" and "transp S" and "\<And>a b. f a < f b \<Longrightarrow> S a b" and "\<And>a b. R a b \<Longrightarrow> f a = f b \<Longrightarrow> S a b"
  shows "sorted_wrt S (sort_key (f :: 'b \<Rightarrow> int) xs)"
proof -
  have ins: "sorted_wrt S (insort_key f x ys)"
    if "sorted_wrt S ys" "\<And>y. y \<in> set ys \<Longrightarrow> R x y" "sorted (map f ys)" for x ys
    using that
  proof (induction ys)
    case (Cons y ys)
    show ?case
    proof (cases "f x \<le> f y")
      case True
      have "S x z" if "z \<in> set (y # ys)" for z
        using True Cons.prems(2) [OF that] Cons.prems(3) that assms(3,4) by (cases "f x = f z") (auto intro: order_le_neq_trans)
      then show ?thesis using True Cons.prems(1) by simp
    next
      case False
      then have "S y x" using assms(3) by simp
      then show ?thesis using False Cons by (auto simp: set_insort_key)
    qed
  qed simp
  show ?thesis
    using assms(1)
  proof (induction xs)
    case (Cons x xs)
    then show ?case using ins [of "sort_key f xs" x] by simp
  qed simp
qed

lemma sorted_by_id:
  assumes "distinct (map cd_outputId cs)"
  shows "sorted_wrt (\<lambda>a b. cd_outputId a < cd_outputId b) (sort_key cd_outputId cs)"
    "sorted_wrt (\<lambda>a b. cd_outputId b < cd_outputId a) (sort_key (\<lambda>c. - cd_outputId c) cs)"
proof -
  have m: "mset (map cd_outputId (sort_key g cs)) = mset (map cd_outputId cs)" for g :: "'a candidate_scheme \<Rightarrow> int"
    by simp
  have d: "distinct (map cd_outputId (sort_key g cs))" for g :: "'a candidate_scheme \<Rightarrow> int"
    using m [of g] assms by (metis mset_eq_imp_distinct_iff)
  have "sorted_wrt (<) (map cd_outputId (sort_key cd_outputId cs))"
    unfolding strict_sorted_iff using d [of cd_outputId] by simp
  then show "sorted_wrt (\<lambda>a b. cd_outputId a < cd_outputId b) (sort_key cd_outputId cs)"
    by (simp add: sorted_wrt_map)
  have "distinct (map (\<lambda>c. - cd_outputId c) (sort_key (\<lambda>c. - cd_outputId c) cs))"
    using d [of "\<lambda>c. - cd_outputId c"] by (simp add: distinct_map inj_on_def)
  then have "sorted_wrt (<) (map (\<lambda>c. - cd_outputId c) (sort_key (\<lambda>c. - cd_outputId c) cs))"
    unfolding strict_sorted_iff by simp
  then show "sorted_wrt (\<lambda>a b. cd_outputId b < cd_outputId a) (sort_key (\<lambda>c. - cd_outputId c) cs)"
    by (simp add: sorted_wrt_map)
qed

lemma sort_asc_strict: "distinct (map cd_outputId cs) \<Longrightarrow> sorted_wrt cd_less (sort_asc cs)"
  unfolding sort_asc_def
  by (rule sort_key_keeps_order [OF sorted_by_id(1)]) (auto simp: cd_less_def transp_def)

lemma sort_desc_strict: "distinct (map cd_outputId cs) \<Longrightarrow> sorted_wrt (\<lambda>a b. cd_less b a) (sort_desc cs)"
  unfolding sort_desc_def
  by (rule sort_key_keeps_order [OF sorted_by_id(2)]) (auto simp: cd_less_def transp_def)

lemma sorted_wrt_unique:
  assumes "sorted_wrt R xs" and "sorted_wrt R ys" and "mset xs = mset ys" and "\<And>a b. R a b \<Longrightarrow> \<not> R b a" and "\<And>a. \<not> R a a"
  shows "xs = ys"
  using assms(1-3)
proof (induction xs arbitrary: ys)
  case (Cons x xs)
  then obtain y ys' where ys: "ys = y # ys'" by (cases ys) auto
  have "x = y"
  proof (rule ccontr)
    assume "x \<noteq> y"
    then have "x \<in> set ys'" "y \<in> set xs" using Cons.prems(3) ys by (metis list.set_intros(1) mset_eq_setD set_ConsD)+
    then show False using Cons.prems(1,2) ys assms(4) by auto
  qed
  then show ?case using Cons ys by auto
qed simp

lemma rev_sort_asc:
  assumes "distinct (map cd_outputId cs)"
  shows "rev (sort_asc cs) = sort_desc cs"
proof (rule sorted_wrt_unique [where R = "\<lambda>a b. cd_less b a"])
  show "sorted_wrt (\<lambda>a b. cd_less b a) (rev (sort_asc cs))"
    using sort_asc_strict [OF assms] by (simp add: sorted_wrt_rev)
  show "sorted_wrt (\<lambda>a b. cd_less b a) (sort_desc cs)" by (rule sort_desc_strict [OF assms])
  show "mset (rev (sort_asc cs)) = mset (sort_desc cs)" by (simp add: sort_asc_def sort_desc_def)
qed (auto simp: cd_less_def)

section \<open>The scans\<close>

lemma scan_free_first: "scan_free allocated cs = first_of (filter (\<lambda>c. cd_outputId c \<notin> set allocated) cs)"
  by (induction cs) (simp_all add: first_of_def)

lemma scan_exact_first:
  "sorted (map cd_satoshis cs) \<Longrightarrow> (\<And>c. c \<in> set cs \<Longrightarrow> e \<le> cd_satoshis c) \<Longrightarrow>
   scan_exact e allocated cs = first_of (filter (\<lambda>c. cd_outputId c \<notin> set allocated) (filter (\<lambda>c. cd_satoshis c = e) cs))"
proof (induction cs)
  case (Cons c cs)
  show ?case
  proof (cases "cd_satoshis c = e")
    case False
    then have "e < cd_satoshis c" using Cons.prems(2) [of c] by simp
    then have "filter (\<lambda>c. cd_satoshis c = e) (c # cs) = []" using Cons.prems(1) by (auto simp: filter_empty_conv)
    then show ?thesis using False by (simp add: first_of_def)
  next
    case True
    then show ?thesis using Cons by (simp add: first_of_def)
  qed
qed (simp add: first_of_def)

text \<open>What is not allocated, in the selector's order.\<close>

definition sel_free :: "selector \<Rightarrow> candidate list" where
  "sel_free sel = filter (\<lambda>c. cd_outputId c \<notin> set (sel_allocated sel)) (sel_sorted sel)"

lemma selector_find_is_policy:
  assumes "sel_sorted sel = sort_asc outputs" and "distinct (map cd_outputId outputs)"
  shows "selector_find sel target exact =
    selectCanonicalChange (filter (\<lambda>c. cd_outputId c \<notin> set (sel_allocated sel)) outputs) target exact"
proof -
  define fr where "fr = (\<lambda>c :: candidate. cd_outputId c \<notin> set (sel_allocated sel))"
  have srt: "sorted (map cd_satoshis (sel_sorted sel))" by (simp add: assms(1) sorted_sort_asc)
  note bound = split_at_bound [OF srt, folded lowerBound_def]
  have ex: "scan_exact e (sel_allocated sel) (List.drop (lowerBound sel e) (sel_sorted sel))
      = first_of (sort_key cd_outputId (filter (\<lambda>c. cd_satoshis c = e) (filter fr outputs)))" for e
  proof -
    have d: "List.drop (lowerBound sel e) (sel_sorted sel) = filter (\<lambda>c. e \<le> cd_satoshis c) (sort_asc outputs)"
      unfolding bound(2) by (simp add: assms(1))
    have s: "sorted (map cd_satoshis (filter (\<lambda>c. e \<le> cd_satoshis c) (sort_asc outputs)))"
      unfolding filter_sort_asc by (rule sorted_sort_asc)
    have "filter (\<lambda>c. cd_satoshis c = e) (filter (\<lambda>c. e \<le> cd_satoshis c) (sort_asc outputs))
        = filter (\<lambda>c. cd_satoshis c = e) (sort_asc outputs)"
      by (simp add: conj_commute cong: conj_cong)
    then have "scan_exact e (sel_allocated sel) (List.drop (lowerBound sel e) (sel_sorted sel))
        = first_of (filter fr (filter (\<lambda>c. cd_satoshis c = e) (sort_asc outputs)))"
      unfolding d using scan_exact_first [OF s, of e "sel_allocated sel"] by (simp add: fr_def)
    also have "\<dots> = first_of (sort_asc (filter (\<lambda>c. cd_satoshis c = e) (filter fr outputs)))"
      by (simp add: filter_sort_asc conj_commute)
    also have "\<dots> = first_of (sort_key cd_outputId (filter (\<lambda>c. cd_satoshis c = e) (filter fr outputs)))"
      by (subst sort_asc_same [where e = e]) simp_all
    finally show ?thesis .
  qed
  have up: "scan_free (sel_allocated sel) (List.drop (lowerBound sel target) (sel_sorted sel))
      = first_of (sort_asc (filter (\<lambda>c. cd_satoshis c \<ge> target) (filter fr outputs)))"
    unfolding bound(2) unfolding scan_free_first fr_def [symmetric] assms(1) filter_sort_asc by (simp add: conj_commute)
  have "rev (filter fr (filter (\<lambda>c. cd_satoshis c < target) (sort_asc outputs)))
      = sort_desc (filter (\<lambda>c. cd_satoshis c < target) (filter fr outputs))"
    using assms(2) unfolding filter_sort_asc by (subst rev_sort_asc) (simp_all add: distinct_map_filter conj_commute)
  then have down: "scan_free (sel_allocated sel) (rev (List.take (lowerBound sel target) (sel_sorted sel)))
      = first_of (sort_desc (filter (\<lambda>c. cd_satoshis c < target) (filter fr outputs)))"
    unfolding bound(1) unfolding scan_free_first fr_def [symmetric] assms(1) by (simp add: rev_filter)
  show ?thesis
    unfolding selector_find_def selectCanonicalChange_def Let_def up down fr_def [symmetric]
    by (cases exact) (simp_all add: ex)
qed

section \<open>What an allocator promises\<close>

text \<open>
  Change generation draws its coins from an allocator and hands them back to it. Its contract:
  an allocated coin was free and is no longer; nothing is answered only when nothing is free; a
  coin handed back is free again. \<open>coins\<close> are all it ever had.
\<close>

locale change_allocator =
  fixes alloc :: "'s \<Rightarrow> int \<Rightarrow> int option \<Rightarrow> 's \<times> candidate option"
    and release :: "'s \<Rightarrow> int \<Rightarrow> 's"
    and free :: "'s \<Rightarrow> candidate multiset"
    and coins :: "'s \<Rightarrow> candidate set"
    and ok :: "'s \<Rightarrow> bool"
  assumes alloc_some: "ok s \<Longrightarrow> alloc s t e = (s', Some c) \<Longrightarrow> ok s' \<and> free s = add_mset c (free s') \<and> coins s' = coins s"
    and alloc_none: "ok s \<Longrightarrow> alloc s t e = (s', None) \<Longrightarrow> s' = s \<and> free s = {#}"
    and release_one: "ok s \<Longrightarrow> c \<in> coins s \<Longrightarrow> c \<notin># free s \<Longrightarrow>
      ok (release s (cd_outputId c)) \<and> free (release s (cd_outputId c)) = add_mset c (free s) \<and> coins (release s (cd_outputId c)) = coins s"
    and free_coins: "ok s \<Longrightarrow> set_mset (free s) \<subseteq> coins s"
    and free_once: "ok s \<Longrightarrow> count (free s) c \<le> 1"
begin

lemma allocated_is_coin: "ok s \<Longrightarrow> alloc s t e = (s', Some c) \<Longrightarrow> c \<in> coins s' \<and> c \<notin># free s'"
proof -
  assume "ok s" "alloc s t e = (s', Some c)"
  from alloc_some [OF this] have f: "free s = add_mset c (free s')" "coins s' = coins s" by simp_all
  have "count (free s) c \<le> 1" using free_once [OF \<open>ok s\<close>] .
  then show ?thesis using f free_coins [OF \<open>ok s\<close>] by (auto simp: not_in_iff)
qed

lemma alloc_shrinks: "ok s \<Longrightarrow> alloc s t e = (s', Some c) \<Longrightarrow> size (free s') < size (free s)"
  using alloc_some by fastforce

text \<open>Handing back a list of held coins.\<close>

lemma release_all:
  "ok s \<Longrightarrow> set cs \<subseteq> coins s \<Longrightarrow> distinct cs \<Longrightarrow> set cs \<inter> set_mset (free s) = {} \<Longrightarrow>
   ok (fold_steps release s (map cd_outputId cs)) \<and> free (fold_steps release s (map cd_outputId cs)) = mset cs + free s
     \<and> coins (fold_steps release s (map cd_outputId cs)) = coins s"
proof (induction cs arbitrary: s)
  case (Cons c cs)
  from Cons.prems have r: "ok (release s (cd_outputId c))" "free (release s (cd_outputId c)) = add_mset c (free s)"
    "coins (release s (cd_outputId c)) = coins s"
    using release_one [of s c] by auto
  show ?case using Cons.IH [OF r(1)] Cons.prems r(2,3) by simp
qed simp

end

definition selector_coins :: "selector \<Rightarrow> candidate set" where
  "selector_coins sel = set (sel_sorted sel)"

definition selector_ok :: "selector \<Rightarrow> bool" where
  "selector_ok sel = (distinct (map cd_outputId (sel_sorted sel)) \<and> sel_sorted sel = sort_asc (sel_sorted sel))"

lemma first_of_in: "first_of xs = Some c \<Longrightarrow> c \<in> set xs"
  by (cases xs) (simp_all add: first_of_def)

lemma first_of_none: "first_of xs = None \<longleftrightarrow> xs = []"
  by (cases xs) (simp_all add: first_of_def)

lemma policy_in: "selectCanonicalChange cs t e = Some c \<Longrightarrow> c \<in> set cs"
  by (auto simp: selectCanonicalChange_def dest!: first_of_in split: option.splits)

lemma policy_none: "selectCanonicalChange cs t e = None \<longleftrightarrow> cs = []"
proof
  assume n: "selectCanonicalChange cs t e = None"
  then have "sort_asc (filter (\<lambda>c. cd_satoshis c \<ge> t) cs) = []" "sort_desc (filter (\<lambda>c. cd_satoshis c < t) cs) = []"
    by (auto simp: selectCanonicalChange_def first_of_none split: option.splits)
  then have "set (filter (\<lambda>c. cd_satoshis c \<ge> t) cs) = {}" "set (filter (\<lambda>c. cd_satoshis c < t) cs) = {}"
    by (metis set_sort_asc list.set(1), metis set_sort_desc list.set(1))
  then show "cs = []" by (cases cs) (auto simp: not_le split: if_splits)
qed (simp add: selectCanonicalChange_def first_of_def sort_asc_def sort_desc_def split: option.split)

lemma selector_take_policy:
  "selector_ok sel \<Longrightarrow> snd (selector_take sel t e) = selectCanonicalChange (sel_free sel) t e"
  using selector_find_is_policy [of sel "sel_sorted sel" t e]
  by (auto simp: selector_ok_def selector_take_def sel_free_def split: option.split)

lemma selector_take_state:
  "fst (selector_take sel t e) = (case snd (selector_take sel t e) of Some c \<Rightarrow> allocate sel c | None \<Rightarrow> sel)"
  by (simp add: selector_take_def split: option.split)

lemma sel_free_allocate:
  assumes "selector_ok sel" and "c \<in> set (sel_free sel)"
  shows "mset (sel_free sel) = add_mset c (mset (sel_free (allocate sel c)))"
proof -
  have inj: "cd_outputId x = cd_outputId c \<Longrightarrow> x \<in> set (sel_sorted sel) \<Longrightarrow> x = c" for x
    using assms by (auto simp: selector_ok_def sel_free_def distinct_map inj_on_def)
  have d: "distinct (sel_free sel)" using assms(1) by (simp add: selector_ok_def sel_free_def distinct_map)
  have "sel_free (allocate sel c) = filter (\<lambda>x. x \<noteq> c) (sel_free sel)"
    using inj by (auto simp: sel_free_def allocate_def intro!: filter_cong)
  also have "\<dots> = removeAll c (sel_free sel)" unfolding removeAll_filter_not_eq by (rule filter_cong) auto
  also have "\<dots> = remove1 c (sel_free sel)" using d by (simp add: distinct_remove1_removeAll)
  finally have "mset (sel_free (allocate sel c)) = mset (sel_free sel) - {#c#}" by simp
  then show ?thesis using assms(2) by simp
qed

lemma sel_free_release:
  assumes "selector_ok sel" and "c \<in> selector_coins sel" and "c \<notin> set (sel_free sel)"
  shows "mset (sel_free (selector_release sel (cd_outputId c))) = add_mset c (mset (sel_free sel))"
proof -
  define sel' where "sel' = selector_release sel (cd_outputId c)"
  have c: "cd_outputId c \<in> set (sel_allocated sel)" using assms(2,3) by (simp add: selector_coins_def sel_free_def)
  have ok': "selector_ok sel'" using assms(1) by (simp add: sel'_def selector_ok_def selector_release_def)
  have free': "c \<in> set (sel_free sel')" using assms(2) by (simp add: sel'_def sel_free_def selector_coins_def selector_release_def)
  have "sel_free (allocate sel' c) = sel_free sel"
    using c by (auto simp: sel_free_def sel'_def allocate_def selector_release_def intro!: filter_cong)
  then show ?thesis using sel_free_allocate [OF ok' free'] by (simp add: sel'_def)
qed

interpretation sel: change_allocator selector_take selector_release "\<lambda>s. mset (sel_free s)" selector_coins selector_ok
proof unfold_locales
  fix s t e s' c
  assume ok: "selector_ok s" and a: "selector_take s t e = (s', Some c)"
  have "selectCanonicalChange (sel_free s) t e = Some c" using selector_take_policy [OF ok, of t e] a by simp
  then have "c \<in> set (sel_free s)" by (rule policy_in)
  moreover have "s' = allocate s c" using selector_take_state [of s t e] a by simp
  ultimately show "selector_ok s' \<and> mset (sel_free s) = add_mset c (mset (sel_free s')) \<and> selector_coins s' = selector_coins s"
    using sel_free_allocate [OF ok] ok by (simp add: selector_ok_def allocate_def selector_coins_def)
next
  fix s t e s'
  assume ok: "selector_ok s" and a: "selector_take s t e = (s', None)"
  have "selectCanonicalChange (sel_free s) t e = None" using selector_take_policy [OF ok, of t e] a by simp
  then have "sel_free s = []" by (simp only: policy_none)
  then show "s' = s \<and> mset (sel_free s) = {#}" using selector_take_state [of s t e] a by simp
next
  fix s c
  assume "selector_ok s" "c \<in> selector_coins s" "c \<notin># mset (sel_free s)"
  then show "selector_ok (selector_release s (cd_outputId c)) \<and>
      mset (sel_free (selector_release s (cd_outputId c))) = add_mset c (mset (sel_free s)) \<and>
      selector_coins (selector_release s (cd_outputId c)) = selector_coins s"
    using sel_free_release [of s c] by (simp add: selector_ok_def selector_release_def selector_coins_def)
next
  fix s c
  assume ok: "selector_ok s"
  show "set_mset (mset (sel_free s)) \<subseteq> selector_coins s" by (auto simp: sel_free_def selector_coins_def)
  have "distinct (sel_free s)" using ok by (simp add: selector_ok_def sel_free_def distinct_map)
  then show "count (mset (sel_free s)) c \<le> 1" by (simp add: distinct_count_atmost_1)
qed

section \<open>Random numbers and output indices\<close>

text \<open>
  \<open>repeatableRandom\<close>: given values are used in a cycle; without any, each draw is four random
  bytes over \<open>2 ^ 32\<close>. The random bytes are the parameter \<open>bytes\<close>, from the draw's number. The
  values are the code's doubles as rationals: a 32-bit fraction times a length below \<open>2 ^ 21\<close> is
  exact in a double.
\<close>

record random_state =
  rs_values :: "rat list"
  rs_drawn :: nat

definition next_random :: "(nat \<Rightarrow> nat) \<Rightarrow> random_state \<Rightarrow> random_state \<times> rat" where
  "next_random bytes rs = (case rs_values rs of
      v # vs \<Rightarrow> (rs\<lparr>rs_values := vs @ [v]\<rparr>, v)
    | [] \<Rightarrow> (rs\<lparr>rs_drawn := rs_drawn rs + 1\<rparr>, of_nat (bytes (rs_drawn rs) mod 2 ^ 32) / 2 ^ 32))"

definition repeatableRandom :: "rat list option \<Rightarrow> random_state" where
  "repeatableRandom randomVals = \<lparr>rs_values = (case randomVals of Some vs \<Rightarrow> vs | None \<Rightarrow> []), rs_drawn = 0\<rparr>"

definition swap_at :: "'b list \<Rightarrow> nat \<Rightarrow> nat \<Rightarrow> 'b list" where
  "swap_at xs i j = xs[i := xs ! j, j := xs ! i]"

fun shuffle_loop :: "(nat \<Rightarrow> nat) \<Rightarrow> nat \<Rightarrow> random_state \<Rightarrow> nat list \<Rightarrow> nat list" where
  "shuffle_loop bytes 0 rs vouts = vouts"
| "shuffle_loop bytes (Suc c) rs vouts =
     (let (rs', v) = next_random bytes rs; randomIndex = nat \<lfloor>v * of_nat (Suc c)\<rfloor>
      in shuffle_loop bytes c rs' (swap_at vouts c randomIndex))"

text \<open>The vouts assigned to the outputs, in their order.\<close>

definition randomizeOutputVouts :: "(nat \<Rightarrow> nat) \<Rightarrow> nat \<Rightarrow> rat list option \<Rightarrow> nat list" where
  "randomizeOutputVouts bytes n randomVals = shuffle_loop bytes n (repeatableRandom randomVals) [0..<n]"

definition unit_values :: "random_state \<Rightarrow> bool" where
  "unit_values rs = list_all (\<lambda>v. 0 \<le> v \<and> v < 1) (rs_values rs)"

lemma next_random_unit:
  assumes "unit_values rs" and "next_random bytes rs = (rs', v)"
  shows "unit_values rs' \<and> 0 \<le> v \<and> v < 1"
proof (cases "rs_values rs")
  case Nil
  have "(of_nat (bytes (rs_drawn rs) mod 2 ^ 32) :: rat) < of_nat (2 ^ 32)"
    by (simp only: of_nat_less_iff) simp
  then have "(of_nat (bytes (rs_drawn rs) mod 2 ^ 32) :: rat) / 2 ^ 32 < 1" by simp
  moreover have "(0 :: rat) \<le> of_nat (bytes (rs_drawn rs) mod 2 ^ 32) / 2 ^ 32" by simp
  ultimately show ?thesis using assms Nil by (auto simp: next_random_def unit_values_def)
next
  case (Cons u us)
  then show ?thesis using assms by (auto simp: next_random_def unit_values_def list_all_iff)
qed

lemma shuffle_index: "0 \<le> v \<Longrightarrow> v < 1 \<Longrightarrow> nat \<lfloor>v * of_nat (Suc c)\<rfloor> < Suc c" for v :: rat
proof -
  assume v: "0 \<le> v" "v < 1"
  then have "v * of_nat (Suc c) < 1 * of_nat (Suc c)" by (intro mult_strict_right_mono) simp_all
  then have "\<lfloor>v * of_nat (Suc c)\<rfloor> < int (Suc c)" by (simp only: floor_less_iff mult_1 of_int_of_nat_eq)
  then show ?thesis by linarith
qed

lemma mset_swap_at: "i < List.length xs \<Longrightarrow> j < List.length xs \<Longrightarrow> mset (swap_at xs i j) = mset xs"
  by (simp add: swap_at_def mset_swap)

lemma shuffle_permutes:
  "unit_values rs \<Longrightarrow> n \<le> List.length vouts \<Longrightarrow> mset (shuffle_loop bytes n rs vouts) = mset vouts"
proof (induction bytes n rs vouts rule: shuffle_loop.induct)
  case (2 bytes c rs vouts)
  obtain rs' v where nx: "next_random bytes rs = (rs', v)" by force
  note u = next_random_unit [OF "2.prems"(1) nx]
  have i: "nat \<lfloor>v * of_nat (Suc c)\<rfloor> < List.length vouts" "c < List.length vouts"
    using shuffle_index [of v c] u "2.prems"(2) by simp_all
  have l: "List.length (swap_at vouts c k) = List.length vouts" for k by (simp add: swap_at_def)
  have "mset (shuffle_loop bytes c rs' (swap_at vouts c (nat \<lfloor>v * of_nat (Suc c)\<rfloor>))) = mset vouts"
    using "2.IH" [OF nx [symmetric] refl refl] u l "2.prems"(2) mset_swap_at [OF i(2,1)] by simp
  then show ?case by (simp add: nx del: of_nat_Suc)
qed simp

section \<open>Properties\<close>

datatype sel_op = TakeOp int "int option" | ReleaseOp int

text \<open>What the selector answers, and what the policy answers on the list of allocated ids.\<close>

fun sel_answers :: "selector \<Rightarrow> sel_op list \<Rightarrow> candidate option list" where
  "sel_answers sel [] = []"
| "sel_answers sel (TakeOp t e # ops) = snd (selector_take sel t e) # sel_answers (fst (selector_take sel t e)) ops"
| "sel_answers sel (ReleaseOp i # ops) = sel_answers (selector_release sel i) ops"

fun policy_answers :: "candidate list \<Rightarrow> int list \<Rightarrow> sel_op list \<Rightarrow> candidate option list" where
  "policy_answers outputs allocated [] = []"
| "policy_answers outputs allocated (TakeOp t e # ops) =
     (let answer = selectCanonicalChange (filter (\<lambda>c. cd_outputId c \<notin> set allocated) outputs) t e
      in answer # policy_answers outputs (case answer of Some c \<Rightarrow> cd_outputId c # allocated | None \<Rightarrow> allocated) ops)"
| "policy_answers outputs allocated (ReleaseOp i # ops) = policy_answers outputs (removeAll i allocated) ops"

lemma answers_agree:
  assumes "distinct (map cd_outputId outputs)"
  shows "sel_sorted sel = sort_asc outputs \<Longrightarrow> set (sel_allocated sel) = set allocated \<Longrightarrow>
    sel_answers sel ops = policy_answers outputs allocated ops"
proof (induction ops arbitrary: sel allocated)
  case (Cons op ops)
  show ?case
  proof (cases op)
    case (TakeOp t e)
    have a: "snd (selector_take sel t e) = selectCanonicalChange (filter (\<lambda>c. cd_outputId c \<notin> set allocated) outputs) t e"
      using selector_find_is_policy [OF Cons.prems(1) assms, of t e] Cons.prems(2)
      by (simp add: selector_take_def split: option.split)
    show ?thesis
    proof (cases "snd (selector_take sel t e)")
      case None
      then have "fst (selector_take sel t e) = sel" by (simp add: selector_take_state)
      then show ?thesis using Cons.IH [OF Cons.prems] a None TakeOp by (simp add: Let_def)
    next
      case (Some c)
      then have f: "fst (selector_take sel t e) = allocate sel c" by (simp add: selector_take_state)
      have "sel_answers (allocate sel c) ops = policy_answers outputs (cd_outputId c # allocated) ops"
        by (rule Cons.IH) (use Cons.prems in \<open>simp_all add: allocate_def\<close>)
      moreover have "selectCanonicalChange (filter (\<lambda>c. cd_outputId c \<notin> set allocated) outputs) t e = Some c"
        using a Some by simp
      ultimately show ?thesis using f Some TakeOp by (simp add: Let_def)
    qed
  next
    case (ReleaseOp i)
    then show ?thesis using Cons.IH [of "selector_release sel i" "removeAll i allocated"] Cons.prems
      by (simp add: selector_release_def)
  qed
qed simp

text \<open>C19. The selector that sorts once and searches by halving is the policy: for coins with
  distinct ids, any sequence of takes and releases gets from it exactly the coins that filtering
  and sorting all free coins afresh each time would choose.\<close>

theorem selector_refines_policy:
  assumes "distinct (map cd_outputId outputs)"
  shows "sel_answers (new_selector outputs) ops = policy_answers outputs [] ops"
  by (rule answers_agree [OF assms]) (simp_all add: new_selector_def)

lemma selector_refines_policy_witness:
  "sel_answers (new_selector [\<lparr>cd_outputId = 2, cd_satoshis = 50\<rparr>, \<lparr>cd_outputId = 1, cd_satoshis = 90\<rparr>])
     [TakeOp 60 None, TakeOp 60 (Some 50), ReleaseOp 1, TakeOp 70 None]
   = policy_answers [\<lparr>cd_outputId = 2, cd_satoshis = 50\<rparr>, \<lparr>cd_outputId = 1, cd_satoshis = 90\<rparr>] []
     [TakeOp 60 None, TakeOp 60 (Some 50), ReleaseOp 1, TakeOp 70 None]"
  by (rule selector_refines_policy) simp

text \<open>The output indices assigned at random are a permutation: every index below the count
  is given to exactly one output, whatever the random numbers in \<open>[0, 1)\<close>.\<close>

theorem random_vouts_are_a_permutation:
  assumes "case randomVals of None \<Rightarrow> True | Some vs \<Rightarrow> list_all (\<lambda>v. 0 \<le> v \<and> v < 1) vs"
  shows "mset (randomizeOutputVouts bytes n randomVals) = mset [0..<n]
    \<and> distinct (randomizeOutputVouts bytes n randomVals)"
proof -
  have "unit_values (repeatableRandom randomVals)"
    using assms by (simp add: unit_values_def repeatableRandom_def split: option.splits)
  then have "mset (randomizeOutputVouts bytes n randomVals) = mset [0..<n]"
    unfolding randomizeOutputVouts_def by (intro shuffle_permutes) simp_all
  moreover from this have "distinct (randomizeOutputVouts bytes n randomVals)"
    using mset_eq_imp_distinct_iff distinct_upt by blast
  ultimately show ?thesis by simp
qed

lemma random_vouts_are_a_permutation_witness:
  "mset (randomizeOutputVouts (\<lambda>_. 0) 3 (Some [1 / 2, 0])) = mset [0..<3]"
  using random_vouts_are_a_permutation [of "Some [1 / 2, 0]" "\<lambda>_. 0" 3] by simp

end
