(* ===== verification/Js_Number.thy ===== *)
theory Js_Number
  imports Complex_Main "HOL-Library.Log_Nat"
begin

text \<open>
  JavaScript's numbers where the code relies on their rounding: a double is a rational, and an
  arithmetic operation is the exact one followed by \<open>fl\<close>, rounding to 53 significant bits, ties
  to even (IEEE 754 binary64). The values of the modelled code stay far from the exponent's
  limits, so subnormal numbers and overflow are left out.
\<close>

definition round_half_even :: "rat \<Rightarrow> int" where
  "round_half_even y = (let n = \<lfloor>y\<rfloor>; d = y - of_int n in
     if d < 1 / 2 then n else if d > 1 / 2 then n + 1 else if even n then n else n + 1)"

text \<open>The binary exponent of a positive rational.\<close>

definition expo :: "rat \<Rightarrow> int" where
  "expo x = (let (p, q) = quotient_of x; k = bitlen p - bitlen q in if 2 powi k \<le> x then k else k - 1)"

definition fl :: "rat \<Rightarrow> rat" where
  "fl x = (if x = 0 then 0
     else let u = 2 powi (expo \<bar>x\<bar> - 52) in of_int (round_half_even (x / u)) * u)"

lemma round_half_even_int [simp]: "round_half_even (of_int n) = n"
  by (simp add: round_half_even_def)

lemma round_half_even_bounds: "\<lfloor>y\<rfloor> \<le> round_half_even y \<and> round_half_even y \<le> \<lfloor>y\<rfloor> + 1"
  by (simp add: round_half_even_def Let_def)

lemma round_half_even_mono:
  assumes "y \<le> z"
  shows "round_half_even y \<le> round_half_even z"
proof (cases "\<lfloor>y\<rfloor> = \<lfloor>z\<rfloor>")
  case True
  then show ?thesis using assms by (auto simp: round_half_even_def Let_def)
next
  case False
  then have "\<lfloor>y\<rfloor> + 1 \<le> \<lfloor>z\<rfloor>" using floor_mono [OF assms] by simp
  then show ?thesis using round_half_even_bounds [of y] round_half_even_bounds [of z] by linarith
qed

lemma expo_bounds:
  assumes "0 < x"
  shows "2 powi expo x \<le> x \<and> x < 2 powi (expo x + 1)"
proof -
  obtain p q where pq: "quotient_of x = (p, q)" by force
  have q: "0 < q" using quotient_of_denom_pos [OF pq] .
  have x: "x = of_int p / of_int q" using quotient_of_div [OF pq] .
  have p: "0 < p" using assms q unfolding x by (simp add: zero_less_divide_iff)
  define k where "k = bitlen p - bitlen q"
  have bp: "2 ^ nat (bitlen p - 1) \<le> p" "p < 2 ^ nat (bitlen p)" using bitlen_bounds [OF p] by simp_all
  have bq: "2 ^ nat (bitlen q - 1) \<le> q" "q < 2 ^ nat (bitlen q)" using bitlen_bounds [OF q] by simp_all
  have pos: "1 \<le> bitlen p" "1 \<le> bitlen q" using p q bitlen_nonneg [of p] bitlen_nonneg [of q] bitlen_eq_zero_iff [of p] bitlen_eq_zero_iff [of q]
    by linarith+
  have pw: "(2 :: rat) powi n = of_int (2 ^ nat n)" if "0 \<le> n" for n
    using that by (simp add: power_int_def)
  have P: "2 powi (bitlen p - 1) \<le> (of_int p :: rat)" "(of_int p :: rat) < 2 powi bitlen p"
    using bp pos by (simp_all only: pw of_int_le_iff of_int_less_iff)
  have Q: "2 powi (bitlen q - 1) \<le> (of_int q :: rat)" "(of_int q :: rat) < 2 powi bitlen q"
    using bq pos by (simp_all only: pw of_int_le_iff of_int_less_iff)
  have up: "x < 2 powi (k + 1)"
  proof -
    have "x \<le> of_int p / 2 powi (bitlen q - 1)"
      unfolding x by (rule divide_left_mono) (use Q p q in \<open>simp_all add: zero_less_power_int\<close>)
    also have "\<dots> < 2 powi bitlen p / 2 powi (bitlen q - 1)"
      by (rule divide_strict_right_mono [OF P(2)]) simp
    also have "\<dots> = 2 powi (bitlen p - (bitlen q - 1))" by (simp add: power_int_diff)
    finally show ?thesis by (simp add: k_def algebra_simps)
  qed
  have low: "2 powi (k - 1) \<le> x"
  proof -
    have "(2 :: rat) powi (k - 1) = 2 powi (bitlen p - 1 - bitlen q)" by (simp add: k_def algebra_simps)
    also have "\<dots> = (2 :: rat) powi (bitlen p - 1) / 2 powi bitlen q" by (rule power_int_diff) simp
    also have "\<dots> \<le> of_int p / 2 powi bitlen q" by (rule divide_right_mono [OF P(1)]) simp
    also have "\<dots> \<le> x" unfolding x by (rule divide_left_mono) (use Q p q in \<open>simp_all add: zero_less_power_int less_imp_le\<close>)
    finally show ?thesis .
  qed
  have e: "expo x = (if 2 powi k \<le> x then k else k - 1)" by (simp add: expo_def pq k_def Let_def)
  show ?thesis using up low by (simp add: e not_le)
qed

lemma expo_unique:
  assumes "2 powi e \<le> x" and "x < 2 powi (e + 1)"
  shows "expo x = e"
proof -
  have pos: "0 < x" using assms(1) zero_less_power_int [of "2 :: rat" e] by linarith
  have lt: "a < b" if "(2 :: rat) powi a < 2 powi b" for a b
    using that power_int_increasing [of b a "2 :: rat"] by (cases "b \<le> a") (simp_all add: not_le)
  have "2 powi expo x < (2 :: rat) powi (e + 1)" "2 powi e < (2 :: rat) powi (expo x + 1)"
    using expo_bounds [OF pos] assms by linarith+
  then show ?thesis using lt [of "expo x" "e + 1"] lt [of e "expo x + 1"] by linarith
qed

lemma expo_mono:
  assumes "0 < x" and "x \<le> y"
  shows "expo x \<le> expo y"
proof (rule ccontr)
  assume "\<not> expo x \<le> expo y"
  then have "(2 :: rat) powi (expo y + 1) \<le> 2 powi expo x" by (intro power_int_increasing) simp_all
  then show False using expo_bounds [OF assms(1)] expo_bounds [of y] assms by linarith
qed

lemma fl_pos: "0 < x \<Longrightarrow> fl x = of_int (round_half_even (x / 2 powi (expo x - 52))) * 2 powi (expo x - 52)"
  by (simp add: fl_def Let_def)

lemma fl_zero [simp]: "fl 0 = 0"
  by (simp add: fl_def)

lemma scaled_bounds:
  assumes "0 < x"
  shows "2 ^ 52 \<le> x / 2 powi (expo x - 52) \<and> x / 2 powi (expo x - 52) < 2 ^ 53"
proof -
  have e: "2 powi expo x = (2 :: rat) ^ 52 * 2 powi (expo x - 52)" "2 powi (expo x + 1) = (2 :: rat) ^ 53 * 2 powi (expo x - 52)"
    by (simp_all add: power_int_add [symmetric] power_int_of_nat [symmetric] del: power_int_of_nat power_int_numeral)
      (simp_all add: power_int_diff power_int_add)
  have u: "0 < (2 :: rat) powi (expo x - 52)" by simp
  show ?thesis using expo_bounds [OF assms] u unfolding e by (simp add: pos_le_divide_eq pos_divide_less_eq)
qed

lemma fl_binade:
  assumes "0 < x"
  shows "2 powi expo x \<le> fl x \<and> fl x \<le> 2 powi (expo x + 1)"
proof -
  define u where "u = (2 :: rat) powi (expo x - 52)"
  have u: "0 < u" by (simp add: u_def)
  have e: "2 powi expo x = 2 ^ 52 * u" "2 powi (expo x + 1) = 2 ^ 53 * u"
    by (simp_all add: u_def power_int_diff power_int_add)
  have "round_half_even (of_int (2 ^ 52)) \<le> round_half_even (x / u)"
    using scaled_bounds [OF assms] by (intro round_half_even_mono) (simp add: u_def)
  moreover have "round_half_even (x / u) \<le> round_half_even (of_int (2 ^ 53))"
    using scaled_bounds [OF assms] by (intro round_half_even_mono) (simp add: u_def)
  ultimately have "(of_int (2 ^ 52) :: rat) \<le> of_int (round_half_even (x / u))" "(of_int (round_half_even (x / u)) :: rat) \<le> of_int (2 ^ 53)"
    by (simp_all only: round_half_even_int of_int_le_iff)
  then show ?thesis
    using mult_right_mono [of "of_int (2 ^ 52)" "of_int (round_half_even (x / u))" u]
      mult_right_mono [of "of_int (round_half_even (x / u))" "of_int (2 ^ 53)" u] u
    unfolding fl_pos [OF assms] e u_def [symmetric] by simp
qed

lemma fl_nonneg:
  assumes "0 \<le> x"
  shows "0 \<le> fl x"
proof (cases "x = 0")
  case False
  have p: "0 < (2 :: rat) powi expo x" by simp
  have "2 powi expo x \<le> fl x" using fl_binade [of x] assms False by simp
  then show ?thesis using p by linarith
qed simp

lemma fl_mono:
  assumes "0 \<le> x" and "x \<le> y"
  shows "fl x \<le> fl y"
proof (cases "x = 0")
  case True
  then show ?thesis using fl_nonneg [of y] assms by simp
next
  case False
  then have x: "0 < x" and y: "0 < y" using assms by simp_all
  show ?thesis
  proof (cases "expo x = expo y")
    case True
    have u: "0 < (2 :: rat) powi (expo y - 52)" by simp
    have "round_half_even (x / 2 powi (expo y - 52)) \<le> round_half_even (y / 2 powi (expo y - 52))"
      by (rule round_half_even_mono) (use assms(2) in \<open>simp add: divide_right_mono\<close>)
    then show ?thesis
      unfolding fl_pos [OF x] fl_pos [OF y] True by (intro mult_right_mono) simp_all
  next
    case False
    then have "expo x + 1 \<le> expo y" using expo_mono [OF x assms(2)] by simp
    then have "(2 :: rat) powi (expo x + 1) \<le> 2 powi expo y" by (intro power_int_increasing) simp_all
    then show ?thesis using fl_binade [OF x] fl_binade [OF y] by linarith
  qed
qed

text \<open>Integers below \<open>2 ^ 53\<close>, scaled by a power of two, are exact.\<close>

lemma fl_exact:
  assumes "0 \<le> m" and "m < 2 ^ 53"
  shows "fl (of_int m * 2 powi e) = of_int m * 2 powi e"
proof (cases "m = 0")
  case False
  define x where "x = of_int m * (2 :: rat) powi e"
  have x: "0 < x" using assms False by (simp add: x_def)
  have "expo x - 52 \<le> e"
  proof (rule ccontr)
    assume "\<not> expo x - 52 \<le> e"
    then have "(2 :: rat) powi (53 + e) \<le> 2 powi expo x" by (intro power_int_increasing) simp_all
    moreover have "x < 2 powi (53 + e)"
    proof -
      have "(of_int m :: rat) < of_int (2 ^ 53)" using assms(2) by (simp only: of_int_less_iff)
      then have "x < of_int (2 ^ 53) * 2 powi e" unfolding x_def by (intro mult_strict_right_mono) simp_all
      then show ?thesis by (simp add: power_int_add)
    qed
    ultimately show False using expo_bounds [OF x] by linarith
  qed
  then obtain k where k: "e = expo x - 52 + int k" by (metis zle_iff_zadd)
  define u where "u = (2 :: rat) powi (expo x - 52)"
  have u: "0 < u" by (simp add: u_def)
  have "(2 :: rat) powi e = 2 ^ k * u" unfolding k u_def by (simp add: power_int_add)
  then have xu: "x = of_int (m * 2 ^ k) * u" by (simp add: x_def)
  then have "x / u = of_int (m * 2 ^ k)" using u by (simp del: of_int_mult)
  then have "fl x = of_int (m * 2 ^ k) * u" unfolding fl_pos [OF x] u_def [symmetric] by (simp del: of_int_mult)
  then show ?thesis unfolding x_def [symmetric] using xu by simp
qed simp

lemma fl_int: "0 \<le> m \<Longrightarrow> m < 2 ^ 53 \<Longrightarrow> fl (of_int m) = of_int m"
  using fl_exact [of m 0] by simp

lemma fl_half:
  assumes "0 \<le> m" and "m < 2 ^ 53"
  shows "fl (of_int m / 2) = of_int m / 2"
proof -
  have "(2 :: rat) powi (- 1) = 1 / 2" by (simp add: power_int_def)
  with fl_exact [OF assms, of "- 1"] show ?thesis by simp
qed

lemma fl_le_int: "0 \<le> x \<Longrightarrow> x \<le> of_int m \<Longrightarrow> m < 2 ^ 53 \<Longrightarrow> fl x \<le> of_int m"
proof -
  assume "0 \<le> x" "x \<le> of_int m" "m < 2 ^ 53"
  moreover from this have "0 \<le> m" by (metis of_int_0_le_iff order_trans)
  ultimately show ?thesis using fl_mono [of x "of_int m"] fl_int [of m] by simp
qed

section \<open>The two expressions\<close>

text \<open>\<open>Math.ceil((size / 1000) * satsPerKb)\<close>, and \<open>Math.floor((k / 10000) * excess)\<close>.\<close>

definition js_ceil_per_kb :: "rat \<Rightarrow> int \<Rightarrow> int" where
  "js_ceil_per_kb satsPerKb bytes = \<lceil>fl (fl (of_int bytes / 1000) * satsPerKb)\<rceil>"

definition js_share :: "int \<Rightarrow> int \<Rightarrow> int" where
  "js_share k excess = \<lfloor>fl (fl (of_int k / 10000) * of_int excess)\<rfloor>"

lemma js_ceil_per_kb_nonneg: "0 \<le> r \<Longrightarrow> 0 \<le> bytes \<Longrightarrow> 0 \<le> js_ceil_per_kb r bytes"
  by (simp add: js_ceil_per_kb_def fl_nonneg ceiling_mono [of 0, simplified])

lemma js_ceil_per_kb_mono: "0 \<le> r \<Longrightarrow> 0 \<le> a \<Longrightarrow> a \<le> b \<Longrightarrow> js_ceil_per_kb r a \<le> js_ceil_per_kb r b"
  unfolding js_ceil_per_kb_def
  by (intro ceiling_mono fl_mono mult_right_mono mult_nonneg_nonneg fl_nonneg) (simp_all add: divide_right_mono)

lemma js_share_bounds:
  assumes "0 \<le> k" and "k \<le> 5000" and "0 \<le> excess" and "excess < 2 ^ 53"
  shows "0 \<le> js_share k excess \<and> 2 * js_share k excess \<le> excess"
proof -
  have k: "0 \<le> fl (of_int k / 10000)" "fl (of_int k / 10000) \<le> 1 / 2"
    using fl_mono [of "of_int k / 10000" "of_int 1 / 2"] fl_half [of 1] assms(1,2) by (simp_all add: fl_nonneg)
  have p: "0 \<le> fl (of_int k / 10000) * of_int excess" using k(1) assms(3) by simp
  have "fl (of_int k / 10000) * of_int excess \<le> 1 / 2 * of_int excess"
    using k(2) assms(3) by (intro mult_right_mono) simp_all
  then have "fl (fl (of_int k / 10000) * of_int excess) \<le> of_int excess / 2"
    using fl_mono [OF p, of "of_int excess / 2"] fl_half [OF assms(3,4)] by simp
  then have "of_int (js_share k excess) \<le> (of_int excess / 2 :: rat)"
    unfolding js_share_def using of_int_floor_le order_trans by blast
  then have "of_int (2 * js_share k excess) \<le> (of_int excess :: rat)" by simp
  then have "2 * js_share k excess \<le> excess" by (simp only: of_int_le_iff)
  moreover have "0 \<le> js_share k excess" unfolding js_share_def using fl_nonneg [OF p] by simp
  ultimately show ?thesis by simp
qed

text \<open>Rounding to a double at a known exponent, for evaluation.\<close>

lemma round_half_even_near: "of_int n - 1 / 2 < y \<Longrightarrow> y < of_int n + 1 / 2 \<Longrightarrow> round_half_even y = n"
proof -
  assume a: "of_int n - 1 / 2 < y" "y < of_int n + 1 / 2"
  show ?thesis
  proof (cases "of_int n \<le> y")
    case True
    then have "\<lfloor>y\<rfloor> = n" using a by (simp add: floor_eq_iff)
    then show ?thesis using a True by (simp add: round_half_even_def Let_def)
  next
    case False
    then have "\<lfloor>y\<rfloor> = n - 1" using a by (simp add: floor_eq_iff)
    then show ?thesis using a False by (simp add: round_half_even_def Let_def)
  qed
qed

lemma fl_eval:
  assumes "2 ^ 52 \<le> x * 2 ^ k" and "n < 2 ^ 53" and "of_int n - 1 / 2 < x * 2 ^ k" and "x * 2 ^ k < of_int n + 1 / 2"
  shows "fl x = of_int n / 2 ^ k"
proof -
  have pk: "(0 :: rat) < 2 ^ k" by simp
  have "0 < x * 2 ^ k" using assms(1) by (rule order_less_le_trans [rotated]) simp
  then have x: "0 < x" using pk by (simp add: zero_less_mult_iff)
  have s: "(2 :: rat) powi (52 - int k) = 2 ^ 52 / 2 ^ k" "(2 :: rat) powi (52 - int k + 1) = 2 ^ 53 / 2 ^ k"
    "(2 :: rat) powi (52 - int k - 52) = 1 / 2 ^ k"
    by (simp_all add: power_int_diff power_int_add power_int_minus field_simps)
  have "(of_int (n + 1) :: rat) \<le> of_int (2 ^ 53)" using assms(2) by (simp only: of_int_le_iff)
  then have "x * 2 ^ k < 2 ^ 53" using assms(4) by simp
  then have e: "expo x = 52 - int k"
    using assms(1) pk by (intro expo_unique) (simp_all only: s pos_divide_le_eq pos_less_divide_eq)
  have "round_half_even (x / 2 powi (expo x - 52)) = n"
    unfolding e s using assms(3,4) by (intro round_half_even_near) simp_all
  then show ?thesis unfolding fl_pos [OF x] unfolding e s by simp
qed

text \<open>1100 bytes at 100 satoshis per kilobyte are charged 111 satoshis, one more than the rate says:
  \<open>1100 / 1000 * 100\<close> is above 110 in doubles.\<close>

lemma fee_of_1100_bytes: "js_ceil_per_kb 100 1100 = 111"
proof -
  have a: "fl (11 / 10) = of_int 4953959590107546 / 2 ^ 52"
    by (rule fl_eval) simp_all
  have b: "fl (of_int 4953959590107546 / 2 ^ 52 * 100) = of_int 7740561859543041 / 2 ^ 46"
    by (rule fl_eval) simp_all
  have c: "of_int 1100 / 1000 = (11 / 10 :: rat)" by simp
  show ?thesis unfolding js_ceil_per_kb_def c a b by (simp add: ceiling_eq_iff)
qed

end
