(* ===== verification/Change_Generation.thy ===== *)
theory Change_Generation
  imports Change_Selection Js_Number
begin

text \<open>
  Funding a transaction and making its change
  (\<open>src/packages/wallet-engine/src/storage/methods/generateChange.ts\<close>, sizes from
  \<open>methods/utils.ts\<close>). The allocator's two functions are arguments, with its state threaded
  through; \<open>None\<close> as a whole result is fuel run out (\<open>fuel\<close> bounds the funding loop, \<open>passes\<close> the
  starvation loop around it). The parameter checks of the SDK are the argument \<open>sdk_accepts\<close>.
  Satoshis are integers (their sums stay below \<open>2 ^ 53\<close>); fees and random shares are computed
  with the rounding of doubles. Telemetry and logs are left out.
\<close>

section \<open>Sizes\<close>

text \<open>Negative numbers throw and are refused before (\<open>lengths_ok\<close>).\<close>

definition varUintSize :: "int \<Rightarrow> int" where
  "varUintSize val = (if val \<le> 252 then 1 else if val \<le> 65535 then 3 else if val \<le> 4294967295 then 5 else 9)"

definition transactionInputSize :: "int \<Rightarrow> int" where
  "transactionInputSize scriptSize = 32 + 4 + varUintSize scriptSize + scriptSize + 4"

definition transactionOutputSize :: "int \<Rightarrow> int" where
  "transactionOutputSize scriptSize = varUintSize scriptSize + scriptSize + 8"

definition transactionSize :: "int list \<Rightarrow> int list \<Rightarrow> int" where
  "transactionSize inputs outputs =
     4 + varUintSize (int (List.length inputs)) + (\<Sum>e \<leftarrow> inputs. transactionInputSize e) +
     varUintSize (int (List.length outputs)) + (\<Sum>e \<leftarrow> outputs. transactionOutputSize e) + 4"

section \<open>Parameters and results\<close>

record sdk_input =
  fi_satoshis :: int
  fi_unlockLen :: int

record sdk_output =
  fo_satoshis :: int
  fo_lockLen :: int

record gc_params =
  gp_fixedInputs :: "sdk_input list"
  gp_fixedOutputs :: "sdk_output list"
  gp_feeValue :: "rat option"
  gp_targetNetCount :: "int option"
  gp_changeInitial :: int
  gp_changeFirst :: int
  gp_lockLen :: int
  gp_unlockLen :: int
  gp_maxChangeOutputs :: "int option"
  gp_surplusPoolShaping :: bool
  gp_maxMigrationInputs :: "int option"
  gp_randomVals :: "rat list option"

record gc_result =
  gr_inputs :: "candidate list"
  gr_outputs :: "sdk_output list"
  gr_size :: int
  gr_fee :: int
  gr_satsPerKb :: rat
  gr_adjustment :: "(nat \<times> int) option"

datatype gc_error = InvalidParameter | InsufficientFunds int int | InternalError

definition maxPossibleSatoshis :: int where "maxPossibleSatoshis = 2099999999999999"
definition maxChangeOutputsPerTransaction :: int where "maxChangeOutputsPerTransaction = 8"
definition MAX_SAFE_INTEGER :: int where "MAX_SAFE_INTEGER = 2 ^ 53 - 1"

definition sats_in :: "sdk_input list \<Rightarrow> int" where "sats_in xs = (\<Sum>x \<leftarrow> xs. fi_satoshis x)"
definition sats_out :: "sdk_output list \<Rightarrow> int" where "sats_out xs = (\<Sum>x \<leftarrow> xs. fo_satoshis x)"
definition sats_of :: "candidate list \<Rightarrow> int" where "sats_of xs = (\<Sum>x \<leftarrow> xs. cd_satoshis x)"

definition satsPerKb :: "gc_params \<Rightarrow> rat" where
  "satsPerKb p = (case gp_feeValue p of Some v \<Rightarrow> v | None \<Rightarrow> 100)"

definition dustFloor :: "gc_params \<Rightarrow> int" where
  "dustFloor p = max 1 (js_ceil_per_kb (satsPerKb p) (transactionSize [gp_unlockLen p] [gp_lockLen p]) * 2)"

definition maxChangeOutputs :: "gc_params \<Rightarrow> int" where
  "maxChangeOutputs p = (case gp_maxChangeOutputs p of
      None \<Rightarrow> maxChangeOutputsPerTransaction
    | Some n \<Rightarrow> if n = - 1 then MAX_SAFE_INTEGER else n)"

definition targetNetCount :: "gc_params \<Rightarrow> int" where
  "targetNetCount p = min (case gp_targetNetCount p of Some n \<Rightarrow> n | None \<Rightarrow> 0) (maxChangeOutputs p)"

definition change_output :: "gc_params \<Rightarrow> int \<Rightarrow> sdk_output" where
  "change_output p satoshis = \<lparr>fo_satoshis = satoshis, fo_lockLen = gp_lockLen p\<rparr>"

text \<open>The indices of fixed outputs of the largest amount; more than one is refused.\<close>

definition max_possible :: "gc_params \<Rightarrow> nat list" where
  "max_possible p = filter (\<lambda>i. fo_satoshis (gp_fixedOutputs p ! i) = maxPossibleSatoshis) [0..<List.length (gp_fixedOutputs p)]"

definition lengths_ok :: "gc_params \<Rightarrow> bool" where
  "lengths_ok p = (0 \<le> gp_lockLen p \<and> 0 \<le> gp_unlockLen p)"

definition validateGenerateChangeSdkParams :: "(gc_params \<Rightarrow> bool) \<Rightarrow> gc_params \<Rightarrow> gc_error + nat option" where
  "validateGenerateChangeSdkParams sdk_accepts p =
     (if \<not> sdk_accepts p \<or> 1 < List.length (max_possible p) \<or> \<not> lengths_ok p then Inl InvalidParameter
      else Inr (first_of (max_possible p)))"

section \<open>The plan under construction\<close>

record 's gc_state =
  g_alloc :: 's
  g_inputs :: "candidate list"
  g_outputs :: "sdk_output list"
  g_funding :: int

definition gc_size :: "gc_params \<Rightarrow> int \<Rightarrow> int \<Rightarrow> int" where
  "gc_size p changeIns changeOuts =
     4 + varUintSize (int (List.length (gp_fixedInputs p)) + changeIns) +
     (\<Sum>i \<leftarrow> gp_fixedInputs p. transactionInputSize (fi_unlockLen i)) +
     changeIns * transactionInputSize (gp_unlockLen p) +
     varUintSize (int (List.length (gp_fixedOutputs p)) + changeOuts) +
     (\<Sum>x \<leftarrow> gp_fixedOutputs p. transactionOutputSize (fo_lockLen x)) +
     changeOuts * transactionOutputSize (gp_lockLen p) + 4"

definition num_in :: "'s gc_state \<Rightarrow> int" where "num_in st = int (List.length (g_inputs st))"
definition num_out :: "'s gc_state \<Rightarrow> int" where "num_out st = int (List.length (g_outputs st))"

definition funding :: "gc_params \<Rightarrow> 's gc_state \<Rightarrow> int" where
  "funding p st = sats_in (gp_fixedInputs p) + g_funding st"

definition spending :: "gc_params \<Rightarrow> int" where
  "spending p = sats_out (gp_fixedOutputs p)"

definition feeTarget :: "gc_params \<Rightarrow> 's gc_state \<Rightarrow> int \<Rightarrow> int \<Rightarrow> int" where
  "feeTarget p st addedIns addedOuts = js_ceil_per_kb (satsPerKb p) (gc_size p (num_in st + addedIns) (num_out st + addedOuts))"

definition fee :: "gc_params \<Rightarrow> 's gc_state \<Rightarrow> int" where
  "fee p st = funding p st - spending p - sats_out (g_outputs st)"

definition feeExcess :: "gc_params \<Rightarrow> 's gc_state \<Rightarrow> int \<Rightarrow> int \<Rightarrow> int" where
  "feeExcess p st addedIns addedOuts = fee p st - feeTarget p st addedIns addedOuts"

definition netChangeCount :: "'s gc_state \<Rightarrow> int" where
  "netChangeCount st = num_out st - num_in st"

definition addOutputToBalanceNewInput :: "gc_params \<Rightarrow> 's gc_state \<Rightarrow> bool" where
  "addOutputToBalanceNewInput p st =
     (\<not> gp_surplusPoolShaping p \<and> gp_targetNetCount p \<noteq> None \<and> num_out st < maxChangeOutputs p \<and>
      netChangeCount st - 1 < targetNetCount p)"

definition push_output :: "gc_params \<Rightarrow> int \<Rightarrow> 's gc_state \<Rightarrow> 's gc_state" where
  "push_output p satoshis st = st\<lparr>g_outputs := g_outputs st @ [change_output p satoshis]\<rparr>"

text \<open>\<open>releaseAllocatedChangeInputs\<close> hands the inputs back from the last one.\<close>

definition release_inputs :: "('s \<Rightarrow> int \<Rightarrow> 's) \<Rightarrow> 's gc_state \<Rightarrow> 's gc_state" where
  "release_inputs release st = st\<lparr>g_alloc := fold_steps release (g_alloc st) (map cd_outputId (rev (g_inputs st))),
     g_inputs := [], g_funding := g_funding st - sats_of (g_inputs st)\<rparr>"

function add_desired :: "gc_params \<Rightarrow> 's gc_state \<Rightarrow> 's gc_state" where
  "add_desired p st =
     (if num_out st < maxChangeOutputs p \<and>
         (gp_targetNetCount p \<noteq> None \<and> targetNetCount p > netChangeCount st \<or> g_outputs st = [] \<and> feeExcess p st 0 0 > 0)
      then add_desired p (push_output p (if g_outputs st = [] then max (dustFloor p) (gp_changeFirst p)
                                         else max (dustFloor p) (gp_changeInitial p)) st)
      else st)"
  by pat_completeness auto

termination
  by (relation "measure (\<lambda>(p, st). nat (maxChangeOutputs p - num_out st))") (auto simp: push_output_def num_out_def)

declare add_desired.simps [simp del]

definition addDesiredChangeOutputs :: "gc_params \<Rightarrow> 's gc_state \<Rightarrow> 's gc_state" where
  "addDesiredChangeOutputs p st = (if gp_surplusPoolShaping p then st else add_desired p st)"

section \<open>Funding\<close>

definition maybeAddChangeOutput :: "gc_params \<Rightarrow> bool \<Rightarrow> bool \<Rightarrow> 's gc_state \<Rightarrow> 's gc_state" where
  "maybeAddChangeOutput p removing ao st =
     (if removing \<or> feeExcess p st 0 0 \<le> 0 then st
      else if \<not> ((ao \<or> g_outputs st = []) \<and> num_out st < maxChangeOutputs p) then st
      else (let cap = (if g_outputs st = [] then gp_changeFirst p else gp_changeInitial p);
                outputFunding = (if gp_surplusPoolShaping p then feeExcess p st 0 1 else feeExcess p st 0 0);
                satoshis = min outputFunding (max (dustFloor p) cap)
            in if satoshis \<ge> dustFloor p then push_output p satoshis st else st))"

definition add_input :: "'s \<Rightarrow> candidate \<Rightarrow> 's gc_state \<Rightarrow> 's gc_state" where
  "add_input s c st = st\<lparr>g_alloc := s, g_inputs := g_inputs st @ [c], g_funding := g_funding st + cd_satoshis c\<rparr>"

text \<open>The amounts one allocation asks for: the target and, with no change wanted, the exact one.\<close>

definition allocation_request :: "gc_params \<Rightarrow> 's gc_state \<Rightarrow> int \<times> int option" where
  "allocation_request p st =
     (let exact = (if gp_targetNetCount p = None \<and> g_outputs st = [] then Some (- feeExcess p st 1 0) else None);
          ao = (if addOutputToBalanceNewInput p st then 1 else 0);
          changeBuffer = (if g_outputs st = [] \<and> ao = 0 then dustFloor p + feeTarget p st 0 1 - feeTarget p st 0 0 else 0)
      in (- feeExcess p st 1 ao + (if ao = 1 then 2 * gp_changeInitial p else 0) + changeBuffer, exact))"

definition attemptToFundTransaction ::
  "('s \<Rightarrow> int \<Rightarrow> int option \<Rightarrow> 's \<times> candidate option) \<Rightarrow> gc_params \<Rightarrow> bool \<Rightarrow> 's gc_state \<Rightarrow> 's gc_state \<times> bool" where
  "attemptToFundTransaction draw p removing st =
     (if feeExcess p st 0 0 > 0 then (st, True)
      else (let (target, exact) = allocation_request p st in
        case draw (g_alloc st) target exact of
          (s, None) \<Rightarrow> (st\<lparr>g_alloc := s\<rparr>, False)
        | (s, Some c) \<Rightarrow> (maybeAddChangeOutput p removing (addOutputToBalanceNewInput p st) (add_input s c st), True)))"

fun fund_loop ::
  "('s \<Rightarrow> int \<Rightarrow> int option \<Rightarrow> 's \<times> candidate option) \<Rightarrow> gc_params \<Rightarrow> bool \<Rightarrow> nat \<Rightarrow> 's gc_state \<Rightarrow> 's gc_state option" where
  "fund_loop draw p removing 0 st = None"
| "fund_loop draw p removing (Suc fuel) st =
     (if feeExcess p st 0 0 < 0 then
        (case attemptToFundTransaction draw p removing st of
           (st', again) \<Rightarrow> if again then fund_loop draw p removing fuel st' else Some st')
      else Some st)"

function pop_outputs :: "gc_params \<Rightarrow> 's gc_state \<Rightarrow> 's gc_state" where
  "pop_outputs p st = (if g_outputs st \<noteq> [] \<and> feeExcess p st 0 0 < 0
     then pop_outputs p (st\<lparr>g_outputs := butlast (g_outputs st)\<rparr>) else st)"
  by pat_completeness auto

termination by (relation "measure (\<lambda>(p, st). List.length (g_outputs st))") auto

declare pop_outputs.simps [simp del]

text \<open>\<open>removeChurnPairs\<close> works on a copy of the inputs; only the outputs change.\<close>

function removeChurnPairs :: "candidate list \<Rightarrow> sdk_output list \<Rightarrow> sdk_output list" where
  "removeChurnPairs changeInputs changeOutputs =
     (if List.length changeInputs > 1 \<and> List.length changeOutputs > 1 then
        (case remove_first (\<lambda>ci. cd_satoshis ci \<le> fo_satoshis (last changeOutputs)) changeInputs of
           None \<Rightarrow> changeOutputs
         | Some rest \<Rightarrow> removeChurnPairs rest (butlast changeOutputs))
      else changeOutputs)"
  by pat_completeness auto

termination by (relation "measure (\<lambda>(ins, outs). List.length outs)") auto

declare removeChurnPairs.simps [simp del]

fun starvation_loop ::
  "('s \<Rightarrow> int \<Rightarrow> int option \<Rightarrow> 's \<times> candidate option) \<Rightarrow> ('s \<Rightarrow> int \<Rightarrow> 's) \<Rightarrow> gc_params \<Rightarrow> nat \<Rightarrow> bool \<Rightarrow> nat \<Rightarrow>
   's gc_state \<Rightarrow> 's gc_state option" where
  "starvation_loop draw release p fuel removing 0 st = None"
| "starvation_loop draw release p fuel removing (Suc passes) st =
     (case fund_loop draw p removing fuel (release_inputs release st) of
        None \<Rightarrow> None
      | Some st1 \<Rightarrow>
          if feeExcess p st1 0 0 \<ge> 0 \<or> g_outputs st1 = [] then Some st1
          else (let st2 = pop_outputs p st1 in
            if feeExcess p st2 0 0 < 0 then Some st2
            else starvation_loop draw release p fuel True passes
                   (st2\<lparr>g_outputs := removeChurnPairs (g_inputs st2) (g_outputs st2), g_funding := sats_of (g_inputs st2)\<rparr>)))"

section \<open>After funding\<close>

text \<open>The one fixed output of the largest amount takes what just funds the transaction.\<close>

definition adjust_max_output :: "gc_params \<Rightarrow> nat option \<Rightarrow> 's gc_state \<Rightarrow> gc_error + (gc_params \<times> (nat \<times> int) option)" where
  "adjust_max_output p hasMax st =
     (case hasMax of
        Some i \<Rightarrow>
          if feeExcess p st 0 0 < 0 then
            (if fo_satoshis (gp_fixedOutputs p ! i) \<noteq> maxPossibleSatoshis then Inl InternalError
             else (let satoshis = fo_satoshis (gp_fixedOutputs p ! i) + feeExcess p st 0 0 in
               Inr (p\<lparr>gp_fixedOutputs := (gp_fixedOutputs p)[i := (gp_fixedOutputs p ! i)\<lparr>fo_satoshis := satoshis\<rparr>]\<rparr>,
                    Some (i, satoshis))))
          else Inr (p, None)
      | None \<Rightarrow> Inr (p, None))"

definition materializeSurplusChangeOutput :: "gc_params \<Rightarrow> 's gc_state \<Rightarrow> 's gc_state" where
  "materializeSurplusChangeOutput p st =
     (if \<not> gp_surplusPoolShaping p \<or> g_outputs st \<noteq> [] then st
      else if feeExcess p st 0 1 < dustFloor p then st
      else push_output p (min (feeExcess p st 0 1) (max (dustFloor p) (gp_changeFirst p))) st)"

definition requireViableChange :: "('s \<Rightarrow> int \<Rightarrow> 's) \<Rightarrow> gc_params \<Rightarrow> 's gc_state \<Rightarrow> ('s \<times> gc_error) option" where
  "requireViableChange release p st =
     (if g_outputs st \<noteq> [] \<or> feeExcess p st 0 0 \<le> 0 then None
      else if gp_surplusPoolShaping p \<and> feeExcess p st 0 1 < dustFloor p then None
      else (let total = spending p + feeTarget p st 0 1 + max (dustFloor p) (gp_changeFirst p) in
        Some (g_alloc (release_inputs release st), InsufficientFunds total (max 1 (total - funding p st)))))"

fun migrate_loop ::
  "('s \<Rightarrow> int \<Rightarrow> int option \<Rightarrow> 's \<times> candidate option) \<Rightarrow> ('s \<Rightarrow> int \<Rightarrow> 's) \<Rightarrow> gc_params \<Rightarrow> nat \<Rightarrow> 's gc_state \<Rightarrow> 's gc_state" where
  "migrate_loop draw release p 0 st = st"
| "migrate_loop draw release p (Suc limit) st =
     (let marginalInputFee = feeTarget p st 1 0 - feeTarget p st 0 0 in
      case draw (g_alloc st) 0 None of
        (s, None) \<Rightarrow> st\<lparr>g_alloc := s\<rparr>
      | (s, Some c) \<Rightarrow>
          if cd_satoshis c \<ge> gp_changeInitial p \<or> cd_satoshis c \<le> marginalInputFee
          then st\<lparr>g_alloc := release s (cd_outputId c)\<rparr>
          else migrate_loop draw release p limit (add_input s c st))"

definition migrateLegacyChangeInputs ::
  "('s \<Rightarrow> int \<Rightarrow> int option \<Rightarrow> 's \<times> candidate option) \<Rightarrow> ('s \<Rightarrow> int \<Rightarrow> 's) \<Rightarrow> gc_params \<Rightarrow> 's gc_state \<Rightarrow> 's gc_state" where
  "migrateLegacyChangeInputs draw release p st =
     (if \<not> gp_surplusPoolShaping p \<or> g_outputs st = [] then st
      else if targetNetCount p \<le> netChangeCount st then st
      else migrate_loop draw release p
        (nat (case gp_maxMigrationInputs p of None \<Rightarrow> 0 | Some n \<Rightarrow> if n = - 1 then MAX_SAFE_INTEGER else n)) st)"

section \<open>Sharing the excess\<close>

text \<open>\<open>rand(min, max)\<close>: a draw scaled and rounded down, in doubles.\<close>

definition gc_rand :: "(nat \<Rightarrow> nat) \<Rightarrow> random_state \<Rightarrow> int \<Rightarrow> int \<Rightarrow> random_state \<times> int" where
  "gc_rand bytes rs lo hi = (case next_random bytes rs of (rs', v) \<Rightarrow> (rs', \<lfloor>fl (fl (v * of_int (hi - lo + 1)) + of_int lo)\<rfloor>))"

definition add_sats :: "int \<Rightarrow> sdk_output \<Rightarrow> sdk_output" where
  "add_sats n x = x\<lparr>fo_satoshis := fo_satoshis x + n\<rparr>"

text \<open>\<open>None\<close> is the thrown error of an index outside the outputs.\<close>

function distributeExcessFees ::
  "(nat \<Rightarrow> nat) \<Rightarrow> int \<Rightarrow> sdk_output list \<Rightarrow> int \<Rightarrow> random_state \<Rightarrow> (sdk_output list \<times> int \<times> random_state) option" where
  "distributeExcessFees bytes initial outs excess rs =
     (if outs = [] \<or> excess \<le> 0 then Some (outs, excess, rs)
      else if List.length outs = 1 then Some ([add_sats excess (hd outs)], 0, rs)
      else if fo_satoshis (hd outs) < initial then
        (let sats = min excess (initial - fo_satoshis (hd outs)) in
         distributeExcessFees bytes initial (add_sats sats (hd outs) # tl outs) (excess - sats) rs)
      else
        (case gc_rand bytes rs 2500 5000 of (rs1, k) \<Rightarrow>
         (let sats = max 1 (js_share k excess) in
          case gc_rand bytes rs1 0 (int (List.length outs) - 1) of (rs2, index) \<Rightarrow>
            if index < 0 \<or> index \<ge> int (List.length outs) then None
            else distributeExcessFees bytes initial (outs[nat index := add_sats sats (outs ! nat index)]) (excess - sats) rs2)))"
  by pat_completeness auto

termination by (relation "measure (\<lambda>(b, i, outs, excess, rs). nat excess)") auto

declare distributeExcessFees.simps [simp del]

text \<open>Splitting the one change output, trying fewer outputs until each gets the preferred amount.\<close>

fun shape_loop ::
  "(nat \<Rightarrow> nat) \<Rightarrow> gc_params \<Rightarrow> 's gc_state \<Rightarrow> int \<Rightarrow> random_state \<Rightarrow> nat \<Rightarrow> 's gc_state option" where
  "shape_loop bytes p st original rs 0 = Some st"
| "shape_loop bytes p st original rs (Suc n) =
     (if n = 0 then Some st
      else (let distributable = original - (feeTarget p st 0 (int n) - feeTarget p st 0 0) in
        if distributable < int (Suc n) * gp_changeInitial p then shape_loop bytes p st original rs n
        else map_option (\<lambda>(outs, _, _). st\<lparr>g_outputs := outs\<rparr>)
          (distributeExcessFees bytes (gp_changeInitial p) (replicate (Suc n) (change_output p (gp_changeInitial p)))
             (distributable - int (Suc n) * gp_changeInitial p) rs)))"

definition shapeSurplusChangeOutputs :: "(nat \<Rightarrow> nat) \<Rightarrow> gc_params \<Rightarrow> random_state \<Rightarrow> 's gc_state \<Rightarrow> 's gc_state option" where
  "shapeSurplusChangeOutputs bytes p rs st =
     (if \<not> gp_surplusPoolShaping p \<or> List.length (g_outputs st) \<noteq> 1 then Some st
      else if targetNetCount p \<le> netChangeCount st then Some st
      else shape_loop bytes p st (fo_satoshis (hd (g_outputs st))) rs
        (nat (min (maxChangeOutputs p) (max 1 (targetNetCount p + num_in st)))))"

text \<open>The index of the first largest output.\<close>

fun largest_from :: "sdk_output list \<Rightarrow> nat \<Rightarrow> nat \<Rightarrow> nat" where
  "largest_from outs best 0 = best"
| "largest_from outs best (Suc n) =
     (let i = List.length outs - Suc n in
      largest_from outs (if fo_satoshis (outs ! i) > fo_satoshis (outs ! best) then i else best) n)"

definition largest_index :: "sdk_output list \<Rightarrow> nat" where
  "largest_index outs = largest_from outs 0 (List.length outs)"

fun removeDustOutputs :: "int \<Rightarrow> nat \<Rightarrow> sdk_output list \<Rightarrow> sdk_output list" where
  "removeDustOutputs dust 0 outs = outs"
| "removeDustOutputs dust (Suc i) outs =
     (if fo_satoshis (outs ! i) < dust \<and> List.length outs > 1 then
        (let removed = outs ! i; rest = List.take i outs @ List.drop (Suc i) outs; l = largest_index rest in
         removeDustOutputs dust i (rest[l := add_sats (fo_satoshis removed) (rest ! l)]))
      else removeDustOutputs dust i outs)"

section \<open>The whole plan\<close>

definition validateGenerateChangeSdkResult :: "gc_params \<Rightarrow> gc_result \<Rightarrow> bool" where
  "validateGenerateChangeSdkResult p r =
     (let sumIn = sats_in (gp_fixedInputs p) + sats_of (gr_inputs r);
          sumOut = sats_out (gp_fixedOutputs p) + sats_out (gr_outputs r);
          feeRequired = js_ceil_per_kb (gr_satsPerKb r) (gr_size r);
          dust = max 1 (js_ceil_per_kb (gr_satsPerKb r) (transactionSize [gp_unlockLen p] [gp_lockLen p]) * 2);
          feeWithChangeOutput = js_ceil_per_kb (gr_satsPerKb r) (gr_size r + transactionOutputSize (gp_lockLen p));
          bounded = (gp_surplusPoolShaping p \<and> gr_outputs r = [] \<and> gr_fee r > feeRequired \<and> gr_fee r - feeWithChangeOutput < dust)
      in \<not> gr_fee r < 0 \<and> sumIn - sumOut = gr_fee r \<and> (feeRequired = gr_fee r \<or> bounded))"

text \<open>From the funded transaction to the result.\<close>

definition finish_change ::
  "(nat \<Rightarrow> nat) \<Rightarrow> gc_params \<Rightarrow> (nat \<times> int) option \<Rightarrow> 's gc_state \<Rightarrow> 's \<times> (gc_error + gc_result)" where
  "finish_change bytes p adjustment st =
     (case distributeExcessFees bytes (gp_changeInitial p) (g_outputs st) (feeExcess p st 0 0) (repeatableRandom (gp_randomVals p)) of
        None \<Rightarrow> (g_alloc st, Inl InternalError)
      | Some (outs, _, rs) \<Rightarrow>
          (case shapeSurplusChangeOutputs bytes p rs (st\<lparr>g_outputs := outs\<rparr>) of
             None \<Rightarrow> (g_alloc st, Inl InternalError)
           | Some st1 \<Rightarrow>
               (let st2 = st1\<lparr>g_outputs := removeDustOutputs (dustFloor p) (List.length (g_outputs st1)) (g_outputs st1)\<rparr>;
                    r = \<lparr>gr_inputs = g_inputs st2, gr_outputs = g_outputs st2, gr_size = gc_size p (num_in st2) (num_out st2),
                         gr_fee = fee p st2, gr_satsPerKb = satsPerKb p, gr_adjustment = adjustment\<rparr>
                in if validateGenerateChangeSdkResult p r then (g_alloc st2, Inr r) else (g_alloc st2, Inl InternalError))))"

definition settle_change ::
  "('s \<Rightarrow> int \<Rightarrow> int option \<Rightarrow> 's \<times> candidate option) \<Rightarrow> ('s \<Rightarrow> int \<Rightarrow> 's) \<Rightarrow> (nat \<Rightarrow> nat) \<Rightarrow> gc_params \<Rightarrow>
   (nat \<times> int) option \<Rightarrow> 's gc_state \<Rightarrow> 's \<times> (gc_error + gc_result)" where
  "settle_change draw release bytes p adjustment st0 =
     (let st = materializeSurplusChangeOutput p st0 in
      if feeExcess p st 0 0 < 0 then
        (g_alloc (release_inputs release st),
         Inl (InsufficientFunds (spending p + feeTarget p st 0 0) (- feeExcess p st 0 0)))
      else (case requireViableChange release p st of
          Some (s, e) \<Rightarrow> (s, Inl e)
        | None \<Rightarrow> finish_change bytes p adjustment (migrateLegacyChangeInputs draw release p st)))"

definition generateChangeSdkCore ::
  "('s \<Rightarrow> int \<Rightarrow> int option \<Rightarrow> 's \<times> candidate option) \<Rightarrow> ('s \<Rightarrow> int \<Rightarrow> 's) \<Rightarrow> (gc_params \<Rightarrow> bool) \<Rightarrow> (nat \<Rightarrow> nat) \<Rightarrow>
   nat \<Rightarrow> nat \<Rightarrow> gc_params \<Rightarrow> 's \<Rightarrow> ('s \<times> (gc_error + gc_result)) option" where
  "generateChangeSdkCore draw release sdk_accepts bytes fuel passes p s =
     (case validateGenerateChangeSdkParams sdk_accepts p of
        Inl e \<Rightarrow> Some (s, Inl e)
      | Inr hasMax \<Rightarrow>
          (case starvation_loop draw release p fuel False passes
                  (addDesiredChangeOutputs p \<lparr>g_alloc = s, g_inputs = [], g_outputs = [], g_funding = 0\<rparr>) of
             None \<Rightarrow> None
           | Some st \<Rightarrow>
               (case adjust_max_output p hasMax st of
                  Inl e \<Rightarrow> Some (g_alloc st, Inl e)
                | Inr (p', adjustment) \<Rightarrow> Some (settle_change draw release bytes p' adjustment st))))"

section \<open>Amounts and sizes\<close>

lemma sats_simps [simp]: "sats_of [] = 0" "sats_of (cs @ [c]) = sats_of cs + cd_satoshis c" "sats_out [] = 0"
  "sats_out (xs @ ys) = sats_out xs + sats_out ys" "sats_out (x # xs) = fo_satoshis x + sats_out xs"
  by (simp_all add: sats_of_def sats_out_def)

lemma change_output_sats [simp]: "fo_satoshis (change_output p n) = n"
  by (simp add: change_output_def)

lemma add_sats_sats [simp]: "fo_satoshis (add_sats n x) = fo_satoshis x + n"
  by (simp add: add_sats_def)

lemma sats_out_update: "i < List.length xs \<Longrightarrow> sats_out (xs[i := add_sats n (xs ! i)]) = sats_out xs + n"
proof (induction xs arbitrary: i)
  case (Cons x xs)
  then show ?case by (cases i) simp_all
qed simp

lemma dust_pos: "1 \<le> dustFloor p"
  by (simp add: dustFloor_def)

lemma push_output_simps [simp]: "g_alloc (push_output p n st) = g_alloc st" "g_inputs (push_output p n st) = g_inputs st"
  "g_funding (push_output p n st) = g_funding st" "g_outputs (push_output p n st) = g_outputs st @ [change_output p n]"
  by (simp_all add: push_output_def)

definition big_outputs :: "gc_params \<Rightarrow> sdk_output list \<Rightarrow> bool" where
  "big_outputs p outs = list_all (\<lambda>x. dustFloor p \<le> fo_satoshis x) outs"

lemma big_outputs_simps [simp]: "big_outputs p []" "big_outputs p (xs @ ys) = (big_outputs p xs \<and> big_outputs p ys)"
  "big_outputs p (x # xs) = (dustFloor p \<le> fo_satoshis x \<and> big_outputs p xs)"
  by (simp_all add: big_outputs_def)

lemma big_butlast: "big_outputs p outs \<Longrightarrow> big_outputs p (butlast outs)"
  by (auto simp: big_outputs_def list_all_iff dest: in_set_butlastD)

text \<open>What every change output list on the way satisfies: no dust, no more than the cap.\<close>

definition outputs_ok :: "gc_params \<Rightarrow> sdk_output list \<Rightarrow> bool" where
  "outputs_ok p outs = (big_outputs p outs \<and> int (List.length outs) \<le> max 1 (maxChangeOutputs p))"

lemma outputs_ok_nil [simp]: "outputs_ok p []"
  by (simp add: outputs_ok_def)

lemma outputs_ok_one [simp]: "dustFloor p \<le> n \<Longrightarrow> outputs_ok p [change_output p n]"
  by (simp add: outputs_ok_def)

lemma outputs_ok_butlast: "outputs_ok p outs \<Longrightarrow> outputs_ok p (butlast outs)"
  by (auto simp: outputs_ok_def big_butlast)

lemma outputs_ok_push: "num_out st < maxChangeOutputs p \<or> g_outputs st = [] \<Longrightarrow> dustFloor p \<le> n \<Longrightarrow>
  outputs_ok p (g_outputs st) \<Longrightarrow> outputs_ok p (g_outputs st @ [change_output p n])"
  by (auto simp: outputs_ok_def num_out_def)

text \<open>What the steps that only touch the outputs leave alone.\<close>

definition same_inputs :: "'s gc_state \<Rightarrow> 's gc_state \<Rightarrow> bool" where
  "same_inputs st st' = (g_alloc st' = g_alloc st \<and> g_inputs st' = g_inputs st \<and> g_funding st' = g_funding st)"

lemma same_inputs_refl [simp]: "same_inputs st st"
  by (simp add: same_inputs_def)

lemma same_inputs_trans: "same_inputs a b \<Longrightarrow> same_inputs b c \<Longrightarrow> same_inputs a c"
  by (simp add: same_inputs_def)

lemma same_inputs_push [simp]: "same_inputs st (push_output p n st)"
  by (simp add: same_inputs_def)

lemma add_desired_spec:
  "same_inputs st (add_desired p st) \<and> (outputs_ok p (g_outputs st) \<longrightarrow> outputs_ok p (g_outputs (add_desired p st)))
   \<and> (num_out st \<le> max 0 (maxChangeOutputs p) \<longrightarrow> num_out (add_desired p st) \<le> max 0 (maxChangeOutputs p))"
proof (induction p st rule: add_desired.induct)
  case (1 p st)
  show ?case
  proof (cases "num_out st < maxChangeOutputs p \<and>
         (gp_targetNetCount p \<noteq> None \<and> targetNetCount p > netChangeCount st \<or> g_outputs st = [] \<and> feeExcess p st 0 0 > 0)")
    case True
    define st1 where "st1 = push_output p (if g_outputs st = [] then max (dustFloor p) (gp_changeFirst p)
                                         else max (dustFloor p) (gp_changeInitial p)) st"
    have e: "add_desired p st = add_desired p st1"
      using True by (simp add: add_desired.simps [of p st] st1_def)
    have s: "same_inputs st st1" by (simp add: st1_def)
    have b: "outputs_ok p (g_outputs st) \<Longrightarrow> outputs_ok p (g_outputs st1)"
      using True by (simp add: st1_def outputs_ok_push)
    have n: "num_out st1 \<le> max 0 (maxChangeOutputs p)" using True by (simp add: st1_def num_out_def)
    show ?thesis
      using "1.IH" [OF True, folded st1_def] same_inputs_trans [OF s] b n unfolding e by blast
  next
    case False
    then show ?thesis by (simp only: add_desired.simps [of p st] if_False) simp
  qed
qed

lemma pop_outputs_spec:
  "same_inputs st (pop_outputs p st) \<and> (outputs_ok p (g_outputs st) \<longrightarrow> outputs_ok p (g_outputs (pop_outputs p st)))
   \<and> List.length (g_outputs (pop_outputs p st)) \<le> List.length (g_outputs st)
   \<and> (g_outputs st \<noteq> [] \<and> feeExcess p st 0 0 < 0 \<longrightarrow> List.length (g_outputs (pop_outputs p st)) < List.length (g_outputs st))
   \<and> (feeExcess p (pop_outputs p st) 0 0 < 0 \<longrightarrow> g_outputs (pop_outputs p st) = [])"
proof (induction p st rule: pop_outputs.induct)
  case (1 p st)
  show ?case
  proof (cases "g_outputs st \<noteq> [] \<and> feeExcess p st 0 0 < 0")
    case True
    define st1 where "st1 = st\<lparr>g_outputs := butlast (g_outputs st)\<rparr>"
    have e: "pop_outputs p st = pop_outputs p st1"
      using True by (simp add: pop_outputs.simps [of p st] st1_def)
    have s: "same_inputs st st1" by (simp add: st1_def same_inputs_def)
    have b: "outputs_ok p (g_outputs st) \<Longrightarrow> outputs_ok p (g_outputs st1)" by (simp add: st1_def outputs_ok_butlast)
    have l: "List.length (g_outputs st1) < List.length (g_outputs st)" using True by (simp add: st1_def)
    note ih = "1.IH" [OF True, folded st1_def]
    have "same_inputs st (pop_outputs p st1)" using ih same_inputs_trans [OF s] by blast
    then show ?thesis using ih b l unfolding e by auto
  next
    case False
    then have "pop_outputs p st = st" by (simp only: pop_outputs.simps [of p st] if_False)
    then show ?thesis using False by auto
  qed
qed

lemma removeChurnPairs_spec:
  "List.length (removeChurnPairs ins outs) \<le> List.length outs \<and> (outputs_ok p outs \<longrightarrow> outputs_ok p (removeChurnPairs ins outs))"
proof (induction ins outs rule: removeChurnPairs.induct)
  case (1 ins outs)
  show ?case
  proof (cases "List.length ins > 1 \<and> List.length outs > 1")
    case True
    show ?thesis
    proof (cases "remove_first (\<lambda>ci. cd_satoshis ci \<le> fo_satoshis (last outs)) ins")
      case None
      then show ?thesis by (simp add: removeChurnPairs.simps [of ins outs])
    next
      case (Some rest)
      then have "removeChurnPairs ins outs = removeChurnPairs rest (butlast outs)"
        using True by (simp add: removeChurnPairs.simps [of ins outs])
      then show ?thesis using "1.IH" [OF True Some] outputs_ok_butlast [of p outs] by auto
    qed
  next
    case False
    then show ?thesis by (simp only: removeChurnPairs.simps [of ins outs] if_False) simp
  qed
qed

lemma maybeAdd_spec:
  "same_inputs st (maybeAddChangeOutput p removing ao st)
   \<and> (outputs_ok p (g_outputs st) \<longrightarrow> outputs_ok p (g_outputs (maybeAddChangeOutput p removing ao st)))
   \<and> List.length (g_outputs (maybeAddChangeOutput p removing ao st)) \<le> List.length (g_outputs st) + (if removing then 0 else 1)"
  by (auto simp: maybeAddChangeOutput_def Let_def intro!: outputs_ok_push [where p = p, of st])

section \<open>With an allocator that keeps its contract\<close>

context change_allocator
begin

text \<open>The inputs of the plan are exactly what is missing from the allocator.\<close>

definition holds :: "'s \<Rightarrow> 's gc_state \<Rightarrow> bool" where
  "holds s st = (ok s \<and> ok (g_alloc st) \<and> coins (g_alloc st) = coins s \<and>
     free s = mset (g_inputs st) + free (g_alloc st) \<and> g_funding st = sats_of (g_inputs st))"

lemma holds_same: "same_inputs st st' \<Longrightarrow> holds s st' = holds s st"
  by (simp add: same_inputs_def holds_def)

lemma holds_add:
  "holds s st \<Longrightarrow> alloc (g_alloc st) t e = (s', Some c) \<Longrightarrow> holds s (add_input s' c st) \<and> size (free s') < size (free (g_alloc st))"
  using alloc_some [of "g_alloc st" t e s' c] alloc_shrinks [of "g_alloc st" t e s' c]
  by (auto simp: holds_def add_input_def)

lemma holds_none:
  "holds s st \<Longrightarrow> alloc (g_alloc st) t e = (s', None) \<Longrightarrow> s' = g_alloc st \<and> free (g_alloc st) = {#}"
  using alloc_none [of "g_alloc st" t e s'] by (simp add: holds_def)

lemma holds_inputs:
  assumes "holds s st"
  shows "distinct (g_inputs st) \<and> set (g_inputs st) \<subseteq> coins (g_alloc st) \<and> set (g_inputs st) \<inter> set_mset (free (g_alloc st)) = {}"
proof -
  have f: "free s = mset (g_inputs st) + free (g_alloc st)" and o: "ok s" and c: "coins (g_alloc st) = coins s"
    using assms by (simp_all add: holds_def)
  have "count (mset (g_inputs st)) x + count (free (g_alloc st)) x \<le> 1" for x
    using free_once [OF o, of x] f by simp
  note once = this
  have "distinct (g_inputs st)"
    unfolding distinct_count_atmost_1 using once
    by (metis add_leE count_mset_0_iff le_antisym less_one linorder_not_less nat_le_linear not_less_iff_gr_or_eq)
  moreover have "x \<notin># free (g_alloc st)" if "x \<in> set (g_inputs st)" for x
  proof -
    have "0 < count (mset (g_inputs st)) x" unfolding count_greater_zero_iff using that by simp
    then have "count (free (g_alloc st)) x = 0" using once [of x] by linarith
    then show ?thesis by (simp only: not_in_iff)
  qed
  ultimately show ?thesis using free_coins [OF o] f c by auto
qed

lemma holds_release:
  assumes "holds s st"
  shows "holds s (release_inputs release st) \<and> free (g_alloc (release_inputs release st)) = free s
    \<and> g_inputs (release_inputs release st) = [] \<and> g_outputs (release_inputs release st) = g_outputs st"
proof -
  note i = holds_inputs [OF assms]
  have "ok (fold_steps release (g_alloc st) (map cd_outputId (rev (g_inputs st)))) \<and>
      free (fold_steps release (g_alloc st) (map cd_outputId (rev (g_inputs st)))) = mset (rev (g_inputs st)) + free (g_alloc st) \<and>
      coins (fold_steps release (g_alloc st) (map cd_outputId (rev (g_inputs st)))) = coins (g_alloc st)"
    by (rule release_all) (use i assms in \<open>auto simp: holds_def\<close>)
  then show ?thesis using assms by (simp add: holds_def release_inputs_def)
qed

lemma attempt_spec:
  assumes "holds s st" and "feeExcess p st 0 0 < 0" and "attemptToFundTransaction alloc p removing st = (st', again)"
  shows "holds s st' \<and> (if again then size (free (g_alloc st')) < size (free (g_alloc st)) else st' = st \<and> free (g_alloc st) = {#})
    \<and> (outputs_ok p (g_outputs st) \<longrightarrow> outputs_ok p (g_outputs st'))
    \<and> List.length (g_outputs st') + (if removing then 0 else size (free (g_alloc st')))
        \<le> List.length (g_outputs st) + (if removing then 0 else size (free (g_alloc st)))"
proof -
  obtain target exact where r: "allocation_request p st = (target, exact)" by force
  obtain s' c' where d: "alloc (g_alloc st) target exact = (s', c')" by force
  show ?thesis
  proof (cases c')
    case None
    then have n: "s' = g_alloc st" "free (g_alloc st) = {#}" using holds_none [OF assms(1)] d by simp_all
    then have "st' = st" "again = False" using assms(2,3) r d None by (auto simp: attemptToFundTransaction_def)
    then show ?thesis using assms(1) n by simp
  next
    case (Some c)
    define ao where "ao = addOutputToBalanceNewInput p st"
    have a: "holds s (add_input s' c st)" "size (free s') < size (free (g_alloc st))"
      using holds_add [OF assms(1)] d Some by simp_all
    have st': "st' = maybeAddChangeOutput p removing ao (add_input s' c st)" "again"
      using assms(2,3) r d Some by (auto simp: attemptToFundTransaction_def ao_def)
    note m = maybeAdd_spec [of "add_input s' c st" p removing ao, folded st'(1)]
    have g: "g_alloc st' = s'" using m by (simp add: same_inputs_def add_input_def)
    have "holds s st'" using holds_same a(1) m by blast
    then show ?thesis using m a(2) st'(2) g by (auto simp: add_input_def split: if_splits)
  qed
qed

lemma fund_loop_spec:
  "holds s st \<Longrightarrow> fund_loop alloc p removing fuel st = Some st' \<Longrightarrow>
   holds s st' \<and> (feeExcess p st' 0 0 < 0 \<longrightarrow> free (g_alloc st') = {#})
   \<and> (outputs_ok p (g_outputs st) \<longrightarrow> outputs_ok p (g_outputs st'))
   \<and> List.length (g_outputs st') + (if removing then 0 else size (free (g_alloc st')))
        \<le> List.length (g_outputs st) + (if removing then 0 else size (free (g_alloc st)))"
proof (induction fuel arbitrary: st)
  case (Suc fuel)
  show ?case
  proof (cases "feeExcess p st 0 0 < 0")
    case True
    obtain st1 again where a: "attemptToFundTransaction alloc p removing st = (st1, again)" by force
    note spec = attempt_spec [OF Suc.prems(1) True a]
    show ?thesis
    proof (cases again)
      case True
      then have "fund_loop alloc p removing fuel st1 = Some st'" using Suc.prems(2) \<open>feeExcess p st 0 0 < 0\<close> a by simp
      from Suc.IH [OF _ this] show ?thesis using spec by auto
    next
      case False
      then have "st' = st" using Suc.prems(2) \<open>feeExcess p st 0 0 < 0\<close> a spec by simp
      then show ?thesis using spec False Suc.prems(1) by simp
    qed
  next
    case False
    then show ?thesis using Suc.prems by simp
  qed
qed simp

lemma fund_loop_ends: "holds s st \<Longrightarrow> size (free (g_alloc st)) < fuel \<Longrightarrow> fund_loop alloc p removing fuel st \<noteq> None"
proof (induction fuel arbitrary: st)
  case (Suc fuel)
  show ?case
  proof (cases "feeExcess p st 0 0 < 0")
    case True
    obtain st1 again where a: "attemptToFundTransaction alloc p removing st = (st1, again)" by force
    note spec = attempt_spec [OF Suc.prems(1) True a]
    show ?thesis using Suc.IH [of st1] spec Suc.prems(2) True a by (cases again) auto
  qed simp
qed simp

text \<open>What the starvation loop leaves: the inputs it holds, its outputs big enough, and either a
  funded plan or one that took every coin and still has no change.\<close>

definition funded_or_out :: "gc_params \<Rightarrow> 's gc_state \<Rightarrow> bool" where
  "funded_or_out p st = (feeExcess p st 0 0 < 0 \<longrightarrow> g_outputs st = [] \<and> free (g_alloc st) = {#})"

lemma starvation_spec:
  "holds s st \<Longrightarrow> outputs_ok p (g_outputs st) \<Longrightarrow> starvation_loop alloc release p fuel removing passes st = Some st' \<Longrightarrow>
   holds s st' \<and> outputs_ok p (g_outputs st') \<and> funded_or_out p st'"
proof (induction passes arbitrary: st removing)
  case (Suc passes)
  note rel = holds_release [OF Suc.prems(1)]
  obtain st1 where f: "fund_loop alloc p removing fuel (release_inputs release st) = Some st1"
    using Suc.prems(3) by (auto split: option.splits)
  note fs = fund_loop_spec [OF _ f, of s]
  have s1: "holds s st1" "outputs_ok p (g_outputs st1)" "feeExcess p st1 0 0 < 0 \<longrightarrow> free (g_alloc st1) = {#}"
    using fs rel Suc.prems(2) by auto
  show ?case
  proof (cases "feeExcess p st1 0 0 \<ge> 0 \<or> g_outputs st1 = []")
    case True
    then have "st' = st1" using Suc.prems(3) f by simp
    then show ?thesis using s1 True by (auto simp: funded_or_out_def)
  next
    case False
    define st2 where "st2 = pop_outputs p st1"
    note ps = pop_outputs_spec [of st1 p, folded st2_def]
    have h2: "holds s st2" using holds_same ps s1(1) by blast
    show ?thesis
    proof (cases "feeExcess p st2 0 0 < 0")
      case True
      then have "st' = st2" using Suc.prems(3) f False by (simp add: st2_def [symmetric] Let_def)
      then show ?thesis using h2 ps s1 True False by (auto simp: funded_or_out_def same_inputs_def)
    next
      case ok2: False
      define st3 where "st3 = st2\<lparr>g_outputs := removeChurnPairs (g_inputs st2) (g_outputs st2), g_funding := sats_of (g_inputs st2)\<rparr>"
      have "starvation_loop alloc release p fuel True passes st3 = Some st'"
        using Suc.prems(3) f False ok2 by (simp add: st2_def [symmetric] st3_def [symmetric] Let_def)
      moreover have "holds s st3" using h2 by (simp add: st3_def holds_def)
      moreover have "outputs_ok p (g_outputs st3)"
        using removeChurnPairs_spec [of "g_inputs st2" "g_outputs st2" p] ps s1(2) by (simp add: st3_def)
      ultimately show ?thesis using Suc.IH by blast
    qed
  qed
qed simp

lemma starvation_ends:
  "holds s st \<Longrightarrow> size (free s) < fuel \<Longrightarrow>
   List.length (g_outputs st) + (if removing then 0 else size (free s) + 1) < passes \<Longrightarrow>
   starvation_loop alloc release p fuel removing passes st \<noteq> None"
proof (induction passes arbitrary: st removing)
  case (Suc passes)
  note rel = holds_release [OF Suc.prems(1)]
  obtain st1 where f: "fund_loop alloc p removing fuel (release_inputs release st) = Some st1"
    using fund_loop_ends [of s "release_inputs release st" fuel p removing] rel Suc.prems(2) by auto
  note fs = fund_loop_spec [OF _ f, of s]
  have s1: "holds s st1" and l1: "List.length (g_outputs st1) \<le> List.length (g_outputs st) + (if removing then 0 else size (free s))"
    using fs rel by (auto split: if_splits)
  show ?case
  proof (cases "feeExcess p st1 0 0 \<ge> 0 \<or> g_outputs st1 = [] \<or> feeExcess p (pop_outputs p st1) 0 0 < 0")
    case True
    then show ?thesis using f by (auto simp: Let_def)
  next
    case False
    define st2 where "st2 = pop_outputs p st1"
    define st3 where "st3 = st2\<lparr>g_outputs := removeChurnPairs (g_inputs st2) (g_outputs st2), g_funding := sats_of (g_inputs st2)\<rparr>"
    note ps = pop_outputs_spec [of st1 p, folded st2_def]
    have "holds s st2" using holds_same ps s1 by blast
    then have h3: "holds s st3" by (simp add: st3_def holds_def)
    have "List.length (g_outputs st3) < List.length (g_outputs st1)"
      using removeChurnPairs_spec [of "g_inputs st2" "g_outputs st2" p] ps False by (simp add: st3_def)
    then have "List.length (g_outputs st3) < passes"
      using l1 Suc.prems(3) by (cases removing) simp_all
    then have "starvation_loop alloc release p fuel True passes st3 \<noteq> None"
      using Suc.IH [OF h3 Suc.prems(2), of True] by simp
    then show ?thesis using f False by (simp add: st2_def [symmetric] st3_def [symmetric] Let_def)
  qed
qed simp

end

section \<open>Fees grow with the transaction\<close>

text \<open>What the SDK's parameter check lets through, as far as the fees depend on it.\<close>

definition params_ok :: "gc_params \<Rightarrow> bool" where
  "params_ok p = (0 \<le> satsPerKb p \<and> lengths_ok p \<and> list_all (\<lambda>i. 0 \<le> fi_unlockLen i) (gp_fixedInputs p)
     \<and> list_all (\<lambda>x. 0 \<le> fo_lockLen x) (gp_fixedOutputs p))"

lemma varUintSize_pos: "1 \<le> varUintSize n"
  by (simp add: varUintSize_def)

lemma varUintSize_mono: "a \<le> b \<Longrightarrow> varUintSize a \<le> varUintSize b"
  by (simp add: varUintSize_def)

lemma input_size_pos: "0 \<le> n \<Longrightarrow> 0 \<le> transactionInputSize n"
  using varUintSize_pos [of n] by (simp add: transactionInputSize_def)

lemma output_size_pos: "0 \<le> n \<Longrightarrow> 0 \<le> transactionOutputSize n"
  using varUintSize_pos [of n] by (simp add: transactionOutputSize_def)

lemma sum_list_nonneg_on: "list_all (\<lambda>x. 0 \<le> f x) xs \<Longrightarrow> (0 :: int) \<le> (\<Sum>x \<leftarrow> xs. f x)"
  by (induction xs) simp_all

lemma gc_size_pos: "params_ok p \<Longrightarrow> 0 \<le> a \<Longrightarrow> 0 \<le> b \<Longrightarrow> 0 \<le> gc_size p a b"
proof -
  assume p: "params_ok p" "0 \<le> a" "0 \<le> b"
  then have "0 \<le> (\<Sum>i \<leftarrow> gp_fixedInputs p. transactionInputSize (fi_unlockLen i))"
    "0 \<le> (\<Sum>x \<leftarrow> gp_fixedOutputs p. transactionOutputSize (fo_lockLen x))"
    by (auto simp: params_ok_def list_all_iff input_size_pos output_size_pos intro!: sum_list_nonneg_on)
  moreover have "0 \<le> a * transactionInputSize (gp_unlockLen p)" "0 \<le> b * transactionOutputSize (gp_lockLen p)"
    using p by (simp_all add: params_ok_def lengths_ok_def input_size_pos output_size_pos)
  ultimately show ?thesis
    using varUintSize_pos [of "int (List.length (gp_fixedInputs p)) + a"] varUintSize_pos [of "int (List.length (gp_fixedOutputs p)) + b"]
    unfolding gc_size_def by linarith
qed

lemma gc_size_mono: "params_ok p \<Longrightarrow> b \<le> b' \<Longrightarrow> gc_size p a b \<le> gc_size p a b'"
proof -
  assume p: "params_ok p" "b \<le> b'"
  then have "b * transactionOutputSize (gp_lockLen p) \<le> b' * transactionOutputSize (gp_lockLen p)"
    by (intro mult_right_mono) (simp_all add: params_ok_def lengths_ok_def output_size_pos)
  then show ?thesis
    using varUintSize_mono [of "int (List.length (gp_fixedOutputs p)) + b" "int (List.length (gp_fixedOutputs p)) + b'"] p(2)
    unfolding gc_size_def by linarith
qed

lemma counts_pos [simp]: "0 \<le> num_in st" "0 \<le> num_out st"
  by (simp_all add: num_in_def num_out_def)

lemma feeTarget_pos: "params_ok p \<Longrightarrow> 0 \<le> feeTarget p st 0 0"
  by (simp add: feeTarget_def js_ceil_per_kb_nonneg gc_size_pos params_ok_def [of p])

lemma feeTarget_output: "params_ok p \<Longrightarrow> feeTarget p st 0 0 \<le> feeTarget p st 0 1"
  unfolding feeTarget_def
  by (intro js_ceil_per_kb_mono) (simp_all add: gc_size_pos gc_size_mono, simp add: params_ok_def)

text \<open>The plan's size is that of the transaction with its scripts.\<close>

lemma gc_size_is_transactionSize:
  "gc_size p (int n) (int m) = transactionSize (map fi_unlockLen (gp_fixedInputs p) @ replicate n (gp_unlockLen p))
     (map fo_lockLen (gp_fixedOutputs p) @ replicate m (gp_lockLen p))"
  by (simp add: gc_size_def transactionSize_def sum_list_replicate o_def)

text \<open>The adjusted maximum output pays for exactly what was missing.\<close>

lemma max_possible_hit: "first_of (max_possible p) = Some i \<Longrightarrow>
  i < List.length (gp_fixedOutputs p) \<and> fo_satoshis (gp_fixedOutputs p ! i) = maxPossibleSatoshis"
  by (drule first_of_in) (simp add: max_possible_def)

lemma sats_out_set: "i < List.length xs \<Longrightarrow> sats_out (xs[i := (xs ! i)\<lparr>fo_satoshis := fo_satoshis (xs ! i) + n\<rparr>]) = sats_out xs + n"
  using sats_out_update [of i xs n] by (simp add: add_sats_def)

lemma map_update_same: "i < List.length xs \<Longrightarrow> f y = f (xs ! i) \<Longrightarrow> map f (xs[i := y]) = map f xs"
  by (rule nth_equalityI) (auto simp: nth_list_update)

text \<open>What the adjustment changes: the amount of one fixed output.\<close>

definition adjusted_outputs :: "gc_params \<Rightarrow> (nat \<times> int) option \<Rightarrow> sdk_output list" where
  "adjusted_outputs p a = (case a of None \<Rightarrow> gp_fixedOutputs p
     | Some (i, satoshis) \<Rightarrow> (gp_fixedOutputs p)[i := (gp_fixedOutputs p ! i)\<lparr>fo_satoshis := satoshis\<rparr>])"

lemma adjusted_lengths: "map fo_lockLen (adjusted_outputs p a) = map fo_lockLen (gp_fixedOutputs p)"
proof (cases a)
  case (Some b)
  obtain i n where b: "b = (i, n)" by force
  show ?thesis
  proof (cases "i < List.length (gp_fixedOutputs p)")
    case False
    then show ?thesis using Some b by (simp add: adjusted_outputs_def list_update_beyond)
  qed (use Some b in \<open>simp add: adjusted_outputs_def map_update_same\<close>)
qed (simp add: adjusted_outputs_def)

lemma adjust_spec:
  assumes "hasMax = first_of (max_possible p)"
  shows "\<exists>p' a. adjust_max_output p hasMax st = Inr (p', a) \<and> p' = p\<lparr>gp_fixedOutputs := adjusted_outputs p a\<rparr>
    \<and> (a = None \<or> feeExcess p' st 0 0 = 0)"
proof (cases "hasMax \<noteq> None \<and> feeExcess p st 0 0 < 0")
  case False
  then show ?thesis by (auto simp: adjust_max_output_def adjusted_outputs_def split: option.split)
next
  case True
  then obtain i where i: "hasMax = Some i" by auto
  note hit = max_possible_hit [of p i]
  have h: "i < List.length (gp_fixedOutputs p)" "fo_satoshis (gp_fixedOutputs p ! i) = maxPossibleSatoshis"
    using hit assms i by simp_all
  define n where "n = fo_satoshis (gp_fixedOutputs p ! i) + feeExcess p st 0 0"
  define p' where "p' = p\<lparr>gp_fixedOutputs := adjusted_outputs p (Some (i, n))\<rparr>"
  have r: "adjust_max_output p hasMax st = Inr (p', Some (i, n))"
    using True i h(2) by (simp add: adjust_max_output_def p'_def n_def adjusted_outputs_def Let_def)
  have fo: "gp_fixedOutputs p' = adjusted_outputs p (Some (i, n))" by (simp add: p'_def)
  have sp: "spending p' = spending p + feeExcess p st 0 0"
    using sats_out_set [OF h(1), of "feeExcess p st 0 0"] by (simp add: spending_def fo adjusted_outputs_def n_def)
  have "gc_size p' a b = gc_size p a b" for a b
  proof -
    have m: "map fo_lockLen (gp_fixedOutputs p') = map fo_lockLen (gp_fixedOutputs p)" by (simp only: fo adjusted_lengths)
    have "(\<Sum>x \<leftarrow> gp_fixedOutputs p'. transactionOutputSize (fo_lockLen x)) = (\<Sum>x \<leftarrow> gp_fixedOutputs p. transactionOutputSize (fo_lockLen x))"
      using arg_cong [OF m, of "\<lambda>l. sum_list (map transactionOutputSize l)"] by (simp add: o_def)
    moreover have "List.length (gp_fixedOutputs p') = List.length (gp_fixedOutputs p)" using arg_cong [OF m, of List.length] by simp
    ultimately show ?thesis unfolding gc_size_def by (simp add: p'_def)
  qed
  then have "feeTarget p' st 0 0 = feeTarget p st 0 0" by (simp add: feeTarget_def satsPerKb_def p'_def)
  then have "feeExcess p' st 0 0 = 0" using sp by (simp add: feeExcess_def fee_def funding_def p'_def)
  then show ?thesis using r p'_def by blast
qed

section \<open>Sharing loses nothing\<close>

text \<open>The random values the sharing draws: multiples of \<open>2 ^ -32\<close> below one, as four random bytes give.\<close>

definition fine_values :: "random_state \<Rightarrow> bool" where
  "fine_values rs = list_all (\<lambda>v. 0 \<le> v \<and> v < 1 \<and> of_int \<lfloor>v * 2 ^ 32\<rfloor> = v * 2 ^ 32) (rs_values rs)"

lemma next_random_fine:
  assumes "fine_values rs" and "next_random bytes rs = (rs', v)"
  shows "fine_values rs' \<and> (\<exists>m. 0 \<le> m \<and> m < 2 ^ 32 \<and> v = of_int m / 2 ^ 32)"
proof (cases "rs_values rs")
  case Nil
  define m where "m = int (bytes (rs_drawn rs) mod 2 ^ 32)"
  have v: "v = of_int m / 2 ^ 32" and rs': "rs_values rs' = []" using assms(2) Nil by (auto simp: next_random_def m_def)
  have "0 \<le> m" "m < 2 ^ 32" unfolding m_def by (simp, metis mod_less_divisor of_nat_less_iff of_nat_numeral of_nat_power zero_less_numeral zero_less_power)
  then show ?thesis using v rs' by (auto simp: fine_values_def)
next
  case (Cons u us)
  have u: "u = v" "rs_values rs' = us @ [u]" using assms(2) Cons by (auto simp: next_random_def)
  have all: "\<forall>x \<in> set (rs_values rs). 0 \<le> x \<and> x < 1 \<and> of_int \<lfloor>x * 2 ^ 32\<rfloor> = x * 2 ^ 32"
    using assms(1) unfolding fine_values_def list_all_iff .
  have "0 \<le> v \<and> v < 1 \<and> of_int \<lfloor>v * 2 ^ 32\<rfloor> = v * 2 ^ 32" by (rule bspec [OF all]) (simp add: Cons u)
  then have f: "0 \<le> v" "v < 1" "of_int \<lfloor>v * 2 ^ 32\<rfloor> = v * 2 ^ 32" by blast+
  have us: "fine_values rs'" unfolding fine_values_def list_all_iff
    by (intro ballI, rule bspec [OF all]) (auto simp: Cons u)
  define m where "m = \<lfloor>v * 2 ^ 32\<rfloor>"
  have e: "v = of_int m / 2 ^ 32" unfolding m_def f(3) by simp
  have "0 \<le> m" using f(1) by (simp add: m_def)
  moreover have "m < 2 ^ 32"
  proof -
    have "(of_int m :: rat) < of_int (2 ^ 32)" using f(2) e by simp
    then show ?thesis by (simp only: of_int_less_iff)
  qed
  ultimately show ?thesis using us e by blast
qed

lemma gc_rand_bounds:
  assumes "fine_values rs" and "gc_rand bytes rs lo hi = (rs', k)" and "0 \<le> lo" and "lo \<le> hi" and "hi < 2 ^ 20"
  shows "fine_values rs' \<and> lo \<le> k \<and> k \<le> hi"
proof -
  obtain v where n: "next_random bytes rs = (rs', v)" and k: "k = \<lfloor>fl (fl (v * of_int (hi - lo + 1)) + of_int lo)\<rfloor>"
    using assms(2) by (auto simp: gc_rand_def split: prod.splits)
  obtain m where m: "0 \<le> m" "m < 2 ^ 32" "v = of_int m / 2 ^ 32" and f: "fine_values rs'"
    using next_random_fine [OF assms(1) n] by blast
  define w where "w = hi - lo + 1"
  have w: "1 \<le> w" "w \<le> 2 ^ 20" using assms(3-5) by (simp_all add: w_def)
  have pw: "(2 :: rat) powi (- 32) = 1 / 2 ^ 32" by (simp add: power_int_def field_simps)
  have mw: "0 \<le> m * w" "m * w \<le> 2 ^ 32 * w - w" using m w mult_right_mono [of m "2 ^ 32 - 1" w] by (simp_all add: left_diff_distrib)
  have "2 ^ 32 * w - w < 2 ^ 53" using w by simp
  with mw(2) have "m * w < 2 ^ 53" by (rule order_le_less_trans)
  then have "fl (v * of_int w) = of_int (m * w) / 2 ^ 32"
    using fl_exact [of "m * w" "- 32"] mw unfolding pw m(3) by (simp add: field_simps)
  then have s: "fl (v * of_int w) + of_int lo = of_int (m * w + lo * 2 ^ 32) / 2 ^ 32" by (simp add: field_simps)
  have "m * w + lo * 2 ^ 32 < 2 ^ 53" using mw w assms(3-5) by (simp add: w_def)
  moreover have "0 \<le> m * w + lo * 2 ^ 32" using mw assms(3) by simp
  ultimately have r: "fl (fl (v * of_int w) + of_int lo) = of_int (m * w + lo * 2 ^ 32) / 2 ^ 32"
    using fl_exact [of "m * w + lo * 2 ^ 32" "- 32"] unfolding pw s by simp
  have d: "(2 :: rat) ^ 32 = of_int (2 ^ 32)" by simp
  have "k = \<lfloor>of_int (m * w + lo * 2 ^ 32) / (of_int (2 ^ 32) :: rat)\<rfloor>" unfolding k w_def [symmetric] r d by (rule refl)
  then have k': "k = (m * w + lo * 2 ^ 32) div 2 ^ 32" by (simp only: floor_divide_of_int_eq)
  have "0 \<le> m * w div 2 ^ 32" using mw(1) by (intro pos_imp_zdiv_nonneg_iff [THEN iffD2]) simp_all
  moreover have "m * w div 2 ^ 32 < w" using mw w proof -
    have "m * w < w * 4294967296" using mw(2) w(1) by simp
    then have "m * w div 4294967296 < w" by linarith
    then show ?thesis by simp
  qed
  ultimately show ?thesis using f by (simp add: k' w_def)
qed

lemma fl_double: "0 < x \<Longrightarrow> fl x \<le> 2 * x"
  using fl_binade [of x] expo_bounds [of x] by (simp add: power_int_add)

lemma share_within:
  assumes "k \<le> 5000" and "0 \<le> k" and "1 \<le> excess"
  shows "1 \<le> max 1 (js_share k excess) \<and> max 1 (js_share k excess) \<le> excess"
proof -
  define y where "y = fl (of_int k / 10000) * of_int excess"
  have k: "0 \<le> fl (of_int k / 10000)" "fl (of_int k / 10000) \<le> 1 / 2"
    using fl_mono [of "of_int k / 10000" "of_int 1 / 2"] fl_half [of 1] assms(1,2) by (simp_all add: fl_nonneg)
  have y: "0 \<le> y" "2 * y \<le> of_int excess"
    using k assms(3) mult_right_mono [OF k(2), of "of_int excess"] by (simp_all add: y_def)
  have "fl y \<le> of_int excess"
  proof (cases "y = 0")
    case False
    then show ?thesis using fl_double [of y] y by simp
  qed (use assms(3) in simp)
  then have "js_share k excess \<le> excess" unfolding js_share_def y_def [symmetric] by linarith
  then show ?thesis using assms(3) by simp
qed

definition grown :: "sdk_output list \<Rightarrow> sdk_output list \<Rightarrow> bool" where
  "grown = list_all2 (\<lambda>a b. fo_satoshis a \<le> fo_satoshis b)"

lemma grown_refl [simp]: "grown xs xs"
  by (simp add: grown_def list_all2_refl)

lemma grown_trans: "grown xs ys \<Longrightarrow> grown ys zs \<Longrightarrow> grown xs zs"
  unfolding grown_def by (rule list_all2_trans) (rule order_trans)

lemma grown_length: "grown xs ys \<Longrightarrow> List.length ys = List.length xs"
  by (simp add: grown_def list_all2_lengthD)

lemma grown_update: "0 \<le> n \<Longrightarrow> grown xs (xs[i := add_sats n (xs ! i)])"
  by (cases "i < List.length xs") (auto simp: grown_def list_all2_conv_all_nth nth_list_update list_update_beyond)

lemma grown_above: "grown xs ys \<Longrightarrow> list_all (\<lambda>x. d \<le> fo_satoshis x) xs \<Longrightarrow> list_all (\<lambda>x. d \<le> fo_satoshis x) ys"
  unfolding grown_def by (induction rule: list_all2_induct) auto

lemma distribute_spec:
  "fine_values rs \<Longrightarrow> List.length outs \<le> 2 ^ 20 \<Longrightarrow>
   \<exists>outs' left rs'. distributeExcessFees bytes initial outs excess rs = Some (outs', left, rs') \<and> fine_values rs' \<and> grown outs outs'
     \<and> (outs \<noteq> [] \<and> 0 \<le> excess \<longrightarrow> sats_out outs' = sats_out outs + excess)"
proof (induction bytes initial outs excess rs rule: distributeExcessFees.induct)
  case (1 bytes initial outs excess rs)
  note unfold = distributeExcessFees.simps [of bytes initial outs excess rs]
  consider (stop) "outs = [] \<or> excess \<le> 0" | (one) "\<not> (outs = [] \<or> excess \<le> 0)" "List.length outs = 1"
    | (fill) "\<not> (outs = [] \<or> excess \<le> 0)" "List.length outs \<noteq> 1" "fo_satoshis (hd outs) < initial"
    | (share) "\<not> (outs = [] \<or> excess \<le> 0)" "List.length outs \<noteq> 1" "\<not> fo_satoshis (hd outs) < initial" by blast
  then show ?case
  proof cases
    case stop
    then show ?thesis using "1.prems" unfold by auto
  next
    case one
    then obtain x where x: "outs = [x]" by (cases outs) auto
    then show ?thesis using "1.prems" one grown_update [of excess "[x]" 0] unfold by (simp add: sats_out_def)
  next
    case fill
    define n where "n = min excess (initial - fo_satoshis (hd outs))"
    define outs1 where "outs1 = add_sats n (hd outs) # tl outs"
    have o: "outs1 = outs[0 := add_sats n (outs ! 0)]" using fill(1) by (cases outs) (simp_all add: outs1_def)
    have n: "0 \<le> n" "n \<le> excess" using fill by (simp_all add: n_def)
    have g: "grown outs outs1" unfolding o by (rule grown_update [OF n(1)])
    have s: "sats_out outs1 = sats_out outs + n" unfolding o using fill(1) by (intro sats_out_update) simp
    have e: "distributeExcessFees bytes initial outs excess rs = distributeExcessFees bytes initial outs1 (excess - n) rs"
      using fill unfold by (simp add: outs1_def n_def Let_def)
    have "outs1 \<noteq> []" by (simp add: outs1_def)
    then show ?thesis
      using "1.IH"(1) [OF fill n_def, folded outs1_def, OF "1.prems"(1)] "1.prems"(2) grown_length [OF g] grown_trans [OF g] s n
      unfolding e by fastforce
  next
    case share
    obtain rs1 k where r1: "gc_rand bytes rs 2500 5000 = (rs1, k)" by force
    note b1 = gc_rand_bounds [OF "1.prems"(1) r1]
    define n where "n = max 1 (js_share k excess)"
    obtain rs2 index where r2: "gc_rand bytes rs1 0 (int (List.length outs) - 1) = (rs2, index)" by force
    have l: "1 \<le> List.length outs" using share(1) by (cases outs) simp_all
    have b2: "fine_values rs2" "0 \<le> index" "index \<le> int (List.length outs) - 1"
      using gc_rand_bounds [OF _ r2] b1 l share(1) "1.prems"(2) by simp_all
    have n: "1 \<le> n" "n \<le> excess" using share_within [of k excess] b1 share(1) by (simp_all add: n_def)
    define outs1 where "outs1 = outs[nat index := add_sats n (outs ! nat index)]"
    have g: "grown outs outs1" unfolding outs1_def using n by (intro grown_update) simp
    have s: "sats_out outs1 = sats_out outs + n" unfolding outs1_def using b2 by (intro sats_out_update) linarith
    have i: "\<not> (index < 0 \<or> index \<ge> int (List.length outs))" using b2 by simp
    have e: "distributeExcessFees bytes initial outs excess rs = distributeExcessFees bytes initial outs1 (excess - n) rs2"
      using share i r1 r2 unfold by (simp add: outs1_def n_def Let_def)
    have "outs1 \<noteq> []" using share(1) by (simp add: outs1_def)
    then show ?thesis
      using "1.IH"(2) [OF share r1 [symmetric] n_def r2 [symmetric] i, folded outs1_def, OF b2(1)] "1.prems"(2) grown_length [OF g] grown_trans [OF g] s n
      unfolding e by fastforce
  qed
qed

lemma distribute_length:
  "distributeExcessFees bytes initial outs excess rs = Some (outs', left, rs') \<Longrightarrow> List.length outs' = List.length outs"
proof (induction bytes initial outs excess rs rule: distributeExcessFees.induct)
  case (1 bytes initial outs excess rs)
  note unfold = distributeExcessFees.simps [of bytes initial outs excess rs]
  show ?case
    using "1.prems" "1.IH" unfold
    by (cases outs) (auto simp: Let_def split: if_splits prod.splits nat.splits)
qed

section \<open>Splitting keeps the fee\<close>

lemma shape_loop_same:
  "shape_loop bytes p st original rs n = Some st' \<Longrightarrow>
   same_inputs st st' \<and> (g_outputs st' = g_outputs st \<or> List.length (g_outputs st') \<le> n)"
proof (induction n)
  case (Suc n)
  show ?case
  proof (cases "n = 0 \<or> original - (feeTarget p st 0 (int n) - feeTarget p st 0 0) < int (Suc n) * gp_changeInitial p")
    case True
    then show ?thesis using Suc by (auto simp: Let_def split: if_splits)
  next
    case False
    then show ?thesis using Suc.prems by (auto simp: Let_def same_inputs_def dest!: distribute_length)
  qed
qed simp

lemma sats_out_replicate: "sats_out (replicate n (change_output p k)) = int n * k"
  by (simp add: sats_out_def sum_list_replicate)

lemma shape_loop_spec:
  assumes "fine_values rs" and "g_outputs st = [x]"
  shows "n \<le> 2 ^ 20 \<Longrightarrow> \<exists>st'. shape_loop bytes p st (fo_satoshis x) rs n = Some st' \<and> feeExcess p st' 0 0 = feeExcess p st 0 0
     \<and> (g_outputs st' = g_outputs st \<or> list_all (\<lambda>y. gp_changeInitial p \<le> fo_satoshis y) (g_outputs st'))"
proof (induction n)
  case (Suc n)
  define d where "d = fo_satoshis x - (feeTarget p st 0 (int n) - feeTarget p st 0 0)"
  show ?case
  proof (cases "n = 0 \<or> d < int (Suc n) * gp_changeInitial p")
    case True
    then show ?thesis using Suc by (auto simp: d_def Let_def)
  next
    case False
    define outs where "outs = replicate (Suc n) (change_output p (gp_changeInitial p))"
    have l: "List.length outs \<le> 2 ^ 20" using Suc.prems by (simp add: outs_def)
    obtain outs' left rs' where r: "distributeExcessFees bytes (gp_changeInitial p) outs (d - int (Suc n) * gp_changeInitial p) rs = Some (outs', left, rs')"
      and g: "grown outs outs'"
      and s: "outs \<noteq> [] \<and> 0 \<le> d - int (Suc n) * gp_changeInitial p \<longrightarrow> sats_out outs' = sats_out outs + (d - int (Suc n) * gp_changeInitial p)"
      using distribute_spec [OF assms(1) l, of bytes "gp_changeInitial p" "d - int (Suc n) * gp_changeInitial p"] by blast
    define st' where "st' = st\<lparr>g_outputs := outs'\<rparr>"
    have e: "shape_loop bytes p st (fo_satoshis x) rs (Suc n) = Some st'"
      unfolding shape_loop.simps Let_def d_def [symmetric] outs_def [symmetric] using False r by (simp add: st'_def)
    have "sats_out outs = int (Suc n) * gp_changeInitial p" unfolding outs_def by (rule sats_out_replicate)
    then have so: "sats_out outs' = d" using s False by (simp add: outs_def)
    have no: "List.length outs' = Suc n" using grown_length [OF g] by (simp add: outs_def)
    have n1: "num_out st' = num_out st + int n" "num_in st' = num_in st"
      using no assms(2) by (simp_all add: st'_def num_out_def num_in_def)
    have ft: "feeTarget p st' 0 0 = feeTarget p st 0 (int n)" by (simp add: feeTarget_def n1)
    have "fee p st' = fee p st + (feeTarget p st 0 (int n) - feeTarget p st 0 0)"
      using so assms(2) by (simp add: fee_def funding_def st'_def d_def sats_out_def)
    then have "feeExcess p st' 0 0 = feeExcess p st 0 0" by (simp add: feeExcess_def ft)
    moreover have "list_all (\<lambda>y. gp_changeInitial p \<le> fo_satoshis y) outs'"
      by (rule grown_above [OF g]) (simp add: outs_def list_all_iff)
    ultimately show ?thesis using e by (auto simp: st'_def)
  qed
qed simp

lemma removeDust_one: "List.length outs \<le> 1 \<Longrightarrow> removeDustOutputs d i outs = outs"
  by (induction i) simp_all

lemma removeDust_none: "list_all (\<lambda>x. d \<le> fo_satoshis x) outs \<Longrightarrow> i \<le> List.length outs \<Longrightarrow> removeDustOutputs d i outs = outs"
proof (induction i)
  case (Suc i)
  then have "\<not> fo_satoshis (outs ! i) < d" by (auto simp: list_all_length not_less)
  then show ?case using Suc by simp
qed simp

lemma removeDust_length: "i \<le> List.length outs \<Longrightarrow> List.length (removeDustOutputs d i outs) \<le> List.length outs"
proof (induction i arbitrary: outs)
  case (Suc i)
  define rest where "rest = List.take i outs @ List.drop (Suc i) outs"
  define outs1 where "outs1 = rest[largest_index rest := add_sats (fo_satoshis (outs ! i)) (rest ! largest_index rest)]"
  have "List.length outs1 + 1 = List.length outs" "i \<le> List.length outs1" using Suc.prems by (simp_all add: outs1_def rest_def)
  moreover have "removeDustOutputs d (Suc i) outs = (if fo_satoshis (outs ! i) < d \<and> List.length outs > 1 then removeDustOutputs d i outs1 else removeDustOutputs d i outs)"
    by (simp add: outs1_def rest_def Let_def)
  ultimately show ?case using Suc.IH [of outs1] Suc.IH [of outs] Suc.prems by auto
qed simp

section \<open>The last steps\<close>

lemma materialize_spec:
  fixes p and st :: "'s gc_state"
  defines "st' \<equiv> materializeSurplusChangeOutput p st"
  shows "same_inputs st st' \<and> (outputs_ok p (g_outputs st) \<longrightarrow> outputs_ok p (g_outputs st'))
    \<and> (if gp_surplusPoolShaping p \<and> g_outputs st = [] \<and> dustFloor p \<le> feeExcess p st 0 1
       then g_outputs st' \<noteq> [] \<and> 0 \<le> feeExcess p st' 0 0 else st' = st)"
proof (cases "gp_surplusPoolShaping p \<and> g_outputs st = [] \<and> dustFloor p \<le> feeExcess p st 0 1")
  case True
  define n where "n = min (feeExcess p st 0 1) (max (dustFloor p) (gp_changeFirst p))"
  have e: "st' = push_output p n st" using True by (simp add: st'_def materializeSurplusChangeOutput_def n_def)
  have n: "dustFloor p \<le> n" "n \<le> feeExcess p st 0 1" using True by (simp_all add: n_def)
  have "feeExcess p st' 0 0 = feeExcess p st 0 1 - n"
    using True by (simp add: e feeExcess_def fee_def funding_def feeTarget_def num_in_def num_out_def)
  then show ?thesis using n True by (simp add: e)
next
  case False
  then have "st' = st" by (auto simp: st'_def materializeSurplusChangeOutput_def)
  then show ?thesis using False by (auto simp: if_not_P)
qed

lemma require_spec:
  "requireViableChange release p st = Some (s', e) \<Longrightarrow>
   g_outputs st = [] \<and> 0 < feeExcess p st 0 0 \<and> \<not> (gp_surplusPoolShaping p \<and> feeExcess p st 0 1 < dustFloor p)
   \<and> s' = g_alloc (release_inputs release st) \<and> (\<exists>needed missing. e = InsufficientFunds needed missing \<and> 0 < missing)"
  by (auto simp: requireViableChange_def Let_def split: if_splits)

lemma require_none: "requireViableChange release p st = None \<Longrightarrow> g_outputs st = [] \<Longrightarrow> 0 < feeExcess p st 0 0 \<Longrightarrow>
  gp_surplusPoolShaping p \<and> feeExcess p st 0 1 < dustFloor p"
  by (auto simp: requireViableChange_def Let_def split: if_splits)

lemma finish_error: "finish_change bytes p a st = (s', Inl e) \<Longrightarrow> e = InternalError"
  by (auto simp: finish_change_def Let_def split: option.splits prod.splits if_splits)

lemma shape_same:
  assumes "shapeSurplusChangeOutputs bytes p rs st = Some st'"
  shows "same_inputs st st' \<and> List.length (g_outputs st') \<le> max (List.length (g_outputs st)) (nat (maxChangeOutputs p))"
proof -
  define n where "n = nat (min (maxChangeOutputs p) (max 1 (targetNetCount p + num_in st)))"
  show ?thesis
  proof (cases "\<not> gp_surplusPoolShaping p \<or> List.length (g_outputs st) \<noteq> 1 \<or> targetNetCount p \<le> netChangeCount st")
    case True
    then have "st' = st" using assms by (auto simp: shapeSurplusChangeOutputs_def split: if_splits)
    then show ?thesis by simp
  next
    case False
    then have e: "shape_loop bytes p st (fo_satoshis (hd (g_outputs st))) rs n = Some st'"
      using assms by (simp add: shapeSurplusChangeOutputs_def n_def)
    have "n \<le> nat (maxChangeOutputs p)" by (simp add: n_def)
    then show ?thesis using shape_loop_same [OF e] by auto
  qed
qed

lemma finish_result:
  assumes "finish_change bytes p a st = (s', Inr r)"
  shows "s' = g_alloc st \<and> gr_inputs r = g_inputs st
    \<and> gr_size r = gc_size p (int (List.length (gr_inputs r))) (int (List.length (gr_outputs r)))
    \<and> gr_satsPerKb r = satsPerKb p \<and> gr_adjustment r = a \<and> validateGenerateChangeSdkResult p r
    \<and> List.length (gr_outputs r) \<le> max (List.length (g_outputs st)) (nat (maxChangeOutputs p))"
proof -
  obtain outs left rs st1 where d: "distributeExcessFees bytes (gp_changeInitial p) (g_outputs st) (feeExcess p st 0 0) (repeatableRandom (gp_randomVals p)) = Some (outs, left, rs)"
    and h: "shapeSurplusChangeOutputs bytes p rs (st\<lparr>g_outputs := outs\<rparr>) = Some st1"
    using assms by (auto simp: finish_change_def split: option.splits prod.splits)
  define outs2 where "outs2 = removeDustOutputs (dustFloor p) (List.length (g_outputs st1)) (g_outputs st1)"
  have l: "List.length outs2 \<le> max (List.length (g_outputs st)) (nat (maxChangeOutputs p))"
    using removeDust_length [of "List.length (g_outputs st1)" "g_outputs st1" "dustFloor p"] shape_same [OF h] distribute_length [OF d]
    by (simp add: outs2_def)
  have i: "g_inputs st1 = g_inputs st" "g_alloc st1 = g_alloc st" using shape_same [OF h] by (simp_all add: same_inputs_def)
  have "gr_inputs r = g_inputs st \<and> gr_outputs r = outs2 \<and> s' = g_alloc st \<and> gr_satsPerKb r = satsPerKb p \<and> gr_adjustment r = a
     \<and> gr_size r = gc_size p (int (List.length (g_inputs st))) (int (List.length outs2)) \<and> validateGenerateChangeSdkResult p r"
    using assms d h i by (auto simp: finish_change_def Let_def outs2_def num_in_def num_out_def split: if_splits)
  then show ?thesis using l by simp
qed

text \<open>The shape the state has when the sharing begins, and what then never fails.\<close>

definition ready :: "gc_params \<Rightarrow> 's gc_state \<Rightarrow> bool" where
  "ready p st = (outputs_ok p (g_outputs st) \<and> 0 \<le> feeExcess p st 0 0 \<and> g_funding st = sats_of (g_inputs st) \<and>
     (g_outputs st = [] \<and> 0 < feeExcess p st 0 0 \<longrightarrow> gp_surplusPoolShaping p \<and> feeExcess p st 0 1 < dustFloor p))"

text \<open>When the shaping is on, the preferred amount is no dust and one output more does not lengthen
  the output count.\<close>

definition shaping_fits :: "gc_params \<Rightarrow> bool" where
  "shaping_fits p = (gp_surplusPoolShaping p \<longrightarrow> dustFloor p \<le> gp_changeInitial p \<and>
     varUintSize (int (List.length (gp_fixedOutputs p)) + 1) = varUintSize (int (List.length (gp_fixedOutputs p))))"

lemma fee_of_outputs:
  "feeExcess p (st\<lparr>g_outputs := outs\<rparr>) 0 0 = feeExcess p st 0 0 + sats_out (g_outputs st) - sats_out outs"
  if "List.length outs = List.length (g_outputs st)"
  using that by (simp add: feeExcess_def fee_def funding_def feeTarget_def num_in_def num_out_def)

lemma shaping_returns:
  assumes "fine_values rs" and "maxChangeOutputs p < 2 ^ 20" and "shaping_fits p" and "outputs_ok p (g_outputs st)"
  shows "\<exists>st'. shapeSurplusChangeOutputs bytes p rs st = Some st' \<and> feeExcess p st' 0 0 = feeExcess p st 0 0
    \<and> removeDustOutputs (dustFloor p) (List.length (g_outputs st')) (g_outputs st') = g_outputs st'
    \<and> (g_outputs st = [] \<longrightarrow> st' = st)"
proof -
  have big: "removeDustOutputs (dustFloor p) (List.length outs) outs = outs" if "big_outputs p outs" for outs
    using removeDust_none [of "dustFloor p" outs "List.length outs"] that by (simp add: big_outputs_def)
  show ?thesis
  proof (cases "\<not> gp_surplusPoolShaping p \<or> List.length (g_outputs st) \<noteq> 1 \<or> targetNetCount p \<le> netChangeCount st")
    case True
    then have "shapeSurplusChangeOutputs bytes p rs st = Some st" by (auto simp: shapeSurplusChangeOutputs_def)
    then show ?thesis using assms(4) big by (simp add: outputs_ok_def)
  next
    case False
    then obtain x where x: "g_outputs st = [x]" by (auto simp: length_Suc_conv)
    define n where "n = nat (min (maxChangeOutputs p) (max 1 (targetNetCount p + num_in st)))"
    have n: "n \<le> 2 ^ 20" using assms(2) by (simp add: n_def)
    have e: "shapeSurplusChangeOutputs bytes p rs st = shape_loop bytes p st (fo_satoshis x) rs n"
      using False x by (simp add: shapeSurplusChangeOutputs_def n_def)
    obtain st' where s: "shape_loop bytes p st (fo_satoshis x) rs n = Some st'" "feeExcess p st' 0 0 = feeExcess p st 0 0"
      "g_outputs st' = g_outputs st \<or> list_all (\<lambda>y. gp_changeInitial p \<le> fo_satoshis y) (g_outputs st')"
      using shape_loop_spec [OF assms(1) x n, of bytes p] by blast
    have "big_outputs p (g_outputs st')"
      using s(3) assms(3,4) False by (auto simp: outputs_ok_def shaping_fits_def big_outputs_def list_all_iff intro: order_trans)
    then show ?thesis using e s x big by simp
  qed
qed

lemma finish_returns:
  assumes "ready p st" and "params_ok p" and "shaping_fits p" and "maxChangeOutputs p < 2 ^ 20"
    and "fine_values (repeatableRandom (gp_randomVals p))"
  shows "\<exists>r. finish_change bytes p a st = (g_alloc st, Inr r)"
proof -
  define ex where "ex = feeExcess p st 0 0"
  have o: "outputs_ok p (g_outputs st)" "0 \<le> ex" "g_funding st = sats_of (g_inputs st)"
    using assms(1) by (simp_all add: ready_def ex_def)
  have "int (List.length (g_outputs st)) \<le> max 1 (maxChangeOutputs p)" using o(1) by (simp add: outputs_ok_def)
  also have "\<dots> \<le> 2 ^ 20" using assms(4) by simp
  finally have "int (List.length (g_outputs st)) \<le> 2 ^ 20" .
  then have l: "List.length (g_outputs st) \<le> 2 ^ 20" by simp
  obtain outs left rs where d: "distributeExcessFees bytes (gp_changeInitial p) (g_outputs st) ex (repeatableRandom (gp_randomVals p)) = Some (outs, left, rs)"
    and f: "fine_values rs" and g: "grown (g_outputs st) outs"
    and s: "g_outputs st \<noteq> [] \<and> 0 \<le> ex \<longrightarrow> sats_out outs = sats_out (g_outputs st) + ex"
    using distribute_spec [OF assms(5) l, of bytes "gp_changeInitial p" ex] by blast
  define st0 where "st0 = st\<lparr>g_outputs := outs\<rparr>"
  have ol: "List.length outs = List.length (g_outputs st)" using grown_length [OF g] .
  have ok0: "outputs_ok p (g_outputs st0)" using grown_above [OF g, of "dustFloor p"] o(1) ol by (simp add: outputs_ok_def big_outputs_def st0_def)
  obtain st1 where h: "shapeSurplusChangeOutputs bytes p rs st0 = Some st1" "feeExcess p st1 0 0 = feeExcess p st0 0 0"
    "removeDustOutputs (dustFloor p) (List.length (g_outputs st1)) (g_outputs st1) = g_outputs st1"
    "g_outputs st0 = [] \<longrightarrow> st1 = st0"
    using shaping_returns [OF f assms(4,3) ok0] by blast
  have i: "g_inputs st1 = g_inputs st" "g_alloc st1 = g_alloc st" "g_funding st1 = g_funding st"
    using shape_same [OF h(1)] by (simp_all add: same_inputs_def st0_def)
  define r where "r = \<lparr>gr_inputs = g_inputs st1, gr_outputs = g_outputs st1, gr_size = gc_size p (num_in st1) (num_out st1),
                         gr_fee = fee p st1, gr_satsPerKb = satsPerKb p, gr_adjustment = a\<rparr>"
  have fee1: "fee p st1 = feeExcess p st1 0 0 + feeTarget p st1 0 0" by (simp add: feeExcess_def)
  have ft: "feeTarget p st1 0 0 = js_ceil_per_kb (satsPerKb p) (gc_size p (num_in st1) (num_out st1))" by (simp add: feeTarget_def)
  have sums: "sats_in (gp_fixedInputs p) + sats_of (g_inputs st1) - (sats_out (gp_fixedOutputs p) + sats_out (g_outputs st1)) = fee p st1"
    using o(3) i by (simp add: fee_def funding_def spending_def)
  have e0: "feeExcess p st0 0 0 = ex + sats_out (g_outputs st) - sats_out outs"
    unfolding st0_def ex_def by (rule fee_of_outputs [OF ol])
  have v: "validateGenerateChangeSdkResult p r"
  proof (cases "g_outputs st = [] \<and> 0 < ex")
    case False
    have "feeExcess p st1 0 0 = 0"
    proof (cases "g_outputs st = []")
      case True
      then show ?thesis using False o(2) ol e0 h(2) by simp
    next
      case nonempty: False
      then show ?thesis using s o(2) e0 h(2) by simp
    qed
    then show ?thesis using fee1 ft sums feeTarget_pos [OF assms(2), of st1] unfolding validateGenerateChangeSdkResult_def r_def Let_def by simp
  next
    case True
    then have "outs = []" "st1 = st0" using ol h(4) by (simp_all add: st0_def)
    then have st1: "st1 = st" using True by (simp add: st0_def)
    have b: "gp_surplusPoolShaping p" "feeExcess p st 0 1 < dustFloor p" using assms(1) True by (simp_all add: ready_def ex_def)
    have n: "num_out st1 = 0" using True st1 by (simp add: num_out_def)
    have "gc_size p (num_in st) (0 + 1) = gc_size p (num_in st) 0 + transactionOutputSize (gp_lockLen p)"
      using assms(3) b(1) by (simp add: gc_size_def shaping_fits_def)
    then have "feeTarget p st 0 1 = js_ceil_per_kb (satsPerKb p) (gc_size p (num_in st1) (num_out st1) + transactionOutputSize (gp_lockLen p))"
      using n st1 by (simp add: feeTarget_def)
    then have w: "fee p st1 - js_ceil_per_kb (satsPerKb p) (gc_size p (num_in st1) (num_out st1) + transactionOutputSize (gp_lockLen p)) < dustFloor p"
      using b(2) st1 by (simp add: feeExcess_def)
    have "js_ceil_per_kb (satsPerKb p) (gc_size p (num_in st1) (num_out st1)) < fee p st1"
      using fee1 ft True st1 by (simp add: ex_def)
    then show ?thesis using w b(1) True st1 sums ft feeTarget_pos [OF assms(2), of st1]
      unfolding validateGenerateChangeSdkResult_def r_def Let_def dustFloor_def by simp
  qed
  have "finish_change bytes p a st = (g_alloc st, Inr r)"
    using d h(1,3) v i(2) by (simp add: finish_change_def ex_def [symmetric] st0_def [symmetric] Let_def r_def)
  then show ?thesis by blast
qed

context change_allocator
begin

lemma migrate_loop_spec:
  "holds s st \<Longrightarrow> 0 \<le> feeExcess p st 0 0 \<Longrightarrow> holds s (migrate_loop alloc release p n st)
    \<and> g_outputs (migrate_loop alloc release p n st) = g_outputs st \<and> 0 \<le> feeExcess p (migrate_loop alloc release p n st) 0 0"
proof (induction n arbitrary: st)
  case (Suc n)
  obtain s' c' where a: "alloc (g_alloc st) 0 None = (s', c')" by force
  show ?case
  proof (cases c')
    case None
    then have "migrate_loop alloc release p (Suc n) st = st"
      using holds_none [OF Suc.prems(1)] a by (auto simp: Let_def)
    then show ?thesis using Suc.prems by simp
  next
    case (Some c)
    have h: "holds s (add_input s' c st)" using holds_add [OF Suc.prems(1)] a Some by blast
    show ?thesis
    proof (cases "cd_satoshis c \<ge> gp_changeInitial p \<or> cd_satoshis c \<le> feeTarget p st 1 0 - feeTarget p st 0 0")
      case True
      then have e: "migrate_loop alloc release p (Suc n) st = st\<lparr>g_alloc := release s' (cd_outputId c)\<rparr>"
        using a Some by (simp add: Let_def)
      have k: "ok (g_alloc st)" using Suc.prems(1) by (simp add: holds_def)
      have m: "ok s'" "free (g_alloc st) = add_mset c (free s')" "coins s' = coins (g_alloc st)"
        using alloc_some [OF k] a Some by simp_all
      have "c \<in> coins s'" "c \<notin># free s'" using allocated_is_coin [OF k] a Some by simp_all
      then have "holds s (st\<lparr>g_alloc := release s' (cd_outputId c)\<rparr>)"
        using release_one [OF m(1)] m(2,3) Suc.prems(1) by (simp add: holds_def)
      then show ?thesis using Suc.prems(2) unfolding e
        by (simp add: feeExcess_def fee_def funding_def feeTarget_def num_in_def num_out_def)
    next
      case False
      then have e: "migrate_loop alloc release p (Suc n) st = migrate_loop alloc release p n (add_input s' c st)"
        using a Some by (simp add: Let_def)
      have "feeExcess p (add_input s' c st) 0 0 = feeExcess p st 0 0 + cd_satoshis c - (feeTarget p st 1 0 - feeTarget p st 0 0)"
        by (simp add: feeExcess_def fee_def funding_def feeTarget_def num_in_def num_out_def add_input_def add.commute [of 1])
      then have "0 \<le> feeExcess p (add_input s' c st) 0 0" using Suc.prems(2) False by simp
      then show ?thesis using Suc.IH [OF h] unfolding e by (simp add: add_input_def)
    qed
  qed
qed simp

lemma migrate_spec:
  "holds s st \<Longrightarrow> 0 \<le> feeExcess p st 0 0 \<Longrightarrow> holds s (migrateLegacyChangeInputs alloc release p st)
    \<and> g_outputs (migrateLegacyChangeInputs alloc release p st) = g_outputs st
    \<and> 0 \<le> feeExcess p (migrateLegacyChangeInputs alloc release p st) 0 0
    \<and> (g_outputs st = [] \<longrightarrow> migrateLegacyChangeInputs alloc release p st = st)"
  using migrate_loop_spec [of s st p] by (simp add: migrateLegacyChangeInputs_def Let_def)

text \<open>What settling answers, from the funded state.\<close>

lemma settle_result:
  assumes "holds s st" and "outputs_ok p (g_outputs st)" and "settle_change alloc release bytes p a st = (s', Inr r)"
  shows "ok s' \<and> coins s' = coins s \<and> free s = mset (gr_inputs r) + free s'
    \<and> gr_size r = gc_size p (int (List.length (gr_inputs r))) (int (List.length (gr_outputs r)))
    \<and> gr_satsPerKb r = satsPerKb p \<and> gr_adjustment r = a \<and> validateGenerateChangeSdkResult p r
    \<and> int (List.length (gr_outputs r)) \<le> max 1 (maxChangeOutputs p)"
proof -
  define st1 where "st1 = materializeSurplusChangeOutput p st"
  note ms = materialize_spec [of st p, folded st1_def]
  have h: "holds s st1" using holds_same ms assms(1) by blast
  have f: "0 \<le> feeExcess p st1 0 0" and fin: "finish_change bytes p a (migrateLegacyChangeInputs alloc release p st1) = (s', Inr r)"
    using assms(3) by (auto simp: settle_change_def st1_def [symmetric] Let_def split: if_splits option.splits)
  note mig = migrate_spec [OF h f]
  note res = finish_result [OF fin]
  have "int (List.length (g_outputs st1)) \<le> max 1 (maxChangeOutputs p)" using ms assms(2) by (simp add: outputs_ok_def)
  then show ?thesis using res mig by (auto simp: holds_def)
qed

lemma settle_short:
  assumes "gp_surplusPoolShaping p" and "settle_change alloc release bytes p a st = (s', Inl (InsufficientFunds needed missing))"
  shows "feeExcess p st 0 0 < 0 \<and> s' = g_alloc (release_inputs release st) \<and> needed = spending p + feeTarget p st 0 0
    \<and> missing = - feeExcess p st 0 0"
proof -
  define st1 where "st1 = materializeSurplusChangeOutput p st"
  note ms = materialize_spec [of st p, folded st1_def]
  show ?thesis
  proof (cases "feeExcess p st1 0 0 < 0")
    case True
    then have "st1 = st" using ms by (auto split: if_splits)
    then show ?thesis using assms(2) True by (simp add: settle_change_def st1_def [symmetric])
  next
    case False
    then obtain s1 e where "requireViableChange release p st1 = Some (s1, e)"
      using assms(2) by (auto simp: settle_change_def st1_def [symmetric] dest: finish_error split: option.splits)
    from require_spec [OF this] show ?thesis using ms assms(1) by (auto split: if_splits)
  qed
qed

lemma settle_returns:
  assumes "holds s st" and "outputs_ok p (g_outputs st)" and "params_ok p" and "shaping_fits p" and "maxChangeOutputs p < 2 ^ 20"
    and "fine_values (repeatableRandom (gp_randomVals p))"
  shows "case settle_change alloc release bytes p a st of (_, Inl (InsufficientFunds _ missing)) \<Rightarrow> 0 < missing | (_, Inl _) \<Rightarrow> False | _ \<Rightarrow> True"
proof -
  define st1 where "st1 = materializeSurplusChangeOutput p st"
  note ms = materialize_spec [of st p, folded st1_def]
  have h: "holds s st1" using holds_same ms assms(1) by blast
  have o: "outputs_ok p (g_outputs st1)" using ms assms(2) by blast
  consider (short) "feeExcess p st1 0 0 < 0" | (refused) s1 e where "\<not> feeExcess p st1 0 0 < 0" "requireViableChange release p st1 = Some (s1, e)"
    | (go) "\<not> feeExcess p st1 0 0 < 0" "requireViableChange release p st1 = None" by (cases "requireViableChange release p st1") auto
  then show ?thesis
  proof cases
    case short
    then show ?thesis by (simp add: settle_change_def st1_def [symmetric])
  next
    case refused
    then show ?thesis using require_spec [OF refused(2)] by (auto simp: settle_change_def st1_def [symmetric])
  next
    case go
    define st2 where "st2 = migrateLegacyChangeInputs alloc release p st1"
    have mig: "holds s st2" "g_outputs st2 = g_outputs st1" "0 \<le> feeExcess p st2 0 0" "g_outputs st1 = [] \<longrightarrow> st2 = st1"
      using migrate_spec [OF h, of p] go(1) by (simp_all add: st2_def)
    have "g_outputs st1 = [] \<and> 0 < feeExcess p st1 0 0 \<longrightarrow> gp_surplusPoolShaping p \<and> feeExcess p st1 0 1 < dustFloor p"
      using require_none [OF go(2)] by blast
    then have "ready p st2" using mig o by (auto simp: ready_def holds_def)
    from finish_returns [OF this assms(3-6), of bytes a] show ?thesis
      using go by (auto simp: settle_change_def st1_def [symmetric] st2_def [symmetric])
  qed
qed

end

section \<open>The adjusted parameters\<close>

definition adjusted :: "gc_params \<Rightarrow> (nat \<times> int) option \<Rightarrow> gc_params" where
  "adjusted p a = p\<lparr>gp_fixedOutputs := adjusted_outputs p a\<rparr>"

lemma adjusted_count: "List.length (adjusted_outputs p a) = List.length (gp_fixedOutputs p)"
  using arg_cong [OF adjusted_lengths [of p a], of List.length] by simp

lemma adjusted_simps [simp]: "satsPerKb (adjusted p a) = satsPerKb p" "maxChangeOutputs (adjusted p a) = maxChangeOutputs p"
  "dustFloor (adjusted p a) = dustFloor p" "gp_fixedInputs (adjusted p a) = gp_fixedInputs p"
  "gp_surplusPoolShaping (adjusted p a) = gp_surplusPoolShaping p" "gp_randomVals (adjusted p a) = gp_randomVals p"
  "gp_lockLen (adjusted p a) = gp_lockLen p" "gp_unlockLen (adjusted p a) = gp_unlockLen p"
  "gp_fixedOutputs (adjusted p a) = adjusted_outputs p a" "gp_changeInitial (adjusted p a) = gp_changeInitial p"
  by (simp_all add: adjusted_def satsPerKb_def maxChangeOutputs_def dustFloor_def)

lemma adjusted_none [simp]: "adjusted p None = p"
  by (simp add: adjusted_def adjusted_outputs_def)

lemma gc_size_adjusted [simp]: "gc_size (adjusted p a) n m = gc_size p n m"
proof -
  have "(\<Sum>x \<leftarrow> adjusted_outputs p a. transactionOutputSize (fo_lockLen x)) = (\<Sum>x \<leftarrow> gp_fixedOutputs p. transactionOutputSize (fo_lockLen x))"
    using arg_cong [OF adjusted_lengths [of p a], of "\<lambda>l. sum_list (map transactionOutputSize l)"] by (simp add: o_def)
  then show ?thesis by (simp add: gc_size_def adjusted_count)
qed

lemma adjusted_ok [simp]: "params_ok (adjusted p a) = params_ok p" "shaping_fits (adjusted p a) = shaping_fits p"
  "outputs_ok (adjusted p a) outs = outputs_ok p outs"
proof -
  have "list_all (\<lambda>n. 0 \<le> n) (map fo_lockLen (adjusted_outputs p a)) = list_all (\<lambda>n. 0 \<le> n) (map fo_lockLen (gp_fixedOutputs p))"
    by (simp only: adjusted_lengths)
  then show "params_ok (adjusted p a) = params_ok p" by (simp add: params_ok_def lengths_ok_def list.pred_map o_def)
qed (simp_all add: shaping_fits_def adjusted_count outputs_ok_def big_outputs_def)

context change_allocator
begin

lemma desired_start:
  assumes "ok s" and "st = addDesiredChangeOutputs p \<lparr>g_alloc = s, g_inputs = [], g_outputs = [], g_funding = 0\<rparr>"
  shows "holds s st \<and> outputs_ok p (g_outputs st) \<and> int (List.length (g_outputs st)) \<le> max 0 (maxChangeOutputs p)"
proof -
  define st0 where "st0 = \<lparr>g_alloc = s, g_inputs = [], g_outputs = [] :: sdk_output list, g_funding = 0 :: int\<rparr>"
  have h: "holds s st0" using assms(1) by (simp add: st0_def holds_def)
  have n: "num_out st0 \<le> max 0 (maxChangeOutputs p)" "outputs_ok p (g_outputs st0)" by (simp_all add: st0_def num_out_def)
  show ?thesis
    using add_desired_spec [of st0 p] h n holds_same [of st0 "add_desired p st0" s] assms(2)
    by (auto simp: addDesiredChangeOutputs_def st0_def [symmetric] num_out_def)
qed

text \<open>Every run that passed the parameter check reaches settling with the coins accounted for.\<close>

lemma core_settles:
  assumes "ok s" and "generateChangeSdkCore alloc release sdk_accepts bytes fuel passes p s = Some (s', res)"
    and "validateGenerateChangeSdkParams sdk_accepts p = Inr hasMax"
  shows "\<exists>st a. holds s st \<and> outputs_ok p (g_outputs st) \<and> funded_or_out p st \<and> (a = None \<or> feeExcess (adjusted p a) st 0 0 = 0)
    \<and> settle_change alloc release bytes (adjusted p a) a st = (s', res)"
proof -
  obtain st where l: "starvation_loop alloc release p fuel False passes
      (addDesiredChangeOutputs p \<lparr>g_alloc = s, g_inputs = [], g_outputs = [], g_funding = 0\<rparr>) = Some st"
    using assms(2,3) by (auto simp: generateChangeSdkCore_def split: option.splits)
  note d = desired_start [OF assms(1) refl, of p]
  have sp: "holds s st \<and> outputs_ok p (g_outputs st) \<and> funded_or_out p st" using starvation_spec [OF _ _ l] d by blast
  have m: "hasMax = first_of (max_possible p)" using assms(3) by (auto simp: validateGenerateChangeSdkParams_def split: if_splits)
  from adjust_spec [OF m, of st] obtain a where "adjust_max_output p hasMax st = Inr (adjusted p a, a)"
    "a = None \<or> feeExcess (adjusted p a) st 0 0 = 0" by (auto simp: adjusted_def)
  then show ?thesis using sp assms(2,3) l by (auto simp: generateChangeSdkCore_def)
qed

lemma core_result:
  assumes "ok s" and "generateChangeSdkCore alloc release sdk_accepts bytes fuel passes p s = Some (s', Inr r)"
  shows "ok s' \<and> coins s' = coins s \<and> free s = mset (gr_inputs r) + free s'
    \<and> gr_size r = gc_size p (int (List.length (gr_inputs r))) (int (List.length (gr_outputs r)))
    \<and> gr_satsPerKb r = satsPerKb p \<and> validateGenerateChangeSdkResult (adjusted p (gr_adjustment r)) r
    \<and> int (List.length (gr_outputs r)) \<le> max 1 (maxChangeOutputs p)"
proof -
  obtain hasMax where "validateGenerateChangeSdkParams sdk_accepts p = Inr hasMax"
    using assms(2) by (auto simp: generateChangeSdkCore_def split: sum.splits)
  from core_settles [OF assms this] obtain st a where st: "holds s st" "outputs_ok p (g_outputs st)"
    "settle_change alloc release bytes (adjusted p a) a st = (s', Inr r)" by blast
  from settle_result [OF st(1) _ st(3)] st(2) show ?thesis by auto
qed

lemma core_short:
  assumes "ok s" and "gp_surplusPoolShaping p"
    and "generateChangeSdkCore alloc release sdk_accepts bytes fuel passes p s = Some (s', Inl (InsufficientFunds needed missing))"
  shows "free s' = free s \<and> 0 < missing \<and> needed = spending p + js_ceil_per_kb (satsPerKb p) (gc_size p (int (size (free s))) 0)
    \<and> missing = needed - (sats_in (gp_fixedInputs p) + (\<Sum>c \<in># free s. cd_satoshis c))"
proof -
  obtain hasMax where "validateGenerateChangeSdkParams sdk_accepts p = Inr hasMax"
    using assms(3) by (auto simp: generateChangeSdkCore_def validateGenerateChangeSdkParams_def split: sum.splits if_splits)
  from core_settles [OF assms(1,3) this] obtain st a where st: "holds s st" "funded_or_out p st"
    "a = None \<or> feeExcess (adjusted p a) st 0 0 = 0"
    "settle_change alloc release bytes (adjusted p a) a st = (s', Inl (InsufficientFunds needed missing))" by blast
  from settle_short [OF _ st(4)] assms(2) have sh: "feeExcess (adjusted p a) st 0 0 < 0" "s' = g_alloc (release_inputs release st)"
    "needed = spending (adjusted p a) + feeTarget (adjusted p a) st 0 0" "missing = - feeExcess (adjusted p a) st 0 0" by simp_all
  then have a: "a = None" using st(3) by auto
  then have o: "g_outputs st = []" "free (g_alloc st) = {#}" using st(2) sh(1) by (simp_all add: funded_or_out_def)
  then have f: "free s = mset (g_inputs st)" "g_funding st = sats_of (g_inputs st)" using st(1) by (simp_all add: holds_def)
  have sum: "(\<Sum>c \<in># free s. cd_satoshis c) = sats_of (g_inputs st)"
    unfolding f(1) sats_of_def mset_map [symmetric] sum_mset_sum_list ..
  have n: "num_in st = int (size (free s))" "num_out st = 0" using o(1) f(1) by (simp_all add: num_in_def num_out_def)
  show ?thesis
    using sh a o(1) f(2) n sum holds_release [OF st(1)] by (simp add: feeExcess_def fee_def funding_def feeTarget_def)
qed

lemma core_returns:
  assumes "ok s" and "size (free s) < fuel" and "nat (maxChangeOutputs p) + size (free s) + 1 < passes"
    and "params_ok p" and "shaping_fits p" and "maxChangeOutputs p < 2 ^ 20" and "fine_values (repeatableRandom (gp_randomVals p))"
  shows "case generateChangeSdkCore alloc release sdk_accepts bytes fuel passes p s of
      None \<Rightarrow> False | Some (_, Inl InternalError) \<Rightarrow> False | Some (_, Inl (InsufficientFunds _ missing)) \<Rightarrow> 0 < missing | _ \<Rightarrow> True"
proof (cases "validateGenerateChangeSdkParams sdk_accepts p")
  case (Inl e)
  then show ?thesis by (auto simp: generateChangeSdkCore_def validateGenerateChangeSdkParams_def split: if_splits)
next
  case (Inr hasMax)
  note d = desired_start [OF assms(1) refl, of p]
  have "starvation_loop alloc release p fuel False passes
      (addDesiredChangeOutputs p \<lparr>g_alloc = s, g_inputs = [], g_outputs = [], g_funding = 0\<rparr>) \<noteq> None"
    by (rule starvation_ends [where s = s]) (use d assms(2,3) in auto)
  then obtain st where l: "starvation_loop alloc release p fuel False passes
      (addDesiredChangeOutputs p \<lparr>g_alloc = s, g_inputs = [], g_outputs = [], g_funding = 0\<rparr>) = Some st" by auto
  have m: "hasMax = first_of (max_possible p)" using Inr by (auto simp: validateGenerateChangeSdkParams_def split: if_splits)
  from adjust_spec [OF m, of st] obtain a where ad: "adjust_max_output p hasMax st = Inr (adjusted p a, a)" by (auto simp: adjusted_def)
  have e: "generateChangeSdkCore alloc release sdk_accepts bytes fuel passes p s = Some (settle_change alloc release bytes (adjusted p a) a st)"
    using Inr l ad by (simp add: generateChangeSdkCore_def)
  have sp: "holds s st" "outputs_ok p (g_outputs st)" using starvation_spec [OF _ _ l] d by blast+
  have "case settle_change alloc release bytes (adjusted p a) a st of
      (_, Inl (InsufficientFunds _ missing)) \<Rightarrow> 0 < missing | (_, Inl _) \<Rightarrow> False | _ \<Rightarrow> True"
    by (rule settle_returns [OF sp(1)]) (use sp(2) assms in simp_all)
  then show ?thesis unfolding e by (auto split: prod.splits sum.splits gc_error.splits)
qed

end

end
