(* ===== verification/Funding_Plan.thy ===== *)
theory Funding_Plan
  imports Change_Generation
begin

text \<open>
  How an action gets its coins (\<open>src/packages/wallet-engine/src/storage/methods/createAction.ts\<close>):
  the funding parameters, the allocator over the action's own unsent change and the wallet's
  candidates, one plan per tier of candidate statuses with its compatibility retry, and the
  choice between the plans. The rows the storage answers with are arguments; what the serialized
  ancestry of the chosen coins weighs is the parameter \<open>beefLength\<close> (\<open>None\<close>: the storage threw).
  Hex scripts have an even length. Telemetry is left out.
\<close>

section \<open>The allocator of one plan\<close>

record plan_alloc =
  pa_selector :: selector
  pa_planned :: "candidate list"
  pa_noSend :: "candidate list"
  pa_allocated :: "candidate list"

definition by_id :: "int \<Rightarrow> candidate list \<Rightarrow> candidate option" where
  "by_id outputId cs = List.find (\<lambda>c. cd_outputId c = outputId) cs"

definition put :: "candidate \<Rightarrow> candidate list \<Rightarrow> candidate list" where
  "put c cs = c # filter (\<lambda>x. cd_outputId x \<noteq> cd_outputId c) cs"

text \<open>Unsent change first, from its end; then the selector's answer.\<close>

definition plan_take :: "plan_alloc \<Rightarrow> int \<Rightarrow> int option \<Rightarrow> plan_alloc \<times> candidate option" where
  "plan_take s target exact =
     (if pa_noSend s \<noteq> [] then
        (s\<lparr>pa_noSend := butlast (pa_noSend s), pa_allocated := put (last (pa_noSend s)) (pa_allocated s)\<rparr>, Some (last (pa_noSend s)))
      else (case selector_take (pa_selector s) target exact of
          (sel, None) \<Rightarrow> (s\<lparr>pa_selector := sel\<rparr>, None)
        | (sel, Some c) \<Rightarrow> (s\<lparr>pa_selector := sel, pa_allocated := put c (pa_allocated s)\<rparr>, Some c)))"

definition plan_release :: "plan_alloc \<Rightarrow> int \<Rightarrow> plan_alloc" where
  "plan_release s outputId =
     (case by_id outputId (pa_allocated s) of
        None \<Rightarrow> s
      | Some _ \<Rightarrow> s\<lparr>pa_allocated := filter (\<lambda>x. cd_outputId x \<noteq> outputId) (pa_allocated s),
                    pa_selector := selector_release (pa_selector s) outputId,
                    pa_noSend := (case by_id outputId (pa_planned s) of Some c \<Rightarrow> pa_noSend s @ [c] | None \<Rightarrow> pa_noSend s)\<rparr>)"

definition new_plan_alloc :: "candidate list \<Rightarrow> candidate list \<Rightarrow> plan_alloc" where
  "new_plan_alloc noSend available =
     \<lparr>pa_selector = new_selector available, pa_planned = noSend, pa_noSend = noSend, pa_allocated = []\<rparr>"

section \<open>One plan\<close>

datatype TransactionStatus = TCompleted | TFailed | TUnprocessed | TSending | TUnproven | TUnsigned | TNosend | TNonfinal | TUnfail

datatype policy_tier = CompletedTier | UnprovenTier | SendingTier | CompatibilityTier

record managed_candidate =
  mc_coin :: candidate
  mc_status :: TransactionStatus

record action_input =
  ai_satoshis :: int
  ai_unlockingScriptLength :: int

record action_output =
  ao_satoshis :: int
  ao_lockingScript :: string

record change_basket =
  cb_minimumDesiredUTXOValue :: int
  cb_numberOfDesiredUTXOs :: int

record change_policy =
  cp_maxOutputsPerAction :: int
  cp_migrationInputsPerAction :: int
  cp_pendingComparisonInputs :: int

record funding_context =
  fx_xinputs :: "action_input list"
  fx_xoutputs :: "action_output list"
  fx_basket :: change_basket
  fx_noSend :: "candidate list"
  fx_feeValue :: "rat option"
  fx_randomVals :: "rat list option"
  fx_protected :: bool
  fx_policy :: change_policy

record funding_plan =
  fp_params :: gc_params
  fp_result :: gc_result
  fp_selected :: "candidate list"
  fp_availableChangeCount :: nat
  fp_policyTier :: policy_tier
  fp_compatibilityFallback :: bool

definition preferredSatoshis :: "funding_context \<Rightarrow> int" where
  "preferredSatoshis fx = max 1 (cb_minimumDesiredUTXOValue (fx_basket fx))"

definition makeFundingParams :: "funding_context \<Rightarrow> int \<Rightarrow> bool \<Rightarrow> gc_params" where
  "makeFundingParams fx healthyChangeCount compatibilityFallback =
     \<lparr>gp_fixedInputs = map (\<lambda>i. \<lparr>fi_satoshis = ai_satoshis i, fi_unlockLen = ai_unlockingScriptLength i\<rparr>) (fx_xinputs fx),
      gp_fixedOutputs = map (\<lambda>x. \<lparr>fo_satoshis = ao_satoshis x, fo_lockLen = int (List.length (ao_lockingScript x)) div 2\<rparr>) (fx_xoutputs fx),
      gp_feeValue = fx_feeValue fx,
      gp_targetNetCount = Some (cb_numberOfDesiredUTXOs (fx_basket fx) - healthyChangeCount),
      gp_changeInitial = preferredSatoshis fx,
      gp_changeFirst = (if compatibilityFallback then 1 else preferredSatoshis fx),
      gp_lockLen = 25, gp_unlockLen = 107,
      gp_maxChangeOutputs = Some (if fx_protected fx then 1 else cp_maxOutputsPerAction (fx_policy fx)),
      gp_surplusPoolShaping = (\<not> compatibilityFallback),
      gp_maxMigrationInputs = Some (if compatibilityFallback then 0 else cp_migrationInputsPerAction (fx_policy fx)),
      gp_randomVals = fx_randomVals fx\<rparr>"

definition available_coins :: "funding_context \<Rightarrow> managed_candidate list \<Rightarrow> TransactionStatus list \<Rightarrow> candidate list" where
  "available_coins fx candidates statuses =
     (if fx_protected fx then []
      else map mc_coin (filter (\<lambda>m. cd_outputId (mc_coin m) \<notin> set (map cd_outputId (fx_noSend fx)) \<and> mc_status m \<in> set statuses) candidates))"

definition healthy_count :: "funding_context \<Rightarrow> managed_candidate list \<Rightarrow> TransactionStatus list \<Rightarrow> bool \<Rightarrow> int" where
  "healthy_count fx candidates statuses compatibilityFallback =
     int (List.length (if compatibilityFallback then filter (\<lambda>m. mc_status m \<in> set statuses) candidates
                       else filter (\<lambda>m. cd_satoshis (mc_coin m) \<ge> preferredSatoshis fx) candidates))"

definition plan_params :: "funding_context \<Rightarrow> managed_candidate list \<Rightarrow> TransactionStatus list \<Rightarrow> bool \<Rightarrow> gc_params" where
  "plan_params fx candidates statuses compatibilityFallback =
     makeFundingParams fx (healthy_count fx candidates statuses compatibilityFallback) compatibilityFallback"

definition buildFundingPlan ::
  "(gc_params \<Rightarrow> bool) \<Rightarrow> (nat \<Rightarrow> nat) \<Rightarrow> nat \<Rightarrow> nat \<Rightarrow> funding_context \<Rightarrow> managed_candidate list \<Rightarrow> TransactionStatus list \<Rightarrow>
   policy_tier \<Rightarrow> bool \<Rightarrow> (gc_error + funding_plan) option" where
  "buildFundingPlan sdk_accepts bytes fuel passes fx candidates statuses tier compatibilityFallback =
     (let p = plan_params fx candidates statuses compatibilityFallback in
      case generateChangeSdkCore plan_take plan_release sdk_accepts bytes fuel passes p
             (new_plan_alloc (fx_noSend fx) (available_coins fx candidates statuses)) of
        None \<Rightarrow> None
      | Some (_, Inl e) \<Rightarrow> Some (Inl e)
      | Some (s, Inr r) \<Rightarrow>
          (case those (map (\<lambda>c. by_id (cd_outputId c) (pa_allocated s)) (gr_inputs r)) of
             None \<Rightarrow> Some (Inl InternalError)
           | Some selected \<Rightarrow> Some (Inr \<lparr>fp_params = p, fp_result = r, fp_selected = selected,
               fp_availableChangeCount = List.length candidates, fp_policyTier = tier,
               fp_compatibilityFallback = compatibilityFallback\<rparr>)))"

section \<open>The tiers\<close>

definition isInsufficientFunds :: "gc_error \<Rightarrow> bool" where
  "isInsufficientFunds e = (case e of InsufficientFunds _ _ \<Rightarrow> True | _ \<Rightarrow> False)"

text \<open>Thrown errors are \<open>Inl\<close>; a tier that could not be funded answers \<open>Inr (Inl error)\<close>.\<close>

definition buildFundingPlanForTier ::
  "(policy_tier \<Rightarrow> TransactionStatus list \<Rightarrow> bool \<Rightarrow> (gc_error + funding_plan) option) \<Rightarrow> policy_tier \<times> TransactionStatus list \<Rightarrow>
   (gc_error + (gc_error + funding_plan)) option" where
  "buildFundingPlanForTier build tier =
     (case build (fst tier) (snd tier) False of
        None \<Rightarrow> None
      | Some (Inr plan) \<Rightarrow> Some (Inr (Inr plan))
      | Some (Inl e) \<Rightarrow>
          if \<not> isInsufficientFunds e then Some (Inl e)
          else (case build CompatibilityTier (snd tier) True of
              None \<Rightarrow> None
            | Some (Inr plan) \<Rightarrow> Some (Inr (Inr plan))
            | Some (Inl e') \<Rightarrow> if isInsufficientFunds e' then Some (Inr (Inl e')) else Some (Inl e')))"

definition FUNDING_TIERS :: "(policy_tier \<times> TransactionStatus list) list" where
  "FUNDING_TIERS = [(CompletedTier, [TCompleted]), (UnprovenTier, [TCompleted, TUnproven]), (SendingTier, [TCompleted, TUnproven, TSending])]"

definition firstPlanNeedsNoPendingComparison :: "change_policy \<Rightarrow> funding_plan \<Rightarrow> bool" where
  "firstPlanNeedsNoPendingComparison policy plan =
     (cp_pendingComparisonInputs policy = - 1 \<or> int (List.length (fp_selected plan)) \<le> cp_pendingComparisonInputs policy)"

definition fundingPlanSerializedCost :: "(candidate list \<Rightarrow> int option) \<Rightarrow> funding_plan \<Rightarrow> int" where
  "fundingPlanSerializedCost beefLength plan =
     (if fp_selected plan = [] then gr_size (fp_result plan)
      else (case beefLength (fp_selected plan) of Some n \<Rightarrow> gr_size (fp_result plan) + n | None \<Rightarrow> MAX_SAFE_INTEGER))"

definition chooseLowestSerializedFundingPlan :: "(funding_plan \<Rightarrow> int) \<Rightarrow> funding_plan \<Rightarrow> funding_plan list \<Rightarrow> funding_plan" where
  "chooseLowestSerializedFundingPlan cost first rest = fold (\<lambda>alternative chosen. if cost alternative < cost chosen then alternative else chosen) rest first"

fun tier_loop ::
  "(policy_tier \<Rightarrow> TransactionStatus list \<Rightarrow> bool \<Rightarrow> (gc_error + funding_plan) option) \<Rightarrow> change_policy \<Rightarrow> (funding_plan \<Rightarrow> int) \<Rightarrow>
   (policy_tier \<times> TransactionStatus list) list \<Rightarrow> funding_plan list \<Rightarrow> gc_error option \<Rightarrow> (gc_error + funding_plan) option" where
  "tier_loop build policy cost [] successful fundingError =
     (case successful of
        [] \<Rightarrow> Some (Inl (case fundingError of Some e \<Rightarrow> e | None \<Rightarrow> InternalError))
      | plan # rest \<Rightarrow> Some (Inr (chooseLowestSerializedFundingPlan cost plan rest)))"
| "tier_loop build policy cost (tier # tiers) successful fundingError =
     (case buildFundingPlanForTier build tier of
        None \<Rightarrow> None
      | Some (Inl e) \<Rightarrow> Some (Inl e)
      | Some (Inr (Inl e)) \<Rightarrow> tier_loop build policy cost tiers successful (Some e)
      | Some (Inr (Inr plan)) \<Rightarrow>
          if successful = [] \<and> firstPlanNeedsNoPendingComparison policy plan then Some (Inr plan)
          else tier_loop build policy cost tiers (successful @ [plan]) fundingError)"

definition prepareFundingPlanWithLiquidityPolicy ::
  "(gc_params \<Rightarrow> bool) \<Rightarrow> (nat \<Rightarrow> nat) \<Rightarrow> (candidate list \<Rightarrow> int option) \<Rightarrow> nat \<Rightarrow> nat \<Rightarrow> funding_context \<Rightarrow> managed_candidate list \<Rightarrow>
   (gc_error + funding_plan) option" where
  "prepareFundingPlanWithLiquidityPolicy sdk_accepts bytes beefLength fuel passes fx candidates =
     tier_loop (\<lambda>tier statuses fallback. buildFundingPlan sdk_accepts bytes fuel passes fx candidates statuses tier fallback)
       (fx_policy fx) (fundingPlanSerializedCost beefLength) FUNDING_TIERS [] None"

section \<open>The allocator keeps its contract\<close>

definition plan_free :: "plan_alloc \<Rightarrow> candidate multiset" where
  "plan_free s = mset (pa_noSend s) + mset (sel_free (pa_selector s))"

definition plan_coins :: "plan_alloc \<Rightarrow> candidate set" where
  "plan_coins s = set (pa_planned s) \<union> selector_coins (pa_selector s)"

definition plan_ok :: "plan_alloc \<Rightarrow> bool" where
  "plan_ok s = (selector_ok (pa_selector s) \<and> distinct (map cd_outputId (pa_planned s @ sel_sorted (pa_selector s))) \<and>
     distinct (pa_noSend s) \<and> set (pa_noSend s) \<subseteq> set (pa_planned s) \<and>
     (\<forall>c. c \<in> set (pa_allocated s) \<longleftrightarrow> c \<in> plan_coins s \<and> c \<notin># plan_free s))"

lemma id_inj: "distinct (map cd_outputId cs) \<Longrightarrow> a \<in> set cs \<Longrightarrow> b \<in> set cs \<Longrightarrow> cd_outputId a = cd_outputId b \<Longrightarrow> a = b"
  by (auto simp: distinct_map inj_on_def)

lemma plan_id_inj: "plan_ok s \<Longrightarrow> a \<in> plan_coins s \<Longrightarrow> b \<in> plan_coins s \<Longrightarrow> cd_outputId a = cd_outputId b \<Longrightarrow> a = b"
  unfolding plan_ok_def plan_coins_def selector_coins_def
  by (rule id_inj [of "pa_planned s @ sel_sorted (pa_selector s)"]) auto

lemma by_id_found: "c \<in> set cs \<Longrightarrow> (\<And>x. x \<in> set cs \<Longrightarrow> cd_outputId x = cd_outputId c \<Longrightarrow> x = c) \<Longrightarrow> by_id (cd_outputId c) cs = Some c"
  by (induction cs) (auto simp: by_id_def)

lemma by_id_none: "(\<And>x. x \<in> set cs \<Longrightarrow> cd_outputId x \<noteq> i) \<Longrightarrow> by_id i cs = None"
  by (auto simp: by_id_def find_None_iff)

lemma set_put: "(\<And>x. x \<in> set cs \<Longrightarrow> cd_outputId x = cd_outputId c \<Longrightarrow> x = c) \<Longrightarrow> set (put c cs) = insert c (set cs)"
  by (auto simp: put_def)

lemma plan_disjoint: "plan_ok s \<Longrightarrow> c \<in> set (pa_planned s) \<Longrightarrow> x \<in> set (sel_sorted (pa_selector s)) \<Longrightarrow> cd_outputId x \<noteq> cd_outputId c"
  by (auto simp: plan_ok_def)

lemma sel_free_sorted: "set (sel_free sel) \<subseteq> set (sel_sorted sel)"
  by (auto simp: sel_free_def)

lemma plan_free_once: "plan_ok s \<Longrightarrow> count (plan_free s) c \<le> 1"
proof -
  assume ok: "plan_ok s"
  have d: "distinct (pa_noSend s)" "count (mset (sel_free (pa_selector s))) c \<le> 1"
    using ok sel.free_once by (simp_all add: plan_ok_def)
  have "c \<notin> set (pa_noSend s) \<or> c \<notin> set (sel_free (pa_selector s))"
    using plan_disjoint [OF ok, of c c] ok sel_free_sorted [of "pa_selector s"] by (auto simp: plan_ok_def)
  then show ?thesis using d by (auto simp: plan_free_def distinct_count_atmost_1 count_mset_0_iff not_in_iff [symmetric])
qed

lemma plan_free_coins: "plan_ok s \<Longrightarrow> set_mset (plan_free s) \<subseteq> plan_coins s"
  using sel_free_sorted by (auto simp: plan_ok_def plan_free_def plan_coins_def selector_coins_def)

text \<open>Taking a coin: only where it came from changes.\<close>

lemma plan_ok_take:
  assumes "plan_ok s" and "plan_free s = add_mset c (plan_free s')" and "selector_ok (pa_selector s')"
    and "sel_sorted (pa_selector s') = sel_sorted (pa_selector s)" and "pa_planned s' = pa_planned s"
    and "distinct (pa_noSend s')" and "set (pa_noSend s') \<subseteq> set (pa_noSend s)" and "pa_allocated s' = put c (pa_allocated s)"
  shows "plan_ok s' \<and> plan_coins s' = plan_coins s"
proof -
  have pc: "plan_coins s' = plan_coins s" using assms(4,5) by (simp add: plan_coins_def selector_coins_def)
  have c: "c \<in> plan_coins s" using plan_free_coins [OF assms(1)] assms(2) by auto
  have al: "x \<in> set (pa_allocated s) \<longleftrightarrow> x \<in> plan_coins s \<and> x \<notin># plan_free s" for x
    using assms(1) by (simp add: plan_ok_def)
  have "set (put c (pa_allocated s)) = insert c (set (pa_allocated s))"
    by (rule set_put) (use plan_id_inj [OF assms(1)] c al in blast)
  moreover have "x \<in># plan_free s \<longleftrightarrow> x = c \<or> x \<in># plan_free s'" for x unfolding assms(2) by simp
  moreover have "c \<notin># plan_free s'"
    using plan_free_once [OF assms(1), of c] unfolding assms(2) by (simp add: not_in_iff)
  ultimately have "x \<in> set (pa_allocated s') \<longleftrightarrow> x \<in> plan_coins s' \<and> x \<notin># plan_free s'" for x
    using al c pc assms(8) by auto
  moreover have "distinct (map cd_outputId (pa_planned s' @ sel_sorted (pa_selector s')))"
    using assms(1,4,5) by (simp add: plan_ok_def)
  moreover have "set (pa_noSend s') \<subseteq> set (pa_planned s')" using assms(1,5,7) by (auto simp: plan_ok_def)
  ultimately show ?thesis using assms(3,6) pc by (simp add: plan_ok_def)
qed

lemma plan_take_some:
  assumes "plan_ok s" and "plan_take s t e = (s', Some c)"
  shows "plan_ok s' \<and> plan_free s = add_mset c (plan_free s') \<and> plan_coins s' = plan_coins s"
proof (cases "pa_noSend s = []")
  case False
  define l where "l = last (pa_noSend s)"
  have s': "c = l" "s' = s\<lparr>pa_noSend := butlast (pa_noSend s), pa_allocated := put l (pa_allocated s)\<rparr>"
    using assms(2) False by (auto simp: plan_take_def l_def)
  have n: "pa_noSend s = butlast (pa_noSend s) @ [l]" using False by (simp add: l_def)
  have "mset (pa_noSend s) = add_mset l (mset (butlast (pa_noSend s)))" by (subst n) simp
  then have f: "plan_free s = add_mset c (plan_free s')" by (simp add: plan_free_def s')
  have d: "distinct (butlast (pa_noSend s))" using assms(1) by (simp add: plan_ok_def distinct_butlast)
  have "plan_ok s' \<and> plan_coins s' = plan_coins s"
    by (rule plan_ok_take [OF assms(1) f]) (use assms(1) d s' in \<open>auto simp: plan_ok_def dest: in_set_butlastD\<close>)
  then show ?thesis using f by simp
next
  case True
  then obtain sel' where t: "selector_take (pa_selector s) t e = (sel', Some c)"
    and s': "s' = s\<lparr>pa_selector := sel', pa_allocated := put c (pa_allocated s)\<rparr>"
    using assms(2) by (auto simp: plan_take_def split: prod.splits option.splits)
  have ok: "selector_ok (pa_selector s)" using assms(1) by (simp add: plan_ok_def)
  note a = sel.alloc_some [OF ok t]
  have sorted: "sel_sorted sel' = sel_sorted (pa_selector s)" using t by (auto simp: selector_take_def allocate_def split: option.splits)
  have f: "plan_free s = add_mset c (plan_free s')" using a by (simp add: plan_free_def s' True)
  have "plan_ok s' \<and> plan_coins s' = plan_coins s"
    by (rule plan_ok_take [OF assms(1) f]) (use a sorted s' True in simp_all)
  then show ?thesis using f by simp
qed

lemma plan_take_none:
  assumes "plan_ok s" and "plan_take s t e = (s', None)"
  shows "s' = s \<and> plan_free s = {#}"
proof -
  have n: "pa_noSend s = []" using assms(2) by (auto simp: plan_take_def split: if_splits)
  then obtain sel' where t: "selector_take (pa_selector s) t e = (sel', None)" and s': "s' = s\<lparr>pa_selector := sel'\<rparr>"
    using assms(2) by (auto simp: plan_take_def split: prod.splits option.splits)
  have "selector_ok (pa_selector s)" using assms(1) by (simp add: plan_ok_def)
  from sel.alloc_none [OF this t] show ?thesis using n s' by (simp add: plan_free_def)
qed

lemma release_other: "(\<And>x. x \<in> set (sel_sorted sel) \<Longrightarrow> cd_outputId x \<noteq> i) \<Longrightarrow> sel_free (selector_release sel i) = sel_free sel"
  by (auto simp: sel_free_def selector_release_def intro!: filter_cong)

lemma plan_release_one:
  assumes "plan_ok s" and "c \<in> plan_coins s" and "c \<notin># plan_free s"
  shows "plan_ok (plan_release s (cd_outputId c)) \<and> plan_free (plan_release s (cd_outputId c)) = add_mset c (plan_free s)
    \<and> plan_coins (plan_release s (cd_outputId c)) = plan_coins s"
proof -
  define s' where "s' = plan_release s (cd_outputId c)"
  have al: "x \<in> set (pa_allocated s) \<longleftrightarrow> x \<in> plan_coins s \<and> x \<notin># plan_free s" for x
    using assms(1) by (simp add: plan_ok_def)
  have inj: "x \<in> set (pa_allocated s) \<Longrightarrow> cd_outputId x = cd_outputId c \<Longrightarrow> x = c" for x
    using plan_id_inj [OF assms(1)] assms(2) al by blast
  have "by_id (cd_outputId c) (pa_allocated s) = Some c"
    by (rule by_id_found) (use al assms(2,3) inj in blast)+
  then have s': "s' = s\<lparr>pa_allocated := filter (\<lambda>x. cd_outputId x \<noteq> cd_outputId c) (pa_allocated s),
      pa_selector := selector_release (pa_selector s) (cd_outputId c),
      pa_noSend := (case by_id (cd_outputId c) (pa_planned s) of Some c \<Rightarrow> pa_noSend s @ [c] | None \<Rightarrow> pa_noSend s)\<rparr>"
    by (simp add: s'_def plan_release_def)
  have sorted: "sel_sorted (pa_selector s') = sel_sorted (pa_selector s)" "pa_planned s' = pa_planned s"
    by (simp_all add: s' selector_release_def)
  have sok: "selector_ok (pa_selector s')" using assms(1) by (simp add: s' plan_ok_def selector_ok_def selector_release_def)
  have coins: "plan_coins s' = plan_coins s" using sorted by (simp add: plan_coins_def selector_coins_def)
  have nf: "c \<notin> set (pa_noSend s)" "c \<notin> set (sel_free (pa_selector s))" using assms(3) by (auto simp: plan_free_def)
  have "plan_free s' = add_mset c (plan_free s) \<and> distinct (pa_noSend s') \<and> set (pa_noSend s') \<subseteq> set (pa_planned s')"
  proof (cases "c \<in> set (pa_planned s)")
    case True
    have "by_id (cd_outputId c) (pa_planned s) = Some c"
      by (rule by_id_found [OF True]) (use plan_id_inj [OF assms(1)] assms(2) in \<open>auto simp: plan_coins_def\<close>)
    moreover have "sel_free (selector_release (pa_selector s) (cd_outputId c)) = sel_free (pa_selector s)"
      by (rule release_other) (rule plan_disjoint [OF assms(1) True])
    ultimately show ?thesis using assms(1) nf True by (simp add: s' plan_free_def plan_ok_def)
  next
    case False
    then have k: "c \<in> selector_coins (pa_selector s)" using assms(2) by (simp add: plan_coins_def)
    have "by_id (cd_outputId c) (pa_planned s) = None"
      by (rule by_id_none) (metis plan_disjoint [OF assms(1), of _ c] k selector_coins_def)
    moreover have "mset (sel_free (selector_release (pa_selector s) (cd_outputId c))) = add_mset c (mset (sel_free (pa_selector s)))"
      by (rule sel_free_release) (use assms(1) k nf in \<open>simp_all add: plan_ok_def\<close>)
    ultimately show ?thesis using assms(1) by (simp add: s' plan_free_def plan_ok_def)
  qed
  note f = this
  have "x \<in> set (pa_allocated s') \<longleftrightarrow> x \<in> plan_coins s' \<and> x \<notin># plan_free s'" for x
    using al inj coins f by (auto simp: s')
  then have "plan_ok s'" using assms(1) sorted sok f by (simp add: plan_ok_def)
  then show ?thesis using f coins by (simp add: s'_def)
qed

interpretation plan: change_allocator plan_take plan_release plan_free plan_coins plan_ok
  by unfold_locales (rule plan_take_some plan_take_none plan_release_one plan_free_coins plan_free_once; assumption)+

lemma sort_asc_again: "distinct (map cd_outputId cs) \<Longrightarrow> sort_asc (sort_asc cs) = sort_asc cs" for cs :: "candidate list"
proof (rule sorted_wrt_unique [where R = cd_less])
  assume d: "distinct (map cd_outputId cs)"
  have m: "mset (sort_asc cs) = mset cs" by (simp add: sort_asc_def)
  then have "distinct (map cd_outputId (sort_asc cs))" using d by (metis mset_eq_imp_distinct_iff mset_map)
  then show "sorted_wrt cd_less (sort_asc (sort_asc cs))" by (rule sort_asc_strict)
  show "sorted_wrt cd_less (sort_asc cs)" by (rule sort_asc_strict [OF d])
qed (auto simp: cd_less_def sort_asc_def)

lemma new_plan_ok:
  assumes "distinct (map cd_outputId (noSend @ available))"
  shows "plan_ok (new_plan_alloc noSend available) \<and> plan_free (new_plan_alloc noSend available) = mset noSend + mset available
    \<and> plan_coins (new_plan_alloc noSend available) = set noSend \<union> set available"
proof -
  have m: "mset (sort_asc available) = mset available" by (simp add: sort_asc_def)
  have da: "distinct (map cd_outputId available)" using assms by simp
  have d: "distinct (map cd_outputId (sort_asc available))"
    using da m by (metis mset_eq_imp_distinct_iff mset_map)
  have so: "selector_ok (new_selector available)"
    using d by (simp add: selector_ok_def new_selector_def sort_asc_again [OF da])
  have f: "sel_free (new_selector available) = sort_asc available" by (simp add: sel_free_def new_selector_def)
  have dn: "distinct noSend" using assms by (simp add: distinct_map)
  have "distinct (map cd_outputId (noSend @ sort_asc available))" using assms d by simp
  then show ?thesis using so f m dn
    by (auto simp: plan_ok_def new_plan_alloc_def plan_free_def plan_coins_def selector_coins_def new_selector_def)
qed

section \<open>What a plan takes and leaves\<close>

text \<open>The coins one plan may draw on; their ids are distinct in the storage.\<close>

definition plan_sources :: "funding_context \<Rightarrow> managed_candidate list \<Rightarrow> TransactionStatus list \<Rightarrow> candidate list" where
  "plan_sources fx candidates statuses = fx_noSend fx @ available_coins fx candidates statuses"

definition ids_ok :: "funding_context \<Rightarrow> managed_candidate list \<Rightarrow> bool" where
  "ids_ok fx candidates = (distinct (map cd_outputId (fx_noSend fx)) \<and> distinct (map (\<lambda>m. cd_outputId (mc_coin m)) candidates))"

lemma sources_distinct: "ids_ok fx candidates \<Longrightarrow> distinct (map cd_outputId (plan_sources fx candidates statuses))"
proof -
  assume ok: "ids_ok fx candidates"
  have "distinct (map (\<lambda>m. cd_outputId (mc_coin m)) (filter P candidates))" for P
    using ok by (simp add: ids_ok_def distinct_map_filter)
  then have "distinct (map cd_outputId (available_coins fx candidates statuses))"
    by (simp add: available_coins_def o_def)
  moreover have "set (map cd_outputId (fx_noSend fx)) \<inter> set (map cd_outputId (available_coins fx candidates statuses)) = {}"
    by (auto simp: available_coins_def) (metis imageI)
  ultimately show ?thesis using ok by (simp add: plan_sources_def ids_ok_def)
qed

lemma start_ok:
  assumes "ids_ok fx candidates"
  shows "plan_ok (new_plan_alloc (fx_noSend fx) (available_coins fx candidates statuses))
    \<and> plan_free (new_plan_alloc (fx_noSend fx) (available_coins fx candidates statuses)) = mset (plan_sources fx candidates statuses)"
  using new_plan_ok [of "fx_noSend fx" "available_coins fx candidates statuses"] sources_distinct [OF assms, of statuses]
  by (simp add: plan_sources_def)

text \<open>Every result's inputs are found again by their ids.\<close>

lemma selected_found:
  assumes "plan_ok s" and "plan_ok s'" and "plan_coins s' = plan_coins s" and "plan_free s = mset cs + plan_free s'"
  shows "those (map (\<lambda>c. by_id (cd_outputId c) (pa_allocated s')) cs) = Some cs"
proof -
  have "by_id (cd_outputId c) (pa_allocated s') = Some c" if "c \<in> set cs" for c
  proof (rule by_id_found)
    have al: "x \<in> set (pa_allocated s') \<longleftrightarrow> x \<in> plan_coins s' \<and> x \<notin># plan_free s'" for x
      using assms(2) by (simp add: plan_ok_def)
    have f: "c \<in># plan_free s" unfolding assms(4) using that by simp
    have "0 < count (mset cs) c" unfolding count_greater_zero_iff using that by simp
    then have "count (plan_free s') c = 0" using plan_free_once [OF assms(1), of c] unfolding assms(4) plus_multiset.rep_eq by linarith
    then have nf: "c \<notin># plan_free s'" by (simp only: not_in_iff)
    have cc: "c \<in> plan_coins s'" using plan_free_coins [OF assms(1)] f assms(3) by auto
    then show "c \<in> set (pa_allocated s')" using al nf by simp
    show "x = c" if "x \<in> set (pa_allocated s')" "cd_outputId x = cd_outputId c" for x
      using plan_id_inj [OF assms(2)] that al cc by blast
  qed
  then show ?thesis by (induction cs) simp_all
qed

text \<open>What a plan's parameters take from the action, whatever the tier.\<close>

definition action_params :: "funding_context \<Rightarrow> gc_params" where
  "action_params fx = makeFundingParams fx 0 False"

lemma plan_params_simps [simp]:
  "gp_fixedInputs (plan_params fx cs st b) = gp_fixedInputs (action_params fx)"
  "gp_fixedOutputs (plan_params fx cs st b) = gp_fixedOutputs (action_params fx)"
  "satsPerKb (plan_params fx cs st b) = satsPerKb (action_params fx)" "dustFloor (plan_params fx cs st b) = dustFloor (action_params fx)"
  "gp_lockLen (plan_params fx cs st b) = gp_lockLen (action_params fx)" "gp_unlockLen (plan_params fx cs st b) = gp_unlockLen (action_params fx)"
  "maxChangeOutputs (plan_params fx cs st b) = maxChangeOutputs (action_params fx)"
  "gc_size (plan_params fx cs st b) n m = gc_size (action_params fx) n m" "spending (plan_params fx cs st b) = spending (action_params fx)"
  "gp_surplusPoolShaping (plan_params fx cs st b) = (\<not> b)" "gp_randomVals (plan_params fx cs st b) = fx_randomVals fx"
  "gp_changeInitial (plan_params fx cs st b) = preferredSatoshis fx"
  by (simp_all add: plan_params_def action_params_def makeFundingParams_def satsPerKb_def dustFloor_def maxChangeOutputs_def
      gc_size_def spending_def)

lemma plan_params_adjusted [simp]: "adjusted_outputs (plan_params fx cs st b) a = adjusted_outputs (action_params fx) a"
  unfolding adjusted_outputs_def plan_params_simps ..

text \<open>The plan of an action: where its coins come from, that the amounts add up and that the fee is
  the required one, or what is left when the change it could make would be dust.\<close>

definition balanced_plan :: "funding_context \<Rightarrow> candidate list \<Rightarrow> funding_plan \<Rightarrow> bool" where
  "balanced_plan fx sources plan =
     (let r = fp_result plan; p = action_params fx; required = js_ceil_per_kb (satsPerKb p) (gr_size r) in
      fp_selected plan = gr_inputs r \<and> mset (fp_selected plan) \<subseteq># mset sources \<and>
      sats_in (gp_fixedInputs p) + sats_of (fp_selected plan) =
        sats_out (adjusted_outputs p (gr_adjustment r)) + sats_out (gr_outputs r) + gr_fee r \<and>
      gr_size r = transactionSize (map ai_unlockingScriptLength (fx_xinputs fx) @ replicate (List.length (fp_selected plan)) 107)
        (map (\<lambda>x. int (List.length (ao_lockingScript x)) div 2) (fx_xoutputs fx) @ replicate (List.length (gr_outputs r)) 25) \<and>
      required \<le> gr_fee r \<and>
      (gr_fee r = required \<or> gr_outputs r = [] \<and>
         gr_fee r - js_ceil_per_kb (satsPerKb p) (gr_size r + transactionOutputSize 25) < dustFloor p) \<and>
      int (List.length (gr_outputs r)) \<le> max 1 (maxChangeOutputs p))"

lemma build_balanced:
  assumes "ids_ok fx candidates"
    and "buildFundingPlan sdk_accepts bytes fuel passes fx candidates statuses tier fallback = Some (Inr plan)"
  shows "balanced_plan fx (plan_sources fx candidates statuses) plan"
proof -
  define p where "p = plan_params fx candidates statuses fallback"
  define s where "s = new_plan_alloc (fx_noSend fx) (available_coins fx candidates statuses)"
  note s0 = start_ok [OF assms(1), of statuses, folded s_def]
  obtain s' r where core: "generateChangeSdkCore plan_take plan_release sdk_accepts bytes fuel passes p s = Some (s', Inr r)"
    using assms(2) by (auto simp: buildFundingPlan_def Let_def p_def [symmetric] s_def [symmetric] split: option.splits sum.splits)
  note res = plan.core_result [OF _ core]
  have f: "those (map (\<lambda>c. by_id (cd_outputId c) (pa_allocated s')) (gr_inputs r)) = Some (gr_inputs r)"
    by (rule selected_found [of s]) (use s0 res in blast)+
  have pl: "fp_result plan = r" "fp_selected plan = gr_inputs r"
    using assms(2) core f by (auto simp: buildFundingPlan_def Let_def p_def [symmetric] s_def [symmetric])
  have src: "mset (gr_inputs r) \<subseteq># mset (plan_sources fx candidates statuses)" using s0 res by (metis mset_subset_eq_add_left)
  have sz: "gr_size r = transactionSize (map ai_unlockingScriptLength (fx_xinputs fx) @ replicate (List.length (gr_inputs r)) 107)
        (map (\<lambda>x. int (List.length (ao_lockingScript x)) div 2) (fx_xoutputs fx) @ replicate (List.length (gr_outputs r)) 25)"
    using res s0 unfolding gc_size_is_transactionSize
    by (simp add: p_def) (simp add: action_params_def makeFundingParams_def o_def)
  have l: "gp_lockLen (action_params fx) = 25" by (simp add: action_params_def makeFundingParams_def)
  have v: "validateGenerateChangeSdkResult (adjusted p (gr_adjustment r)) r" "gr_satsPerKb r = satsPerKb (action_params fx)"
    "int (List.length (gr_outputs r)) \<le> max 1 (maxChangeOutputs (action_params fx))"
    using res s0 by (simp_all add: p_def)
  show ?thesis
    using v src unfolding balanced_plan_def pl Let_def validateGenerateChangeSdkResult_def dustFloor_def sz [symmetric] p_def
    by (auto simp: l)
qed

section \<open>The tiers together\<close>

lemma choose_in: "chooseLowestSerializedFundingPlan cost plan rest \<in> set (plan # rest)"
proof -
  have "fold (\<lambda>alternative chosen. if cost alternative < cost chosen then alternative else chosen) rest plan \<in> insert plan (set rest)"
    by (induction rest arbitrary: plan) auto
  then show ?thesis by (simp add: chooseLowestSerializedFundingPlan_def)
qed

lemma tier_plan:
  "buildFundingPlanForTier build tier = Some (Inr (Inr plan)) \<Longrightarrow> \<exists>t b. build t (snd tier) b = Some (Inr plan)"
  by (auto simp: buildFundingPlanForTier_def split: option.splits sum.splits if_splits)

lemma tier_loop_plan:
  assumes "tier_loop build policy cost tiers successful err = Some (Inr plan)"
    and "\<And>q. q \<in> set successful \<Longrightarrow> Q q" and "\<And>tier t b q. tier \<in> set tiers \<Longrightarrow> build t (snd tier) b = Some (Inr q) \<Longrightarrow> Q q"
  shows "Q plan"
  using assms
proof (induction tiers arbitrary: successful err)
  case Nil
  then show ?case using choose_in by (auto split: list.splits)
next
  case (Cons tier tiers)
  show ?case
  proof (cases "\<exists>q. buildFundingPlanForTier build tier = Some (Inr (Inr q))")
    case True
    then obtain q where q: "buildFundingPlanForTier build tier = Some (Inr (Inr q))" by blast
    obtain t b where "build t (snd tier) b = Some (Inr q)" using tier_plan [OF q] by blast
    then have "Q q" by (rule Cons.prems(3) [of tier, rotated]) simp
    then have "Q x" if "x \<in> set (successful @ [q])" for x using that Cons.prems(2) by auto
    note su = this
    have rest: "tier' \<in> set tiers \<Longrightarrow> build t' (snd tier') b' = Some (Inr q') \<Longrightarrow> Q q'" for tier' t' b' q'
      using Cons.prems(3) [of tier' t' b' q'] by simp
    have "Q plan" if "tier_loop build policy cost tiers (successful @ [q]) err = Some (Inr plan)"
      by (rule Cons.IH [OF that su rest])
    then show ?thesis using Cons.prems(1) q \<open>Q q\<close> by (auto split: if_splits)
  next
    case False
    then obtain e where "tier_loop build policy cost tiers successful (Some e) = Some (Inr plan)"
      using Cons.prems(1) by (auto split: option.splits sum.splits)
    then show ?thesis
      by (rule Cons.IH) (use Cons.prems(2) in blast, rule Cons.prems(3), auto)
  qed
qed

text \<open>A refusal for lack of funds means that every tier was refused, already with the shaping on.\<close>

lemma tier_refused:
  "buildFundingPlanForTier build tier = Some (Inr (Inl e)) \<Longrightarrow> isInsufficientFunds e \<and> (\<exists>e'. build (fst tier) (snd tier) False = Some (Inl e') \<and> isInsufficientFunds e')"
  "buildFundingPlanForTier build tier = Some (Inl e) \<Longrightarrow> \<not> isInsufficientFunds e"
  by (auto simp: buildFundingPlanForTier_def split: option.splits sum.splits if_splits)

lemma tier_loop_error:
  assumes "tier_loop build policy cost tiers successful err = Some (Inl e)" and "isInsufficientFunds e"
  shows "successful = [] \<and> (\<forall>tier \<in> set tiers. \<exists>e'. build (fst tier) (snd tier) False = Some (Inl e') \<and> isInsufficientFunds e')"
  using assms(1)
proof (induction tiers arbitrary: successful err)
  case Nil
  then show ?case by (auto split: list.splits)
next
  case (Cons tier tiers)
  obtain a where a: "buildFundingPlanForTier build tier = Some a" using Cons.prems by (cases "buildFundingPlanForTier build tier") auto
  show ?case
  proof (cases a)
    case (Inl e1)
    then show ?thesis using Cons.prems a assms(2) tier_refused(2) by auto
  next
    case (Inr b)
    show ?thesis
    proof (cases b)
      case (Inl e1)
      then have "tier_loop build policy cost tiers successful (Some e1) = Some (Inl e)" using Cons.prems a Inr by simp
      from Cons.IH [OF this] show ?thesis using tier_refused(1) a Inr Inl by auto
    next
      case (Inr q)
      then have "tier_loop build policy cost tiers (successful @ [q]) err = Some (Inl e)"
        using Cons.prems a \<open>a = Inr b\<close> by (auto split: if_splits)
      from Cons.IH [OF this] show ?thesis by simp
    qed
  qed
qed

text \<open>The answers that are neither a missing result nor an internal error.\<close>

definition proper :: "(gc_error + 'b) option \<Rightarrow> bool" where
  "proper a = (a \<noteq> None \<and> a \<noteq> Some (Inl InternalError))"

lemma tier_loop_proper:
  assumes "\<And>t st b. proper (build t st b)"
  shows "tiers \<noteq> [] \<or> successful \<noteq> [] \<or> (\<exists>e. err = Some e \<and> isInsufficientFunds e) \<Longrightarrow> proper (tier_loop build policy cost tiers successful err)"
proof (induction tiers arbitrary: successful err)
  case Nil
  then show ?case by (auto simp: proper_def isInsufficientFunds_def split: list.split)
next
  case (Cons tier tiers)
  have "proper (buildFundingPlanForTier build tier)"
    using assms [of "fst tier" "snd tier" False] assms [of CompatibilityTier "snd tier" True]
    by (auto simp: buildFundingPlanForTier_def proper_def split: option.split sum.split)
  then obtain a where a: "buildFundingPlanForTier build tier = Some a" "a \<noteq> Inl InternalError" by (auto simp: proper_def)
  show ?case
  proof (cases a)
    case (Inl e)
    then show ?thesis using a by (simp add: proper_def)
  next
    case (Inr b)
    then show ?thesis using a tier_refused(1) [of build tier] Cons.IH [of successful] Cons.IH [of "successful @ _"]
      by (cases b) (auto simp: proper_def)
  qed
qed

lemma build_proper:
  assumes "ids_ok fx candidates" and "List.length (fx_noSend fx) + List.length candidates < fuel"
    and "nat (maxChangeOutputs (action_params fx)) + List.length (fx_noSend fx) + List.length candidates + 1 < passes"
    and "params_ok (action_params fx)" and "shaping_fits (action_params fx)" and "maxChangeOutputs (action_params fx) < 2 ^ 20"
    and "fine_values (repeatableRandom (fx_randomVals fx))"
  shows "proper (buildFundingPlan sdk_accepts bytes fuel passes fx candidates statuses tier fallback)"
proof -
  define p where "p = plan_params fx candidates statuses fallback"
  define s where "s = new_plan_alloc (fx_noSend fx) (available_coins fx candidates statuses)"
  note s0 = start_ok [OF assms(1), of statuses, folded s_def]
  have l: "size (plan_free s) \<le> List.length (fx_noSend fx) + List.length candidates"
    using s0 by (simp add: plan_sources_def available_coins_def)
  have po: "params_ok p" using assms(4) by (simp add: p_def params_ok_def lengths_ok_def)
  have sf: "shaping_fits p" using assms(5) by (simp add: p_def shaping_fits_def) (simp add: action_params_def makeFundingParams_def)
  have r: "case generateChangeSdkCore plan_take plan_release sdk_accepts bytes fuel passes p s of
      None \<Rightarrow> False | Some (_, Inl InternalError) \<Rightarrow> False | Some (_, Inl (InsufficientFunds _ missing)) \<Rightarrow> 0 < missing | _ \<Rightarrow> True"
    by (rule plan.core_returns) (use s0 l po sf assms(2,3,6,7) in \<open>simp_all add: p_def\<close>)
  then obtain s' res where core: "generateChangeSdkCore plan_take plan_release sdk_accepts bytes fuel passes p s = Some (s', res)"
    by (auto split: option.splits prod.splits)
  then have ne: "res \<noteq> Inl InternalError" using r by auto
  show ?thesis
  proof (cases res)
    case (Inl e)
    then show ?thesis using core ne by (simp add: buildFundingPlan_def Let_def p_def [symmetric] s_def [symmetric] proper_def)
  next
    case (Inr r)
    note res = plan.core_result [OF _ core [unfolded Inr]]
    have "those (map (\<lambda>c. by_id (cd_outputId c) (pa_allocated s')) (gr_inputs r)) = Some (gr_inputs r)"
      by (rule selected_found [of s]) (use s0 res in blast)+
    then show ?thesis using core Inr by (simp add: buildFundingPlan_def Let_def p_def [symmetric] s_def [symmetric] proper_def)
  qed
qed

section \<open>An action to evaluate\<close>

text \<open>One output of 600 satoshis at no fee, for the instances of the properties.\<close>

lemma js_ceil_free [simp]: "js_ceil_per_kb 0 n = 0"
  by (simp add: js_ceil_per_kb_def)

definition example_action :: funding_context where
  "example_action = \<lparr>fx_xinputs = [], fx_xoutputs = [\<lparr>ao_satoshis = 600, ao_lockingScript = ''6a''\<rparr>],
     fx_basket = \<lparr>cb_minimumDesiredUTXOValue = 50, cb_numberOfDesiredUTXOs = 0\<rparr>, fx_noSend = [], fx_feeValue = Some 0,
     fx_randomVals = None, fx_protected = False,
     fx_policy = \<lparr>cp_maxOutputsPerAction = 8, cp_migrationInputsPerAction = 2, cp_pendingComparisonInputs = - 1\<rparr>\<rparr>"

definition example_coin :: "int \<Rightarrow> managed_candidate" where
  "example_coin satoshis = \<lparr>mc_coin = \<lparr>cd_outputId = 7, cd_satoshis = satoshis\<rparr>, mc_status = TUnproven\<rparr>"

lemmas planning = prepareFundingPlanWithLiquidityPolicy_def FUNDING_TIERS_def buildFundingPlanForTier_def buildFundingPlan_def
  plan_params_def makeFundingParams_def healthy_count_def preferredSatoshis_def available_coins_def new_plan_alloc_def
  generateChangeSdkCore_def validateGenerateChangeSdkParams_def max_possible_def first_of_def lengths_ok_def maxPossibleSatoshis_def
  addDesiredChangeOutputs_def release_inputs_def feeExcess_def feeTarget_def fee_def funding_def spending_def satsPerKb_def dustFloor_def
  maxChangeOutputs_def targetNetCount_def netChangeCount_def num_in_def num_out_def sats_in_def sats_of_def sats_out_def
  attemptToFundTransaction_def allocation_request_def addOutputToBalanceNewInput_def maybeAddChangeOutput_def add_input_def
  adjust_max_output_def settle_change_def materializeSurplusChangeOutput_def requireViableChange_def migrateLegacyChangeInputs_def
  finish_change_def shapeSurplusChangeOutputs_def validateGenerateChangeSdkResult_def push_output_def change_output_def add_sats_def
  isInsufficientFunds_def firstPlanNeedsNoPendingComparison_def plan_take_def selector_take_def selector_find_def lowerBound_def
  lower_bound.simps new_selector_def sort_asc_def allocate_def put_def by_id_def add_desired.simps distributeExcessFees.simps

abbreviation example_plan :: "nat \<Rightarrow> nat \<Rightarrow> managed_candidate list \<Rightarrow> (gc_error + funding_plan) option" where
  "example_plan fuel passes candidates \<equiv>
     prepareFundingPlanWithLiquidityPolicy (\<lambda>_. True) (\<lambda>_. 0) (\<lambda>_. Some 0) fuel passes example_action candidates"

lemma example_planned: "case example_plan (Suc (Suc 0)) (Suc 0) [example_coin 900] of
  Some (Inr plan) \<Rightarrow> map cd_outputId (fp_selected plan) = [7] \<and> map fo_satoshis (gr_outputs (fp_result plan)) = [300] | _ \<Rightarrow> False"
  by (simp add: example_action_def example_coin_def planning Let_def)

lemma example_refused: "case example_plan (Suc (Suc 0)) (Suc 0) [example_coin 500] of
  Some (Inl (InsufficientFunds needed missing)) \<Rightarrow> missing = 100 | _ \<Rightarrow> False"
  by (simp add: example_action_def example_coin_def planning Let_def)

section \<open>Properties\<close>

definition all_statuses :: "TransactionStatus list" where
  "all_statuses = [TCompleted, TUnproven, TSending]"

lemma sources_mono:
  assumes "set statuses \<subseteq> set all_statuses" and "ids_ok fx candidates"
  shows "mset (plan_sources fx candidates statuses) \<subseteq># mset (plan_sources fx candidates all_statuses)"
proof -
  have "set (plan_sources fx candidates statuses) \<subseteq> set (plan_sources fx candidates all_statuses)"
    using assms(1) by (auto simp: plan_sources_def available_coins_def)
  moreover have "distinct (plan_sources fx candidates st)" for st
    using sources_distinct [OF assms(2), of st] by (simp add: distinct_map)
  ultimately show ?thesis by (metis mset_set_set subset_imp_msubset_mset_set List.finite_set)
qed

text \<open>C20. A funding plan adds up, whatever tier it comes from: it spends distinct coins of the
  action's unsent change and of the completed, unproven or sending candidates; inputs equal outputs
  plus fee to the satoshi; the size is the one of the transaction with its scripts; the fee is the
  required one, or more only when no change is made because what is left would be dust.\<close>

theorem funded_action_balances:
  assumes "ids_ok fx candidates"
    and "prepareFundingPlanWithLiquidityPolicy sdk_accepts bytes beefLength fuel passes fx candidates = Some (Inr plan)"
  shows "balanced_plan fx (plan_sources fx candidates all_statuses) plan"
proof (rule tier_loop_plan [OF assms(2) [unfolded prepareFundingPlanWithLiquidityPolicy_def]])
  fix tier t b q
  assume tier: "tier \<in> set FUNDING_TIERS"
    and built: "buildFundingPlan sdk_accepts bytes fuel passes fx candidates (snd tier) t b = Some (Inr q)"
  have "mset (plan_sources fx candidates (snd tier)) \<subseteq># mset (plan_sources fx candidates all_statuses)"
    by (rule sources_mono [OF _ assms(1)]) (use tier in \<open>auto simp: FUNDING_TIERS_def all_statuses_def\<close>)
  then show "balanced_plan fx (plan_sources fx candidates all_statuses) q"
    using build_balanced [OF assms(1) built] by (auto simp: balanced_plan_def Let_def intro: subset_mset.order_trans)
qed simp

lemma funded_action_balances_witness:
  "\<exists>plan. example_plan (Suc (Suc 0)) (Suc 0) [example_coin 900] = Some (Inr plan)
     \<and> balanced_plan example_action (plan_sources example_action [example_coin 900] all_statuses) plan"
proof -
  have "ids_ok example_action [example_coin 900]" by (simp add: ids_ok_def example_action_def)
  note balances = funded_action_balances [OF this]
  show ?thesis using balances example_planned by (auto split: option.splits sum.splits)
qed

text \<open>
  The candidates an action may spend beside its own unsent change, said without the code's lists:
  completed, unproven and sending ones, each coin once; and none for an action protected by
  BRC-177, which is funded from its own inputs and unsent change alone.
\<close>

definition spendable :: "managed_candidate \<Rightarrow> bool" where
  "spendable m =
     (case mc_status m of TCompleted \<Rightarrow> True | TUnproven \<Rightarrow> True | TSending \<Rightarrow> True | _ \<Rightarrow> False)"

definition wallet_coins :: "funding_context \<Rightarrow> managed_candidate list \<Rightarrow> candidate list" where
  "wallet_coins fx candidates = concat (map (\<lambda>m.
     if spendable m \<and> list_all (\<lambda>c. cd_outputId c \<noteq> cd_outputId (mc_coin m)) (fx_noSend fx) then [mc_coin m] else []) candidates)"

lemma wallet_coins_sources:
  "plan_sources fx candidates all_statuses = fx_noSend fx @ (if fx_protected fx then [] else wallet_coins fx candidates)"
proof -
  have s: "spendable m \<longleftrightarrow> mc_status m \<in> set all_statuses" for m
    by (cases "mc_status m") (simp_all add: spendable_def all_statuses_def)
  have "map mc_coin (filter (\<lambda>m. cd_outputId (mc_coin m) \<notin> set (map cd_outputId (fx_noSend fx)) \<and> mc_status m \<in> set all_statuses) candidates)
    = wallet_coins fx candidates"
    by (induction candidates) (auto simp: wallet_coins_def s list_all_iff intro: rev_image_eqI)
  then show ?thesis by (simp add: plan_sources_def available_coins_def)
qed

text \<open>C21. An action is refused for lack of funds only when the wallet lacks them: then its own
  unsent change and every completed, unproven or sending candidate together, with the action's own
  inputs, are worth less than its outputs and the fee of the transaction that spends them all
  without change. An action protected by BRC-177 may spend no candidate: it is refused only when
  its inputs and its own unsent change fall short in that way.\<close>

theorem refused_only_when_short:
  assumes "ids_ok fx candidates"
    and "prepareFundingPlanWithLiquidityPolicy sdk_accepts bytes beefLength fuel passes fx candidates = Some (Inl (InsufficientFunds needed missing))"
  shows "let coins = fx_noSend fx @ (if fx_protected fx then [] else wallet_coins fx candidates) in
    (\<Sum>i \<leftarrow> fx_xinputs fx. ai_satoshis i) + (\<Sum>c \<leftarrow> coins. cd_satoshis c)
    < (\<Sum>x \<leftarrow> fx_xoutputs fx. ao_satoshis x) + js_ceil_per_kb (satsPerKb (action_params fx))
        (gc_size (action_params fx) (int (List.length coins)) 0)"
proof -
  have "(SendingTier, all_statuses) \<in> set FUNDING_TIERS" by (simp add: FUNDING_TIERS_def all_statuses_def)
  then obtain e where e: "buildFundingPlan sdk_accepts bytes fuel passes fx candidates all_statuses SendingTier False = Some (Inl e)" "isInsufficientFunds e"
    using tier_loop_error [OF assms(2) [unfolded prepareFundingPlanWithLiquidityPolicy_def]] by (auto simp: isInsufficientFunds_def)
  then obtain n m where nm: "e = InsufficientFunds n m" by (cases e) (simp_all add: isInsufficientFunds_def)
  define p where "p = plan_params fx candidates all_statuses False"
  define s where "s = new_plan_alloc (fx_noSend fx) (available_coins fx candidates all_statuses)"
  note s0 = start_ok [OF assms(1), of all_statuses, folded s_def]
  obtain s' where core: "generateChangeSdkCore plan_take plan_release sdk_accepts bytes fuel passes p s = Some (s', Inl (InsufficientFunds n m))"
    using e(1) nm by (auto simp: buildFundingPlan_def Let_def p_def [symmetric] s_def [symmetric] split: option.splits sum.splits)
  have "0 < m \<and> n = spending p + js_ceil_per_kb (satsPerKb p) (gc_size p (int (size (plan_free s))) 0)
    \<and> m = n - (sats_in (gp_fixedInputs p) + (\<Sum>c \<in># plan_free s. cd_satoshis c))"
    using plan.core_short [OF _ _ core] s0 by (simp add: p_def)
  moreover have "(\<Sum>c \<in># plan_free s. cd_satoshis c) = sats_of (plan_sources fx candidates all_statuses)"
    using s0 by (simp add: sats_of_def sum_mset_sum_list [symmetric])
  moreover have "sats_in (gp_fixedInputs p) = (\<Sum>i \<leftarrow> fx_xinputs fx. ai_satoshis i)" "spending p = (\<Sum>x \<leftarrow> fx_xoutputs fx. ao_satoshis x)"
    by (simp_all add: p_def plan_params_def makeFundingParams_def sats_in_def spending_def sats_out_def o_def)
  ultimately show ?thesis
    using s0 unfolding wallet_coins_sources [symmetric] Let_def by (simp add: p_def sats_of_def)
qed

lemma refused_only_when_short_witness:
  "wallet_coins example_action [example_coin 500] = [mc_coin (example_coin 500)] \<and> (500 :: int) < 600"
proof -
  have "ids_ok example_action [example_coin 500]" by (simp add: ids_ok_def example_action_def)
  note short = refused_only_when_short [OF this]
  obtain needed missing where "example_plan (Suc (Suc 0)) (Suc 0) [example_coin 500] = Some (Inl (InsufficientFunds needed missing))"
    using example_refused by (auto split: option.splits sum.splits gc_error.splits)
  from short [OF this] show ?thesis
    by (simp add: example_action_def example_coin_def wallet_coins_def spendable_def Let_def
        action_params_def makeFundingParams_def satsPerKb_def)
qed

text \<open>C22. Planning always comes to an answer: with fuel for every coin and output there is a plan,
  a refusal or a parameter error, and never the internal error with which the code rejects a plan
  of its own - provided the preferred change is not below the dust floor, one output more does not
  lengthen the output count, the cap on change outputs is below \<open>2 ^ 20\<close> and the random values are
  32-bit fractions.\<close>

theorem funding_always_answers:
  assumes "ids_ok fx candidates" and "List.length (fx_noSend fx) + List.length candidates < fuel"
    and "nat (maxChangeOutputs (action_params fx)) + List.length (fx_noSend fx) + List.length candidates + 1 < passes"
    and "params_ok (action_params fx)" and "shaping_fits (action_params fx)" and "maxChangeOutputs (action_params fx) < 2 ^ 20"
    and "fine_values (repeatableRandom (fx_randomVals fx))"
  shows "case prepareFundingPlanWithLiquidityPolicy sdk_accepts bytes beefLength fuel passes fx candidates of
      None \<Rightarrow> False | Some (Inl InternalError) \<Rightarrow> False | _ \<Rightarrow> True"
proof -
  have "proper (prepareFundingPlanWithLiquidityPolicy sdk_accepts bytes beefLength fuel passes fx candidates)"
    unfolding prepareFundingPlanWithLiquidityPolicy_def
    by (rule tier_loop_proper) (rule build_proper [OF assms], simp add: FUNDING_TIERS_def)
  then show ?thesis by (auto simp: proper_def split: option.splits sum.splits gc_error.splits)
qed

lemma funding_always_answers_witness:
  "case example_plan 3 11 [example_coin 900] of None \<Rightarrow> False | Some (Inl InternalError) \<Rightarrow> False | _ \<Rightarrow> True"
proof (rule funding_always_answers)
  show "fine_values (repeatableRandom (fx_randomVals example_action))"
    by (simp add: fine_values_def repeatableRandom_def example_action_def)
  show "shaping_fits (action_params example_action)"
    by (simp add: shaping_fits_def example_action_def action_params_def makeFundingParams_def preferredSatoshis_def dustFloor_def
        satsPerKb_def varUintSize_def)
qed (simp_all add: ids_ok_def example_action_def action_params_def makeFundingParams_def params_ok_def lengths_ok_def satsPerKb_def
      maxChangeOutputs_def)

end
