(* ===== verification/Chain_Result.thy ===== *)
theory Chain_Result
  imports Wallet_Prelude "HOL-Library.Word"
begin

text \<open>
  The error values of the header tracker (\<open>packages/wallet-engine\<close>, Chaintracks), the sequencing of
  fallible steps, and JavaScript's 32-bit operators: \<open>&\<close>, \<open>|\<close>, \<open><<\<close>, \<open>>>\<close> and \<open>>>>\<close> convert their operand
  with \<open>ToInt32\<close>, so an integer is read as a \<open>32 word\<close> and the result back as a signed number
  (unsigned for \<open>>>>\<close>).
\<close>

unbundle bit_operations_syntax

section \<open>Errors and sequencing\<close>

text \<open>
  The errors thrown: \<open>WERR_INVALID_PARAMETER\<close> with the parameter's name, \<open>WERR_INVALID_OPERATION\<close>,
  \<open>WERR_INTERNAL\<close>, \<open>TypeError\<close> and a plain \<open>Error\<close>, each with (the fixed part of) its message.
\<close>

datatype chain_error =
    InvalidParameter string
  | InvalidOperation string
  | InternalError string
  | JsTypeError string
  | JsError string

fun and_then :: "chain_error + 'a \<Rightarrow> ('a \<Rightarrow> chain_error + 'b) \<Rightarrow> chain_error + 'b" where
  "and_then (Inl e) f = Inl e"
| "and_then (Inr x) f = f x"

definition ensure :: "bool \<Rightarrow> chain_error \<Rightarrow> chain_error + unit" where
  "ensure b e = (if b then Inr () else Inl e)"

lemma and_then_Inr: "and_then r f = Inr y \<longleftrightarrow> (\<exists>x. r = Inr x \<and> f x = Inr y)"
  by (cases r) auto

lemma ensure_Inr [simp]: "ensure b e = Inr u \<longleftrightarrow> b"
  by (simp add: ensure_def)

lemma ensure_then [simp]: "and_then (ensure b e) f = (if b then f () else Inl e)"
  by (simp add: ensure_def)

lemma if_Inl_Inr [simp]: "(if b then r else Inl e) = Inr y \<longleftrightarrow> b \<and> r = Inr y"
  by simp

lemma if_Inl_Inr' [simp]: "(if b then Inl e else r) = Inr y \<longleftrightarrow> \<not> b \<and> r = Inr y"
  by simp

lemma and_then_assoc: "and_then (and_then r f) g = and_then r (\<lambda>x. and_then (f x) g)"
  by (cases r) auto

fun each :: "('a \<Rightarrow> chain_error + 'b) \<Rightarrow> 'a list \<Rightarrow> chain_error + 'b list" where
  "each f [] = Inr []"
| "each f (x # xs) = and_then (f x) (\<lambda>y. and_then (each f xs) (\<lambda>ys. Inr (y # ys)))"

lemma each_Inr: "each f xs = Inr ys \<longleftrightarrow> list_all2 (\<lambda>x y. f x = Inr y) xs ys"
  by (induction xs arbitrary: ys) (auto simp: and_then_Inr list_all2_Cons1)

lemma each_total: "list_all (\<lambda>x. f x = Inr (g x)) xs \<Longrightarrow> each f xs = Inr (map g xs)"
  by (induction xs) auto

section \<open>32-bit operators\<close>

definition js_i32 :: "int \<Rightarrow> 32 word" where
  "js_i32 n = word_of_int n"

text \<open>\<open>a & b\<close>, \<open>n >> k\<close> and \<open>n >>> k\<close>.\<close>

definition js_and :: "int \<Rightarrow> int \<Rightarrow> int" where
  "js_and a b = sint (js_i32 a AND js_i32 b)"

definition js_sar :: "int \<Rightarrow> nat \<Rightarrow> int" where
  "js_sar n k = sint (signed_drop_bit k (js_i32 n))"

definition js_shr :: "int \<Rightarrow> nat \<Rightarrow> int" where
  "js_shr n k = uint (drop_bit k (js_i32 n))"

text \<open>\<open>(a | b << 8 | c << 16 | d << 24) >>> 0\<close>.\<close>

definition js_or4 :: "int \<Rightarrow> int \<Rightarrow> int \<Rightarrow> int \<Rightarrow> int" where
  "js_or4 a b c d = uint (js_i32 a OR push_bit 8 (js_i32 b) OR push_bit 16 (js_i32 c) OR push_bit 24 (js_i32 d))"

lemma js_and_mask: "m < 31 \<Longrightarrow> js_and n (mask m) = take_bit m n"
  by (rule bit_eqI) (auto simp: js_and_def js_i32_def bit_simps)

lemma js_and_bit: "m < 31 \<Longrightarrow> js_and n (2 ^ m) \<noteq> 0 \<longleftrightarrow> bit n m"
proof -
  assume m: "m < 31"
  have "js_and n (2 ^ m) = of_bool (bit n m) * 2 ^ m"
    using m by (intro bit_eqI) (auto simp: js_and_def js_i32_def bit_simps)
  then show ?thesis by simp
qed

lemma js_sar_byte: "k \<le> 24 \<Longrightarrow> js_and (js_sar n k) (mask 8) = take_bit 8 (drop_bit k n)"
  by (rule bit_eqI) (auto simp: js_and_def js_sar_def js_i32_def bit_simps min_def)

lemma js_shr_eq: "js_shr n k = drop_bit k (take_bit 32 n)"
  by (rule bit_eqI) (auto simp: js_shr_def js_i32_def bit_simps)

lemma js_or4_bit:
  "bit (js_or4 a b c d) i \<longleftrightarrow> i < 32 \<and> (bit a i \<or> 8 \<le> i \<and> bit b (i - 8) \<or> 16 \<le> i \<and> bit c (i - 16) \<or> 24 \<le> i \<and> bit d (i - 24))"
  by (auto simp: js_or4_def js_i32_def bit_simps)

text \<open>A number written out in four bytes and read back.\<close>

lemma js_or4_bytes:
  "js_or4 (take_bit 8 n) (take_bit 8 (drop_bit 8 n)) (take_bit 8 (drop_bit 16 n)) (take_bit 8 (drop_bit 24 n)) = take_bit 32 n"
proof (rule bit_eqI)
  fix i :: nat
  consider "i < 8" | "8 \<le> i" "i < 16" | "16 \<le> i" "i < 24" | "24 \<le> i" by linarith
  then show "bit (js_or4 (take_bit 8 n) (take_bit 8 (drop_bit 8 n)) (take_bit 8 (drop_bit 16 n))
      (take_bit 8 (drop_bit 24 n))) i = bit (take_bit 32 n) i"
    by cases (auto simp: js_or4_bit bit_simps)
qed

lemma byte_bit: "0 \<le> (b::int) \<Longrightarrow> b < 256 \<Longrightarrow> bit b i \<Longrightarrow> i < 8"
proof (rule ccontr)
  assume b: "0 \<le> b" "b < 256" "bit b i" "\<not> i < 8"
  have "take_bit 8 b = b" using b by (simp add: take_bit_int_eq_self_iff)
  then show False using b by (metis bit_take_bit_iff)
qed

text \<open>Four bytes read as a number and written out again.\<close>

lemma js_or4_take:
  assumes "0 \<le> a" "a < 256" "0 \<le> b" "b < 256" "0 \<le> c" "c < 256" "0 \<le> d" "d < 256"
  shows "take_bit 8 (js_or4 a b c d) = a" and "take_bit 8 (drop_bit 8 (js_or4 a b c d)) = b"
    and "take_bit 8 (drop_bit 16 (js_or4 a b c d)) = c" and "take_bit 8 (drop_bit 24 (js_or4 a b c d)) = d"
proof -
  note B = byte_bit [OF assms(1,2)] byte_bit [OF assms(3,4)] byte_bit [OF assms(5,6)] byte_bit [OF assms(7,8)]
  show "take_bit 8 (js_or4 a b c d) = a"
    by (rule bit_eqI) (auto simp: bit_simps js_or4_bit dest: B)
  show "take_bit 8 (drop_bit 8 (js_or4 a b c d)) = b"
    by (rule bit_eqI) (auto simp: bit_simps js_or4_bit dest: B)
  show "take_bit 8 (drop_bit 16 (js_or4 a b c d)) = c"
    by (rule bit_eqI) (auto simp: bit_simps js_or4_bit dest: B)
  show "take_bit 8 (drop_bit 24 (js_or4 a b c d)) = d"
    by (rule bit_eqI) (auto simp: bit_simps js_or4_bit dest: B)
qed

lemma js_or4_bounds: "0 \<le> js_or4 a b c d" "js_or4 a b c d < 2 ^ 32"
  using uint_bounded [of "js_i32 a OR push_bit 8 (js_i32 b) OR push_bit 16 (js_i32 c) OR push_bit 24 (js_i32 d)"]
  by (simp_all add: js_or4_def)

end
