(* ===== verification/Block_Header.thy ===== *)
theory Block_Header
  imports Chain_Result
begin

text \<open>
  The 80-byte block header of \<open>util/blockHeaderUtilities.ts\<close>: 32-bit integers in four bytes, format
  checks, serialization and parsing, genesis headers. A byte buffer (\<open>number[]\<close> or
  \<open>Uint8Array\<close>) is an \<open>int list\<close>; integer fields are \<open>int\<close>, so the \<open>typeof\<close> and \<open>Number.isInteger\<close>
  refusals are outside the model, the range checks inside. A header that is not a plain object with
  exactly the expected properties cannot be written as a record.

  The SDK's \<open>Writer\<close>, \<open>Reader\<close>, hex conversions and SHA-256 are the fields of \<open>header_sdk\<close>; what the code
  relies on is the locale \<open>header_codec\<close>, interpreted with the file's own 32-bit routines.
\<close>

section \<open>Byte windows\<close>

definition js_safe :: "int \<Rightarrow> bool" where
  "js_safe n = (\<bar>n\<bar> \<le> 9007199254740991)"

definition is_byte :: "int \<Rightarrow> bool" where
  "is_byte b = (0 \<le> b \<and> b \<le> 255)"

text \<open>\<open>buffer.slice(k, k + n)\<close> for a window inside the buffer.\<close>

definition byte_slice :: "nat \<Rightarrow> nat \<Rightarrow> int list \<Rightarrow> int list" where
  "byte_slice k n buffer = take n (drop k buffer)"

definition validateByteWindow :: "int list \<Rightarrow> int \<Rightarrow> int \<Rightarrow> string \<Rightarrow> chain_error + unit" where
  "validateByteWindow buffer offset len nm =
     and_then (ensure (js_safe offset \<and> 0 \<le> offset \<and> js_safe len \<and> 0 \<le> len \<and> js_safe (offset + len)
                 \<and> offset + len \<le> int (length buffer)) (InvalidParameter (nm @ '' window'')))
     (\<lambda>_. ensure (list_all is_byte (byte_slice (nat offset) (nat len) buffer)) (InvalidParameter nm))"

definition validateWritableByteWindow :: "int list \<Rightarrow> int \<Rightarrow> int \<Rightarrow> chain_error + unit" where
  "validateWritableByteWindow buffer offset len =
     ensure (js_safe offset \<and> 0 \<le> offset \<and> js_safe (offset + len) \<and> offset + len \<le> int (length buffer))
       (InvalidParameter ''offset'')"

definition validateUnsignedHeaderInteger :: "int \<Rightarrow> string \<Rightarrow> int \<Rightarrow> chain_error + unit" where
  "validateUnsignedHeaderInteger n field maximum =
     ensure (0 \<le> n \<and> n \<le> maximum) (JsError (''Header '' @ field @ '' must be between''))"

abbreviation uint32_max :: int where
  "uint32_max \<equiv> 4294967295"

section \<open>Integers in four bytes\<close>

definition u32_bytes :: "int \<Rightarrow> int list" where
  "u32_bytes n = [js_and n 255, js_and (js_sar n 8) 255, js_and (js_sar n 16) 255, js_and (js_sar n 24) 255]"

definition convertUint32ToBuffer :: "int \<Rightarrow> bool \<Rightarrow> chain_error + int list" where
  "convertUint32ToBuffer n littleEndian =
     and_then (validateUnsignedHeaderInteger n ''uint32'' uint32_max)
     (\<lambda>_. Inr (if littleEndian then u32_bytes n else rev (u32_bytes n)))"

text \<open>Writing into an array at an offset: the next offset and the array afterwards.\<close>

definition put_bytes :: "int list \<Rightarrow> int list \<Rightarrow> nat \<Rightarrow> int list" where
  "put_bytes bs a k = take k a @ bs @ drop (k + length bs) a"

definition writeUInt32LE :: "int \<Rightarrow> int list \<Rightarrow> int \<Rightarrow> chain_error + int \<times> int list" where
  "writeUInt32LE n a offset =
     and_then (validateUnsignedHeaderInteger n ''uint32'' uint32_max) (\<lambda>_.
     and_then (validateWritableByteWindow a offset 4)
     (\<lambda>_. Inr (offset + 4, put_bytes (u32_bytes n) a (nat offset))))"

definition writeUInt32BE :: "int \<Rightarrow> int list \<Rightarrow> int \<Rightarrow> chain_error + int \<times> int list" where
  "writeUInt32BE n a offset =
     and_then (validateUnsignedHeaderInteger n ''uint32'' uint32_max) (\<lambda>_.
     and_then (validateWritableByteWindow a offset 4)
     (\<lambda>_. Inr (offset + 4, put_bytes (rev (u32_bytes n)) a (nat offset))))"

definition readUInt32LE :: "int list \<Rightarrow> int \<Rightarrow> chain_error + int" where
  "readUInt32LE a offset =
     and_then (validateByteWindow a offset 4 ''buffer'')
     (\<lambda>_. let k = nat offset in Inr (js_or4 (a ! k) (a ! (k + 1)) (a ! (k + 2)) (a ! (k + 3))))"

definition readUInt32BE :: "int list \<Rightarrow> int \<Rightarrow> chain_error + int" where
  "readUInt32BE a offset =
     and_then (validateByteWindow a offset 4 ''buffer'')
     (\<lambda>_. let k = nat offset in Inr (js_or4 (a ! (k + 3)) (a ! (k + 2)) (a ! (k + 1)) (a ! k)))"

definition convertBufferToUint32 :: "int list \<Rightarrow> bool \<Rightarrow> chain_error + int" where
  "convertBufferToUint32 buffer littleEndian =
     and_then (validateByteWindow buffer 0 4 ''buffer'') (\<lambda>_.
     and_then (ensure (length buffer = 4) (InvalidParameter ''buffer'')) (\<lambda>_.
       let a = if littleEndian then buffer else rev buffer
       in Inr (js_or4 (a ! 0) (a ! 1) (a ! 2) (a ! 3))))"

lemma u32_bytes_eq: "u32_bytes n =
    [take_bit 8 n, take_bit 8 (drop_bit 8 n), take_bit 8 (drop_bit 16 n), take_bit 8 (drop_bit 24 n)]"
  using js_and_mask [of 8 n] js_sar_byte [of 8 n] js_sar_byte [of 16 n] js_sar_byte [of 24 n]
  by (simp add: u32_bytes_def mask_eq_exp_minus_1)

lemma u32_bytes_length [simp]: "length (u32_bytes n) = 4"
  by (simp add: u32_bytes_def)

lemma take_bit_is_byte: "is_byte (take_bit 8 n)"
  using take_bit_int_less_exp [of 8 n] by (simp add: is_byte_def)

lemma u32_bytes_bytes: "list_all is_byte (u32_bytes n)"
  by (simp add: u32_bytes_eq take_bit_is_byte)

lemma u32_range: "0 \<le> n \<Longrightarrow> n \<le> uint32_max \<Longrightarrow> take_bit 32 n = n"
  by (simp add: take_bit_int_eq_self_iff)

lemma u32_roundtrip:
  assumes "0 \<le> n" "n \<le> uint32_max"
  shows "js_or4 (u32_bytes n ! 0) (u32_bytes n ! 1) (u32_bytes n ! 2) (u32_bytes n ! 3) = n"
  using js_or4_bytes [of n] u32_range [OF assms] by (simp add: u32_bytes_eq numeral_2_eq_2 numeral_3_eq_3)

lemma bytes4_roundtrip:
  assumes "list_all is_byte [a, b, c, d]"
  shows "u32_bytes (js_or4 a b c d) = [a, b, c, d]"
  using assms js_or4_take [of a b c d] by (simp add: u32_bytes_eq is_byte_def)

lemma convert_uint32_roundtrip:
  assumes "0 \<le> n" "n \<le> uint32_max"
  shows "and_then (convertUint32ToBuffer n e) (\<lambda>b. convertBufferToUint32 b e) = Inr n"
proof -
  have b: "list_all is_byte [u32_bytes n ! 0, u32_bytes n ! 1, u32_bytes n ! 2, u32_bytes n ! 3]"
    by (simp add: u32_bytes_eq take_bit_is_byte numeral_2_eq_2 numeral_3_eq_3)
  have u: "u32_bytes n = [u32_bytes n ! 0, u32_bytes n ! 1, u32_bytes n ! 2, u32_bytes n ! 3]"
    by (simp add: u32_bytes_def numeral_2_eq_2 numeral_3_eq_3)
  have r: "rev (u32_bytes n) = [u32_bytes n ! 3, u32_bytes n ! 2, u32_bytes n ! 1, u32_bytes n ! 0]"
    by (subst u) simp
  show ?thesis
    using assms b u32_roundtrip [OF assms] u32_bytes_bytes [of n]
    by (auto simp: convertUint32ToBuffer_def convertBufferToUint32_def validateUnsignedHeaderInteger_def
        validateByteWindow_def js_safe_def byte_slice_def Let_def r numeral_2_eq_2 numeral_3_eq_3)
qed

lemma write_read_LE:
  assumes "writeUInt32LE n a offset = Inr (k, a')"
  shows "k = offset + 4 \<and> length a' = length a \<and> readUInt32LE a' offset = Inr n"
proof -
  have n: "0 \<le> n" "n \<le> uint32_max" and o: "0 \<le> offset" "js_safe offset" "js_safe (offset + 4)"
      "offset + 4 \<le> int (length a)"
    and a': "k = offset + 4" "a' = put_bytes (u32_bytes n) a (nat offset)"
    using assms by (auto simp: writeUInt32LE_def and_then_Inr validateUnsignedHeaderInteger_def
        validateWritableByteWindow_def split: if_splits)
  have len: "length a' = length a"
    using o a' by (simp add: put_bytes_def)
  have tk: "length (take (nat offset) a) = nat offset"
    using o by simp
  have nth: "a' ! (nat offset + i) = u32_bytes n ! i" if "i < 4" for i
    using that o by (simp add: a' put_bytes_def nth_append tk)
  have sl: "byte_slice (nat offset) 4 a' = u32_bytes n"
    using o by (simp add: a' put_bytes_def byte_slice_def)
  show ?thesis
    using n o nth [of 0] nth [of 1] nth [of 2] nth [of 3] len a' u32_bytes_bytes [of n] u32_roundtrip [OF n] sl
    by (auto simp: readUInt32LE_def validateByteWindow_def js_safe_def Let_def)
qed

section \<open>Hexadecimal text\<close>

definition js_hex_any :: "char \<Rightarrow> bool" where
  "js_hex_any c = (let n = (of_char c :: nat) in
     (48 \<le> n \<and> n \<le> 57) \<or> (97 \<le> n \<and> n \<le> 102) \<or> (65 \<le> n \<and> n \<le> 70))"

text \<open>\<open>HEX_32_BYTES.test(s)\<close>: \<open>/^[0-9a-fA-F]{64}$/\<close>.\<close>

definition hex32 :: "string \<Rightarrow> bool" where
  "hex32 s = (length s = 64 \<and> list_all js_hex_any s)"

text \<open>The 32 bytes of a hash in lower-case hex, the form every computed hash has.\<close>

definition hash_text :: "string \<Rightarrow> bool" where
  "hash_text s = (length s = 64 \<and> list_all js_hex s)"

lemma js_hex_is_any: "js_hex c \<Longrightarrow> js_hex_any c"
  by (auto simp: js_hex_def js_hex_any_def Let_def)

lemma hash_text_hex32: "hash_text s \<Longrightarrow> hex32 s"
  by (auto simp: hash_text_def hex32_def list_all_iff js_hex_is_any)

lemma js_hex_lower: "js_hex c \<Longrightarrow> js_lower_char c = c"
  by (auto simp: js_hex_def js_lower_char_def Let_def)

lemma hash_text_lower: "hash_text s \<Longrightarrow> js_lower s = s"
  by (auto simp: hash_text_def js_lower_def list_all_iff js_hex_lower intro: map_idI)

lemma js_hex_any_lower: "js_hex_any c \<Longrightarrow> js_hex (js_lower_char c)"
  by (auto simp: js_hex_def js_hex_any_def js_lower_char_code Let_def)

lemma hex32_lower: "hex32 s \<Longrightarrow> hash_text (js_lower s)"
  by (auto simp: hex32_def hash_text_def js_lower_def list_all_iff js_hex_any_lower)

text \<open>A hexadecimal digit and its value; text of a byte string and back.\<close>

definition hex_char :: "nat \<Rightarrow> char" where
  "hex_char d = (if d < 10 then char_of (48 + d) else char_of (87 + d))"

definition hex_digit_val :: "char \<Rightarrow> nat" where
  "hex_digit_val c = (let n = (of_char c :: nat) in
     if 48 \<le> n \<and> n \<le> 57 then n - 48
     else if 97 \<le> n \<and> n \<le> 102 then n - 87
     else if 65 \<le> n \<and> n \<le> 70 then n - 55 else 0)"

definition hex_of_bytes :: "int list \<Rightarrow> string" where
  "hex_of_bytes bs = concat (map (\<lambda>b. [hex_char (nat b div 16), hex_char (nat b mod 16)]) bs)"

fun bytes_of_hex :: "string \<Rightarrow> int list" where
  "bytes_of_hex (a # b # s) = int (16 * hex_digit_val a + hex_digit_val b) # bytes_of_hex s"
| "bytes_of_hex _ = []"

lemma hex_digit_code: "d < 16 \<Longrightarrow> (of_char (hex_char d) :: nat) = (if d < 10 then 48 + d else 87 + d)"
  by (auto simp: hex_char_def)

lemma hex_digit_val_digit [simp]: "d < 16 \<Longrightarrow> hex_digit_val (hex_char d) = d"
  by (auto simp: hex_digit_val_def hex_digit_code Let_def)

lemma hex_digit_hex: "d < 16 \<Longrightarrow> js_hex (hex_char d)"
  by (auto simp: js_hex_def hex_digit_code Let_def)

lemma hex_digit_val_lt: "hex_digit_val c < 16"
  by (auto simp: hex_digit_val_def Let_def)

lemma hex_digit_of_val: "js_hex c \<Longrightarrow> hex_char (hex_digit_val c) = c"
proof -
  assume "js_hex c"
  then have "(of_char (hex_char (hex_digit_val c)) :: nat) = of_char c"
    by (subst hex_digit_code) (auto simp: hex_digit_val_lt js_hex_def hex_digit_val_def Let_def)
  then show ?thesis by simp
qed

lemma hex_of_bytes_length [simp]: "length (hex_of_bytes bs) = 2 * length bs"
  by (induction bs) (auto simp: hex_of_bytes_def)

lemma hex_of_bytes_hex: "list_all is_byte bs \<Longrightarrow> list_all js_hex (hex_of_bytes bs)"
  by (induction bs) (auto simp: hex_of_bytes_def is_byte_def intro!: hex_digit_hex)

lemma nibbles: "is_byte b \<Longrightarrow> 16 * int (nat b div 16) + int (nat b mod 16) = b"
  by (simp add: is_byte_def zdiv_int zmod_int)

lemma bytes_of_hex_bytes: "list_all is_byte bs \<Longrightarrow> bytes_of_hex (hex_of_bytes bs) = bs"
  by (induction bs) (auto simp: hex_of_bytes_def is_byte_def nat_less_iff nibbles)

lemma bytes_of_hex_length: "length (bytes_of_hex s) = length s div 2"
  by (induction s rule: bytes_of_hex.induct) auto

lemma bytes_of_hex_is_byte: "list_all is_byte (bytes_of_hex s)"
proof (induction s rule: bytes_of_hex.induct)
  case (1 a b s)
  then show ?case
    using hex_digit_val_lt [of a] hex_digit_val_lt [of b] by (simp add: is_byte_def)
qed auto

lemma hex_of_bytes_of_hex:
  "even (length s) \<Longrightarrow> list_all js_hex s \<Longrightarrow> hex_of_bytes (bytes_of_hex s) = s"
proof (induction s rule: bytes_of_hex.induct)
  case (1 a b s)
  have "nat (int (16 * hex_digit_val a + hex_digit_val b)) = 16 * hex_digit_val a + hex_digit_val b"
    by simp
  then have "hex_char (nat (int (16 * hex_digit_val a + hex_digit_val b)) div 16) = a
    \<and> hex_char (nat (int (16 * hex_digit_val a + hex_digit_val b)) mod 16) = b"
    using 1 hex_digit_val_lt [of b] by (simp only:) (simp add: hex_digit_of_val)
  then show ?case
    using 1 by (simp add: hex_of_bytes_def)
qed (auto simp: hex_of_bytes_def)

section \<open>The SDK's byte functions\<close>

record header_sdk =
  sdk_le32 :: "int \<Rightarrow> int list"
  sdk_read_le32 :: "int list \<Rightarrow> int"
  sdk_to_hex :: "int list \<Rightarrow> string"
  sdk_of_hex :: "string \<Rightarrow> int list"
  sdk_sha256 :: "int list \<Rightarrow> int list"

text \<open>
  What the code relies on: \<open>Writer.writeUInt32LE\<close> appends four bytes that \<open>Reader.readUInt32LE\<close> reads
  back, \<open>toHex\<close> and \<open>toArray(s, 'hex')\<close> are inverse on byte strings and lower-case hex, and SHA-256
  returns 32 bytes.
\<close>

locale header_codec =
  fixes sdk :: header_sdk
  assumes le32_length: "length (sdk_le32 sdk n) = 4"
    and le32_bytes: "list_all is_byte (sdk_le32 sdk n)"
    and le32_read: "0 \<le> n \<Longrightarrow> n \<le> uint32_max \<Longrightarrow> sdk_read_le32 sdk (sdk_le32 sdk n) = n"
    and read_le32: "length bs = 4 \<Longrightarrow> list_all is_byte bs \<Longrightarrow>
        sdk_le32 sdk (sdk_read_le32 sdk bs) = bs \<and> 0 \<le> sdk_read_le32 sdk bs \<and> sdk_read_le32 sdk bs \<le> uint32_max"
    and to_hex_text: "list_all is_byte bs \<Longrightarrow>
        length (sdk_to_hex sdk bs) = 2 * length bs \<and> list_all js_hex (sdk_to_hex sdk bs)"
    and of_to_hex: "list_all is_byte bs \<Longrightarrow> sdk_of_hex sdk (sdk_to_hex sdk bs) = bs"
    and of_hex_bytes: "hex32 s \<Longrightarrow> length (sdk_of_hex sdk s) = 32 \<and> list_all is_byte (sdk_of_hex sdk s)"
    and to_of_hex: "hash_text s \<Longrightarrow> sdk_to_hex sdk (sdk_of_hex sdk s) = s"
    and sha_bytes: "length (sdk_sha256 sdk bs) = 32 \<and> list_all is_byte (sdk_sha256 sdk bs)"
begin

lemma to_hex_32: "length bs = 32 \<Longrightarrow> list_all is_byte bs \<Longrightarrow> hash_text (sdk_to_hex sdk bs)"
  using to_hex_text [of bs] by (simp add: hash_text_def)

end

text \<open>The file's own 32-bit routines keep the contract (with plain hex text).\<close>

definition own_sdk :: "(int list \<Rightarrow> int list) \<Rightarrow> header_sdk" where
  "own_sdk sha = \<lparr>sdk_le32 = u32_bytes,
     sdk_read_le32 = (\<lambda>b. js_or4 (b ! 0) (b ! 1) (b ! 2) (b ! 3)),
     sdk_to_hex = hex_of_bytes, sdk_of_hex = bytes_of_hex, sdk_sha256 = sha\<rparr>"

lemma own_sdk_codec:
  assumes "\<And>bs. length (sha bs) = 32 \<and> list_all is_byte (sha bs)"
  shows "header_codec (own_sdk sha)"
proof
  fix bs :: "int list"
  assume bs: "length bs = 4" "list_all is_byte bs"
  then obtain a b c d where "bs = [a, b, c, d]"
    by (auto simp: numeral_eq_Suc length_Suc_conv)
  then show "sdk_le32 (own_sdk sha) (sdk_read_le32 (own_sdk sha) bs) = bs
      \<and> 0 \<le> sdk_read_le32 (own_sdk sha) bs \<and> sdk_read_le32 (own_sdk sha) bs \<le> uint32_max"
    using bs bytes4_roundtrip [of a b c d] js_or4_bounds [of a b c d]
    by (simp add: own_sdk_def numeral_2_eq_2 numeral_3_eq_3)
next
  fix s assume "hex32 s"
  then show "length (sdk_of_hex (own_sdk sha) s) = 32 \<and> list_all is_byte (sdk_of_hex (own_sdk sha) s)"
    by (simp add: own_sdk_def hex32_def bytes_of_hex_length bytes_of_hex_is_byte)
next
  fix s assume "hash_text s"
  then show "sdk_to_hex (own_sdk sha) (sdk_of_hex (own_sdk sha) s) = s"
    by (simp add: own_sdk_def hash_text_def hex_of_bytes_of_hex)
qed (use assms u32_roundtrip in \<open>simp_all add: own_sdk_def u32_bytes_bytes hex_of_bytes_hex bytes_of_hex_bytes\<close>)

interpretation own: header_codec "own_sdk (\<lambda>_. replicate 32 0)"
  by (rule own_sdk_codec) (simp add: is_byte_def list_all_iff)

text \<open>\<open>doubleSha256LE\<close> and \<open>doubleSha256BE\<close> of \<open>utility/utilityHelpers.ts\<close>.\<close>

definition doubleSha256LE :: "header_sdk \<Rightarrow> int list \<Rightarrow> int list" where
  "doubleSha256LE sdk data = sdk_sha256 sdk (sdk_sha256 sdk data)"

definition doubleSha256BE :: "header_sdk \<Rightarrow> int list \<Rightarrow> int list" where
  "doubleSha256BE sdk data = rev (doubleSha256LE sdk data)"

section \<open>Headers\<close>

record base_header =
  version :: int
  previousHash :: string
  merkleRoot :: string
  time :: int
  bits :: int
  nonce :: int

record block_header = base_header +
  height :: int
  hash :: string

abbreviation max_header_count :: int where
  "max_header_count \<equiv> 100000"

abbreviation max_block_height :: int where
  "max_block_height \<equiv> 2147483647"

definition validateBaseBlockHeaderFormat :: "base_header \<Rightarrow> chain_error + unit" where
  "validateBaseBlockHeaderFormat h =
     and_then (validateUnsignedHeaderInteger (version h) ''version'' uint32_max) (\<lambda>_.
     and_then (ensure (hex32 (previousHash h)) (JsError ''Header previousHash must be 32 hex bytes.'')) (\<lambda>_.
     and_then (ensure (hex32 (merkleRoot h)) (JsError ''Header merkleRoot must be 32 hex bytes.'')) (\<lambda>_.
     and_then (validateUnsignedHeaderInteger (time h) ''time'' uint32_max) (\<lambda>_.
     and_then (validateUnsignedHeaderInteger (bits h) ''bits'' uint32_max) (\<lambda>_.
     validateUnsignedHeaderInteger (nonce h) ''nonce'' uint32_max)))))"

definition serializeBaseBlockHeader :: "header_sdk \<Rightarrow> base_header \<Rightarrow> chain_error + int list" where
  "serializeBaseBlockHeader sdk h =
     and_then (validateBaseBlockHeaderFormat h) (\<lambda>_.
     Inr (sdk_le32 sdk (version h) @ rev (sdk_of_hex sdk (previousHash h)) @ rev (sdk_of_hex sdk (merkleRoot h))
        @ sdk_le32 sdk (time h) @ sdk_le32 sdk (bits h) @ sdk_le32 sdk (nonce h)))"

text \<open>The call with a target array: the bytes and the array with the bytes at \<open>offset\<close>.\<close>

definition serializeBaseBlockHeader_into ::
  "header_sdk \<Rightarrow> base_header \<Rightarrow> int list \<Rightarrow> int option \<Rightarrow> chain_error + int list \<times> int list" where
  "serializeBaseBlockHeader_into sdk h buffer offset =
     and_then (serializeBaseBlockHeader sdk h) (\<lambda>data.
       let k = (case offset of Some k \<Rightarrow> k | None \<Rightarrow> 0) in
       and_then (ensure (js_safe k \<and> 0 \<le> k \<and> k + int (length data) \<le> int (length buffer)) (InvalidParameter ''offset''))
       (\<lambda>_. Inr (data, put_bytes data buffer (nat k))))"

text \<open>The wire fields of a header, dropping whatever extends it.\<close>

definition base_of :: "'a base_header_scheme \<Rightarrow> base_header" where
  "base_of h = \<lparr>version = version h, previousHash = previousHash h, merkleRoot = merkleRoot h,
     time = time h, bits = bits h, nonce = nonce h\<rparr>"

definition serializeBaseBlockHeaders :: "header_sdk \<Rightarrow> 'a base_header_scheme list \<Rightarrow> chain_error + int list" where
  "serializeBaseBlockHeaders sdk hs =
     and_then (ensure (int (length hs) \<le> max_header_count) (InvalidParameter ''headers'')) (\<lambda>_.
     and_then (each (\<lambda>h. serializeBaseBlockHeader sdk (base_of h)) hs) (\<lambda>ds. Inr (concat ds)))"

definition blockHash_bytes :: "header_sdk \<Rightarrow> int list \<Rightarrow> chain_error + string" where
  "blockHash_bytes sdk a =
     and_then (ensure (length a = 80) (JsError ''Block header must be 80 bytes long.''))
     (\<lambda>_. Inr (sdk_to_hex sdk (doubleSha256BE sdk a)))"

definition blockHash :: "header_sdk \<Rightarrow> base_header \<Rightarrow> chain_error + string" where
  "blockHash sdk h = and_then (serializeBaseBlockHeader sdk h) (blockHash_bytes sdk)"

definition deserializeBaseBlockHeader :: "header_sdk \<Rightarrow> int list \<Rightarrow> int \<Rightarrow> chain_error + base_header" where
  "deserializeBaseBlockHeader sdk buffer offset =
     and_then (validateByteWindow buffer offset 80 ''buffer'') (\<lambda>_.
       let k = nat offset in
       Inr \<lparr>version = sdk_read_le32 sdk (byte_slice k 4 buffer),
            previousHash = sdk_to_hex sdk (rev (byte_slice (k + 4) 32 buffer)),
            merkleRoot = sdk_to_hex sdk (rev (byte_slice (k + 36) 32 buffer)),
            time = sdk_read_le32 sdk (byte_slice (k + 68) 4 buffer),
            bits = sdk_read_le32 sdk (byte_slice (k + 72) 4 buffer),
            nonce = sdk_read_le32 sdk (byte_slice (k + 76) 4 buffer)\<rparr>)"

text \<open>\<open>{ ...base, height, hash }\<close>.\<close>

definition with_position :: "base_header \<Rightarrow> int \<Rightarrow> string \<Rightarrow> block_header" where
  "with_position b ht hs = base_header.extend b \<lparr>height = ht, hash = hs\<rparr>"

definition deserializeBlockHeader :: "header_sdk \<Rightarrow> int list \<Rightarrow> int \<Rightarrow> int \<Rightarrow> chain_error + block_header" where
  "deserializeBlockHeader sdk buffer ht offset =
     and_then (ensure (js_safe ht \<and> 0 \<le> ht \<and> ht \<le> max_block_height) (InvalidParameter ''height'')) (\<lambda>_.
     and_then (deserializeBaseBlockHeader sdk buffer offset) (\<lambda>base.
     Inr (with_position base ht (sdk_to_hex sdk (doubleSha256BE sdk (byte_slice (nat offset) 80 buffer))))))"

text \<open>The loop of \<open>deserializeBaseBlockHeaders\<close>: \<open>room\<close> is \<open>limit - headers.length\<close>.\<close>

fun base_headers_loop :: "header_sdk \<Rightarrow> int list \<Rightarrow> int \<Rightarrow> nat \<Rightarrow> chain_error + base_header list" where
  "base_headers_loop sdk buffer offset 0 = Inr []"
| "base_headers_loop sdk buffer offset (Suc room) =
    (if offset + 80 \<le> int (length buffer)
     then and_then (deserializeBaseBlockHeader sdk buffer offset) (\<lambda>h.
          and_then (base_headers_loop sdk buffer (offset + 80) room) (\<lambda>hs. Inr (h # hs)))
     else Inr [])"

definition deserializeBaseBlockHeaders ::
  "header_sdk \<Rightarrow> int list \<Rightarrow> int \<Rightarrow> int option \<Rightarrow> chain_error + base_header list" where
  "deserializeBaseBlockHeaders sdk buffer offset count =
     and_then (ensure (js_safe offset \<and> 0 \<le> offset \<and> offset \<le> int (length buffer)) (InvalidParameter ''offset'')) (\<lambda>_.
     and_then (ensure (case count of None \<Rightarrow> True | Some c \<Rightarrow> js_safe c \<and> 0 \<le> c \<and> c \<le> max_header_count)
        (InvalidParameter ''count'')) (\<lambda>_.
     let available = (int (length buffer) - offset) div 80;
         limit = (case count of Some c \<Rightarrow> c | None \<Rightarrow> available) in
     and_then (ensure (min available limit \<le> max_header_count) (InvalidParameter ''buffer'')) (\<lambda>_.
     base_headers_loop sdk buffer offset (nat limit))))"

fun positioned_headers :: "header_sdk \<Rightarrow> int list \<Rightarrow> int \<Rightarrow> int \<Rightarrow> base_header list \<Rightarrow> chain_error + block_header list" where
  "positioned_headers sdk buffer offset nextHeight [] = Inr []"
| "positioned_headers sdk buffer offset nextHeight (b # bs) =
     and_then (blockHash_bytes sdk (byte_slice (nat offset) 80 buffer)) (\<lambda>hs.
     and_then (positioned_headers sdk buffer (offset + 80) (nextHeight + 1) bs) (\<lambda>rest.
     Inr (with_position b nextHeight hs # rest)))"

definition deserializeBlockHeaders ::
  "header_sdk \<Rightarrow> int \<Rightarrow> int list \<Rightarrow> int \<Rightarrow> int option \<Rightarrow> chain_error + block_header list" where
  "deserializeBlockHeaders sdk firstHeight buffer offset count =
     and_then (ensure (js_safe firstHeight \<and> 0 \<le> firstHeight \<and> firstHeight \<le> max_block_height)
        (InvalidParameter ''firstHeight'')) (\<lambda>_.
     and_then (deserializeBaseBlockHeaders sdk buffer offset count) (\<lambda>bs.
     and_then (ensure (firstHeight + int (length bs) - 1 \<le> max_block_height) (InvalidParameter ''headers''))
     (\<lambda>_. positioned_headers sdk buffer offset firstHeight bs)))"

text \<open>A positioned header is checked like its wire fields, and its hash must be its own, in lower case.\<close>

definition validateHeaderFormat :: "header_sdk \<Rightarrow> 'a block_header_scheme \<Rightarrow> chain_error + unit" where
  "validateHeaderFormat sdk h =
     and_then (validateBaseBlockHeaderFormat (base_of h)) (\<lambda>_.
     and_then (validateUnsignedHeaderInteger (height h) ''height'' max_block_height) (\<lambda>_.
     and_then (ensure (hex32 (hash h)) (JsError ''Header hash must be 32 hex bytes.'')) (\<lambda>_.
     and_then (blockHash sdk (base_of h)) (\<lambda>computed.
     ensure (hash h = computed) (JsError ''Header hash is invalid.'')))))"

definition swapByteOrder :: "int list \<Rightarrow> int list" where
  "swapByteOrder buffer = rev buffer"

section \<open>Round trips\<close>

lemma base_of_id [simp]: "base_of (h :: base_header) = h"
  by (simp add: base_of_def)

lemma with_position_sel [simp]:
  "base_of (with_position b ht hs) = b" "height (with_position b ht hs) = ht" "hash (with_position b ht hs) = hs"
  "bits (with_position b ht hs) = bits b" "previousHash (with_position b ht hs) = previousHash b"
  by (cases b; simp add: with_position_def base_of_def base_header.defs)+

text \<open>A well-formed header: what the format check accepts; \<open>canonical\<close> has its hashes in lower case.\<close>

definition wellformed :: "base_header \<Rightarrow> bool" where
  "wellformed h = (0 \<le> version h \<and> version h \<le> uint32_max \<and> hex32 (previousHash h) \<and> hex32 (merkleRoot h)
     \<and> 0 \<le> time h \<and> time h \<le> uint32_max \<and> 0 \<le> bits h \<and> bits h \<le> uint32_max \<and> 0 \<le> nonce h \<and> nonce h \<le> uint32_max)"

definition canonical :: "base_header \<Rightarrow> bool" where
  "canonical h = (wellformed h \<and> hash_text (previousHash h) \<and> hash_text (merkleRoot h))"

lemma validateBase_iff: "validateBaseBlockHeaderFormat h = Inr u \<longleftrightarrow> wellformed h"
  by (auto simp: validateBaseBlockHeaderFormat_def validateUnsignedHeaderInteger_def wellformed_def)

lemma serialize_iff: "(\<exists>d. serializeBaseBlockHeader sdk h = Inr d) \<longleftrightarrow> wellformed h"
  by (auto simp: serializeBaseBlockHeader_def and_then_Inr validateBase_iff)

definition wire :: "header_sdk \<Rightarrow> base_header \<Rightarrow> int list" where
  "wire sdk h = sdk_le32 sdk (version h) @ rev (sdk_of_hex sdk (previousHash h)) @ rev (sdk_of_hex sdk (merkleRoot h))
     @ sdk_le32 sdk (time h) @ sdk_le32 sdk (bits h) @ sdk_le32 sdk (nonce h)"

lemma serialize_wire: "serializeBaseBlockHeader sdk h = Inr d \<longleftrightarrow> wellformed h \<and> d = wire sdk h"
  by (auto simp: serializeBaseBlockHeader_def and_then_Inr validateBase_iff wire_def)

definition parse :: "header_sdk \<Rightarrow> int list \<Rightarrow> base_header" where
  "parse sdk b = \<lparr>version = sdk_read_le32 sdk (byte_slice 0 4 b), previousHash = sdk_to_hex sdk (rev (byte_slice 4 32 b)),
     merkleRoot = sdk_to_hex sdk (rev (byte_slice 36 32 b)), time = sdk_read_le32 sdk (byte_slice 68 4 b),
     bits = sdk_read_le32 sdk (byte_slice 72 4 b), nonce = sdk_read_le32 sdk (byte_slice 76 4 b)\<rparr>"

lemma slice_slice: "i + m \<le> n \<Longrightarrow> byte_slice i m (byte_slice k n b) = byte_slice (k + i) m b"
  by (simp add: byte_slice_def drop_take add.commute min_def)

lemma slice_bytes: "list_all is_byte b \<Longrightarrow> list_all is_byte (byte_slice k n b)"
  by (auto simp: byte_slice_def list_all_iff dest!: in_set_takeD in_set_dropD)

lemma slice_length: "k + n \<le> length b \<Longrightarrow> length (byte_slice k n b) = n"
  by (simp add: byte_slice_def)

lemma deserialize_parse:
  "deserializeBaseBlockHeader sdk buffer offset = Inr h \<longleftrightarrow>
     validateByteWindow buffer offset 80 ''buffer'' = Inr () \<and> h = parse sdk (byte_slice (nat offset) 80 buffer)"
  by (auto simp: deserializeBaseBlockHeader_def and_then_Inr parse_def Let_def slice_slice)

lemma window_iff: "validateByteWindow buffer offset len nm = Inr () \<longleftrightarrow>
    js_safe offset \<and> 0 \<le> offset \<and> js_safe len \<and> 0 \<le> len \<and> js_safe (offset + len) \<and> offset + len \<le> int (length buffer)
    \<and> list_all is_byte (byte_slice (nat offset) (nat len) buffer)"
  by (auto simp: validateByteWindow_def)

lemma slice_split: "drop k b = byte_slice k n b @ drop (k + n) b"
  by (metis byte_slice_def append_take_drop_id drop_drop add.commute)

lemma slices_80:
  assumes "length b = 80"
  shows "byte_slice 0 4 b @ byte_slice 4 32 b @ byte_slice 36 32 b @ byte_slice 68 4 b @ byte_slice 72 4 b @ byte_slice 76 4 b = b"
  using slice_split [of 0 b 4] slice_split [of 4 b 32] slice_split [of 36 b 32] slice_split [of 68 b 4]
    slice_split [of 72 b 4] slice_split [of 76 b 4] assms by simp

context header_codec
begin

lemma wire_length: "wellformed h \<Longrightarrow> length (wire sdk h) = 80"
  by (simp add: wire_def wellformed_def le32_length of_hex_bytes)

lemma wire_bytes: "wellformed h \<Longrightarrow> list_all is_byte (wire sdk h)"
  using of_hex_bytes by (simp add: wire_def wellformed_def le32_bytes)

lemma wire_slices:
  assumes "wellformed h"
  shows "byte_slice 0 4 (wire sdk h) = sdk_le32 sdk (version h)"
    and "byte_slice 4 32 (wire sdk h) = rev (sdk_of_hex sdk (previousHash h))"
    and "byte_slice 36 32 (wire sdk h) = rev (sdk_of_hex sdk (merkleRoot h))"
    and "byte_slice 68 4 (wire sdk h) = sdk_le32 sdk (time h)"
    and "byte_slice 72 4 (wire sdk h) = sdk_le32 sdk (bits h)"
    and "byte_slice 76 4 (wire sdk h) = sdk_le32 sdk (nonce h)"
proof -
  have "length (sdk_of_hex sdk (previousHash h)) = 32" "length (sdk_of_hex sdk (merkleRoot h)) = 32"
    using assms of_hex_bytes by (simp_all add: wellformed_def)
  then show "byte_slice 0 4 (wire sdk h) = sdk_le32 sdk (version h)"
    and "byte_slice 4 32 (wire sdk h) = rev (sdk_of_hex sdk (previousHash h))"
    and "byte_slice 36 32 (wire sdk h) = rev (sdk_of_hex sdk (merkleRoot h))"
    and "byte_slice 68 4 (wire sdk h) = sdk_le32 sdk (time h)"
    and "byte_slice 72 4 (wire sdk h) = sdk_le32 sdk (bits h)"
    and "byte_slice 76 4 (wire sdk h) = sdk_le32 sdk (nonce h)"
    by (simp_all add: byte_slice_def wire_def le32_length)
qed

lemma parse_wire: "canonical h \<Longrightarrow> parse sdk (wire sdk h) = h"
  by (simp add: parse_def wire_slices canonical_def wellformed_def le32_read to_of_hex)

lemma parse_canonical:
  assumes "length b = 80" "list_all is_byte b"
  shows "canonical (parse sdk b)"
proof -
  have "length (byte_slice k n b) = n \<and> list_all is_byte (byte_slice k n b)" if "k + n \<le> 80" for k n
    using that assms by (simp add: slice_length slice_bytes)
  then show ?thesis
    using read_le32 to_hex_32 [of "rev (byte_slice 4 32 b)"] to_hex_32 [of "rev (byte_slice 36 32 b)"]
    by (simp add: canonical_def wellformed_def parse_def hash_text_hex32)
qed

lemma wire_parse:
  assumes "length b = 80" "list_all is_byte b"
  shows "wire sdk (parse sdk b) = b"
proof -
  have *: "length (byte_slice k n b) = n" "list_all is_byte (byte_slice k n b)" if "k + n \<le> 80" for k n
    using that assms by (simp_all add: slice_length slice_bytes)
  have "wire sdk (parse sdk b) = byte_slice 0 4 b @ byte_slice 4 32 b @ byte_slice 36 32 b @ byte_slice 68 4 b @ byte_slice 72 4 b @ byte_slice 76 4 b"
    by (simp add: wire_def parse_def read_le32 of_to_hex *)
  also have "\<dots> = b"
    using assms(1) by (rule slices_80)
  finally show ?thesis .
qed

lemma block_hash_text: "hash_text (sdk_to_hex sdk (doubleSha256BE sdk a))"
  using sha_bytes by (simp add: to_hex_32 doubleSha256BE_def doubleSha256LE_def)

end

section \<open>Batches of headers\<close>

context header_codec
begin

lemma loop_wires:
  assumes "list_all canonical hs" and "length pre + 80 * length hs \<le> 9000000000000000"
  shows "base_headers_loop sdk (pre @ concat (map (wire sdk) hs)) (int (length pre)) (length hs) = Inr hs"
  using assms
proof (induction hs arbitrary: pre)
  case (Cons h hs)
  have w: "length (wire sdk h) = 80" "list_all is_byte (wire sdk h)"
    using Cons.prems(1) wire_length wire_bytes by (simp_all add: canonical_def)
  have "byte_slice (length pre) 80 (pre @ concat (map (wire sdk) (h # hs))) = wire sdk h"
    using w by (simp add: byte_slice_def)
  then have d: "deserializeBaseBlockHeader sdk (pre @ concat (map (wire sdk) (h # hs))) (int (length pre)) = Inr h"
    using Cons.prems w parse_wire [of h] by (simp add: deserialize_parse window_iff js_safe_def)
  have "base_headers_loop sdk ((pre @ wire sdk h) @ concat (map (wire sdk) hs)) (int (length (pre @ wire sdk h))) (length hs) = Inr hs"
    by (rule Cons.IH) (use Cons.prems w in simp_all)
  then show ?case
    using d w by simp
qed simp

lemma wires_length: "list_all canonical hs \<Longrightarrow> length (concat (map (wire sdk) hs)) = 80 * length hs"
  by (induction hs) (simp_all add: wire_length canonical_def)

lemma serialize_batch:
  assumes "list_all (\<lambda>h. canonical (base_of h)) hs" "int (length hs) \<le> max_header_count"
  shows "serializeBaseBlockHeaders sdk hs = Inr (concat (map (wire sdk) (map base_of hs)))"
proof -
  have "each (\<lambda>h. serializeBaseBlockHeader sdk (base_of h)) hs = Inr (map (\<lambda>h. wire sdk (base_of h)) hs)"
    by (rule each_total) (use assms(1) in \<open>auto simp: list_all_iff serialize_wire canonical_def\<close>)
  then show ?thesis
    using assms(2) by (simp add: serializeBaseBlockHeaders_def comp_def)
qed

lemma deserialize_batch:
  assumes "list_all canonical hs" "int (length hs) \<le> max_header_count"
  shows "deserializeBaseBlockHeaders sdk (concat (map (wire sdk) hs)) 0 None = Inr hs"
  using loop_wires [of hs "[]"] assms wires_length [of hs]
  by (simp add: deserializeBaseBlockHeaders_def js_safe_def Let_def)

end

section \<open>The properties\<close>

lemma whole_window: "length b = 80 \<Longrightarrow> list_all is_byte b \<Longrightarrow> validateByteWindow b 0 80 nm = Inr ()"
  by (simp add: window_iff js_safe_def byte_slice_def)

lemma whole_slice: "length b = 80 \<Longrightarrow> byte_slice 0 80 b = b"
  by (simp add: byte_slice_def)

text \<open>C31. Headers survive the wire in both directions: a batch of well-formed headers whose hashes are in
  lower case is serialized to 80 bytes a header that parse back to the same headers, and any 80 bytes
  parse to a well-formed header that serializes to the same bytes.\<close>

theorem header_wire_roundtrip:
  assumes "header_codec sdk"
  shows "(list_all (\<lambda>h. canonical (base_of h)) hs \<and> int (length hs) \<le> max_header_count \<longrightarrow>
            (\<exists>b. serializeBaseBlockHeaders sdk hs = Inr b \<and> length b = 80 * length hs
            \<and> deserializeBaseBlockHeaders sdk b 0 None = Inr (map base_of hs)))
       \<and> (length b = 80 \<and> list_all is_byte b \<longrightarrow> (\<exists>h. deserializeBaseBlockHeader sdk b 0 = Inr h \<and> canonical h
            \<and> serializeBaseBlockHeader sdk h = Inr b))"
proof -
  have "list_all (\<lambda>h. canonical (base_of h)) hs \<Longrightarrow> list_all canonical (map base_of hs)"
    by (simp add: list_all_iff)
  then show ?thesis
    using header_codec.serialize_batch [OF assms, of hs] header_codec.deserialize_batch [OF assms, of "map base_of hs"]
      header_codec.wires_length [OF assms, of "map base_of hs"] header_codec.parse_canonical [OF assms, of b]
      header_codec.wire_parse [OF assms, of b] whole_window [of b]
    by (auto simp: serialize_wire deserialize_parse whole_slice canonical_def)
qed

definition sample_header :: base_header where
  "sample_header = \<lparr>version = 1, previousHash = replicate 64 CHR ''0'', merkleRoot = replicate 32 CHR ''a'' @ replicate 32 CHR ''7'',
     time = 1231006505, bits = 486604799, nonce = 2083236893\<rparr>"

lemma sample_canonical: "canonical sample_header"
  by (simp add: sample_header_def canonical_def wellformed_def hash_text_def hex32_def list_all_iff js_hex_def
      js_hex_any_def)

theorem header_wire_roundtrip_witness:
  "(\<exists>b. serializeBaseBlockHeaders (own_sdk (\<lambda>_. replicate 32 0)) [sample_header, sample_header] = Inr b \<and> length b = 160
      \<and> deserializeBaseBlockHeaders (own_sdk (\<lambda>_. replicate 32 0)) b 0 None = Inr [sample_header, sample_header])
   \<and> (\<exists>h'. deserializeBaseBlockHeader (own_sdk (\<lambda>_. replicate 32 0)) (replicate 80 7) 0 = Inr h' \<and> canonical h'
      \<and> serializeBaseBlockHeader (own_sdk (\<lambda>_. replicate 32 0)) h' = Inr (replicate 80 7))"
  using header_wire_roundtrip [OF own.header_codec_axioms, of "[sample_header, sample_header]" "replicate 80 7"]
    sample_canonical
  by (simp add: list_all_iff is_byte_def)

text \<open>An upper-case hash passes the format check and is serialized, but does not come back as it was.\<close>

lemma upper_case_hash_lost:
  assumes "header_codec sdk" "wellformed h" "\<not> hash_text (previousHash h)"
  shows "serializeBaseBlockHeader sdk h = Inr (wire sdk h)
    \<and> deserializeBaseBlockHeader sdk (wire sdk h) 0 \<noteq> Inr h"
  using header_codec.parse_canonical [OF assms(1), of "wire sdk h"] assms(2,3)
    header_codec.wire_length [OF assms(1), of h] header_codec.wire_bytes [OF assms(1), of h]
  by (auto simp: serialize_wire deserialize_parse whole_slice canonical_def)

text \<open>C32. The hash a parsed header is given is the hash the format check recomputes: every header that
  comes out of \<open>deserializeBlockHeader\<close> is typed as the code's checks demand (integers in 32 bits, height
  in 31, hashes 64 lower-case hex digits) and passes \<open>validateHeaderFormat\<close>.\<close>

theorem parsed_headers_are_wellformed:
  assumes "header_codec sdk" "deserializeBlockHeader sdk buffer ht offset = Inr h"
  shows "validateHeaderFormat sdk h = Inr () \<and> canonical (base_of h) \<and> hash_text (hash h)
    \<and> height h = ht \<and> 0 \<le> ht \<and> ht \<le> max_block_height"
proof -
  let ?b = "byte_slice (nat offset) 80 buffer"
  obtain base where ht: "0 \<le> ht" "ht \<le> max_block_height" and w: "validateByteWindow buffer offset 80 ''buffer'' = Inr ()"
    and base: "base = parse sdk ?b" and h: "h = with_position base ht (sdk_to_hex sdk (doubleSha256BE sdk ?b))"
    using assms(2) by (auto simp: deserializeBlockHeader_def and_then_Inr deserialize_parse split: if_splits)
  have b: "length ?b = 80" "list_all is_byte ?b"
    using w by (auto simp: window_iff intro!: slice_length)
  have can: "canonical base"
    using header_codec.parse_canonical [OF assms(1) b] by (simp add: base)
  have wire: "wire sdk base = ?b"
    using header_codec.wire_parse [OF assms(1) b] by (simp add: base)
  have ser: "serializeBaseBlockHeader sdk base = Inr ?b"
    using can by (simp add: serialize_wire wire canonical_def)
  have hh: "hash_text (hash h)"
    using header_codec.block_hash_text [OF assms(1)] by (simp add: h)
  have fmt: "validateBaseBlockHeaderFormat base = Inr ()"
    using can by (simp add: validateBase_iff canonical_def)
  have "blockHash sdk base = Inr (hash h)"
    by (simp add: blockHash_def ser blockHash_bytes_def b h)
  then have "validateHeaderFormat sdk h = Inr ()"
    using fmt ht hash_text_hex32 [OF hh]
    by (simp add: validateHeaderFormat_def h validateUnsignedHeaderInteger_def)
  then show ?thesis
    using can hh ht by (simp add: h)
qed

theorem parsed_headers_are_wellformed_witness:
  "\<exists>h. deserializeBlockHeader (own_sdk (\<lambda>_. replicate 32 0)) (replicate 90 7) 700000 10 = Inr h
     \<and> validateHeaderFormat (own_sdk (\<lambda>_. replicate 32 0)) h = Inr () \<and> canonical (base_of h) \<and> hash_text (hash h)
     \<and> height h = 700000"
proof -
  have "validateByteWindow (replicate 90 7) 10 80 ''buffer'' = Inr ()"
    by (simp add: window_iff js_safe_def byte_slice_def list_all_iff is_byte_def)
  then have "\<exists>h. deserializeBlockHeader (own_sdk (\<lambda>_. replicate 32 0)) (replicate 90 7) 700000 10 = Inr h"
    by (simp add: deserializeBlockHeader_def js_safe_def deserializeBaseBlockHeader_def Let_def)
  then show ?thesis
    using parsed_headers_are_wellformed [OF own.header_codec_axioms] by blast
qed

end
