(* ===== verification/Header_Work.thy ===== *)
theory Header_Work
  imports Block_Header
begin

text \<open>
  Targets, work and proof of work of \<open>util/blockHeaderUtilities.ts\<close>, with \<open>util/dirtyHashes.ts\<close>, the
  genesis headers and the check of a buffer of consecutive headers. Work is kept as the code keeps it, a
  text of 64 hexadecimal digits; the SDK's \<open>BigNumber\<close> is an integer, read from and printed in radix 16.
\<close>

section \<open>Numbers in radix 16\<close>

definition hex_nat :: "string \<Rightarrow> nat" where
  "hex_nat s = foldl (\<lambda>a c. 16 * a + hex_digit_val c) 0 s"

text \<open>\<open>toString(16)\<close> and \<open>padStart(64, '0')\<close>.\<close>

fun hex_digits :: "nat \<Rightarrow> string" where
  "hex_digits n = (if n < 16 then [hex_char n] else hex_digits (n div 16) @ [hex_char (n mod 16)])"

declare hex_digits.simps [simp del]

definition padStart64 :: "string \<Rightarrow> string" where
  "padStart64 s = replicate (64 - length s) CHR ''0'' @ s"

lemma hex_nat_snoc: "hex_nat (s @ [c]) = 16 * hex_nat s + hex_digit_val c"
  by (simp add: hex_nat_def)

lemma hex_nat_digits [simp]: "hex_nat (hex_digits n) = n"
proof (induction n rule: hex_digits.induct)
  case (1 n)
  show ?case
  proof (cases "n < 16")
    case True
    then show ?thesis by (simp add: hex_digits.simps [of n] hex_nat_def)
  next
    case False
    then show ?thesis using 1 by (simp add: hex_digits.simps [of n] hex_nat_snoc)
  qed
qed

lemma hex_digits_hex: "list_all js_hex (hex_digits n)"
proof (induction n rule: hex_digits.induct)
  case (1 n)
  then show ?case
    by (cases "n < 16") (simp_all add: hex_digits.simps [of n] hex_digit_hex)
qed

lemma hex_digits_length: "0 < k \<Longrightarrow> length (hex_digits n) \<le> k \<longleftrightarrow> n < 16 ^ k"
proof (induction n arbitrary: k rule: hex_digits.induct)
  case (1 n)
  show ?case
  proof (cases "n < 16")
    case True
    then show ?thesis
      using 1(2) by (cases k) (simp_all add: hex_digits.simps [of n], metis One_nat_def Suc_leI
          less_le_trans mult.right_neutral mult_le_mono2 nat_zero_less_power_iff zero_less_numeral)
  next
    case False
    show ?thesis
    proof (cases "k = 1")
      case True
      have "hex_digits (n div 16) \<noteq> []" by (subst hex_digits.simps) simp
      then show ?thesis using False True by (simp add: hex_digits.simps [of n])
    next
      case False2: False
      then obtain j where j: "k = Suc j" "0 < j" using 1(2) by (cases k) auto
      have "length (hex_digits (n div 16)) \<le> j \<longleftrightarrow> n div 16 < 16 ^ j"
        using "1.IH" [OF False j(2)] by simp
      also have "\<dots> \<longleftrightarrow> n < 16 ^ k"
        by (simp add: j div_less_iff_less_mult mult.commute)
      finally show ?thesis
        using False by (simp add: hex_digits.simps [of n] j)
    qed
  qed
qed

lemma hex_nat_zeros: "hex_nat (replicate k CHR ''0'' @ s) = hex_nat s"
  by (induction k) (simp_all add: hex_nat_def hex_digit_val_def)

lemma hex_nat_pad [simp]: "hex_nat (padStart64 s) = hex_nat s"
  by (simp add: padStart64_def hex_nat_zeros)

lemma hex_nat_lt: "hex_nat s < 16 ^ length s"
proof (induction s rule: rev_induct)
  case (snoc c s)
  then show ?case using hex_digit_val_lt [of c] by (simp add: hex_nat_snoc)
qed (simp add: hex_nat_def)

lemma pad_hash_text: "n < 2 ^ 256 \<Longrightarrow> hash_text (padStart64 (hex_digits n))"
proof -
  assume "n < 2 ^ 256"
  then have "length (hex_digits n) \<le> 64"
    by (simp add: hex_digits_length)
  then show ?thesis
    using hex_digits_hex [of n] by (auto simp: padStart64_def hash_text_def list_all_iff js_hex_def)
qed

section \<open>Work\<close>

definition validateWork :: "string \<Rightarrow> string \<Rightarrow> chain_error + int" where
  "validateWork value nm = and_then (ensure (hex32 value) (InvalidParameter nm)) (\<lambda>_. Inr (int (hex_nat value)))"

text \<open>The text of a negative number starts with a minus sign and is refused.\<close>

definition workBNtoBuffer :: "int \<Rightarrow> chain_error + string" where
  "workBNtoBuffer work =
     and_then (ensure (0 \<le> work \<and> length (hex_digits (nat work)) \<le> 64) (InvalidParameter ''work''))
     (\<lambda>_. Inr (padStart64 (js_lower (hex_digits (nat work)))))"

definition isMoreWork :: "string \<Rightarrow> string \<Rightarrow> chain_error + bool" where
  "isMoreWork work1 work2 =
     and_then (validateWork work1 ''work1'') (\<lambda>a. and_then (validateWork work2 ''work2'') (\<lambda>b. Inr (a > b)))"

definition addWork :: "string \<Rightarrow> string \<Rightarrow> chain_error + string" where
  "addWork work1 work2 =
     and_then (validateWork work1 ''work1'') (\<lambda>a. and_then (validateWork work2 ''work2'') (\<lambda>b. workBNtoBuffer (a + b)))"

definition subWork :: "string \<Rightarrow> string \<Rightarrow> chain_error + string" where
  "subWork work1 work2 =
     and_then (validateWork work1 ''work1'') (\<lambda>a. and_then (validateWork work2 ''work2'') (\<lambda>b.
     and_then (ensure (\<not> a < b) (InvalidParameter ''work1/work2'')) (\<lambda>_. workBNtoBuffer (a - b))))"

section \<open>Targets\<close>

definition convertBitsToTarget :: "int \<Rightarrow> chain_error + int" where
  "convertBitsToTarget b =
     and_then (validateUnsignedHeaderInteger b ''bits'' uint32_max) (\<lambda>_.
       let shift = nat (js_and (js_sar b 24) 255); data = js_and b 8388607 in
       Inr (if shift \<le> 3 then drop_bit (8 * (3 - shift)) data else push_bit (8 * (shift - 3)) data))"

text \<open>The call with the four bytes of a header.\<close>

definition readCompactBits :: "int list \<Rightarrow> chain_error + int" where
  "readCompactBits bs =
     and_then (ensure (length bs = 4) (InvalidParameter ''bits'')) (\<lambda>_.
     and_then (validateByteWindow bs 0 4 ''bits'') (\<lambda>_. readUInt32LE bs 0))"

definition convertBitsToTarget_bytes :: "int list \<Rightarrow> chain_error + int" where
  "convertBitsToTarget_bytes bs = and_then (readCompactBits bs) convertBitsToTarget"

definition validateCompactTarget :: "int \<Rightarrow> chain_error + int" where
  "validateCompactTarget b =
     and_then (ensure (js_safe b \<and> 0 \<le> b \<and> b \<le> uint32_max) (JsError ''Block target encoding is invalid.'')) (\<lambda>_.
       let sz = js_shr b 24; word = js_and b 8388607;
           negative = (word \<noteq> 0 \<and> js_and b 8388608 \<noteq> 0);
           overflow = (word \<noteq> 0 \<and> (sz > 34 \<or> (word > 255 \<and> sz > 33) \<or> (word > 65535 \<and> sz > 32))) in
       and_then (ensure (\<not> (word = 0 \<or> negative \<or> overflow)) (JsError ''Block target encoding is invalid.'')) (\<lambda>_.
       and_then (convertBitsToTarget b) (\<lambda>target.
       and_then (convertBitsToTarget 486604799) (\<lambda>proofOfWorkLimit.
       and_then (ensure (\<not> target > proofOfWorkLimit) (JsError ''Block target exceeds the proof-of-work limit.''))
       (\<lambda>_. Inr target)))))"

text \<open>\<open>notn(256)\<close> of a number below \<open>2 ^ 256\<close>; targets within the limit are.\<close>

definition notn256 :: "int \<Rightarrow> int" where
  "notn256 t = 2 ^ 256 - 1 - t"

definition convertBitsToWork :: "int \<Rightarrow> chain_error + string" where
  "convertBitsToWork b =
     and_then (validateCompactTarget b) (\<lambda>target.
       let work = notn256 target div (target + 1) + 1 in
       Inr (padStart64 (hex_digits (nat work))))"

definition convertBitsToWork_bytes :: "int list \<Rightarrow> chain_error + string" where
  "convertBitsToWork_bytes bs = and_then (readCompactBits bs) convertBitsToWork"

section \<open>Proof of work\<close>

text \<open>\<open>new BigNumber(bytes)\<close>: big-endian.\<close>

definition bytes_val :: "int list \<Rightarrow> int" where
  "bytes_val bs = foldl (\<lambda>a b. 256 * a + b) 0 bs"

definition validateHeaderDifficulty :: "int list \<Rightarrow> int \<Rightarrow> chain_error + bool" where
  "validateHeaderDifficulty h b =
     and_then (validateByteWindow h 0 (int (length h)) ''hash'') (\<lambda>_.
     and_then (ensure (length h = 32) (InvalidParameter ''hash'')) (\<lambda>_.
     and_then (validateCompactTarget b) (\<lambda>target.
     and_then (ensure (bytes_val h \<le> target) (JsError ''Block hash is not less than specified target.'')) (\<lambda>_. Inr True))))"

definition proofOfWorkExceptions :: "string \<Rightarrow> int option" where
  "proofOfWorkExceptions =
     [''6b38bdbcd73a19f7889d23e1fa6166a9de71affceca60ca3bb1b28af8135c594'' \<mapsto> 486604799]"

definition validateConsensusProofOfWork :: "header_sdk \<Rightarrow> string \<Rightarrow> int \<Rightarrow> chain_error + unit" where
  "validateConsensusProofOfWork sdk h b =
     (if proofOfWorkExceptions h = Some b then Inr ()
      else and_then (validateHeaderDifficulty (sdk_of_hex sdk h) b) (\<lambda>_. Inr ()))"

definition validateHeaderProofOfWork :: "header_sdk \<Rightarrow> 'a block_header_scheme \<Rightarrow> chain_error + bool" where
  "validateHeaderProofOfWork sdk h = and_then (validateConsensusProofOfWork sdk (hash h) (bits h)) (\<lambda>_. Inr True)"

definition dirtyHashes :: "(string \<times> string) list" where
  "dirtyHashes =
    [(''00000000000000000019f112ec0a9982926f1258cdcc558dd7c3b7e5dc7fa148'',
      ''This is the first header of the invalid SegWit chain.''),
     (''0000000000000000004626ff6e3b936941d341c5932ece4357eeccac44e6d56c'',
      ''This is the first header of the invalid ABC chain.'')]"

definition validateAgainstDirtyHashes :: "string \<Rightarrow> chain_error + unit" where
  "validateAgainstDirtyHashes h =
     (case map_of dirtyHashes h of
        Some reason \<Rightarrow> Inl (JsError (''Not adding a header with a dirty hash: '' @ reason))
      | None \<Rightarrow> Inr ())"

section \<open>What the work texts stand for\<close>

text \<open>The text of a number of at most 256 bits; 64-digit lower-case texts and these numbers correspond.\<close>

definition work_text :: "nat \<Rightarrow> string" where
  "work_text n = padStart64 (hex_digits n)"

lemma work_text_val [simp]: "hex_nat (work_text n) = n"
  by (simp add: work_text_def)

lemma work_text_ok: "n < 2 ^ 256 \<Longrightarrow> hash_text (work_text n)"
  by (simp add: work_text_def pad_hash_text)

lemma work_text_hex32: "n < 2 ^ 256 \<Longrightarrow> hex32 (work_text n)"
  by (rule hash_text_hex32) (rule work_text_ok)

lemma hex_nat_snoc_eq:
  assumes "hex_nat (s @ [c]) = hex_nat (u @ [d])"
  shows "hex_nat s = hex_nat u \<and> hex_digit_val c = hex_digit_val d"
proof -
  have v: "16 * hex_nat s + hex_digit_val c = 16 * hex_nat u + hex_digit_val d"
    using assms by (simp only: hex_nat_snoc)
  have "(16 * hex_nat s + hex_digit_val c) div 16 = hex_nat s"
    "(16 * hex_nat u + hex_digit_val d) div 16 = hex_nat u"
    using hex_digit_val_lt [of c] hex_digit_val_lt [of d] by simp_all
  then have "hex_nat s = hex_nat u"
    using v by metis
  then show ?thesis using v by simp
qed

lemma hex_nat_inj:
  assumes "length s = length t" "list_all js_hex s" "list_all js_hex t" "hex_nat s = hex_nat t"
  shows "s = t"
  using assms
proof (induction s arbitrary: t rule: rev_induct)
  case (snoc c s)
  then obtain d u where t: "t = u @ [d]" by (cases t rule: rev_cases) auto
  have v: "hex_nat s = hex_nat u" "hex_digit_val c = hex_digit_val d"
    using hex_nat_snoc_eq [of s c u d] snoc.prems(4) by (simp_all add: t)
  have "s = u"
    by (rule snoc.IH) (use snoc.prems v in \<open>simp_all add: t\<close>)
  moreover have "c = d"
  proof -
    have "js_hex c" "js_hex d" using snoc.prems by (simp_all add: t)
    then show ?thesis using v(2) by (metis hex_digit_of_val)
  qed
  ultimately show ?case by (simp add: t)
qed simp

lemma pow_16_64: "(16::nat) ^ 64 = 2 ^ 256"
  by simp

lemma hex32_val: "hex32 s \<Longrightarrow> hex_nat s < 2 ^ 256"
  using hex_nat_lt [of s] unfolding hex32_def by (metis pow_16_64)

lemma hex_nat_hash_text: "hash_text s \<Longrightarrow> hex_nat s < 2 ^ 256"
  by (rule hex32_val) (rule hash_text_hex32)

lemma work_text_of_val: "hash_text s \<Longrightarrow> work_text (hex_nat s) = s"
  using work_text_ok [OF hex_nat_hash_text, of s]
  by (intro hex_nat_inj) (simp_all add: hash_text_def)

lemma validateWork_Inr: "validateWork s nm = Inr v \<longleftrightarrow> hex32 s \<and> v = int (hex_nat s)"
  by (auto simp: validateWork_def)

lemma js_lower_hex_digits: "js_lower (hex_digits n) = hex_digits n"
  using hex_digits_hex [of n] by (auto simp: js_lower_def list_all_iff js_hex_lower intro: map_idI)

lemma workBNtoBuffer_Inr: "workBNtoBuffer v = Inr s \<longleftrightarrow> 0 \<le> v \<and> v < 2 ^ 256 \<and> s = work_text (nat v)"
proof -
  have "(16::nat) ^ 64 = 2 ^ 256"
    by (rule pow_16_64)
  then have "length (hex_digits (nat v)) \<le> 64 \<longleftrightarrow> nat v < 2 ^ 256"
    by (simp add: hex_digits_length)
  then show ?thesis
    by (auto simp: workBNtoBuffer_def work_text_def js_lower_hex_digits)
qed

lemma isMoreWork_Inr: "isMoreWork a b = Inr r \<longleftrightarrow> hex32 a \<and> hex32 b \<and> r = (hex_nat a > hex_nat b)"
  by (auto simp: isMoreWork_def and_then_Inr validateWork_Inr)

lemma addWork_Inr: "addWork a b = Inr s \<longleftrightarrow>
    hex32 a \<and> hex32 b \<and> hex_nat a + hex_nat b < 2 ^ 256 \<and> s = work_text (hex_nat a + hex_nat b)"
proof -
  have "nat (int (hex_nat a) + int (hex_nat b)) = hex_nat a + hex_nat b" by simp
  moreover have "int (hex_nat a) + int (hex_nat b) < 2 ^ 256 \<longleftrightarrow> hex_nat a + hex_nat b < 2 ^ 256"
    by (simp flip: of_nat_add)
  ultimately show ?thesis
    by (auto simp: addWork_def and_then_Inr validateWork_Inr workBNtoBuffer_Inr)
qed

lemma subWork_Inr: "subWork a b = Inr s \<longleftrightarrow>
    hex32 a \<and> hex32 b \<and> hex_nat b \<le> hex_nat a \<and> hex_nat a - hex_nat b < 2 ^ 256 \<and> s = work_text (hex_nat a - hex_nat b)"
proof -
  have "nat (int (hex_nat a) - int (hex_nat b)) = hex_nat a - hex_nat b" by simp
  moreover have "hex_nat b \<le> hex_nat a \<Longrightarrow>
      int (hex_nat a) - int (hex_nat b) < 2 ^ 256 \<longleftrightarrow> hex_nat a - hex_nat b < 2 ^ 256"
    by (simp flip: of_nat_diff)
  ultimately show ?thesis
    by (auto simp: subWork_def and_then_Inr validateWork_Inr workBNtoBuffer_Inr)
qed

text \<open>Work texts are added, subtracted and compared as the numbers they stand for: a result is the exact
  256-bit number in 64 lower-case digits, and the operation is refused exactly when an operand is not
  32 hexadecimal bytes, the sum needs more than 256 bits, or the difference is negative.\<close>

theorem work_arithmetic_exact:
  "(addWork a b = Inr s \<longleftrightarrow> hex32 a \<and> hex32 b \<and> hash_text s \<and> hex_nat s = hex_nat a + hex_nat b)
   \<and> (subWork a b = Inr s \<longleftrightarrow> hex32 a \<and> hex32 b \<and> hash_text s \<and> hex_nat a = hex_nat s + hex_nat b)
   \<and> (isMoreWork a b = Inr r \<longleftrightarrow> hex32 a \<and> hex32 b \<and> r = (hex_nat a > hex_nat b))"
proof (intro conjI)
  show "addWork a b = Inr s \<longleftrightarrow> hex32 a \<and> hex32 b \<and> hash_text s \<and> hex_nat s = hex_nat a + hex_nat b"
    using work_text_ok [of "hex_nat s"] work_text_of_val [of s] hex_nat_hash_text [of s]
    by (auto simp: addWork_Inr work_text_ok)
  have "hex_nat a - hex_nat b < 2 ^ 256" if "hex32 a"
    using hex32_val [OF that] by (rule less_imp_diff_less)
  then show "subWork a b = Inr s \<longleftrightarrow> hex32 a \<and> hex32 b \<and> hash_text s \<and> hex_nat a = hex_nat s + hex_nat b"
    using work_text_of_val [of s] hex_nat_hash_text [of s]
    by (auto simp: subWork_Inr work_text_ok)
qed (simp add: isMoreWork_Inr)

section \<open>Targets and their work\<close>

text \<open>The compact encoding: a size in bytes in the top byte and 23 bits of mantissa.\<close>

definition compact_target :: "int \<Rightarrow> int" where
  "compact_target b = (let sz = nat (b div 2 ^ 24); w = b mod 2 ^ 23 in
     if sz \<le> 3 then w div 256 ^ (3 - sz) else w * 256 ^ (sz - 3))"

abbreviation pow_limit :: int where
  "pow_limit \<equiv> 65535 * 2 ^ 208"

lemma mantissa: "js_and b 8388607 = b mod 2 ^ 23"
  using js_and_mask [of 23 b] by (simp add: mask_eq_exp_minus_1 take_bit_eq_mod)

lemma size_byte:
  assumes "0 \<le> b" "b \<le> uint32_max"
  shows "js_and (js_sar b 24) 255 = b div 2 ^ 24" and "js_shr b 24 = b div 2 ^ 24"
proof -
  have "b div 2 ^ 24 \<le> uint32_max div 2 ^ 24"
    using assms(2) by (rule zdiv_mono1) simp
  then have "take_bit 8 (drop_bit 24 b) = drop_bit 24 b"
    using assms by (simp add: take_bit_int_eq_self_iff drop_bit_eq_div pos_imp_zdiv_nonneg_iff)
  then show "js_and (js_sar b 24) 255 = b div 2 ^ 24"
    using js_sar_byte [of 24 b] by (simp add: mask_eq_exp_minus_1 drop_bit_eq_div)
  show "js_shr b 24 = b div 2 ^ 24"
    using u32_range [OF assms] by (simp add: js_shr_eq drop_bit_eq_div)
qed

lemma pow_256: "(256::int) ^ k = 2 ^ (8 * k)"
  by (simp add: power_mult)

lemma convertBitsToTarget_Inr:
  "convertBitsToTarget b = Inr t \<longleftrightarrow> 0 \<le> b \<and> b \<le> uint32_max \<and> t = compact_target b"
proof (cases "0 \<le> b \<and> b \<le> uint32_max")
  case True
  then show ?thesis
    using size_byte [of b]
    by (auto simp: convertBitsToTarget_def validateUnsignedHeaderInteger_def Let_def mantissa compact_target_def
        drop_bit_eq_div push_bit_eq_mult pow_256)
qed (auto simp: convertBitsToTarget_def validateUnsignedHeaderInteger_def)

lemma compact_target_limit: "compact_target 486604799 = pow_limit"
  by (simp add: compact_target_def)

lemma compact_target_nonneg: "0 \<le> compact_target b"
  by (simp add: compact_target_def Let_def pos_imp_zdiv_nonneg_iff)

lemma sign_bit: "js_and b 8388608 \<noteq> 0 \<longleftrightarrow> bit b 23"
  using js_and_bit [of 23 b] by simp

lemma validateCompactTarget_Inr:
  "validateCompactTarget b = Inr t \<Longrightarrow> 0 \<le> b \<and> b \<le> uint32_max \<and> t = compact_target b \<and> 0 \<le> t \<and> t \<le> pow_limit
     \<and> b mod 2 ^ 23 \<noteq> 0 \<and> \<not> bit b 23"
  using sign_bit [of b]
  by (auto simp: validateCompactTarget_def and_then_Inr convertBitsToTarget_Inr compact_target_limit Let_def
      compact_target_nonneg mantissa simp del: power_numeral split: if_splits)

text \<open>\<open>~target / (target + 1) + 1\<close> is the expected number of hashes, \<open>2 ^ 256 / (target + 1)\<close>.\<close>

lemma notn_div: "0 \<le> t \<Longrightarrow> notn256 t div (t + 1) + 1 = 2 ^ 256 div (t + 1)"
proof -
  assume t: "0 \<le> t"
  have "2 ^ 256 = notn256 t + 1 * (t + 1)"
    by (simp add: notn256_def)
  then have "2 ^ 256 div (t + 1) = (notn256 t + 1 * (t + 1)) div (t + 1)"
    by (rule arg_cong)
  also have "\<dots> = 1 + notn256 t div (t + 1)"
    using t by (intro div_mult_self1) simp
  finally show ?thesis by simp
qed

lemma convertBitsToWork_Inr:
  "convertBitsToWork b = Inr w \<longleftrightarrow>
     (\<exists>t. validateCompactTarget b = Inr t \<and> w = padStart64 (hex_digits (nat (2 ^ 256 div (t + 1)))))"
  using validateCompactTarget_Inr [of b]
  by (auto simp: convertBitsToWork_def and_then_Inr Let_def notn_div simp del: power_numeral)

lemma block_work_lt: "1 \<le> t \<Longrightarrow> nat (2 ^ 256 div (t + 1)) < 2 ^ 256"
proof -
  assume t: "1 \<le> t"
  have "(2::int) ^ 256 div (t + 1) < 2 ^ 256"
    using t by (intro int_div_less_self) simp_all
  then show ?thesis
    by (simp add: nat_less_iff del: power_numeral)
qed

lemma length_top: "length (hex_digits (2 ^ 256)) = 65"
proof -
  have "length (hex_digits (2 ^ 256)) \<le> 65 \<longleftrightarrow> (2::nat) ^ 256 < 16 ^ 65"
    by (rule hex_digits_length) simp
  moreover have "length (hex_digits (2 ^ 256)) \<le> 64 \<longleftrightarrow> (2::nat) ^ 256 < 16 ^ 64"
    by (rule hex_digits_length) simp
  ultimately show ?thesis by simp
qed

text \<open>The work of a header is exact: \<open>convertBitsToWork\<close> refuses what the target check refuses, and
  otherwise returns the number \<open>2 ^ 256 div (target + 1)\<close> for the target the compact bits encode, which lies
  between 0 and the proof-of-work limit. The text has the 64 digits every other routine expects unless the
  mantissa is shifted out entirely (target 0), and then it has 65.\<close>

theorem work_of_bits_exact:
  "case convertBitsToWork b of
     Inl e \<Rightarrow> validateCompactTarget b = Inl e
   | Inr w \<Rightarrow> 0 \<le> b \<and> b \<le> uint32_max \<and> 0 \<le> compact_target b \<and> compact_target b \<le> pow_limit
       \<and> int (hex_nat w) = 2 ^ 256 div (compact_target b + 1)
       \<and> (if compact_target b = 0 then length w = 65 else hash_text w)"
proof (cases "validateCompactTarget b")
  case (Inl e)
  then show ?thesis by (simp add: convertBitsToWork_def)
next
  case (Inr t)
  note t = validateCompactTarget_Inr [OF Inr]
  have w: "convertBitsToWork b = Inr (padStart64 (hex_digits (nat (2 ^ 256 div (t + 1)))))"
    using Inr by (simp only: convertBitsToWork_Inr) blast
  have nn: "0 \<le> (2::int) ^ 256 div (t + 1)"
    using t by (simp add: pos_imp_zdiv_nonneg_iff del: power_numeral)
  show ?thesis
  proof (cases "t = 0")
    case True
    have "length (padStart64 (hex_digits (2 ^ 256))) = 65"
      unfolding padStart64_def by (simp add: length_top del: power_numeral)
    then show ?thesis
      using t True w by (simp add: nat_power_eq del: power_numeral)
  next
    case False
    then have "hash_text (padStart64 (hex_digits (nat (2 ^ 256 div (t + 1)))))"
      using t by (intro pad_hash_text block_work_lt) simp
    then show ?thesis
      using t False w nn by (simp del: power_numeral)
  qed
qed

text \<open>A mantissa shifted out entirely passes the target check; its work text has 65 digits, which no other
  routine accepts.\<close>

lemma zero_target_accepted: "validateCompactTarget 16790614 = Inr 0"
  using size_byte [of 16790614] size_byte [of 486604799] sign_bit [of 16790614]
  by (simp add: validateCompactTarget_def js_safe_def Let_def mantissa convertBitsToTarget_def
      validateUnsignedHeaderInteger_def drop_bit_eq_div bit_iff_odd push_bit_eq_mult)

lemma zero_target_work: "\<exists>w. convertBitsToWork 16790614 = Inr w \<and> length w = 65"
proof -
  have "length (padStart64 (hex_digits (2 ^ 256))) = 65"
    unfolding padStart64_def by (simp add: length_top del: power_numeral)
  then show ?thesis
    using zero_target_accepted by (simp add: convertBitsToWork_Inr nat_power_eq del: power_numeral)
qed

section \<open>Checking headers\<close>

lemma validateHeaderDifficulty_Inr:
  "validateHeaderDifficulty h b = Inr r \<longleftrightarrow> r \<and> length h = 32 \<and> list_all is_byte h
     \<and> (\<exists>t. validateCompactTarget b = Inr t \<and> bytes_val h \<le> t)"
  by (auto simp: validateHeaderDifficulty_def and_then_Inr window_iff byte_slice_def js_safe_def split: if_splits)

text \<open>The loop of \<open>validateBufferOfHeaders\<close>: \<open>room\<close> headers are left, from \<open>headerStart\<close>.\<close>

fun buffer_loop :: "header_sdk \<Rightarrow> int list \<Rightarrow> int \<Rightarrow> nat \<Rightarrow> string \<Rightarrow> string option
    \<Rightarrow> chain_error + string \<times> string option" where
  "buffer_loop sdk buffer headerStart 0 lastHeaderHash lastChainWork = Inr (lastHeaderHash, lastChainWork)"
| "buffer_loop sdk buffer headerStart (Suc room) lastHeaderHash lastChainWork =
     and_then (ensure (headerStart + 80 \<le> int (length buffer)) (InvalidParameter ''buffer'')) (\<lambda>_.
     let header = byte_slice (nat headerStart) 80 buffer in
     and_then (deserializeBaseBlockHeader sdk header 0) (\<lambda>h.
     let hashPrev = sdk_to_hex sdk (rev (byte_slice 4 32 header)) in
     and_then (ensure (lastHeaderHash = hashPrev) (JsError ''invalid previousHash'')) (\<lambda>_.
     let hsh = sdk_to_hex sdk (doubleSha256BE sdk header) in
     and_then (validateAgainstDirtyHashes hsh) (\<lambda>_.
     and_then (validateConsensusProofOfWork sdk hsh (bits h)) (\<lambda>_.
     and_then (case lastChainWork of
         Some w \<Rightarrow> and_then (convertBitsToWork (bits h)) (\<lambda>bw. and_then (addWork w bw) (\<lambda>s. Inr (Some s)))
       | None \<Rightarrow> Inr None) (\<lambda>work.
     buffer_loop sdk buffer (headerStart + 80) room hsh work))))))"

definition validateBufferOfHeaders :: "header_sdk \<Rightarrow> int list \<Rightarrow> string \<Rightarrow> int \<Rightarrow> int \<Rightarrow> string option
    \<Rightarrow> chain_error + string \<times> string option" where
  "validateBufferOfHeaders sdk buffer prevHash offset count previousChainWork =
     and_then (ensure (js_safe offset \<and> 0 \<le> offset \<and> offset \<le> int (length buffer)) (InvalidParameter ''offset'')) (\<lambda>_.
     and_then (ensure (js_safe count \<and> - 1 \<le> count \<and> count \<le> max_header_count) (InvalidParameter ''count'')) (\<lambda>_.
     and_then (if count < 0
       then and_then (ensure ((int (length buffer) - offset) mod 80 = 0) (InvalidParameter ''buffer''))
              (\<lambda>_. Inr ((int (length buffer) - offset) div 80))
       else Inr count) (\<lambda>n.
     and_then (ensure (n \<le> max_header_count \<and> offset + n * 80 \<le> int (length buffer)) (InvalidParameter ''buffer'')) (\<lambda>_.
     and_then (ensure (hex32 prevHash) (InvalidParameter ''previousHash'')) (\<lambda>_.
     and_then (case previousChainWork of
         Some w \<Rightarrow> and_then (validateWork w ''previousChainWork'') (\<lambda>_. Inr (Some (js_lower w)))
       | None \<Rightarrow> Inr None) (\<lambda>work.
     buffer_loop sdk buffer offset (nat n) (js_lower prevHash) work))))))"

section \<open>A checked buffer is a chain\<close>

text \<open>The 80-byte pieces of a buffer, what each must satisfy, and how consecutive ones are linked.\<close>

fun pieces :: "nat \<Rightarrow> nat \<Rightarrow> int list \<Rightarrow> int list list" where
  "pieces k 0 b = []"
| "pieces k (Suc n) b = byte_slice k 80 b # pieces (k + 80) n b"

definition piece_hash :: "header_sdk \<Rightarrow> int list \<Rightarrow> string" where
  "piece_hash sdk c = sdk_to_hex sdk (doubleSha256BE sdk c)"

definition block_work :: "int \<Rightarrow> nat" where
  "block_work b = nat (2 ^ 256 div (compact_target b + 1))"

definition piece_ok :: "header_sdk \<Rightarrow> int list \<Rightarrow> bool" where
  "piece_ok sdk c = (validateAgainstDirtyHashes (piece_hash sdk c) = Inr ()
     \<and> validateConsensusProofOfWork sdk (piece_hash sdk c) (bits (parse sdk c)) = Inr ())"

definition linked_from :: "header_sdk \<Rightarrow> string \<Rightarrow> int list list \<Rightarrow> bool" where
  "linked_from sdk prev cs = (\<forall>i < length cs.
     previousHash (parse sdk (cs ! i)) = (if i = 0 then prev else piece_hash sdk (cs ! (i - 1))))"

lemma pieces_length [simp]: "length (pieces k n b) = n"
  by (induction n arbitrary: k) auto

lemma pieces_Nil_iff [simp]: "pieces k n b = [] \<longleftrightarrow> n = 0"
  by (cases n) auto

lemma linked_from_Nil [simp]: "linked_from sdk prev []"
  by (simp add: linked_from_def)

lemma linked_from_Cons [simp]:
  "linked_from sdk prev (c # cs) \<longleftrightarrow> previousHash (parse sdk c) = prev \<and> linked_from sdk (piece_hash sdk c) cs"
proof
  assume l: "linked_from sdk prev (c # cs)"
  then have a: "previousHash (parse sdk ((c # cs) ! i))
      = (if i = 0 then prev else piece_hash sdk ((c # cs) ! (i - 1)))" if "i < Suc (length cs)" for i
    using that by (simp add: linked_from_def)
  have "previousHash (parse sdk (cs ! i)) = (if i = 0 then piece_hash sdk c else piece_hash sdk (cs ! (i - 1)))"
    if "i < length cs" for i
    using a [of "Suc i"] that by (cases i) auto
  then show "previousHash (parse sdk c) = prev \<and> linked_from sdk (piece_hash sdk c) cs"
    using a [of 0] by (simp add: linked_from_def)
next
  assume r: "previousHash (parse sdk c) = prev \<and> linked_from sdk (piece_hash sdk c) cs"
  show "linked_from sdk prev (c # cs)"
    unfolding linked_from_def
  proof (intro allI impI)
    fix i assume "i < length (c # cs)"
    then show "previousHash (parse sdk ((c # cs) ! i)) = (if i = 0 then prev else piece_hash sdk ((c # cs) ! (i - 1)))"
      using r by (cases i) (auto simp: linked_from_def nth_Cons')
  qed
qed

definition work_sum :: "header_sdk \<Rightarrow> int list list \<Rightarrow> nat" where
  "work_sum sdk cs = sum_list (map (\<lambda>c. block_work (bits (parse sdk c))) cs)"

text \<open>The running total after the pieces: kept as it is when there are none, else the exact sum.\<close>

definition work_after :: "header_sdk \<Rightarrow> int list list \<Rightarrow> string option \<Rightarrow> string option \<Rightarrow> bool" where
  "work_after sdk cs w w' = (case w of
      None \<Rightarrow> w' = None
    | Some a \<Rightarrow> hex_nat a + work_sum sdk cs < 2 ^ 256
        \<and> w' = Some (if cs = [] then a else work_text (hex_nat a + work_sum sdk cs)))"

lemma block_work_of_target: "validateCompactTarget b = Inr t \<Longrightarrow>
    convertBitsToWork b = Inr (padStart64 (hex_digits (block_work b))) \<and> 0 < block_work b"
proof -
  assume v: "validateCompactTarget b = Inr t"
  note t = validateCompactTarget_Inr [OF v]
  have "t + 1 \<le> 2 ^ 256" using t by simp
  then have "1 \<le> (2::int) ^ 256 div (t + 1)"
    using t by (simp add: pos_imp_zdiv_pos_iff int_one_le_iff_zero_less del: power_numeral)
  then show ?thesis
    using v t by (auto simp: convertBitsToWork_Inr block_work_def simp del: power_numeral)
qed

lemma piece_ok_target: "piece_ok sdk c \<Longrightarrow> \<exists>t. validateCompactTarget (bits (parse sdk c)) = Inr t"
proof -
  have "validateCompactTarget 486604799 = Inr pow_limit"
    using size_byte [of 486604799] sign_bit [of 486604799]
    by (simp add: validateCompactTarget_def js_safe_def Let_def mantissa convertBitsToTarget_def
        validateUnsignedHeaderInteger_def bit_iff_odd push_bit_eq_mult)
  moreover assume "piece_ok sdk c"
  ultimately show ?thesis
    by (auto simp: piece_ok_def validateConsensusProofOfWork_def proofOfWorkExceptions_def and_then_Inr
        validateHeaderDifficulty_Inr split: if_splits)
qed

lemma addWork_block:
  assumes "hex32 a" "validateCompactTarget b = Inr t"
  shows "and_then (convertBitsToWork b) (\<lambda>bw. and_then (addWork a bw) (\<lambda>s. Inr (Some s))) = Inr wk
    \<longleftrightarrow> hex_nat a + block_work b < 2 ^ 256 \<and> wk = Some (work_text (hex_nat a + block_work b))"
proof -
  let ?w = "padStart64 (hex_digits (block_work b))"
  have c: "convertBitsToWork b = Inr ?w"
    using block_work_of_target [OF assms(2)] by simp
  have "hex32 ?w" if "hex_nat a + block_work b < 2 ^ 256"
  proof -
    have "block_work b < 2 ^ 256" using that by linarith
    then show ?thesis by (intro hash_text_hex32 pad_hash_text)
  qed
  then show ?thesis
    using assms(1) by (auto simp: c and_then_Inr addWork_Inr)
qed

lemma work_after_step:
  assumes "case w of Some a \<Rightarrow> hex32 a | None \<Rightarrow> True" "validateCompactTarget (bits (parse sdk c)) = Inr t"
  shows "(\<exists>wk. (case w of Some w \<Rightarrow> and_then (convertBitsToWork (bits (parse sdk c)))
              (\<lambda>bw. and_then (addWork w bw) (\<lambda>s. Inr (Some s))) | None \<Rightarrow> Inr None) = Inr wk \<and> work_after sdk cs wk w')
     \<longleftrightarrow> work_after sdk (c # cs) w w'"
proof (cases w)
  case None
  then show ?thesis by (simp add: work_after_def)
next
  case (Some a)
  then have a: "hex32 a" using assms(1) by simp
  show ?thesis
    using addWork_block [OF a assms(2)] Some
    by (cases cs) (auto simp: work_after_def work_sum_def add.assoc simp del: power_numeral)
qed

lemma wk_hex32:
  assumes "case w of Some a \<Rightarrow> hex32 a | None \<Rightarrow> True"
    and "(case w of Some w \<Rightarrow> and_then (convertBitsToWork b)
              (\<lambda>bw. and_then (addWork w bw) (\<lambda>s. Inr (Some s))) | None \<Rightarrow> Inr None) = Inr wk"
  shows "case wk of Some a \<Rightarrow> hex32 a | None \<Rightarrow> True"
  using assms by (cases w) (auto simp: and_then_Inr addWork_Inr work_text_hex32)

lemma buffer_loop_iff:
  assumes "0 \<le> k" "k + 80 * int n \<le> int (length buffer)" "list_all is_byte buffer"
    and "case w of Some a \<Rightarrow> hex32 a | None \<Rightarrow> True"
  shows "buffer_loop sdk buffer k n prev w = Inr (lst, w') \<longleftrightarrow>
     linked_from sdk prev (pieces (nat k) n buffer) \<and> list_all (piece_ok sdk) (pieces (nat k) n buffer)
    \<and> lst = (if n = 0 then prev else piece_hash sdk (last (pieces (nat k) n buffer)))
    \<and> work_after sdk (pieces (nat k) n buffer) w w'"
  using assms
proof (induction n arbitrary: k prev w)
  case 0
  then show ?case
    using hex32_val by (cases w) (auto simp: work_after_def work_sum_def)
next
  case (Suc n)
  let ?c = "byte_slice (nat k) 80 buffer"
  let ?rest = "pieces (nat k + 80) n buffer"
  let ?add = "case w of Some w \<Rightarrow> and_then (convertBitsToWork (bits (parse sdk ?c)))
              (\<lambda>bw. and_then (addWork w bw) (\<lambda>s. Inr (Some s))) | None \<Rightarrow> Inr None"
  have len: "k + 80 \<le> int (length buffer)" and k80: "nat (k + 80) = nat k + 80"
    using Suc.prems by simp_all
  have c: "length ?c = 80" "list_all is_byte ?c"
    using Suc.prems len by (auto intro!: slice_length slice_bytes)
  have d: "deserializeBaseBlockHeader sdk ?c 0 = Inr (parse sdk ?c)"
    using c by (simp add: deserialize_parse whole_window whole_slice)
  have pv: "sdk_to_hex sdk (rev (byte_slice 4 32 ?c)) = previousHash (parse sdk ?c)"
    by (simp add: parse_def)
  have IH: "buffer_loop sdk buffer (k + 80) n (piece_hash sdk ?c) wk = Inr (lst, w') \<longleftrightarrow>
      linked_from sdk (piece_hash sdk ?c) ?rest \<and> list_all (piece_ok sdk) ?rest
      \<and> lst = (if n = 0 then piece_hash sdk ?c else piece_hash sdk (last ?rest)) \<and> work_after sdk ?rest wk w'"
    if "?add = Inr wk" for wk
    using Suc.IH [of "k + 80" wk "piece_hash sdk ?c"] Suc.prems that wk_hex32 [of w "bits (parse sdk ?c)" wk]
    by (simp add: k80)
  have "buffer_loop sdk buffer k (Suc n) prev w = Inr (lst, w') \<longleftrightarrow>
      previousHash (parse sdk ?c) = prev \<and> piece_ok sdk ?c
      \<and> (\<exists>wk. ?add = Inr wk \<and> buffer_loop sdk buffer (k + 80) n (piece_hash sdk ?c) wk = Inr (lst, w'))"
    using len by (auto simp: and_then_Inr d pv Let_def piece_ok_def piece_hash_def simp del: if_split_asm)
  also have "\<dots> \<longleftrightarrow> previousHash (parse sdk ?c) = prev \<and> piece_ok sdk ?c
      \<and> linked_from sdk (piece_hash sdk ?c) ?rest \<and> list_all (piece_ok sdk) ?rest
      \<and> lst = (if n = 0 then piece_hash sdk ?c else piece_hash sdk (last ?rest))
      \<and> (\<exists>wk. ?add = Inr wk \<and> work_after sdk ?rest wk w')"
    using IH by blast
  also have "\<dots> \<longleftrightarrow> previousHash (parse sdk ?c) = prev \<and> piece_ok sdk ?c
      \<and> linked_from sdk (piece_hash sdk ?c) ?rest \<and> list_all (piece_ok sdk) ?rest
      \<and> lst = (if n = 0 then piece_hash sdk ?c else piece_hash sdk (last ?rest))
      \<and> work_after sdk (?c # ?rest) w w'"
    using work_after_step [OF Suc.prems(4)] piece_ok_target by blast
  finally show ?case by auto
qed


text \<open>C30. A buffer of headers is accepted exactly when it is a chain: it is cut into 80-byte headers, the first
  names \<open>previousHash\<close> and each other one the hash of the header before it, no hash is a known dirty one,
  every hash meets the target of its bits (or is the excepted genesis), and the accumulated work fits in
  256 bits. The answer is then the hash of the last header and the exact total work.\<close>

theorem checked_buffer_is_a_chain:
  assumes "list_all is_byte b"
  shows "validateBufferOfHeaders sdk b prev 0 (- 1) (Some w) = Inr (lst, w') \<longleftrightarrow>
     length b mod 80 = 0 \<and> int (length b div 80) \<le> max_header_count \<and> hex32 prev \<and> hex32 w
     \<and> (let cs = pieces 0 (length b div 80) b in
          linked_from sdk (js_lower prev) cs \<and> list_all (piece_ok sdk) cs
          \<and> lst = (if cs = [] then js_lower prev else piece_hash sdk (last cs))
          \<and> work_after sdk cs (Some (js_lower w)) w')"
proof (cases "length b mod 80 = 0 \<and> int (length b div 80) \<le> max_header_count \<and> hex32 prev \<and> hex32 w")
  case True
  then obtain n where n: "length b = 80 * n"
    by (auto simp: mod_eq_0_iff_dvd)
  then have fits: "0 + 80 * int (length b div 80) \<le> int (length b)"
    by simp
  have w: "case Some (js_lower w) of Some a \<Rightarrow> hex32 a | None \<Rightarrow> True"
    using True hash_text_hex32 hex32_lower by simp
  have "validateBufferOfHeaders sdk b prev 0 (- 1) (Some w)
      = buffer_loop sdk b 0 (length b div 80) (js_lower prev) (Some (js_lower w))"
    using True by (simp add: validateBufferOfHeaders_def js_safe_def validateWork_def n)
  then show ?thesis
    using True buffer_loop_iff [OF _ fits assms w] by (simp add: Let_def)
next
  case False
  have m: "80 dvd int (length b) \<longleftrightarrow> length b mod 80 = 0"
    by presburger
  have d: "int (length b) div 80 = int (length b div 80)"
    by (simp add: zdiv_int)
  have r: "\<not> (length b mod 80 = 0 \<and> int (length b div 80) \<le> max_header_count \<and> hex32 prev \<and> hex32 w)"
    by (rule False)
  have "validateBufferOfHeaders sdk b prev 0 (- 1) (Some w) \<noteq> Inr (lst, w')"
    using r by (auto simp: validateBufferOfHeaders_def js_safe_def and_then_Inr validateWork_def d m
        mod_eq_0_iff_dvd split: if_splits)
  then show ?thesis
    by (intro iffI) (use r in \<open>simp, elim conjE, simp\<close>)
qed

abbreviation zero_sdk :: header_sdk where
  "zero_sdk \<equiv> own_sdk (\<lambda>_. replicate 32 0)"

lemma hex_of_zeros: "hex_of_bytes (replicate n 0) = replicate (2 * n) CHR ''0''"
proof -
  have "hex_char 0 = CHR ''0''"
    by (simp add: hex_char_def char_of_def bit_iff_odd)
  then show ?thesis
    by (induction n) (simp_all add: hex_of_bytes_def)
qed

lemma zero_piece_hash: "piece_hash zero_sdk c = replicate 64 CHR ''0''"
  by (simp add: piece_hash_def doubleSha256BE_def doubleSha256LE_def own_sdk_def hex_of_zeros)

lemma sample_piece: "parse zero_sdk (wire zero_sdk sample_header) = sample_header"
  using own.parse_wire sample_canonical by blast

lemma sample_pieces:
  "pieces 0 2 (wire zero_sdk sample_header @ wire zero_sdk sample_header) =
     [wire zero_sdk sample_header, wire zero_sdk sample_header]"
  using own.wire_length [of sample_header] sample_canonical
  by (simp add: numeral_2_eq_2 byte_slice_def canonical_def)

lemma limit_target: "validateCompactTarget 486604799 = Inr pow_limit"
  using size_byte [of 486604799] sign_bit [of 486604799]
  by (simp add: validateCompactTarget_def js_safe_def Let_def mantissa convertBitsToTarget_def
      validateUnsignedHeaderInteger_def bit_iff_odd push_bit_eq_mult)

lemma zero_hash_val: "bytes_val (bytes_of_hex (replicate 64 CHR ''0'')) = 0"
proof -
  have "bytes_of_hex (replicate (2 * n) CHR ''0'') = replicate n 0" for n
    by (induction n) (simp_all add: hex_digit_val_def)
  from this [of 32] have "bytes_of_hex (replicate 64 CHR ''0'') = replicate 32 0" by simp
  moreover have "foldl (\<lambda>a b. 256 * a + b) (0::int) (replicate n 0) = 0" for n
    by (induction n) simp_all
  ultimately show ?thesis by (simp add: bytes_val_def)
qed

lemma sample_bits [simp]: "bits sample_header = 486604799" "previousHash sample_header = replicate 64 CHR ''0''"
  by (simp_all add: sample_header_def)

lemma zero_of_hex [simp]: "sdk_of_hex zero_sdk = bytes_of_hex"
  by (simp add: own_sdk_def)

lemma sample_piece_ok: "piece_ok zero_sdk (wire zero_sdk sample_header)"
proof -
  have "validateHeaderDifficulty (bytes_of_hex (replicate 64 CHR ''0'')) 486604799 = Inr True"
    using limit_target zero_hash_val
    by (simp add: validateHeaderDifficulty_Inr bytes_of_hex_length bytes_of_hex_is_byte)
  moreover have "proofOfWorkExceptions (replicate 64 CHR ''0'') = None"
    "map_of dirtyHashes (replicate 64 CHR ''0'') = None"
    by (simp_all add: proofOfWorkExceptions_def dirtyHashes_def numeral_eq_Suc)
  ultimately show ?thesis
    by (simp add: piece_ok_def zero_piece_hash sample_piece validateConsensusProofOfWork_def
        validateAgainstDirtyHashes_def)
qed

theorem checked_buffer_is_a_chain_witness:
  "validateBufferOfHeaders zero_sdk (wire zero_sdk sample_header @ wire zero_sdk sample_header)
      (replicate 64 CHR ''0'') 0 (- 1) (Some (replicate 64 CHR ''0''))
    = Inr (replicate 64 CHR ''0'', Some (work_text 8590065666))"
proof -
  let ?b = "wire zero_sdk sample_header @ wire zero_sdk sample_header"
  let ?z = "replicate 64 CHR ''0''"
  have len: "length ?b = 160" and bytes: "list_all is_byte ?b"
    using own.wire_length own.wire_bytes sample_canonical by (simp_all add: canonical_def)
  have z: "hash_text ?z" by (simp add: hash_text_def list_all_iff js_hex_def)
  have v: "hex_nat ?z = 0" using hex_nat_zeros [of 64 "[]"] by (simp add: hex_nat_def)
  have bw: "block_work 486604799 = 4295032833"
    by (simp add: block_work_def compact_target_limit)
  have "work_after zero_sdk [wire zero_sdk sample_header, wire zero_sdk sample_header] (Some ?z) (Some (work_text 8590065666))"
    using v bw by (simp add: work_after_def work_sum_def sample_piece)
  moreover have "linked_from zero_sdk ?z [wire zero_sdk sample_header, wire zero_sdk sample_header]"
    by (simp add: sample_piece zero_piece_hash)
  ultimately show ?thesis
    using checked_buffer_is_a_chain [OF bytes, of zero_sdk ?z ?z ?z "Some (work_text 8590065666)"] len
      sample_pieces sample_piece_ok z hash_text_hex32 [OF z] hash_text_lower [OF z] zero_piece_hash
    by simp
qed

section \<open>Genesis headers\<close>

datatype chain = Main | Test | Stn | Ttn | Tstn | Mock

definition mk_header :: "int \<Rightarrow> string \<Rightarrow> string \<Rightarrow> int \<Rightarrow> int \<Rightarrow> int \<Rightarrow> int \<Rightarrow> string \<Rightarrow> block_header" where
  "mk_header v p m t b n ht hs = \<lparr>version = v, previousHash = p, merkleRoot = m, time = t, bits = b, nonce = n,
     height = ht, hash = hs\<rparr>"

fun genesisHeader :: "chain \<Rightarrow> chain_error + block_header" where
  "genesisHeader Main = Inr (mk_header 1 (replicate 64 CHR ''0'')
     ''4a5e1e4baab89f3a32518a88c31bc87f618f76673e2cc77ab2127b7afdeda33b'' 1231006505 486604799 2083236893 0
     ''000000000019d6689c085ae165831e934ff763ae46a2a6c172b3f1b60a8ce26f'')"
| "genesisHeader Test = Inr (mk_header 1 (replicate 64 CHR ''0'')
     ''4a5e1e4baab89f3a32518a88c31bc87f618f76673e2cc77ab2127b7afdeda33b'' 1296688602 486604799 414098458 0
     ''000000000933ea01ad0ee984209779baaec3ced90fa3f408719526f8d77f4943'')"
| "genesisHeader Stn = Inr (mk_header 1 (replicate 64 CHR ''0'')
     ''4a5e1e4baab89f3a32518a88c31bc87f618f76673e2cc77ab2127b7afdeda33b'' 1296688602 486604799 173779992 0
     ''6b38bdbcd73a19f7889d23e1fa6166a9de71affceca60ca3bb1b28af8135c594'')"
| "genesisHeader Ttn = Inr (mk_header 1 (replicate 64 CHR ''0'')
     ''4a5e1e4baab89f3a32518a88c31bc87f618f76673e2cc77ab2127b7afdeda33b'' 1755606836 486604799 1092578460 0
     ''000000000499eabba0a88f5b3747231c74b9191c1a4a04b2c2ea817976b7776d'')"
| "genesisHeader Tstn = Inr (mk_header 1 (replicate 64 CHR ''0'')
     ''64452e5b25c65e492ad6a4f5ce9f427ca986626c28315d88de920d66e28cc98f'' 1782864000 486604799 1780488216 0
     ''000000005d221c0e023cb56b5682cf094f32cd959958b40bc931e5797cae706c'')"
| "genesisHeader Mock = Inl (JsError ''genesisHeader does not support 'mock' chain.'')"

definition genesisBuffer :: "header_sdk \<Rightarrow> chain \<Rightarrow> chain_error + int list" where
  "genesisBuffer sdk c = and_then (genesisHeader c) (\<lambda>h. serializeBaseBlockHeader sdk (base_of h))"

definition validateGenesisHeader :: "header_sdk \<Rightarrow> int list \<Rightarrow> chain \<Rightarrow> chain_error + unit" where
  "validateGenesisHeader sdk buffer c =
     and_then (deserializeBlockHeader sdk (byte_slice 0 80 buffer) 0 0) (\<lambda>h.
     and_then (genesisHeader c) (\<lambda>gh.
     ensure (\<not> (bits h \<noteq> bits gh \<or> previousHash h \<noteq> previousHash gh \<or> merkleRoot h \<noteq> merkleRoot gh
       \<or> time h \<noteq> time gh \<or> nonce h \<noteq> nonce gh \<or> version h \<noteq> version gh \<or> height h \<noteq> height gh \<or> hash h \<noteq> hash gh))
       (InvalidParameter ''buffer'')))"

text \<open>The genesis check accepts a buffer exactly when it parses to the listed header.\<close>

lemma genesis_check_exact:
  "validateGenesisHeader sdk buffer c = Inr () \<longleftrightarrow>
     (\<exists>g. genesisHeader c = Inr g \<and> deserializeBlockHeader sdk (byte_slice 0 80 buffer) 0 0 = Inr g)"
  by (auto simp: validateGenesisHeader_def and_then_Inr intro!: block_header.equality)

lemma hex_zeros_text: "hash_text (replicate 64 CHR ''0'')"
  by (simp add: hash_text_def list_all_iff js_hex_def)

lemma genesis_texts:
  "hash_text ''4a5e1e4baab89f3a32518a88c31bc87f618f76673e2cc77ab2127b7afdeda33b''"
  "hash_text ''64452e5b25c65e492ad6a4f5ce9f427ca986626c28315d88de920d66e28cc98f''"
  "hash_text ''000000000019d6689c085ae165831e934ff763ae46a2a6c172b3f1b60a8ce26f''"
  "hash_text ''000000000933ea01ad0ee984209779baaec3ced90fa3f408719526f8d77f4943''"
  "hash_text ''6b38bdbcd73a19f7889d23e1fa6166a9de71affceca60ca3bb1b28af8135c594''"
  "hash_text ''000000000499eabba0a88f5b3747231c74b9191c1a4a04b2c2ea817976b7776d''"
  "hash_text ''000000005d221c0e023cb56b5682cf094f32cd959958b40bc931e5797cae706c''"
  by (simp_all add: hash_text_def js_hex_def)

lemma genesis_canonical: "genesisHeader c = Inr g \<Longrightarrow> canonical (base_of g) \<and> hash_text (hash g) \<and> height g = 0"
  using hex_zeros_text
  by (cases c) (auto simp: mk_header_def base_of_def canonical_def wellformed_def hash_text_hex32 genesis_texts)

end
