(* ===== verification/Header_Proof.thy ===== *)
theory Header_Proof
  imports Header_Work
begin

text \<open>
  \<open>src/wallet/blockHeaders.ts\<close>: block headers fetched from public services while the primary host lags,
  accepted only when they "prove themselves", and kept in a bounded cache with a durable copy. A service's
  answer is a JSON value (\<open>None\<close> when the request failed); the durable text is kept as the entries it parses
  to. JSON numbers are integers, as elsewhere.

  The loop over the sources awaits each of them; between two awaits the code runs one \<open>source_step\<close>, so
  concurrent fetches are interleavings of these steps. The file's exclusive use of the SDK is the
  \<open>header_sdk\<close> of \<open>Block_Header\<close> (\<open>Hash.hash256\<close> is SHA-256 twice).
\<close>

section \<open>Reading a service's answer\<close>

definition num_field :: "json \<Rightarrow> string \<Rightarrow> int option" where
  "num_field body key = json_int (json_field body key)"

fun hex32_field :: "json \<Rightarrow> string list \<Rightarrow> string option" where
  "hex32_field body [] = None"
| "hex32_field body (k # ks) = (case json_field body k of
      Some (JStr v) \<Rightarrow> if hex32 v then Some (js_lower v) else hex32_field body ks
    | _ \<Rightarrow> hex32_field body ks)"

text \<open>Compact bits come as a number or as up to eight hexadecimal digits.\<close>

definition bitsValue :: "json \<Rightarrow> int option" where
  "bitsValue body = (case json_field body ''bits'' of
      Some (JNum n) \<Rightarrow> Some n
    | Some (JStr s) \<Rightarrow> if 1 \<le> length s \<and> length s \<le> 8 \<and> list_all js_hex_any s then Some (int (hex_nat s)) else None
    | _ \<Rightarrow> None)"

definition parseHeader :: "json option \<Rightarrow> int \<Rightarrow> block_header option" where
  "parseHeader body ht = (case body of None \<Rightarrow> None | Some b \<Rightarrow>
     (case (hex32_field b [''hash''], hex32_field b [''previousblockhash'', ''previousBlockHash''],
            hex32_field b [''merkleroot'', ''merkleRoot''], num_field b ''version'', num_field b ''time'',
            num_field b ''nonce'', bitsValue b) of
        (Some h, Some p, Some m, Some v, Some t, Some n, Some bt) \<Rightarrow>
          if num_field b ''height'' = Some ht then Some (mk_header v p m t bt n ht h) else None
      | _ \<Rightarrow> None))"

section \<open>Self-proving headers\<close>

definition serialize :: "header_sdk \<Rightarrow> block_header \<Rightarrow> int list" where
  "serialize sdk h = sdk_le32 sdk (version h) @ rev (sdk_of_hex sdk (previousHash h))
     @ rev (sdk_of_hex sdk (merkleRoot h)) @ sdk_le32 sdk (time h) @ sdk_le32 sdk (bits h) @ sdk_le32 sdk (nonce h)"

definition targetFromBits :: "int \<Rightarrow> int" where
  "targetFromBits b = (let ex = nat (js_shr b 24); mantissa = js_and b 16777215 in
     if ex \<le> 3 then drop_bit (8 * (3 - ex)) mantissa else push_bit (8 * (ex - 3)) mantissa)"

definition selfProving :: "header_sdk \<Rightarrow> block_header \<Rightarrow> bool" where
  "selfProving sdk h = (let bytes = serialize sdk h in
     length bytes = 80
     \<and> sdk_to_hex sdk (rev (sdk_sha256 sdk (sdk_sha256 sdk bytes))) = hash h
     \<and> (let target = targetFromBits (bits h) in target > 0 \<and> int (hex_nat (hash h)) \<le> target))"

section \<open>Cache, sources and fetching\<close>

datatype wallet_chain = WMain | WTest

fun chain_name :: "wallet_chain \<Rightarrow> string" where
  "chain_name WMain = ''main''"
| "chain_name WTest = ''test''"

definition cache_key :: "wallet_chain \<Rightarrow> int \<Rightarrow> string" where
  "cache_key c ht = chain_name c @ '':'' @ show_int ht"

definition handcash_source :: string where
  "handcash_source = ''HandCash Chain''"

text \<open>The sources' names, in order (both networks have an Arcade V2 host).\<close>

fun sourcesFor :: "wallet_chain \<Rightarrow> string list" where
  "sourcesFor WMain = [''Arcade V2'', handcash_source, ''Bitails'', ''WhatsOnChain'']"
| "sourcesFor WTest = [''Arcade V2'', ''WhatsOnChain'']"

record header_cache =
  hc_cache :: "(string, block_header) jsmap"
  hc_cooldown :: "(string, int) jsmap"
  hc_streak :: "(string, int) jsmap"
  hc_hydrated :: bool
  hc_durable :: "(string \<times> json) list"

definition empty_header_cache :: "(string \<times> json) list \<Rightarrow> header_cache" where
  "empty_header_cache d = \<lparr>hc_cache = [], hc_cooldown = [], hc_streak = [], hc_hydrated = False, hc_durable = d\<rparr>"

abbreviation header_cache_max :: nat where
  "header_cache_max \<equiv> 200"

definition header_to_json :: "block_header \<Rightarrow> json" where
  "header_to_json h = JObj [(''height'', JNum (height h)), (''hash'', JStr (hash h)), (''version'', JNum (version h)),
     (''previousHash'', JStr (previousHash h)), (''merkleRoot'', JStr (merkleRoot h)), (''time'', JNum (time h)),
     (''bits'', JNum (bits h)), (''nonce'', JNum (nonce h))]"

text \<open>\<open>isHeaderShape\<close>, with the header it lets through.\<close>

definition isHeaderShape :: "json \<Rightarrow> block_header option" where
  "isHeaderShape v =
     (case (num_field v ''height'', json_str (json_field v ''hash''), num_field v ''version'',
            json_str (json_field v ''previousHash''), json_str (json_field v ''merkleRoot''), num_field v ''time'',
            num_field v ''bits'', num_field v ''nonce'') of
        (Some ht, Some h, Some ver, Some p, Some m, Some t, Some b, Some n) \<Rightarrow> Some (mk_header ver p m t b n ht h)
      | _ \<Rightarrow> None)"

fun trimCache :: "(string, block_header) jsmap \<Rightarrow> (string, block_header) jsmap" where
  "trimCache [] = []"
| "trimCache (x # xs) = (if length (x # xs) > header_cache_max then trimCache xs else x # xs)"

text \<open>
  \<open>Utils.toArray(s, 'hex')\<close> may throw on a text that is not 64 hexadecimal digits; \<open>bad\<close> tells the
  texts it throws on. \<open>parseHeader\<close> lets no such text through, but a stored entry may hold one.
\<close>

definition serialize_throws :: "(string \<Rightarrow> bool) \<Rightarrow> block_header \<Rightarrow> bool" where
  "serialize_throws bad h = (\<not> hex32 (previousHash h) \<and> bad (previousHash h) \<or> \<not> hex32 (merkleRoot h) \<and> bad (merkleRoot h))"

text \<open>The loop over the stored entries, with whether it came to its end.\<close>

fun hydrate_entries :: "header_sdk \<Rightarrow> (string \<Rightarrow> bool) \<Rightarrow> (string \<times> json) list \<Rightarrow> (string, block_header) jsmap
    \<Rightarrow> (string, block_header) jsmap \<times> bool" where
  "hydrate_entries sdk bad [] m = (m, True)"
| "hydrate_entries sdk bad ((k, v) # es) m =
     (case isHeaderShape v of
        None \<Rightarrow> hydrate_entries sdk bad es m
      | Some h \<Rightarrow> if serialize_throws bad h then (m, False)
          else hydrate_entries sdk bad es (if selfProving sdk h \<and> jsmap_get m k = None then jsmap_set k h m else m))"

text \<open>A throw is caught: what was read stays, and the trim is skipped.\<close>

definition hydrateDurable :: "header_sdk \<Rightarrow> (string \<Rightarrow> bool) \<Rightarrow> header_cache \<Rightarrow> header_cache" where
  "hydrateDurable sdk bad s = (if hc_hydrated s then s
     else (case hydrate_entries sdk bad (hc_durable s) (hc_cache s) of
         (m, ended) \<Rightarrow> s\<lparr>hc_hydrated := True, hc_cache := (if ended then trimCache m else m)\<rparr>))"

definition persistDurable :: "header_cache \<Rightarrow> header_cache" where
  "persistDurable s = s\<lparr>hc_durable := map (\<lambda>(k, h). (k, header_to_json h)) (hc_cache s)\<rparr>"

definition remember :: "string \<Rightarrow> block_header \<Rightarrow> header_cache \<Rightarrow> header_cache" where
  "remember k h s = persistDurable (s\<lparr>hc_cache := trimCache (jsmap_set k h (jsmap_delete k (hc_cache s)))\<rparr>)"

definition noteSourceMiss :: "string \<Rightarrow> int \<Rightarrow> header_cache \<Rightarrow> header_cache" where
  "noteSourceMiss nm now s =
     (let streak = (case jsmap_get (hc_streak s) nm of Some k \<Rightarrow> k | None \<Rightarrow> 0) + 1;
          coolMs = (if nm = handcash_source \<and> streak \<ge> 3 then 15 * 60000 else 60000) in
      s\<lparr>hc_streak := jsmap_set nm streak (hc_streak s), hc_cooldown := jsmap_set nm (now + coolMs) (hc_cooldown s)\<rparr>)"

definition noteSourceHit :: "string \<Rightarrow> header_cache \<Rightarrow> header_cache" where
  "noteSourceHit nm s = s\<lparr>hc_streak := jsmap_delete nm (hc_streak s)\<rparr>"

text \<open>What happens once a source has answered, at time \<open>now\<close>.\<close>

definition source_step :: "header_sdk \<Rightarrow> wallet_chain \<Rightarrow> int \<Rightarrow> string \<Rightarrow> json option \<Rightarrow> int \<Rightarrow> header_cache
    \<Rightarrow> header_cache \<times> block_header option" where
  "source_step sdk c ht nm body now s =
     (case parseHeader body ht of
        None \<Rightarrow> (noteSourceMiss nm now s, None)
      | Some h \<Rightarrow> if selfProving sdk h then (remember (cache_key c ht) h (noteSourceHit nm s), Some h)
                  else (noteSourceMiss nm now s, None))"

text \<open>The answers of a pass: for each source the time it is considered, its answer, and the time of the answer.\<close>

type_synonym source_answers = "string \<Rightarrow> int \<times> json option \<times> int"

fun fetch_loop :: "header_sdk \<Rightarrow> wallet_chain \<Rightarrow> int \<Rightarrow> source_answers \<Rightarrow> string list \<Rightarrow> header_cache
    \<Rightarrow> header_cache \<times> block_header option" where
  "fetch_loop sdk c ht ans [] s = (s, None)"
| "fetch_loop sdk c ht ans (nm # nms) s =
    (let (asked, body, now) = ans nm in
     if asked < (case jsmap_get (hc_cooldown s) nm of Some t \<Rightarrow> t | None \<Rightarrow> 0) then fetch_loop sdk c ht ans nms s
     else (case source_step sdk c ht nm body now s of
             (s', Some h) \<Rightarrow> (s', Some h)
           | (s', None) \<Rightarrow> fetch_loop sdk c ht ans nms s'))"

definition fetchBlockHeaderForHeight :: "header_sdk \<Rightarrow> (string \<Rightarrow> bool) \<Rightarrow> wallet_chain \<Rightarrow> int \<Rightarrow> source_answers \<Rightarrow> header_cache
    \<Rightarrow> header_cache \<times> block_header option" where
  "fetchBlockHeaderForHeight sdk bad c ht ans s =
     (if ht < 0 then (s, None)
      else let s1 = hydrateDurable sdk bad s in
        case jsmap_get (hc_cache s1) (cache_key c ht) of
          Some h \<Rightarrow> (s1, Some h)
        | None \<Rightarrow> fetch_loop sdk c ht ans (sourcesFor c) s1)"

fun best_cached :: "string \<Rightarrow> (string, block_header) jsmap \<Rightarrow> block_header option \<Rightarrow> block_header option" where
  "best_cached pre [] best = best"
| "best_cached pre ((k, h) # m) best = best_cached pre m
     (if \<not> prefix pre k then best
      else case best of None \<Rightarrow> Some h | Some b \<Rightarrow> if height h > height b then Some h else Some b)"

definition peekHighestCachedHeader :: "header_sdk \<Rightarrow> (string \<Rightarrow> bool) \<Rightarrow> wallet_chain \<Rightarrow> header_cache \<Rightarrow> header_cache \<times> block_header option" where
  "peekHighestCachedHeader sdk bad c s =
     (let s1 = hydrateDurable sdk bad s in (s1, best_cached (chain_name c @ '':'') (hc_cache s1) None))"

section \<open>The cache keeps only self-proving headers\<close>

text \<open>\<open>n\<close> is the number of stored entries the run started with.\<close>

definition cache_inv :: "header_sdk \<Rightarrow> nat \<Rightarrow> header_cache \<Rightarrow> bool" where
  "cache_inv sdk n s = (jsmap_wf (hc_cache s) \<and> list_all (\<lambda>(k, h). selfProving sdk h) (hc_cache s)
     \<and> (if hc_hydrated s then length (hc_cache s) \<le> max header_cache_max n else hc_cache s = [] \<and> length (hc_durable s) \<le> n))"

lemma trimCache_length: "length (trimCache m) \<le> header_cache_max"
  by (induction m) auto

lemma trimCache_wf: "jsmap_wf m \<Longrightarrow> jsmap_wf (trimCache m)"
  by (induction m) (auto simp: jsmap_wf_def)

lemma trimCache_all: "list_all P m \<Longrightarrow> list_all P (trimCache m)"
  by (induction m) auto

lemma trimCache_small: "length m \<le> header_cache_max \<Longrightarrow> trimCache m = m"
  by (cases m) auto

lemma jsmap_set_all: "list_all P m \<Longrightarrow> P (k, v) \<Longrightarrow> list_all P (jsmap_set k v m)"
  by (induction m) (auto split: if_splits)

lemma jsmap_delete_all: "list_all P m \<Longrightarrow> list_all P (jsmap_delete k m)"
  by (auto simp: list_all_iff dest!: jsmap_delete_in [of _ _ k m])

lemma proving_set:
  "list_all (\<lambda>(k, h). selfProving sdk h) m \<Longrightarrow> selfProving sdk h \<Longrightarrow>
     list_all (\<lambda>(k, h). selfProving sdk h) (jsmap_set k h m)"
  by (rule jsmap_set_all) simp_all

lemma jsmap_set_length: "length (jsmap_set k v m) \<le> Suc (length m)"
  by (induction m) auto

lemma hydrate_entries_inv:
  "jsmap_wf m \<Longrightarrow> list_all (\<lambda>(k, h). selfProving sdk h) m \<Longrightarrow>
     jsmap_wf (fst (hydrate_entries sdk bad es m)) \<and> list_all (\<lambda>(k, h). selfProving sdk h) (fst (hydrate_entries sdk bad es m))
     \<and> length (fst (hydrate_entries sdk bad es m)) \<le> length m + length es"
proof (induction sdk bad es m rule: hydrate_entries.induct)
  case (2 sdk bad k v es m)
  show ?case
  proof (cases "isHeaderShape v")
    case None
    then show ?thesis using "2.IH"(1) "2.prems" by fastforce
  next
    case (Some h)
    define m' where "m' = (if selfProving sdk h \<and> jsmap_get m k = None then jsmap_set k h m else m)"
    have "jsmap_wf m'" "list_all (\<lambda>(k, h). selfProving sdk h) m'" "length m' \<le> Suc (length m)"
      using "2.prems" jsmap_set_length [of k h m] by (simp_all add: m'_def proving_set)
    then show ?thesis using Some "2.IH"(2) [of h] "2.prems" by (fastforce simp: m'_def [symmetric])
  qed
qed simp

lemma trimCache_le: "length (trimCache m) \<le> length m"
  by (induction m) auto

lemma hydrateDurable_inv: "cache_inv sdk n s \<Longrightarrow> cache_inv sdk n (hydrateDurable sdk bad s) \<and> hc_hydrated (hydrateDurable sdk bad s)"
  using hydrate_entries_inv [of "hc_cache s" sdk bad "hc_durable s"]
    trimCache_le [of "fst (hydrate_entries sdk bad (hc_durable s) (hc_cache s))"]
  by (auto simp: cache_inv_def hydrateDurable_def trimCache_wf trimCache_all split: prod.splits if_splits)

lemma remember_small: "length (hc_cache (remember k h s)) \<le> header_cache_max"
  by (simp add: remember_def persistDurable_def trimCache_length)

lemma remember_inv:
  assumes "cache_inv sdk n s" "selfProving sdk h" "hc_hydrated s"
  shows "cache_inv sdk n (remember k h s) \<and> hc_hydrated (remember k h s)"
proof -
  have "list_all (\<lambda>(k, h). selfProving sdk h) (jsmap_set k h (jsmap_delete k (hc_cache s)))"
    using assms by (intro jsmap_set_all jsmap_delete_all) (simp_all add: cache_inv_def)
  then show ?thesis
    using assms trimCache_length [of "jsmap_set k h (jsmap_delete k (hc_cache s))"]
    by (simp add: cache_inv_def remember_def persistDurable_def trimCache_wf trimCache_all)
qed

lemma noteSource_cache [simp]: "hc_cache (noteSourceMiss nm now s) = hc_cache s" "hc_cache (noteSourceHit nm s) = hc_cache s"
  "hc_hydrated (noteSourceMiss nm now s) = hc_hydrated s" "hc_hydrated (noteSourceHit nm s) = hc_hydrated s"
  by (simp_all add: noteSourceMiss_def noteSourceHit_def Let_def)

lemma source_step_inv:
  assumes "cache_inv sdk n s" and "hc_hydrated s"
  shows "cache_inv sdk n (fst (source_step sdk c ht nm body now s)) \<and> hc_hydrated (fst (source_step sdk c ht nm body now s))"
proof -
  have "cache_inv sdk n (noteSourceMiss nm now s)" "cache_inv sdk n (noteSourceHit nm s)"
    using assms by (simp_all add: cache_inv_def)
  then show ?thesis using assms(2) remember_inv [of sdk n "noteSourceHit nm s"] by (auto simp: source_step_def split: option.splits)
qed

text \<open>The operations as events of one machine: a hydration, and the answer of a source to any pending
  fetch, which hydrated the cache before it asked.\<close>

datatype header_event =
    Hydrate
  | SourceAnswer wallet_chain int string "json option" int

fun header_step :: "header_sdk \<Rightarrow> (string \<Rightarrow> bool) \<Rightarrow> header_cache \<Rightarrow> header_event \<Rightarrow> header_cache" where
  "header_step sdk bad s Hydrate = hydrateDurable sdk bad s"
| "header_step sdk bad s (SourceAnswer c ht nm body now) = fst (source_step sdk c ht nm body now (hydrateDurable sdk bad s))"

interpretation headers: invariant_machine "header_step sdk bad" "\<lambda>_. True" "cache_inv sdk n"
proof
  fix s e assume "cache_inv sdk n s"
  then show "cache_inv sdk n (header_step sdk bad s e)"
    by (cases e) (simp_all add: hydrateDurable_inv source_step_inv)
qed

lemma empty_cache_inv: "cache_inv sdk (length d) (empty_header_cache d)"
  by (simp add: cache_inv_def empty_header_cache_def jsmap_wf_def)

lemma source_step_result: "source_step sdk c ht nm body now s = (s', Some h) \<Longrightarrow>
    selfProving sdk h \<and> height h = ht \<and> length (hc_cache s') \<le> header_cache_max"
  using remember_small by (auto simp: source_step_def parseHeader_def mk_header_def split: option.splits if_splits prod.splits)

lemma fetch_loop_sound:
  "cache_inv sdk n s \<Longrightarrow> hc_hydrated s \<Longrightarrow> fetch_loop sdk c ht ans nms s = (s', r) \<Longrightarrow>
     cache_inv sdk n s' \<and> hc_hydrated s'
     \<and> (case r of Some h \<Rightarrow> selfProving sdk h \<and> height h = ht \<and> length (hc_cache s') \<le> header_cache_max | None \<Rightarrow> True)"
proof (induction nms arbitrary: s)
  case (Cons nm nms)
  obtain asked body now where a: "ans nm = (asked, body, now)" by (cases "ans nm")
  obtain s1 r1 where s1: "source_step sdk c ht nm body now s = (s1, r1)" by fastforce
  have i1: "cache_inv sdk n s1" "hc_hydrated s1"
    using source_step_inv [OF Cons.prems(1,2), of c ht nm body now] by (simp_all add: s1)
  show ?case
    using Cons.prems Cons.IH [OF Cons.prems(1,2)] Cons.IH [OF i1] i1 source_step_result [of sdk c ht nm body now s s1]
    by (auto simp: a s1 Let_def split: if_splits option.splits)
qed auto

section \<open>What a self-proving header is\<close>

text \<open>The target of compact bits, as the numbers they stand for: the mantissa times 256 to the exponent
  less three, without rounding.\<close>

definition meets_own_target :: "block_header \<Rightarrow> bool" where
  "meets_own_target h = (let ex = nat ((bits h mod 2 ^ 32) div 2 ^ 24); m = bits h mod 2 ^ 24 in
     256 ^ 3 \<le> m * 256 ^ ex \<and> int (hex_nat (hash h)) * 256 ^ 3 \<le> m * 256 ^ ex)"

definition proves_itself :: "header_sdk \<Rightarrow> block_header \<Rightarrow> bool" where
  "proves_itself sdk h = (length (wire sdk (base_of h)) = 80 \<and>
     hash h = sdk_to_hex sdk (rev (sdk_sha256 sdk (sdk_sha256 sdk (wire sdk (base_of h))))) \<and> meets_own_target h)"

lemma mantissa24: "js_and b 16777215 = b mod 2 ^ 24"
  using js_and_mask [of 24 b] by (simp add: mask_eq_exp_minus_1 take_bit_eq_mod)

lemma serialize_wire_eq: "serialize sdk h = wire sdk (base_of h)"
  by (simp add: serialize_def wire_def base_of_def)

lemma target_means:
  assumes "0 < targetFromBits (bits h)" and "int (hex_nat (hash h)) \<le> targetFromBits (bits h)"
  shows "meets_own_target h"
proof -
  define ex where "ex = nat ((bits h mod 2 ^ 32) div 2 ^ 24)"
  define m where "m = bits h mod 2 ^ 24"
  define x where "x = int (hex_nat (hash h))"
  have shr: "nat (js_shr (bits h) 24) = ex" by (simp add: ex_def js_shr_eq drop_bit_eq_div take_bit_eq_mod)
  have t: "targetFromBits (bits h) = (if ex \<le> 3 then m div 256 ^ (3 - ex) else m * 256 ^ (ex - 3))"
    by (simp add: targetFromBits_def shr Let_def mantissa24 m_def drop_bit_eq_div push_bit_eq_mult power_mult)
  have "256 ^ 3 \<le> m * 256 ^ ex \<and> x * 256 ^ 3 \<le> m * 256 ^ ex"
  proof (cases "ex \<le> 3")
    case True
    define d where "d = (256 :: int) ^ (3 - ex)"
    have d: "0 < d" "d * 256 ^ ex = 256 ^ 3" using True by (simp_all add: d_def power_add [symmetric])
    have "d * (m div d) \<le> m" using d(1) by (metis mult_div_mod_eq le_add_same_cancel1 pos_mod_sign)
    moreover have "1 \<le> m div d" "x \<le> m div d" using assms t True by (simp_all add: d_def x_def)
    ultimately have "d \<le> m" "d * x \<le> m" using d(1) mult_left_mono [of 1 "m div d" d] mult_left_mono [of x "m div d" d] by linarith+
    then have "d * 256 ^ ex \<le> m * 256 ^ ex" "d * x * 256 ^ ex \<le> m * 256 ^ ex" by (simp_all add: mult_right_mono)
    then show ?thesis using d(2) by (metis mult.assoc mult.commute)
  next
    case False
    then have "(256 :: int) ^ ex = 256 ^ (ex - 3) * 256 ^ 3" by (metis power_add le_add_diff_inverse2 nat_le_linear)
    then have e: "m * 256 ^ ex = (m * 256 ^ (ex - 3)) * 256 ^ 3" by simp
    have "1 \<le> m * 256 ^ (ex - 3)" "x \<le> m * 256 ^ (ex - 3)" using assms t False by (simp_all add: x_def)
    then show ?thesis unfolding e using mult_right_mono [of _ "m * 256 ^ (ex - 3)" "256 ^ 3 :: int"] by fastforce
  qed
  then show ?thesis by (simp add: meets_own_target_def Let_def ex_def m_def x_def)
qed

lemma self_proving_means: "selfProving sdk h \<Longrightarrow> proves_itself sdk h"
  using target_means [of h] by (auto simp: selfProving_def proves_itself_def serialize_wire_eq Let_def)

section \<open>The properties\<close>

text \<open>C29. Whatever answers come in, in whatever order and from whatever stored entries (readable or not),
  the header cache holds and a fetch returns only headers whose hash field is the double SHA-256 of their
  own 80 bytes and, as a number, at most the target their own bits stand for. A header that did not come
  from the cache has the height that was asked for, and leaves at most 200 headers in the cache; before
  the first of these the cache holds at most as many as were stored (a stored entry that cannot be read
  ends the hydration before its trim).\<close>

theorem fetched_headers_are_self_proving:
  assumes "s = fold_steps (header_step sdk bad) (empty_header_cache durable) es"
    and "fetchBlockHeaderForHeight sdk bad c ht ans s = (s', Some h)"
  shows "length (wire sdk (base_of h)) = 80
    \<and> hash h = sdk_to_hex sdk (rev (sdk_sha256 sdk (sdk_sha256 sdk (wire sdk (base_of h))))) \<and> meets_own_target h
    \<and> list_all (\<lambda>(k, g). proves_itself sdk g) (hc_cache s') \<and> distinct (map fst (hc_cache s'))
    \<and> length (hc_cache s') \<le> max 200 (length durable) \<and> 0 \<le> ht
    \<and> (jsmap_get (hc_cache (hydrateDurable sdk bad s)) (cache_key c ht) = None \<longrightarrow> height h = ht \<and> length (hc_cache s') \<le> 200)"
proof -
  have "cache_inv sdk (length durable) s"
    unfolding assms(1) by (rule headers.run_inv) (simp_all add: empty_cache_inv list_all_iff)
  then have inv: "cache_inv sdk (length durable) (hydrateDurable sdk bad s)" and hyd: "hc_hydrated (hydrateDurable sdk bad s)"
    using hydrateDurable_inv by blast+
  have "selfProving sdk h \<and> cache_inv sdk (length durable) s' \<and> hc_hydrated s' \<and> 0 \<le> ht
    \<and> (jsmap_get (hc_cache (hydrateDurable sdk bad s)) (cache_key c ht) = None \<longrightarrow> height h = ht \<and> length (hc_cache s') \<le> 200)"
  proof (cases "jsmap_get (hc_cache (hydrateDurable sdk bad s)) (cache_key c ht)")
    case None
    then show ?thesis
      using assms(2) fetch_loop_sound [OF inv hyd, of c ht ans "sourcesFor c" s' "Some h"]
      by (auto simp: fetchBlockHeaderForHeight_def Let_def split: if_splits)
  next
    case (Some g)
    then have "(cache_key c ht, g) \<in> set (hc_cache (hydrateDurable sdk bad s))"
      by (rule map_of_SomeD)
    then show ?thesis
      using assms(2) Some inv hyd
      by (auto simp: fetchBlockHeaderForHeight_def Let_def cache_inv_def list_all_iff split: if_splits)
  qed
  then show ?thesis
    using self_proving_means [of sdk h] self_proving_means [of sdk]
    by (auto simp: cache_inv_def proves_itself_def list_all_iff jsmap_wf_def)
qed

abbreviation sample_positioned :: block_header where
  "sample_positioned \<equiv> with_position sample_header 700000 (replicate 64 CHR ''0'')"

lemma targetFromBits_limit: "targetFromBits 486604799 = pow_limit"
  using size_byte [of 486604799] js_and_mask [of 24 486604799]
  by (simp add: targetFromBits_def mask_eq_exp_minus_1 take_bit_eq_mod push_bit_eq_mult)

lemma zeros_val: "hex_nat (replicate 64 CHR ''0'') = 0"
  using hex_nat_zeros [of 64 "[]"] by (simp add: hex_nat_def)

lemma sample_self_proving: "selfProving zero_sdk sample_positioned"
proof -
  have w: "serialize zero_sdk sample_positioned = wire zero_sdk sample_header"
    by (simp add: serialize_def wire_def with_position_def base_header.defs)
  have "length (wire zero_sdk sample_header) = 80"
    using own.wire_length sample_canonical by (simp add: canonical_def)
  moreover have "sdk_to_hex zero_sdk (rev (sdk_sha256 zero_sdk (sdk_sha256 zero_sdk c))) = replicate 64 CHR ''0''" for c
    using zero_piece_hash [of c] by (simp add: piece_hash_def doubleSha256BE_def doubleSha256LE_def)
  ultimately show ?thesis
    by (simp add: selfProving_def w zeros_val targetFromBits_limit)
qed

definition sample_body :: json where
  "sample_body = JObj [(''hash'', JStr (replicate 64 CHR ''0'')), (''previousblockhash'', JStr (replicate 64 CHR ''0'')),
     (''merkleroot'', JStr (merkleRoot sample_header)), (''version'', JNum 1), (''time'', JNum 1231006505),
     (''nonce'', JNum 2083236893), (''bits'', JNum 486604799), (''height'', JNum 700000)]"

lemma sample_parsed: "parseHeader (Some sample_body) 700000 = Some sample_positioned"
proof -
  have z: "hash_text (replicate 64 CHR ''0'')" by (rule hex_zeros_text)
  have m: "hash_text (merkleRoot sample_header)" using sample_canonical by (simp add: canonical_def)
  show ?thesis
    using hash_text_hex32 [OF z] hash_text_hex32 [OF m] hash_text_lower [OF z] hash_text_lower [OF m]
    by (simp add: parseHeader_def sample_body_def num_field_def bitsValue_def mk_header_def with_position_def
        base_header.defs) (simp add: sample_header_def)
qed

text \<open>A stored entry whose hashes are no hexadecimal texts.\<close>

definition broken_entry :: json where
  "broken_entry = JObj [(''height'', JNum 1), (''hash'', JStr ''x''), (''version'', JNum 1), (''previousHash'', JStr ''x''),
     (''merkleRoot'', JStr ''x''), (''time'', JNum 1), (''bits'', JNum 1), (''nonce'', JNum 1)]"

theorem fetched_headers_are_self_proving_witness:
  "\<exists>s'. fetchBlockHeaderForHeight zero_sdk (\<lambda>_. True) WMain 700000
      (\<lambda>nm. (0, if nm = handcash_source then Some sample_body else None, 5))
      (fold_steps (header_step zero_sdk (\<lambda>_. True)) (empty_header_cache [(''main:1'', broken_entry)]) [Hydrate]) = (s', Some sample_positioned)
    \<and> meets_own_target sample_positioned \<and> length (hc_cache s') \<le> 200 \<and> height sample_positioned = 700000"
proof -
  let ?s = "fold_steps (header_step zero_sdk (\<lambda>_. True)) (empty_header_cache [(''main:1'', broken_entry)]) [Hydrate]"
  let ?ans = "\<lambda>nm. (0, if nm = handcash_source then Some sample_body else None, 5)"
  have h: "hydrateDurable zero_sdk (\<lambda>_. True) ?s = ?s" and c: "hc_cache ?s = []" and d: "hc_cooldown ?s = []"
    by (simp_all add: hydrateDurable_def empty_header_cache_def isHeaderShape_def num_field_def broken_entry_def
        serialize_throws_def hex32_def mk_header_def)
  have miss: "parseHeader None ht = None" for ht
    by (simp add: parseHeader_def)
  have "\<exists>s'. fetchBlockHeaderForHeight zero_sdk (\<lambda>_. True) WMain 700000 ?ans ?s = (s', Some sample_positioned)"
    unfolding fetchBlockHeaderForHeight_def h c Let_def
    using d sample_self_proving
    by (simp add: handcash_source_def miss Let_def noteSourceMiss_def source_step_def sample_parsed)
  then show ?thesis
    using fetched_headers_are_self_proving [OF refl, of zero_sdk "\<lambda>_. True" WMain 700000 ?ans] h c
    by fastforce
qed

text \<open>The target of the engine's own check.\<close>

lemma targetFromBits_top: "targetFromBits 570425343 = 16777215 * 2 ^ 240"
  using size_byte [of 570425343] by (simp add: targetFromBits_def mantissa24 push_bit_eq_mult)

lemma targetFromBits_compact:
  assumes "validateCompactTarget b = Inr t"
  shows "targetFromBits b = t"
proof -
  note t = validateCompactTarget_Inr [OF assms]
  have "take_bit 24 b = take_bit 23 b"
  proof (rule bit_eqI)
    fix n :: nat
    have "n < 24 \<longleftrightarrow> n < 23 \<or> n = 23" by linarith
    then show "bit (take_bit 24 b) n = bit (take_bit 23 b) n"
      using t by (auto simp: bit_take_bit_iff)
  qed
  then have "b mod 2 ^ 24 = b mod 2 ^ 23"
    by (simp add: take_bit_eq_mod)
  then show ?thesis
    using t size_byte [of b]
    by (simp add: targetFromBits_def compact_target_def Let_def mantissa24 drop_bit_eq_div push_bit_eq_mult pow_256)
qed

text \<open>Self-proving asks for no proof of work. The target is taken from the header's own bits without the
  limit (or the sign and overflow rules) of the engine's check, so a header with any fields, bits \<open>0x21ffffff\<close>
  and the hash of its own bytes is accepted and cached when a service serves it, although no work was done;
  the engine's proof-of-work check refuses the same header.\<close>

theorem unmined_header_is_accepted:
  assumes "header_codec sdk" "wellformed h" "bits h = 570425343"
  shows "let hd = with_position h ht (piece_hash sdk (wire sdk h)) in
     selfProving sdk hd \<and> validateHeaderFormat sdk hd = (if 0 \<le> ht \<and> ht \<le> max_block_height then Inr ()
         else Inl (JsError ''Header height must be between''))
     \<and> validateHeaderProofOfWork sdk hd = Inl (JsError ''Block target encoding is invalid.'')"
proof -
  let ?hash = "piece_hash sdk (wire sdk h)"
  have hh: "hash_text ?hash"
    using header_codec.block_hash_text [OF assms(1)] by (simp add: piece_hash_def)
  have "int (hex_nat ?hash) < 2 ^ 256"
    using hex_nat_hash_text [OF hh] by (simp add: nat_less_iff [symmetric] del: power_numeral flip: of_nat_less_iff)
  then have le: "int (hex_nat ?hash) \<le> targetFromBits 570425343"
    unfolding targetFromBits_top by simp
  have len: "length (wire sdk h) = 80"
    using header_codec.wire_length [OF assms(1,2)] .
  have sp: "selfProving sdk (with_position h ht ?hash)"
    using le len assms(3) targetFromBits_top
    by (simp add: selfProving_def serialize_wire_eq Let_def piece_hash_def doubleSha256BE_def doubleSha256LE_def)
  have vf: "validateHeaderFormat sdk (with_position h ht ?hash) = (if 0 \<le> ht \<and> ht \<le> max_block_height then Inr ()
         else Inl (JsError ''Header height must be between''))"
    using assms(2) len hash_text_hex32 [OF hh]
    by (simp add: validateHeaderFormat_def validateBase_iff [of _ "()", symmetric] validateUnsignedHeaderInteger_def
        blockHash_def serializeBaseBlockHeader_def wire_def [symmetric] blockHash_bytes_def piece_hash_def ensure_def)
  have "validateCompactTarget 570425343 = Inl (JsError ''Block target encoding is invalid.'')"
    using size_byte [of 570425343] sign_bit [of 570425343]
    by (simp add: validateCompactTarget_def js_safe_def Let_def mantissa bit_iff_odd ensure_def)
  then have "validateHeaderDifficulty (sdk_of_hex sdk ?hash) 570425343 = Inl (JsError ''Block target encoding is invalid.'')"
    using header_codec.of_hex_bytes [OF assms(1) hash_text_hex32 [OF hh]]
    by (simp add: validateHeaderDifficulty_def validateByteWindow_def js_safe_def byte_slice_def)
  moreover have "proofOfWorkExceptions ?hash \<noteq> Some 570425343"
    by (simp add: proofOfWorkExceptions_def)
  ultimately have "validateHeaderProofOfWork sdk (with_position h ht ?hash) = Inl (JsError ''Block target encoding is invalid.'')"
    by (simp add: validateHeaderProofOfWork_def validateConsensusProofOfWork_def assms(3))
  then show ?thesis
    using sp vf by (simp add: Let_def)
qed

theorem unmined_header_is_accepted_witness:
  "let h = sample_header\<lparr>bits := 570425343\<rparr>; hd = with_position h 900000 (piece_hash zero_sdk (wire zero_sdk h)) in
     selfProving zero_sdk hd \<and> validateHeaderFormat zero_sdk hd = Inr ()
     \<and> validateHeaderProofOfWork zero_sdk hd = Inl (JsError ''Block target encoding is invalid.'')"
proof -
  have "wellformed (sample_header\<lparr>bits := 570425343\<rparr>)"
    using sample_canonical by (simp add: canonical_def wellformed_def)
  then show ?thesis
    using unmined_header_is_accepted [OF own.header_codec_axioms, of "sample_header\<lparr>bits := 570425343\<rparr>" 900000]
    by (simp add: Let_def)
qed

text \<open>On the bits the engine's check accepts the two targets agree.\<close>

lemma selfProving_agrees:
  assumes "header_codec sdk" "wellformed (base_of h)" "validateCompactTarget (bits h) = Inr t" "0 < t"
  shows "selfProving sdk h \<longleftrightarrow> blockHash sdk (base_of h) = Inr (hash h) \<and> int (hex_nat (hash h)) \<le> t"
  using header_codec.wire_length [OF assms(1,2)] assms(2,4) targetFromBits_compact [OF assms(3)]
  by (auto simp: selfProving_def serialize_wire_eq Let_def blockHash_def and_then_Inr serialize_wire
      blockHash_bytes_def doubleSha256BE_def doubleSha256LE_def)

end
