(* ===== verification/Height_Range.thy ===== *)
theory Height_Range
  imports Chain_Result
begin

text \<open>
  \<open>util/HeightRange.ts\<close> of the header tracker: a range of block heights, empty when its minimum
  exceeds its maximum. Heights are integers. The set of heights a range stands for is \<open>heights\<close>;
  the operations are exact on it, and the two partial ones refuse exactly when the result is not a
  single range. \<open>above\<close> is exact only for ranges that leave no gap.
\<close>

section \<open>Ranges\<close>

record height_range =
  minHeight :: int
  maxHeight :: int

definition mk_range :: "int \<Rightarrow> int \<Rightarrow> height_range" where
  "mk_range lo hi = \<lparr>minHeight = lo, maxHeight = hi\<rparr>"

definition range_empty :: height_range where
  "range_empty = mk_range 0 (- 1)"

definition isEmpty :: "height_range \<Rightarrow> bool" where
  "isEmpty r = (minHeight r > maxHeight r)"

text \<open>\<open>HeightRange.from\<close>, over the heights of the headers it is given.\<close>

definition range_from :: "int list \<Rightarrow> height_range" where
  "range_from hs = (case hs of [] \<Rightarrow> range_empty
     | h # _ \<Rightarrow> mk_range (foldl min h hs) (foldl max h hs))"

definition range_length :: "height_range \<Rightarrow> int" where
  "range_length r = max 0 (maxHeight r - minHeight r + 1)"

text \<open>\<open>contains\<close> of a single height and of a range.\<close>

definition contains_height :: "height_range \<Rightarrow> int \<Rightarrow> bool" where
  "contains_height r h = (minHeight r \<le> h \<and> maxHeight r \<ge> h)"

definition contains_range :: "height_range \<Rightarrow> height_range \<Rightarrow> bool" where
  "contains_range r q = (minHeight r \<le> minHeight q \<and> maxHeight r \<ge> maxHeight q)"

definition intersect :: "height_range \<Rightarrow> height_range \<Rightarrow> height_range" where
  "intersect r q = mk_range (max (minHeight r) (minHeight q)) (min (maxHeight r) (maxHeight q))"

definition range_copy :: "height_range \<Rightarrow> height_range" where
  "range_copy r = mk_range (minHeight r) (maxHeight r)"

definition range_union :: "height_range \<Rightarrow> height_range \<Rightarrow> chain_error + height_range" where
  "range_union r q =
    (if isEmpty r then Inr (range_copy q)
     else if isEmpty q then Inr (range_copy r)
     else if maxHeight r + 1 < minHeight q \<or> maxHeight q + 1 < minHeight r
       then Inl (JsError ''Union of ranges with a gap between them is not supported.'')
     else Inr (mk_range (min (minHeight r) (minHeight q)) (max (maxHeight r) (maxHeight q))))"

definition subtract :: "height_range \<Rightarrow> height_range \<Rightarrow> chain_error + height_range" where
  "subtract r q =
    (if isEmpty r \<or> isEmpty q then Inr (range_copy r)
     else if minHeight r < minHeight q \<and> maxHeight r > maxHeight q
       then Inl (JsError ''Subtraction of range that creates two disjoint ranges is not supported.'')
     else if maxHeight q < minHeight r \<or> minHeight q > maxHeight r then Inr (range_copy r)
     else if minHeight q \<le> minHeight r \<and> maxHeight q < maxHeight r
       then Inr (mk_range (maxHeight q + 1) (maxHeight r))
     else if minHeight q \<le> minHeight r \<and> maxHeight q \<ge> maxHeight r
       then Inr (mk_range (minHeight r) (minHeight r - 1))
     else if minHeight q \<le> maxHeight r \<and> maxHeight q \<ge> maxHeight r
       then Inr (mk_range (minHeight r) (minHeight q - 1))
     else Inl (JsError ''All cases should have been handled :-) .''))"

definition above :: "height_range \<Rightarrow> height_range \<Rightarrow> height_range" where
  "above r q = (if isEmpty q \<or> isEmpty r then range_copy r
     else mk_range (maxHeight q + 1) (maxHeight r))"

section \<open>The heights of a range\<close>

definition heights :: "height_range \<Rightarrow> int set" where
  "heights r = {minHeight r..maxHeight r}"

lemma mk_range_sel [simp]: "minHeight (mk_range a b) = a" "maxHeight (mk_range a b) = b"
  by (simp_all add: mk_range_def)

lemma heights_mk [simp]: "heights (mk_range a b) = {a..b}"
  by (simp add: heights_def)

lemma range_copy_sel [simp]: "minHeight (range_copy r) = minHeight r" "maxHeight (range_copy r) = maxHeight r"
  by (simp_all add: range_copy_def)

lemma heights_copy [simp]: "heights (range_copy r) = heights r"
  by (simp add: range_copy_def heights_def)

lemma isEmpty_heights: "isEmpty r \<longleftrightarrow> heights r = {}"
  by (auto simp: isEmpty_def heights_def)

lemma range_empty_heights [simp]: "heights range_empty = {}"
  by (simp add: range_empty_def)

lemma range_length_card: "range_length r = int (card (heights r))"
  by (simp add: range_length_def heights_def)

lemma contains_height_iff: "contains_height r h \<longleftrightarrow> h \<in> heights r"
  by (auto simp: contains_height_def heights_def)

lemma contains_range_sub: "contains_range r q \<Longrightarrow> heights q \<subseteq> heights r"
  by (auto simp: contains_range_def heights_def)

lemma contains_range_iff: "\<not> isEmpty q \<Longrightarrow> contains_range r q \<longleftrightarrow> heights q \<subseteq> heights r"
  by (auto simp: contains_range_def heights_def isEmpty_def)

lemma intersect_heights: "heights (intersect r q) = heights r \<inter> heights q"
  by (auto simp: intersect_def heights_def)

text \<open>A set of heights is a range when it has no hole.\<close>

lemma range_convex: "a \<in> heights r \<Longrightarrow> b \<in> heights r \<Longrightarrow> a \<le> c \<Longrightarrow> c \<le> b \<Longrightarrow> c \<in> heights r"
  by (auto simp: heights_def)

lemma union_heights: "range_union r q = Inr u \<Longrightarrow> heights u = heights r \<union> heights q"
  by (auto simp: range_union_def isEmpty_def heights_def split: if_splits)

lemma union_refused:
  assumes "range_union r q = Inl e"
  shows "heights u \<noteq> heights r \<union> heights q"
proof
  assume u: "heights u = heights r \<union> heights q"
  have ne: "\<not> isEmpty r" "\<not> isEmpty q"
    and gap: "maxHeight r + 1 < minHeight q \<or> maxHeight q + 1 < minHeight r"
    using assms by (auto simp: range_union_def split: if_splits)
  let ?c = "if maxHeight r + 1 < minHeight q then maxHeight r + 1 else maxHeight q + 1"
  have "maxHeight r \<in> heights u" "maxHeight q \<in> heights u"
    "minHeight r \<in> heights u" "minHeight q \<in> heights u"
    using ne unfolding u by (auto simp: heights_def isEmpty_def)
  then have "?c \<in> heights u"
    using gap by (auto simp: heights_def)
  then show False
    using gap ne unfolding u by (auto simp: heights_def isEmpty_def split: if_splits)
qed

lemma subtract_heights: "subtract r q = Inr u \<Longrightarrow> heights u = heights r - heights q"
  by (auto simp: subtract_def isEmpty_def heights_def split: if_splits)

lemma subtract_refused:
  assumes "subtract r q = Inl e"
  shows "heights u \<noteq> heights r - heights q"
proof
  assume u: "heights u = heights r - heights q"
  have *: "\<not> isEmpty q" "minHeight r < minHeight q" "maxHeight r > maxHeight q"
    using assms by (auto simp: subtract_def isEmpty_def split: if_splits)
  then have "minHeight r \<in> heights u" "maxHeight r \<in> heights u"
    unfolding u by (auto simp: heights_def isEmpty_def)
  then have "minHeight q \<in> heights u"
    by (rule range_convex) (use * in \<open>auto simp: isEmpty_def\<close>)
  then show False
    using *(1) unfolding u by (auto simp: heights_def isEmpty_def)
qed

lemma foldl_min_max:
  "foldl min (a::int) hs = Min (insert a (set hs))" "foldl max a hs = Max (insert a (set hs))"
  by (simp_all add: Min.set_eq_fold [of a hs, simplified] Max.set_eq_fold [of a hs, simplified]
      fold_commute_apply foldl_conv_fold min.commute max.commute)

lemma range_from_heights: "set hs \<subseteq> heights (range_from hs)"
  by (cases hs) (auto simp: range_from_def foldl_min_max)

lemma range_from_tight:
  assumes "set hs \<subseteq> heights r"
  shows "heights (range_from hs) \<subseteq> heights r"
proof (cases hs)
  case (Cons h t)
  then have "Min (set hs) \<in> heights r" "Max (set hs) \<in> heights r"
    using assms Min_in [of "set hs"] Max_in [of "set hs"] by auto
  then show ?thesis
    using Cons by (auto simp: range_from_def foldl_min_max heights_def insert_absorb)
qed (simp add: range_from_def)

text \<open>\<open>above\<close> agrees with the part of the range above \<open>q\<close> unless \<open>q\<close> ends more than one below it.\<close>

lemma above_heights:
  assumes "isEmpty r \<or> isEmpty q \<or> minHeight r \<le> maxHeight q + 1"
  shows "heights (above r q) = {h \<in> heights r. \<forall>k\<in>heights q. k < h}"
proof -
  have "(\<forall>k\<in>heights q. k < h) \<longleftrightarrow> isEmpty q \<or> maxHeight q < h" for h
    by (force simp: heights_def isEmpty_def)
  then show ?thesis
    using assms by (auto simp: above_def heights_def isEmpty_def)
qed

lemma above_extends:
  assumes "\<not> isEmpty r" "\<not> isEmpty q" "maxHeight q + 1 < minHeight r"
  shows "heights (above r q) = heights r \<union> {maxHeight q + 1..<minHeight r}"
  using assms by (auto simp: above_def heights_def isEmpty_def)

section \<open>The property\<close>

text \<open>The operations on height ranges are set operations: an intersection is exact; a union or a
  subtraction either returns the exact set of heights, or is refused, and is refused only when no
  range at all has that set of heights; the length is the number of heights; the range of a list of
  headers is the smallest range that holds them.\<close>

theorem range_operations_are_exact:
  "heights (intersect r q) = heights r \<inter> heights q
   \<and> (case range_union r q of
        Inr u \<Rightarrow> heights u = heights r \<union> heights q
      | Inl _ \<Rightarrow> (\<nexists>u. heights u = heights r \<union> heights q))
   \<and> (case subtract r q of
        Inr u \<Rightarrow> heights u = heights r - heights q
      | Inl _ \<Rightarrow> (\<nexists>u. heights u = heights r - heights q))
   \<and> range_length r = int (card (heights r))
   \<and> heights (range_from hs) = \<Inter> {heights v |v. set hs \<subseteq> heights v}"
proof -
  have "\<Inter> {heights v |v. set hs \<subseteq> heights v} \<subseteq> heights (range_from hs)"
    using range_from_heights [of hs] by blast
  moreover have "heights (range_from hs) \<subseteq> \<Inter> {heights v |v. set hs \<subseteq> heights v}"
    using range_from_tight by blast
  ultimately show ?thesis
    using union_heights [of r q] union_refused [of r q] subtract_heights [of r q] subtract_refused [of r q]
    by (auto simp: intersect_heights range_length_card split: sum.splits)
qed

text \<open>The boundary cases: the union of touching ranges, a gap, and a subtraction that would split.\<close>

lemma range_examples:
  "range_union (mk_range 0 9) (mk_range 10 19) = Inr (mk_range 0 19)"
  "range_union (mk_range 0 9) (mk_range 11 19) = Inl (JsError ''Union of ranges with a gap between them is not supported.'')"
  "subtract (mk_range 0 9) (mk_range 0 9) = Inr (mk_range 0 (- 1))"
  "isEmpty range_empty"
  "heights (above (mk_range 100 200) (mk_range 0 49)) = {50..200}"
  by (simp_all add: range_union_def subtract_def isEmpty_def range_empty_def above_def)

end
