(* ===== verification/Bulk_Files.thy ===== *)
theory Bulk_Files
  imports Header_Work Height_Range
begin

text \<open>
  The bulk part of the header tracker, \<open>util/BulkFileDataManager.ts\<close> with \<open>util/InlineBulkFileDataValidator.ts\<close>:
  the older headers of the chain in a sequence of files, the last of which may be an "incremental" file that
  grows as live headers are retired, while files from the CDN replace it from below. This is the manager
  without persistent storage (the in-memory tracker), so files have no \<open>fileId\<close>. Data that is not in memory
  is fetched by \<open>be_load\<close>, a parameter, and validated; releasing data of least recently used files, retry
  timers and statistics are left out (a file's data, once loaded, stays).
\<close>

section \<open>Files\<close>

record bulk_file =
  bf_chain :: chain
  bf_fileName :: string
  bf_sourceUrl :: "string option"
  bf_firstHeight :: int
  bf_count :: int
  bf_prevHash :: string
  bf_lastHash :: string
  bf_prevChainWork :: string
  bf_lastChainWork :: string
  bf_fileHash :: string
  bf_data :: "int list option"

text \<open>The manager's surroundings: the SDK, base64 of a digest, whether a text is a canonical base64 digest, the
  network, its chain and the size limit of CDN files.\<close>

record bulk_env =
  be_sdk :: header_sdk
  be_base64 :: "int list \<Rightarrow> string"
  be_canonical :: "string \<Rightarrow> bool"
  be_load :: "bulk_file \<Rightarrow> chain_error + int list"
  be_chain :: chain
  be_maxPerFile :: int

text \<open>\<open>fileHashToIndex\<close> is an object with string keys; \<open>delete\<close> removes the key.\<close>

record bulk_manager =
  bfds :: "bulk_file list"
  fileHashToIndex :: "(string, nat) jsmap"

record merge_result =
  mr_unchanged :: "bulk_file list"
  mr_inserted :: "bulk_file list"
  mr_updated :: "bulk_file list"
  mr_dropped :: "bulk_file list"

abbreviation max_bulk_file_headers :: int where
  "max_bulk_file_headers \<equiv> 100000"

abbreviation zeros32 :: string where
  "zeros32 \<equiv> replicate 64 CHR ''0''"

definition isBdfIncremental :: "bulk_file \<Rightarrow> bool" where
  "isBdfIncremental f = (bf_fileName f = ''incremental'' \<and> (bf_sourceUrl f = None \<or> bf_sourceUrl f = Some ''''))"

definition isBdfCdn :: "bulk_file \<Rightarrow> bool" where
  "isBdfCdn f = (\<not> isBdfIncremental f)"

definition bdf_hash :: "bulk_env \<Rightarrow> int list \<Rightarrow> string" where
  "bdf_hash env data = be_base64 env (sdk_sha256 (be_sdk env) data)"

definition valid_height :: "int \<Rightarrow> bool" where
  "valid_height h = (js_safe h \<and> 0 \<le> h \<and> h \<le> max_block_height)"

definition bf_covers :: "int \<Rightarrow> bulk_file \<Rightarrow> bool" where
  "bf_covers h f = (bf_firstHeight f \<le> h \<and> bf_firstHeight f + bf_count f > h)"

definition getBfdForHeight :: "bulk_file list \<Rightarrow> int \<Rightarrow> chain_error + bulk_file option" where
  "getBfdForHeight fs h =
     and_then (ensure (valid_height h) (InvalidParameter ''height'')) (\<lambda>_. Inr (List.find (bf_covers h) fs))"

definition getLastBfd :: "bulk_file list \<Rightarrow> nat \<Rightarrow> bulk_file option" where
  "getLastBfd fs fromEnd = (if length fs < fromEnd then None else Some (fs ! (length fs - fromEnd)))"

definition bulkHeightRange :: "bulk_file list \<Rightarrow> height_range" where
  "bulkHeightRange fs = (case fs of [] \<Rightarrow> range_empty
     | f # _ \<Rightarrow> mk_range (bf_firstHeight f) (bf_firstHeight (last fs) + bf_count (last fs) - 1))"

section \<open>Validation of one file\<close>

definition file_name_char :: "char \<Rightarrow> bool" where
  "file_name_char c = (let n = (of_char c :: nat) in (48 \<le> n \<and> n \<le> 57) \<or> (65 \<le> n \<and> n \<le> 90) \<or> (97 \<le> n \<and> n \<le> 122))"

definition safe_file_name :: "string \<Rightarrow> bool" where
  "safe_file_name s = (s \<noteq> [] \<and> length s \<le> 255 \<and> file_name_char (hd s)
     \<and> list_all (\<lambda>c. file_name_char c \<or> c \<in> set ''._~-'') (tl s))"

definition optional_string_ok :: "string option \<Rightarrow> bool" where
  "optional_string_ok v = (case v of None \<Rightarrow> True
     | Some s \<Rightarrow> length s \<le> 2048 \<and> list_all (\<lambda>c. (of_char c :: nat) \<notin> {0, 10, 13}) s)"

definition normalizeBulkHeaderFileInfo :: "bulk_env \<Rightarrow> bulk_file \<Rightarrow> chain_error + bulk_file" where
  "normalizeBulkHeaderFileInfo env f =
     and_then (ensure (js_safe (bf_count f) \<and> 1 \<le> bf_count f \<and> bf_count f \<le> max_bulk_file_headers)
        (InvalidParameter ''bulk file count'')) (\<lambda>_.
     and_then (ensure (js_safe (bf_firstHeight f) \<and> 0 \<le> bf_firstHeight f \<and> bf_firstHeight f \<le> max_block_height
        \<and> bf_firstHeight f + bf_count f - 1 \<le> max_block_height) (InvalidParameter ''bulk file firstHeight'')) (\<lambda>_.
     and_then (ensure (safe_file_name (bf_fileName f)) (InvalidParameter ''bulk file fileName'')) (\<lambda>_.
     and_then (ensure (be_canonical env (bf_fileHash f)) (InvalidParameter ''bulk file fileHash'')) (\<lambda>_.
     and_then (ensure (hash_text (bf_prevHash f)) (InvalidParameter ''bulk file prevHash'')) (\<lambda>_.
     and_then (ensure (hash_text (bf_lastHash f)) (InvalidParameter ''bulk file lastHash'')) (\<lambda>_.
     and_then (ensure (hash_text (bf_prevChainWork f)) (InvalidParameter ''bulk file prevChainWork'')) (\<lambda>_.
     and_then (ensure (hash_text (bf_lastChainWork f)) (InvalidParameter ''bulk file lastChainWork'')) (\<lambda>_.
     and_then (ensure (optional_string_ok (bf_sourceUrl f)) (InvalidParameter ''bulk file sourceUrl''))
     (\<lambda>_. Inr f)))))))))"

text \<open>\<open>InlineBulkFileDataValidator.validate\<close>: the whole data of a file against its description. Every refusal
  is rethrown as a \<open>BulkFileDataValidationError\<close>. The answer is the last hash and the accumulated work.\<close>

definition validation_failed :: "chain_error + 'a \<Rightarrow> chain_error + 'a" where
  "validation_failed r = (case r of Inl _ \<Rightarrow> Inl (JsError ''BulkFileDataValidationError'') | Inr x \<Rightarrow> Inr x)"

definition inline_validate :: "bulk_env \<Rightarrow> bulk_file \<Rightarrow> int list \<Rightarrow> string \<Rightarrow> string \<Rightarrow> chain_error + string \<times> string" where
  "inline_validate env f data prevHash prevWork = validation_failed (
     and_then (ensure (js_safe (bf_count f) \<and> 1 \<le> bf_count f \<and> bf_count f \<le> max_bulk_file_headers) (InvalidParameter ''request.count'')) (\<lambda>_.
     and_then (ensure (int (length data) = bf_count f * 80) (InvalidParameter ''request.data'')) (\<lambda>_.
     and_then (ensure (js_safe (bf_firstHeight f) \<and> 0 \<le> bf_firstHeight f \<and> bf_firstHeight f + bf_count f - 1 \<le> max_block_height)
        (InvalidParameter ''request.firstHeight'')) (\<lambda>_.
     and_then (ensure (safe_file_name (bf_fileName f)) (InvalidParameter ''request.fileName'')) (\<lambda>_.
     and_then (ensure (be_canonical env (bf_fileHash f)) (InvalidParameter ''request.fileHash'')) (\<lambda>_.
     and_then (ensure (hash_text prevHash \<and> hash_text prevWork \<and> hash_text (bf_lastHash f) \<and> hash_text (bf_lastChainWork f))
        (InvalidParameter ''request.prevHash'')) (\<lambda>_.
     and_then (ensure (bdf_hash env data = bf_fileHash f) (InvalidParameter ''fileHash'')) (\<lambda>_.
     and_then (validateBufferOfHeaders (be_sdk env) data prevHash 0 (bf_count f) (Some prevWork)) (\<lambda>(lastHeaderHash, lastChainWork).
     and_then (ensure (bf_lastHash f = lastHeaderHash) (InvalidParameter ''file.lastHash'')) (\<lambda>_.
     and_then (ensure (Some (bf_lastChainWork f) = lastChainWork) (InvalidParameter ''file.lastChainWork'')) (\<lambda>_.
     and_then (if bf_firstHeight f = 0 then validateGenesisHeader (be_sdk env) data (bf_chain f) else Inr ()) (\<lambda>_.
     Inr (lastHeaderHash, bf_lastChainWork f)))))))))))))"

text \<open>\<open>validateRetrievedData\<close> with \<open>validateBfdHeaders\<close>: the anchor is the file that ends just below.\<close>

definition validateRetrievedData :: "bulk_env \<Rightarrow> bulk_file list \<Rightarrow> bulk_file \<Rightarrow> int list \<Rightarrow> chain_error + bulk_file" where
  "validateRetrievedData env fs f data =
     and_then (if bf_firstHeight f > 0 then getBfdForHeight fs (bf_firstHeight f - 1) else Inr None) (\<lambda>pbf.
     let prevHash = (case pbf of Some p \<Rightarrow> bf_lastHash p | None \<Rightarrow> zeros32);
         prevWork = (case pbf of Some p \<Rightarrow> bf_lastChainWork p | None \<Rightarrow> zeros32) in
     and_then (inline_validate env f data prevHash prevWork) (\<lambda>(lh, lw).
     Inr (f\<lparr>bf_data := Some data, bf_lastHash := lh, bf_lastChainWork := lw\<rparr>)))"

definition ensureData :: "bulk_env \<Rightarrow> bulk_file list \<Rightarrow> bulk_file \<Rightarrow> chain_error + bulk_file" where
  "ensureData env fs f = (case bf_data f of
      Some _ \<Rightarrow> Inr f
    | None \<Rightarrow> and_then (be_load env f) (validateRetrievedData env fs f))"

definition validateFileInfo :: "bulk_env \<Rightarrow> bulk_file list \<Rightarrow> bulk_file \<Rightarrow> chain_error + bulk_file" where
  "validateFileInfo env fs f0 =
     and_then (normalizeBulkHeaderFileInfo env f0) (\<lambda>f.
     and_then (ensure (bf_chain f = be_chain env) (InvalidParameter ''chain'')) (\<lambda>_.
     and_then (ensure (\<not> (bf_count f > be_maxPerFile env \<and> bf_fileName f \<noteq> ''incremental'')) (InvalidParameter ''count'')) (\<lambda>_.
     and_then (ensure (bf_fileHash f \<noteq> '''') (InvalidParameter ''fileHash'')) (\<lambda>_.
     and_then (ensure (\<not> ((bf_sourceUrl f = None \<or> bf_sourceUrl f = Some '''') \<and> bf_data f = None)) (InvalidParameter ''data'')) (\<lambda>_.
     case bf_data f of
       None \<Rightarrow> Inr f
     | Some data \<Rightarrow> validateRetrievedData env fs f data)))))"

section \<open>Changing the sequence of files\<close>

definition index_of :: "bulk_manager \<Rightarrow> string \<Rightarrow> nat option" where
  "index_of m h = jsmap_get (fileHashToIndex m) h"

definition validateBfdForAdd :: "bulk_manager \<Rightarrow> bulk_file \<Rightarrow> chain_error + unit" where
  "validateBfdForAdd m f =
     and_then (ensure (index_of m (bf_fileHash f) = None) (InvalidParameter ''fileHash'')) (\<lambda>_.
     case bfds m of
       [] \<Rightarrow> ensure (bf_firstHeight f = 0) (InvalidParameter ''firstHeight'')
     | _ # _ \<Rightarrow> let lst = last (bfds m) in
         and_then (ensure (bf_firstHeight f = bf_firstHeight lst + bf_count lst) (InvalidParameter ''firstHeight'')) (\<lambda>_.
         ensure (bf_prevHash f = bf_lastHash lst \<and> bf_prevChainWork f = bf_lastChainWork lst)
           (InvalidParameter ''prevHash/prevChainWork'')))"

definition add :: "bulk_manager \<Rightarrow> bulk_file \<Rightarrow> chain_error + bulk_manager" where
  "add m f = and_then (validateBfdForAdd m f) (\<lambda>_.
     Inr (m\<lparr>bfds := bfds m @ [f], fileHashToIndex := jsmap_set (bf_fileHash f) (length (bfds m)) (fileHashToIndex m)\<rparr>))"

definition replaceBfdAtIndex :: "nat \<Rightarrow> bulk_file \<Rightarrow> bulk_manager \<Rightarrow> bulk_manager" where
  "replaceBfdAtIndex i u m = m\<lparr>bfds := (bfds m)[i := u],
     fileHashToIndex := jsmap_set (bf_fileHash u) i (jsmap_delete (bf_fileHash (bfds m ! i)) (fileHashToIndex m))\<rparr>"

definition mergeIncremental :: "bulk_env \<Rightarrow> bulk_manager \<Rightarrow> bulk_file \<Rightarrow> bulk_file \<Rightarrow> chain_error + bulk_manager \<times> bulk_file" where
  "mergeIncremental env m lbf0 vbf =
     and_then (ensure (bf_count lbf0 + bf_count vbf \<le> max_bulk_file_headers) (InvalidParameter ''incremental headers'')) (\<lambda>_.
     and_then (ensureData env (bfds m) lbf0) (\<lambda>lbf.
     case (bf_data lbf, bf_data vbf) of
       (Some a, Some b) \<Rightarrow>
         let merged = lbf\<lparr>bf_count := bf_count lbf + bf_count vbf, bf_lastHash := bf_lastHash vbf,
               bf_lastChainWork := bf_lastChainWork vbf, bf_data := Some (a @ b), bf_fileHash := bdf_hash env (a @ b)\<rparr>
         in Inr (replaceBfdAtIndex (length (bfds m) - 1) merged m, merged)
     | _ \<Rightarrow> Inl (JsTypeError ''data is undefined'')))"

text \<open>What an update replaces: the index, and the last file when it is to be truncated (after replacing the file
  before it, or itself) or dropped.\<close>

record update_plan =
  up_index :: nat
  up_truncate :: "bulk_file option"
  up_replaced :: "bulk_file option"
  up_drop :: "bulk_file option"

definition resolveLastFileUpdate :: "bulk_env \<Rightarrow> bulk_manager \<Rightarrow> bulk_file \<Rightarrow> bulk_file \<Rightarrow> nat \<Rightarrow> chain_error + update_plan" where
  "resolveLastFileUpdate env m u lastFile i =
     (let plain = \<lparr>up_index = i, up_truncate = None, up_replaced = None, up_drop = None\<rparr> in
      if isBdfIncremental u then and_then (ensure (isBdfIncremental lastFile) (InvalidParameter ''file'')) (\<lambda>_. Inr plain)
      else if isBdfCdn lastFile then
        and_then (ensure (\<not> bf_count u \<le> bf_count lastFile) (InvalidParameter ''update.count'')) (\<lambda>_. Inr plain)
      else if bf_count u < bf_count lastFile then
        and_then (ensureData env (bfds m) lastFile) (\<lambda>l. Inr (plain\<lparr>up_truncate := Some l\<rparr>))
      else Inr plain)"

definition resolvePenultimateFileUpdate ::
  "bulk_env \<Rightarrow> bulk_manager \<Rightarrow> bulk_file \<Rightarrow> bulk_file \<Rightarrow> bulk_file \<Rightarrow> nat \<Rightarrow> chain_error + update_plan \<times> bulk_file" where
  "resolvePenultimateFileUpdate env m u expected lastFile lastIndex =
     (case getLastBfd (bfds m) 2 of
        None \<Rightarrow> Inl (InvalidParameter ''file'')
      | Some pen \<Rightarrow>
          and_then (ensure (bf_firstHeight pen = bf_firstHeight expected) (InvalidParameter ''file'')) (\<lambda>_.
          and_then (ensure (\<not> (\<not> isBdfCdn u \<or> \<not> isBdfCdn pen \<or> bf_count u \<le> bf_count pen)) (InvalidParameter ''file'')) (\<lambda>_.
          and_then (ensure (isBdfIncremental lastFile) (InvalidParameter ''file'')) (\<lambda>_.
          if bf_count u \<ge> bf_count pen + bf_count lastFile
          then Inr (\<lparr>up_index = lastIndex - 1, up_truncate = None, up_replaced = None, up_drop = Some lastFile\<rparr>, pen)
          else and_then (ensureData env (bfds m) lastFile) (\<lambda>l.
            Inr (\<lparr>up_index = lastIndex - 1, up_truncate = Some l, up_replaced = Some pen, up_drop = None\<rparr>, pen))))))"

definition resolveUpdatePlan :: "bulk_env \<Rightarrow> bulk_manager \<Rightarrow> bulk_file \<Rightarrow> bulk_file \<Rightarrow> chain_error + update_plan" where
  "resolveUpdatePlan env m u hbf =
     (let lbf = last (bfds m); i = length (bfds m) - 1 in
      if bf_firstHeight hbf = bf_firstHeight lbf then resolveLastFileUpdate env m u lbf i
      else and_then (resolvePenultimateFileUpdate env m u hbf lbf i) (\<lambda>(p, _). Inr p))"

text \<open>\<open>shiftWork\<close>: the truncated file loses the headers that are now in the update; its anchor becomes the
  update's end. \<open>truncate\<close> is the object that sits after the update when a file before it was replaced.\<close>

definition shiftWork :: "bulk_env \<Rightarrow> bulk_file \<Rightarrow> bulk_file \<Rightarrow> bulk_file option \<Rightarrow> bulk_manager \<Rightarrow> chain_error + bulk_manager \<times> bulk_file" where
  "shiftWork env u t replaced m =
     (case index_of m (bf_fileHash u) of
        None \<Rightarrow> Inl (InternalError ''shiftWork'')
      | Some updateIndex \<Rightarrow>
          and_then (ensure (case index_of m (bf_fileHash t) of None \<Rightarrow> True | Some ti \<Rightarrow> ti = updateIndex + 1) (InternalError ''shiftWork'')) (\<lambda>_.
          and_then (ensure (\<not> (index_of m (bf_fileHash t) \<noteq> None \<and> replaced = None)) (InternalError ''shiftWork'')) (\<lambda>_.
          let cnt = bf_count u - (case replaced of Some r \<Rightarrow> bf_count r | None \<Rightarrow> 0) in
          (case bf_data t of
             None \<Rightarrow> Inl (JsTypeError ''data is undefined'')
           | Some d \<Rightarrow>
               let rest = drop (nat (cnt * 80)) d;
                   t' = t\<lparr>bf_prevHash := bf_lastHash u, bf_prevChainWork := bf_lastChainWork u,
                          bf_count := bf_count t - cnt, bf_firstHeight := bf_firstHeight t + cnt,
                          bf_data := Some rest, bf_fileHash := bdf_hash env rest\<rparr>;
                   fs = (case replaced of None \<Rightarrow> bfds m @ [t'] | Some _ \<Rightarrow> (bfds m)[updateIndex + 1 := t']) in
               Inr (m\<lparr>bfds := fs,
                      fileHashToIndex := jsmap_set (bf_fileHash t') (updateIndex + 1)
                        (jsmap_delete (bf_fileHash t) (fileHashToIndex m))\<rparr>, t')))))"

definition dropLastBulkFile :: "bulk_file \<Rightarrow> bulk_manager \<Rightarrow> chain_error + bulk_manager" where
  "dropLastBulkFile lbf m =
     and_then (ensure (bfds m \<noteq> [] \<and> last (bfds m) = lbf) (InternalError ''dropLastBulkFile'')) (\<lambda>_.
     Inr (m\<lparr>bfds := butlast (bfds m), fileHashToIndex := jsmap_delete (bf_fileHash lbf) (fileHashToIndex m)\<rparr>))"

text \<open>\<open>update\<close>. On a failure the code puts the previous files back and rebuilds their index.\<close>

definition update_file :: "bulk_env \<Rightarrow> bulk_manager \<Rightarrow> bulk_file \<Rightarrow> bulk_file \<Rightarrow> merge_result \<Rightarrow> chain_error + bulk_manager \<times> merge_result" where
  "update_file env m u hbf r =
     and_then (ensure (bf_firstHeight hbf = bf_firstHeight u \<and> bf_prevChainWork hbf = bf_prevChainWork u \<and> bf_prevHash hbf = bf_prevHash u)
        (InvalidParameter ''file'')) (\<lambda>_.
     and_then (ensure (\<not> (isBdfCdn u = isBdfCdn hbf \<and> bf_count u \<le> bf_count hbf)) (InvalidParameter ''file.count'')) (\<lambda>_.
     and_then (resolveUpdatePlan env m u hbf) (\<lambda>p.
     let m1 = replaceBfdAtIndex (up_index p) u m in
     and_then (case up_truncate p of
         None \<Rightarrow> Inr (m1, None)
       | Some t \<Rightarrow> and_then (shiftWork env u t (up_replaced p) m1) (\<lambda>(m2, t'). Inr (m2, Some t'))) (\<lambda>(m2, t').
     and_then (case up_drop p of None \<Rightarrow> Inr m2 | Some d \<Rightarrow> dropLastBulkFile d m2) (\<lambda>m3.
     let r1 = r\<lparr>mr_updated := mr_updated r @ [u]\<rparr>;
         r2 = (case t' of None \<Rightarrow> r1
               | Some t \<Rightarrow> if up_replaced p \<noteq> None then r1\<lparr>mr_updated := mr_updated r1 @ [t]\<rparr>
                           else r1\<lparr>mr_inserted := mr_inserted r1 @ [t]\<rparr>);
         r3 = (case up_drop p of None \<Rightarrow> r2 | Some d \<Rightarrow> r2\<lparr>mr_dropped := mr_dropped r2 @ [d]\<rparr>) in
     Inr (m3, r3))))))"

definition merge_one :: "bulk_env \<Rightarrow> bulk_manager \<Rightarrow> bulk_file \<Rightarrow> merge_result \<Rightarrow> chain_error + bulk_manager \<times> merge_result" where
  "merge_one env m file0 r =
     and_then (normalizeBulkHeaderFileInfo env file0) (\<lambda>file.
     and_then (getBfdForHeight (bfds m) (bf_firstHeight file)) (\<lambda>hbf.
     if (case hbf of Some h \<Rightarrow> bf_fileHash h = bf_fileHash file \<and> bf_count h = bf_count file \<and> bf_lastHash h = bf_lastHash file
             \<and> bf_lastChainWork h = bf_lastChainWork file | None \<Rightarrow> False)
     then Inr (m, r\<lparr>mr_unchanged := mr_unchanged r @ [the hbf]\<rparr>)
     else and_then (validateFileInfo env (bfds m) file) (\<lambda>vbf.
       case hbf of
         Some h \<Rightarrow> and_then (ensureData env (bfds m) vbf) (\<lambda>v. update_file env m v h r)
       | None \<Rightarrow>
           if isBdfIncremental vbf \<and> (case getLastBfd (bfds m) 1 of Some l \<Rightarrow> isBdfIncremental l | None \<Rightarrow> False)
           then and_then (mergeIncremental env m (last (bfds m)) vbf) (\<lambda>(m', merged).
             Inr (m', r\<lparr>mr_updated := mr_updated r @ [merged]\<rparr>))
           else and_then (add m vbf) (\<lambda>m'. Inr (m', r\<lparr>mr_inserted := mr_inserted r @ [vbf]\<rparr>)))))"

text \<open>\<open>mergeNoLock\<close>: the files merged before a refusal stay merged.\<close>

fun merge_files :: "bulk_env \<Rightarrow> bulk_manager \<Rightarrow> bulk_file list \<Rightarrow> merge_result \<Rightarrow> bulk_manager \<times> (chain_error + merge_result)" where
  "merge_files env m [] r = (m, Inr r)"
| "merge_files env m (f # fs) r = (case merge_one env m f r of
      Inl e \<Rightarrow> (m, Inl e)
    | Inr (m', r') \<Rightarrow> merge_files env m' fs r')"

definition empty_result :: merge_result where
  "empty_result = \<lparr>mr_unchanged = [], mr_inserted = [], mr_updated = [], mr_dropped = []\<rparr>"

definition merge_bulk :: "bulk_env \<Rightarrow> bulk_manager \<Rightarrow> bulk_file list \<Rightarrow> bulk_manager \<times> (chain_error + merge_result)" where
  "merge_bulk env m files =
     (if length files > 10000 then (m, Inl (InvalidParameter ''files'')) else merge_files env m files empty_result)"

section \<open>Appending retired live headers\<close>

fun trimAlreadyStoredHeaders :: "'a block_header_scheme list \<Rightarrow> int \<Rightarrow> string option \<Rightarrow> chain_error + 'a block_header_scheme list \<times> string option" where
  "trimAlreadyStoredHeaders [] nextHeight w = Inr ([], w)"
| "trimAlreadyStoredHeaders (h # hs) nextHeight w =
    (if nextHeight \<le> 0 \<or> height h \<ge> nextHeight then Inr (h # hs, w)
     else and_then (case w of
         None \<Rightarrow> Inr None
       | Some iw \<Rightarrow> and_then (convertBitsToWork (bits h)) (\<lambda>bw. and_then (subWork iw bw) (\<lambda>s. Inr (Some s))))
       (\<lambda>w'. trimAlreadyStoredHeaders hs nextHeight w'))"

fun chain_work_from :: "int \<Rightarrow> string \<Rightarrow> string \<Rightarrow> 'a block_header_scheme list \<Rightarrow> chain_error + string" where
  "chain_work_from lastHeight lastHsh lastWork [] = Inr lastWork"
| "chain_work_from lastHeight lastHsh lastWork (h # hs) =
     and_then (ensure (\<not> (height h \<noteq> lastHeight + 1 \<or> previousHash h \<noteq> lastHsh)) (InvalidParameter ''headers'')) (\<lambda>_.
     and_then (convertBitsToWork (bits h)) (\<lambda>bw.
     and_then (addWork lastWork bw) (\<lambda>w. chain_work_from (height h) (hash h) w hs)))"

definition computeChainWorkFromHeaders :: "'a block_header_scheme list \<Rightarrow> bulk_file option \<Rightarrow> chain_error + string" where
  "computeChainWorkFromHeaders hs lbf = (case lbf of
      Some f \<Rightarrow> chain_work_from (bf_firstHeight f + bf_count f - 1) (bf_lastHash f) (bf_lastChainWork f) hs
    | None \<Rightarrow> chain_work_from (- 1) zeros32 zeros32 hs)"

definition authenticate :: "header_sdk \<Rightarrow> 'a block_header_scheme \<Rightarrow> chain_error + 'a block_header_scheme" where
  "authenticate sdk h = and_then (validateHeaderFormat sdk h) (\<lambda>_. and_then (validateHeaderProofOfWork sdk h) (\<lambda>_. Inr h))"

definition incremental_file :: "bulk_env \<Rightarrow> 'a block_header_scheme list \<Rightarrow> string \<Rightarrow> string \<Rightarrow> string \<Rightarrow> int list \<Rightarrow> bulk_file" where
  "incremental_file env hs prevWork lastWork prevHsh data =
     \<lparr>bf_chain = be_chain env, bf_fileName = ''incremental'', bf_sourceUrl = None, bf_firstHeight = height (hd hs),
      bf_count = int (length hs), bf_prevHash = prevHsh, bf_lastHash = hash (last hs), bf_prevChainWork = prevWork,
      bf_lastChainWork = lastWork, bf_fileHash = bdf_hash env data, bf_data = Some data\<rparr>"

text \<open>Where the files end: the next height, and the hash and work to build on (zeros before the first file).\<close>

definition nextBulkHeight :: "bulk_manager \<Rightarrow> int" where
  "nextBulkHeight m = (case getLastBfd (bfds m) 1 of Some f \<Rightarrow> bf_firstHeight f + bf_count f | None \<Rightarrow> 0)"

definition lastBulkWork :: "bulk_manager \<Rightarrow> string" where
  "lastBulkWork m = (case getLastBfd (bfds m) 1 of Some f \<Rightarrow> bf_lastChainWork f | None \<Rightarrow> zeros32)"

definition lastBulkHash :: "bulk_manager \<Rightarrow> string" where
  "lastBulkHash m = (case getLastBfd (bfds m) 1 of Some f \<Rightarrow> bf_lastHash f | None \<Rightarrow> zeros32)"

text \<open>The part of \<open>mergeIncrementalBlockHeaders\<close> after the trimming.\<close>

definition append_incremental ::
  "bulk_env \<Rightarrow> bulk_manager \<Rightarrow> 'a block_header_scheme list \<Rightarrow> string option \<Rightarrow> chain_error + bulk_manager" where
  "append_incremental env m hs iw =
     and_then (ensure (nextBulkHeight m = height (hd hs)) (InvalidParameter ''newBulkHeaders'')) (\<lambda>_.
     and_then (ensure (lastBulkHash m \<noteq> '''') (InternalError ''lastHash'')) (\<lambda>_.
     and_then (case iw of Some w \<Rightarrow> addWork w (lastBulkWork m)
        | None \<Rightarrow> computeChainWorkFromHeaders hs (getLastBfd (bfds m) 1)) (\<lambda>lastWork.
     and_then (serializeBaseBlockHeaders (be_sdk env) hs) (\<lambda>data.
     and_then (merge_one env m (incremental_file env hs (lastBulkWork m) lastWork (lastBulkHash m) data) empty_result)
     (\<lambda>(m', _). Inr m')))))"

definition mergeIncrementalBlockHeaders ::
  "bulk_env \<Rightarrow> bulk_manager \<Rightarrow> 'a block_header_scheme list \<Rightarrow> string option \<Rightarrow> chain_error + bulk_manager" where
  "mergeIncrementalBlockHeaders env m newBulkHeaders incrementalWork =
     and_then (ensure (int (length newBulkHeaders) \<le> max_bulk_file_headers) (InvalidParameter ''newBulkHeaders'')) (\<lambda>_.
     and_then (each (authenticate (be_sdk env)) newBulkHeaders) (\<lambda>auth.
     if auth = [] then Inr m
     else and_then (ensure (case incrementalWork of None \<Rightarrow> True | Some w \<Rightarrow> hash_text w) (InvalidParameter ''incrementalChainWork'')) (\<lambda>_.
     and_then (trimAlreadyStoredHeaders auth (nextBulkHeight m) incrementalWork) (\<lambda>(hs, iw).
     if hs = [] then Inr m else append_incremental env m hs iw))))"

section \<open>The files stay one linked sequence\<close>

definition bf_link :: "bulk_file \<Rightarrow> bulk_file \<Rightarrow> bool" where
  "bf_link f g = (bf_firstHeight g = bf_firstHeight f + bf_count f \<and> bf_prevHash g = bf_lastHash f
     \<and> bf_prevChainWork g = bf_lastChainWork f)"

definition files_ok :: "bulk_file list \<Rightarrow> bool" where
  "files_ok fs = ((fs = [] \<or> bf_firstHeight (hd fs) = 0)
     \<and> (\<forall>f\<in>set fs. 1 \<le> bf_count f) \<and> successively bf_link fs)"

lemma files_ok_snoc: "files_ok (fs @ [g]) \<longleftrightarrow> files_ok fs \<and> 1 \<le> bf_count g
    \<and> (if fs = [] then bf_firstHeight g = 0 else bf_link (last fs) g)"
  by (auto simp: files_ok_def successively_append_iff hd_append)

lemma files_ok_sorted: "files_ok fs \<Longrightarrow> sorted_wrt (\<lambda>f g. bf_firstHeight f < bf_firstHeight g) fs"
proof (induction fs rule: rev_induct)
  case (snoc g fs)
  have ok: "files_ok fs" and s: "sorted_wrt (\<lambda>f g. bf_firstHeight f < bf_firstHeight g) fs"
    using snoc by (simp_all add: files_ok_snoc)
  have "bf_firstHeight f < bf_firstHeight g" if "f \<in> set fs" for f
  proof -
    have ne: "fs \<noteq> []" using that by auto
    then have l: "last fs \<in> set fs" "bf_link (last fs) g"
      using snoc.prems by (simp_all add: files_ok_snoc)
    have c: "1 \<le> bf_count (last fs)"
      using ok l(1) by (simp add: files_ok_def)
    have "f = last fs \<or> bf_firstHeight f < bf_firstHeight (last fs)"
    proof (cases fs rule: rev_cases)
      case (snoc ys y)
      then show ?thesis using s that by (auto simp: sorted_wrt_append)
    qed (use that in simp)
    then show ?thesis using l c by (auto simp: bf_link_def)
  qed
  then show ?case using s by (simp add: sorted_wrt_append)
qed simp

lemma files_ok_unique:
  assumes "files_ok fs" "f \<in> set fs" "g \<in> set fs" "bf_firstHeight f = bf_firstHeight g"
  shows "f = g"
proof -
  have "distinct (map bf_firstHeight fs)"
    using files_ok_sorted [OF assms(1)] by (induction fs) (auto simp: image_iff)
  then show ?thesis
    using assms(2-4) by (auto simp: distinct_map dest: inj_onD)
qed

lemma validation_failed_Inr: "validation_failed r = Inr x \<longleftrightarrow> r = Inr x"
  by (cases r) (simp_all add: validation_failed_def)

lemma inline_validate_same: "inline_validate env f data p w = Inr (a, b) \<Longrightarrow> a = bf_lastHash f \<and> b = bf_lastChainWork f"
  by (auto simp: inline_validate_def validation_failed_Inr and_then_Inr)

lemma validateRetrievedData_same:
  "validateRetrievedData env fs f data = Inr g \<Longrightarrow> g = f\<lparr>bf_data := Some data\<rparr>"
  by (auto simp: validateRetrievedData_def and_then_Inr Let_def split: prod.splits dest!: inline_validate_same)

lemma ensureData_same: "ensureData env fs f = Inr g \<Longrightarrow> \<exists>d. g = f\<lparr>bf_data := Some d\<rparr>"
proof (cases "bf_data f")
  case (Some d)
  assume "ensureData env fs f = Inr g"
  then have "g = f\<lparr>bf_data := Some d\<rparr>" using Some by (simp add: ensureData_def)
  then show ?thesis by blast
qed (auto simp: ensureData_def and_then_Inr dest: validateRetrievedData_same)

lemma ensureData_keeps:
  assumes "ensureData env fs f = Inr g"
  shows "bf_firstHeight g = bf_firstHeight f" "bf_count g = bf_count f" "bf_prevHash g = bf_prevHash f"
    "bf_lastHash g = bf_lastHash f" "bf_prevChainWork g = bf_prevChainWork f" "bf_lastChainWork g = bf_lastChainWork f"
    "bf_fileHash g = bf_fileHash f"
  using ensureData_same [OF assms] by auto

lemma normalize_same: "normalizeBulkHeaderFileInfo env f = Inr g \<Longrightarrow> g = f \<and> 1 \<le> bf_count f \<and> hash_text (bf_lastHash f)
    \<and> hash_text (bf_lastChainWork f) \<and> 0 \<le> bf_firstHeight f"
  by (auto simp: normalizeBulkHeaderFileInfo_def and_then_Inr)

lemma validateFileInfo_keeps:
  assumes "validateFileInfo env fs f = Inr g"
  shows "bf_firstHeight g = bf_firstHeight f" "bf_count g = bf_count f" "bf_prevHash g = bf_prevHash f"
    "bf_lastHash g = bf_lastHash f" "bf_prevChainWork g = bf_prevChainWork f" "bf_lastChainWork g = bf_lastChainWork f"
    "1 \<le> bf_count g" "bf_data g = bf_data f" "bf_fileName g = bf_fileName f" "bf_sourceUrl g = bf_sourceUrl f"
  using assms
  by (auto simp: validateFileInfo_def and_then_Inr dest!: normalize_same validateRetrievedData_same
      split: option.splits if_splits)

lemma add_ok:
  assumes "files_ok (bfds m)" "add m f = Inr m'" "1 \<le> bf_count f"
  shows "bfds m' = bfds m @ [f] \<and> files_ok (bfds m')"
proof -
  have m': "bfds m' = bfds m @ [f]" and v: "validateBfdForAdd m f = Inr ()"
    using assms(2) by (auto simp: add_def and_then_Inr)
  have "files_ok (bfds m @ [f])"
    unfolding files_ok_snoc
    using assms(1,3) v by (auto simp: validateBfdForAdd_def bf_link_def Let_def split: list.splits)
  then show ?thesis by (simp add: m')
qed

lemma replace_last: "bfds m = gs @ [l] \<Longrightarrow> bfds (replaceBfdAtIndex (length gs) u m) = gs @ [u]"
  by (simp add: replaceBfdAtIndex_def)

lemma mergeIncremental_ok:
  assumes ok: "files_ok (bfds m)" and ne: "bfds m \<noteq> []" and "mergeIncremental env m (last (bfds m)) v = Inr (m', g)"
    and "1 \<le> bf_count v"
  shows "files_ok (bfds m') \<and> last (bfds m') = g \<and> bfds m' \<noteq> []
    \<and> bf_firstHeight g = bf_firstHeight (last (bfds m)) \<and> bf_count g = bf_count (last (bfds m)) + bf_count v
    \<and> bf_lastHash g = bf_lastHash v \<and> bf_lastChainWork g = bf_lastChainWork v"
proof -
  obtain gs l where fs: "bfds m = gs @ [l]"
    using ne by (metis append_butlast_last_id)
  obtain l' where l': "ensureData env (bfds m) l = Inr l'"
    using assms(3) by (auto simp: mergeIncremental_def and_then_Inr fs)
  then obtain a where a: "bf_data l' = Some a"
    using ensureData_same by fastforce
  obtain b where b: "bf_data v = Some b"
    using assms(3) l' a by (auto simp: mergeIncremental_def fs split: option.splits)
  have m': "m' = replaceBfdAtIndex (length gs) g m"
    and g: "g = l'\<lparr>bf_count := bf_count l' + bf_count v, bf_lastHash := bf_lastHash v,
               bf_lastChainWork := bf_lastChainWork v, bf_data := Some (a @ b), bf_fileHash := bdf_hash env (a @ b)\<rparr>"
    using assms(3) l' a b by (auto simp: mergeIncremental_def fs Let_def)
  show ?thesis
    using ok assms(4) ensureData_keeps [OF l'] g replace_last [OF fs, of g]
    by (auto simp: fs m' files_ok_snoc bf_link_def split: if_splits)
qed

text \<open>An update replaces the last file, or the one before it and trims or drops the last.\<close>

lemma update_file_ok:
  assumes ok: "files_ok (bfds m)" and hbf: "h \<in> set (bfds m)" and u: "1 \<le> bf_count u"
    and upd: "update_file env m u h r = Inr (m', r')"
  shows "files_ok (bfds m')"
proof -
  obtain gs l where fs: "bfds m = gs @ [l]"
    using hbf by (cases "bfds m" rule: rev_cases) auto
  have same: "bf_firstHeight u = bf_firstHeight h" "bf_prevChainWork u = bf_prevChainWork h" "bf_prevHash u = bf_prevHash h"
    using upd by (auto simp: update_file_def and_then_Inr split: if_splits)
  obtain p where p: "resolveUpdatePlan env m u h = Inr p"
    using upd by (auto simp: update_file_def and_then_Inr split: if_splits)
  show ?thesis
  proof (cases "bf_firstHeight h = bf_firstHeight l")
    case True
    then have hl: "h = l"
      using files_ok_unique [OF ok hbf, of l] by (simp add: fs)
    have ix: "up_index p = length gs" "up_replaced p = None" "up_drop p = None"
      and tr: "case up_truncate p of None \<Rightarrow> True | Some t \<Rightarrow> ensureData env (bfds m) l = Inr t \<and> bf_count u < bf_count l"
      using p True by (auto simp: resolveUpdatePlan_def fs resolveLastFileUpdate_def Let_def and_then_Inr split: if_splits)
    have r: "bfds (replaceBfdAtIndex (length gs) u m) = gs @ [u]"
      by (rule replace_last [OF fs])
    have gu: "files_ok (gs @ [u])"
      using ok same hl u by (auto simp: fs files_ok_snoc bf_link_def)
    show ?thesis
    proof (cases "up_truncate p")
      case None
      then show ?thesis
        using upd p ix r gu by (auto simp: update_file_def and_then_Inr Let_def split: if_splits)
    next
      case (Some t)
      then obtain m2 t' where sh: "shiftWork env u t None (replaceBfdAtIndex (length gs) u m) = Inr (m2, t')"
        and m2: "m' = m2"
        using upd p ix by (auto simp: update_file_def and_then_Inr Let_def split: if_splits)
      have t: "bf_count t = bf_count l" "bf_firstHeight t = bf_firstHeight l" "bf_count u < bf_count l"
        using tr Some ensureData_keeps by auto
      have "bfds m2 = gs @ [u, t'] \<and> bf_firstHeight t' = bf_firstHeight t + bf_count u \<and> bf_count t' = bf_count t - bf_count u
          \<and> bf_prevHash t' = bf_lastHash u \<and> bf_prevChainWork t' = bf_lastChainWork u"
        using sh by (auto simp: shiftWork_def and_then_Inr r Let_def split: option.splits if_splits)
      then have "bfds m2 = (gs @ [u]) @ [t']" "bf_link u t'" "1 \<le> bf_count t'"
        using t same True by (auto simp: bf_link_def)
      then show ?thesis
        using gu by (simp only: m2 files_ok_snoc) simp
    qed
  next
    case False
    obtain hs pen where gs: "gs = hs @ [pen]"
      using False p hbf by (cases gs rule: rev_cases)
        (auto simp: resolveUpdatePlan_def fs resolvePenultimateFileUpdate_def getLastBfd_def Let_def and_then_Inr)
    have g2: "getLastBfd (bfds m) 2 = Some pen"
      by (simp add: getLastBfd_def fs gs nth_append)
    have l2: "last (bfds m) = l" "length (bfds m) - 1 - 1 = length hs"
      by (simp_all add: fs gs)
    obtain pp where pp: "resolvePenultimateFileUpdate env m u h l (length (bfds m) - 1) = Inr (p, pp)"
      using p False by (auto simp: resolveUpdatePlan_def l2 Let_def and_then_Inr)
    have heights_eq: "bf_firstHeight pen = bf_firstHeight h" and big: "bf_count pen < bf_count u" and ix: "up_index p = length hs"
      and plan: "(up_truncate p = None \<and> up_drop p = Some l \<and> up_replaced p = None) \<or>
         (\<exists>t. up_truncate p = Some t \<and> up_drop p = None \<and> up_replaced p = Some pen \<and> ensureData env (bfds m) l = Inr t
            \<and> bf_count u < bf_count pen + bf_count l)"
      using pp l2 by (auto simp: resolvePenultimateFileUpdate_def g2 and_then_Inr split: if_splits)
    have hp: "h = pen"
      using files_ok_unique [OF ok hbf, of pen] heights_eq by (simp add: fs gs)
    have r: "bfds (replaceBfdAtIndex (length hs) u m) = hs @ [u, l]"
      by (simp add: replaceBfdAtIndex_def fs gs)
    have okp: "files_ok (hs @ [pen])" and pl: "bf_firstHeight l = bf_firstHeight pen + bf_count pen"
      using ok files_ok_snoc [of "hs @ [pen]" l] by (simp_all add: fs gs bf_link_def)
    have hu: "files_ok (hs @ [u])"
      using okp same hp u by (auto simp: files_ok_snoc bf_link_def)
    from plan show ?thesis
    proof
      assume "up_truncate p = None \<and> up_drop p = Some l \<and> up_replaced p = None"
      then show ?thesis
        using upd p ix r hu by (auto simp: update_file_def and_then_Inr dropLastBulkFile_def Let_def butlast_append split: if_splits)
    next
      assume "\<exists>t. up_truncate p = Some t \<and> up_drop p = None \<and> up_replaced p = Some pen \<and> ensureData env (bfds m) l = Inr t
            \<and> bf_count u < bf_count pen + bf_count l"
      then obtain t where t: "up_truncate p = Some t" "up_drop p = None" "up_replaced p = Some pen"
        "ensureData env (bfds m) l = Inr t" "bf_count u < bf_count pen + bf_count l" by blast
      obtain m2 t' where sh: "shiftWork env u t (Some pen) (replaceBfdAtIndex (length hs) u m) = Inr (m2, t')" and m2: "m' = m2"
        using upd p ix t by (auto simp: update_file_def and_then_Inr Let_def split: if_splits)
      have ui: "index_of (replaceBfdAtIndex (length hs) u m) (bf_fileHash u) = Some (length hs)"
        by (simp add: index_of_def replaceBfdAtIndex_def)
      have "bfds m2 = hs @ [u, t'] \<and> bf_firstHeight t' = bf_firstHeight t + (bf_count u - bf_count pen)
          \<and> bf_count t' = bf_count t - (bf_count u - bf_count pen)
          \<and> bf_prevHash t' = bf_lastHash u \<and> bf_prevChainWork t' = bf_lastChainWork u"
        using sh by (auto simp: shiftWork_def and_then_Inr r ui Let_def list_update_append split: option.splits if_splits)
      then have "bfds m2 = (hs @ [u]) @ [t']" "bf_link u t'" "1 \<le> bf_count t'"
        using ensureData_keeps [OF t(4)] same hp pl t(5) by (auto simp: bf_link_def)
      then show ?thesis
        using hu by (simp only: m2 files_ok_snoc) simp
    qed
  qed
qed

lemma merge_one_ok:
  assumes ok: "files_ok (bfds m)" and mg: "merge_one env m f r = Inr (m', r')"
  shows "files_ok (bfds m')"
proof -
  obtain g hbf where g: "normalizeBulkHeaderFileInfo env f = Inr g"
    and hbf: "getBfdForHeight (bfds m) (bf_firstHeight g) = Inr hbf"
    using mg by (auto simp: merge_one_def and_then_Inr)
  have inset: "h \<in> set (bfds m)" if "hbf = Some h" for h
    using hbf that by (auto simp: getBfdForHeight_def and_then_Inr find_Some_iff)
  show ?thesis
  proof (cases "m' = m")
    case False
    then obtain v where v: "validateFileInfo env (bfds m) g = Inr v"
      using mg g hbf by (auto simp: merge_one_def and_then_Inr split: if_splits)
    note cv = validateFileInfo_keeps(7) [OF v]
    show ?thesis
    proof (cases hbf)
      case (Some h)
      then obtain w where w: "ensureData env (bfds m) v = Inr w" and up: "update_file env m w h r = Inr (m', r')"
        using mg g hbf v False by (auto simp: merge_one_def and_then_Inr split: if_splits)
      show ?thesis
        by (rule update_file_ok [OF ok inset [OF Some] _ up]) (use cv ensureData_keeps [OF w] in simp)
    next
      case None
      show ?thesis
      proof (cases "isBdfIncremental v \<and> (case getLastBfd (bfds m) 1 of Some l \<Rightarrow> isBdfIncremental l | None \<Rightarrow> False)")
        case True
        then have ne: "bfds m \<noteq> []" by (auto simp: getLastBfd_def)
        obtain x where "mergeIncremental env m (last (bfds m)) v = Inr (m', x)"
          using mg g hbf v None True by (auto simp: merge_one_def and_then_Inr)
        then show ?thesis
          using mergeIncremental_ok [OF ok ne _ cv] by blast
      next
        case F: False
        have "add m v = Inr m'"
          using mg g hbf v None F by (auto simp: merge_one_def and_then_Inr)
        then show ?thesis
          using add_ok [OF ok _ cv] by blast
      qed
    qed
  qed (use ok in simp)
qed

lemma merge_files_ok: "files_ok (bfds m) \<Longrightarrow> files_ok (bfds (fst (merge_files env m fs r)))"
proof (induction fs arbitrary: m r)
  case (Cons f fs)
  then show ?case
    using merge_one_ok [OF Cons.prems] by (auto split: sum.splits)
qed simp

lemma authenticate_same: "each (authenticate sdk) hs = Inr a \<Longrightarrow> a = hs"
  by (auto simp: each_Inr authenticate_def and_then_Inr list_all2_conv_all_nth intro: nth_equalityI [symmetric])

lemma append_incremental_ok: "files_ok (bfds m) \<Longrightarrow> append_incremental env m hs iw = Inr m' \<Longrightarrow> files_ok (bfds m')"
  by (auto simp: append_incremental_def and_then_Inr dest: merge_one_ok)

lemma mergeIncrementalBlockHeaders_ok:
  "files_ok (bfds m) \<Longrightarrow> mergeIncrementalBlockHeaders env m hs w = Inr m' \<Longrightarrow> files_ok (bfds m')"
  by (auto simp: mergeIncrementalBlockHeaders_def and_then_Inr split: if_splits dest: append_incremental_ok)

text \<open>The manager as a machine: any merges of files, and any retirements of live headers (a refused one changes
  nothing).\<close>

datatype bulk_event =
    MergeFiles "bulk_file list"
  | RetireHeaders "block_header list" "string option"

fun bulk_step :: "bulk_env \<Rightarrow> bulk_manager \<Rightarrow> bulk_event \<Rightarrow> bulk_manager" where
  "bulk_step env m (MergeFiles fs) = fst (merge_bulk env m fs)"
| "bulk_step env m (RetireHeaders hs w) = (case mergeIncrementalBlockHeaders env m hs w of Inl _ \<Rightarrow> m | Inr m' \<Rightarrow> m')"

definition empty_bulk :: bulk_manager where
  "empty_bulk = \<lparr>bfds = [], fileHashToIndex = []\<rparr>"

interpretation bulk: invariant_machine "bulk_step env" "\<lambda>_. True" "\<lambda>m. files_ok (bfds m)"
proof
  fix m :: bulk_manager and e assume "files_ok (bfds m)"
  then show "files_ok (bfds (bulk_step env m e))"
    by (cases e) (auto simp: merge_bulk_def merge_files_ok mergeIncrementalBlockHeaders_ok split: sum.splits)
qed

lemma files_ok_end: "files_ok fs \<Longrightarrow> f \<in> set fs \<Longrightarrow>
    bf_firstHeight f + bf_count f \<le> bf_firstHeight (last fs) + bf_count (last fs)"
proof (induction fs rule: rev_induct)
  case (snoc g fs)
  then show ?case
    by (auto simp: files_ok_snoc bf_link_def split: if_splits)
qed simp

lemma files_ok_start: "files_ok fs \<Longrightarrow> f \<in> set fs \<Longrightarrow> 0 \<le> bf_firstHeight f"
proof (induction fs arbitrary: f rule: rev_induct)
  case (snoc g fs)
  have ok: "files_ok fs" using snoc.prems(1) by (simp add: files_ok_snoc)
  show ?case
  proof (cases "fs = []")
    case False
    then have "0 \<le> bf_firstHeight (last fs)" "1 \<le> bf_count (last fs)"
      using snoc.IH [OF ok] ok by (simp_all add: files_ok_def)
    then show ?thesis
      using snoc.prems snoc.IH [OF ok, of f] False by (auto simp: files_ok_snoc bf_link_def)
  qed (use snoc.prems in \<open>simp add: files_ok_def\<close>)
qed simp

lemma bulkHeightRange_end: "fs \<noteq> [] \<Longrightarrow> files_ok fs \<Longrightarrow>
    heights (bulkHeightRange fs) = {0..<bf_firstHeight (last fs) + bf_count (last fs)}"
  by (cases fs) (auto simp: bulkHeightRange_def files_ok_def)

text \<open>Every height of the range lies in a file.\<close>

lemma files_ok_covers:
  assumes "files_ok fs" "0 \<le> h" "fs \<noteq> [] \<Longrightarrow> h < bf_firstHeight (last fs) + bf_count (last fs)" "fs \<noteq> []"
  shows "\<exists>f \<in> set fs. bf_covers h f"
  using assms
proof (induction fs rule: rev_induct)
  case (snoc g fs)
  show ?case
  proof (cases "bf_firstHeight g \<le> h")
    case True
    then show ?thesis using snoc.prems by (auto simp: bf_covers_def)
  next
    case False
    then have ne: "fs \<noteq> []"
      using snoc.prems by (auto simp: files_ok_snoc)
    then have "bf_link (last fs) g" "files_ok fs"
      using snoc.prems by (simp_all add: files_ok_snoc)
    then show ?thesis
      using snoc.IH snoc.prems False ne by (auto simp: bf_link_def)
  qed
qed simp

lemma files_ok_disjoint:
  assumes "files_ok fs" "f \<in> set fs" "g \<in> set fs" "bf_covers h f" "bf_covers h g"
  shows "f = g"
  using assms
proof (induction fs rule: rev_induct)
  case (snoc x fs)
  have ok: "files_ok fs" and lk: "fs \<noteq> [] \<Longrightarrow> bf_link (last fs) x"
    using snoc.prems(1) by (simp_all add: files_ok_snoc)
  have "bf_firstHeight y + bf_count y \<le> bf_firstHeight x" if "y \<in> set fs" for y
    using files_ok_end [OF ok that] lk that by (cases "fs = []") (auto simp: bf_link_def)
  then show ?case
    using snoc.prems snoc.IH [OF ok] by (auto simp: bf_covers_def) fastforce+
qed simp

text \<open>C28. However files are merged and live headers retired, the bulk files stay one linked sequence that starts
  at height 0: each file begins where the one before it ends and is anchored at that file's last hash and
  work, so every height up to the end is in exactly one file and none above it is.\<close>

theorem bulk_files_stay_linked:
  "let fs = bfds (fold_steps (bulk_step env) empty_bulk es) in
     files_ok fs
     \<and> (\<forall>h. (\<exists>!f. f \<in> set fs \<and> bf_covers h f) = (h \<in> heights (bulkHeightRange fs)))"
proof -
  let ?fs = "bfds (fold_steps (bulk_step env) empty_bulk es)"
  have ok: "files_ok ?fs"
    by (rule bulk.run_inv) (simp_all add: empty_bulk_def files_ok_def list_all_iff)
  have "(\<exists>!f. f \<in> set ?fs \<and> bf_covers h f) = (h \<in> heights (bulkHeightRange ?fs))" for h
  proof (cases "?fs = []")
    case True
    then show ?thesis by (auto simp: bulkHeightRange_def)
  next
    case False
    have "h \<in> heights (bulkHeightRange ?fs)" if "f \<in> set ?fs" "bf_covers h f" for f
      using files_ok_end [OF ok that(1)] files_ok_start [OF ok that(1)] that(2) bulkHeightRange_end [OF False ok]
      by (simp add: bf_covers_def)
    moreover have "\<exists>f \<in> set ?fs. bf_covers h f" if "h \<in> heights (bulkHeightRange ?fs)"
      using files_ok_covers [OF ok, of h] that bulkHeightRange_end [OF False ok] False by simp
    ultimately show ?thesis
      using files_ok_disjoint [OF ok] by blast
  qed
  then show ?thesis
    using ok by (simp add: Let_def)
qed

section \<open>What a retirement leaves\<close>

lemma getLastBfd_1: "getLastBfd fs (Suc 0) = (if fs = [] then None else Some (last fs))"
  by (cases fs rule: rev_cases) (simp_all add: getLastBfd_def)

lemma next_not_covered:
  assumes "files_ok (bfds m)" "getBfdForHeight (bfds m) (nextBulkHeight m) = Inr hbf"
  shows "hbf = None"
proof -
  have "\<not> bf_covers (nextBulkHeight m) f" if "f \<in> set (bfds m)" for f
    using files_ok_end [OF assms(1) that] that by (auto simp: nextBulkHeight_def getLastBfd_1 bf_covers_def)
  then show ?thesis
    using assms(2) by (auto simp: getBfdForHeight_def and_then_Inr find_None_iff)
qed

text \<open>After headers were appended, the files end right above the last of them, at its hash and the new work.\<close>

lemma append_incremental_end:
  assumes ok: "files_ok (bfds m)" and ap: "append_incremental env m hs iw = Inr m'"
  shows "nextBulkHeight m' = nextBulkHeight m + int (length hs) \<and> lastBulkHash m' = hash (last hs) \<and> bfds m' \<noteq> []
    \<and> (case iw of Some w \<Rightarrow> addWork w (lastBulkWork m)
        | None \<Rightarrow> computeChainWorkFromHeaders hs (getLastBfd (bfds m) 1)) = Inr (lastBulkWork m')"
proof -
  obtain lw data r where nx: "nextBulkHeight m = height (hd hs)"
    and lw: "(case iw of Some w \<Rightarrow> addWork w (lastBulkWork m)
        | None \<Rightarrow> computeChainWorkFromHeaders hs (getLastBfd (bfds m) 1)) = Inr lw"
    and mg: "merge_one env m (incremental_file env hs (lastBulkWork m) lw (lastBulkHash m) data) empty_result = Inr (m', r)"
    using ap by (auto simp: append_incremental_def and_then_Inr)
  let ?f = "incremental_file env hs (lastBulkWork m) lw (lastBulkHash m) data"
  obtain g hbf where g: "normalizeBulkHeaderFileInfo env ?f = Inr g" "getBfdForHeight (bfds m) (bf_firstHeight g) = Inr hbf"
    using mg by (auto simp: merge_one_def and_then_Inr)
  have gf: "g = ?f" using normalize_same [OF g(1)] by simp
  then have "bf_firstHeight g = nextBulkHeight m"
    by (simp add: incremental_file_def nx)
  then have hbf: "hbf = None"
    using next_not_covered [OF ok] g(2) by simp
  obtain v where v: "validateFileInfo env (bfds m) ?f = Inr v"
    using mg g hbf by (auto simp: merge_one_def and_then_Inr gf)
  have vf: "bf_firstHeight v = nextBulkHeight m" "bf_count v = int (length hs)" "bf_lastHash v = hash (last hs)"
    "bf_lastChainWork v = lw" "1 \<le> bf_count v" "isBdfIncremental v"
    using validateFileInfo_keeps [OF v] by (simp_all add: incremental_file_def nx isBdfIncremental_def)
  show ?thesis
  proof (cases "bfds m \<noteq> [] \<and> isBdfIncremental (last (bfds m))")
    case True
    then obtain x where "mergeIncremental env m (last (bfds m)) v = Inr (m', x)"
      using mg g hbf v vf(6) by (auto simp: merge_one_def and_then_Inr gf getLastBfd_1)
    then show ?thesis
      using mergeIncremental_ok [OF ok _ _ vf(5)] True vf lw
      by (simp add: nextBulkHeight_def lastBulkHash_def lastBulkWork_def getLastBfd_1)
  next
    case False
    then have "add m v = Inr m'"
      using mg g hbf v by (auto simp: merge_one_def and_then_Inr gf getLastBfd_1 split: if_splits)
    then have "bfds m' = bfds m @ [v]"
      using add_ok [OF ok _ vf(5)] by blast
    then show ?thesis
      using vf lw by (simp add: nextBulkHeight_def lastBulkHash_def lastBulkWork_def getLastBfd_1)
  qed
qed

end
