(* ===== verification/Header_Store.thy ===== *)
theory Header_Store
  imports Bulk_Files
begin

text \<open>
  The live part of the header tracker: \<open>Storage/ChaintracksStorageNoDb.ts\<close> with the parts of
  \<open>Storage/ChaintracksStorageBase.ts\<close> it uses. Recent headers, orphans and forks included, are kept in a
  \<open>Map\<close> by id; the headers of the chain with the most work are marked active, and older active headers are
  retired to the bulk files. An operation returns the state together with its answer or the error it threw,
  since a throw does not undo what was written. \<open>lastActiveMinHeight\<close> is never assigned and therefore left
  out; operations do not overlap, so the re-entrancy flag \<open>nowMigratingLiveToBulk\<close> is off whenever it is
  read.
\<close>

section \<open>State\<close>

record live_header = block_header +
  chainWork :: string
  isChainTip :: bool
  isActive :: bool
  headerId :: int
  previousHeaderId :: "int option"

record header_store =
  liveHeaders :: "(int, live_header) jsmap"
  maxHeaderId :: int
  tipHeaderId :: int
  hashToHeaderId :: "(string, int) jsmap"
  bulk :: bulk_manager

record store_env =
  se_bulk :: bulk_env
  se_liveHeightThreshold :: int
  se_bulkMigrationChunkSize :: int

record insert_result =
  ir_added :: bool
  ir_dupe :: bool
  ir_noPrev :: bool
  ir_badPrev :: bool
  ir_noActiveAncestor :: bool
  ir_isActiveTip :: bool
  ir_reorgDepth :: int
  ir_priorTip :: "live_header option"
  ir_noTip :: bool
  ir_deactivated :: "live_header list"

definition createInsertHeaderResult :: insert_result where
  "createInsertHeaderResult = \<lparr>ir_added = False, ir_dupe = False, ir_noPrev = False, ir_badPrev = False,
     ir_noActiveAncestor = False, ir_isActiveTip = False, ir_reorgDepth = 0, ir_priorTip = None, ir_noTip = False,
     ir_deactivated = []\<rparr>"

definition empty_store :: "bulk_manager \<Rightarrow> header_store" where
  "empty_store b = \<lparr>liveHeaders = [], maxHeaderId = 0, tipHeaderId = 0, hashToHeaderId = [], bulk = b\<rparr>"

abbreviation lives :: "header_store \<Rightarrow> live_header list" where
  "lives s \<equiv> map snd (liveHeaders s)"

abbreviation live :: "header_store \<Rightarrow> int \<Rightarrow> live_header option" where
  "live s i \<equiv> jsmap_get (liveHeaders s) i"

definition mk_live :: "block_header \<Rightarrow> int \<Rightarrow> int option \<Rightarrow> string \<Rightarrow> bool \<Rightarrow> live_header" where
  "mk_live h i p w act = block_header.extend h
     \<lparr>chainWork = w, isChainTip = act, isActive = act, headerId = i, previousHeaderId = p\<rparr>"

section \<open>Checks\<close>

definition validateIncomingHeader :: "header_sdk \<Rightarrow> block_header \<Rightarrow> chain_error + block_header" where
  "validateIncomingHeader sdk h =
     and_then (validateHeaderFormat sdk h) (\<lambda>_.
     and_then (validateHeaderProofOfWork sdk h) (\<lambda>_.
     and_then (validateAgainstDirtyHashes (hash h)) (\<lambda>_. Inr h)))"

definition validateHeight :: "int \<Rightarrow> string \<Rightarrow> chain_error + unit" where
  "validateHeight ht nm = ensure (valid_height ht) (InvalidParameter nm)"

definition validateHeaderId :: "int \<Rightarrow> string \<Rightarrow> chain_error + unit" where
  "validateHeaderId i nm = ensure (js_safe i \<and> 1 \<le> i) (InvalidParameter nm)"

definition validateHash :: "string \<Rightarrow> string \<Rightarrow> chain_error + unit" where
  "validateHash h nm = ensure (hex32 h) (InvalidParameter nm)"

definition validateRange :: "height_range \<Rightarrow> int \<Rightarrow> chain_error + unit" where
  "validateRange r maximumLength =
     and_then (validateHeight (minHeight r) ''range.minHeight'') (\<lambda>_.
     if maxHeight r = - 1 \<or> maxHeight r < minHeight r
     then ensure (js_safe (maxHeight r) \<and> - 1 \<le> maxHeight r \<and> maxHeight r \<le> max_block_height) (InvalidParameter ''range.maxHeight'')
     else and_then (validateHeight (maxHeight r) ''range.maxHeight'') (\<lambda>_.
       ensure (range_length r \<le> maximumLength) (InvalidParameter ''range'')))"

abbreviation max_storage_traversal :: nat where
  "max_storage_traversal \<equiv> 100000"

text \<open>A traversal keeps the ids it has seen; \<open>room\<close> is \<open>MAX_STORAGE_TRAVERSAL - seen.size\<close>.\<close>

definition recordTraversalVisit :: "int list \<Rightarrow> nat \<Rightarrow> live_header \<Rightarrow> chain_error + unit" where
  "recordTraversalVisit seen room h =
     and_then (validateHeaderId (headerId h) ''stored headerId'') (\<lambda>_.
     and_then (validateHeight (height h) ''stored header height'') (\<lambda>_.
     and_then (ensure (headerId h \<notin> set seen) (InvalidOperation ''cycle detected'')) (\<lambda>_.
     ensure (room \<noteq> 0) (InvalidOperation ''storage traversal exceeded''))))"

definition validateStoredParentLink :: "live_header \<Rightarrow> live_header \<Rightarrow> chain_error + unit" where
  "validateStoredParentLink child parent =
     and_then (validateHeaderId (headerId child) ''stored child headerId'') (\<lambda>_.
     and_then (validateHeaderId (headerId parent) ''stored parent headerId'') (\<lambda>_.
     ensure (\<not> (previousHeaderId child \<noteq> Some (headerId parent) \<or> previousHash child \<noteq> hash parent
        \<or> height child \<noteq> height parent + 1)) (InvalidOperation ''live-header storage contains an invalid parent link'')))"

section \<open>Queries\<close>

definition active_tips :: "header_store \<Rightarrow> live_header list" where
  "active_tips s = filter (\<lambda>h. isActive h \<and> isChainTip h) (lives s)"

definition multiple_tips :: chain_error where
  "multiple_tips = InvalidOperation ''multiple active chain tips exist in memory''"

definition findChainTipHeaderOrUndefined :: "header_store \<Rightarrow> chain_error + live_header option" where
  "findChainTipHeaderOrUndefined s =
     (let tips = active_tips s in
      and_then (ensure (\<not> length tips > 1) multiple_tips) (\<lambda>_. Inr (case tips of [] \<Rightarrow> None | t # _ \<Rightarrow> Some t)))"

definition findChainTipHeader :: "header_store \<Rightarrow> chain_error + live_header" where
  "findChainTipHeader s = and_then (findChainTipHeaderOrUndefined s) (\<lambda>t. case t of
      None \<Rightarrow> Inl (JsError ''Database contains no active chain tip header.'')
    | Some h \<Rightarrow> Inr h)"

definition findLiveHeaderForBlockHash :: "header_store \<Rightarrow> string \<Rightarrow> chain_error + live_header option" where
  "findLiveHeaderForBlockHash s h =
     and_then (validateHash h ''hash'') (\<lambda>_. Inr (case jsmap_get (hashToHeaderId s) h of
        Some i \<Rightarrow> if i = 0 then None else live s i | None \<Rightarrow> None))"

definition findLiveHeaderForHeaderId :: "header_store \<Rightarrow> int \<Rightarrow> chain_error + live_header" where
  "findLiveHeaderForHeaderId s i =
     and_then (validateHeaderId i ''headerId'') (\<lambda>_. case live s i of
        None \<Rightarrow> Inl (JsError ''HeaderId not found in live header database.'') | Some h \<Rightarrow> Inr h)"

definition findLiveHeaderForHeight :: "header_store \<Rightarrow> int \<Rightarrow> chain_error + live_header option" where
  "findLiveHeaderForHeight s ht =
     and_then (validateHeight ht ''height'') (\<lambda>_.
       let hs = filter (\<lambda>h. height h = ht \<and> isActive h) (lives s) in
       and_then (ensure (\<not> length hs > 1) (InvalidOperation ''multiple active headers exist at height''))
       (\<lambda>_. Inr (case hs of [] \<Rightarrow> None | h # _ \<Rightarrow> Some h)))"

definition findLiveHeaderForMerkleRoot :: "header_store \<Rightarrow> string \<Rightarrow> chain_error + live_header option" where
  "findLiveHeaderForMerkleRoot s root =
     and_then (validateHash root ''merkleRoot'') (\<lambda>_.
       let hs = filter (\<lambda>h. merkleRoot h = root) (lives s) in
       Inr (case List.find isActive hs of Some h \<Rightarrow> Some h | None \<Rightarrow> (case hs of [] \<Rightarrow> None | h # _ \<Rightarrow> Some h)))"

definition findLiveHeightRange :: "header_store \<Rightarrow> height_range" where
  "findLiveHeightRange s = (let act = filter isActive (lives s) in
     if act = [] then range_empty else range_from (map height act))"

definition isMerkleRootActive :: "header_store \<Rightarrow> string \<Rightarrow> chain_error + bool" where
  "isMerkleRootActive s root = and_then (findLiveHeaderForMerkleRoot s root)
     (\<lambda>h. Inr (case h of Some x \<Rightarrow> isActive x | None \<Rightarrow> False))"

definition findChainWorkForBlockHash :: "header_store \<Rightarrow> string \<Rightarrow> chain_error + string" where
  "findChainWorkForBlockHash s h = and_then (findLiveHeaderForBlockHash s h) (\<lambda>x. case x of
      Some y \<Rightarrow> Inr (chainWork y) | None \<Rightarrow> Inl (JsError ''not found in the live headers database.''))"

text \<open>Both sorts are stable sorts by height.\<close>

definition liveHeadersForBulk :: "header_store \<Rightarrow> int \<Rightarrow> chain_error + live_header list" where
  "liveHeadersForBulk s cnt =
     and_then (ensure (js_safe cnt \<and> 1 \<le> cnt \<and> cnt \<le> 100000) (InvalidParameter ''count''))
     (\<lambda>_. Inr (take (nat cnt) (sort_key height (filter isActive (lives s)))))"

definition getLiveHeaders :: "header_store \<Rightarrow> height_range \<Rightarrow> chain_error + live_header list" where
  "getLiveHeaders s r =
     and_then (validateRange r 100000) (\<lambda>_. Inr (if isEmpty r then []
       else sort_key height (filter (\<lambda>h. isActive h \<and> height h \<ge> minHeight r \<and> height h \<le> maxHeight r) (lives s))))"

definition getAvailableHeightRanges :: "header_store \<Rightarrow> chain_error + height_range \<times> height_range" where
  "getAvailableHeightRanges s =
     (let b = bulkHeightRange (bfds (bulk s)); l = findLiveHeightRange s in
      and_then (if isEmpty b then ensure (\<not> (\<not> isEmpty l \<and> minHeight l \<noteq> 0))
           (JsError ''With empty bulk storage, live storage must start with genesis header.'')
        else and_then (ensure (minHeight b = 0) (JsError ''Bulk storage doesn't start with genesis header.'')) (\<lambda>_.
          ensure (\<not> (\<not> isEmpty l \<and> maxHeight b + 1 \<noteq> minHeight l)) (JsError ''There is a gap or overlap between bulk and live header storage.'')))
      (\<lambda>_. Inr (b, l)))"

section \<open>Deleting and retiring headers\<close>

definition deleteLiveBlockHeaders :: "header_store \<Rightarrow> header_store" where
  "deleteLiveBlockHeaders s = s\<lparr>liveHeaders := [], maxHeaderId := 0, tipHeaderId := 0, hashToHeaderId := []\<rparr>"

text \<open>First loop: links to a parent that is about to go are cut (an id of 0 would read as no parent; ids start
  at 1). The rows are replaced in place.\<close>

definition cut_parent :: "(int, live_header) jsmap \<Rightarrow> int \<Rightarrow> live_header \<Rightarrow> live_header" where
  "cut_parent rows maxH h = (case previousHeaderId h of
      None \<Rightarrow> h
    | Some p \<Rightarrow> if p = 0 then h else (case jsmap_get rows p of
          Some q \<Rightarrow> if height q \<le> maxH then h\<lparr>previousHeaderId := None\<rparr> else h
        | None \<Rightarrow> h))"

definition deleteOlderLiveBlockHeaders :: "header_store \<Rightarrow> int \<Rightarrow> header_store \<times> (chain_error + nat)" where
  "deleteOlderLiveBlockHeaders s maxH =
     (case validateHeight maxH ''maxHeight'' of
        Inl e \<Rightarrow> (s, Inl e)
      | Inr _ \<Rightarrow>
         let rows = liveHeaders s;
             rows1 = jsmap_map (cut_parent rows maxH) rows;
             gone = filter (\<lambda>(i, h). height h \<le> maxH) rows1;
             hashes1 = fold (\<lambda>(i, h) m. jsmap_delete (hash h) m) gone (hashToHeaderId s);
             rows2 = fold (\<lambda>(i, h) m. jsmap_delete i m) gone rows1;
             tip = (if rows2 = [] then 0
                    else case List.find (\<lambda>h. isActive h \<and> isChainTip h) (map snd rows2) of Some t \<Rightarrow> headerId t | None \<Rightarrow> 0)
         in (s\<lparr>liveHeaders := rows2, hashToHeaderId := hashes1, tipHeaderId := tip\<rparr>, Inr (length gone)))"

definition addLiveHeadersToBulk :: "bulk_env \<Rightarrow> bulk_manager \<Rightarrow> live_header list \<Rightarrow> chain_error + bulk_manager" where
  "addLiveHeadersToBulk env m hs =
     (if hs = [] then Inr m
      else and_then (convertBitsToWork (bits (hd hs))) (\<lambda>bw.
           and_then (subWork (chainWork (hd hs)) bw) (\<lambda>previousWork.
           and_then (subWork (chainWork (last hs)) previousWork) (\<lambda>incrementalWork.
           mergeIncrementalBlockHeaders env m hs (Some incrementalWork)))))"

definition migrateLiveToBulk :: "store_env \<Rightarrow> header_store \<Rightarrow> int \<Rightarrow> bool \<Rightarrow> header_store \<times> (chain_error + unit)" where
  "migrateLiveToBulk env s cnt ignoreLimits =
     (if \<not> (js_safe cnt \<and> 1 \<le> cnt \<and> cnt \<le> 100000) then (s, Inl (InvalidParameter ''count''))
      else if \<not> ignoreLimits \<and> cnt > se_bulkMigrationChunkSize env then (s, Inr ())
      else case liveHeadersForBulk s cnt of
        Inl e \<Rightarrow> (s, Inl e)
      | Inr hs \<Rightarrow> (case addLiveHeadersToBulk (se_bulk env) (bulk s) hs of
          Inl e \<Rightarrow> (s, Inl e)
        | Inr b \<Rightarrow>
            let s1 = s\<lparr>bulk := b\<rparr> in
            if hs = [] then (s1, Inl (JsTypeError ''headers.at(-1) is undefined''))
            else (case deleteOlderLiveBlockHeaders s1 (height (last hs)) of
                (s2, Inl e) \<Rightarrow> (s2, Inl e)
              | (s2, Inr _) \<Rightarrow> (s2, Inr ()))))"

text \<open>The loop of \<open>pruneLiveBlockHeaders\<close>. Every round takes a chunk (at least one header) off the total, so the
  total itself is enough fuel.\<close>

fun prune_loop :: "nat \<Rightarrow> store_env \<Rightarrow> header_store \<Rightarrow> int \<Rightarrow> header_store \<times> (chain_error + unit)" where
  "prune_loop 0 env s excess = (s, Inr ())"
| "prune_loop (Suc fuel) env s excess =
    (if excess \<ge> se_bulkMigrationChunkSize env
     then let cnt = min excess (se_bulkMigrationChunkSize env) in
       (case migrateLiveToBulk env s cnt False of
          (s1, Inl e) \<Rightarrow> (s1, Inl e)
        | (s1, Inr _) \<Rightarrow> prune_loop fuel env s1 (excess - cnt))
     else (s, Inr ()))"

definition pruneLiveBlockHeaders :: "store_env \<Rightarrow> header_store \<Rightarrow> int \<Rightarrow> header_store \<times> (chain_error + unit)" where
  "pruneLiveBlockHeaders env s activeTipHeight =
     (case validateHeight activeTipHeight ''activeTipHeight'' of
        Inl e \<Rightarrow> (s, Inl e)
      | Inr _ \<Rightarrow> let excess = activeTipHeight - minHeight (findLiveHeightRange s) + 1 - se_liveHeightThreshold env in
          prune_loop (nat excess + 1) env s excess)"

section \<open>Inserting a header\<close>

text \<open>\<open>findActiveAncestor\<close>: \<open>None\<close> when the walk ends before an active header (\<open>noActiveAncestor\<close>).\<close>

fun active_ancestor_loop :: "(int, live_header) jsmap \<Rightarrow> int list \<Rightarrow> nat \<Rightarrow> live_header \<Rightarrow> chain_error + live_header option" where
  "active_ancestor_loop rows seen room h =
    (if isActive h then Inr (Some h)
     else and_then (recordTraversalVisit seen room h) (\<lambda>_.
       case room of 0 \<Rightarrow> Inl (InvalidOperation ''storage traversal exceeded'') | Suc room' \<Rightarrow>
       (case previousHeaderId h of
          None \<Rightarrow> Inr None
        | Some p \<Rightarrow> (case jsmap_get rows p of
            None \<Rightarrow> Inr None
          | Some q \<Rightarrow> and_then (validateStoredParentLink h q) (\<lambda>_.
              active_ancestor_loop rows (headerId h # seen) room' q)))))"

declare active_ancestor_loop.simps [simp del]

definition findActiveAncestor :: "header_store \<Rightarrow> live_header \<Rightarrow> chain_error + live_header option" where
  "findActiveAncestor s oneBack = active_ancestor_loop (liveHeaders s) [] max_storage_traversal oneBack"

text \<open>The two loops of \<open>applyReorganization\<close>: from the tip down to the ancestor, then from the new header's parent.
  \<open>gone\<close> is \<open>result.deactivatedHeaders\<close>.\<close>

definition no_reorg_path :: chain_error where
  "no_reorg_path = InvalidOperation ''does not reach the selected reorganization ancestor''"

fun deactivate_loop :: "int \<Rightarrow> int list \<Rightarrow> nat \<Rightarrow> live_header \<Rightarrow> live_header list \<Rightarrow> (int, live_header) jsmap
    \<Rightarrow> (int, live_header) jsmap \<times> live_header list \<times> (chain_error + unit)" where
  "deactivate_loop anc seen room h gone rows =
    (if headerId h = anc then (rows, gone, Inr ())
     else (case recordTraversalVisit seen room h of
        Inl e \<Rightarrow> (rows, gone, Inl e)
      | Inr _ \<Rightarrow> (case room of 0 \<Rightarrow> (rows, gone, Inl (InvalidOperation ''storage traversal exceeded'')) | Suc room' \<Rightarrow>
          let gone1 = gone @ [h]; rows1 = jsmap_set (headerId h) (h\<lparr>isActive := False\<rparr>) rows in
          (case previousHeaderId h of
             None \<Rightarrow> (rows1, gone1, Inl no_reorg_path)
           | Some p \<Rightarrow> (case jsmap_get rows1 p of
               None \<Rightarrow> (rows1, gone1, Inl (InvalidOperation ''active chain contains a missing parent header''))
             | Some q \<Rightarrow> (case validateStoredParentLink h q of
                 Inl e \<Rightarrow> (rows1, gone1, Inl e)
               | Inr _ \<Rightarrow> deactivate_loop anc (headerId h # seen) room' q gone1 rows1))))))"

declare deactivate_loop.simps [simp del]

fun activate_loop :: "int \<Rightarrow> int list \<Rightarrow> nat \<Rightarrow> live_header \<Rightarrow> (int, live_header) jsmap
    \<Rightarrow> (int, live_header) jsmap \<times> (chain_error + unit)" where
  "activate_loop anc seen room h rows =
    (if headerId h = anc then (rows, Inr ())
     else (case recordTraversalVisit seen room h of
        Inl e \<Rightarrow> (rows, Inl e)
      | Inr _ \<Rightarrow> (case room of 0 \<Rightarrow> (rows, Inl (InvalidOperation ''storage traversal exceeded'')) | Suc room' \<Rightarrow>
          let rows1 = jsmap_set (headerId h) (h\<lparr>isActive := True\<rparr>) rows in
          (case previousHeaderId h of
             None \<Rightarrow> (rows1, Inl no_reorg_path)
           | Some p \<Rightarrow> (case jsmap_get rows1 p of
               None \<Rightarrow> (rows1, Inl (InvalidOperation ''replacement chain contains a missing parent header''))
             | Some q \<Rightarrow> (case validateStoredParentLink h q of
                 Inl e \<Rightarrow> (rows1, Inl e)
               | Inr _ \<Rightarrow> activate_loop anc (headerId h # seen) room' q rows1))))))"

declare activate_loop.simps [simp del]

definition applyReorganization :: "header_store \<Rightarrow> live_header \<Rightarrow> live_header \<Rightarrow> header_store \<times> live_header list \<times> (chain_error + unit)" where
  "applyReorganization s oneBack ancestor =
     (if headerId ancestor = headerId oneBack then (s, [], Inr ())
      else case List.find (\<lambda>c. isChainTip c \<and> isActive c) (lives s) of
        None \<Rightarrow> (s, [], Inl no_reorg_path)
      | Some tip \<Rightarrow> (case deactivate_loop (headerId ancestor) [] max_storage_traversal tip [] (liveHeaders s) of
          (rows1, gone, Inl e) \<Rightarrow> (s\<lparr>liveHeaders := rows1\<rparr>, gone, Inl e)
        | (rows1, gone, Inr _) \<Rightarrow> (case activate_loop (headerId ancestor) [] max_storage_traversal oneBack rows1 of
            (rows2, e) \<Rightarrow> (s\<lparr>liveHeaders := rows2\<rparr>, gone, e))))"

text \<open>\<open>prepareActiveTip\<close>: the second component tells whether to go on.\<close>

definition prepareActiveTip :: "header_store \<Rightarrow> block_header \<Rightarrow> live_header \<Rightarrow> insert_result
    \<Rightarrow> header_store \<times> (chain_error + bool \<times> insert_result)" where
  "prepareActiveTip s h oneBack r =
     (if \<not> ir_isActiveTip r then (s, Inr (True, r))
      else case findActiveAncestor s oneBack of
        Inl e \<Rightarrow> (s, Inl e)
      | Inr None \<Rightarrow> (s, Inr (False, r\<lparr>ir_noActiveAncestor := True\<rparr>))
      | Inr (Some ancestor) \<Rightarrow>
          let r1 = (if \<not> (isActive oneBack \<and> isChainTip oneBack)
                    then r\<lparr>ir_reorgDepth := min (height (the (ir_priorTip r))) (height h) - height ancestor\<rparr> else r) in
          (case applyReorganization s oneBack ancestor of
             (s1, gone, Inl e) \<Rightarrow> (s1, Inl e)
           | (s1, gone, Inr _) \<Rightarrow> (s1, Inr (True, r1\<lparr>ir_deactivated := ir_deactivated r1 @ gone\<rparr>))))"

definition insertFirstHeader :: "header_store \<Rightarrow> block_header \<Rightarrow> insert_result \<Rightarrow> header_store \<times> (chain_error + insert_result option)" where
  "insertFirstHeader s h r =
     (if liveHeaders s \<noteq> [] then (s, Inr None)
      else case getLastBfd (bfds (bulk s)) 1 of
        None \<Rightarrow> (s, Inl (InvalidOperation ''bulk headers must exist before first live header can be added''))
      | Some f \<Rightarrow>
          if previousHash h \<noteq> bf_lastHash f \<or> height h \<noteq> bf_firstHeight f + bf_count f then (s, Inr None)
          else let i = maxHeaderId s + 1; s1 = s\<lparr>maxHeaderId := i\<rparr> in
            (case and_then (convertBitsToWork (bits h)) (addWork (bf_lastChainWork f)) of
               Inl e \<Rightarrow> (s1, Inl e)
             | Inr w \<Rightarrow>
                 (s1\<lparr>liveHeaders := jsmap_set i (mk_live h i None w True) (liveHeaders s1),
                     hashToHeaderId := jsmap_set (hash h) i (hashToHeaderId s1), tipHeaderId := i\<rparr>,
                  Inr (Some (r\<lparr>ir_isActiveTip := True, ir_added := True\<rparr>)))))"

text \<open>The prior tip: the parent itself when it is the active tip, else the only active tip.\<close>

definition prior_tip :: "header_store \<Rightarrow> live_header \<Rightarrow> chain_error + live_header option" where
  "prior_tip s oneBack =
     (if isActive oneBack \<and> isChainTip oneBack then Inr (Some oneBack) else findChainTipHeaderOrUndefined s)"

text \<open>The end of \<open>insertHeader\<close>, once the active chain is prepared: the parent's copy that was read before the
  reorganization is written back with its tip flag cleared, then the new header is stored.\<close>

definition store_header :: "header_store \<Rightarrow> block_header \<Rightarrow> live_header \<Rightarrow> int \<Rightarrow> string \<Rightarrow> bool \<Rightarrow> header_store" where
  "store_header s h oneBack i w act =
     (let rows = (if isChainTip oneBack then jsmap_set (headerId oneBack) (oneBack\<lparr>isChainTip := False\<rparr>) (liveHeaders s)
                  else liveHeaders s) in
      s\<lparr>liveHeaders := jsmap_set i (mk_live h i (Some (headerId oneBack)) w act) rows,
        hashToHeaderId := jsmap_set (hash h) i (hashToHeaderId s),
        tipHeaderId := (if act then i else tipHeaderId s)\<rparr>)"

text \<open>Everything \<open>insertHeader\<close> does before the pruning.\<close>

definition insert_linked :: "header_store \<Rightarrow> block_header \<Rightarrow> live_header \<Rightarrow> header_store \<times> (chain_error + insert_result)" where
  "insert_linked s h oneBack =
     (let r = createInsertHeaderResult in
      if height oneBack + 1 \<noteq> height h then (s, Inr (r\<lparr>ir_badPrev := True\<rparr>))
      else case prior_tip s oneBack of
        Inl e \<Rightarrow> (s, Inl e)
      | Inr None \<Rightarrow> (s, Inr (r\<lparr>ir_noTip := True\<rparr>))
      | Inr (Some tip) \<Rightarrow>
         (case and_then (convertBitsToWork (bits h)) (addWork (chainWork oneBack)) of
            Inl e \<Rightarrow> (s, Inl e)
          | Inr w \<Rightarrow> (case isMoreWork w (chainWork tip) of
              Inl e \<Rightarrow> (s, Inl e)
            | Inr act \<Rightarrow>
               let i = maxHeaderId s + 1; s1 = s\<lparr>maxHeaderId := i\<rparr>;
                   r1 = r\<lparr>ir_priorTip := Some tip, ir_isActiveTip := act\<rparr> in
               (case prepareActiveTip s1 h oneBack r1 of
                  (s2, Inl e) \<Rightarrow> (s2, Inl e)
                | (s2, Inr (False, r2)) \<Rightarrow> (s2, Inr r2)
                | (s2, Inr (True, r2)) \<Rightarrow> (store_header s2 h oneBack i w act, Inr (r2\<lparr>ir_added := True\<rparr>))))))"

definition insert_unpruned :: "store_env \<Rightarrow> header_store \<Rightarrow> block_header \<Rightarrow> header_store \<times> (chain_error + insert_result)" where
  "insert_unpruned env s h0 =
     (case validateIncomingHeader (be_sdk (se_bulk env)) h0 of
        Inl e \<Rightarrow> (s, Inl e)
      | Inr h \<Rightarrow>
         let r = createInsertHeaderResult in
         if jsmap_get (hashToHeaderId s) (hash h) \<noteq> None then (s, Inr (r\<lparr>ir_dupe := True\<rparr>))
         else (case List.find (\<lambda>x. hash x = previousHash h) (lives s) of
             Some oneBack \<Rightarrow> insert_linked s h oneBack
           | None \<Rightarrow> (case insertFirstHeader s h r of
               (s1, Inl e) \<Rightarrow> (s1, Inl e)
             | (s1, Inr (Some r1)) \<Rightarrow> (s1, Inr r1)
             | (s1, Inr None) \<Rightarrow> (s1, Inr (r\<lparr>ir_noPrev := True\<rparr>)))))"

text \<open>A header that became the active tip of a non-empty store triggers the pruning (the first header does not).\<close>

definition insertHeader :: "store_env \<Rightarrow> header_store \<Rightarrow> block_header \<Rightarrow> header_store \<times> (chain_error + insert_result)" where
  "insertHeader env s h =
     (case insert_unpruned env s h of
        (s1, Inl e) \<Rightarrow> (s1, Inl e)
      | (s1, Inr r) \<Rightarrow>
          if ir_added r \<and> ir_isActiveTip r \<and> ir_priorTip r \<noteq> None
          then (case pruneLiveBlockHeaders env s1 (height h) of (s2, Inl e) \<Rightarrow> (s2, Inl e) | (s2, Inr _) \<Rightarrow> (s2, Inr r))
          else (s1, Inr r))"

end
