(* ===== verification/Live_Chain.thy ===== *)
theory Live_Chain
  imports Header_Store
begin

text \<open>
  What the live header store guarantees. The difficulty of a block is taken to be a function of its height
  (\<open>sched\<close>); under that assumption every operation keeps the store's invariant: consistent index and parent
  links, exact chain work, one active header at each height from the end of the bulk files to the tip, and the
  tip the first-stored header with the most work. Two theorems at the end show what happens without the
  assumption.
\<close>

section \<open>Work by height\<close>

definition sched_ok :: "(int \<Rightarrow> int) \<Rightarrow> bool" where
  "sched_ok sched = (\<forall>k. \<exists>t. validateCompactTarget (sched k) = Inr t)"

definition work_at :: "(int \<Rightarrow> int) \<Rightarrow> int \<Rightarrow> nat" where
  "work_at sched h = (\<Sum>k\<in>{0..h}. block_work (sched k))"

lemma sched_work_pos: "sched_ok sched \<Longrightarrow> 0 < block_work (sched k)"
  using block_work_of_target by (fastforce simp: sched_ok_def)

lemma work_at_step: "- 1 \<le> h \<Longrightarrow> work_at sched (h + 1) = work_at sched h + block_work (sched (h + 1))"
proof -
  assume "- 1 \<le> h"
  then have "{0..h + 1} = insert (h + 1) {0..h}" by auto
  then show ?thesis by (simp add: work_at_def)
qed

lemma work_at_less:
  assumes "sched_ok sched" "- 1 \<le> h" "h < k"
  shows "work_at sched h < work_at sched k"
  unfolding work_at_def
proof (rule sum_strict_mono2)
  show "k \<in> {0..k} - {0..h}" "0 < block_work (sched k)"
    using assms sched_work_pos by auto
qed (use assms in auto)

lemma work_at_less_iff:
  assumes "sched_ok sched" "- 1 \<le> h" "- 1 \<le> k"
  shows "work_at sched h < work_at sched k \<longleftrightarrow> h < k"
  using work_at_less [OF assms(1,2)] work_at_less [OF assms(1,3)]
  by (metis linorder_less_linear order_less_asym order_less_irrefl)

section \<open>The invariant\<close>

definition stored :: "(int, live_header) jsmap \<Rightarrow> live_header \<Rightarrow> bool" where
  [simp]: "stored rows x = (jsmap_get rows (headerId x) = Some x)"

definition row_ok :: "(int \<Rightarrow> int) \<Rightarrow> int \<Rightarrow> int \<Rightarrow> live_header \<Rightarrow> bool" where
  "row_ok sched mx i x = (headerId x = i \<and> 1 \<le> i \<and> i \<le> mx \<and> valid_height (height x) \<and> hex32 (chainWork x)
     \<and> hex_nat (chainWork x) = work_at sched (height x) \<and> bits x = sched (height x))"

definition linked_to :: "live_header \<Rightarrow> live_header \<Rightarrow> bool" where
  "linked_to q x = (previousHeaderId x = Some (headerId q) \<and> previousHash x = hash q \<and> height x = height q + 1)"

definition live_rows_ok :: "(int \<Rightarrow> int) \<Rightarrow> int \<Rightarrow> (int, live_header) jsmap \<Rightarrow> bool" where
  "live_rows_ok sched mx rows = (jsmap_wf rows
     \<and> (\<forall>i x. jsmap_get rows i = Some x \<longrightarrow> row_ok sched mx i x)
     \<and> (\<forall>i x p. jsmap_get rows i = Some x \<and> previousHeaderId x = Some p \<longrightarrow>
          (\<exists>q. stored rows q \<and> linked_to q x \<and> \<not> isChainTip q)))"

definition hash_ok :: "header_store \<Rightarrow> bool" where
  "hash_ok s = (\<forall>h i. jsmap_get (hashToHeaderId s) h = Some i \<longleftrightarrow> (\<exists>x. live s i = Some x \<and> hash x = h))"

definition actives_ok :: "int \<Rightarrow> (int, live_header) jsmap \<Rightarrow> bool" where
  "actives_ok lo rows =
    ((\<forall>x q. stored rows x \<and> isActive x \<and> stored rows q \<and> linked_to q x \<longrightarrow> isActive q)
     \<and> (\<forall>x y. stored rows x \<and> stored rows y \<and> isActive x \<and> isActive y \<and> height x = height y \<longrightarrow> x = y)
     \<and> (\<forall>x. stored rows x \<longrightarrow> lo \<le> height x)
     \<and> (\<forall>x. stored rows x \<and> isActive x \<and> previousHeaderId x = None \<longrightarrow> height x = lo))"

text \<open>The tip: active and flagged, at least as high as every header and stored first at its height; other
  flagged headers are former tips, inactive and lower.\<close>

definition tip_ok :: "(int, live_header) jsmap \<Rightarrow> live_header \<Rightarrow> bool" where
  "tip_ok rows t = (stored rows t \<and> isActive t \<and> isChainTip t
     \<and> (\<forall>x. stored rows x \<longrightarrow> height x \<le> height t \<and> (height x = height t \<longrightarrow> headerId t \<le> headerId x)
          \<and> (isChainTip x \<and> x \<noteq> t \<longrightarrow> \<not> isActive x \<and> height x < height t)))"

text \<open>The bulk files end where the live headers begin.\<close>

definition bulk_ok :: "(int \<Rightarrow> int) \<Rightarrow> header_store \<Rightarrow> bool" where
  "bulk_ok sched s = (files_ok (bfds (bulk s)) \<and> bfds (bulk s) \<noteq> []
     \<and> hex_nat (lastBulkWork (bulk s)) = work_at sched (nextBulkHeight (bulk s) - 1)
     \<and> (\<forall>x. stored (liveHeaders s) x \<and> isActive x \<and> previousHeaderId x = None \<longrightarrow> previousHash x = lastBulkHash (bulk s)))"

definition live_store_inv :: "(int \<Rightarrow> int) \<Rightarrow> header_store \<Rightarrow> bool" where
  "live_store_inv sched s = (0 \<le> maxHeaderId s \<and> live_rows_ok sched (maxHeaderId s) (liveHeaders s) \<and> hash_ok s \<and> bulk_ok sched s
     \<and> (liveHeaders s = [] \<or> actives_ok (nextBulkHeight (bulk s)) (liveHeaders s)
          \<and> (\<exists>t. tip_ok (liveHeaders s) t \<and> tipHeaderId s = headerId t)))"

lemma live_rows_okD:
  assumes "live_rows_ok sched mx rows" "jsmap_get rows i = Some x"
  shows "row_ok sched mx i x" "headerId x = i" "stored rows x"
  using assms by (auto simp: live_rows_ok_def row_ok_def)

lemma live_rows_ok_parent:
  assumes "live_rows_ok sched mx rows" "stored rows x" "previousHeaderId x = Some p"
  obtains q where "stored rows q" "linked_to q x" "\<not> isChainTip q" "headerId q = p"
proof -
  obtain q where "stored rows q" "linked_to q x" "\<not> isChainTip q"
    using assms unfolding live_rows_ok_def stored_def by blast
  then show ?thesis
    using that assms(3) by (metis linked_to_def option.inject)
qed

lemma stored_eq: "stored rows x \<Longrightarrow> stored rows y \<Longrightarrow> headerId x = headerId y \<Longrightarrow> x = y"
proof -
  assume a: "stored rows x" "stored rows y" "headerId x = headerId y"
  have "Some x = Some y"
    unfolding a(1) [unfolded stored_def, symmetric] a(2) [unfolded stored_def, symmetric] a(3) ..
  then show "x = y" by simp
qed

lemma actives_parent: "actives_ok lo rows \<Longrightarrow> stored rows x \<Longrightarrow> isActive x \<Longrightarrow> stored rows q \<Longrightarrow> linked_to q x \<Longrightarrow> isActive q"
  unfolding actives_ok_def by blast

lemma actives_unique: "actives_ok lo rows \<Longrightarrow> stored rows x \<Longrightarrow> stored rows y \<Longrightarrow> isActive x \<Longrightarrow> isActive y \<Longrightarrow>
    height x = height y \<Longrightarrow> x = y"
  unfolding actives_ok_def by blast

lemma actives_lo: "actives_ok lo rows \<Longrightarrow> stored rows x \<Longrightarrow> lo \<le> height x"
  unfolding actives_ok_def by blast

lemma actives_bottom: "actives_ok lo rows \<Longrightarrow> stored rows x \<Longrightarrow> isActive x \<Longrightarrow> previousHeaderId x = None \<Longrightarrow> height x = lo"
  unfolding actives_ok_def by blast

lemma tip_okD:
  assumes "tip_ok rows t"
  shows "stored rows t" "isActive t" "isChainTip t"
    "stored rows x \<Longrightarrow> height x \<le> height t"
    "stored rows x \<Longrightarrow> height x = height t \<Longrightarrow> headerId t \<le> headerId x"
    "stored rows x \<Longrightarrow> isChainTip x \<Longrightarrow> x \<noteq> t \<Longrightarrow> \<not> isActive x \<and> height x < height t"
  using assms unfolding tip_ok_def by blast+

lemma row_id_le: "live_rows_ok sched mx rows \<Longrightarrow> stored rows x \<Longrightarrow> headerId x \<le> mx"
  unfolding live_rows_ok_def row_ok_def stored_def by blast

lemma stored_row: "live_rows_ok sched mx rows \<Longrightarrow> stored rows x \<Longrightarrow> row_ok sched mx (headerId x) x"
  unfolding live_rows_ok_def stored_def by blast

lemma row_stored: "live_rows_ok sched mx rows \<Longrightarrow> jsmap_get rows i = Some x \<Longrightarrow> stored rows x \<and> headerId x = i"
  using live_rows_okD(2,3) by blast

lemma linked_height: "linked_to q x \<Longrightarrow> height x = height q + 1"
  by (simp add: linked_to_def)

lemma lives_stored: "live_rows_ok sched mx rows \<Longrightarrow> x \<in> set (map snd rows) \<longleftrightarrow> stored rows x"
  by (force simp: live_rows_ok_def row_ok_def jsmap_wf_def image_iff)

lemma linked_valid: "linked_to q x \<Longrightarrow> row_ok sched mx (headerId x) x \<Longrightarrow> row_ok sched mx (headerId q) q \<Longrightarrow>
    mx \<le> 9007199254740991 \<Longrightarrow> validateStoredParentLink x q = Inr ()"
  by (auto simp: linked_to_def row_ok_def validateStoredParentLink_def validateHeaderId_def js_safe_def ensure_def)

lemma visit_ok: "row_ok sched mx (headerId x) x \<Longrightarrow> mx \<le> 9007199254740991 \<Longrightarrow> headerId x \<notin> set seen \<Longrightarrow> 0 < room \<Longrightarrow>
    recordTraversalVisit seen room x = Inr ()"
  by (auto simp: row_ok_def recordTraversalVisit_def validateHeaderId_def validateHeight_def js_safe_def ensure_def)

section \<open>The loops of a reorganization\<close>

lemma jsmap_set_keys: "k \<in> fst ` set m \<Longrightarrow> map fst (jsmap_set k v m) = map fst m"
  by (induction m) auto

lemma stored_key: "stored rows x \<Longrightarrow> map fst rows' = map fst rows \<Longrightarrow> headerId x \<in> fst ` set rows'"
  by (simp, metis (no_types, lifting) image_eqI fst_conv list.set_map map_of_SomeD)

text \<open>The rows with the active headers above height \<open>k\<close> deactivated.\<close>

definition above_off :: "(int, live_header) jsmap \<Rightarrow> int \<Rightarrow> int \<Rightarrow> live_header option" where
  "above_off rows k i = map_option (\<lambda>x. if isActive x \<and> k < height x then x\<lparr>isActive := False\<rparr> else x) (jsmap_get rows i)"

lemma deactivate_loop_result:
  assumes ro: "live_rows_ok sched mx rows0" and mx: "mx \<le> 9007199254740991" and act: "actives_ok lo rows0"
    and a: "stored rows0 a" "isActive a"
    and h: "stored rows0 h" "isActive h" "height a \<le> height h"
    and keys: "map fst rows = map fst rows0" and look: "\<forall>i. jsmap_get rows i = above_off rows0 (height h) i"
    and seen: "\<forall>j\<in>set seen. \<exists>y. jsmap_get rows0 j = Some y \<and> height h < height y"
    and room: "height h - height a \<le> int room"
  shows "\<exists>rows' gone'. deactivate_loop (headerId a) seen room h gone rows = (rows', gone', Inr ())
     \<and> map fst rows' = map fst rows0 \<and> (\<forall>i. jsmap_get rows' i = above_off rows0 (height a) i)"
  using h keys look seen room
proof (induction room arbitrary: h seen rows gone)
  case (0 h)
  have "h = a"
    by (rule actives_unique [OF act 0(1) a(1) 0(2) a(2)]) (use 0 in simp)
  then show ?case
    using 0 by (subst deactivate_loop.simps) simp
next
  case (Suc room)
  show ?case
  proof (cases "h = a")
    case True
    then show ?thesis
      using Suc.prems by (subst deactivate_loop.simps) simp
  next
    case False
    have lt: "height a < height h"
      using actives_unique [OF act Suc.prems(1) a(1) Suc.prems(2) a(2)] False Suc.prems(3) by fastforce
    have ne: "headerId h \<noteq> headerId a"
      using stored_eq [OF Suc.prems(1) a(1)] False by blast
    have lo: "lo \<le> height a"
      by (rule actives_lo [OF act a(1)])
    obtain p where p: "previousHeaderId h = Some p"
      using actives_bottom [OF act Suc.prems(1,2)] lt lo by (cases "previousHeaderId h") auto
    obtain q where q: "stored rows0 q" "linked_to q h" "headerId q = p"
      using live_rows_ok_parent [OF ro Suc.prems(1) p] by metis
    have qa: "isActive q"
      by (rule actives_parent [OF act Suc.prems(1,2) q(1,2)])
    have hq: "height h = height q + 1"
      by (rule linked_height [OF q(2)])
    have pne: "p \<noteq> headerId h"
    proof
      assume "p = headerId h"
      then have "h = q" using q(3) by (intro stored_eq [OF Suc.prems(1) q(1)]) simp
      then show False using hq by simp
    qed
    let ?rows1 = "jsmap_set (headerId h) (h\<lparr>isActive := False\<rparr>) rows"
    have rh: "row_ok sched mx (headerId h) h" and rq: "row_ok sched mx (headerId q) q"
      using stored_row [OF ro Suc.prems(1)] stored_row [OF ro q(1)] by auto
    have visit: "recordTraversalVisit seen (Suc room) h = Inr ()"
      by (rule visit_ok [OF rh mx]) (use Suc.prems in auto)
    have "jsmap_get ?rows1 p = Some q"
      using pne Suc.prems(5) q(1,3) hq by (auto simp: above_off_def)
    moreover have "validateStoredParentLink h q = Inr ()"
      by (rule linked_valid [OF q(2) rh rq mx])
    moreover have "map fst ?rows1 = map fst rows0"
      using jsmap_set_keys stored_key [OF Suc.prems(1,4)] Suc.prems(4) by metis
    moreover have "\<forall>i. jsmap_get ?rows1 i = above_off rows0 (height q) i"
    proof
      fix i
      show "jsmap_get ?rows1 i = above_off rows0 (height q) i"
      proof (cases "i = headerId h")
        case True
        then show ?thesis using Suc.prems(1,2) hq by (simp add: above_off_def)
      next
        case i: False
        have "height h < height x \<longleftrightarrow> height q < height x" if "jsmap_get rows0 i = Some x" "isActive x" for x
        proof -
          have "headerId x = i" using live_rows_okD(2) [OF ro that(1)] .
          then have "height x \<noteq> height h"
            using actives_unique [OF act, of x h] Suc.prems(1,2) that i by auto
          then show ?thesis using hq by auto
        qed
        then show ?thesis
          using i Suc.prems(5) by (auto simp: above_off_def split: option.splits intro!: option.map_cong)
      qed
    qed
    moreover have "\<forall>j\<in>set (headerId h # seen). \<exists>y. jsmap_get rows0 j = Some y \<and> height q < height y"
      using Suc.prems(1,6) hq by force
    ultimately obtain rows' gone' where
      "deactivate_loop (headerId a) (headerId h # seen) room q (gone @ [h]) ?rows1 = (rows', gone', Inr ())"
      "map fst rows' = map fst rows0" "\<forall>i. jsmap_get rows' i = above_off rows0 (height a) i"
      using Suc.IH [of q ?rows1 "headerId h # seen" "gone @ [h]"] q(1) qa lt hq Suc.prems(7) by auto
    then show ?thesis
      using ne visit p \<open>jsmap_get ?rows1 p = Some q\<close> \<open>validateStoredParentLink h q = Inr ()\<close>
      by (subst deactivate_loop.simps) (simp add: Let_def)
  qed
qed

text \<open>A walk through inactive headers up to an active one.\<close>

fun up_path :: "(int, live_header) jsmap \<Rightarrow> live_header list \<Rightarrow> live_header \<Rightarrow> live_header \<Rightarrow> bool" where
  "up_path rows [] h a = (h = a \<and> isActive a)"
| "up_path rows (x # xs) h a = (x = h \<and> \<not> isActive h \<and> (\<exists>q. stored rows q \<and> linked_to q h \<and> \<not> isChainTip q \<and> up_path rows xs q a))"

lemma up_path_facts:
  "up_path rows ps h a \<Longrightarrow> stored rows h \<Longrightarrow> stored rows a \<and> isActive a \<and> height h = height a + int (length ps)
     \<and> (\<forall>x\<in>set ps. stored rows x \<and> \<not> isActive x \<and> height a < height x \<and> height x \<le> height h
          \<and> (x = h \<or> \<not> isChainTip x))"
proof (induction ps arbitrary: h)
  case (Cons x ps)
  then obtain q where q: "stored rows q" "linked_to q h" "\<not> isChainTip q" "up_path rows ps q a" and x: "x = h" "\<not> isActive h"
    by auto
  note IH = Cons.IH [OF q(4,1)]
  have "stored rows y \<and> \<not> isActive y \<and> height a < height y \<and> height y \<le> height h \<and> (y = h \<or> \<not> isChainTip y)"
    if "y \<in> set (x # ps)" for y
  proof (cases "y = h")
    case True
    then show ?thesis using Cons.prems(2) x IH linked_height [OF q(2)] by simp
  next
    case False
    then have "y \<in> set ps" using that x by simp
    then show ?thesis using IH linked_height [OF q(2)] q(3) by auto
  qed
  then show ?case
    using IH linked_height [OF q(2)] by simp
qed simp

lemma active_ancestor_result:
  assumes ro: "live_rows_ok sched mx rows" and mx: "mx \<le> 9007199254740991" and lo: "\<forall>x. stored rows x \<longrightarrow> lo \<le> height x"
    and h: "stored rows h" and seen: "\<forall>j\<in>set seen. \<exists>y. jsmap_get rows j = Some y \<and> height h < height y"
    and room: "height h - lo < int room"
  shows "\<exists>r. active_ancestor_loop rows seen room h = Inr r \<and> (case r of Some a \<Rightarrow> \<exists>ps. up_path rows ps h a | None \<Rightarrow> True)"
  using h seen room
proof (induction room arbitrary: h seen)
  case (0 h)
  then show ?case using lo by force
next
  case (Suc room)
  show ?case
  proof (cases "isActive h")
    case True
    then have "up_path rows [] h h" by simp
    then show ?thesis
      using True by (intro exI [of _ "Some h"] conjI) (subst active_ancestor_loop.simps, simp, simp only: option.case, rule exI)
  next
    case False
    have rh: "row_ok sched mx (headerId h) h"
      using stored_row [OF ro Suc.prems(1)] .
    have visit: "recordTraversalVisit seen (Suc room) h = Inr ()"
      by (rule visit_ok [OF rh mx]) (use Suc.prems in auto)
    show ?thesis
    proof (cases "previousHeaderId h")
      case None
      then show ?thesis
        using False visit by (subst active_ancestor_loop.simps) simp
    next
      case (Some p)
      obtain q where q: "stored rows q" "linked_to q h" "\<not> isChainTip q" "headerId q = p"
        using live_rows_ok_parent [OF ro Suc.prems(1) Some] .
      have link: "validateStoredParentLink h q = Inr ()"
        by (rule linked_valid [OF q(2) rh stored_row [OF ro q(1)] mx])
      have "\<forall>j\<in>set (headerId h # seen). \<exists>y. jsmap_get rows j = Some y \<and> height q < height y"
        using Suc.prems(1,2) q(2) by (force simp: linked_to_def)
      then obtain r where r: "active_ancestor_loop rows (headerId h # seen) room q = Inr r"
          "case r of Some a \<Rightarrow> \<exists>ps. up_path rows ps q a | None \<Rightarrow> True"
        using Suc.IH [OF q(1), of "headerId h # seen"] Suc.prems(3) q(2) by (auto simp: linked_to_def)
      have "case r of Some a \<Rightarrow> \<exists>ps. up_path rows ps h a | None \<Rightarrow> True"
      proof (cases r)
        case (Some a)
        then obtain ps where "up_path rows ps q a" using r(2) by auto
        then have "up_path rows (h # ps) h a" using False q by auto
        then show ?thesis unfolding Some option.case by (rule exI)
      qed simp
      then show ?thesis
        using False visit Some q(1,4) link r(1) by (subst active_ancestor_loop.simps) auto
    qed
  qed
qed

lemma activate_loop_result:
  assumes ro: "live_rows_ok sched mx rows0" and mx: "mx \<le> 9007199254740991"
    and h: "stored rows0 h" "up_path rows0 ps h a"
    and keys: "map fst rows = map fst rows0"
    and look: "\<forall>x\<in>insert a (set ps). jsmap_get rows (headerId x) = Some x"
    and seen: "\<forall>j\<in>set seen. \<exists>y. jsmap_get rows0 j = Some y \<and> height h < height y"
    and room: "length ps \<le> room"
  shows "\<exists>rows'. activate_loop (headerId a) seen room h rows = (rows', Inr ())
     \<and> map fst rows' = map fst rows0
     \<and> (\<forall>i. jsmap_get rows' i = (if i \<in> headerId ` set ps then map_option (\<lambda>x. x\<lparr>isActive := True\<rparr>) (jsmap_get rows i)
                                  else jsmap_get rows i))"
  using h keys look seen room
proof (induction ps arbitrary: h seen rows room)
  case Nil
  then show ?case
    by (subst activate_loop.simps) simp
next
  case (Cons x ps)
  obtain q where q: "stored rows0 q" "linked_to q h" "up_path rows0 ps q a" and x: "x = h" and ina: "\<not> isActive h"
    using Cons.prems(2) by auto
  obtain room' where room: "room = Suc room'" using Cons.prems(6) by (cases room) auto
  have rh: "row_ok sched mx (headerId h) h" and rq: "row_ok sched mx (headerId q) q"
    using stored_row [OF ro Cons.prems(1)] stored_row [OF ro q(1)] by auto
  note F = up_path_facts [OF Cons.prems(2,1)]
  note G = up_path_facts [OF q(3,1)]
  have hq: "height h = height q + 1" by (rule linked_height [OF q(2)])
  have ne: "headerId h \<noteq> headerId a"
    using stored_eq [OF Cons.prems(1), of a] F ina by auto
  have visit: "recordTraversalVisit seen room h = Inr ()"
    by (rule visit_ok [OF rh mx]) (use Cons.prems room in auto)
  let ?rows1 = "jsmap_set (headerId h) (h\<lparr>isActive := True\<rparr>) rows"
  have other: "headerId y \<noteq> headerId h" if "y \<in> insert a (set ps)" for y
  proof -
    have "stored rows0 y" "height y < height h" using that G hq by auto
    then show ?thesis using stored_eq [OF Cons.prems(1), of y] by auto
  qed
  have qin: "q \<in> insert a (set ps)"
    using q(3) by (cases ps) auto
  have gq: "jsmap_get ?rows1 (headerId q) = Some q"
    using other [OF qin] qin Cons.prems(4) by auto
  have link: "validateStoredParentLink h q = Inr ()"
    by (rule linked_valid [OF q(2) rh rq mx])
  have keys1: "map fst ?rows1 = map fst rows0"
    using jsmap_set_keys stored_key [OF Cons.prems(1,3)] Cons.prems(3) by metis
  have look1: "\<forall>y\<in>insert a (set ps). jsmap_get ?rows1 (headerId y) = Some y"
    using other Cons.prems(4) by auto
  have seen1: "\<forall>j\<in>set (headerId h # seen). \<exists>y. jsmap_get rows0 j = Some y \<and> height q < height y"
    using Cons.prems(1,5) hq by force
  obtain rows' where r: "activate_loop (headerId a) (headerId h # seen) room' q ?rows1 = (rows', Inr ())"
      "map fst rows' = map fst rows0"
      "\<forall>i. jsmap_get rows' i = (if i \<in> headerId ` set ps then map_option (\<lambda>x. x\<lparr>isActive := True\<rparr>) (jsmap_get ?rows1 i)
                                  else jsmap_get ?rows1 i)"
    using Cons.IH [OF q(1,3) keys1 look1 seen1, of room'] Cons.prems(6) room by auto
  have "activate_loop (headerId a) seen room h rows = (rows', Inr ())"
    using ne visit q(2) gq link r(1) room
    by (subst activate_loop.simps) (simp add: Let_def linked_to_def)
  moreover have "headerId h \<notin> headerId ` set ps"
  proof
    assume "headerId h \<in> headerId ` set ps"
    then obtain y where "y \<in> set ps" "headerId y = headerId h" by auto
    then show False using other [of y] by simp
  qed
  moreover have "jsmap_get rows (headerId h) = Some h"
    using Cons.prems(4) x by auto
  ultimately show ?case
    using r(2,3) x by auto
qed

declare stored_def [simp del]

section \<open>Adding a header\<close>

lemma mk_live_sel [simp]:
  "headerId (mk_live h i p w act) = i" "previousHeaderId (mk_live h i p w act) = p" "chainWork (mk_live h i p w act) = w"
  "isActive (mk_live h i p w act) = act" "isChainTip (mk_live h i p w act) = act" "hash (mk_live h i p w act) = hash h"
  "height (mk_live h i p w act) = height h" "previousHash (mk_live h i p w act) = previousHash h"
  "bits (mk_live h i p w act) = bits h" "merkleRoot (mk_live h i p w act) = merkleRoot h"
  by (cases h; simp add: mk_live_def block_header.defs)+

text \<open>Only the two flags of stored headers ever change; \<open>flagged A C\<close> sets them.\<close>

definition flagged :: "(live_header \<Rightarrow> bool) \<Rightarrow> (live_header \<Rightarrow> bool) \<Rightarrow> live_header \<Rightarrow> live_header" where
  "flagged A C x = x\<lparr>isActive := A x, isChainTip := C x\<rparr>"

lemma flagged_sel [simp]:
  "headerId (flagged A C x) = headerId x" "previousHeaderId (flagged A C x) = previousHeaderId x"
  "chainWork (flagged A C x) = chainWork x" "hash (flagged A C x) = hash x" "height (flagged A C x) = height x"
  "previousHash (flagged A C x) = previousHash x" "bits (flagged A C x) = bits x"
  "isActive (flagged A C x) = A x" "isChainTip (flagged A C x) = C x"
  by (simp_all add: flagged_def)

text \<open>The rows after an insertion: the new header under a fresh id, the others with new flags.\<close>

definition extended :: "(int, live_header) jsmap \<Rightarrow> (live_header \<Rightarrow> bool) \<Rightarrow> (live_header \<Rightarrow> bool) \<Rightarrow> live_header
    \<Rightarrow> (int, live_header) jsmap \<Rightarrow> bool" where
  "extended rows A C new rows' = (jsmap_wf rows' \<and> (\<forall>j. jsmap_get rows' j =
     (if j = headerId new then Some new else map_option (flagged A C) (jsmap_get rows j))))"

lemma extended_stored:
  assumes "extended rows A C new rows'" "live_rows_ok sched mx rows" "mx < headerId new"
  shows "stored rows' y \<longleftrightarrow> y = new \<or> (\<exists>x. stored rows x \<and> y = flagged A C x)"
proof
  assume y: "stored rows' y"
  then show "y = new \<or> (\<exists>x. stored rows x \<and> y = flagged A C x)"
  proof (cases "headerId y = headerId new")
    case False
    then obtain x where "jsmap_get rows (headerId y) = Some x" "y = flagged A C x"
      using y assms(1) unfolding stored_def by (auto simp: extended_def)
    then show ?thesis using live_rows_okD(3) [OF assms(2)] by auto
  qed (use assms(1) in \<open>simp add: extended_def stored_def\<close>)
next
  assume "y = new \<or> (\<exists>x. stored rows x \<and> y = flagged A C x)"
  then show "stored rows' y"
  proof
    assume "\<exists>x. stored rows x \<and> y = flagged A C x"
    then obtain x where x: "stored rows x" "y = flagged A C x" by blast
    then have "headerId x \<noteq> headerId new"
      using stored_row [OF assms(2) x(1)] assms(3) by (auto simp: row_ok_def)
    then show ?thesis using x assms(1) by (simp add: extended_def stored_def)
  qed (use assms(1) in \<open>simp add: extended_def stored_def\<close>)
qed

lemma extended_rows_ok:
  assumes ex: "extended rows A C new rows'" and ro: "live_rows_ok sched mx rows" and new: "row_ok sched mx' (headerId new) new"
    and fresh: "mx < headerId new" "mx \<le> mx'" and C: "\<And>x. stored rows x \<Longrightarrow> C x \<Longrightarrow> isChainTip x"
    and ob: "stored rows ob" "\<not> C ob" "linked_to ob new"
  shows "live_rows_ok sched mx' rows'"
  unfolding live_rows_ok_def
proof (intro conjI allI impI)
  show "jsmap_wf rows'" using ex by (simp add: extended_def)
next
  fix i y assume i: "jsmap_get rows' i = Some y"
  show "row_ok sched mx' i y"
  proof (cases "i = headerId new")
    case True
    then show ?thesis using i ex new by (simp add: extended_def)
  next
    case False
    then obtain x where "jsmap_get rows i = Some x" "y = flagged A C x" using i ex by (auto simp: extended_def)
    then show ?thesis using live_rows_okD(1) [OF ro] fresh(2) by (fastforce simp: row_ok_def)
  qed
next
  fix i y p assume i: "jsmap_get rows' i = Some y \<and> previousHeaderId y = Some p"
  note st = extended_stored [OF ex ro fresh(1)]
  show "\<exists>q. stored rows' q \<and> linked_to q y \<and> \<not> isChainTip q"
  proof (cases "i = headerId new")
    case True
    then have "y = new" using i ex by (simp add: extended_def)
    moreover have "stored rows' (flagged A C ob)" using ob(1) by (subst st) blast
    moreover have "linked_to (flagged A C ob) new \<and> \<not> isChainTip (flagged A C ob)"
      using ob by (simp add: linked_to_def)
    ultimately show ?thesis by blast
  next
    case False
    then obtain x where x: "jsmap_get rows i = Some x" "y = flagged A C x" using i ex by (auto simp: extended_def)
    then obtain q where q: "stored rows q" "linked_to q x" "\<not> isChainTip q"
      using live_rows_ok_parent [OF ro live_rows_okD(3) [OF ro x(1)], of p] i by (metis flagged_sel(2))
    have "stored rows' (flagged A C q)" using q(1) by (subst st) blast
    moreover have "linked_to (flagged A C q) y \<and> \<not> isChainTip (flagged A C q)"
      using q C [OF q(1)] x(2) by (auto simp: linked_to_def)
    ultimately show ?thesis by blast
  qed
qed

lemma extended_hash_ok:
  assumes "extended (liveHeaders s) A C new rows'" "live_rows_ok sched mx (liveHeaders s)" "mx < headerId new" "hash_ok s"
    and "jsmap_get (hashToHeaderId s) (hash new) = None"
  shows "hash_ok (s\<lparr>liveHeaders := rows', hashToHeaderId := jsmap_set (hash new) (headerId new) (hashToHeaderId s)\<rparr>)"
  unfolding hash_ok_def
proof (intro allI)
  fix h i
  have fresh: "live s (headerId new) = None"
    using live_rows_okD(1) [OF assms(2), of "headerId new"] assms(3) by (cases "live s (headerId new)") (auto simp: row_ok_def)
  have nohash: "hash x \<noteq> hash new" if "live s j = Some x" for j x
    using assms(4,5) that unfolding hash_ok_def by (metis option.distinct(1))
  have old: "jsmap_get (hashToHeaderId s) h = Some i \<longleftrightarrow> (\<exists>x. live s i = Some x \<and> hash x = h)"
    using assms(4) by (simp add: hash_ok_def)
  have new: "jsmap_get rows' i = (if i = headerId new then Some new else map_option (flagged A C) (live s i))"
    using assms(1) by (simp add: extended_def)
  show "jsmap_get (hashToHeaderId (s\<lparr>liveHeaders := rows', hashToHeaderId := jsmap_set (hash new) (headerId new) (hashToHeaderId s)\<rparr>)) h = Some i
      \<longleftrightarrow> (\<exists>x. live (s\<lparr>liveHeaders := rows', hashToHeaderId := jsmap_set (hash new) (headerId new) (hashToHeaderId s)\<rparr>) i = Some x \<and> hash x = h)"
    using fresh nohash [of i] old new by (cases "live s i") auto
qed

lemma up_path_parent:
  "up_path rows ps h a \<Longrightarrow> x \<in> set ps \<Longrightarrow> \<exists>q. stored rows q \<and> linked_to q x \<and> (q \<in> set ps \<or> q = a)"
proof (induction ps arbitrary: h)
  case (Cons y ps)
  then obtain q where q: "stored rows q" "linked_to q h" "up_path rows ps q a" and y: "y = h" by auto
  have "q \<in> set ps \<or> q = a" using q(3) by (cases ps) auto
  then show ?case
    using Cons q y by auto
qed simp

lemma up_path_unique:
  "up_path rows ps h a \<Longrightarrow> stored rows h \<Longrightarrow> x \<in> set ps \<Longrightarrow> y \<in> set ps \<Longrightarrow> height x = height y \<Longrightarrow> x = y"
proof (induction ps arbitrary: h)
  case (Cons z ps)
  then obtain q where q: "stored rows q" "linked_to q h" "up_path rows ps q a" and z: "z = h" by auto
  have low: "height v < height h" if "v \<in> set ps" for v
    using up_path_facts [OF q(3,1)] linked_height [OF q(2)] that by auto
  have mem: "x = h \<or> x \<in> set ps" "y = h \<or> y \<in> set ps"
    using Cons.prems(3,4) z by auto
  show ?case
    using mem low [of x] low [of y] Cons.prems(5) Cons.IH [OF q(3,1)] by fastforce
qed simp

text \<open>A header that does not become the tip.\<close>

lemma extended_side:
  assumes ex: "extended rows isActive (\<lambda>x. isChainTip x \<and> x \<noteq> ob) new rows'" and ro: "live_rows_ok sched mx rows"
    and act: "actives_ok lo rows" and t: "tip_ok rows t"
    and new: "mx < headerId new" "\<not> isActive new" "\<not> isChainTip new" "height new \<le> height t" "lo \<le> height new"
    and ob: "ob \<noteq> t"
  shows "actives_ok lo rows' \<and> tip_ok rows' (flagged isActive (\<lambda>x. isChainTip x \<and> x \<noteq> ob) t)"
proof -
  let ?f = "flagged isActive (\<lambda>x. isChainTip x \<and> x \<noteq> ob)"
  note st = extended_stored [OF ex ro new(1)]
  have old: "\<exists>x. stored rows x \<and> y = ?f x" if "stored rows' y" "isActive y" for y
  proof -
    have "y = new \<or> (\<exists>x. stored rows x \<and> y = ?f x)" by (rule iffD1 [OF st that(1)])
    moreover have "y \<noteq> new" using that(2) new(2) by auto
    ultimately show ?thesis by blast
  qed
  note tt = tip_okD(1-3) [OF t]
  note tid = row_id_le [OF ro tt(1)]
  have "actives_ok lo rows'"
    unfolding actives_ok_def
  proof (intro conjI allI impI)
    fix y q assume y: "stored rows' y \<and> isActive y \<and> stored rows' q \<and> linked_to q y"
    then obtain x where x: "stored rows x" "y = ?f x" "isActive x" using old by fastforce
    show "isActive q"
    proof (cases "q = new")
      case True
      have "previousHeaderId x = Some (headerId new)" using y x(2) True by (simp add: linked_to_def)
      then obtain z where "stored rows z" "headerId z = headerId new"
        using live_rows_ok_parent [OF ro x(1)] by metis
      then show ?thesis using stored_row [OF ro, of z] new(1) by (simp add: row_ok_def)
    next
      case False
      then obtain z where z: "stored rows z" "q = ?f z" using y st by blast
      have "linked_to z x" using y x(2) z(2) by (simp add: linked_to_def)
      then show ?thesis using actives_parent [OF act x(1,3) z(1)] z(2) by simp
    qed
  next
    fix y z assume yz: "stored rows' y \<and> stored rows' z \<and> isActive y \<and> isActive z \<and> height y = height z"
    then obtain x v where "stored rows x" "y = ?f x" "stored rows v" "z = ?f v" using old by blast
    then show "y = z" using actives_unique [OF act, of x v] yz by simp
  next
    fix y assume "stored rows' y"
    then show "lo \<le> height y" using st new(5) actives_lo [OF act] by auto
  next
    fix y assume y: "stored rows' y \<and> isActive y \<and> previousHeaderId y = None"
    then obtain x where "stored rows x" "y = ?f x" using old by blast
    then show "height y = lo" using y actives_bottom [OF act, of x] by simp
  qed
  moreover have "tip_ok rows' (?f t)"
    unfolding tip_ok_def
  proof (intro conjI allI impI)
    show "stored rows' (?f t)" using tt(1) by (subst st) blast
    show "isActive (?f t)" "isChainTip (?f t)" using tt ob by simp_all
  next
    fix y assume y: "stored rows' y"
    show "height y \<le> height (?f t)" using y st new(4) t by (auto simp: tip_ok_def)
    show "headerId (?f t) \<le> headerId y" if "height y = height (?f t)"
      using y st new(1) tid t that by (auto simp: tip_ok_def)
    assume fl: "isChainTip y \<and> y \<noteq> ?f t"
    have "y \<noteq> new" using fl new(3) by blast
    then obtain x where x: "stored rows x" "y = ?f x" using y st by blast
    then have "isChainTip x" "x \<noteq> t" using fl by auto
    then show "\<not> isActive y" "height y < height (?f t)"
      using t x by (auto simp: tip_ok_def)
  qed
  ultimately show ?thesis by blast
qed

text \<open>A header that becomes the tip: the path from its parent up to the active ancestor is active, and what was
  active above the ancestor no longer is.\<close>

lemma extended_tip:
  assumes ex: "extended rows (\<lambda>x. x \<in> set ps \<or> isActive x \<and> height x \<le> height a) (\<lambda>x. isChainTip x \<and> x \<noteq> ob) new rows'"
    and ro: "live_rows_ok sched mx rows" and act: "actives_ok lo rows" and t: "tip_ok rows t"
    and path: "stored rows ob" "up_path rows ps ob a"
    and new: "mx < headerId new" "isActive new" "isChainTip new" "height t < height new" "linked_to ob new"
  shows "actives_ok lo rows' \<and> tip_ok rows' new"
proof -
  let ?A = "\<lambda>x. x \<in> set ps \<or> isActive x \<and> height x \<le> height a"
  let ?f = "flagged ?A (\<lambda>x. isChainTip x \<and> x \<noteq> ob)"
  note st = extended_stored [OF ex ro new(1)]
  note F = up_path_facts [OF path(2,1)]
  note tt = tip_okD(1-3) [OF t] and top = tip_okD(4) [OF t]
  have obt: "height ob = height t"
    using new(4) top [OF path(1)] linked_height [OF new(5)] by linarith
  have onpath: "stored rows x \<and> height a < height x \<and> \<not> isActive x" if "x \<in> set ps" for x
    using F that by blast
  have obA: "?A ob"
    using path(2) by (cases ps) auto
  have fresh: "headerId z \<noteq> headerId new" if "stored rows z" for z
    using stored_row [OF ro that] new(1) by (auto simp: row_ok_def)
  have "actives_ok lo rows'"
    unfolding actives_ok_def
  proof (intro conjI allI impI)
    fix y q assume y: "stored rows' y \<and> isActive y \<and> stored rows' q \<and> linked_to q y"
    have same: "isActive q" if "stored rows w" "?A w" "headerId q = headerId w" for w
    proof -
      have w: "stored rows' (?f w)" by (rule iffD2 [OF st]) (use that(1) in blast)
      have q: "stored rows' q" using y by blast
      have "q = ?f w" by (rule stored_eq [OF q w]) (use that(3) in simp)
      then show ?thesis using that(2) by (simp only: flagged_sel)
    qed
    consider (new) "y = new" | (old) x where "stored rows x" "y = ?f x" "?A x"
      using y st by fastforce
    then show "isActive q"
    proof cases
      case new
      show ?thesis
        by (rule same [OF path(1) obA]) (use y new \<open>linked_to ob _\<close> in \<open>simp add: linked_to_def\<close>)
    next
      case (old x)
      show ?thesis
      proof (cases "x \<in> set ps")
        case True
        then obtain w where w: "stored rows w" "linked_to w x" "w \<in> set ps \<or> w = a"
          using up_path_parent [OF path(2)] by blast
        have aa: "isActive a" using F by blast
        have "?A w"
        proof (cases "w = a")
          case True
          then show ?thesis using aa by (intro disjI2) simp
        next
          case False
          then show ?thesis using w(3) by (intro disjI1) simp
        qed
        then show ?thesis by (rule same [OF w(1)]) (use y old(2) w(2) in \<open>simp add: linked_to_def\<close>)
      next
        case False
        then have ax: "isActive x" "height x \<le> height a" using old(3) by auto
        have "previousHeaderId x = Some (headerId q)" using y old(2) by (simp add: linked_to_def)
        then obtain w where w: "stored rows w" "linked_to w x"
          by (rule live_rows_ok_parent [OF ro old(1)])
        have "?A w"
          using actives_parent [OF act old(1) ax(1) w] linked_height [OF w(2)] ax(2) by simp
        then show ?thesis by (rule same [OF w(1)]) (use y old(2) w(2) in \<open>simp add: linked_to_def\<close>)
      qed
    qed
  next
    fix y z assume yz: "stored rows' y \<and> stored rows' z \<and> isActive y \<and> isActive z \<and> height y = height z"
    have lown: "height y' < height new" if "stored rows' y'" "y' \<noteq> new" for y'
      using that st top new(4) by fastforce
    show "y = z"
    proof (cases "y = new \<or> z = new")
      case True
      then show ?thesis using yz lown by fastforce
    next
      case False
      then have "y \<noteq> new" "z \<noteq> new" by blast+
      then obtain x v where xv: "stored rows x" "y = ?f x" "stored rows v" "z = ?f v" using yz st by blast
      then have "?A x" "?A v" "height x = height v" using yz by auto
      then have "x = v"
        using onpath [of x] onpath [of v] up_path_unique [OF path(2,1), of x v] actives_unique [OF act xv(1,3)] by fastforce
      then show ?thesis using xv by simp
    qed
  next
    fix y assume "stored rows' y"
    then show "lo \<le> height y" using st new(4) actives_lo [OF act] tt(1) by fastforce
  next
    fix y assume y: "stored rows' y \<and> isActive y \<and> previousHeaderId y = None"
    then have "y \<noteq> new" using new(5) by (auto simp: linked_to_def)
    then obtain x where x: "stored rows x" "y = ?f x" using y st by blast
    have "x \<notin> set ps" using up_path_parent [OF path(2)] y x(2) by (fastforce simp: linked_to_def)
    then show "height y = lo" using y x actives_bottom [OF act, of x] by simp
  qed
  moreover have "tip_ok rows' new"
    unfolding tip_ok_def
  proof (intro conjI allI impI)
    show "stored rows' new" by (subst st) blast
    show "isActive new" "isChainTip new" by (rule new)+
  next
    fix y assume y: "stored rows' y"
    have low: "height y < height new" if "y \<noteq> new"
      using y st that top new(4) by fastforce
    show "headerId new \<le> headerId y" if "height y = height new"
      using low that by fastforce
    show "height y \<le> height new" using low by fastforce
    assume fl: "isChainTip y \<and> y \<noteq> new"
    then show "height y < height new" using low by simp
    obtain x where x: "stored rows x" "y = ?f x" using y st fl by blast
    then have xf: "isChainTip x" "x \<noteq> ob" using fl by auto
    have "\<not> ?A x"
    proof (cases "x = t")
      case True
      then have "ob \<noteq> t" using xf by simp
      then have "ps \<noteq> []" using path(2) obt actives_unique [OF act path(1) tt(1) _ tt(2)] by auto
      then have "height a < height t" using F obt by (cases ps) auto
      then show ?thesis using True onpath tt(2) by auto
    next
      case False
      then have "\<not> isActive x" using t x(1) xf(1) by (auto simp: tip_ok_def)
      moreover have "x \<notin> set ps" using F xf by auto
      ultimately show ?thesis by simp
    qed
    then show "\<not> isActive y" using x(2) by simp
  qed
  ultimately show ?thesis by blast
qed

end
