(* ===== verification/Live_Insert.thy ===== *)
theory Live_Insert
  imports Live_Chain
begin

text \<open>
  Every operation of the live header store keeps its invariant.
\<close>

section \<open>The tip\<close>

lemma distinct_lives: "live_rows_ok sched mx rows \<Longrightarrow> distinct (map snd rows)"
proof -
  assume ro: "live_rows_ok sched mx rows"
  have "map headerId (map snd rows) = map fst rows"
    using row_stored [OF ro] ro by (force simp: live_rows_ok_def jsmap_wf_def)
  moreover have "distinct (map fst rows)"
    using ro by (simp add: live_rows_ok_def jsmap_wf_def)
  ultimately show ?thesis by (metis distinct_map)
qed

lemma distinct_singleton: "distinct xs \<Longrightarrow> set xs = {t} \<Longrightarrow> xs = [t]"
  by (cases xs; cases "tl xs") auto

lemma filter_unique:
  assumes "live_rows_ok sched mx rows" "stored rows t" "P t" "\<And>x. stored rows x \<Longrightarrow> P x \<Longrightarrow> x = t"
  shows "filter P (map snd rows) = [t]"
proof (rule distinct_singleton)
  show "distinct (filter P (map snd rows))"
    using distinct_lives [OF assms(1)] by simp
  show "set (filter P (map snd rows)) = {t}"
    unfolding set_filter lives_stored [OF assms(1)] using assms(2-4) by blast
qed

lemma find_filter: "List.find P xs = (case filter P xs of [] \<Rightarrow> None | y # _ \<Rightarrow> Some y)"
  by (induction xs) auto

lemma tip_selected:
  assumes "live_rows_ok sched mx (liveHeaders s)" "tip_ok (liveHeaders s) t"
  shows "active_tips s = [t]" "List.find (\<lambda>c. isChainTip c \<and> isActive c) (lives s) = Some t"
    "List.find (\<lambda>c. isActive c \<and> isChainTip c) (lives s) = Some t"
proof -
  have u: "x = t" if "stored (liveHeaders s) x" "isActive x" "isChainTip x" for x
    using tip_okD(6) [OF assms(2) that(1,3)] that(2) by blast
  show "active_tips s = [t]"
    unfolding active_tips_def by (rule filter_unique [OF assms(1)]) (use tip_okD(1-3) [OF assms(2)] u in blast)+
  have "filter (\<lambda>c. isChainTip c \<and> isActive c) (lives s) = [t]" "filter (\<lambda>c. isActive c \<and> isChainTip c) (lives s) = [t]"
    by (rule filter_unique [OF assms(1)]; use tip_okD(1-3) [OF assms(2)] u in blast)+
  then show "List.find (\<lambda>c. isChainTip c \<and> isActive c) (lives s) = Some t"
    "List.find (\<lambda>c. isActive c \<and> isChainTip c) (lives s) = Some t"
    by (simp_all add: find_filter)
qed

lemma prior_tip_result:
  assumes "live_rows_ok sched mx (liveHeaders s)" "tip_ok (liveHeaders s) t" "stored (liveHeaders s) ob"
  shows "prior_tip s ob = Inr (Some t)"
proof (cases "isActive ob \<and> isChainTip ob")
  case True
  then have "ob = t" using tip_okD(6) [OF assms(2,3)] by blast
  then show ?thesis using True by (simp add: prior_tip_def)
next
  case False
  then show ?thesis
    by (auto simp: prior_tip_def findChainTipHeaderOrUndefined_def tip_selected(1) [OF assms(1,2)] ensure_def)
qed

section \<open>The reorganization and the new row\<close>

lemma reorg_result:
  assumes ro: "live_rows_ok sched mx (liveHeaders s)" and mx: "mx \<le> 9007199254740991"
    and act: "actives_ok lo (liveHeaders s)" and t: "tip_ok (liveHeaders s) t"
    and ob: "stored (liveHeaders s) ob" "height ob = height t" "up_path (liveHeaders s) ps ob a"
    and span: "height t - lo < 100000"
  shows "\<exists>rows' gone. applyReorganization s ob a = (s\<lparr>liveHeaders := rows'\<rparr>, gone, Inr ())
     \<and> map fst rows' = map fst (liveHeaders s)
     \<and> (\<forall>i. jsmap_get rows' i = map_option (flagged (\<lambda>x. x \<in> set ps \<or> isActive x \<and> height x \<le> height a) isChainTip) (live s i))"
proof (cases "headerId a = headerId ob")
  case True
  note F = up_path_facts [OF ob(3,1)]
  have "a = ob" using stored_eq [OF _ ob(1) True] F by blast
  then have ps: "ps = []" using F by auto
  have same: "flagged (\<lambda>x. x \<in> set ps \<or> isActive x \<and> height x \<le> height a) isChainTip x = x"
    if "jsmap_get (liveHeaders s) i = Some x" for i x
    using tip_okD(4) [OF t] row_stored [OF ro that] \<open>a = ob\<close> ob(2) ps by (simp add: flagged_def)
  have "jsmap_get (liveHeaders s) i
      = map_option (flagged (\<lambda>x. x \<in> set ps \<or> isActive x \<and> height x \<le> height a) isChainTip) (live s i)" for i
    using same [of i] by (cases "live s i") simp_all
  then show ?thesis using True by (intro exI [of _ "liveHeaders s"] exI [of _ "[]"]) (simp add: applyReorganization_def)
next
  case False
  note F = up_path_facts [OF ob(3,1)]
  note tt = tip_okD(1-3) [OF t]
  have a: "stored (liveHeaders s) a" "isActive a" and hob: "height ob = height a + int (length ps)"
    and pin: "\<And>x. x \<in> set ps \<Longrightarrow> stored (liveHeaders s) x \<and> \<not> isActive x \<and> height a < height x"
    using F by blast+
  have lo: "lo \<le> height a" by (rule actives_lo [OF act a(1)])
  have all_in: "live s i = above_off (liveHeaders s) (height t) i" for i
  proof (cases "live s i")
    case (Some x)
    then have "height x \<le> height t" using tip_okD(4) [OF t] row_stored [OF ro] by blast
    then show ?thesis using Some by (simp add: above_off_def)
  qed (simp add: above_off_def)
  obtain rows1 gone where d: "deactivate_loop (headerId a) [] max_storage_traversal t [] (liveHeaders s) = (rows1, gone, Inr ())"
      "map fst rows1 = map fst (liveHeaders s)" "\<forall>i. jsmap_get rows1 i = above_off (liveHeaders s) (height a) i"
    using deactivate_loop_result [OF ro mx act a tt(1,2) tip_okD(4) [OF t a(1)] refl, of "[]" max_storage_traversal "[]"]
      all_in span lo by auto
  have look: "\<forall>x\<in>insert a (set ps). jsmap_get rows1 (headerId x) = Some x"
    using d(3) a pin by (auto simp: above_off_def stored_def)
  have len: "length ps \<le> max_storage_traversal"
    using hob ob(2) lo span by simp
  obtain rows2 where r: "activate_loop (headerId a) [] max_storage_traversal ob rows1 = (rows2, Inr ())"
      "map fst rows2 = map fst (liveHeaders s)"
      "\<forall>i. jsmap_get rows2 i = (if i \<in> headerId ` set ps then map_option (\<lambda>x. x\<lparr>isActive := True\<rparr>) (jsmap_get rows1 i)
                                  else jsmap_get rows1 i)"
    using activate_loop_result [OF ro mx ob(1,3) d(2) look, of "[]" max_storage_traversal] len by auto
  have "jsmap_get rows2 i
      = map_option (flagged (\<lambda>x. x \<in> set ps \<or> isActive x \<and> height x \<le> height a) isChainTip) (live s i)" for i
  proof (cases "live s i")
    case None
    then show ?thesis using r(3) d(3) by (simp add: above_off_def)
  next
    case (Some x)
    have x: "stored (liveHeaders s) x" "headerId x = i" using row_stored [OF ro Some] by auto
    have "i \<in> headerId ` set ps \<longleftrightarrow> x \<in> set ps"
      using x pin stored_eq [of "liveHeaders s" x] by (metis image_iff)
    then show ?thesis using Some r(3) d(3) pin [of x] by (auto simp: above_off_def flagged_def)
  qed
  then show ?thesis
    using False tip_selected(2) [OF ro t] d(1) r(1,2)
    by (intro exI [of _ rows2] exI [of _ gone]) (simp add: applyReorganization_def)
qed

lemma store_extended:
  assumes ro: "live_rows_ok sched mx rows" and look: "\<forall>i. jsmap_get (liveHeaders s) i = map_option (flagged A isChainTip) (jsmap_get rows i)"
    and wf: "jsmap_wf (liveHeaders s)" and ob: "stored rows ob" "isChainTip ob \<Longrightarrow> isActive ob = A ob" and i: "mx < i"
  shows "extended rows A (\<lambda>x. isChainTip x \<and> x \<noteq> ob) (mk_live h i (Some (headerId ob)) w act)
    (liveHeaders (store_header s h ob i w act))"
proof -
  have ne: "headerId ob \<noteq> i" using row_id_le [OF ro ob(1)] i by simp
  have same: "flagged A isChainTip x = flagged A (\<lambda>x. isChainTip x \<and> x \<noteq> ob) x" if "\<not> isChainTip x \<or> x \<noteq> ob" for x
    using that by (auto simp: flagged_def)
  have K: "jsmap_get (if isChainTip ob then jsmap_set (headerId ob) (ob\<lparr>isChainTip := False\<rparr>) (liveHeaders s) else liveHeaders s) j
      = map_option (flagged A (\<lambda>x. isChainTip x \<and> x \<noteq> ob)) (jsmap_get rows j)" for j
  proof (cases "j = headerId ob")
    case True
    then have "jsmap_get rows j = Some ob" using ob(1) by (simp add: stored_def)
    then show ?thesis using True ob(2) look by (auto simp: flagged_def)
  next
    case False
    have "x \<noteq> ob" if "jsmap_get rows j = Some x" for x
      using row_stored [OF ro that] False by blast
    then show ?thesis using False look same by (cases "jsmap_get rows j") auto
  qed
  have "jsmap_get (liveHeaders (store_header s h ob i w act)) j = (if j = i then Some (mk_live h i (Some (headerId ob)) w act)
      else map_option (flagged A (\<lambda>x. isChainTip x \<and> x \<noteq> ob)) (jsmap_get rows j))" for j
    unfolding K [symmetric] by (simp add: store_header_def Let_def)
  moreover have "jsmap_wf (liveHeaders (store_header s h ob i w act))"
    using wf by (simp add: store_header_def Let_def)
  ultimately show ?thesis
    by (simp add: extended_def)
qed

section \<open>Inserting below an existing header\<close>

lemma header_work:
  assumes "and_then (convertBitsToWork b) (addWork c) = Inr w"
  shows "hex32 w \<and> hash_text w \<and> hex32 c \<and> hex_nat w = hex_nat c + block_work b"
proof -
  obtain bw where bw: "convertBitsToWork b = Inr bw" "addWork c bw = Inr w" using assms by (auto simp: and_then_Inr)
  obtain t where "validateCompactTarget b = Inr t"
    using bw(1) by (auto simp: convertBitsToWork_def and_then_Inr)
  then have "hex_nat bw = block_work b"
    using block_work_of_target [of b t] bw(1) by (metis hex_nat_digits hex_nat_pad sum.inject(2))
  then show ?thesis
    using bw(2) addWork_Inr [of c bw w] work_text_hex32 [of "hex_nat c + hex_nat bw"] work_text_ok [of "hex_nat c + hex_nat bw"] by auto
qed

text \<open>The live header the code is about to store: it extends \<open>ob\<close>, the tip is \<open>t\<close>.\<close>

lemma new_row_ok:
  assumes ro: "live_rows_ok sched mx rows" and ob: "stored rows ob" "height h = height ob + 1" "hash ob = previousHash h"
    and b: "bits h = sched (height h)" "valid_height (height h)" and i: "i = mx + 1" "0 \<le> mx"
    and w: "and_then (convertBitsToWork (bits h)) (addWork (chainWork ob)) = Inr w"
  shows "row_ok sched i i (mk_live h i (Some (headerId ob)) w act)" "linked_to ob (mk_live h i (Some (headerId ob)) w act)"
    "hex_nat w = work_at sched (height h)"
proof -
  have r: "hex_nat (chainWork ob) = work_at sched (height ob)" "0 \<le> height ob"
    using stored_row [OF ro ob(1)] by (auto simp: row_ok_def valid_height_def)
  show hw: "hex_nat w = work_at sched (height h)"
    using header_work [OF w] r ob(2) b(1) work_at_step [of "height ob" sched] by simp
  show "row_ok sched i i (mk_live h i (Some (headerId ob)) w act)"
    using header_work [OF w] hw b i by (simp add: row_ok_def)
  show "linked_to ob (mk_live h i (Some (headerId ob)) w act)"
    using ob by (simp add: linked_to_def)
qed

lemma live_store_inv_id_step: "live_store_inv sched s \<Longrightarrow> live_store_inv sched (s\<lparr>maxHeaderId := maxHeaderId s + 1\<rparr>)"
proof -
  assume s: "live_store_inv sched s"
  then have "live_rows_ok sched (maxHeaderId s + 1) (liveHeaders s)"
    by (force simp: live_store_inv_def live_rows_ok_def row_ok_def)
  then show ?thesis using s by (simp add: live_store_inv_def hash_ok_def bulk_ok_def)
qed

text \<open>The stored rows after the insertion keep the invariant when \<open>t'\<close> is a tip of them.\<close>

lemma live_store_inv_extended:
  assumes s: "live_store_inv sched s" and ex: "extended (liveHeaders s) A C new rows'"
    and new: "row_ok sched (headerId new) (headerId new) new" "headerId new = maxHeaderId s + 1" "previousHeaderId new = Some p"
    and nohash: "jsmap_get (hashToHeaderId s) (hash new) = None"
    and C: "\<And>x. stored (liveHeaders s) x \<Longrightarrow> C x \<Longrightarrow> isChainTip x"
    and A: "\<And>x. stored (liveHeaders s) x \<Longrightarrow> A x \<Longrightarrow> previousHeaderId x = None \<Longrightarrow> isActive x"
    and ob: "stored (liveHeaders s) ob" "\<not> C ob" "linked_to ob new"
    and after: "actives_ok (nextBulkHeight (bulk s)) rows' \<and> tip_ok rows' t'"
  shows "live_store_inv sched (s\<lparr>maxHeaderId := headerId new, liveHeaders := rows',
      hashToHeaderId := jsmap_set (hash new) (headerId new) (hashToHeaderId s), tipHeaderId := headerId t'\<rparr>)"
proof -
  have ro: "live_rows_ok sched (maxHeaderId s) (liveHeaders s)" and ho: "hash_ok s" and bo: "bulk_ok sched s" and m: "0 \<le> maxHeaderId s"
    using s by (simp_all add: live_store_inv_def)
  have fresh: "maxHeaderId s < headerId new" "maxHeaderId s \<le> headerId new" using new(2) by simp_all
  note st = extended_stored [OF ex ro fresh(1)]
  have "live_rows_ok sched (headerId new) rows'"
    by (rule extended_rows_ok [OF ex ro new(1) fresh C ob])
  moreover have "hash_ok (s\<lparr>liveHeaders := rows', hashToHeaderId := jsmap_set (hash new) (headerId new) (hashToHeaderId s)\<rparr>)"
    by (rule extended_hash_ok [OF ex ro fresh(1) ho nohash])
  moreover have "previousHash y = lastBulkHash (bulk s)" if y: "stored rows' y" "isActive y" "previousHeaderId y = None" for y
  proof -
    have "y \<noteq> new" using y(3) new(3) by auto
    then obtain x where x: "stored (liveHeaders s) x" "y = flagged A C x" using y(1) st by blast
    then have "isActive x" "previousHeaderId x = None" using A y(2,3) by auto
    then show ?thesis using bo x unfolding bulk_ok_def by auto
  qed
  ultimately show ?thesis
    using after bo m new(2) by (auto simp: live_store_inv_def hash_ok_def bulk_ok_def)
qed

text \<open>The store has ids left, and no live header is too far above the bulk files for the traversal limit.\<close>

definition room_ok :: "header_store \<Rightarrow> bool" where
  "room_ok s = (maxHeaderId s < 9007199254740991
     \<and> (\<forall>x\<in>set (lives s). height x < nextBulkHeight (bulk s) + 100000))"

lemma insert_side_inv:
  assumes s: "live_store_inv sched s" and sc: "sched_ok sched" and b: "bits h = sched (height h)" "valid_height (height h)"
    and nohash: "jsmap_get (hashToHeaderId s) (hash h) = None"
    and ob: "stored (liveHeaders s) ob" "hash ob = previousHash h" "height h = height ob + 1"
    and w: "and_then (convertBitsToWork (bits h)) (addWork (chainWork ob)) = Inr w"
    and t: "tip_ok (liveHeaders s) t" "tipHeaderId s = headerId t" "actives_ok (nextBulkHeight (bulk s)) (liveHeaders s)"
    and low: "height h \<le> height t"
  shows "live_store_inv sched (store_header (s\<lparr>maxHeaderId := maxHeaderId s + 1\<rparr>) h ob (maxHeaderId s + 1) w False)"
proof -
  have ro: "live_rows_ok sched (maxHeaderId s) (liveHeaders s)" and m: "0 \<le> maxHeaderId s"
    using s by (simp_all add: live_store_inv_def)
  let ?new = "mk_live h (maxHeaderId s + 1) (Some (headerId ob)) w False"
  let ?s1 = "s\<lparr>maxHeaderId := maxHeaderId s + 1\<rparr>"
  let ?s2 = "store_header ?s1 h ob (maxHeaderId s + 1) w False"
  note N = new_row_ok(1,2) [OF ro ob(1,3,2) b refl m w, of False]
  have ne: "ob \<noteq> t" using low ob(3) by auto
  have lo: "nextBulkHeight (bulk s) \<le> height ?new"
    using actives_lo [OF t(3) ob(1)] ob(3) by simp
  have "live ?s1 i = map_option (flagged isActive isChainTip) (live s i)" for i
    by (cases "live s i") (simp_all add: flagged_def)
  then have ex: "extended (liveHeaders s) isActive (\<lambda>x. isChainTip x \<and> x \<noteq> ob) ?new (liveHeaders ?s2)"
    using ro by (intro store_extended [OF ro _ _ ob(1)]) (auto simp: live_rows_ok_def)
  have "actives_ok (nextBulkHeight (bulk s)) (liveHeaders ?s2)
      \<and> tip_ok (liveHeaders ?s2) (flagged isActive (\<lambda>x. isChainTip x \<and> x \<noteq> ob) t)"
    by (rule extended_side [OF ex ro t(3,1)]) (use low lo ne in simp_all)
  then have "live_store_inv sched (s\<lparr>maxHeaderId := headerId ?new, liveHeaders := liveHeaders ?s2,
      hashToHeaderId := jsmap_set (hash ?new) (headerId ?new) (hashToHeaderId s),
      tipHeaderId := headerId (flagged isActive (\<lambda>x. isChainTip x \<and> x \<noteq> ob) t)\<rparr>)"
    by (intro live_store_inv_extended [OF s ex _ _ _ _ _ _ ob(1) _ N(2)]) (use N(1) nohash in simp_all)
  moreover have "s\<lparr>maxHeaderId := headerId ?new, liveHeaders := liveHeaders ?s2,
      hashToHeaderId := jsmap_set (hash ?new) (headerId ?new) (hashToHeaderId s),
      tipHeaderId := headerId (flagged isActive (\<lambda>x. isChainTip x \<and> x \<noteq> ob) t)\<rparr> = ?s2"
    using t(2) by (simp add: store_header_def Let_def)
  ultimately show ?thesis by simp
qed

lemma insert_tip_inv:
  assumes s: "live_store_inv sched s" and rm: "room_ok s"
    and b: "bits h = sched (height h)" "valid_height (height h)"
    and nohash: "jsmap_get (hashToHeaderId s) (hash h) = None"
    and ob: "stored (liveHeaders s) ob" "hash ob = previousHash h" "height h = height ob + 1"
    and w: "and_then (convertBitsToWork (bits h)) (addWork (chainWork ob)) = Inr w"
    and t: "tip_ok (liveHeaders s) t" "actives_ok (nextBulkHeight (bulk s)) (liveHeaders s)"
    and hi: "height t < height h" and path: "up_path (liveHeaders s) ps ob a"
  shows "\<exists>s' gone. applyReorganization (s\<lparr>maxHeaderId := maxHeaderId s + 1\<rparr>) ob a = (s', gone, Inr ())
     \<and> live_store_inv sched (store_header s' h ob (maxHeaderId s + 1) w True)"
proof -
  have ro: "live_rows_ok sched (maxHeaderId s) (liveHeaders s)" and m: "0 \<le> maxHeaderId s"
    using s by (simp_all add: live_store_inv_def)
  let ?new = "mk_live h (maxHeaderId s + 1) (Some (headerId ob)) w True"
  let ?s1 = "s\<lparr>maxHeaderId := maxHeaderId s + 1\<rparr>"
  let ?A = "\<lambda>x. x \<in> set ps \<or> isActive x \<and> height x \<le> height a"
  note N = new_row_ok(1,2) [OF ro ob(1,3,2) b refl m w, of True] and tt = tip_okD(1-3) [OF t(1)]
  note F = up_path_facts [OF path ob(1)]
  have same: "height ob = height t" using hi ob(3) tip_okD(4) [OF t(1) ob(1)] by simp
  have span: "height t - nextBulkHeight (bulk s) < 100000"
    using rm lives_stored [OF ro, of t] tt(1) by (auto simp: room_ok_def)
  obtain rows' gone where r: "applyReorganization ?s1 ob a = (?s1\<lparr>liveHeaders := rows'\<rparr>, gone, Inr ())"
      "map fst rows' = map fst (liveHeaders s)" "\<forall>i. jsmap_get rows' i = map_option (flagged ?A isChainTip) (live s i)"
    using reorg_result [of sched "maxHeaderId s" ?s1 "nextBulkHeight (bulk s)" t ob ps a] ro t ob(1) same path span rm
    by (auto simp: room_ok_def)
  let ?s2 = "store_header (?s1\<lparr>liveHeaders := rows'\<rparr>) h ob (maxHeaderId s + 1) w True"
  have obA: "?A ob" using path by (cases ps) auto
  have tipob: "isActive ob = ?A ob" if "isChainTip ob"
  proof -
    have "ob = t" using tip_okD(6) [OF t(1) ob(1) that] same by auto
    then show ?thesis using tt(2) obA by simp
  qed
  have ex: "extended (liveHeaders s) ?A (\<lambda>x. isChainTip x \<and> x \<noteq> ob) ?new (liveHeaders ?s2)"
    by (rule store_extended [OF ro _ _ ob(1)]) (use r ro tipob in \<open>simp_all add: live_rows_ok_def jsmap_wf_def\<close>)
  have "actives_ok (nextBulkHeight (bulk s)) (liveHeaders ?s2) \<and> tip_ok (liveHeaders ?s2) ?new"
    by (rule extended_tip [OF ex ro t(2,1) ob(1) path _ _ _ _ N(2)]) (use hi in simp_all)
  then have "live_store_inv sched (s\<lparr>maxHeaderId := headerId ?new, liveHeaders := liveHeaders ?s2,
      hashToHeaderId := jsmap_set (hash ?new) (headerId ?new) (hashToHeaderId s), tipHeaderId := headerId ?new\<rparr>)"
  proof (intro live_store_inv_extended [OF s ex _ _ _ _ _ _ ob(1) _ N(2)])
    fix x assume x: "stored (liveHeaders s) x" "?A x" "previousHeaderId x = None"
    then show "isActive x" using up_path_parent [OF path, of x] by (auto simp: linked_to_def)
  qed (use N(1) nohash in simp_all)
  moreover have "s\<lparr>maxHeaderId := headerId ?new, liveHeaders := liveHeaders ?s2,
      hashToHeaderId := jsmap_set (hash ?new) (headerId ?new) (hashToHeaderId s), tipHeaderId := headerId ?new\<rparr> = ?s2"
    by (simp add: store_header_def Let_def)
  ultimately show ?thesis using r(1) by auto
qed

section \<open>Insertion\<close>

text \<open>What \<open>insert_linked\<close> does under the invariant: it refuses, or it stores the header; the header becomes the tip
  exactly when it is higher than the tip.\<close>

lemma insert_linked_result:
  assumes s: "live_store_inv sched s" and sc: "sched_ok sched" and rm: "room_ok s" and ne: "liveHeaders s \<noteq> []"
    and b: "bits h = sched (height h)" "valid_height (height h)"
    and nohash: "jsmap_get (hashToHeaderId s) (hash h) = None"
    and ob: "stored (liveHeaders s) ob" "hash ob = previousHash h"
  shows "live_store_inv sched (fst (insert_linked s h ob)) \<and> bulk (fst (insert_linked s h ob)) = bulk s
     \<and> (case snd (insert_linked s h ob) of Inl e \<Rightarrow> fst (insert_linked s h ob) = s
        | Inr r \<Rightarrow> ir_noTip r = False \<and> (ir_badPrev r \<longleftrightarrow> height h \<noteq> height ob + 1))"
proof -
  obtain t where t: "tip_ok (liveHeaders s) t" "tipHeaderId s = headerId t" "actives_ok (nextBulkHeight (bulk s)) (liveHeaders s)"
    using s ne unfolding live_store_inv_def by blast
  have ro: "live_rows_ok sched (maxHeaderId s) (liveHeaders s)" and m: "0 \<le> maxHeaderId s"
    using s by (simp_all add: live_store_inv_def)
  note pt = prior_tip_result [OF ro t(1) ob(1)]
  show ?thesis
  proof (cases "height h = height ob + 1")
    case False
    then show ?thesis using s by (simp add: insert_linked_def createInsertHeaderResult_def Let_def)
  next
    case ht: True
    show ?thesis
    proof (cases "and_then (convertBitsToWork (bits h)) (addWork (chainWork ob))")
      case (Inl e)
      then show ?thesis using s ht pt by (simp add: insert_linked_def Let_def)
    next
      case (Inr w)
      have tr: "hex32 (chainWork t)" "hex_nat (chainWork t) = work_at sched (height t)" "0 \<le> height t"
        using stored_row [OF ro tip_okD(1) [OF t(1)]] by (auto simp: row_ok_def valid_height_def)
      have "hex_nat w = work_at sched (height h)"
        by (rule new_row_ok(3) [OF ro ob(1) ht ob(2) b refl m Inr])
      then have mw: "isMoreWork w (chainWork t) = Inr (height t < height h)"
        using header_work [OF Inr] tr b(2) work_at_less_iff [OF sc, of "height t" "height h"]
        by (simp add: isMoreWork_Inr valid_height_def)
      show ?thesis
      proof (cases "height t < height h")
        case False
        have "live_store_inv sched (store_header (s\<lparr>maxHeaderId := maxHeaderId s + 1\<rparr>) h ob (maxHeaderId s + 1) w False)"
          by (rule insert_side_inv [OF s sc b nohash ob ht Inr t]) (use False in simp)
        then show ?thesis
          using ht pt Inr mw False
          by (simp add: insert_linked_def prepareActiveTip_def createInsertHeaderResult_def store_header_def Let_def)
      next
        case True
        have same: "height ob = height t" using True ht tip_okD(4) [OF t(1) ob(1)] by simp
        have span: "height ob - nextBulkHeight (bulk s) < int max_storage_traversal"
          using rm lives_stored [OF ro, of ob] ob(1) by (auto simp: room_ok_def)
        have low: "\<forall>x. stored (liveHeaders s) x \<longrightarrow> nextBulkHeight (bulk s) \<le> height x"
          using actives_lo [OF t(3)] by blast
        obtain r where r: "findActiveAncestor (s\<lparr>maxHeaderId := maxHeaderId s + 1\<rparr>) ob = Inr r"
            "case r of Some a \<Rightarrow> \<exists>ps. up_path (liveHeaders s) ps ob a | None \<Rightarrow> True"
          using active_ancestor_result [OF ro _ low ob(1), of "[]" max_storage_traversal] rm span
          by (auto simp: findActiveAncestor_def room_ok_def)
        show ?thesis
        proof (cases r)
          case None
          then show ?thesis
            using ht pt Inr mw True r(1) live_store_inv_id_step [OF s]
            by (simp add: insert_linked_def prepareActiveTip_def createInsertHeaderResult_def Let_def)
        next
          case (Some a)
          then obtain ps where path: "up_path (liveHeaders s) ps ob a" using r(2) by auto
          obtain s' gone where re: "applyReorganization (s\<lparr>maxHeaderId := maxHeaderId s + 1\<rparr>) ob a = (s', gone, Inr ())"
              "live_store_inv sched (store_header s' h ob (maxHeaderId s + 1) w True)"
            using insert_tip_inv [OF s rm b nohash ob ht Inr t(1,3) True path] by blast
          then have "bulk s' = bulk s"
            by (auto simp: applyReorganization_def split: if_splits option.splits prod.splits sum.splits)
          then show ?thesis
            using ht pt Inr mw True r(1) Some re
            by (simp add: insert_linked_def prepareActiveTip_def createInsertHeaderResult_def store_header_def Let_def)
        qed
      qed
    qed
  qed
qed

lemma first_header_inv:
  assumes s: "live_store_inv sched s" and b: "bits h = sched (height h)" "valid_height (height h)"
    and nohash: "jsmap_get (hashToHeaderId s) (hash h) = None"
  shows "live_store_inv sched (fst (insertFirstHeader s h r)) \<and> bulk (fst (insertFirstHeader s h r)) = bulk s"
proof (cases "snd (insertFirstHeader s h r)")
  case (Inl e)
  then show ?thesis
    using s live_store_inv_id_step [OF s] by (auto simp: insertFirstHeader_def Let_def split: option.splits sum.splits if_splits)
next
  case (Inr o')
  show ?thesis
  proof (cases o')
    case None
    then show ?thesis using s Inr by (auto simp: insertFirstHeader_def Let_def split: option.splits sum.splits if_splits)
  next
    case (Some r')
    then obtain f w where e: "liveHeaders s = []" and f: "getLastBfd (bfds (bulk s)) 1 = Some f"
      and l: "previousHash h = bf_lastHash f" "height h = bf_firstHeight f + bf_count f"
      and w: "and_then (convertBitsToWork (bits h)) (addWork (bf_lastChainWork f)) = Inr w"
      using Inr by (auto simp: insertFirstHeader_def Let_def split: option.splits sum.splits if_splits)
    have hb: "height h = nextBulkHeight (bulk s)" "previousHash h = lastBulkHash (bulk s)" "bf_lastChainWork f = lastBulkWork (bulk s)"
      using f l by (simp_all add: nextBulkHeight_def lastBulkHash_def lastBulkWork_def)
    have bo: "bulk_ok sched s" and m: "0 \<le> maxHeaderId s" using s by (simp_all add: live_store_inv_def)
    have "hex_nat w = work_at sched (height h)"
      using header_work [OF w] bo hb b work_at_step [of "height h - 1" sched] by (simp add: bulk_ok_def valid_height_def)
    then have row: "row_ok sched (maxHeaderId s + 1) (maxHeaderId s + 1) (mk_live h (maxHeaderId s + 1) None w True)"
      using header_work [OF w] b m by (simp add: row_ok_def)
    let ?s' = "fst (insertFirstHeader s h r)"
    have s': "?s' = s\<lparr>maxHeaderId := maxHeaderId s + 1, liveHeaders := [(maxHeaderId s + 1, mk_live h (maxHeaderId s + 1) None w True)],
        hashToHeaderId := jsmap_set (hash h) (maxHeaderId s + 1) (hashToHeaderId s), tipHeaderId := maxHeaderId s + 1\<rparr>"
      using e f l w by (simp add: insertFirstHeader_def Let_def)
    have nh: "jsmap_get (hashToHeaderId s) k = None" for k
      using s e by (cases "jsmap_get (hashToHeaderId s) k") (auto simp: live_store_inv_def hash_ok_def)
    have st: "stored (liveHeaders ?s') x \<longleftrightarrow> x = mk_live h (maxHeaderId s + 1) None w True" for x
      by (auto simp: s' stored_def)
    have "live_rows_ok sched (maxHeaderId ?s') (liveHeaders ?s')"
      using row by (auto simp: s' live_rows_ok_def jsmap_wf_def split: if_splits)
    moreover have "hash_ok ?s'"
      using nh by (auto simp: s' hash_ok_def)
    moreover have "bulk_ok sched ?s'"
      using bo hb unfolding bulk_ok_def st by (auto simp: s')
    moreover have "actives_ok (nextBulkHeight (bulk ?s')) (liveHeaders ?s')"
      using hb unfolding actives_ok_def st by (auto simp: s' linked_to_def)
    moreover have "tip_ok (liveHeaders ?s') (mk_live h (maxHeaderId s + 1) None w True)"
      unfolding tip_ok_def st by auto
    ultimately have "live_store_inv sched ?s'"
      using m unfolding live_store_inv_def by (auto simp: s')
    then show ?thesis by (simp add: s')
  qed
qed

lemma incoming_header:
  "validateIncomingHeader sdk h0 = Inr h \<Longrightarrow> h = h0 \<and> valid_height (height h)"
  by (auto simp: validateIncomingHeader_def validateHeaderFormat_def validateUnsignedHeaderInteger_def and_then_Inr
      valid_height_def js_safe_def)

lemma insert_unpruned_inv:
  assumes s: "live_store_inv sched s" and sc: "sched_ok sched" and rm: "room_ok s" and b: "bits h = sched (height h)"
  shows "live_store_inv sched (fst (insert_unpruned env s h)) \<and> bulk (fst (insert_unpruned env s h)) = bulk s"
proof (cases "validateIncomingHeader (be_sdk (se_bulk env)) h")
  case (Inl e)
  then show ?thesis using s by (simp add: insert_unpruned_def)
next
  case (Inr h')
  have v: "h' = h" "valid_height (height h)" using incoming_header [OF Inr] by auto
  show ?thesis
  proof (cases "jsmap_get (hashToHeaderId s) (hash h)")
    case (Some i)
    then show ?thesis using s Inr v by (simp add: insert_unpruned_def Let_def)
  next
    case None
    show ?thesis
    proof (cases "List.find (\<lambda>x. hash x = previousHash h) (lives s)")
      case N: None
      have "fst (insert_unpruned env s h) = fst (insertFirstHeader s h createInsertHeaderResult)"
        using Inr v None N by (simp add: insert_unpruned_def Let_def split: prod.split sum.split option.split)
      then show ?thesis
        using first_header_inv [OF s b _ None, of createInsertHeaderResult] v by simp
    next
      case (Some ob)
      then have ob: "hash ob = previousHash h" "ob \<in> set (lives s)"
        by (auto simp: find_Some_iff)
      have "live_rows_ok sched (maxHeaderId s) (liveHeaders s)"
        using s by (simp add: live_store_inv_def)
      then have "stored (liveHeaders s) ob" using ob(2) lives_stored by blast
      moreover have "liveHeaders s \<noteq> []" using ob(2) by auto
      moreover have "insert_unpruned env s h = insert_linked s h ob"
        using Inr v None Some by (simp add: insert_unpruned_def)
      ultimately show ?thesis
        using insert_linked_result [OF s sc rm _ b _ None _ ob(1)] v by simp
    qed
  qed
qed

section \<open>Retiring headers to the bulk files\<close>

lemma active_at:
  assumes ro: "live_rows_ok sched mx rows" and act: "actives_ok lo rows" and t: "tip_ok rows t" and k: "k \<le> height t"
  shows "lo \<le> k \<longrightarrow> (\<exists>x. stored rows x \<and> isActive x \<and> height x = k)"
  using k
proof (induction rule: int_le_induct)
  case base
  then show ?case using tip_okD(1,2) [OF t] by blast
next
  case (step i)
  show ?case
  proof
    assume i: "lo \<le> i - 1"
    then obtain x where x: "stored rows x" "isActive x" "height x = i" using step by auto
    then obtain p where "previousHeaderId x = Some p"
      using actives_bottom [OF act x(1,2)] i by (cases "previousHeaderId x") auto
    then obtain q where q: "stored rows q" "linked_to q x" by (rule live_rows_ok_parent [OF ro x(1)])
    then show "\<exists>x. stored rows x \<and> isActive x \<and> height x = i - 1"
      using actives_parent [OF act x(1,2) q] linked_height [OF q(2)] x(3) by (intro exI [of _ q]) simp
  qed
qed

lemma active_heights:
  assumes ro: "live_rows_ok sched mx rows" and act: "actives_ok lo rows" and t: "tip_ok rows t"
  shows "map height (sort_key height (filter isActive (map snd rows))) = [lo..height t]"
proof (rule sorted_distinct_set_unique)
  have mem: "x \<in> set (filter isActive (map snd rows)) \<longleftrightarrow> stored rows x \<and> isActive x" for x
    unfolding set_filter using lives_stored [OF ro, of x] by blast
  have "distinct (filter isActive (map snd rows))"
    using distinct_lives [OF ro] by simp
  moreover have "inj_on height (set (filter isActive (map snd rows)))"
    using actives_unique [OF act] by (auto simp only: inj_on_def mem)
  ultimately show "distinct (map height (sort_key height (filter isActive (map snd rows))))"
    by (simp add: distinct_map)
  have K: "k \<in> height ` {x. stored rows x \<and> isActive x} \<longleftrightarrow> lo \<le> k \<and> k \<le> height t" for k
    using active_at [OF ro act t, of k] actives_lo [OF act] tip_okD(4) [OF t] by blast
  have S: "set (sort_key height (filter isActive (map snd rows))) = {x. stored rows x \<and> isActive x}"
    using mem by (simp only: set_sort) blast
  show "set (map height (sort_key height (filter isActive (map snd rows)))) = set [lo..height t]"
    unfolding set_map set_upto S by (rule set_eqI) (simp only: K atLeastAtMost_iff)
qed simp_all

lemma delete_pairs_get:
  "jsmap_get (fold (\<lambda>(i, h) m. jsmap_delete (f i h) m) xs m) k
     = (if k \<in> (\<lambda>(i, h). f i h) ` set xs then None else jsmap_get m k)"
  by (induction xs arbitrary: m) auto

lemma delete_pairs_wf: "jsmap_wf m \<Longrightarrow> jsmap_wf (fold (\<lambda>(i, h) m. jsmap_delete (f i h) m) xs m)"
  by (induction xs arbitrary: m) auto

lemma in_pair_image: "j \<in> (\<lambda>(i, h). f i h) ` S \<longleftrightarrow> (\<exists>i y. (i, y) \<in> S \<and> f i y = j)"
  by force

text \<open>The rows that stay after everything up to height \<open>k\<close> is deleted.\<close>

lemma deleteOlder_result:
  assumes ro: "live_rows_ok sched mx (liveHeaders s)" and ho: "hash_ok s" and k: "valid_height k"
  shows "\<exists>rows hs. fst (deleteOlderLiveBlockHeaders s k) = s\<lparr>liveHeaders := rows, hashToHeaderId := hs,
        tipHeaderId := (if rows = [] then 0 else case List.find (\<lambda>h. isActive h \<and> isChainTip h) (map snd rows) of
          Some t \<Rightarrow> headerId t | None \<Rightarrow> 0)\<rparr>
     \<and> jsmap_wf rows
     \<and> (\<forall>i. jsmap_get rows i = (case live s i of None \<Rightarrow> None
          | Some x \<Rightarrow> if height x \<le> k then None else Some (cut_parent (liveHeaders s) k x)))
     \<and> (\<forall>j. jsmap_get hs j = (if \<exists>i x. live s i = Some x \<and> height x \<le> k \<and> hash x = j then None else jsmap_get (hashToHeaderId s) j))"
proof -
  let ?rows1 = "jsmap_map (cut_parent (liveHeaders s) k) (liveHeaders s)"
  let ?gone = "filter (\<lambda>(i, h). height h \<le> k) ?rows1"
  let ?hs = "fold (\<lambda>(i, h) m. jsmap_delete (hash h) m) ?gone (hashToHeaderId s)"
  let ?rows = "fold (\<lambda>(i, h) m. jsmap_delete i m) ?gone ?rows1"
  have cut: "height (cut_parent r k x) = height x" "hash (cut_parent r k x) = hash x" for r x
    by (simp_all add: cut_parent_def split: option.split)
  have wf: "jsmap_wf (liveHeaders s)" using ro by (simp add: live_rows_ok_def)
  have gone: "(i, y) \<in> set ?gone \<longleftrightarrow> (\<exists>x. live s i = Some x \<and> y = cut_parent (liveHeaders s) k x \<and> height x \<le> k)" for i y
    using wf by (auto simp: jsmap_get_in cut)
  have v: "validateHeight k ''maxHeight'' = Inr ()" using k by (simp add: validateHeight_def ensure_def)
  have "fst (deleteOlderLiveBlockHeaders s k) = s\<lparr>liveHeaders := ?rows, hashToHeaderId := ?hs,
        tipHeaderId := (if ?rows = [] then 0 else case List.find (\<lambda>h. isActive h \<and> isChainTip h) (map snd ?rows) of
          Some t \<Rightarrow> headerId t | None \<Rightarrow> 0)\<rparr>"
    unfolding deleteOlderLiveBlockHeaders_def Let_def v sum.case by (rule fst_conv)
  moreover have "jsmap_wf ?rows" by (rule delete_pairs_wf) (simp add: wf)
  moreover have "jsmap_get ?rows i = (case live s i of None \<Rightarrow> None
          | Some x \<Rightarrow> if height x \<le> k then None else Some (cut_parent (liveHeaders s) k x))" for i
  proof -
    have "i \<in> (\<lambda>(i, h). i) ` set ?gone \<longleftrightarrow> (\<exists>x. live s i = Some x \<and> height x \<le> k)"
      unfolding in_pair_image gone by blast
    then show ?thesis
      unfolding delete_pairs_get jsmap_get_map by (cases "live s i") simp_all
  qed
  moreover have "jsmap_get ?hs j = (if \<exists>i x. live s i = Some x \<and> height x \<le> k \<and> hash x = j then None
      else jsmap_get (hashToHeaderId s) j)" for j
  proof -
    have "j \<in> (\<lambda>(i, h). hash h) ` set ?gone \<longleftrightarrow> (\<exists>i x. live s i = Some x \<and> height x \<le> k \<and> hash x = j)"
      unfolding in_pair_image gone using cut(2) by metis
    then show ?thesis unfolding delete_pairs_get by simp
  qed
  ultimately show ?thesis by blast
qed

lemma cut_parent_sel:
  "headerId (cut_parent r k x) = headerId x" "hash (cut_parent r k x) = hash x" "height (cut_parent r k x) = height x"
  "previousHash (cut_parent r k x) = previousHash x" "isActive (cut_parent r k x) = isActive x"
  "isChainTip (cut_parent r k x) = isChainTip x" "chainWork (cut_parent r k x) = chainWork x" "bits (cut_parent r k x) = bits x"
  by (simp_all add: cut_parent_def split: option.split)

lemma cut_parent_prev:
  assumes "live_rows_ok sched mx rows" "stored rows x"
  shows "previousHeaderId (cut_parent rows k x) = (if height x \<le> k + 1 then None else previousHeaderId x)"
proof (cases "previousHeaderId x")
  case (Some p)
  then obtain q where q: "stored rows q" "linked_to q x" "headerId q = p"
    using live_rows_ok_parent [OF assms] by metis
  then have "jsmap_get rows p = Some q" "p \<noteq> 0" "height x = height q + 1"
    using stored_row [OF assms(1) q(1)] by (auto simp: stored_def row_ok_def linked_to_def)
  then show ?thesis using Some by (simp add: cut_parent_def)
qed (simp add: cut_parent_def)

lemma retire_inv:
  assumes s: "live_store_inv sched s" and ne: "liveHeaders s \<noteq> []" and x: "stored (liveHeaders s) x" "isActive x"
    and b: "files_ok (bfds b)" "bfds b \<noteq> []" "nextBulkHeight b = height x + 1" "lastBulkHash b = hash x"
      "hex_nat (lastBulkWork b) = work_at sched (height x)"
  shows "live_store_inv sched (fst (deleteOlderLiveBlockHeaders (s\<lparr>bulk := b\<rparr>) (height x)))"
proof -
  let ?k = "height x" and ?old = "liveHeaders s"
  obtain t where t: "tip_ok ?old t" and act: "actives_ok (nextBulkHeight (bulk s)) ?old"
    using s ne unfolding live_store_inv_def by blast
  have ro: "live_rows_ok sched (maxHeaderId s) ?old" and ho: "hash_ok s" and m: "0 \<le> maxHeaderId s"
    using s by (simp_all add: live_store_inv_def)
  have vk: "valid_height ?k" using stored_row [OF ro x(1)] by (simp add: row_ok_def)
  have ho': "hash_ok (s\<lparr>bulk := b\<rparr>)" using ho by (simp add: hash_ok_def)
  have same: "liveHeaders (s\<lparr>bulk := b\<rparr>) = ?old" "hashToHeaderId (s\<lparr>bulk := b\<rparr>) = hashToHeaderId s" by simp_all
  obtain rows hs where d: "fst (deleteOlderLiveBlockHeaders (s\<lparr>bulk := b\<rparr>) ?k) = s\<lparr>bulk := b, liveHeaders := rows, hashToHeaderId := hs,
        tipHeaderId := (if rows = [] then 0 else case List.find (\<lambda>h. isActive h \<and> isChainTip h) (map snd rows) of
          Some t \<Rightarrow> headerId t | None \<Rightarrow> 0)\<rparr>"
      and wf: "jsmap_wf rows"
      and look: "\<And>i. jsmap_get rows i = (case live s i of None \<Rightarrow> None
          | Some x \<Rightarrow> if height x \<le> ?k then None else Some (cut_parent ?old ?k x))"
      and hlook: "\<And>j. jsmap_get hs j = (if \<exists>i x. live s i = Some x \<and> height x \<le> ?k \<and> hash x = j then None
          else jsmap_get (hashToHeaderId s) j)"
    using deleteOlder_result [of sched "maxHeaderId s" "s\<lparr>bulk := b\<rparr>" ?k, OF _ ho' vk, unfolded same, OF ro] by blast
  let ?c = "cut_parent ?old ?k"
  have st: "stored rows y \<longleftrightarrow> (\<exists>z. stored ?old z \<and> ?k < height z \<and> y = ?c z)" for y
  proof
    assume "stored rows y"
    then obtain z where "live s (headerId y) = Some z" "?k < height z" "y = ?c z"
      by (auto simp: stored_def look split: option.splits if_splits)
    then show "\<exists>z. stored ?old z \<and> ?k < height z \<and> y = ?c z" using row_stored [OF ro] by blast
  next
    assume "\<exists>z. stored ?old z \<and> ?k < height z \<and> y = ?c z"
    then show "stored rows y" by (auto simp: stored_def look cut_parent_sel)
  qed
  note prev = cut_parent_prev [OF ro]
  have ro': "live_rows_ok sched (maxHeaderId s) rows"
    unfolding live_rows_ok_def
  proof (intro conjI allI impI)
    fix i y assume i: "jsmap_get rows i = Some y"
    then obtain z where "live s i = Some z" "y = ?c z" by (auto simp: look split: option.splits if_splits)
    then show "row_ok sched (maxHeaderId s) i y"
      using live_rows_okD(1) [OF ro] by (fastforce simp: row_ok_def cut_parent_sel)
  next
    fix i y p assume i: "jsmap_get rows i = Some y \<and> previousHeaderId y = Some p"
    then obtain z where z: "live s i = Some z" "y = ?c z" by (auto simp: look split: option.splits if_splits)
    then have zs: "stored ?old z" using row_stored [OF ro] by blast
    then have p: "previousHeaderId z = Some p" "?k + 1 < height z"
      using prev [OF zs, of ?k] i z(2) by (auto split: if_splits)
    obtain q where q: "stored ?old q" "linked_to q z" "\<not> isChainTip q"
      by (rule live_rows_ok_parent [OF ro zs p(1)])
    have "stored rows (?c q)" using q(1) linked_height [OF q(2)] p(2) unfolding st by auto
    moreover have "linked_to (?c q) y"
      using q(2) p(1) i z(2) by (simp add: linked_to_def cut_parent_sel)
    ultimately show "\<exists>q. stored rows q \<and> linked_to q y \<and> \<not> isChainTip q"
      using q(3) by (metis cut_parent_sel(6))
  qed (rule wf)
  have ho2: "jsmap_get hs j = Some i \<longleftrightarrow> (\<exists>y. jsmap_get rows i = Some y \<and> hash y = j)" for j i
  proof -
    have uniq: "i' = i2" if "live s i' = Some u" "live s i2 = Some v" "hash u = hash v" for i' i2 u v
      using ho that unfolding hash_ok_def by (metis option.inject)
    have old: "jsmap_get (hashToHeaderId s) j = Some i \<longleftrightarrow> (\<exists>x. live s i = Some x \<and> hash x = j)"
      using ho unfolding hash_ok_def by blast
    show ?thesis
    proof (cases "live s i")
      case None
      then show ?thesis using old by (simp add: hlook look)
    next
      case (Some y)
      have "(\<exists>i' x'. live s i' = Some x' \<and> height x' \<le> ?k \<and> hash x' = j) \<longleftrightarrow> height y \<le> ?k" if "hash y = j"
        using uniq [OF Some] that Some by (metis option.inject)
      then show ?thesis
        using old Some by (auto simp: hlook look cut_parent_sel split: if_splits)
    qed
  qed
  have bulk': "previousHash y = hash x" if y: "stored rows y" "isActive y" "previousHeaderId y = None" for y
  proof -
    obtain z where z: "stored ?old z" "?k < height z" "y = ?c z" using y(1) st by blast
    have za: "isActive z" using y(2) z(3) by (simp add: cut_parent_sel)
    obtain p where p: "previousHeaderId z = Some p"
      using actives_bottom [OF act z(1) za] z(2) actives_lo [OF act x(1)] by (cases "previousHeaderId z") auto
    then have "height z = ?k + 1" using prev [OF z(1), of ?k] y(3) z(2,3) by (auto split: if_splits)
    moreover obtain q where q: "stored ?old q" "linked_to q z" by (rule live_rows_ok_parent [OF ro z(1) p])
    ultimately have "q = x"
      using actives_unique [OF act q(1) x(1) actives_parent [OF act z(1) za q] x(2)] linked_height [OF q(2)] by simp
    then show ?thesis using q(2) z(3) by (simp add: linked_to_def cut_parent_sel)
  qed
  have tail: "rows = [] \<or> actives_ok (?k + 1) rows \<and> tip_ok rows (?c t)"
  proof (cases "?k < height t")
    case False
    then have "\<not> stored rows y" for y
      using st tip_okD(4) [OF t] by fastforce
    then have "rows = []" using lives_stored [OF ro'] by (cases rows) fastforce+
    then show ?thesis by simp
  next
    case True
    have "actives_ok (?k + 1) rows"
      unfolding actives_ok_def st
    proof (intro conjI allI impI)
      fix y q assume a: "(\<exists>z. stored ?old z \<and> ?k < height z \<and> y = ?c z) \<and> isActive y
          \<and> (\<exists>z. stored ?old z \<and> ?k < height z \<and> q = ?c z) \<and> linked_to q y"
      then obtain z v where zv: "stored ?old z" "y = ?c z" "stored ?old v" "q = ?c v" by blast
      then have "linked_to v z" "isActive z"
        using a prev [OF zv(1), of ?k] by (auto simp: linked_to_def cut_parent_sel split: if_splits)
      then show "isActive q" using actives_parent [OF act zv(1) _ zv(3)] zv(4) by (simp add: cut_parent_sel)
    next
      fix y q assume a: "(\<exists>z. stored ?old z \<and> ?k < height z \<and> y = ?c z)
          \<and> (\<exists>z. stored ?old z \<and> ?k < height z \<and> q = ?c z) \<and> isActive y \<and> isActive q \<and> height y = height q"
      then obtain z v where zv: "stored ?old z" "y = ?c z" "stored ?old v" "q = ?c v" by blast
      then show "y = q" using actives_unique [OF act zv(1,3)] a by (simp add: cut_parent_sel)
    next
      fix y assume "\<exists>z. stored ?old z \<and> ?k < height z \<and> y = ?c z"
      then show "?k + 1 \<le> height y" by (auto simp: cut_parent_sel)
    next
      fix y assume a: "(\<exists>z. stored ?old z \<and> ?k < height z \<and> y = ?c z) \<and> isActive y \<and> previousHeaderId y = None"
      then obtain z where z: "stored ?old z" "?k < height z" "y = ?c z" "isActive z" by (auto simp: cut_parent_sel)
      then have "previousHeaderId z \<noteq> None"
        using actives_bottom [OF act z(1,4)] actives_lo [OF act x(1)] by auto
      then show "height y = ?k + 1" using a z(2,3) prev [OF z(1), of ?k] by (auto simp: cut_parent_sel split: if_splits)
    qed
    moreover have "tip_ok rows (?c t)"
      unfolding tip_ok_def st
    proof (intro conjI allI impI)
      show "\<exists>z. stored ?old z \<and> ?k < height z \<and> ?c t = ?c z" using True tip_okD(1) [OF t] by blast
      show "isActive (?c t)" "isChainTip (?c t)" using tip_okD(2,3) [OF t] by (simp_all add: cut_parent_sel)
    next
      fix y assume "\<exists>z. stored ?old z \<and> ?k < height z \<and> y = ?c z"
      then obtain z where z: "stored ?old z" "y = ?c z" by blast
      show "height y \<le> height (?c t)" using tip_okD(4) [OF t z(1)] z(2) by (simp add: cut_parent_sel)
      show "headerId (?c t) \<le> headerId y" if "height y = height (?c t)"
        using tip_okD(5) [OF t z(1)] that z(2) by (simp add: cut_parent_sel)
      assume "isChainTip y \<and> y \<noteq> ?c t"
      then have "isChainTip z" "z \<noteq> t" using z(2) by (auto simp: cut_parent_sel)
      then show "\<not> isActive y" "height y < height (?c t)"
        using tip_okD(6) [OF t z(1)] z(2) by (simp_all add: cut_parent_sel)
    qed
    ultimately show ?thesis by blast
  qed
  have "tip_ok rows (?c t) \<Longrightarrow> List.find (\<lambda>h. isActive h \<and> isChainTip h) (map snd rows) = Some (?c t)"
    using tip_selected(3) [of sched "maxHeaderId s" "s\<lparr>liveHeaders := rows\<rparr>" "?c t"] ro' by simp
  then show ?thesis
    unfolding d live_store_inv_def hash_ok_def bulk_ok_def
    using m ro' ho2 b bulk' tail by (auto simp: cut_parent_sel)
qed

lemma deleteOlder_bulk: "bulk (fst (deleteOlderLiveBlockHeaders s k)) = bulk s"
  by (cases "validateHeight k ''maxHeight''") (simp_all add: deleteOlderLiveBlockHeaders_def Let_def)

text \<open>Appending the oldest active headers to the bulk files: the trimming has nothing to trim, and the work handed
  over is the work of these headers.\<close>

lemma addLive_end:
  assumes ok: "files_ok (bfds m)" and hs: "hs \<noteq> []" "height (hd hs) = nextBulkHeight m"
    and w: "hex_nat (chainWork (hd hs)) = hex_nat (lastBulkWork m) + block_work (bits (hd hs))"
    and ap: "addLiveHeadersToBulk env m hs = Inr m'"
  shows "nextBulkHeight m' = nextBulkHeight m + int (length hs) \<and> lastBulkHash m' = hash (last hs) \<and> bfds m' \<noteq> []
    \<and> files_ok (bfds m') \<and> hex_nat (lastBulkWork m') = hex_nat (chainWork (last hs))"
proof -
  obtain bw pw iw where bw: "convertBitsToWork (bits (hd hs)) = Inr bw" and pw: "subWork (chainWork (hd hs)) bw = Inr pw"
    and iw: "subWork (chainWork (last hs)) pw = Inr iw" and mg: "mergeIncrementalBlockHeaders env m hs (Some iw) = Inr m'"
    using ap hs(1) by (auto simp: addLiveHeadersToBulk_def and_then_Inr)
  obtain t where "validateCompactTarget (bits (hd hs)) = Inr t"
    using bw by (auto simp: convertBitsToWork_def and_then_Inr)
  then have "hex_nat bw = block_work (bits (hd hs))"
    using block_work_of_target bw by (metis hex_nat_digits hex_nat_pad sum.inject(2))
  then have v: "hex_nat pw = hex_nat (lastBulkWork m)" "hex_nat iw + hex_nat (lastBulkWork m) = hex_nat (chainWork (last hs))"
    using pw iw w by (auto simp: subWork_Inr)
  obtain h0 rest where hr: "hs = h0 # rest" using hs(1) by (cases hs) auto
  obtain auth hs' iw' where au: "each (authenticate (be_sdk env)) hs = Inr auth" "auth \<noteq> []"
    and tr: "trimAlreadyStoredHeaders auth (nextBulkHeight m) (Some iw) = Inr (hs', iw')"
    and ap': "append_incremental env m hs' iw' = Inr m' \<or> hs' = []"
    using mg hs(1) authenticate_same by (auto simp: mergeIncrementalBlockHeaders_def and_then_Inr split: if_splits)
  have "hs' = hs \<and> iw' = Some iw"
    using tr authenticate_same [OF au(1)] hs(2) hr by simp
  then have app: "append_incremental env m hs (Some iw) = Inr m'" using ap' hs(1) by simp
  note E = append_incremental_end [OF ok app]
  have "addWork iw (lastBulkWork m) = Inr (lastBulkWork m')" using E by simp
  then have "hex_nat (lastBulkWork m') = hex_nat (chainWork (last hs))"
    using v(2) by (simp add: addWork_Inr)
  then show ?thesis
    using E append_incremental_ok [OF ok app] by simp
qed

lemma migrate_inv:
  assumes s: "live_store_inv sched s"
  shows "live_store_inv sched (fst (migrateLiveToBulk env s cnt ign))
    \<and> (snd (migrateLiveToBulk env s cnt ign) = Inr () \<and> (ign \<or> cnt \<le> se_bulkMigrationChunkSize env) \<longrightarrow>
        nextBulkHeight (bulk s) < nextBulkHeight (bulk (fst (migrateLiveToBulk env s cnt ign))))"
proof (cases "js_safe cnt \<and> 1 \<le> cnt \<and> cnt \<le> 100000 \<and> (ign \<or> cnt \<le> se_bulkMigrationChunkSize env)")
  case False
  then show ?thesis using s by (auto simp: migrateLiveToBulk_def)
next
  case c: True
  let ?as = "sort_key height (filter isActive (lives s))"
  let ?hs = "take (nat cnt) ?as"
  have lb: "liveHeadersForBulk s cnt = Inr ?hs" using c by (simp add: liveHeadersForBulk_def ensure_def)
  show ?thesis
  proof (cases "addLiveHeadersToBulk (se_bulk env) (bulk s) ?hs")
    case (Inl e)
    then show ?thesis using s c lb by (auto simp: migrateLiveToBulk_def)
  next
    case ap: (Inr b)
    show ?thesis
    proof (cases "?hs = []")
      case True
      then have "b = bulk s" using ap by (simp add: addLiveHeadersToBulk_def)
      then show ?thesis using s c lb ap True by (auto simp: migrateLiveToBulk_def Let_def)
    next
      case ne: False
      then have lne: "liveHeaders s \<noteq> []" and asne: "?as \<noteq> []" by auto
      have ro: "live_rows_ok sched (maxHeaderId s) (liveHeaders s)" and bo: "bulk_ok sched s"
        using s by (simp_all add: live_store_inv_def)
      obtain t where t: "tip_ok (liveHeaders s) t" and act: "actives_ok (nextBulkHeight (bulk s)) (liveHeaders s)"
        using s lne unfolding live_store_inv_def by blast
      let ?lo = "nextBulkHeight (bulk s)"
      have hts: "map height ?as = [?lo..height t]" by (rule active_heights [OF ro act t])
      have mem: "stored (liveHeaders s) y \<and> isActive y" if "y \<in> set ?hs" for y
      proof -
        have "y \<in> set ?as" using that in_set_takeD by fast
        then show ?thesis using lives_stored [OF ro, of y] by auto
      qed
      have nth: "height (?hs ! j) = ?lo + int j" if j: "j < length ?hs" for j
      proof -
        have ja: "j < length ?as" using j by simp
        then have "j < length [?lo..height t]" unfolding hts [symmetric] by simp
        then have "?lo + int j \<le> height t" by simp
        then have "map height ?as ! j = ?lo + int j" unfolding hts by (rule nth_upto)
        then show ?thesis using j ja by simp
      qed
      have l0: "0 < length ?hs" using ne by blast
      have hd: "height (hd ?hs) = ?lo" using nth [OF l0] hd_conv_nth [OF ne] by simp
      have len: "height (last ?hs) = ?lo + int (length ?hs) - 1"
      proof -
        have "length ?hs - 1 < length ?hs" using l0 by (rule diff_less [OF zero_less_one])
        from nth [OF this] have "height (last ?hs) = ?lo + int (length ?hs - 1)"
          by (simp only: last_conv_nth [OF ne])
        moreover have "?lo + int (n - 1) = ?lo + int n - 1" if "0 < n" for n using that by simp
        ultimately show ?thesis using l0 by metis
      qed
      let ?x = "last ?hs"
      have x: "stored (liveHeaders s) ?x" "isActive ?x" using mem [OF last_in_set [OF ne]] by blast+
      have h0: "stored (liveHeaders s) (hd ?hs)" using mem [OF hd_in_set [OF ne]] by blast
      have lo0: "0 \<le> ?lo" using stored_row [OF ro h0] hd by (auto simp: row_ok_def valid_height_def)
      have "hex_nat (chainWork (hd ?hs)) = hex_nat (lastBulkWork (bulk s)) + block_work (bits (hd ?hs))"
        using stored_row [OF ro h0] bo hd lo0 work_at_step [of "?lo - 1" sched] by (simp add: row_ok_def bulk_ok_def)
      then have E: "nextBulkHeight b = ?lo + int (length ?hs) \<and> lastBulkHash b = hash ?x \<and> bfds b \<noteq> []
          \<and> files_ok (bfds b) \<and> hex_nat (lastBulkWork b) = hex_nat (chainWork ?x)"
        using addLive_end [OF _ ne hd _ ap] bo by (simp add: bulk_ok_def)
      obtain s2 o2 where d: "deleteOlderLiveBlockHeaders (s\<lparr>bulk := b\<rparr>) (height ?x) = (s2, o2)" by fastforce
      have c12: "(\<not> (js_safe cnt \<and> 1 \<le> cnt \<and> cnt \<le> 100000)) = False" "(\<not> ign \<and> cnt > se_bulkMigrationChunkSize env) = False"
        "(?hs = []) = False"
        using c ne by (simp_all only:) auto
      have mig: "migrateLiveToBulk env s cnt ign = (s2, case o2 of Inl e \<Rightarrow> Inl e | Inr _ \<Rightarrow> Inr ())"
        by (cases o2; simp only: migrateLiveToBulk_def lb ap sum.case c12 if_False Let_def d prod.case)
      have "live_store_inv sched (fst (deleteOlderLiveBlockHeaders (s\<lparr>bulk := b\<rparr>) (height ?x)))"
        by (rule retire_inv [OF s lne x]) (use E len stored_row [OF ro x(1)] in \<open>auto simp: row_ok_def\<close>)
      then have "live_store_inv sched s2" unfolding d by simp
      moreover have "bulk s2 = b" using deleteOlder_bulk [of "s\<lparr>bulk := b\<rparr>" "height ?x"] unfolding d by simp
      moreover have "?lo < nextBulkHeight b" using E l0 by (metis less_add_same_cancel1 of_nat_0_less_iff)
      ultimately show ?thesis unfolding mig fst_conv by blast
    qed
  qed
qed

end
