(* ===== verification/Chain_Demo.thy ===== *)
theory Chain_Demo
  imports Live_Insert
begin

text \<open>
  A network for concrete runs of the header store: the digest of an 80-byte header is its nonce's low byte (so
  every header has enough work and different nonces give different hashes), and the digest of a digest is
  itself. Headers are named by their nonces.
\<close>

definition nonce_sha :: "int list \<Rightarrow> int list" where
  "nonce_sha bs = (if length bs = 80 then (bs ! 76 mod 256) # replicate 31 0
     else if length bs = 32 \<and> list_all is_byte bs then bs else replicate 32 0)"

abbreviation nonce_sdk :: header_sdk where
  "nonce_sdk \<equiv> own_sdk nonce_sha"

lemma nonce_codec: "header_codec nonce_sdk"
  by (rule own_sdk_codec) (auto simp: nonce_sha_def is_byte_def list_all_iff)

interpretation demo: header_codec nonce_sdk
  by (rule nonce_codec)

definition nonce_hash :: "int \<Rightarrow> string" where
  "nonce_hash n = hex_of_bytes (replicate 31 0 @ [n mod 256])"

lemma nonce_bytes: "list_all is_byte (replicate 31 0 @ [n mod 256])"
  by (auto simp: is_byte_def list_all_iff)

lemma nonce_hash_text: "hash_text (nonce_hash n)"
  using nonce_bytes [of n] hex_of_bytes_hex [of "replicate 31 0 @ [n mod 256]"]
  by (simp add: nonce_hash_def hash_text_def hex_of_bytes_length)

lemma bytes_of_nonce_hash: "bytes_of_hex (nonce_hash n) = replicate 31 0 @ [n mod 256]"
  unfolding nonce_hash_def by (rule bytes_of_hex_bytes [OF nonce_bytes])

lemma nonce_hash_eq [simp]: "nonce_hash n = nonce_hash m \<longleftrightarrow> n mod 256 = m mod 256"
proof
  assume "nonce_hash n = nonce_hash m"
  then have "bytes_of_hex (nonce_hash n) = bytes_of_hex (nonce_hash m)" by (rule arg_cong)
  then show "n mod 256 = m mod 256" unfolding bytes_of_nonce_hash by simp
qed (simp only: nonce_hash_def)

lemma nonce_hash_val: "bytes_val (bytes_of_hex (nonce_hash n)) = n mod 256"
proof -
  have "foldl (\<lambda>a b. 256 * a + b) (0::int) (replicate k 0) = 0" for k by (induction k) simp_all
  then show ?thesis by (simp add: bytes_of_nonce_hash bytes_val_def)
qed

lemma nonce_hash_nth: "j < 62 \<Longrightarrow> nonce_hash n ! j = CHR ''0''"
proof -
  assume "j < 62"
  moreover have "nonce_hash n = hex_of_bytes (replicate 31 0) @ hex_of_bytes [n mod 256]"
    by (simp add: nonce_hash_def hex_of_bytes_def)
  ultimately show ?thesis by (simp add: hex_of_zeros nth_append)
qed

lemma nonce_hash_plain: "proofOfWorkExceptions (nonce_hash n) = None" "map_of dirtyHashes (nonce_hash n) = None"
proof -
  have ne: "nonce_hash n \<noteq> s" if "j < 62" "s ! j \<noteq> CHR ''0''" for s j
    using nonce_hash_nth [OF that(1), of n] that(2) by auto
  show "proofOfWorkExceptions (nonce_hash n) = None"
    using ne [of 0] by (simp add: proofOfWorkExceptions_def)
  show "map_of dirtyHashes (nonce_hash n) = None"
    using ne [of 19 "fst (dirtyHashes ! 0)"] ne [of 20 "fst (dirtyHashes ! 1)"]
    by (simp add: dirtyHashes_def)
qed

lemma wire_nonce: "wellformed b \<Longrightarrow> wire nonce_sdk b ! 76 = nonce b mod 256"
proof -
  assume b: "wellformed b"
  have "byte_slice 76 4 (wire nonce_sdk b) = sdk_le32 nonce_sdk (nonce b)"
    by (rule demo.wire_slices(6) [OF b])
  then have "hd (drop 76 (wire nonce_sdk b)) = nonce b mod 256"
    using demo.wire_length [OF b] by (cases "drop 76 (wire nonce_sdk b)")
      (simp_all add: byte_slice_def own_sdk_def u32_bytes_eq take_bit_eq_mod)
  then show ?thesis
    using demo.wire_length [OF b] by (simp add: hd_drop_conv_nth)
qed

lemma nonce_blockHash: "wellformed b \<Longrightarrow> blockHash nonce_sdk b = Inr (nonce_hash (nonce b))"
proof -
  assume b: "wellformed b"
  let ?d = "(nonce b mod 256) # replicate 31 0"
  have "nonce b mod 256 \<le> 255" using pos_mod_bound [of 256 "nonce b"] by simp
  then have "nonce_sha (nonce_sha (wire nonce_sdk b)) = ?d"
    using demo.wire_length [OF b] wire_nonce [OF b] by (simp add: nonce_sha_def is_byte_def list_all_iff)
  then have "sdk_to_hex nonce_sdk (doubleSha256BE nonce_sdk (wire nonce_sdk b)) = nonce_hash (nonce b)"
    by (simp add: doubleSha256BE_def doubleSha256LE_def own_sdk_def nonce_hash_def)
  moreover have "serializeBaseBlockHeader nonce_sdk b = Inr (wire nonce_sdk b)"
    using b by (simp add: serialize_wire)
  ultimately show ?thesis
    using demo.wire_length [OF b] by (simp add: blockHash_def blockHash_bytes_def ensure_def)
qed

section \<open>Two difficulties\<close>

definition easy :: int where "easy = 486604799"
definition hard :: int where "hard = 469827583"

lemma easy_target: "validateCompactTarget easy = Inr pow_limit"
  by (simp add: easy_def limit_target)

lemma hard_compact: "compact_target hard = 65535 * 2 ^ 200"
  by (simp add: compact_target_def hard_def)

lemma hard_target: "validateCompactTarget hard = Inr (65535 * 2 ^ 200)"
  using size_byte [of hard] sign_bit [of hard] size_byte [of 486604799]
  by (simp add: validateCompactTarget_def js_safe_def Let_def mantissa convertBitsToTarget_def
      validateUnsignedHeaderInteger_def bit_iff_odd push_bit_eq_mult hard_def)

lemma demo_works: "block_work easy = 4295032833" "block_work hard = 1099528405248"
  by (simp_all add: block_work_def hard_compact) (simp_all add: compact_target_limit easy_def)

section \<open>Headers\<close>

text \<open>\<open>named p n ht b\<close>: the header with nonce \<open>n\<close> on the header with nonce \<open>p\<close>.\<close>

definition named :: "int \<Rightarrow> int \<Rightarrow> int \<Rightarrow> int \<Rightarrow> block_header" where
  "named p n ht b = with_position \<lparr>version = 1, previousHash = nonce_hash p, merkleRoot = nonce_hash 0, time = 0, bits = b,
     nonce = n\<rparr> ht (nonce_hash n)"

lemma named_sel [simp]:
  "height (named p n ht b) = ht" "hash (named p n ht b) = nonce_hash n" "previousHash (named p n ht b) = nonce_hash p"
  "bits (named p n ht b) = b" "nonce (named p n ht b) = n"
  by (simp_all add: named_def with_position_def base_header.defs)

lemma named_valid:
  assumes "0 \<le> ht" "ht \<le> max_block_height" "b = easy \<or> b = hard" "0 \<le> n" "n < 256"
  shows "validateIncomingHeader nonce_sdk (named p n ht b) = Inr (named p n ht b)"
proof -
  let ?b = "\<lparr>version = 1, previousHash = nonce_hash p, merkleRoot = nonce_hash 0, time = 0, bits = b, nonce = n\<rparr>"
  have w: "wellformed ?b"
    using assms nonce_hash_text hash_text_hex32 by (auto simp: wellformed_def easy_def hard_def)
  have base: "base_of (named p n ht b) = ?b"
    by (simp add: base_of_def named_def with_position_def base_header.defs)
  have "validateHeaderDifficulty (bytes_of_hex (nonce_hash n)) b = Inr True"
    using assms(3-5) nonce_hash_text hash_text_hex32
      nonce_hash_val [of n] bytes_of_hex_length [of "nonce_hash n"] bytes_of_hex_is_byte [of "nonce_hash n"]
    by (auto simp: validateHeaderDifficulty_Inr easy_target hard_target hash_text_def)
  moreover have "validateBaseBlockHeaderFormat ?b = Inr ()"
    using w by (simp add: validateBase_iff)
  ultimately show ?thesis
    using assms nonce_blockHash [OF w] nonce_hash_plain hash_text_hex32 [OF nonce_hash_text [of n]]
    by (simp add: validateIncomingHeader_def validateHeaderFormat_def base validateUnsignedHeaderInteger_def
        validateHeaderProofOfWork_def validateConsensusProofOfWork_def validateAgainstDirtyHashes_def ensure_def js_safe_def own_sdk_def)
qed

section \<open>A store\<close>

text \<open>The bulk part is one file that holds the genesis header (nonce 0).\<close>

definition genesis_file :: bulk_file where
  "genesis_file = \<lparr>bf_chain = Main, bf_fileName = ''f'', bf_sourceUrl = Some ''u'', bf_firstHeight = 0, bf_count = 1,
     bf_prevHash = zeros32, bf_lastHash = nonce_hash 0, bf_prevChainWork = zeros32, bf_lastChainWork = work_text 4295032833,
     bf_fileHash = ''h'', bf_data = None\<rparr>"

definition genesis_bulk :: bulk_manager where
  "genesis_bulk = \<lparr>bfds = [genesis_file], fileHashToIndex = [(''h'', 0)]\<rparr>"

definition demo_env :: store_env where
  "demo_env = \<lparr>se_bulk = \<lparr>be_sdk = nonce_sdk, be_base64 = (\<lambda>_. ''''), be_canonical = (\<lambda>_. True),
     be_load = (\<lambda>_. Inl (JsError '''')), be_chain = Main, be_maxPerFile = 100000\<rparr>,
     se_liveHeightThreshold = 2000, se_bulkMigrationChunkSize = 500\<rparr>"

text \<open>A header of the store: id, nonce of the header before it and its own, parent's id, height, difficulty, total
  work, flags.\<close>

definition row :: "int \<Rightarrow> int \<Rightarrow> int \<Rightarrow> int option \<Rightarrow> int \<Rightarrow> int \<Rightarrow> nat \<Rightarrow> bool \<Rightarrow> bool \<Rightarrow> live_header" where
  "row i p n q ht b w act tip = (mk_live (named p n ht b) i q (work_text w) act)\<lparr>isChainTip := tip\<rparr>"

lemma row_sel [simp]:
  "headerId (row i p n q ht b w act tip) = i" "previousHeaderId (row i p n q ht b w act tip) = q"
  "chainWork (row i p n q ht b w act tip) = work_text w" "isActive (row i p n q ht b w act tip) = act"
  "isChainTip (row i p n q ht b w act tip) = tip" "hash (row i p n q ht b w act tip) = nonce_hash n"
  "height (row i p n q ht b w act tip) = ht" "previousHash (row i p n q ht b w act tip) = nonce_hash p"
  "bits (row i p n q ht b w act tip) = b"
  by (simp_all add: row_def)

lemma row_update [simp]:
  "(row i p n q ht b w act tip)\<lparr>isActive := a\<rparr> = row i p n q ht b w a tip"
  "(row i p n q ht b w act tip)\<lparr>isChainTip := c\<rparr> = row i p n q ht b w act c"
  "mk_live (named p n ht b) i q (work_text w) a = row i p n q ht b w a a"
  by (simp_all add: row_def mk_live_def block_header.defs)

text \<open>A store that holds \<open>rows\<close>.\<close>

definition demo_store :: "live_header list \<Rightarrow> int \<Rightarrow> int \<Rightarrow> header_store" where
  "demo_store rs mx tp = \<lparr>liveHeaders = map (\<lambda>x. (headerId x, x)) rs, maxHeaderId = mx, tipHeaderId = tp,
     hashToHeaderId = map (\<lambda>x. (hash x, headerId x)) rs, bulk = genesis_bulk\<rparr>"

lemma demo_add [simp]:
  "w < 2 ^ 256 \<Longrightarrow> v < 2 ^ 256 \<Longrightarrow> w + v < 2 ^ 256 \<Longrightarrow> addWork (work_text w) (work_text v) = Inr (work_text (w + v))"
  by (simp add: addWork_Inr work_text_hex32)

lemma demo_more [simp]:
  "w < 2 ^ 256 \<Longrightarrow> v < 2 ^ 256 \<Longrightarrow> isMoreWork (work_text w) (work_text v) = Inr (w > v)"
  by (simp add: isMoreWork_Inr work_text_hex32)

lemma demo_bits [simp]: "convertBitsToWork easy = Inr (work_text 4295032833)" "convertBitsToWork hard = Inr (work_text 1099528405248)"
  using block_work_of_target [OF easy_target] block_work_of_target [OF hard_target] by (simp_all add: demo_works work_text_def)

text \<open>Insertion of a named header: validation passes, and nothing is pruned from so short a chain.\<close>

lemma demo_unpruned:
  assumes "List.find (\<lambda>x. hash x = nonce_hash p) (lives s) = Some ob"
    and "0 \<le> ht \<and> ht \<le> max_block_height \<and> (b = easy \<or> b = hard) \<and> 0 \<le> n \<and> n < 256
      \<and> jsmap_get (hashToHeaderId s) (nonce_hash n) = None"
  shows "insert_unpruned demo_env s (named p n ht b) = insert_linked s (named p n ht b) ob"
  using assms named_valid [of ht b n p] by (simp add: insert_unpruned_def demo_env_def)

lemma demo_insert:
  assumes "insert_unpruned demo_env s h = (s', Inr r)" "valid_height (height h)"
    and "height h - minHeight (findLiveHeightRange s') < 2000"
  shows "insertHeader demo_env s h = (s', Inr r)"
  using assms by (simp add: insertHeader_def pruneLiveBlockHeaders_def validateHeight_def ensure_def demo_env_def Let_def)

lemmas demo_simps = demo_store_def insert_linked_def prior_tip_def prepareActiveTip_def findActiveAncestor_def
  active_ancestor_loop.simps activate_loop.simps deactivate_loop.simps applyReorganization_def store_header_def
  createInsertHeaderResult_def findChainTipHeaderOrUndefined_def active_tips_def recordTraversalVisit_def
  validateStoredParentLink_def validateHeaderId_def validateHeight_def valid_height_def js_safe_def ensure_def
  multiple_tips_def findLiveHeightRange_def range_from_def Let_def

text \<open>The store after each of five headers: the first live header (1), two headers on it (2, then 3), and one more
  on the second of these (4), which makes the branch of 3 the active one.\<close>

definition store_1 :: header_store where
  "store_1 = demo_store [row 1 0 1 None 1 easy 8590065666 True True] 1 1"

definition store_2 :: header_store where
  "store_2 = demo_store [row 1 0 1 None 1 easy 8590065666 True False, row 2 1 2 (Some 1) 2 easy 12885098499 True True] 2 2"

definition store_3 :: header_store where
  "store_3 = demo_store [row 1 0 1 None 1 easy 8590065666 True False, row 2 1 2 (Some 1) 2 easy 12885098499 True True,
       row 3 1 3 (Some 1) 2 easy 12885098499 False False] 3 2"

definition store_4 :: header_store where
  "store_4 = demo_store [row 1 0 1 None 1 easy 8590065666 True False, row 2 1 2 (Some 1) 2 easy 12885098499 False True,
     row 3 1 3 (Some 1) 2 easy 12885098499 True False, row 4 3 4 (Some 3) 3 easy 17180131332 True True] 4 4"

lemma demo_first:
  "insert_unpruned demo_env (empty_store genesis_bulk) (named 0 1 1 easy) =
     (store_1,
      Inr (createInsertHeaderResult\<lparr>ir_isActiveTip := True, ir_added := True\<rparr>))"
  using named_valid [of 1 easy 1 0]
  by (simp add: insert_unpruned_def demo_env_def demo_store_def store_1_def empty_store_def insertFirstHeader_def getLastBfd_1 genesis_bulk_def
      genesis_file_def Let_def)

lemma demo_second:
  "fst (insertHeader demo_env store_1 (named 1 2 2 easy)) = store_2"
  by (subst demo_insert, subst demo_unpruned [where ob = "row 1 0 1 None 1 easy 8590065666 True True"])
    (simp_all add: demo_simps store_1_def store_2_def store_3_def)

lemma demo_third:
  "fst (insertHeader demo_env store_2 (named 1 3 2 easy)) = store_3"
  by (subst demo_insert, subst demo_unpruned [where ob = "row 1 0 1 None 1 easy 8590065666 True False"])
    (simp_all add: demo_simps store_1_def store_2_def store_3_def)

lemma demo_fourth:
  "fst (insertHeader demo_env store_3 (named 3 4 3 easy)) = store_4"
  by (subst demo_insert, subst demo_unpruned [where ob = "row 3 1 3 (Some 1) 2 easy 12885098499 False False"])
    (simp_all add: demo_simps store_3_def store_4_def)

lemma demo_start:
  "fst (insertHeader demo_env (empty_store genesis_bulk) (named 0 1 1 easy)) = store_1"
  using demo_first by (simp add: insertHeader_def createInsertHeaderResult_def)

end
