(* ===== verification/Live_Runs.thy ===== *)
theory Live_Runs
  imports Chain_Demo
begin

text \<open>
  The live header store under any sequence of operations: headers offered in any order, chunks of the chain
  retired to the bulk files, the live part dropped. When the difficulty is a function of the height the tip is
  always the first header with the most work, the active headers are its unbroken chain down to the bulk files,
  and bulk and live ranges adjoin. The last section shows two ways in which \<open>insertHeader\<close> leaves these
  invariants when the difficulty differs between branches.
\<close>

section \<open>The store as a machine\<close>

lemma prune_loop_inv: "live_store_inv sched s \<Longrightarrow> live_store_inv sched (fst (prune_loop fuel env s excess))"
proof (induction fuel arbitrary: s excess)
  case (Suc fuel)
  let ?c = "se_bulkMigrationChunkSize env"
  have m: "live_store_inv sched (fst (migrateLiveToBulk env s ?c False))"
    using migrate_inv [OF Suc.prems] by blast
  obtain s1 r where r: "migrateLiveToBulk env s ?c False = (s1, r)" by fastforce
  show ?case
    using m r Suc by (cases "?c \<le> excess"; cases r) (simp_all add: Let_def min_absorb2)
qed simp

lemma prune_inv: "live_store_inv sched s \<Longrightarrow> live_store_inv sched (fst (pruneLiveBlockHeaders env s h))"
  using prune_loop_inv by (simp add: pruneLiveBlockHeaders_def Let_def del: prune_loop.simps split: sum.split)

lemma insertHeader_inv:
  assumes "live_store_inv sched s" "sched_ok sched" "room_ok s" "bits h = sched (height h)"
  shows "live_store_inv sched (fst (insertHeader env s h))"
proof -
  obtain s1 r where r: "insert_unpruned env s h = (s1, r)" by fastforce
  then have s1: "live_store_inv sched s1"
    using insert_unpruned_inv [OF assms, of env] by simp
  obtain s2 p where p: "pruneLiveBlockHeaders env s1 (height h) = (s2, p)" by fastforce
  then have "live_store_inv sched s2" using prune_inv [OF s1, of env "height h"] by simp
  then show ?thesis
    using s1 p by (cases r; cases p) (simp_all add: insertHeader_def r)
qed

definition bulk_start_ok :: "(int \<Rightarrow> int) \<Rightarrow> bulk_manager \<Rightarrow> bool" where
  "bulk_start_ok sched b = (files_ok (bfds b) \<and> bfds b \<noteq> []
     \<and> hex_nat (lastBulkWork b) = work_at sched (nextBulkHeight b - 1))"

lemma empty_store_inv: "0 \<le> i \<Longrightarrow> bulk_start_ok sched (bulk s) \<Longrightarrow>
    live_store_inv sched (s\<lparr>liveHeaders := [], maxHeaderId := i, tipHeaderId := j, hashToHeaderId := []\<rparr>)"
  by (simp add: live_store_inv_def bulk_start_ok_def live_rows_ok_def jsmap_wf_def hash_ok_def bulk_ok_def stored_def)

datatype live_event = InsertEvent block_header | MigrateEvent int bool | ClearEvent

fun live_step :: "store_env \<Rightarrow> header_store \<Rightarrow> live_event \<Rightarrow> header_store" where
  "live_step env s (InsertEvent h) = fst (insertHeader env s h)"
| "live_step env s (MigrateEvent cnt ign) = fst (migrateLiveToBulk env s cnt ign)"
| "live_step env s ClearEvent = deleteLiveBlockHeaders s"

text \<open>Headers are offered with the difficulty of their height, while the store has room.\<close>

fun scheduled :: "(int \<Rightarrow> int) \<Rightarrow> header_store \<Rightarrow> live_event \<Rightarrow> bool" where
  "scheduled sched s (InsertEvent h) = (bits h = sched (height h) \<and> room_ok s)"
| "scheduled sched s _ = True"

interpretation headerdb: guarded_machine "live_step env" "scheduled sched" "\<lambda>s. sched_ok sched \<and> live_store_inv sched s"
  for env sched
proof
  fix s e assume s: "sched_ok sched \<and> live_store_inv sched s" and e: "scheduled sched s e"
  show "sched_ok sched \<and> live_store_inv sched (live_step env s e)"
  proof (cases e)
    case (InsertEvent h)
    then show ?thesis using s e insertHeader_inv [of sched s h env] by simp
  next
    case (MigrateEvent cnt ign)
    then show ?thesis using s migrate_inv [of sched s env cnt ign] by simp
  next
    case ClearEvent
    have "bulk_start_ok sched (bulk s)" using s by (simp add: live_store_inv_def bulk_start_ok_def bulk_ok_def)
    then show ?thesis using s ClearEvent empty_store_inv [of 0 sched s 0] by (simp add: deleteLiveBlockHeaders_def)
  qed
qed

lemma live_run_inv:
  assumes "sched_ok sched" "bulk_start_ok sched b" "legal_run (scheduled sched) (live_step env) (empty_store b) es"
  shows "live_store_inv sched (fold_steps (live_step env) (empty_store b) es)"
proof -
  have "live_store_inv sched (empty_store b)"
    using empty_store_inv [of 0 sched "empty_store b" 0] assms(2) by (simp add: empty_store_def)
  then show ?thesis using headerdb.guarded_run_inv assms(1,3) by blast
qed

section \<open>What the queries answer\<close>

lemma tip_result:
  assumes s: "live_store_inv sched s" and ne: "liveHeaders s \<noteq> []"
  obtains t where "tip_ok (liveHeaders s) t" "findChainTipHeaderOrUndefined s = Inr (Some t)" "tipHeaderId s = headerId t"
    "actives_ok (nextBulkHeight (bulk s)) (liveHeaders s)"
proof -
  obtain t where t: "tip_ok (liveHeaders s) t" "tipHeaderId s = headerId t" "actives_ok (nextBulkHeight (bulk s)) (liveHeaders s)"
    using s ne unfolding live_store_inv_def by blast
  have "live_rows_ok sched (maxHeaderId s) (liveHeaders s)" using s by (simp add: live_store_inv_def)
  then have "findChainTipHeaderOrUndefined s = Inr (Some t)"
    using tip_selected(1) t(1) by (simp add: findChainTipHeaderOrUndefined_def ensure_def)
  then show ?thesis using t that by blast
qed

lemma live_at_height:
  assumes s: "live_store_inv sched s" and ne: "liveHeaders s \<noteq> []" and t: "tip_ok (liveHeaders s) t" and k: "valid_height k"
  shows "if nextBulkHeight (bulk s) \<le> k \<and> k \<le> height t
    then \<exists>x. findLiveHeaderForHeight s k = Inr (Some x) \<and> stored (liveHeaders s) x \<and> isActive x \<and> height x = k
    else findLiveHeaderForHeight s k = Inr None"
proof -
  have ro: "live_rows_ok sched (maxHeaderId s) (liveHeaders s)" and act: "actives_ok (nextBulkHeight (bulk s)) (liveHeaders s)"
    using s ne by (auto simp: live_store_inv_def)
  let ?P = "\<lambda>h. height h = k \<and> isActive h"
  have find: "findLiveHeaderForHeight s k = Inr o'" if "filter ?P (lives s) = (case o' of None \<Rightarrow> [] | Some x \<Rightarrow> [x])" for o'
    using k that by (cases o') (simp_all add: findLiveHeaderForHeight_def validateHeight_def ensure_def Let_def)
  show ?thesis
  proof (cases "nextBulkHeight (bulk s) \<le> k \<and> k \<le> height t")
    case True
    then obtain x where x: "stored (liveHeaders s) x" "isActive x" "height x = k"
      using active_at [OF ro act t, of k] by blast
    have "filter ?P (lives s) = [x]"
      by (rule filter_unique [OF ro x(1)]) (use x actives_unique [OF act] in blast)+
    then show ?thesis using find [of "Some x"] x True by simp
  next
    case False
    have no: "\<not> ?P x" if "x \<in> set (lives s)" for x
    proof -
      have "stored (liveHeaders s) x" using that lives_stored [OF ro] by blast
      then show ?thesis using False actives_lo [OF act] tip_okD(4) [OF t] by blast
    qed
    have "filter ?P (lives s) = []"
      unfolding filter_empty_conv using no by blast
    then show ?thesis unfolding if_not_P [OF False] by (intro find) simp
  qed
qed

lemma next_pos: "bulk_ok sched s \<Longrightarrow> 1 \<le> nextBulkHeight (bulk s)"
proof -
  assume b: "bulk_ok sched s"
  then have f: "files_ok (bfds (bulk s))" "bfds (bulk s) \<noteq> []" by (simp_all add: bulk_ok_def)
  then have "1 \<le> bf_count (last (bfds (bulk s)))" "0 \<le> bf_firstHeight (last (bfds (bulk s)))"
    using files_ok_start [OF f(1)] by (simp_all add: files_ok_def)
  then show ?thesis using f(2) by (simp add: nextBulkHeight_def getLastBfd_1)
qed

lemma range_from_interval: "set hs = {a..b} \<Longrightarrow> a \<le> b \<Longrightarrow> range_from hs = mk_range a b"
proof -
  assume h: "set hs = {a..b}" "a \<le> b"
  then obtain k ks where k: "hs = k # ks" by (cases hs) auto
  have m: "Min {a..b} = a" "Max {a..b} = b"
    using h(2) by (auto intro: Min_eqI Max_eqI)
  have "insert k (set ks) = {a..b}" using h(1) k by simp
  then show ?thesis by (simp add: k range_from_def foldl_min_max m)
qed

lemma live_range:
  assumes s: "live_store_inv sched s" and ne: "liveHeaders s \<noteq> []" and t: "tip_ok (liveHeaders s) t"
  shows "findLiveHeightRange s = mk_range (nextBulkHeight (bulk s)) (height t)" "nextBulkHeight (bulk s) \<le> height t"
proof -
  have ro: "live_rows_ok sched (maxHeaderId s) (liveHeaders s)" and act: "actives_ok (nextBulkHeight (bulk s)) (liveHeaders s)"
    using s ne by (auto simp: live_store_inv_def)
  let ?as = "filter isActive (lives s)"
  show le: "nextBulkHeight (bulk s) \<le> height t" by (rule actives_lo [OF act tip_okD(1) [OF t]])
  have "set (map height (sort_key height ?as)) = set [nextBulkHeight (bulk s)..height t]"
    unfolding active_heights [OF ro act t] ..
  then have "set (map height ?as) = {nextBulkHeight (bulk s)..height t}"
    by (simp only: set_map set_sort set_upto)
  then have r: "range_from (map height ?as) = mk_range (nextBulkHeight (bulk s)) (height t)"
    by (rule range_from_interval [OF _ le])
  have "?as \<noteq> []"
    using lives_stored [OF ro, of t] tip_okD(1,2) [OF t] by (auto simp: filter_empty_conv)
  then show "findLiveHeightRange s = mk_range (nextBulkHeight (bulk s)) (height t)"
    unfolding findLiveHeightRange_def Let_def r by (simp only: if_False)
qed

section \<open>The promises of the store\<close>

text \<open>C23. Whatever headers are offered in a scheduled run, in whatever order, and whatever is retired in between: the store
  never complains about its tip, it has one as soon as it holds a header, and the tip is a header of most work, the
  first one stored among those. A scheduled run offers only headers whose \<open>bits\<close> are those of their height (one
  schedule \<open>sched\<close> of valid difficulties for all branches), and only while the store has ids left and no live header
  is 100000 heights above the bulk files (\<open>room_ok\<close>); it starts from bulk files that are linked and whose last
  work is that of the schedule.\<close>

theorem tip_is_first_with_most_work:
  assumes "sched_ok sched" "bulk_start_ok sched b" "legal_run (scheduled sched) (live_step env) (empty_store b) es"
  shows "let s = fold_steps (live_step env) (empty_store b) es in
    case findChainTipHeaderOrUndefined s of
      Inl e \<Rightarrow> False
    | Inr None \<Rightarrow> liveHeaders s = []
    | Inr (Some t) \<Rightarrow> t \<in> set (lives s) \<and> isActive t \<and> headerId t = tipHeaderId s
        \<and> (\<forall>x\<in>set (lives s). hex_nat (chainWork x) < hex_nat (chainWork t)
              \<or> hex_nat (chainWork x) = hex_nat (chainWork t) \<and> headerId t \<le> headerId x)"
proof -
  define s where "s = fold_steps (live_step env) (empty_store b) es"
  have s: "live_store_inv sched s" unfolding s_def by (rule live_run_inv [OF assms])
  have ro: "live_rows_ok sched (maxHeaderId s) (liveHeaders s)" using s by (simp add: live_store_inv_def)
  show ?thesis
  proof (cases "liveHeaders s = []")
    case True
    then show ?thesis
      unfolding s_def [symmetric] Let_def by (simp add: findChainTipHeaderOrUndefined_def active_tips_def ensure_def)
  next
    case False
    obtain t where t: "tip_ok (liveHeaders s) t" "findChainTipHeaderOrUndefined s = Inr (Some t)" "tipHeaderId s = headerId t"
      by (rule tip_result [OF s False])
    have work: "hex_nat (chainWork x) = work_at sched (height x) \<and> - 1 \<le> height x" if "stored (liveHeaders s) x" for x
      using stored_row [OF ro that] by (auto simp: row_ok_def valid_height_def)
    have best: "hex_nat (chainWork x) < hex_nat (chainWork t)
        \<or> hex_nat (chainWork x) = hex_nat (chainWork t) \<and> headerId t \<le> headerId x" if "x \<in> set (lives s)" for x
    proof -
      have x: "stored (liveHeaders s) x" using that lives_stored [OF ro] by blast
      have "height x < height t \<or> height x = height t \<and> headerId t \<le> headerId x"
        using tip_okD(4,5) [OF t(1) x] by linarith
      then show ?thesis
        using work [OF x] work [OF tip_okD(1) [OF t(1)]] work_at_less [OF assms(1), of "height x" "height t"] by auto
    qed
    have "t \<in> set (lives s)" using lives_stored [OF ro, of t] tip_okD(1) [OF t(1)] by blast
    then show ?thesis
      unfolding s_def [symmetric] Let_def t(2) sum.case option.case using best tip_okD(2) [OF t(1)] t(3) by simp
  qed
qed

text \<open>C24. After every scheduled run (all branches with the same difficulty at the same height, offers only while the
  store has room: \<open>scheduled\<close> and \<open>room_ok\<close>, as in C23) the active headers are one unbroken chain: the query by height
  never fails, it answers exactly inside the live range, and the header it returns is built on the header it returns
  one height below, the lowest one on the last bulk header. Without the common schedule it is false: C26 leaves two
  active tips, and C27 a hole in the active chain.\<close>

theorem active_chain_unbroken:
  assumes "sched_ok sched" "bulk_start_ok sched b" "legal_run (scheduled sched) (live_step env) (empty_store b) es"
  shows "let s = fold_steps (live_step env) (empty_store b) es in
    \<forall>k. valid_height k \<longrightarrow> (case findLiveHeaderForHeight s k of
      Inl e \<Rightarrow> False
    | Inr None \<Rightarrow> k \<notin> heights (findLiveHeightRange s)
    | Inr (Some x) \<Rightarrow> k \<in> heights (findLiveHeightRange s) \<and> height x = k \<and> isActive x
        \<and> previousHash x = (case findLiveHeaderForHeight s (k - 1) of Inr (Some q) \<Rightarrow> hash q | _ \<Rightarrow> lastBulkHash (bulk s)))"
proof -
  define s where "s = fold_steps (live_step env) (empty_store b) es"
  have s: "live_store_inv sched s" unfolding s_def by (rule live_run_inv [OF assms])
  have ro: "live_rows_ok sched (maxHeaderId s) (liveHeaders s)" and bo: "bulk_ok sched s" using s by (simp_all add: live_store_inv_def)
  have "case findLiveHeaderForHeight s k of
      Inl e \<Rightarrow> False
    | Inr None \<Rightarrow> k \<notin> heights (findLiveHeightRange s)
    | Inr (Some x) \<Rightarrow> k \<in> heights (findLiveHeightRange s) \<and> height x = k \<and> isActive x
        \<and> previousHash x = (case findLiveHeaderForHeight s (k - 1) of Inr (Some q) \<Rightarrow> hash q | _ \<Rightarrow> lastBulkHash (bulk s))"
    if k: "valid_height k" for k
  proof (cases "liveHeaders s = []")
    case True
    then show ?thesis using k
      by (simp add: findLiveHeaderForHeight_def findLiveHeightRange_def validateHeight_def ensure_def Let_def)
  next
    case ne: False
    obtain t where t: "tip_ok (liveHeaders s) t" and act: "actives_ok (nextBulkHeight (bulk s)) (liveHeaders s)"
      by (rule tip_result [OF s ne])
    note at = live_at_height [OF s ne t]
    note rg = live_range [OF s ne t]
    show ?thesis
    proof (cases "nextBulkHeight (bulk s) \<le> k \<and> k \<le> height t")
      case False
      then show ?thesis using at [OF k] rg by auto
    next
      case True
      then obtain x where x: "findLiveHeaderForHeight s k = Inr (Some x)" "stored (liveHeaders s) x" "isActive x" "height x = k"
        using at [OF k] by auto
      note pos = next_pos [OF bo]
      have k1: "valid_height (k - 1)" using k True pos by (simp add: valid_height_def js_safe_def)
      have "previousHash x = (case findLiveHeaderForHeight s (k - 1) of Inr (Some q) \<Rightarrow> hash q | _ \<Rightarrow> lastBulkHash (bulk s))"
      proof (cases "nextBulkHeight (bulk s) \<le> k - 1")
        case False
        then have none: "findLiveHeaderForHeight s (k - 1) = Inr None" using at [OF k1] by simp
        have kk: "k = nextBulkHeight (bulk s)" using False True by simp
        have "previousHeaderId x = None"
        proof (rule ccontr)
          assume "previousHeaderId x \<noteq> None"
          then obtain p where "previousHeaderId x = Some p" by blast
          then obtain q where q: "stored (liveHeaders s) q" "linked_to q x" by (rule live_rows_ok_parent [OF ro x(2)])
          then show False using actives_lo [OF act q(1)] linked_height [OF q(2)] x(4) kk by simp
        qed
        then show ?thesis using none bo x(2,3) unfolding bulk_ok_def by auto
      next
        case low: True
        then have "\<exists>q. findLiveHeaderForHeight s (k - 1) = Inr (Some q) \<and> stored (liveHeaders s) q \<and> isActive q \<and> height q = k - 1"
          using at [OF k1] True by simp
        then obtain q where q: "findLiveHeaderForHeight s (k - 1) = Inr (Some q)" "stored (liveHeaders s) q" "isActive q" "height q = k - 1"
          by blast
        obtain p where "previousHeaderId x = Some p"
          using actives_bottom [OF act x(2,3)] x(4) low by (cases "previousHeaderId x") auto
        then obtain v where v: "stored (liveHeaders s) v" "linked_to v x" by (rule live_rows_ok_parent [OF ro x(2)])
        have "v = q"
          using actives_unique [OF act v(1) q(2) actives_parent [OF act x(2,3) v] q(3)] linked_height [OF v(2)] q(4) x(4) by simp
        then show ?thesis using q(1) v(2) by (simp add: linked_to_def)
      qed
      then show ?thesis using x(1,3,4) True rg(1) by simp
    qed
  qed
  then show ?thesis unfolding s_def [symmetric] Let_def by blast
qed

text \<open>C25. After every scheduled run (\<open>scheduled\<close> and \<open>room_ok\<close>, as in C23) bulk and live headers leave no gap and do
  not overlap: the ranges are available, are disjoint, and together are all heights up to the tip. Outside scheduled
  runs the tip query itself can throw (C26).\<close>

theorem bulk_and_live_adjoin:
  assumes "sched_ok sched" "bulk_start_ok sched b" "legal_run (scheduled sched) (live_step env) (empty_store b) es"
  shows "let s = fold_steps (live_step env) (empty_store b) es in
    case getAvailableHeightRanges s of
      Inl e \<Rightarrow> False
    | Inr (bs, ls) \<Rightarrow> heights bs \<inter> heights ls = {}
        \<and> heights bs \<union> heights ls = (case findChainTipHeaderOrUndefined s of
             Inr (Some t) \<Rightarrow> {0..height t} | _ \<Rightarrow> {0..<nextBulkHeight (bulk s)})"
proof -
  define s where "s = fold_steps (live_step env) (empty_store b) es"
  have s: "live_store_inv sched s" unfolding s_def by (rule live_run_inv [OF assms])
  have f: "files_ok (bfds (bulk s))" "bfds (bulk s) \<noteq> []" using s by (simp_all add: live_store_inv_def bulk_ok_def)
  let ?n = "nextBulkHeight (bulk s)"
  have pos: "1 \<le> ?n" using s by (intro next_pos [of sched]) (simp add: live_store_inv_def)
  have br: "bulkHeightRange (bfds (bulk s)) = mk_range 0 (?n - 1)"
    using f by (cases "bfds (bulk s)") (simp_all add: bulkHeightRange_def files_ok_def nextBulkHeight_def getLastBfd_1)
  have ne: "\<not> isEmpty (mk_range 0 (?n - 1))" using pos by (simp add: isEmpty_def)
  show ?thesis
  proof (cases "liveHeaders s = []")
    case True
    then have l: "findLiveHeightRange s = range_empty" "findChainTipHeaderOrUndefined s = Inr None"
      by (simp_all add: findLiveHeightRange_def findChainTipHeaderOrUndefined_def active_tips_def ensure_def)
    have "getAvailableHeightRanges s = Inr (mk_range 0 (?n - 1), range_empty)"
      using ne by (simp add: getAvailableHeightRanges_def br l ensure_def isEmpty_heights Let_def)
    then show ?thesis unfolding s_def [symmetric] Let_def by (auto simp: l)
  next
    case False
    obtain t where t: "tip_ok (liveHeaders s) t" "findChainTipHeaderOrUndefined s = Inr (Some t)"
      by (rule tip_result [OF s False])
    note rg = live_range [OF s False t(1)]
    have "getAvailableHeightRanges s = Inr (mk_range 0 (?n - 1), mk_range ?n (height t))"
      using ne by (simp add: getAvailableHeightRanges_def br rg ensure_def Let_def)
    then show ?thesis unfolding s_def [symmetric] Let_def using pos rg(2) by (auto simp: t(2))
  qed
qed

section \<open>Runs\<close>

abbreviation branch_run :: "live_event list" where
  "branch_run \<equiv> map InsertEvent [named 0 1 1 easy, named 1 2 2 easy, named 1 3 2 easy, named 3 4 3 easy]"

lemma store_2_reached: "fold_steps (live_step demo_env) (empty_store genesis_bulk)
    (map InsertEvent [named 0 1 1 easy, named 1 2 2 easy]) = store_2"
  by (simp add: demo_start demo_second)

lemma store_4_reached: "fold_steps (live_step demo_env) (empty_store genesis_bulk) branch_run = store_4"
  by (simp add: demo_start demo_second demo_third demo_fourth)

lemma demo_sched: "sched_ok (\<lambda>_. easy)" "bulk_start_ok (\<lambda>_. easy) genesis_bulk"
  using easy_target
  by (auto simp: sched_ok_def bulk_start_ok_def genesis_bulk_def genesis_file_def files_ok_def nextBulkHeight_def lastBulkWork_def
      getLastBfd_1 work_at_def demo_works)

lemma genesis_next: "nextBulkHeight genesis_bulk = 1"
  by (simp add: nextBulkHeight_def getLastBfd_1 genesis_bulk_def genesis_file_def)

lemma demo_room: "room_ok (empty_store genesis_bulk)" "room_ok store_1" "room_ok store_2" "room_ok store_3"
  by (simp_all add: room_ok_def empty_store_def store_1_def store_2_def store_3_def demo_store_def genesis_next)

lemma branch_run_legal: "legal_run (scheduled (\<lambda>_. easy)) (live_step demo_env) (empty_store genesis_bulk) branch_run"
  by (simp add: demo_start demo_second demo_third demo_room)

lemma branch_answers:
  "findChainTipHeaderOrUndefined store_4 = Inr (Some (row 4 3 4 (Some 3) 3 easy 17180131332 True True))"
  "findLiveHeightRange store_4 = mk_range 1 3" "findLiveHeaderForHeight store_4 3 = Inr (Some (row 4 3 4 (Some 3) 3 easy 17180131332 True True))"
  "findLiveHeaderForHeight store_4 2 = Inr (Some (row 3 1 3 (Some 1) 2 easy 12885098499 True False))"
  "getAvailableHeightRanges store_4 = Inr (mk_range 0 0, mk_range 1 3)"
  by (simp_all add: demo_simps store_4_def findLiveHeaderForHeight_def getAvailableHeightRanges_def isEmpty_def
      bulkHeightRange_def genesis_bulk_def genesis_file_def)

theorem tip_is_first_with_most_work_witness:
  "map headerId (lives store_4) = [1, 2, 3, 4] \<and> tipHeaderId store_4 = 4
   \<and> list_all (\<lambda>x. hex_nat (chainWork x) < 17180131332 \<or> hex_nat (chainWork x) = 17180131332 \<and> 4 \<le> headerId x) (lives store_4)"
  using tip_is_first_with_most_work [OF demo_sched branch_run_legal]
  unfolding store_4_reached Let_def branch_answers(1) by (simp add: list_all_iff store_4_def demo_store_def)

theorem active_chain_unbroken_witness:
  "findLiveHeaderForHeight store_4 3 = Inr (Some (row 4 3 4 (Some 3) 3 easy 17180131332 True True))
   \<and> previousHash (row 4 3 4 (Some 3) 3 easy 17180131332 True True)
      = (case findLiveHeaderForHeight store_4 2 of Inr (Some q) \<Rightarrow> hash q | _ \<Rightarrow> lastBulkHash (bulk store_4))"
proof -
  have "valid_height 3" by (simp add: valid_height_def js_safe_def)
  then show ?thesis
    using active_chain_unbroken [OF demo_sched branch_run_legal] unfolding store_4_reached Let_def
    by (simp add: branch_answers)
qed

theorem bulk_and_live_adjoin_witness:
  "getAvailableHeightRanges store_4 = Inr (mk_range 0 0, mk_range 1 3)
   \<and> heights (mk_range 0 0) \<union> heights (mk_range 1 3) = {0..3}"
  using bulk_and_live_adjoin [OF demo_sched branch_run_legal]
  unfolding store_4_reached Let_def branch_answers by simp

section \<open>Where the difficulty differs between branches\<close>

text \<open>C26. A header that extends a header of the active chain below its tip and outweighs the tip (a sibling of the
  tip with more work) is made an active tip without deactivating the old one: the reorganization ends early
  because its parent is itself the common ancestor. From then on the tip query throws.\<close>

theorem heavier_sibling_splits_the_tip:
  assumes s: "live_store_inv sched s" and ob: "ob \<in> set (lives s)" "isActive ob" "\<not> isChainTip ob" "height h = height ob + 1"
    and t: "findChainTipHeaderOrUndefined s = Inr (Some t)"
    and w: "and_then (convertBitsToWork (bits h)) (addWork (chainWork ob)) = Inr w" "hex_nat (chainWork t) < hex_nat w"
  shows "\<exists>s' r. insert_linked s h ob = (s', Inr r) \<and> ir_added r \<and> ir_isActiveTip r
    \<and> findChainTipHeaderOrUndefined s' = Inl multiple_tips"
proof -
  have ro: "live_rows_ok sched (maxHeaderId s) (liveHeaders s)" using s by (simp add: live_store_inv_def)
  have tips: "active_tips s = [t]"
    using t by (auto simp: findChainTipHeaderOrUndefined_def and_then_Inr Let_def split: list.splits)
  then have "t \<in> set (filter (\<lambda>h. isActive h \<and> isChainTip h) (lives s))" by (simp add: active_tips_def)
  then have ts: "stored (liveHeaders s) t" using lives_stored [OF ro, of t] by auto
  have mw: "isMoreWork w (chainWork t) = Inr True"
    using header_work [OF w(1)] stored_row [OF ro ts] w(2) by (simp add: isMoreWork_Inr row_ok_def)
  let ?i = "maxHeaderId s + 1"
  let ?new = "mk_live h ?i (Some (headerId ob)) w True"
  have fresh: "?i \<notin> fst ` set (liveHeaders s)"
  proof
    assume "?i \<in> fst ` set (liveHeaders s)"
    then obtain x where "live s ?i = Some x" using ro by (auto simp: live_rows_ok_def jsmap_wf_def image_iff)
    then show False using live_rows_okD(1) [OF ro, of ?i x] by (simp add: row_ok_def)
  qed
  define r where "r = createInsertHeaderResult\<lparr>ir_priorTip := Some t, ir_isActiveTip := True,
      ir_reorgDepth := min (height t) (height h) - height ob, ir_added := True\<rparr>"
  have ins: "insert_linked s h ob = (store_header (s\<lparr>maxHeaderId := ?i\<rparr>) h ob ?i w True, Inr r)"
    using ob t w(1) mw
    by (simp add: insert_linked_def prior_tip_def prepareActiveTip_def findActiveAncestor_def active_ancestor_loop.simps [of _ _ _ ob]
        applyReorganization_def createInsertHeaderResult_def r_def Let_def)
  have "active_tips (store_header (s\<lparr>maxHeaderId := ?i\<rparr>) h ob ?i w True) = [t, ?new]"
    using ob(3) tips jsmap_set_new [OF fresh, of ?new] by (simp add: active_tips_def store_header_def Let_def)
  then show ?thesis
    unfolding ins by (simp add: r_def findChainTipHeaderOrUndefined_def ensure_def)
qed

text \<open>C27. When a reorganization goes back to a branch whose last header is a former tip, that header is written back
  as it was read before the reorganization: the new tip is active, its parent is not, and the active chain has
  a hole.\<close>

theorem former_tip_stays_inactive:
  assumes "insert_linked s h ob = (s', Inr r)" "ir_added r" "ir_isActiveTip r"
    and "isChainTip ob" "\<not> isActive ob" "headerId ob \<le> maxHeaderId s"
  shows "\<exists>n p. live s' (tipHeaderId s') = Some n \<and> isActive n \<and> isChainTip n \<and> hash n = hash h
     \<and> previousHeaderId n = Some (headerId p) \<and> live s' (headerId p) = Some p \<and> hash p = hash ob \<and> \<not> isActive p"
proof -
  obtain tip w act where act: "isMoreWork w (chainWork tip) = Inr act" and w: "and_then (convertBitsToWork (bits h)) (addWork (chainWork ob)) = Inr w"
    and pt: "prior_tip s ob = Inr (Some tip)" and ht: "height ob + 1 = height h"
    using assms(1-3) by (auto simp: insert_linked_def createInsertHeaderResult_def Let_def split: if_splits sum.splits option.splits)
  let ?i = "maxHeaderId s + 1"
  obtain s2 o2 where p: "prepareActiveTip (s\<lparr>maxHeaderId := ?i\<rparr>) h ob
      (createInsertHeaderResult\<lparr>ir_priorTip := Some tip, ir_isActiveTip := act\<rparr>) = (s2, o2)" by fastforce
  obtain r2 where o2: "o2 = Inr (True, r2)" and s': "s' = store_header s2 h ob ?i w act" and r: "r = r2\<lparr>ir_added := True\<rparr>"
    using assms(1,2) act w pt ht p
    by (cases o2) (auto simp: insert_linked_def createInsertHeaderResult_def Let_def prepareActiveTip_def
        split: if_splits sum.splits option.splits prod.splits)
  have "ir_isActiveTip r2 = act"
    using p o2 by (auto simp: prepareActiveTip_def createInsertHeaderResult_def Let_def split: if_splits sum.splits option.splits prod.splits)
  then have "act" using assms(3) r by simp
  then show ?thesis
    using assms(4-6) unfolding s'
    by (intro exI [of _ "mk_live h ?i (Some (headerId ob)) w True"] exI [of _ "ob\<lparr>isChainTip := False\<rparr>"])
      (simp add: store_header_def Let_def)
qed

text \<open>Both happen with headers the store accepts: a difficult sibling of header 2, and a difficult header on the
  former tip 2.\<close>

lemma store_2_inv: "live_store_inv (\<lambda>_. easy) store_2"
  using live_run_inv [OF demo_sched, of demo_env "map InsertEvent [named 0 1 1 easy, named 1 2 2 easy]"] store_2_reached demo_room
  by (simp add: demo_start)

theorem heavier_sibling_splits_the_tip_witness:
  "\<exists>s' r. insert_unpruned demo_env store_2 (named 1 6 2 hard) = (s', Inr r) \<and> ir_added r \<and> ir_isActiveTip r
     \<and> findChainTipHeaderOrUndefined s' = Inl multiple_tips"
proof -
  let ?ob = "row 1 0 1 None 1 easy 8590065666 True False"
  have t: "findChainTipHeaderOrUndefined store_2 = Inr (Some (row 2 1 2 (Some 1) 2 easy 12885098499 True True))"
    by (simp add: demo_simps store_2_def)
  have "insert_unpruned demo_env store_2 (named 1 6 2 hard) = insert_linked store_2 (named 1 6 2 hard) ?ob"
    by (rule demo_unpruned) (simp_all add: store_2_def demo_store_def)
  then show ?thesis
    using heavier_sibling_splits_the_tip [OF store_2_inv _ _ _ _ t, of ?ob "named 1 6 2 hard"]
    by (simp add: store_2_def demo_store_def)
qed

text \<open>The store after the difficult header 5 on the former tip 2.\<close>

definition store_5 :: header_store where
  "store_5 = demo_store [row 1 0 1 None 1 easy 8590065666 True False, row 2 1 2 (Some 1) 2 easy 12885098499 False False,
     row 3 1 3 (Some 1) 2 easy 12885098499 False False, row 4 3 4 (Some 3) 3 easy 17180131332 False True,
     row 5 2 5 (Some 2) 3 hard 1112413503747 True True] 5 5"

lemma demo_fifth:
  "\<exists>r. insert_linked store_4 (named 2 5 3 hard) (row 2 1 2 (Some 1) 2 easy 12885098499 False True) = (store_5, Inr r)
     \<and> ir_added r \<and> ir_isActiveTip r"
  by (simp add: demo_simps store_4_def store_5_def)

theorem former_tip_stays_inactive_witness:
  "\<exists>r. insertHeader demo_env store_4 (named 2 5 3 hard) = (store_5, Inr r)
     \<and> findLiveHeaderForHeight store_5 3 = Inr (Some (row 5 2 5 (Some 2) 3 hard 1112413503747 True True))
     \<and> findLiveHeaderForHeight store_5 2 = Inr None
     \<and> (\<exists>n p. live store_5 5 = Some n \<and> isActive n \<and> previousHeaderId n = Some (headerId p)
          \<and> live store_5 (headerId p) = Some p \<and> \<not> isActive p)"
proof -
  let ?ob = "row 2 1 2 (Some 1) 2 easy 12885098499 False True"
  obtain r where r: "insert_linked store_4 (named 2 5 3 hard) ?ob = (store_5, Inr r)" "ir_added r" "ir_isActiveTip r"
    using demo_fifth by blast
  have u: "insert_unpruned demo_env store_4 (named 2 5 3 hard) = (store_5, Inr r)"
    unfolding r(1) [symmetric] by (rule demo_unpruned) (simp_all add: store_4_def demo_store_def)
  have "insertHeader demo_env store_4 (named 2 5 3 hard) = (store_5, Inr r)"
    by (rule demo_insert [OF u]) (simp_all add: demo_simps store_5_def)
  moreover have "\<exists>n p. live store_5 (tipHeaderId store_5) = Some n \<and> isActive n \<and> isChainTip n \<and> hash n = hash (named 2 5 3 hard)
     \<and> previousHeaderId n = Some (headerId p) \<and> live store_5 (headerId p) = Some p \<and> hash p = hash ?ob \<and> \<not> isActive p"
    by (rule former_tip_stays_inactive [OF r]) (simp_all add: store_4_def demo_store_def)
  moreover have "tipHeaderId store_5 = 5" by (simp add: store_5_def demo_store_def)
  moreover have "findLiveHeaderForHeight store_5 3 = Inr (Some (row 5 2 5 (Some 2) 3 hard 1112413503747 True True))"
    "findLiveHeaderForHeight store_5 2 = Inr None"
    by (simp_all add: demo_simps store_5_def findLiveHeaderForHeight_def)
  ultimately show ?thesis by metis
qed

end
