(* ===== verification/Ump_Token.thy ===== *)
theory Ump_Token
  imports Block_Header
begin

text \<open>
  The UMP token of \<open>packages/wallet-engine/src/CWIStyleWalletManager.ts\<close>: its key-derivation settings, the
  fields it is published with, the format checks of published fields, and the binary form of a token inside a
  snapshot. Bytes are \<open>int list\<close>. The SDK's ciphers, \<open>Writer\<close> and \<open>Reader\<close>, the two key-derivation functions and
  the composed text codecs (\<open>toArray(JSON.stringify(v), 'utf8')\<close> and back) are the fields of \<open>key_sdk\<close>;
  \<open>sdk_ok\<close> states what the code relies on. A JSON number with a fraction is outside the model; such a
  setting is refused by \<open>Number.isInteger\<close>.
\<close>

section \<open>The SDK\<close>

text \<open>
  \<open>ks_encrypt key iv m\<close> is \<open>new SymmetricKey(key).encrypt(m)\<close> with the random start vector \<open>iv\<close>; decryption throws
  on a wrong key (\<open>None\<close>). A private key is the integer that \<open>new PrivateKey(bytes)\<close> holds; \<open>ks_key_bytes\<close> is
  its \<open>toArray()\<close>, which has fewer than 32 bytes when the number has leading zero bytes. \<open>ks_wrap\<close> is the
  privileged key's \<open>encrypt\<close> under the protocol \<open>admin key wrapping\<close>. \<open>ks_read n\<close> is \<open>Reader.read(n)\<close>.
\<close>

record key_sdk =
  ks_sha256 :: "int list \<Rightarrow> int list"
  ks_encrypt :: "int list \<Rightarrow> int list \<Rightarrow> int list \<Rightarrow> int list"
  ks_decrypt :: "int list \<Rightarrow> int list \<Rightarrow> int list option"
  ks_key_of :: "int list \<Rightarrow> int"
  ks_key_bytes :: "int \<Rightarrow> int list"
  ks_wrap :: "int \<Rightarrow> int list \<Rightarrow> int list \<Rightarrow> int list"
  ks_unwrap :: "int \<Rightarrow> int list \<Rightarrow> int list option"
  ks_pbkdf2 :: "int list \<Rightarrow> int list \<Rightarrow> int \<Rightarrow> int \<Rightarrow> int list"
  ks_argon2id :: "int list \<Rightarrow> int list \<Rightarrow> int \<Rightarrow> int \<Rightarrow> int \<Rightarrow> int \<Rightarrow> int list"
  ks_utf8 :: "string \<Rightarrow> int list"
  ks_text :: "int list \<Rightarrow> string"
  ks_json_bytes :: "json \<Rightarrow> int list"
  ks_json_parse :: "int list \<Rightarrow> json option"
  ks_varint :: "int \<Rightarrow> int list"
  ks_read_varint :: "int list \<Rightarrow> (int \<times> int list) option"
  ks_read :: "nat \<Rightarrow> int list \<Rightarrow> int list \<times> int list"

definition sdk_ok :: "key_sdk \<Rightarrow> bool" where
  "sdk_ok sdk \<longleftrightarrow>
     (\<forall>k iv m. ks_decrypt sdk k (ks_encrypt sdk k iv m) = Some m \<and> ks_encrypt sdk k iv m \<noteq> [])
     \<and> (\<forall>k iv m. ks_unwrap sdk k (ks_wrap sdk k iv m) = Some m \<and> ks_wrap sdk k iv m \<noteq> [])
     \<and> (\<forall>b n. length (ks_key_bytes sdk (ks_key_of sdk b)) \<le> 32
          \<and> list_all is_byte (ks_key_bytes sdk (ks_key_of sdk b))
          \<and> ks_key_of sdk (replicate n 0 @ ks_key_bytes sdk (ks_key_of sdk b)) = ks_key_of sdk b)
     \<and> (\<forall>s. ks_text sdk (ks_utf8 sdk s) = s \<and> (ks_utf8 sdk s = []) = (s = []))
     \<and> (\<forall>v. ks_json_parse sdk (ks_json_bytes sdk v) = Some v \<and> ks_json_bytes sdk v \<noteq> [])
     \<and> (\<forall>n r. 0 \<le> n \<longrightarrow> ks_read_varint sdk (ks_varint sdk n @ r) = Some (n, r))
     \<and> (\<forall>b r. ks_read sdk (length b) (b @ r) = (b, r))
     \<and> (\<forall>p s n. 0 \<le> n \<longrightarrow> length (ks_pbkdf2 sdk p s n 32) = 32 \<and> list_all is_byte (ks_pbkdf2 sdk p s n 32))
     \<and> (\<forall>p s i m q h. 0 < h \<longrightarrow> length (ks_argon2id sdk p s i m q h) = nat h \<and> list_all is_byte (ks_argon2id sdk p s i m q h))"

section \<open>Key derivation\<close>

record kdf_config =
  kdf_algorithm :: string
  kdf_iterations :: "json option"
  kdf_memoryKiB :: "json option"
  kdf_parallelism :: "json option"
  kdf_hashLength :: "json option"

abbreviation pbkdf2_name :: string where
  "pbkdf2_name \<equiv> ''pbkdf2-sha512''"

abbreviation argon2id_name :: string where
  "argon2id_name \<equiv> ''argon2id''"

abbreviation max_snapshot_bytes :: int where
  "max_snapshot_bytes \<equiv> 16777216"

fun isPositiveIntegerInRange :: "json option \<Rightarrow> int \<Rightarrow> bool" where
  "isPositiveIntegerInRange (Some (JNum n)) mx = (0 < n \<and> n \<le> mx)"
| "isPositiveIntegerInRange _ mx = False"

definition isValidKdfConfig :: "kdf_config option \<Rightarrow> bool" where
  "isValidKdfConfig kdf = (case kdf of None \<Rightarrow> False | Some c \<Rightarrow>
     if \<not> isPositiveIntegerInRange (kdf_iterations c) (if kdf_algorithm c = argon2id_name then 20 else 10000000) then False
     else if kdf_algorithm c = pbkdf2_name
       then kdf_hashLength c = None \<or> isPositiveIntegerInRange (kdf_hashLength c) 64
     else if kdf_algorithm c \<noteq> argon2id_name then False
     else isPositiveIntegerInRange (kdf_memoryKiB c) 262144 \<and> isPositiveIntegerInRange (kdf_parallelism c) 16
       \<and> isPositiveIntegerInRange (kdf_hashLength c) 64)"

text \<open>\<open>v ?? d\<close> for a setting that passed the check.\<close>

fun setting :: "json option \<Rightarrow> int \<Rightarrow> int" where
  "setting (Some (JNum n)) d = n"
| "setting _ d = d"

definition derivePasswordKey :: "key_sdk \<Rightarrow> int list \<Rightarrow> kdf_config option \<Rightarrow> string \<Rightarrow> chain_error + int list" where
  "derivePasswordKey sdk salt kdf password = (case kdf of
     None \<Rightarrow> Inr (ks_pbkdf2 sdk (ks_utf8 sdk password) salt 7777 32)
   | Some c \<Rightarrow>
       if \<not> isValidKdfConfig kdf then Inl (JsError ''UMP token contains unsupported or unsafe KDF parameters.'')
       else if kdf_algorithm c = pbkdf2_name
         then Inr (ks_pbkdf2 sdk (ks_utf8 sdk password) salt (setting (kdf_iterations c) 7777) 32)
       else if kdf_algorithm c = argon2id_name
         then Inr (ks_argon2id sdk (ks_utf8 sdk password) salt (setting (kdf_iterations c) 7)
                (setting (kdf_memoryKiB c) 131072) (setting (kdf_parallelism c) 1) (setting (kdf_hashLength c) 32))
       else Inl (JsError ''Unsupported KDF algorithm''))"

section \<open>Exclusive or\<close>

definition js_xor :: "int \<Rightarrow> int \<Rightarrow> int" where
  "js_xor a b = sint (js_i32 a XOR js_i32 b)"

definition XOR_bytes :: "int list \<Rightarrow> int list \<Rightarrow> chain_error + int list" where
  "XOR_bytes n1 n2 = and_then (ensure (length n1 = length n2) (JsError ''XOR length mismatch''))
     (\<lambda>_. Inr (map2 js_xor n1 n2))"

section \<open>The token\<close>

record ump_token =
  passwordPresentationPrimary :: "int list"
  passwordRecoveryPrimary :: "int list"
  presentationRecoveryPrimary :: "int list"
  passwordPrimaryPrivileged :: "int list"
  presentationRecoveryPrivileged :: "int list"
  presentationHash :: "int list"
  passwordSalt :: "int list"
  recoveryHash :: "int list"
  presentationKeyEncrypted :: "int list"
  recoveryKeyEncrypted :: "int list"
  passwordKeyEncrypted :: "int list"
  profilesEncrypted :: "int list option"
  umpVersion :: "int option"
  passwordKdf :: "kdf_config option"
  currentOutpoint :: "string option"

definition derive_for :: "key_sdk \<Rightarrow> ump_token \<Rightarrow> string \<Rightarrow> chain_error + int list" where
  "derive_for sdk t password = derivePasswordKey sdk (passwordSalt t) (passwordKdf t) password"

text \<open>The settings as the object that is stringified: only the defined ones, in this order.\<close>

definition kdf_params :: "kdf_config \<Rightarrow> json" where
  "kdf_params c = JObj (List.map_filter (\<lambda>(k, v). map_option (\<lambda>j. (k, j)) v)
     [(''iterations'', kdf_iterations c), (''memoryKiB'', kdf_memoryKiB c),
      (''parallelism'', kdf_parallelism c), (''hashLength'', kdf_hashLength c)])"

definition kdf_from :: "string \<Rightarrow> json \<Rightarrow> kdf_config" where
  "kdf_from algorithm j = \<lparr>kdf_algorithm = algorithm, kdf_iterations = json_field j ''iterations'',
     kdf_memoryKiB = json_field j ''memoryKiB'', kdf_parallelism = json_field j ''parallelism'',
     kdf_hashLength = json_field j ''hashLength''\<rparr>"

definition standard_fields :: "ump_token \<Rightarrow> int list list" where
  "standard_fields t = [passwordSalt t, passwordPresentationPrimary t, passwordRecoveryPrimary t,
     presentationRecoveryPrimary t, passwordPrimaryPrivileged t, presentationRecoveryPrivileged t,
     presentationHash t, recoveryHash t, presentationKeyEncrypted t, passwordKeyEncrypted t, recoveryKeyEncrypted t]"

text \<open>A token from its standard fields in this order, and the rest.\<close>

definition token_of :: "int list list \<Rightarrow> int list option \<Rightarrow> int option \<Rightarrow> kdf_config option \<Rightarrow> string option \<Rightarrow> ump_token" where
  "token_of fs profiles v kdf outpoint =
     \<lparr>passwordPresentationPrimary = fs ! 1, passwordRecoveryPrimary = fs ! 2,
      presentationRecoveryPrimary = fs ! 3, passwordPrimaryPrivileged = fs ! 4,
      presentationRecoveryPrivileged = fs ! 5, presentationHash = fs ! 6, passwordSalt = fs ! 0,
      recoveryHash = fs ! 7, presentationKeyEncrypted = fs ! 8, recoveryKeyEncrypted = fs ! 10,
      passwordKeyEncrypted = fs ! 9, profilesEncrypted = profiles, umpVersion = v, passwordKdf = kdf,
      currentOutpoint = outpoint\<rparr>"

section \<open>Published fields\<close>

definition tokenFields :: "key_sdk \<Rightarrow> ump_token \<Rightarrow> int list list" where
  "tokenFields sdk t = standard_fields t
     @ (case profilesEncrypted t of None \<Rightarrow> [] | Some p \<Rightarrow> [p])
     @ (case (umpVersion t, passwordKdf t) of
          (Some v, Some c) \<Rightarrow> if v = 3 then [[v], ks_utf8 sdk (kdf_algorithm c), ks_json_bytes sdk (kdf_params c)] else []
        | _ \<Rightarrow> [])"

definition findKdfVersionFieldIndex :: "int list list \<Rightarrow> int" where
  "findKdfVersionFieldIndex fs =
     (if length fs \<ge> 15 \<and> fs ! 12 = [3] then 12
      else if length fs \<ge> 14 \<and> fs ! 11 = [3] then 11 else - 1)"

definition addProfilesField :: "ump_token \<Rightarrow> int list list \<Rightarrow> int \<Rightarrow> ump_token option" where
  "addProfilesField t fs i =
     (if \<not> (i = 12 \<or> i \<noteq> 11 \<and> 11 < length fs) \<or> fs ! 11 = [] then Some t
      else if int (length (fs ! 11)) > max_snapshot_bytes then None
      else Some (t\<lparr>profilesEncrypted := Some (fs ! 11)\<rparr>))"

text \<open>An unreadable text makes \<open>JSON.parse\<close> throw, a \<open>null\<close> makes the field reads throw; \<open>parseOutput\<close> catches
  both and drops the output.\<close>

definition addPasswordKdf :: "key_sdk \<Rightarrow> ump_token \<Rightarrow> int list list \<Rightarrow> int \<Rightarrow> ump_token option" where
  "addPasswordKdf sdk t fs i =
     (if i = - 1 then Some t
      else let k = nat i in
        if \<not> k + 2 < length fs \<or> 1024 < length (fs ! (k + 2)) then None
        else case ks_json_parse sdk (fs ! (k + 2)) of None \<Rightarrow> None | Some j \<Rightarrow>
          if j = JNull then None
          else let c = kdf_from (ks_text sdk (fs ! (k + 1))) j in
            if isValidKdfConfig (Some c) then Some (t\<lparr>umpVersion := Some 3, passwordKdf := Some c\<rparr>) else None)"

text \<open>The decoder of the SDK is called with the field counts 12, 13, 15 and 16; \<open>decoded\<close> is what it found in the
  script. The signature at the end of the decoded fields: \<open>verify data signature\<close> is parsing the signature and checking it
  with the script's key, false when either throws.\<close>

definition isLikelyDerSignatureField :: "int list \<Rightarrow> bool" where
  "isLikelyDerSignatureField f = (8 \<le> length f \<and> length f \<le> 80 \<and> f ! 0 = 48 \<and> f ! 1 = int (length f) - 2)"

definition stripVerifiedPushDropSignature :: "(int list \<Rightarrow> int list \<Rightarrow> bool) \<Rightarrow> int list list \<Rightarrow> int list list" where
  "stripVerifiedPushDropSignature verify fs =
     (if length fs \<le> 11 \<or> \<not> isLikelyDerSignatureField (last fs) \<or> \<not> verify (concat (butlast fs)) (last fs)
      then fs else butlast fs)"

definition decodeAuthenticatedUMPFields :: "(int list \<Rightarrow> int list \<Rightarrow> bool) \<Rightarrow> int list list \<Rightarrow> chain_error + int list list" where
  "decodeAuthenticatedUMPFields verify decoded =
     (let fs = stripVerifiedPushDropSignature verify decoded; i = findKdfVersionFieldIndex fs in
      if length decoded \<notin> set [12, 13, 15, 16] then Inl (JsError ''PushDrop field count'')
      else if length fs \<noteq> length decoded - 1 then Inl (JsError ''UMP token field signature is missing or invalid'')
      else if i = - 1 \<and> length fs > 12 \<or> i = 11 \<and> length fs \<noteq> 14 \<or> i = 12 \<and> length fs \<noteq> 15
        then Inl (JsError ''UMP token field layout is invalid'')
      else Inr fs)"

text \<open>\<open>parseOutput\<close> from the authenticated fields on; \<open>outpoint\<close> is the position of the output.\<close>

definition parseOutput :: "key_sdk \<Rightarrow> int list list \<Rightarrow> string \<Rightarrow> ump_token option" where
  "parseOutput sdk fs outpoint =
     (if length fs < 11 \<or> list_ex (\<lambda>f. f = [] \<or> int (length f) > max_snapshot_bytes) (take 11 fs) then None
      else let i = findKdfVersionFieldIndex fs;
        t = token_of fs None None None (Some outpoint) in
        if length (presentationHash t) \<noteq> 32 \<or> length (recoveryHash t) \<noteq> 32 then None
        else case addProfilesField t fs i of None \<Rightarrow> None | Some t1 \<Rightarrow> addPasswordKdf sdk t1 fs i)"

section \<open>Binary form\<close>

definition write_array :: "key_sdk \<Rightarrow> int list \<Rightarrow> int list" where
  "write_array sdk a = ks_varint sdk (int (length a)) @ a"

definition serializeUMPToken :: "key_sdk \<Rightarrow> ump_token \<Rightarrow> chain_error + int list" where
  "serializeUMPToken sdk t = (case currentOutpoint t of
     None \<Rightarrow> Inl (JsError ''Token must have outpoint for serialization'')
   | Some o1 \<Rightarrow> if o1 = [] then Inl (JsError ''Token must have outpoint for serialization'') else
       let meta = (if umpVersion t = Some 3 then passwordKdf t else None) in
       Inr ((if meta \<noteq> None then 3 else 2) # concat (map (write_array sdk) (standard_fields t))
         @ (case profilesEncrypted t of
              None \<Rightarrow> [0]
            | Some p \<Rightarrow> if p = [] then [0] else 1 # write_array sdk p)
         @ (case meta of
              Some c \<Rightarrow> 1 # 3 # write_array sdk (ks_utf8 sdk (kdf_algorithm c)) @ write_array sdk (ks_json_bytes sdk (kdf_params c))
            | None \<Rightarrow> [])
         @ write_array sdk (ks_utf8 sdk o1)))"

text \<open>Reading. \<open>readUInt8\<close> at the end of the data gives \<open>undefined\<close>, which no version or flag equals; it is read
  as the number -1 here.\<close>

fun read_u8 :: "int list \<Rightarrow> int \<times> int list" where
  "read_u8 [] = (- 1, [])"
| "read_u8 (b # r) = (b, r)"

definition read_array :: "key_sdk \<Rightarrow> int list \<Rightarrow> chain_error + int list \<times> int list" where
  "read_array sdk bin = (case ks_read_varint sdk bin of
     None \<Rightarrow> Inl (JsError ''varint'')
   | Some (n, r) \<Rightarrow>
       if n \<le> 0 \<or> n > max_snapshot_bytes then Inl (JsError ''UMP token field exceeds allowed bounds.'')
       else Inr (ks_read sdk (nat n) r))"

fun read_arrays :: "key_sdk \<Rightarrow> nat \<Rightarrow> int list \<Rightarrow> chain_error + int list list \<times> int list" where
  "read_arrays sdk 0 bin = Inr ([], bin)"
| "read_arrays sdk (Suc n) bin = and_then (read_array sdk bin)
     (\<lambda>(a, r). and_then (read_arrays sdk n r) (\<lambda>(as, r'). Inr (a # as, r')))"

definition read_kdf :: "key_sdk \<Rightarrow> int list \<Rightarrow> chain_error + (int option \<times> kdf_config option) \<times> int list" where
  "read_kdf sdk bin = (let (flag, r) = read_u8 bin in
     if flag \<noteq> 1 then Inr ((None, None), r)
     else let (v, r1) = read_u8 r in
       and_then (read_array sdk r1) (\<lambda>(algorithm, r2).
       and_then (read_array sdk r2) (\<lambda>(params, r3).
       case ks_json_parse sdk params of
         None \<Rightarrow> Inl (JsError ''JSON'')
       | Some j \<Rightarrow>
           if j = JNull then Inl (JsTypeError ''kdfParams is null'')
           else let c = kdf_from (ks_text sdk algorithm) j in
             if isValidKdfConfig (Some c) then Inr ((Some v, Some c), r3)
             else Inl (JsError ''Serialized UMP token contains unsupported or unsafe KDF parameters.''))))"

text \<open>The test \<open>/^[^\s.:]+[.:]\d+$/\<close> with at most 128 characters.\<close>

definition outpoint_text_ok :: "string \<Rightarrow> bool" where
  "outpoint_text_ok s = (length s \<le> 128
     \<and> (let h = takeWhile (\<lambda>c. \<not> js_space c \<and> c \<noteq> CHR ''.'' \<and> c \<noteq> CHR '':'') s;
            r = drop (length h) s in
        h \<noteq> [] \<and> (case r of [] \<Rightarrow> False | c # ds \<Rightarrow> (c = CHR ''.'' \<or> c = CHR '':'') \<and> ds \<noteq> [] \<and> list_all js_digit ds)))"

definition deserializeUMPToken :: "key_sdk \<Rightarrow> int list \<Rightarrow> chain_error + ump_token" where
  "deserializeUMPToken sdk bin = (let (v, r) = read_u8 bin in
     if v \<noteq> 1 \<and> v \<noteq> 2 \<and> v \<noteq> 3 then Inl (JsError ''Unsupported UMP token serialization version'')
     else and_then (read_arrays sdk 11 r) (\<lambda>(fs, r1).
       and_then (if v \<ge> 2 then (let (flag, q) = read_u8 r1 in
           if flag = 1 then and_then (read_array sdk q) (\<lambda>(p, q'). Inr (Some p, q')) else Inr (None, q))
         else Inr (None, r1)) (\<lambda>(profiles, r2).
       and_then (if v = 3 then read_kdf sdk r2 else Inr ((None, None), r2)) (\<lambda>((version, kdf), r3).
       case ks_read_varint sdk r3 of
         None \<Rightarrow> Inl (JsError ''varint'')
       | Some (n, r4) \<Rightarrow>
           let text = ks_text sdk (fst (ks_read sdk (nat n) r4)) in
           if \<not> outpoint_text_ok text then Inl (JsError ''Serialized UMP token contains an invalid outpoint.'')
           else Inr (token_of fs profiles version kdf (Some text))))))"

section \<open>Well-formed tokens\<close>

text \<open>What a token that the manager publishes looks like: no empty and no oversized field, hashes of 32 bytes, and
  either no key-derivation settings (a legacy token) or valid ones of version 3.\<close>

definition field_ok :: "int list \<Rightarrow> bool" where
  "field_ok f = (f \<noteq> [] \<and> int (length f) \<le> max_snapshot_bytes)"

definition token_ok :: "key_sdk \<Rightarrow> ump_token \<Rightarrow> bool" where
  "token_ok sdk t = (list_all field_ok (standard_fields t)
     \<and> length (presentationHash t) = 32 \<and> length (recoveryHash t) = 32
     \<and> (case profilesEncrypted t of None \<Rightarrow> True | Some p \<Rightarrow> field_ok p)
     \<and> (case passwordKdf t of
          None \<Rightarrow> umpVersion t = None
        | Some c \<Rightarrow> umpVersion t = Some 3 \<and> isValidKdfConfig (Some c)
            \<and> field_ok (ks_utf8 sdk (kdf_algorithm c)) \<and> length (ks_json_bytes sdk (kdf_params c)) \<le> 1024))"

lemma sdk_okD:
  assumes "sdk_ok sdk"
  shows "ks_decrypt sdk k (ks_encrypt sdk k iv m) = Some m" "ks_encrypt sdk k iv m \<noteq> []"
    "ks_unwrap sdk pk (ks_wrap sdk pk iv m) = Some m" "ks_wrap sdk pk iv m \<noteq> []"
    "length (ks_key_bytes sdk (ks_key_of sdk b)) \<le> 32" "list_all is_byte (ks_key_bytes sdk (ks_key_of sdk b))"
    "ks_key_of sdk (replicate nn 0 @ ks_key_bytes sdk (ks_key_of sdk b)) = ks_key_of sdk b"
    "ks_text sdk (ks_utf8 sdk s) = s" "ks_utf8 sdk s = [] \<longleftrightarrow> s = []"
    "ks_json_parse sdk (ks_json_bytes sdk v) = Some v" "ks_json_bytes sdk v \<noteq> []"
    "0 \<le> n \<Longrightarrow> ks_read_varint sdk (ks_varint sdk n @ r) = Some (n, r)"
    "ks_read sdk (length b) (b @ r) = (b, r)"
    "0 \<le> n \<Longrightarrow> length (ks_pbkdf2 sdk b c n 32) = 32"
    "0 < n \<Longrightarrow> length (ks_argon2id sdk b c i1 i2 i3 n) = nat n"
    "0 \<le> n \<Longrightarrow> list_all is_byte (ks_pbkdf2 sdk b c n 32)"
    "0 < n \<Longrightarrow> list_all is_byte (ks_argon2id sdk b c i1 i2 i3 n)"
  using assms by (simp_all add: sdk_ok_def)

lemma map_filter_Cons: "List.map_filter f (x # xs) = (case f x of None \<Rightarrow> [] | Some y \<Rightarrow> [y]) @ List.map_filter f xs"
  by (simp add: List.map_filter_def split: option.split)

lemma map_filter_Nil: "List.map_filter f [] = []"
  by (simp add: List.map_filter_def)

lemma kdf_params_fields:
  "json_field (kdf_params c) ''iterations'' = kdf_iterations c" "json_field (kdf_params c) ''memoryKiB'' = kdf_memoryKiB c"
  "json_field (kdf_params c) ''parallelism'' = kdf_parallelism c" "json_field (kdf_params c) ''hashLength'' = kdf_hashLength c"
  by (simp_all add: kdf_params_def map_filter_Cons map_filter_Nil map_add_def split: option.split)

lemma kdf_from_params: "kdf_from (kdf_algorithm c) (kdf_params c) = c"
  by (simp add: kdf_from_def kdf_params_fields)

lemma token_of_standard:
  "token_of (standard_fields t) (profilesEncrypted t) (umpVersion t) (passwordKdf t) (currentOutpoint t) = t"
  by (simp add: token_of_def standard_fields_def)

lemma kdf_params_object: "kdf_params c \<noteq> JNull"
  by (simp add: kdf_params_def)

section \<open>Reading back\<close>

lemma read_array_write:
  assumes "sdk_ok sdk" "field_ok f"
  shows "read_array sdk (write_array sdk f @ r) = Inr (f, r)"
proof -
  have "0 < length f" using assms(2) by (simp add: field_ok_def)
  then show ?thesis
    using assms(2) sdk_okD(12) [OF assms(1), of "int (length f)"] sdk_okD(13) [OF assms(1)]
    by (simp add: read_array_def write_array_def field_ok_def)
qed

lemma read_arrays_write:
  assumes "sdk_ok sdk" "list_all field_ok fs"
  shows "read_arrays sdk (length fs) (concat (map (write_array sdk) fs) @ r) = Inr (fs, r)"
  using assms(2) by (induction fs) (simp_all add: read_array_write [OF assms(1)])

lemma read_kdf_write:
  assumes sdk: "sdk_ok sdk" and c: "isValidKdfConfig (Some c)" "field_ok (ks_utf8 sdk (kdf_algorithm c))"
    "length (ks_json_bytes sdk (kdf_params c)) \<le> 1024"
  shows "read_kdf sdk (1 # 3 # write_array sdk (ks_utf8 sdk (kdf_algorithm c)) @ write_array sdk (ks_json_bytes sdk (kdf_params c)) @ r)
    = Inr ((Some 3, Some c), r)"
proof -
  have "field_ok (ks_json_bytes sdk (kdf_params c))"
    using c(3) sdk_okD(11) [OF sdk] by (simp add: field_ok_def)
  then show ?thesis
    using c sdk_okD(8,10) [OF sdk]
    by (simp add: read_kdf_def read_array_write [OF sdk] kdf_params_object kdf_from_params)
qed

lemma snapshot_roundtrip:
  assumes sdk: "sdk_ok sdk" and t: "token_ok sdk t" and o1: "currentOutpoint t = Some o1" "outpoint_text_ok o1"
  shows "and_then (serializeUMPToken sdk t) (deserializeUMPToken sdk) = Inr t"
proof -
  have ne: "o1 \<noteq> []" using o1(2) by (auto simp: outpoint_text_ok_def Let_def)
  have fs: "list_all field_ok (standard_fields t)" "length (standard_fields t) = 11"
    using t by (simp_all add: token_ok_def standard_fields_def)
  note arrays = read_arrays_write [OF sdk fs(1), unfolded fs(2)]
  have tail: "ks_read_varint sdk (write_array sdk (ks_utf8 sdk o1)) = Some (int (length (ks_utf8 sdk o1)), ks_utf8 sdk o1)"
    by (simp add: write_array_def sdk_okD(12) [OF sdk])
  have rd: "ks_read sdk (length (ks_utf8 sdk o1)) (ks_utf8 sdk o1) = (ks_utf8 sdk o1, [])"
    using sdk_okD(13) [OF sdk, of "ks_utf8 sdk o1" "[]"] by simp
  have pr: "p \<noteq> []" if "field_ok p" for p using that by (simp add: field_ok_def)
  note of_t = token_of_standard [of t, unfolded o1(1)]
  show ?thesis
  proof (cases "passwordKdf t")
    case None
    then have v: "umpVersion t = None" using t by (simp add: token_ok_def)
    show ?thesis
      using t o1 ne None v of_t
      by (cases "profilesEncrypted t")
        (simp_all add: serializeUMPToken_def deserializeUMPToken_def pr arrays tail rd sdk_okD(8) [OF sdk]
          read_array_write [OF sdk] token_ok_def)
  next
    case (Some c)
    then have v: "umpVersion t = Some 3" and c: "isValidKdfConfig (Some c)" "field_ok (ks_utf8 sdk (kdf_algorithm c))"
        "length (ks_json_bytes sdk (kdf_params c)) \<le> 1024"
      using t by (simp_all add: token_ok_def)
    show ?thesis
      using t o1 ne Some v of_t
      by (cases "profilesEncrypted t")
        (simp_all add: serializeUMPToken_def deserializeUMPToken_def pr arrays tail rd sdk_okD(8) [OF sdk]
          read_array_write [OF sdk] read_kdf_write [OF sdk c] token_ok_def)
  qed
qed

section \<open>Publishing and finding a token\<close>

lemma findKdfVersionFieldIndex_fields:
  "findKdfVersionFieldIndex (tokenFields sdk t) = (case (umpVersion t, passwordKdf t) of
     (Some v, Some c) \<Rightarrow> if v = 3 then (if profilesEncrypted t = None then 11 else 12) else - 1
   | _ \<Rightarrow> - 1)"
  by (simp add: findKdfVersionFieldIndex_def tokenFields_def standard_fields_def split: option.split)

lemma signature_stripped:
  assumes "verify (concat fs) sig" "isLikelyDerSignatureField sig" "11 \<le> length fs"
  shows "stripVerifiedPushDropSignature verify (fs @ [sig]) = fs"
  using assms by (simp add: stripVerifiedPushDropSignature_def)

lemma publication_roundtrip:
  assumes sdk: "sdk_ok sdk" and t: "token_ok sdk t"
    and sig: "verify (concat (tokenFields sdk t)) sig" "isLikelyDerSignatureField sig"
  shows "decodeAuthenticatedUMPFields verify (tokenFields sdk t @ [sig]) = Inr (tokenFields sdk t)"
    "parseOutput sdk (tokenFields sdk t) outpoint = Some (t\<lparr>currentOutpoint := Some outpoint\<rparr>)"
proof -
  let ?fs = "tokenFields sdk t"
  have len: "length ?fs = 11 + (if profilesEncrypted t = None then 0 else 1) + (if passwordKdf t = None then 0 else 3)"
    using t by (auto simp: tokenFields_def standard_fields_def token_ok_def split: option.splits)
  have strip: "stripVerifiedPushDropSignature verify (?fs @ [sig]) = ?fs"
    by (rule signature_stripped) (use sig in \<open>simp_all add: len\<close>)
  have idx: "findKdfVersionFieldIndex ?fs = (if passwordKdf t = None then - 1 else if profilesEncrypted t = None then 11 else 12)"
    using t by (auto simp: findKdfVersionFieldIndex_fields token_ok_def split: option.splits)
  show "decodeAuthenticatedUMPFields verify (?fs @ [sig]) = Inr ?fs"
    by (simp add: decodeAuthenticatedUMPFields_def strip idx len Let_def)
  have big: "list_ex (\<lambda>f. f = [] \<or> int (length f) > max_snapshot_bytes) (standard_fields t) = False"
    using t unfolding token_ok_def by (auto simp: list_ex_iff list_all_iff field_ok_def)
  have take: "take 11 ?fs = standard_fields t" by (simp add: tokenFields_def standard_fields_def)
  have std: "token_of ?fs None None None (Some outpoint)
      = t\<lparr>profilesEncrypted := None, umpVersion := None, passwordKdf := None, currentOutpoint := Some outpoint\<rparr>"
    by (simp add: token_of_def tokenFields_def standard_fields_def)
  have h: "length (presentationHash t) = 32" "length (recoveryHash t) = 32" using t by (simp_all add: token_ok_def)
  have prof: "addProfilesField (t\<lparr>profilesEncrypted := None, umpVersion := None, passwordKdf := None, currentOutpoint := Some outpoint\<rparr>)
        ?fs (findKdfVersionFieldIndex ?fs)
      = Some (t\<lparr>umpVersion := None, passwordKdf := None, currentOutpoint := Some outpoint\<rparr>)"
  proof (cases "profilesEncrypted t")
    case None
    then show ?thesis by (simp add: addProfilesField_def idx len)
  next
    case (Some p)
    then have p: "field_ok p" using t by (simp add: token_ok_def)
    have "?fs ! 11 = p" using Some by (simp add: tokenFields_def standard_fields_def)
    then show ?thesis using p Some by (simp add: addProfilesField_def idx len field_ok_def)
  qed
  have kdf: "addPasswordKdf sdk (t\<lparr>umpVersion := None, passwordKdf := None, currentOutpoint := Some outpoint\<rparr>) ?fs
      (findKdfVersionFieldIndex ?fs) = Some (t\<lparr>currentOutpoint := Some outpoint\<rparr>)"
  proof (cases "passwordKdf t")
    case None
    then have "umpVersion t = None" using t by (simp add: token_ok_def)
    then show ?thesis using None by (simp add: addPasswordKdf_def idx)
  next
    case (Some c)
    then have c: "umpVersion t = Some 3" "isValidKdfConfig (Some c)" "length (ks_json_bytes sdk (kdf_params c)) \<le> 1024"
      using t by (simp_all add: token_ok_def)
    let ?k = "if profilesEncrypted t = None then 11 else 12 :: nat"
    have f: "?fs ! (?k + 1) = ks_utf8 sdk (kdf_algorithm c)" "?fs ! (?k + 2) = ks_json_bytes sdk (kdf_params c)"
      using Some c(1) by (auto simp: tokenFields_def standard_fields_def)
    have i: "nat (findKdfVersionFieldIndex ?fs) = ?k" "findKdfVersionFieldIndex ?fs \<noteq> - 1" using Some by (simp_all add: idx)
    show ?thesis
      using Some c f i(2) sdk_okD(8,10) [OF sdk]
      by (auto simp: addPasswordKdf_def i(1) len kdf_params_object kdf_from_params Let_def)
  qed
  show "parseOutput sdk ?fs outpoint = Some (t\<lparr>currentOutpoint := Some outpoint\<rparr>)"
    using prof kdf h unfolding parseOutput_def take big std Let_def by (simp add: len)
qed

section \<open>Exclusive or\<close>

lemma js_i32_sint: "js_i32 (sint w) = w"
  by (simp add: js_i32_def)

lemma byte_sint: "is_byte a \<Longrightarrow> sint (js_i32 a) = a"
  by (simp add: js_i32_def is_byte_def signed_take_bit_int_eq_self sint_sbintrunc')

lemma js_xor_cancel: "is_byte a \<Longrightarrow> js_xor (js_xor a b) b = a"
  by (simp add: js_xor_def js_i32_sint byte_sint xor.assoc)

lemma js_xor_commute: "js_xor a b = js_xor b a"
  by (simp add: js_xor_def xor.commute)

lemma js_xor_byte: "is_byte a \<Longrightarrow> is_byte b \<Longrightarrow> is_byte (js_xor a b)"
proof -
  assume ab: "is_byte a" "is_byte b"
  have "js_i32 a XOR js_i32 b = word_of_int (a XOR b)" by (simp add: js_i32_def of_int_xor_eq)
  moreover have "0 \<le> a XOR b" "a XOR b < 2 ^ 8"
    using ab XOR_upper [of a 8 b] by (auto simp: is_byte_def)
  moreover from this have "signed_take_bit 31 (a XOR b) = a XOR b"
    by (intro signed_take_bit_int_eq_self) (simp_all del: xor_nonnegative_int_iff)
  ultimately show ?thesis by (simp add: js_xor_def is_byte_def sint_sbintrunc' del: xor_nonnegative_int_iff)
qed

text \<open>The keys of the scheme are 32 bytes.\<close>

definition key32 :: "int list \<Rightarrow> bool" where
  "key32 k = (length k = 32 \<and> list_all is_byte k)"

lemma XOR_bytes_Inr: "length a = length b \<Longrightarrow> XOR_bytes a b = Inr (map2 js_xor a b)"
  by (simp add: XOR_bytes_def)

lemma XOR_bytes_commute: "XOR_bytes a b = XOR_bytes b a"
proof -
  have "map2 js_xor a b = map2 js_xor b a" if "length a = length b"
    using that by (induction a b rule: list_induct2) (simp_all add: js_xor_commute)
  then show ?thesis by (auto simp: XOR_bytes_def ensure_def)
qed

lemma XOR_bytes_key32: "key32 a \<Longrightarrow> key32 b \<Longrightarrow> \<exists>c. XOR_bytes a b = Inr c \<and> key32 c"
proof -
  have "list_all is_byte (map2 js_xor a b)" if "length a = length b" "list_all is_byte a" "list_all is_byte b"
    using that by (induction a b rule: list_induct2) (simp_all add: js_xor_byte)
  then show "key32 a \<Longrightarrow> key32 b \<Longrightarrow> \<exists>c. XOR_bytes a b = Inr c \<and> key32 c"
    by (simp add: XOR_bytes_def key32_def)
qed

lemma XOR_bytes_cancel: "key32 a \<Longrightarrow> XOR_bytes a b = Inr c \<Longrightarrow> XOR_bytes c b = Inr a"
proof -
  have "map2 js_xor (map2 js_xor a b) b = a" if "length a = length b" "list_all is_byte a"
    using that by (induction a b rule: list_induct2) (simp_all add: js_xor_cancel)
  moreover assume "key32 a" and c: "XOR_bytes a b = Inr c"
  moreover have "length c = length b" using c by (auto simp: XOR_bytes_def)
  ultimately show "XOR_bytes c b = Inr a"
    by (auto simp: XOR_bytes_def key32_def)
qed

lemma setting_pos: "isPositiveIntegerInRange v m \<Longrightarrow> 0 < setting v d"
  by (cases "(v, m)" rule: isPositiveIntegerInRange.cases) auto

lemma derivePasswordKey_length:
  assumes "sdk_ok sdk" "derivePasswordKey sdk salt kdf pw = Inr k"
  shows "length k = (case kdf of None \<Rightarrow> 32
    | Some c \<Rightarrow> if kdf_algorithm c = pbkdf2_name then 32 else nat (setting (kdf_hashLength c) 32))" "list_all is_byte k"
proof -
  note lens = sdk_okD(14-17) [OF assms(1)]
  show "length k = (case kdf of None \<Rightarrow> 32
    | Some c \<Rightarrow> if kdf_algorithm c = pbkdf2_name then 32 else nat (setting (kdf_hashLength c) 32))" "list_all is_byte k"
  proof (atomize (full), cases kdf)
    case None
    then show "length k = (case kdf of None \<Rightarrow> 32
      | Some c \<Rightarrow> if kdf_algorithm c = pbkdf2_name then 32 else nat (setting (kdf_hashLength c) 32)) \<and> list_all is_byte k"
      using assms(2) lens by (auto simp: derivePasswordKey_def)
  next
    case (Some c)
    show "length k = (case kdf of None \<Rightarrow> 32
      | Some c \<Rightarrow> if kdf_algorithm c = pbkdf2_name then 32 else nat (setting (kdf_hashLength c) 32)) \<and> list_all is_byte k"
    proof (cases "kdf_algorithm c = pbkdf2_name")
      case True
      then have "0 \<le> setting (kdf_iterations c) 7777"
        using assms(2) Some setting_pos [of "kdf_iterations c" "10000000" 7777]
        by (auto simp: derivePasswordKey_def isValidKdfConfig_def split: if_splits)
      then show ?thesis
        using assms(2) Some True lens by (auto simp: derivePasswordKey_def split: if_splits)
    next
      case False
      then have "kdf_algorithm c = argon2id_name" "0 < setting (kdf_hashLength c) 32"
        using assms(2) Some setting_pos [of "kdf_hashLength c" 64 32]
        by (auto simp: derivePasswordKey_def isValidKdfConfig_def split: if_splits)
      then show ?thesis
        using assms(2) Some lens by (auto simp: derivePasswordKey_def split: if_splits)
    qed
  qed
qed

end
