(* ===== verification/Key_Manager.thy ===== *)
theory Key_Manager
  imports Ump_Token
begin

text \<open>
  The key manager of \<open>packages/wallet-engine/src/CWIStyleWalletManager.ts\<close> and the privileged key store of
  \<open>sdk/PrivilegedKeyManager.ts\<close>. Two of three factors (presentation key, password, recovery key) open an account;
  its root keys, its factors and its profiles are kept encrypted in a UMP token that is published on the chain.
  An operation takes the manager and what the outside world answers during the call (\<open>key_env\<close>) and returns
  the manager with its answer or error, since a throw does not undo what was assigned. Calls do not overlap,
  and the timer that forgets the privileged key (\<open>destroyKey\<close>) fires between calls. Telemetry is left out.
\<close>

section \<open>Sequencing with a state\<close>

fun then_do :: "'s \<times> (chain_error + 'a) \<Rightarrow> ('s \<Rightarrow> 'a \<Rightarrow> 's \<times> (chain_error + 'b)) \<Rightarrow> 's \<times> (chain_error + 'b)" where
  "then_do (s, Inl e) f = (s, Inl e)"
| "then_do (s, Inr x) f = f s x"

lemma then_do_Inr: "then_do r f = (s', Inr y) \<longleftrightarrow> (\<exists>s x. r = (s, Inr x) \<and> f s x = (s', Inr y))"
  by (cases "(r, f)" rule: then_do.cases) auto

section \<open>The privileged key store\<close>

text \<open>The key is kept as chunks that are xored with random pads. \<open>pm_oneTime\<close> is the key that a recovery left for the
  first use. The random property names under which the code stores the chunks are taken to be different.\<close>

record privileged_manager =
  pm_chunks :: "int list list"
  pm_pads :: "int list list"
  pm_oneTime :: "int option"

definition splitKeyIntoChunks :: "int list \<Rightarrow> int list list" where
  "splitKeyIntoChunks b = (let n = length b div 4 in
     [byte_slice 0 n b, byte_slice n n b, byte_slice (2 * n) n b, byte_slice (3 * n) (length b - 3 * n) b])"

definition reassembleKeyFromChunks :: "privileged_manager \<Rightarrow> int list option" where
  "reassembleKeyFromChunks pm =
     (if length (pm_pads pm) < length (pm_chunks pm)
         \<or> \<not> list_all2 (\<lambda>c p. length c = length p) (pm_chunks pm) (take (length (pm_chunks pm)) (pm_pads pm)) then None
      else let raw = concat (map2 (map2 js_xor) (pm_chunks pm) (pm_pads pm)) in
        if length raw = 32 then Some raw else None)"

definition get32ByteRepresentation :: "key_sdk \<Rightarrow> int \<Rightarrow> chain_error + int list" where
  "get32ByteRepresentation sdk k = (let buf = ks_key_bytes sdk k in
     if length buf > 32 then Inl (JsError ''PrivilegedKeyManager: Expected a 32-byte key, but got more.'')
     else Inr (replicate (32 - length buf) 0 @ buf))"

definition destroyKey :: "privileged_manager \<Rightarrow> privileged_manager" where
  "destroyKey pm = pm\<lparr>pm_chunks := [], pm_pads := []\<rparr>"

definition store_key :: "(nat \<Rightarrow> nat \<Rightarrow> int list) \<Rightarrow> int list \<Rightarrow> privileged_manager \<Rightarrow> privileged_manager" where
  "store_key random b pm = (let cs = splitKeyIntoChunks b; ps = map (\<lambda>i. random (20 + i) (length (cs ! i))) [0..<length cs] in
     pm\<lparr>pm_chunks := map2 (map2 js_xor) cs ps, pm_pads := ps\<rparr>)"

section \<open>State and environment\<close>

datatype auth_mode = PresentationPassword | PresentationRecovery | RecoveryPassword

datatype auth_flow = UnknownFlow | NewUser | ExistingUser

record wallet_profile =
  wp_name :: string
  wp_id :: "int list"
  wp_primaryPad :: "int list"
  wp_privilegedPad :: "int list"
  wp_createdAt :: int

text \<open>What \<open>walletBuilder\<close> is called with: the profile's primary key, the pad its privileged keys are made with, its id.\<close>

record built_wallet =
  bw_primaryKey :: "int list"
  bw_privilegedPad :: "int list option"
  bw_profileId :: "int list"

record key_manager =
  km_authenticated :: bool
  km_mode :: auth_mode
  km_flow :: auth_flow
  km_token :: "ump_token option"
  km_presentationKey :: "int list option"
  km_recoveryKey :: "int list option"
  km_rootPrimaryKey :: "int list option"
  km_activeProfileId :: "int list"
  km_profiles :: "wallet_profile list"
  km_underlying :: "built_wallet option"
  km_privileged :: "privileged_manager option"

text \<open>The answers during one call: the \<open>i\<close>-th random draw of \<open>n\<close> bytes (start vectors included), the password
  the user types or none, whether \<open>walletBuilder\<close> succeeds, the two token lookups, the publication of a token
  (with the token it spends), whether the recovery key was saved, whether the funder succeeds, and the clock.\<close>

record key_env =
  ke_random :: "nat \<Rightarrow> nat \<Rightarrow> int list"
  ke_password :: "string option"
  ke_build :: "built_wallet \<Rightarrow> bool"
  ke_byPresentation :: "int list \<Rightarrow> chain_error + ump_token option"
  ke_byRecovery :: "int list \<Rightarrow> chain_error + ump_token option"
  ke_publish :: "ump_token \<Rightarrow> ump_token option \<Rightarrow> chain_error + string"
  ke_saved :: bool
  ke_funded :: bool
  ke_now :: int

abbreviation DEFAULT_PROFILE_ID :: "int list" where
  "DEFAULT_PROFILE_ID \<equiv> replicate 16 0"

definition fresh_manager :: "auth_mode \<Rightarrow> key_manager" where
  "fresh_manager mode = \<lparr>km_authenticated = False, km_mode = mode, km_flow = UnknownFlow, km_token = None,
     km_presentationKey = None, km_recoveryKey = None, km_rootPrimaryKey = None,
     km_activeProfileId = DEFAULT_PROFILE_ID, km_profiles = [], km_underlying = None, km_privileged = None\<rparr>"

definition destroy :: "key_manager \<Rightarrow> key_manager" where
  "destroy s = fresh_manager PresentationPassword"

text \<open>The settings of the constructor with their defaults (\<open>??\<close> also replaces \<open>null\<close>).\<close>

definition or_default :: "json option \<Rightarrow> int \<Rightarrow> json option" where
  "or_default v d = (case v of None \<Rightarrow> Some (JNum d) | Some JNull \<Rightarrow> Some (JNum d) | _ \<Rightarrow> v)"

definition constructor_kdf :: "string option \<Rightarrow> kdf_config \<Rightarrow> chain_error + kdf_config" where
  "constructor_kdf algorithm c = (let a = (case algorithm of None \<Rightarrow> argon2id_name | Some x \<Rightarrow> x);
     k = \<lparr>kdf_algorithm = a,
          kdf_iterations = or_default (kdf_iterations c) (if a = argon2id_name then 7 else 7777),
          kdf_memoryKiB = or_default (kdf_memoryKiB c) 131072,
          kdf_parallelism = or_default (kdf_parallelism c) 1,
          kdf_hashLength = or_default (kdf_hashLength c) 32\<rparr> in
     and_then (ensure (isValidKdfConfig (Some k)) (JsError ''Unsupported or unsafe KDF configuration.'')) (\<lambda>_. Inr k))"

section \<open>Profiles as JSON\<close>

definition profile_json :: "wallet_profile \<Rightarrow> json" where
  "profile_json p = JObj [(''name'', JStr (wp_name p)), (''id'', JArr (map JNum (wp_id p))),
     (''primaryPad'', JArr (map JNum (wp_primaryPad p))), (''privilegedPad'', JArr (map JNum (wp_privilegedPad p))),
     (''createdAt'', JNum (wp_createdAt p))]"

fun json_byte :: "json \<Rightarrow> bool" where
  "json_byte (JNum n) = is_byte n"
| "json_byte _ = False"

fun isByteArrayOfLength :: "json option \<Rightarrow> nat \<Rightarrow> bool" where
  "isByteArrayOfLength (Some (JArr vs)) n = (length vs = n \<and> list_all json_byte vs)"
| "isByteArrayOfLength _ n = False"

fun json_bytes :: "json option \<Rightarrow> int list" where
  "json_bytes (Some (JArr vs)) = map (\<lambda>v. case v of JNum n \<Rightarrow> n | _ \<Rightarrow> 0) vs"
| "json_bytes _ = []"

definition isValidProfile :: "json \<Rightarrow> bool" where
  "isValidProfile v =
     ((case json_field v ''name'' of Some (JStr n) \<Rightarrow> 0 < length n \<and> length n \<le> 250 | _ \<Rightarrow> False)
      \<and> isByteArrayOfLength (json_field v ''id'') 16 \<and> isByteArrayOfLength (json_field v ''primaryPad'') 32
      \<and> isByteArrayOfLength (json_field v ''privilegedPad'') 32
      \<and> (case json_field v ''createdAt'' of Some (JNum n) \<Rightarrow> 0 \<le> n | _ \<Rightarrow> False))"

text \<open>A valid value as a profile; the code keeps the parsed object itself.\<close>

definition profile_of :: "json \<Rightarrow> wallet_profile" where
  "profile_of v = \<lparr>wp_name = (case json_str (json_field v ''name'') of Some n \<Rightarrow> n | None \<Rightarrow> []),
     wp_id = json_bytes (json_field v ''id''), wp_primaryPad = json_bytes (json_field v ''primaryPad''),
     wp_privilegedPad = json_bytes (json_field v ''privilegedPad''),
     wp_createdAt = (case json_int (json_field v ''createdAt'') of Some n \<Rightarrow> n | None \<Rightarrow> 0)\<rparr>"

definition load_profiles :: "key_sdk \<Rightarrow> int list \<Rightarrow> int list \<Rightarrow> wallet_profile list option" where
  "load_profiles sdk root enc = (case ks_decrypt sdk root enc of None \<Rightarrow> None | Some b \<Rightarrow>
     case ks_json_parse sdk b of
       Some (JArr vs) \<Rightarrow> if length vs > 1000 \<or> \<not> list_all isValidProfile vs then None else Some (map profile_of vs)
     | _ \<Rightarrow> None)"

section \<open>Root keys and profiles\<close>

definition setupRoot :: "key_sdk \<Rightarrow> int list \<Rightarrow> int list option \<Rightarrow> key_manager \<Rightarrow> key_manager \<times> (chain_error + unit)" where
  "setupRoot sdk root ephemeral s = (case km_token s of
     None \<Rightarrow> (s, Inl (JsError ''A UMP token must exist before setting up root infrastructure!''))
   | Some t \<Rightarrow>
       let s1 = s\<lparr>km_rootPrimaryKey := Some root,
                  km_privileged := Some \<lparr>pm_chunks = [], pm_pads = [], pm_oneTime = map_option (ks_key_of sdk) ephemeral\<rparr>,
                  km_profiles := []\<rparr> in
       (case profilesEncrypted t of
          None \<Rightarrow> (s1\<lparr>km_authenticated := True\<rparr>, Inr ())
        | Some enc \<Rightarrow> if enc = [] then (s1\<lparr>km_authenticated := True\<rparr>, Inr ()) else
            (case load_profiles sdk root enc of
               None \<Rightarrow> (s1, Inl (JsError ''Failed to load profiles''))
             | Some ps \<Rightarrow> (s1\<lparr>km_profiles := ps, km_authenticated := True\<rparr>, Inr ()))))"

text \<open>\<open>p.id.every((x, i) => x === profileId[i])\<close>\<close>

definition id_matches :: "int list \<Rightarrow> int list \<Rightarrow> bool" where
  "id_matches i profileId = (i = take (length i) profileId)"

definition is_default :: "int list \<Rightarrow> bool" where
  "is_default profileId = list_all (\<lambda>x. x = 0) profileId"

definition switchProfile :: "key_env \<Rightarrow> int list \<Rightarrow> key_manager \<Rightarrow> key_manager \<times> (chain_error + unit)" where
  "switchProfile e profileId s =
     (case (km_rootPrimaryKey s, km_privileged s) of
        (Some root, Some _) \<Rightarrow>
          if \<not> km_authenticated s then (s, Inl (JsError ''Cannot switch profile''))
          else then_do (if is_default profileId
              then (s\<lparr>km_activeProfileId := DEFAULT_PROFILE_ID\<rparr>, Inr (root, None))
              else case find (\<lambda>p. id_matches (wp_id p) profileId) (km_profiles s) of
                  None \<Rightarrow> (s, Inl (JsError ''Profile not found.''))
                | Some p \<Rightarrow> (case XOR_bytes root (wp_primaryPad p) of
                    Inl err \<Rightarrow> (s, Inl err)
                  | Inr k \<Rightarrow> (s\<lparr>km_activeProfileId := profileId\<rparr>, Inr (k, Some (wp_privilegedPad p)))))
            (\<lambda>s1 (k, pad). let w = \<lparr>bw_primaryKey = k, bw_privilegedPad = pad, bw_profileId = km_activeProfileId s1\<rparr> in
               if ke_build e w then (s1\<lparr>km_underlying := Some w\<rparr>, Inr ()) else (s1, Inl (JsError ''walletBuilder'')))
      | _ \<Rightarrow> (s, Inl (JsError ''Cannot switch profile'')))"

text \<open>\<open>getPrivilegedKey\<close> of the root manager, with the getter that \<open>setupRoot\<close> gives it.\<close>

definition fetch_privileged :: "key_sdk \<Rightarrow> key_env \<Rightarrow> key_manager \<Rightarrow> privileged_manager \<Rightarrow> chain_error + int" where
  "fetch_privileged sdk e s pm = (case pm_oneTime pm of
     Some k \<Rightarrow> Inr k
   | None \<Rightarrow> (case (ke_password e, km_token s, km_rootPrimaryKey s) of
       (Some pw, Some t, Some root) \<Rightarrow>
         and_then (derive_for sdk t pw) (\<lambda>k.
         and_then (XOR_bytes root k) (\<lambda>d.
         case ks_decrypt sdk d (passwordPrimaryPrivileged t) of
           None \<Rightarrow> Inl (JsError ''Decryption failed!'')
         | Some b \<Rightarrow> Inr (ks_key_of sdk b)))
     | (None, _) \<Rightarrow> Inl (JsError ''password prompt rejected'')
     | _ \<Rightarrow> Inl (JsTypeError ''no token or root key'')))"

definition getPrivilegedKey :: "key_sdk \<Rightarrow> key_env \<Rightarrow> key_manager \<Rightarrow> key_manager \<times> (chain_error + int)" where
  "getPrivilegedKey sdk e s = (case km_privileged s of
     None \<Rightarrow> (s, Inl (JsTypeError ''rootPrivilegedKeyManager is undefined''))
   | Some pm \<Rightarrow>
       (case (if pm_chunks pm \<noteq> [] \<and> pm_pads pm \<noteq> [] then reassembleKeyFromChunks pm else None) of
          Some raw \<Rightarrow> (s, Inr (ks_key_of sdk raw))
        | None \<Rightarrow>
            then_do (s\<lparr>km_privileged := Some (pm\<lparr>pm_oneTime := None\<rparr>)\<rparr>, fetch_privileged sdk e s pm) (\<lambda>s1 k.
            case get32ByteRepresentation sdk k of
              Inl err \<Rightarrow> (s1, Inl err)
            | Inr b \<Rightarrow> (s1\<lparr>km_privileged := Some (store_key (ke_random e) b (destroyKey (pm\<lparr>pm_oneTime := None\<rparr>)))\<rparr>, Inr k))))"

text \<open>The timer.\<close>

definition forget_privileged :: "key_manager \<Rightarrow> key_manager" where
  "forget_privileged s = s\<lparr>km_privileged := map_option destroyKey (km_privileged s)\<rparr>"

text \<open>The privileged key of the active profile, as the underlying wallet asks for it: \<open>toArray()\<close> of the root key,
  xored with the profile's pad.\<close>

definition profilePrivilegedKey :: "key_sdk \<Rightarrow> key_env \<Rightarrow> key_manager \<Rightarrow> key_manager \<times> (chain_error + int)" where
  "profilePrivilegedKey sdk e s = (case km_underlying s of
     None \<Rightarrow> (s, Inl (JsTypeError ''no underlying wallet''))
   | Some w \<Rightarrow> then_do (getPrivilegedKey sdk e s) (\<lambda>s1 k.
       case bw_privilegedPad w of
         None \<Rightarrow> (s1, Inr (ks_key_of sdk (ks_key_bytes sdk k)))
       | Some pad \<Rightarrow> (s1, and_then (XOR_bytes (ks_key_bytes sdk k) pad) (\<lambda>b. Inr (ks_key_of sdk b)))))"

section \<open>Factors\<close>

datatype factor = PasswordKey | PresentationKey | RecoveryKey | PrivilegedKey

definition getFactor :: "key_sdk \<Rightarrow> key_env \<Rightarrow> factor \<Rightarrow> key_manager \<Rightarrow> key_manager \<times> (chain_error + int list)" where
  "getFactor sdk e f s = (case (km_token s, km_privileged s) of
     (Some t, Some _) \<Rightarrow>
       if \<not> km_authenticated s then (s, Inl (JsError ''Cannot get factor: Wallet not ready.''))
       else (case getPrivilegedKey sdk e s of
           (s1, Inl _) \<Rightarrow> (s1, Inl (JsError ''Failed to decrypt factor''))
         | (s1, Inr k) \<Rightarrow> (s1,
             (case (case f of
                 PasswordKey \<Rightarrow> ks_unwrap sdk k (passwordKeyEncrypted t)
               | PresentationKey \<Rightarrow> ks_unwrap sdk k (presentationKeyEncrypted t)
               | RecoveryKey \<Rightarrow> ks_unwrap sdk k (recoveryKeyEncrypted t)
               | PrivilegedKey \<Rightarrow> Some (ks_key_bytes sdk k)) of
                None \<Rightarrow> Inl (JsError ''Failed to decrypt factor'')
              | Some b \<Rightarrow> Inr b)))
   | _ \<Rightarrow> (s, Inl (JsError ''Cannot get factor: Wallet not ready.'')))"

text \<open>The fields that \<open>createNewUser\<close> and \<open>updateFactors\<close> compute from the factors and the root keys.\<close>

definition wrap_factors :: "key_sdk \<Rightarrow> key_env \<Rightarrow> int list \<Rightarrow> int list \<Rightarrow> int list \<Rightarrow> int list \<Rightarrow> int list \<Rightarrow> int list
    \<Rightarrow> int list option \<Rightarrow> int option \<Rightarrow> kdf_config option \<Rightarrow> chain_error + ump_token" where
  "wrap_factors sdk e salt pw pres rcv root priv profiles v kdf =
     (let rnd = (\<lambda>i. ke_random e i 32); k = ks_key_of sdk priv in
      and_then (XOR_bytes pres pw) (\<lambda>presentationPassword.
      and_then (XOR_bytes pres rcv) (\<lambda>presentationRecovery.
      and_then (XOR_bytes rcv pw) (\<lambda>recoveryPassword.
      and_then (XOR_bytes root pw) (\<lambda>primaryPassword.
      and_then (get32ByteRepresentation sdk k) (\<lambda>_.
      Inr \<lparr>passwordPresentationPrimary = ks_encrypt sdk presentationPassword (rnd 10) root,
        passwordRecoveryPrimary = ks_encrypt sdk recoveryPassword (rnd 11) root,
        presentationRecoveryPrimary = ks_encrypt sdk presentationRecovery (rnd 12) root,
        passwordPrimaryPrivileged = ks_encrypt sdk primaryPassword (rnd 13) priv,
        presentationRecoveryPrivileged = ks_encrypt sdk presentationRecovery (rnd 14) priv,
        presentationHash = ks_sha256 sdk pres, passwordSalt = salt, recoveryHash = ks_sha256 sdk rcv,
        presentationKeyEncrypted = ks_wrap sdk k (rnd 15) pres,
        recoveryKeyEncrypted = ks_wrap sdk k (rnd 16) rcv,
        passwordKeyEncrypted = ks_wrap sdk k (rnd 17) pw,
        profilesEncrypted = profiles, umpVersion = v, passwordKdf = kdf, currentOutpoint = None\<rparr>))))))"

definition encrypt_profiles :: "key_sdk \<Rightarrow> key_env \<Rightarrow> int list \<Rightarrow> wallet_profile list \<Rightarrow> int list option" where
  "encrypt_profiles sdk e root ps =
     (if ps = [] then None else Some (ks_encrypt sdk root (ke_random e 18 32) (ks_json_bytes sdk (JArr (map profile_json ps)))))"

definition updateFactors :: "key_sdk \<Rightarrow> key_env \<Rightarrow> int list \<Rightarrow> int list \<Rightarrow> int list \<Rightarrow> int list \<Rightarrow> int list \<Rightarrow> int list
    \<Rightarrow> wallet_profile list \<Rightarrow> key_manager \<Rightarrow> key_manager \<times> (chain_error + unit)" where
  "updateFactors sdk e salt pw pres rcv root priv profiles s =
     (case (km_rootPrimaryKey s, km_token s) of
        (Some _, Some old) \<Rightarrow>
          if \<not> km_authenticated s then (s, Inl (JsError ''Wallet is not properly authenticated''))
          else if currentOutpoint old = None \<or> currentOutpoint old = Some []
            then (s, Inl (JsError ''Cannot update UMP token: Old token has no outpoint.''))
          else (case wrap_factors sdk e salt pw pres rcv root priv (encrypt_profiles sdk e root profiles)
                   (if passwordKdf old = None then None else Some 3) (passwordKdf old) of
              Inl err \<Rightarrow> (s, Inl err)
            | Inr new \<Rightarrow>
                let active = km_activeProfileId s in
                then_do (if is_default active then (s, Inr ()) else switchProfile e DEFAULT_PROFILE_ID s) (\<lambda>s1 _.
                if km_underlying s1 = None then (s1, Inl (JsError ''Default profile wallet could not be activated''))
                else (case ke_publish e new (Some old) of
                    Inl err \<Rightarrow> then_do (if is_default active then (s1, Inr ()) else switchProfile e active s1)
                        (\<lambda>s2 _. (s2, Inl err))
                  | Inr outpoint \<Rightarrow>
                      let s2 = s1\<lparr>km_token := Some (new\<lparr>currentOutpoint := Some outpoint\<rparr>)\<rparr> in
                      if is_default active then (s2, Inr ()) else switchProfile e active s2)))
      | _ \<Rightarrow> (s, Inl (JsError ''Wallet is not properly authenticated'')))"

section \<open>Managing an open account\<close>

definition opened :: "key_manager \<Rightarrow> bool" where
  "opened s = (km_authenticated s \<and> km_rootPrimaryKey s \<noteq> None \<and> km_token s \<noteq> None \<and> km_privileged s \<noteq> None)"

text \<open>\<open>addProfile\<close> and \<open>deleteProfile\<close> end with this: all factors are read back and the token is rewritten.\<close>

definition republish :: "key_sdk \<Rightarrow> key_env \<Rightarrow> key_manager \<Rightarrow> key_manager \<times> (chain_error + unit)" where
  "republish sdk e s = (case (km_token s, km_rootPrimaryKey s) of
     (Some t, Some root) \<Rightarrow>
       then_do (getFactor sdk e PasswordKey s) (\<lambda>s1 pw.
       then_do (getFactor sdk e PresentationKey s1) (\<lambda>s2 pres.
       then_do (getFactor sdk e RecoveryKey s2) (\<lambda>s3 rcv.
       then_do (getFactor sdk e PrivilegedKey s3) (\<lambda>s4 priv.
       updateFactors sdk e (passwordSalt t) pw pres rcv root priv (km_profiles s4) s4))))
   | _ \<Rightarrow> (s, Inl (JsTypeError ''no token or root key'')))"

definition addProfile :: "key_sdk \<Rightarrow> key_env \<Rightarrow> string \<Rightarrow> key_manager \<Rightarrow> key_manager \<times> (chain_error + int list)" where
  "addProfile sdk e name s =
     (if \<not> opened s then (s, Inl (JsError ''Wallet not fully initialized or authenticated.''))
      else if name = ''default'' \<or> list_ex (\<lambda>p. js_lower (wp_name p) = js_lower name) (km_profiles s)
        then (s, Inl (JsError ''Profile name is already in use.''))
      else let p = \<lparr>wp_name = name, wp_id = ke_random e 0 16, wp_primaryPad = ke_random e 1 32,
                     wp_privilegedPad = ke_random e 2 32, wp_createdAt = ke_now e div 1000\<rparr> in
        then_do (republish sdk e (s\<lparr>km_profiles := km_profiles s @ [p]\<rparr>)) (\<lambda>s1 _. (s1, Inr (wp_id p))))"

definition deleteProfile :: "key_sdk \<Rightarrow> key_env \<Rightarrow> int list \<Rightarrow> key_manager \<Rightarrow> key_manager \<times> (chain_error + unit)" where
  "deleteProfile sdk e profileId s =
     (if \<not> opened s then (s, Inl (JsError ''Wallet not fully initialized or authenticated.''))
      else if is_default profileId then (s, Inl (JsError ''Cannot delete the default profile.''))
      else case remove_first (\<lambda>p. id_matches (wp_id p) profileId) (km_profiles s) of
        None \<Rightarrow> (s, Inl (JsError ''Profile not found.''))
      | Some ps \<Rightarrow>
          let s1 = s\<lparr>km_profiles := ps\<rparr> in
          then_do (if id_matches (km_activeProfileId s1) profileId then switchProfile e DEFAULT_PROFILE_ID s1 else (s1, Inr ()))
            (\<lambda>s2 _. republish sdk e s2))"

definition changePassword :: "key_sdk \<Rightarrow> kdf_config \<Rightarrow> key_env \<Rightarrow> string \<Rightarrow> key_manager \<Rightarrow> key_manager \<times> (chain_error + unit)" where
  "changePassword sdk cfg e newPassword s = (case (km_token s, km_rootPrimaryKey s) of
     (Some t, Some root) \<Rightarrow>
       if \<not> opened s then (s, Inl (JsError ''Not authenticated or missing required data.''))
       else let salt = ke_random e 0 32; kdf = (case passwordKdf t of None \<Rightarrow> Some cfg | Some c \<Rightarrow> Some c) in
         then_do (s, derivePasswordKey sdk salt kdf newPassword) (\<lambda>s pw.
         then_do (getFactor sdk e RecoveryKey s) (\<lambda>s1 rcv.
         then_do (getFactor sdk e PresentationKey s1) (\<lambda>s2 pres.
         then_do (getFactor sdk e PrivilegedKey s2) (\<lambda>s3 priv.
         updateFactors sdk e salt pw pres rcv root priv (km_profiles s3) s3))))
   | _ \<Rightarrow> (s, Inl (JsError ''Not authenticated or missing required data.'')))"

definition getRecoveryKey :: "key_sdk \<Rightarrow> key_env \<Rightarrow> key_manager \<Rightarrow> key_manager \<times> (chain_error + int list)" where
  "getRecoveryKey sdk e s =
     (if \<not> km_authenticated s \<or> km_token s = None \<or> km_privileged s = None
      then (s, Inl (JsError ''Not authenticated or missing required data.'')) else getFactor sdk e RecoveryKey s)"

definition changeRecoveryKey :: "key_sdk \<Rightarrow> key_env \<Rightarrow> key_manager \<Rightarrow> key_manager \<times> (chain_error + unit)" where
  "changeRecoveryKey sdk e s = (case (km_token s, km_rootPrimaryKey s) of
     (Some t, Some root) \<Rightarrow>
       if \<not> opened s then (s, Inl (JsError ''Not authenticated or missing required data.''))
       else then_do (getFactor sdk e PasswordKey s) (\<lambda>s1 pw.
         then_do (getFactor sdk e PresentationKey s1) (\<lambda>s2 pres.
         then_do (getFactor sdk e PrivilegedKey s2) (\<lambda>s3 priv.
         if \<not> ke_saved e then (s3, Inl (JsError ''recoveryKeySaver''))
         else updateFactors sdk e (passwordSalt t) pw pres (ke_random e 0 32) root priv (km_profiles s3) s3)))
   | _ \<Rightarrow> (s, Inl (JsError ''Not authenticated or missing required data.'')))"

definition changePresentationKey :: "key_sdk \<Rightarrow> key_env \<Rightarrow> int list \<Rightarrow> key_manager \<Rightarrow> key_manager \<times> (chain_error + unit)" where
  "changePresentationKey sdk e newKey s = (case (km_token s, km_rootPrimaryKey s) of
     (Some t, Some root) \<Rightarrow>
       if \<not> opened s then (s, Inl (JsError ''Not authenticated or missing required data.''))
       else if length newKey \<noteq> 32 then (s, Inl (JsError ''Presentation key must be 32 bytes.''))
       else then_do (getFactor sdk e RecoveryKey s) (\<lambda>s1 rcv.
         then_do (getFactor sdk e PasswordKey s1) (\<lambda>s2 pw.
         then_do (getFactor sdk e PrivilegedKey s2) (\<lambda>s3 priv.
         then_do (updateFactors sdk e (passwordSalt t) pw newKey rcv root priv (km_profiles s3) s3) (\<lambda>s4 _.
         (s4\<lparr>km_presentationKey := (if km_presentationKey s4 = None then None else Some newKey)\<rparr>, Inr ())))))
   | _ \<Rightarrow> (s, Inl (JsError ''Not authenticated or missing required data.'')))"

text \<open>Identity keys are left out of the list; they are public keys of the profile's primary key.\<close>

definition listProfiles :: "key_manager \<Rightarrow> chain_error + (int list \<times> string \<times> int option \<times> bool) list" where
  "listProfiles s = (if \<not> km_authenticated s then Inl (JsError ''Not authenticated.'')
     else Inr ((DEFAULT_PROFILE_ID, ''default'', None, is_default (km_activeProfileId s))
       # map (\<lambda>p. (wp_id p, wp_name p, Some (wp_createdAt p), id_matches (km_activeProfileId s) (wp_id p))) (km_profiles s)))"

section \<open>Opening an account\<close>

definition providePresentationKey :: "key_sdk \<Rightarrow> key_env \<Rightarrow> int list \<Rightarrow> key_manager \<Rightarrow> key_manager \<times> (chain_error + unit)" where
  "providePresentationKey sdk e key s =
     (if km_authenticated s then (s, Inl (JsError ''User is already authenticated''))
      else if km_mode s = RecoveryPassword then (s, Inl (JsError ''Presentation key is not needed in this mode''))
      else if \<not> key32 key then (s, Inl (JsTypeError ''Presentation key must contain exactly 32 bytes.''))
      else let s1 = s\<lparr>km_flow := UnknownFlow\<rparr> in
        (case ke_byPresentation e (ks_sha256 sdk key) of
           Inl err \<Rightarrow> (s1, Inl err)
         | Inr None \<Rightarrow> (s1\<lparr>km_flow := NewUser, km_presentationKey := Some key\<rparr>, Inr ())
         | Inr (Some t) \<Rightarrow> (s1\<lparr>km_flow := ExistingUser, km_presentationKey := Some key, km_token := Some t\<rparr>, Inr ())))"

definition decrypt_or_throw :: "key_sdk \<Rightarrow> int list \<Rightarrow> int list \<Rightarrow> chain_error + int list" where
  "decrypt_or_throw sdk k c = (case ks_decrypt sdk k c of None \<Rightarrow> Inl (JsError ''Decryption failed!'') | Some m \<Rightarrow> Inr m)"

definition open_root :: "key_sdk \<Rightarrow> key_env \<Rightarrow> int list \<Rightarrow> int list option \<Rightarrow> key_manager \<Rightarrow> key_manager \<times> (chain_error + unit)" where
  "open_root sdk e root priv s = then_do (setupRoot sdk root priv s) (\<lambda>s1 _. switchProfile e (km_activeProfileId s1) s1)"

definition unlockExisting :: "key_sdk \<Rightarrow> key_env \<Rightarrow> string \<Rightarrow> key_manager \<Rightarrow> key_manager \<times> (chain_error + unit)" where
  "unlockExisting sdk e password s = (case km_token s of
     None \<Rightarrow> (s, Inl (JsError ''Provide presentation or recovery key first.''))
   | Some t \<Rightarrow>
       then_do (s, and_then (derive_for sdk t password) (\<lambda>pw.
         if km_mode s = PresentationPassword then
           (case km_presentationKey s of None \<Rightarrow> Inl (JsError ''No presentation key found!'') | Some pres \<Rightarrow>
             and_then (XOR_bytes pres pw) (\<lambda>k.
             and_then (decrypt_or_throw sdk k (passwordPresentationPrimary t)) (\<lambda>root. Inr (root, None))))
         else
           (case km_recoveryKey s of None \<Rightarrow> Inl (JsError ''No recovery key found!'') | Some rcv \<Rightarrow>
             and_then (XOR_bytes rcv pw) (\<lambda>k.
             and_then (decrypt_or_throw sdk k (passwordRecoveryPrimary t)) (\<lambda>root.
             and_then (XOR_bytes root pw) (\<lambda>k2.
             and_then (decrypt_or_throw sdk k2 (passwordPrimaryPrivileged t)) (\<lambda>priv. Inr (root, Some priv))))))))
       (\<lambda>s (root, priv). open_root sdk e root priv s))"

definition createNewUser :: "key_sdk \<Rightarrow> kdf_config \<Rightarrow> key_env \<Rightarrow> string \<Rightarrow> key_manager \<Rightarrow> key_manager \<times> (chain_error + unit)" where
  "createNewUser sdk cfg e password s =
     (if km_mode s \<noteq> PresentationPassword then (s, Inl (JsError ''New-user flow requires presentation key and password mode.''))
      else case km_presentationKey s of
        None \<Rightarrow> (s, Inl (JsError ''No presentation key provided for new-user flow.''))
      | Some pres \<Rightarrow>
          if \<not> ke_saved e then (s, Inl (JsError ''recoveryKeySaver''))
          else let rcv = ke_random e 0 32; salt = ke_random e 1 32; root = ke_random e 2 32; priv = ke_random e 3 32 in
            then_do (s, and_then (derivePasswordKey sdk salt (Some cfg) password) (\<lambda>pw.
                wrap_factors sdk e salt pw pres rcv root priv None (Some 3) (Some cfg))) (\<lambda>s new.
            then_do (setupRoot sdk root None (s\<lparr>km_token := Some new\<rparr>)) (\<lambda>s1 _.
            then_do (switchProfile e DEFAULT_PROFILE_ID s1) (\<lambda>s2 _.
            if \<not> ke_funded e then (s2, Inl (JsError ''Failed to fund new wallet before publishing UMP token''))
            else case ke_publish e new None of
              Inl err \<Rightarrow> (s2, Inl err)
            | Inr outpoint \<Rightarrow> (s2\<lparr>km_token := Some (new\<lparr>currentOutpoint := Some outpoint\<rparr>)\<rparr>, Inr ())))))"

definition providePassword :: "key_sdk \<Rightarrow> kdf_config \<Rightarrow> key_env \<Rightarrow> string \<Rightarrow> key_manager \<Rightarrow> key_manager \<times> (chain_error + unit)" where
  "providePassword sdk cfg e password s =
     (if km_authenticated s then (s, Inl (JsError ''User is already authenticated''))
      else if km_mode s = PresentationRecovery then (s, Inl (JsError ''Password is not needed in this mode''))
      else if km_flow s = UnknownFlow then (s, Inl (JsError ''Determine account status first''))
      else if km_flow s = ExistingUser then unlockExisting sdk e password s
      else createNewUser sdk cfg e password s)"

definition provideRecoveryKey :: "key_sdk \<Rightarrow> key_env \<Rightarrow> int list \<Rightarrow> key_manager \<Rightarrow> key_manager \<times> (chain_error + unit)" where
  "provideRecoveryKey sdk e rcv s =
     (if km_authenticated s then (s, Inl (JsError ''Already authenticated''))
      else if km_flow s = NewUser \<and> km_mode s \<noteq> RecoveryPassword then (s, Inl (JsError ''Do not submit recovery key in new-user flow''))
      else if km_mode s = PresentationPassword then (s, Inl (JsError ''No recovery key required in this mode''))
      else if \<not> key32 rcv then (s, Inl (JsTypeError ''Recovery key must contain exactly 32 bytes.''))
      else if km_mode s = RecoveryPassword then
        (case ke_byRecovery e (ks_sha256 sdk rcv) of
           Inl err \<Rightarrow> (s, Inl err)
         | Inr None \<Rightarrow> (s, Inl (JsError ''No user found with this recovery key''))
         | Inr (Some t) \<Rightarrow> (s\<lparr>km_flow := ExistingUser, km_recoveryKey := Some rcv, km_token := Some t\<rparr>, Inr ()))
      else
        (case (km_presentationKey s, km_token s) of
           (None, _) \<Rightarrow> (s, Inl (JsError ''Provide the presentation key first''))
         | (_, None) \<Rightarrow> (s, Inl (JsError ''Current UMP token not found''))
         | (Some pres, Some t) \<Rightarrow>
             then_do (s, and_then (XOR_bytes pres rcv) (\<lambda>k.
               and_then (decrypt_or_throw sdk k (presentationRecoveryPrimary t)) (\<lambda>root.
               and_then (decrypt_or_throw sdk k (presentationRecoveryPrivileged t)) (\<lambda>priv. Inr (root, priv)))))
             (\<lambda>s (root, priv). open_root sdk e root (Some priv) s)))"

section \<open>Snapshots and refreshing\<close>

definition saveSnapshot :: "key_sdk \<Rightarrow> key_env \<Rightarrow> key_manager \<Rightarrow> chain_error + int list" where
  "saveSnapshot sdk e s = (case (km_rootPrimaryKey s, km_token s) of
     (Some root, Some t) \<Rightarrow>
       if currentOutpoint t = None \<or> currentOutpoint t = Some []
       then Inl (JsError ''UMP token cannot be saved without a current outpoint.'')
       else and_then (serializeUMPToken sdk t) (\<lambda>b.
         let key = ke_random e 0 32;
             snapshot = 2 # key @ km_activeProfileId s
               @ ks_encrypt sdk key (ke_random e 10 32) (root @ ks_varint sdk (int (length b)) @ b) in
         if int (length snapshot) > max_snapshot_bytes then Inl (JsError ''Snapshot exceeds the maximum supported size.'')
         else Inr snapshot)
   | _ \<Rightarrow> Inl (JsError ''No root primary key or current UMP token set''))"

definition read_snapshot :: "key_sdk \<Rightarrow> int list \<Rightarrow> chain_error + (int list \<times> ump_token \<times> int list)" where
  "read_snapshot sdk snapshot =
     and_then (ensure (snapshot \<noteq> [] \<and> int (length snapshot) \<le> max_snapshot_bytes \<and> list_all is_byte snapshot)
       (JsError ''Snapshot is empty, oversized, or contains invalid bytes.'')) (\<lambda>_.
     let (v, r) = read_u8 snapshot; (key, r1) = ks_read sdk 32 r in
     and_then (if v = 1 then Inr (DEFAULT_PROFILE_ID, r1) else if v = 2 then Inr (ks_read sdk 16 r1)
        else Inl (JsError ''Unsupported snapshot version'')) (\<lambda>(active, r2).
     and_then (decrypt_or_throw sdk key (fst (ks_read sdk (length r2) r2))) (\<lambda>payload.
     let (root, p1) = ks_read sdk 32 payload in
     (case ks_read_varint sdk p1 of
        None \<Rightarrow> Inl (JsError ''varint'')
      | Some (n, p2) \<Rightarrow>
          and_then (deserializeUMPToken sdk (fst (ks_read sdk (nat n) p2))) (\<lambda>t. Inr (root, t, active))))))"

definition loadSnapshot :: "key_sdk \<Rightarrow> key_env \<Rightarrow> int list \<Rightarrow> key_manager \<Rightarrow> key_manager \<times> (chain_error + unit)" where
  "loadSnapshot sdk e snapshot s =
     (case then_do (s, read_snapshot sdk snapshot) (\<lambda>s (root, t, active).
        then_do (setupRoot sdk root None (s\<lparr>km_token := Some t\<rparr>)) (\<lambda>s1 _.
        then_do (switchProfile e active s1) (\<lambda>s2 _. (s2\<lparr>km_flow := ExistingUser\<rparr>, Inr ())))) of
      (s', Inr _) \<Rightarrow> (s', Inr ())
    | (s', Inl _) \<Rightarrow> (destroy s', Inl (JsError ''Failed to load snapshot'')))"

definition syncUMPToken :: "key_sdk \<Rightarrow> key_env \<Rightarrow> key_manager \<Rightarrow> key_manager \<times> (chain_error + bool)" where
  "syncUMPToken sdk e s = (case (km_token s, km_rootPrimaryKey s) of
     (Some t, Some root) \<Rightarrow>
       if \<not> km_authenticated s then (s, Inl (JsError ''Wallet not authenticated or missing UMP token.''))
       else then_do (s, and_then (if presentationHash t = [] then Inr None else ke_byPresentation e (presentationHash t)) (\<lambda>r.
          if r = None \<and> recoveryHash t \<noteq> [] then ke_byRecovery e (recoveryHash t) else Inr r)) (\<lambda>s r.
        case r of
          None \<Rightarrow> (s, Inr False)
        | Some t' \<Rightarrow>
            if currentOutpoint t' \<noteq> None \<and> currentOutpoint t' \<noteq> Some [] \<and> currentOutpoint t' = currentOutpoint t
            then (s, Inr False)
            else then_do (setupRoot sdk root None (s\<lparr>km_token := Some t'\<rparr>)) (\<lambda>s1 _.
              (s1, and_then (saveSnapshot sdk e s1) (\<lambda>_. Inr True))))
   | _ \<Rightarrow> (s, Inl (JsError ''Wallet not authenticated or missing UMP token.'')))"

end
