(* ===== verification/Key_Account.thy ===== *)
theory Key_Account
  imports Key_Manager
begin

text \<open>
  What a UMP token promises (\<open>token_for\<close>): any two of the three factors of an account open its root keys. The
  operations of the key manager keep the promise for the account as it is after them, failed ones included, and so
  do the managers of one account on any number of devices (\<open>key_world\<close>).
\<close>

section \<open>Accounts\<close>

text \<open>The factors, root keys and profiles as the user knows them.\<close>

record account =
  ac_presentation :: "int list"
  ac_password :: string
  ac_recovery :: "int list"
  ac_primary :: "int list"
  ac_privileged :: int
  ac_profiles :: "wallet_profile list"

definition profile_ok :: "wallet_profile \<Rightarrow> bool" where
  "profile_ok p = (0 < length (wp_name p) \<and> length (wp_name p) \<le> 250
     \<and> length (wp_id p) = 16 \<and> list_all is_byte (wp_id p) \<and> key32 (wp_primaryPad p) \<and> key32 (wp_privilegedPad p)
     \<and> 0 \<le> wp_createdAt p)"

definition profiles_ok :: "wallet_profile list \<Rightarrow> bool" where
  "profiles_ok ps = (list_all profile_ok ps \<and> length ps \<le> 1000)"

definition account_ok :: "key_sdk \<Rightarrow> account \<Rightarrow> bool" where
  "account_ok sdk a = (key32 (ac_presentation a) \<and> key32 (ac_recovery a) \<and> key32 (ac_primary a)
     \<and> (\<exists>b. ac_privileged a = ks_key_of sdk b))"

text \<open>The password key under the token's own salt and settings.\<close>

definition pw_key :: "key_sdk \<Rightarrow> account \<Rightarrow> ump_token \<Rightarrow> int list" where
  "pw_key sdk a t = (case derive_for sdk t (ac_password a) of Inr k \<Rightarrow> k | Inl _ \<Rightarrow> [])"

definition opens :: "key_sdk \<Rightarrow> int list \<Rightarrow> int list \<Rightarrow> int list \<Rightarrow> int list \<Rightarrow> bool" where
  "opens sdk k1 k2 c m = (case XOR_bytes k1 k2 of Inl _ \<Rightarrow> False | Inr k \<Rightarrow> ks_decrypt sdk k c = Some m)"

definition opens_key :: "key_sdk \<Rightarrow> int list \<Rightarrow> int list \<Rightarrow> int list \<Rightarrow> int \<Rightarrow> bool" where
  "opens_key sdk k1 k2 c p = (case XOR_bytes k1 k2 of Inl _ \<Rightarrow> False | Inr k \<Rightarrow>
     (case ks_decrypt sdk k c of None \<Rightarrow> False | Some b \<Rightarrow> ks_key_of sdk b = p))"

definition token_profiles :: "key_sdk \<Rightarrow> int list \<Rightarrow> ump_token \<Rightarrow> wallet_profile list option" where
  "token_profiles sdk root t = (case profilesEncrypted t of None \<Rightarrow> Some [] | Some enc \<Rightarrow>
     if enc = [] then Some [] else load_profiles sdk root enc)"

definition token_keys :: "key_sdk \<Rightarrow> account \<Rightarrow> ump_token \<Rightarrow> bool" where
  "token_keys sdk a t = (let pw = pw_key sdk a t; pres = ac_presentation a; rcv = ac_recovery a; root = ac_primary a in
     derive_for sdk t (ac_password a) = Inr pw
     \<and> opens sdk pres pw (passwordPresentationPrimary t) root
     \<and> opens sdk rcv pw (passwordRecoveryPrimary t) root
     \<and> opens sdk pres rcv (presentationRecoveryPrimary t) root
     \<and> opens_key sdk root pw (passwordPrimaryPrivileged t) (ac_privileged a)
     \<and> opens_key sdk pres rcv (presentationRecoveryPrivileged t) (ac_privileged a)
     \<and> presentationHash t = ks_sha256 sdk pres \<and> recoveryHash t = ks_sha256 sdk rcv
     \<and> ks_unwrap sdk (ac_privileged a) (presentationKeyEncrypted t) = Some pres
     \<and> ks_unwrap sdk (ac_privileged a) (passwordKeyEncrypted t) = Some pw
     \<and> ks_unwrap sdk (ac_privileged a) (recoveryKeyEncrypted t) = Some rcv)"

definition token_for :: "key_sdk \<Rightarrow> account \<Rightarrow> ump_token \<Rightarrow> bool" where
  "token_for sdk a t \<longleftrightarrow> token_keys sdk a t \<and> token_profiles sdk (ac_primary a) t = Some (ac_profiles a)"

lemma token_for_keys: "token_for sdk a t \<Longrightarrow> token_keys sdk a t"
  by (simp add: token_for_def)

lemma token_keys_outpoint [simp]: "token_keys sdk a (t\<lparr>currentOutpoint := o1\<rparr>) = token_keys sdk a t"
  by (simp add: token_keys_def pw_key_def derive_for_def)

lemma token_for_outpoint [simp]: "token_for sdk a (t\<lparr>currentOutpoint := o1\<rparr>) = token_for sdk a t"
  by (simp add: token_for_def token_profiles_def)

section \<open>Profiles survive their encoding\<close>

lemma json_bytes_ints [simp]: "json_bytes (Some (JArr (map JNum xs))) = xs"
  by (simp add: comp_def)

lemma byte_array_ints [simp]: "isByteArrayOfLength (Some (JArr (map JNum xs))) n = (length xs = n \<and> list_all is_byte xs)"
  by (simp add: list_all_iff)

lemma profile_fields [simp]:
  "json_field (profile_json p) ''name'' = Some (JStr (wp_name p))"
  "json_field (profile_json p) ''id'' = Some (JArr (map JNum (wp_id p)))"
  "json_field (profile_json p) ''primaryPad'' = Some (JArr (map JNum (wp_primaryPad p)))"
  "json_field (profile_json p) ''privilegedPad'' = Some (JArr (map JNum (wp_privilegedPad p)))"
  "json_field (profile_json p) ''createdAt'' = Some (JNum (wp_createdAt p))"
  by (simp_all add: profile_json_def)

lemma profile_valid: "isValidProfile (profile_json p) = profile_ok p"
  by (simp add: isValidProfile_def profile_ok_def key32_def del: isByteArrayOfLength.simps)

lemma profile_back: "profile_of (profile_json p) = p"
  by (simp add: profile_of_def del: json_bytes.simps)

lemma load_encrypted:
  assumes "sdk_ok sdk" "list_all profile_ok ps" "length ps \<le> 1000"
  shows "load_profiles sdk root (ks_encrypt sdk root iv (ks_json_bytes sdk (JArr (map profile_json ps)))) = Some ps"
  using assms(2,3) by (simp add: load_profiles_def sdk_okD(1,10) [OF assms(1)] profile_valid profile_back list_all_iff comp_def)

section \<open>The token that is computed\<close>

lemma get32_ok: "sdk_ok sdk \<Longrightarrow> get32ByteRepresentation sdk (ks_key_of sdk b)
    = Inr (replicate (32 - length (ks_key_bytes sdk (ks_key_of sdk b))) 0 @ ks_key_bytes sdk (ks_key_of sdk b))"
  using sdk_okD(5) [of sdk b] by (simp add: get32ByteRepresentation_def Let_def)

lemma wrap_factors_keys:
  assumes sdk: "sdk_ok sdk" and a: "ac_privileged a = ks_key_of sdk priv"
    and w: "wrap_factors sdk e salt pw (ac_presentation a) (ac_recovery a) (ac_primary a) priv
        profiles v kdf = Inr t"
    and d: "derivePasswordKey sdk salt kdf (ac_password a) = Inr pw"
  shows "token_keys sdk a t" "passwordSalt t = salt" "passwordKdf t = kdf" "profilesEncrypted t = profiles"
proof -
  obtain k1 k2 k3 k4 where k: "XOR_bytes (ac_presentation a) pw = Inr k1" "XOR_bytes (ac_presentation a) (ac_recovery a) = Inr k2"
      "XOR_bytes (ac_recovery a) pw = Inr k3" "XOR_bytes (ac_primary a) pw = Inr k4"
    using w by (auto simp: wrap_factors_def Let_def and_then_Inr)
  have t: "t = \<lparr>passwordPresentationPrimary = ks_encrypt sdk k1 (ke_random e 10 32) (ac_primary a),
        passwordRecoveryPrimary = ks_encrypt sdk k3 (ke_random e 11 32) (ac_primary a),
        presentationRecoveryPrimary = ks_encrypt sdk k2 (ke_random e 12 32) (ac_primary a),
        passwordPrimaryPrivileged = ks_encrypt sdk k4 (ke_random e 13 32) priv,
        presentationRecoveryPrivileged = ks_encrypt sdk k2 (ke_random e 14 32) priv,
        presentationHash = ks_sha256 sdk (ac_presentation a), passwordSalt = salt, recoveryHash = ks_sha256 sdk (ac_recovery a),
        presentationKeyEncrypted = ks_wrap sdk (ac_privileged a) (ke_random e 15 32) (ac_presentation a),
        recoveryKeyEncrypted = ks_wrap sdk (ac_privileged a) (ke_random e 16 32) (ac_recovery a),
        passwordKeyEncrypted = ks_wrap sdk (ac_privileged a) (ke_random e 17 32) pw,
        profilesEncrypted = profiles, umpVersion = v, passwordKdf = kdf,
        currentOutpoint = None\<rparr>"
    using w k by (simp add: wrap_factors_def Let_def and_then_Inr a get32_ok [OF sdk])
  show "passwordSalt t = salt" "passwordKdf t = kdf" "profilesEncrypted t = profiles" by (simp_all add: t)
  have pw: "derive_for sdk t (ac_password a) = Inr pw" "pw_key sdk a t = pw"
    using d by (simp_all add: pw_key_def derive_for_def t)
  show "token_keys sdk a t"
    unfolding token_keys_def pw Let_def
    by (simp add: t opens_def opens_key_def k sdk_okD(1,3) [OF sdk] a)
qed

lemma encrypted_profiles_load:
  assumes "sdk_ok sdk" "profiles_ok ps" "profilesEncrypted t = encrypt_profiles sdk e root ps"
  shows "token_profiles sdk root t = Some ps"
  using assms(2,3) load_encrypted [OF assms(1)] sdk_okD(2) [OF assms(1)]
  by (simp add: token_profiles_def encrypt_profiles_def profiles_ok_def)

section \<open>Opening\<close>

text \<open>The manager that has opened the account with its default profile.\<close>

definition open_as :: "account \<Rightarrow> key_manager \<Rightarrow> bool" where
  "open_as a s = (km_authenticated s \<and> km_rootPrimaryKey s = Some (ac_primary a) \<and> km_profiles s = ac_profiles a
     \<and> km_underlying s = Some \<lparr>bw_primaryKey = ac_primary a, bw_privilegedPad = None, bw_profileId = DEFAULT_PROFILE_ID\<rparr>)"

lemma default_id [simp]: "is_default DEFAULT_PROFILE_ID"
  by (simp add: is_default_def list_all_iff)

lemma open_root_ok:
  assumes t: "km_token s = Some t" "token_profiles sdk (ac_primary a) t = Some (ac_profiles a)"
    and s: "is_default (km_activeProfileId s)" and e: "\<And>w. ke_build e w"
  shows "\<exists>s'. open_root sdk e (ac_primary a) priv s = (s', Inr ()) \<and> open_as a s' \<and> km_token s' = Some t
     \<and> km_privileged s' = Some \<lparr>pm_chunks = [], pm_pads = [], pm_oneTime = map_option (ks_key_of sdk) priv\<rparr>"
proof -
  let ?s1 = "s\<lparr>km_rootPrimaryKey := Some (ac_primary a),
      km_privileged := Some \<lparr>pm_chunks = [], pm_pads = [], pm_oneTime = map_option (ks_key_of sdk) priv\<rparr>,
      km_profiles := ac_profiles a, km_authenticated := True\<rparr>"
  have "setupRoot sdk (ac_primary a) priv s = (?s1, Inr ())"
    using t by (auto simp: setupRoot_def token_profiles_def Let_def split: option.splits if_splits)
  then show ?thesis
    using s e t(1) by (simp add: open_root_def switchProfile_def open_as_def Let_def)
qed

lemma getPrivilegedKey_oneTime:
  assumes "sdk_ok sdk" "km_privileged s = Some \<lparr>pm_chunks = [], pm_pads = [], pm_oneTime = Some (ks_key_of sdk b)\<rparr>"
  shows "snd (getPrivilegedKey sdk e s) = Inr (ks_key_of sdk b)"
  using assms by (simp add: getPrivilegedKey_def fetch_privileged_def get32_ok [OF assms(1)])

lemma opens_iff: "opens sdk k1 k2 c m \<longleftrightarrow> (\<exists>k. XOR_bytes k1 k2 = Inr k \<and> decrypt_or_throw sdk k c = Inr m)"
  by (auto simp: opens_def decrypt_or_throw_def split: sum.splits option.splits)

lemma opens_key_iff: "opens_key sdk k1 k2 c p \<longleftrightarrow>
    (\<exists>k b. XOR_bytes k1 k2 = Inr k \<and> decrypt_or_throw sdk k c = Inr b \<and> ks_key_of sdk b = p)"
  by (auto simp: opens_key_def decrypt_or_throw_def split: sum.splits option.splits)

lemma token_keysD:
  assumes "token_keys sdk a t"
  shows "derive_for sdk t (ac_password a) = Inr (pw_key sdk a t)"
    "\<exists>k. XOR_bytes (ac_presentation a) (pw_key sdk a t) = Inr k \<and> decrypt_or_throw sdk k (passwordPresentationPrimary t) = Inr (ac_primary a)"
    "\<exists>k. XOR_bytes (ac_recovery a) (pw_key sdk a t) = Inr k \<and> decrypt_or_throw sdk k (passwordRecoveryPrimary t) = Inr (ac_primary a)"
    "\<exists>k. XOR_bytes (ac_presentation a) (ac_recovery a) = Inr k
       \<and> decrypt_or_throw sdk k (presentationRecoveryPrimary t) = Inr (ac_primary a)
       \<and> (\<exists>b. decrypt_or_throw sdk k (presentationRecoveryPrivileged t) = Inr b \<and> ks_key_of sdk b = ac_privileged a)"
    "\<exists>k b. XOR_bytes (ac_primary a) (pw_key sdk a t) = Inr k
       \<and> decrypt_or_throw sdk k (passwordPrimaryPrivileged t) = Inr b \<and> ks_key_of sdk b = ac_privileged a"
    "ks_unwrap sdk (ac_privileged a) (presentationKeyEncrypted t) = Some (ac_presentation a)"
    "ks_unwrap sdk (ac_privileged a) (passwordKeyEncrypted t) = Some (pw_key sdk a t)"
    "ks_unwrap sdk (ac_privileged a) (recoveryKeyEncrypted t) = Some (ac_recovery a)"
  using assms unfolding token_keys_def opens_iff opens_key_iff Let_def by auto

text \<open>The two calls of each mode, from a new manager.\<close>

definition open_with :: "key_sdk \<Rightarrow> kdf_config \<Rightarrow> key_env \<Rightarrow> account \<Rightarrow> auth_mode \<Rightarrow> key_manager \<times> (chain_error + unit)" where
  "open_with sdk cfg e a mode = (case mode of
     PresentationPassword \<Rightarrow> then_do (providePresentationKey sdk e (ac_presentation a) (fresh_manager mode))
       (\<lambda>s _. providePassword sdk cfg e (ac_password a) s)
   | PresentationRecovery \<Rightarrow> then_do (providePresentationKey sdk e (ac_presentation a) (fresh_manager mode))
       (\<lambda>s _. provideRecoveryKey sdk e (ac_recovery a) s)
   | RecoveryPassword \<Rightarrow> then_do (provideRecoveryKey sdk e (ac_recovery a) (fresh_manager mode))
       (\<lambda>s _. providePassword sdk cfg e (ac_password a) s))"

text \<open>With the right factors every mode gets to the account's root key, before the profiles are loaded.\<close>

lemma open_with_root:
  assumes a: "account_ok sdk a" and t: "token_keys sdk a t"
    and found: "ke_byPresentation e (ks_sha256 sdk (ac_presentation a)) = Inr (Some t)"
      "ke_byRecovery e (ks_sha256 sdk (ac_recovery a)) = Inr (Some t)"
  obtains q priv where "open_with sdk cfg e a mode = open_root sdk e (ac_primary a) priv q" "km_token q = Some t"
    "is_default (km_activeProfileId q)" "\<not> km_authenticated q"
    "mode \<noteq> PresentationPassword \<Longrightarrow> \<exists>b. priv = Some b \<and> ks_key_of sdk b = ac_privileged a"
    "mode = PresentationPassword \<Longrightarrow> priv = None"
proof -
  note d = token_keysD [OF t]
  have keys: "key32 (ac_presentation a)" "key32 (ac_recovery a)" using a by (simp_all add: account_ok_def)
  show ?thesis
  proof (cases mode)
    case PresentationPassword
    let ?q = "fresh_manager mode\<lparr>km_flow := ExistingUser, km_presentationKey := Some (ac_presentation a), km_token := Some t\<rparr>"
    have "open_with sdk cfg e a mode = open_root sdk e (ac_primary a) None ?q"
      using PresentationPassword d(1,2) keys found
      by (auto simp: open_with_def providePresentationKey_def providePassword_def unlockExisting_def fresh_manager_def Let_def)
    then show ?thesis using that PresentationPassword by (simp add: fresh_manager_def)
  next
    case PresentationRecovery
    let ?q = "fresh_manager mode\<lparr>km_flow := ExistingUser, km_presentationKey := Some (ac_presentation a), km_token := Some t\<rparr>"
    obtain k b where k: "XOR_bytes (ac_presentation a) (ac_recovery a) = Inr k"
       "decrypt_or_throw sdk k (presentationRecoveryPrimary t) = Inr (ac_primary a)"
       "decrypt_or_throw sdk k (presentationRecoveryPrivileged t) = Inr b" "ks_key_of sdk b = ac_privileged a"
      using d(4) by blast
    then have "open_with sdk cfg e a mode = open_root sdk e (ac_primary a) (Some b) ?q"
      using PresentationRecovery keys found
      by (auto simp: open_with_def providePresentationKey_def provideRecoveryKey_def fresh_manager_def Let_def)
    then show ?thesis using that [of "Some b" ?q] k(4) PresentationRecovery by (simp add: fresh_manager_def)
  next
    case RecoveryPassword
    let ?q = "fresh_manager mode\<lparr>km_flow := ExistingUser, km_recoveryKey := Some (ac_recovery a), km_token := Some t\<rparr>"
    obtain k b where k: "XOR_bytes (ac_primary a) (pw_key sdk a t) = Inr k"
       "decrypt_or_throw sdk k (passwordPrimaryPrivileged t) = Inr b" "ks_key_of sdk b = ac_privileged a"
      using d(5) by blast
    then have "open_with sdk cfg e a mode = open_root sdk e (ac_primary a) (Some b) ?q"
      using RecoveryPassword keys found d(1,3)
      by (auto simp: open_with_def providePassword_def unlockExisting_def provideRecoveryKey_def fresh_manager_def Let_def)
    then show ?thesis using that [of "Some b" ?q] k(3) RecoveryPassword by (simp add: fresh_manager_def)
  qed
qed

section \<open>The privileged key store keeps its key\<close>

definition random_ok :: "key_env \<Rightarrow> bool" where
  "random_ok e \<longleftrightarrow> (\<forall>i n. length (ke_random e i n) = n \<and> list_all is_byte (ke_random e i n))"

lemma split_concat:
  assumes "length b = 32"
  shows "concat (splitKeyIntoChunks b) = b" "map length (splitKeyIntoChunks b) = [8, 8, 8, 8]"
proof -
  have "take 8 b @ take 8 (drop 8 b) @ take 8 (drop 16 b) @ take 8 (drop 24 b) = b"
  proof -
    have "take 8 b @ take 8 (drop 8 b) = take 16 b" "take 16 b @ take 8 (drop 16 b) = take 24 b" "take 24 b @ take 8 (drop 24 b) = take 32 b"
      using take_add [of 8 8 b] take_add [of 16 8 b] take_add [of 24 8 b] by simp_all
    then show ?thesis using assms by (metis append_assoc take_all order_refl)
  qed
  then show "concat (splitKeyIntoChunks b) = b" "map length (splitKeyIntoChunks b) = [8, 8, 8, 8]"
    using assms by (simp_all add: splitKeyIntoChunks_def byte_slice_def Let_def)
qed

lemma map2_cancel: "list_all is_byte c \<Longrightarrow> length c \<le> length p \<Longrightarrow> map2 js_xor (map2 js_xor c p) p = c"
  by (induction c arbitrary: p) (auto simp: js_xor_cancel Suc_le_length_iff)

lemma reassemble_store:
  assumes b: "length b = 32" "list_all is_byte b" and r: "\<And>i n. length (random i n) = n"
  shows "reassembleKeyFromChunks (store_key random b pm) = Some b" "pm_oneTime (store_key random b pm) = pm_oneTime pm"
proof -
  obtain c0 c1 c2 c3 where c: "splitKeyIntoChunks b = [c0, c1, c2, c3]"
    by (simp add: splitKeyIntoChunks_def Let_def)
  have len: "length c0 = 8" "length c1 = 8" "length c2 = 8" "length c3 = 8" and cat: "c0 @ c1 @ c2 @ c3 = b"
    using split_concat [OF b(1)] by (simp_all add: c)
  have byte: "list_all is_byte c0" "list_all is_byte c1" "list_all is_byte c2" "list_all is_byte c3"
    using b(2) by (simp_all flip: cat)
  show "reassembleKeyFromChunks (store_key random b pm) = Some b" "pm_oneTime (store_key random b pm) = pm_oneTime pm"
    using b(1) byte
    by (simp_all add: store_key_def c len r reassembleKeyFromChunks_def Let_def upt_rec map2_cancel cat)
qed

lemma reassemble_oneTime [simp]: "reassembleKeyFromChunks (pm\<lparr>pm_oneTime := x\<rparr>) = reassembleKeyFromChunks pm"
  by (simp add: reassembleKeyFromChunks_def)

definition pm_holds :: "key_sdk \<Rightarrow> int \<Rightarrow> privileged_manager \<Rightarrow> bool" where
  "pm_holds sdk k pm \<longleftrightarrow> (pm_oneTime pm = None \<or> pm_oneTime pm = Some k)
     \<and> (pm_chunks pm = [] \<or> pm_pads pm = [] \<or> (\<exists>raw. reassembleKeyFromChunks pm = Some raw \<and> ks_key_of sdk raw = k))"

section \<open>The manager of an open account\<close>

text \<open>The promise of \<open>passwordRetriever\<close>: it resolves with the right password or rejects.\<close>

definition env_ok :: "account \<Rightarrow> key_env \<Rightarrow> bool" where
  "env_ok a e \<longleftrightarrow> random_ok e \<and> (ke_password e = None \<or> ke_password e = Some (ac_password a))"

definition key_core :: "key_sdk \<Rightarrow> account \<Rightarrow> key_manager \<Rightarrow> bool" where
  "key_core sdk a s \<longleftrightarrow> account_ok sdk a \<and> km_authenticated s \<and> km_rootPrimaryKey s = Some (ac_primary a)
     \<and> (\<exists>t. km_token s = Some t \<and> token_keys sdk a t)
     \<and> (\<exists>pm. km_privileged s = Some pm \<and> pm_holds sdk (ac_privileged a) pm)"

definition key_inv :: "key_sdk \<Rightarrow> account \<Rightarrow> key_manager \<Rightarrow> bool" where
  "key_inv sdk a s \<longleftrightarrow> key_core sdk a s \<and> profiles_ok (km_profiles s)
     \<and> (\<exists>t. km_token s = Some t \<and> token_for sdk a t \<and> passwordKdf t \<noteq> None)"

lemma key_inv_core: "key_inv sdk a s \<Longrightarrow> key_core sdk a s"
  by (simp add: key_inv_def)

text \<open>What the small steps leave alone: everything but the privileged key store.\<close>

definition only_store :: "key_manager \<Rightarrow> key_manager \<Rightarrow> bool" where
  "only_store s s' = (s' = s\<lparr>km_privileged := km_privileged s'\<rparr>)"

lemma only_store_refl [simp]: "only_store s s"
  by (simp add: only_store_def)

lemma only_store_trans: "only_store s s' \<Longrightarrow> only_store s' s'' \<Longrightarrow> only_store s s''"
  unfolding only_store_def by (cases s; cases s'; cases s'') simp

lemma only_storeD:
  "only_store s s' \<Longrightarrow> km_authenticated s' = km_authenticated s \<and> km_rootPrimaryKey s' = km_rootPrimaryKey s
    \<and> km_profiles s' = km_profiles s \<and> km_token s' = km_token s \<and> km_underlying s' = km_underlying s
    \<and> km_activeProfileId s' = km_activeProfileId s \<and> km_presentationKey s' = km_presentationKey s"
  unfolding only_store_def by (cases s; cases s') simp

lemma getPrivilegedKey_ok:
  assumes sdk: "sdk_ok sdk" and s: "key_core sdk a s" and e: "env_ok a e" and g: "getPrivilegedKey sdk e s = (s', r)"
  shows "key_core sdk a s' \<and> only_store s s' \<and> (\<forall>k. r = Inr k \<longrightarrow> k = ac_privileged a)"
proof -
  obtain t pm where t: "km_token s = Some t" "token_keys sdk a t" and pm: "km_privileged s = Some pm" "pm_holds sdk (ac_privileged a) pm"
    and root: "km_rootPrimaryKey s = Some (ac_primary a)"
    using s by (auto simp: key_core_def)
  obtain b0 where b0: "ac_privileged a = ks_key_of sdk b0" using s by (auto simp: key_core_def account_ok_def)
  obtain k b where d: "XOR_bytes (ac_primary a) (pw_key sdk a t) = Inr k"
      "decrypt_or_throw sdk k (passwordPrimaryPrivileged t) = Inr b" "ks_key_of sdk b = ac_privileged a"
    using token_keysD(5) [OF t(2)] by blast
  have fetch: "x = ac_privileged a" if "fetch_privileged sdk e s pm = Inr x" for x
    using that pm(2) e d t(1) root token_keysD(1) [OF t(2)]
    by (auto simp: fetch_privileged_def pm_holds_def env_ok_def decrypt_or_throw_def and_then_Inr split: option.splits)
  let ?pm1 = "pm\<lparr>pm_oneTime := None\<rparr>"
  have keep: "key_core sdk a (s\<lparr>km_privileged := Some pm'\<rparr>)" if "pm_holds sdk (ac_privileged a) pm'" for pm'
    using s that by (simp add: key_core_def)
  have only: "only_store s (s\<lparr>km_privileged := x\<rparr>)" for x by (simp add: only_store_def)
  show ?thesis
  proof (cases "if pm_chunks pm \<noteq> [] \<and> pm_pads pm \<noteq> [] then reassembleKeyFromChunks pm else None")
    case (Some raw)
    then have "r = Inr (ks_key_of sdk raw)" "s' = s" using g pm(1) by (auto simp: getPrivilegedKey_def split: if_splits)
    then show ?thesis using s Some pm(2) by (auto simp: pm_holds_def split: if_splits)
  next
    case None
    have h1: "pm_holds sdk (ac_privileged a) ?pm1"
      using pm(2) by (auto simp: pm_holds_def)
    show ?thesis
    proof (cases "fetch_privileged sdk e s pm")
      case (Inl err)
      then have "s' = s\<lparr>km_privileged := Some ?pm1\<rparr>" "r = Inl err" using g pm(1) None by (auto simp: getPrivilegedKey_def split: if_splits)
      then show ?thesis using keep [OF h1] only by simp
    next
      case (Inr x)
      let ?k = "ac_privileged a" let ?b = "replicate (32 - length (ks_key_bytes sdk ?k)) 0 @ ks_key_bytes sdk ?k"
      have x: "x = ?k" by (rule fetch [OF Inr])
      have g32: "get32ByteRepresentation sdk ?k = Inr ?b" unfolding b0 by (rule get32_ok [OF sdk])
      let ?pm' = "store_key (ke_random e) ?b (destroyKey ?pm1)"
      have s': "s' = s\<lparr>km_privileged := Some ?pm'\<rparr>" "r = Inr ?k"
        using g pm(1) None Inr g32 by (auto simp: getPrivilegedKey_def x split: if_splits)
      have len: "length ?b = 32" "list_all is_byte ?b"
        using sdk_okD(5,6) [OF sdk, of b0] by (auto simp: b0 list_all_iff is_byte_def)
      have bk: "reassembleKeyFromChunks ?pm' = Some ?b" "pm_oneTime ?pm' = None"
        using reassemble_store [OF len, of "ke_random e" "destroyKey ?pm1"] e
        by (simp_all add: env_ok_def random_ok_def destroyKey_def)
      have "ks_key_of sdk ?b = ?k" using sdk_okD(7) [OF sdk, of "32 - length (ks_key_bytes sdk ?k)" b0] by (simp add: b0)
      then have "pm_holds sdk ?k ?pm'" using bk by (simp add: pm_holds_def)
      then show ?thesis using s' keep only by simp
    qed
  qed
qed

fun factor_of :: "key_sdk \<Rightarrow> account \<Rightarrow> ump_token \<Rightarrow> factor \<Rightarrow> int list" where
  "factor_of sdk a t PasswordKey = pw_key sdk a t"
| "factor_of sdk a t PresentationKey = ac_presentation a"
| "factor_of sdk a t RecoveryKey = ac_recovery a"
| "factor_of sdk a t PrivilegedKey = ks_key_bytes sdk (ac_privileged a)"

lemma getFactor_ok:
  assumes sdk: "sdk_ok sdk" and s: "key_core sdk a s" and e: "env_ok a e" and t: "km_token s = Some t"
    and g: "getFactor sdk e f s = (s', r)"
  shows "key_core sdk a s' \<and> only_store s s' \<and> (\<forall>b. r = Inr b \<longrightarrow> b = factor_of sdk a t f)"
proof -
  obtain pm where pm: "km_privileged s = Some pm" "km_authenticated s" and tf: "token_keys sdk a t"
    using s t by (auto simp: key_core_def)
  obtain s1 x where p: "getPrivilegedKey sdk e s = (s1, x)" by fastforce
  note h = getPrivilegedKey_ok [OF sdk s e p]
  have u: "ks_unwrap sdk (ac_privileged a) (presentationKeyEncrypted t) = Some (ac_presentation a)"
    "ks_unwrap sdk (ac_privileged a) (passwordKeyEncrypted t) = Some (pw_key sdk a t)"
    "ks_unwrap sdk (ac_privileged a) (recoveryKeyEncrypted t) = Some (ac_recovery a)"
    using tf by (simp_all add: token_keys_def Let_def)
  have s': "s' = s1" using g t pm p by (auto simp: getFactor_def split: sum.splits)
  have "b = factor_of sdk a t f" if b: "r = Inr b" for b
  proof (cases x)
    case (Inl err)
    then show ?thesis using g b t pm p by (simp add: getFactor_def)
  next
    case (Inr k)
    then have "k = ac_privileged a" using h by simp
    then show ?thesis using g b t pm p Inr u by (cases f) (auto simp: getFactor_def split: option.splits)
  qed
  then show ?thesis using h s' by simp
qed

lemma only_store_inv: "key_inv sdk a s \<Longrightarrow> key_core sdk a s' \<Longrightarrow> only_store s s' \<Longrightarrow> key_inv sdk a s'"
  by (simp add: key_inv_def only_storeD)

lemma factor_success:
  assumes sdk: "sdk_ok sdk" and s: "key_core sdk a s" and e: "env_ok a e" and t: "km_token s = Some t"
    and run: "then_do (getFactor sdk e f s) k = (s', Inr x)"
  obtains s1 where "key_core sdk a s1" "only_store s s1" "km_token s1 = Some t" "k s1 (factor_of sdk a t f) = (s', Inr x)"
proof -
  obtain s1 y where g: "getFactor sdk e f s = (s1, y)" by fastforce
  note h = getFactor_ok [OF sdk s e t g]
  have tok: "km_token s1 = Some t" using h only_storeD [of s s1] t by simp
  obtain b where y: "y = Inr b" using run g by (cases y) auto
  then have "b = factor_of sdk a t f" using h by blast
  then have "k s1 (factor_of sdk a t f) = (s', Inr x)" using run g y by simp
  then show ?thesis using that h tok by blast
qed

lemmas key_defs = key_inv_def key_core_def

text \<open>Switching profiles changes the active profile and the wallet, nothing else.\<close>

lemma switchProfile_keeps:
  assumes "switchProfile e i s = (s', r)"
  shows "km_authenticated s' = km_authenticated s \<and> km_rootPrimaryKey s' = km_rootPrimaryKey s
    \<and> km_profiles s' = km_profiles s \<and> km_token s' = km_token s \<and> km_privileged s' = km_privileged s
    \<and> km_presentationKey s' = km_presentationKey s \<and> km_mode s' = km_mode s \<and> km_flow s' = km_flow s
    \<and> km_recoveryKey s' = km_recoveryKey s"
  using assms by (auto simp: switchProfile_def Let_def split: option.splits if_splits sum.splits)

lemma key_inv_cong:
  "key_inv sdk a s \<Longrightarrow> km_authenticated s' = km_authenticated s \<Longrightarrow> km_rootPrimaryKey s' = km_rootPrimaryKey s
    \<Longrightarrow> km_profiles s' = km_profiles s \<Longrightarrow> km_token s' = km_token s \<Longrightarrow> km_privileged s' = km_privileged s \<Longrightarrow> key_inv sdk a s'"
  by (simp add: key_defs)

lemma switchProfile_inv: "switchProfile e i s = (s', r) \<Longrightarrow> key_inv sdk a s \<Longrightarrow> key_inv sdk a s'"
  using switchProfile_keeps [of e i s s' r] key_inv_cong by metis

text \<open>The outcome of an update: the token in force is the old one and still serves the old account, or it is a new
  one that serves the new account; after a success it is the new one.\<close>

definition outcome :: "key_sdk \<Rightarrow> account \<Rightarrow> account \<Rightarrow> key_manager \<Rightarrow> key_manager \<Rightarrow> (chain_error + 'r) \<Rightarrow> bool" where
  "outcome sdk a a' s s' r \<longleftrightarrow> (km_token s' = km_token s \<and> key_inv sdk a s' \<and> (\<forall>x. r \<noteq> Inr x)) \<or> key_inv sdk a' s'"

definition updated :: "key_sdk \<Rightarrow> account \<Rightarrow> account \<Rightarrow> key_manager \<Rightarrow> key_manager \<Rightarrow> (chain_error + 'r) \<Rightarrow> bool" where
  "updated sdk a a' s s' r \<longleftrightarrow> outcome sdk a a' s s' r \<and> km_profiles s' = km_profiles s"

lemmas updated_defs = updated_def outcome_def

lemma updateFactors_ok:
  assumes sdk: "sdk_ok sdk" and s: "key_inv sdk a s" and a': "account_ok sdk a'" "ac_primary a' = ac_primary a"
      "ac_privileged a' = ac_privileged a" "ac_profiles a' = km_profiles s"
    and t: "km_token s = Some t" and d: "derivePasswordKey sdk salt (passwordKdf t) (ac_password a') = Inr pw"
    and u: "updateFactors sdk e salt pw (ac_presentation a') (ac_recovery a') (ac_primary a)
        (ks_key_bytes sdk (ac_privileged a)) (km_profiles s) s = (s', r)"
  shows "updated sdk a a' s s' r"
proof -
  obtain b0 where b0: "ac_privileged a = ks_key_of sdk b0" using s by (auto simp: key_defs account_ok_def)
  have kb: "ks_key_of sdk (ks_key_bytes sdk (ac_privileged a)) = ac_privileged a"
    using sdk_okD(7) [OF sdk, of 0 b0] by (simp add: b0)
  have inv: "km_rootPrimaryKey s = Some (ac_primary a)" "km_authenticated s" "profiles_ok (km_profiles s)" "passwordKdf t \<noteq> None"
    using s t by (auto simp: key_defs)
  define w where "w = wrap_factors sdk e salt pw (ac_presentation a') (ac_recovery a') (ac_primary a)
        (ks_key_bytes sdk (ac_privileged a)) (encrypt_profiles sdk e (ac_primary a) (km_profiles s))
        (if passwordKdf t = None then None else Some 3) (passwordKdf t)"
  note W = w_def [symmetric]
  have new: "token_for sdk a' n \<and> passwordKdf n \<noteq> None" if "w = Inr n" for n
    using wrap_factors_keys [OF sdk, of a' "ks_key_bytes sdk (ac_privileged a)" e salt pw _ _ "passwordKdf t" n]
      encrypted_profiles_load [OF sdk inv(3), of n e "ac_primary a"] that a' kb inv(4) d
    by (simp add: w_def token_for_def)
  have keep: "key_inv sdk a' (x\<lparr>km_token := Some (n\<lparr>currentOutpoint := Some o1\<rparr>)\<rparr>)"
    if "key_inv sdk a x" "km_profiles x = km_profiles s" "w = Inr n" for x n o1
    using that new a' inv(3) by (simp add: key_defs token_for_keys)
  show ?thesis
  proof (cases "currentOutpoint t = None \<or> currentOutpoint t = Some [] \<or> (\<exists>err. w = Inl err)")
    case True
    then have "s' = s \<and> (\<exists>err. r = Inl err)"
      using u inv(1,2) t by (auto simp: updateFactors_def W split: if_splits)
    then show ?thesis using s by (auto simp: updated_defs)
  next
    case False
    then obtain n o0 where n: "w = Inr n" and o0: "currentOutpoint t = Some o0" "o0 \<noteq> []" by (cases w) auto
    let ?df = "is_default (km_activeProfileId s)"
    obtain s1 r1 where sw: "(if ?df then (s, Inr ()) else switchProfile e DEFAULT_PROFILE_ID s) = (s1, r1)" by fastforce
    have s1: "key_inv sdk a s1" "km_profiles s1 = km_profiles s" "km_token s1 = km_token s"
      using sw s switchProfile_inv [of e DEFAULT_PROFILE_ID s s1 r1] switchProfile_keeps [of e DEFAULT_PROFILE_ID s s1 r1]
      by (auto split: if_splits)
    have u': "(s', r) = then_do (s1, r1) (\<lambda>s1 _.
        if km_underlying s1 = None then (s1, Inl (JsError ''Default profile wallet could not be activated''))
        else (case ke_publish e n (Some t) of
            Inl err \<Rightarrow> then_do (if ?df then (s1, Inr ()) else switchProfile e (km_activeProfileId s) s1) (\<lambda>s2 _. (s2, Inl err))
          | Inr outpoint \<Rightarrow> (let s2 = s1\<lparr>km_token := Some (n\<lparr>currentOutpoint := Some outpoint\<rparr>)\<rparr> in
              if ?df then (s2, Inr ()) else switchProfile e (km_activeProfileId s) s2)))"
      using u [symmetric] o0 inv(1,2) t n by (simp add: updateFactors_def W sw Let_def)
    show ?thesis
    proof (cases "(\<exists>x. r1 = Inr x) \<and> km_underlying s1 \<noteq> None")
      case False
      then have "s' = s1 \<and> (\<exists>err. r = Inl err)" using u' by (cases r1) auto
      then show ?thesis using s1 by (auto simp: updated_defs)
    next
      case up: True
      show ?thesis
      proof (cases "ke_publish e n (Some t)")
        case (Inl err)
        obtain s2 r2 where sw2: "(if ?df then (s1, Inr ()) else switchProfile e (km_activeProfileId s) s1) = (s2, r2)" by fastforce
        have "key_inv sdk a s2" "km_token s2 = km_token s1" "km_profiles s2 = km_profiles s1"
          using sw2 s1 switchProfile_inv [of e "km_activeProfileId s" s1 s2 r2] switchProfile_keeps [of e "km_activeProfileId s" s1 s2 r2]
          by (auto split: if_splits)
        moreover have "s' = s2 \<and> (\<exists>err. r = Inl err)" using u' up Inl sw2 by (cases r2) auto
        ultimately show ?thesis using s1 by (auto simp: updated_defs)
      next
        case (Inr o1)
        let ?s2 = "s1\<lparr>km_token := Some (n\<lparr>currentOutpoint := Some o1\<rparr>)\<rparr>"
        have k: "key_inv sdk a' ?s2" by (rule keep [OF s1(1,2) n])
        have "(s', r) = (if ?df then (?s2, Inr ()) else switchProfile e (km_activeProfileId s) ?s2)"
          using u' up Inr by auto
        then have "key_inv sdk a' s' \<and> km_profiles s' = km_profiles s1"
          using k switchProfile_inv [of e "km_activeProfileId s" ?s2 s' r] switchProfile_keeps [of e "km_activeProfileId s" ?s2 s' r]
          by (auto split: if_splits)
        then show ?thesis using s1(2) by (simp add: updated_defs)
      qed
    qed
  qed
qed

text \<open>Reading a factor first, or failing to.\<close>

lemma getFactor_then:
  assumes sdk: "sdk_ok sdk" and s: "key_inv sdk a s" and e: "env_ok a e" and t: "km_token s = Some t"
    and run: "then_do (getFactor sdk e f s) k = (s', r)"
    and k: "\<And>s1. key_inv sdk a s1 \<Longrightarrow> only_store s s1 \<Longrightarrow> k s1 (factor_of sdk a t f) = (s', r) \<Longrightarrow> updated sdk a a' s1 s' r"
  shows "updated sdk a a' s s' r"
proof -
  obtain s1 x where g: "getFactor sdk e f s = (s1, x)" by fastforce
  note h0 = getFactor_ok [OF sdk key_inv_core [OF s] e t g]
  have h: "key_inv sdk a s1 \<and> only_store s s1 \<and> (\<forall>b. x = Inr b \<longrightarrow> b = factor_of sdk a t f)"
    using h0 only_store_inv [OF s] by blast
  have tok: "km_token s1 = km_token s" "km_profiles s1 = km_profiles s" using h only_storeD [of s s1] by simp_all
  show ?thesis
  proof (cases x)
    case (Inl err)
    then show ?thesis using run g h tok by (auto simp: updated_defs)
  next
    case (Inr b)
    then have "k s1 (factor_of sdk a t f) = (s', r)" using run g h by simp
    then have "updated sdk a a' s1 s' r" using k h by blast
    then show ?thesis by (simp add: updated_defs tok)
  qed
qed

lemma key_inv_token: "key_inv sdk a s \<Longrightarrow> \<exists>t. km_token s = Some t \<and> derivePasswordKey sdk (passwordSalt t) (passwordKdf t) (ac_password a) = Inr (pw_key sdk a t)"
  using token_keysD(1) by (fastforce simp: key_inv_def token_for_def derive_for_def)

text \<open>Three factors in a row, each from the store that the one before left.\<close>

lemma three_factors_then:
  assumes sdk: "sdk_ok sdk" and s: "key_inv sdk a s" and e: "env_ok a e" and t: "km_token s = Some t"
    and run: "then_do (getFactor sdk e f1 s) (\<lambda>s1 x1. then_do (getFactor sdk e f2 s1) (\<lambda>s2 x2.
        then_do (getFactor sdk e f3 s2) (\<lambda>s3 x3. k s3 x1 x2 x3))) = (s', r)"
    and k: "\<And>s3. key_inv sdk a s3 \<Longrightarrow> only_store s s3 \<Longrightarrow>
        k s3 (factor_of sdk a t f1) (factor_of sdk a t f2) (factor_of sdk a t f3) = (s', r) \<Longrightarrow> updated sdk a a' s3 s' r"
  shows "updated sdk a a' s s' r"
proof (rule getFactor_then [OF sdk s e t run])
  fix s1 assume 1: "key_inv sdk a s1" "only_store s s1"
    "then_do (getFactor sdk e f2 s1) (\<lambda>s2 x2. then_do (getFactor sdk e f3 s2) (\<lambda>s3 x3. k s3 (factor_of sdk a t f1) x2 x3)) = (s', r)"
  have t1: "km_token s1 = Some t" using 1(2) t by (simp add: only_storeD)
  show "updated sdk a a' s1 s' r"
  proof (rule getFactor_then [OF sdk 1(1) e t1 1(3)])
    fix s2 assume 2: "key_inv sdk a s2" "only_store s1 s2"
      "then_do (getFactor sdk e f3 s2) (\<lambda>s3 x3. k s3 (factor_of sdk a t f1) (factor_of sdk a t f2) x3) = (s', r)"
    have t2: "km_token s2 = Some t" using 2(2) t1 by (simp add: only_storeD)
    show "updated sdk a a' s2 s' r"
      using getFactor_then [OF sdk 2(1) e t2 2(3)] k only_store_trans [OF only_store_trans [OF 1(2) 2(2)]] by blast
  qed
qed

text \<open>The update at the end of every operation, with the factors read back and at most one of them replaced.\<close>

lemma update_with:
  assumes sdk: "sdk_ok sdk" and s: "key_inv sdk a s" and t: "km_token s = Some t"
    and a': "account_ok sdk a'" "ac_primary a' = ac_primary a" "ac_privileged a' = ac_privileged a" "ac_profiles a' = km_profiles s"
    and d: "derivePasswordKey sdk salt (passwordKdf t) (ac_password a') = Inr pw" and st: "key_inv sdk a s3" "only_store s s3"
    and u: "updateFactors sdk e salt pw (ac_presentation a') (ac_recovery a') (ac_primary a)
        (factor_of sdk a t PrivilegedKey) (km_profiles s3) s3 = (s', r)"
  shows "updated sdk a a' s3 s' r"
  using updateFactors_ok [OF sdk st(1) a'(1-3), of t salt pw e s' r] a'(4) u t d only_storeD [OF st(2)] by simp

lemma republish_ok:
  assumes sdk: "sdk_ok sdk" and s: "key_inv sdk a s" and e: "env_ok a e" and run: "republish sdk e s = (s', r)"
  shows "updated sdk a (a\<lparr>ac_profiles := km_profiles s\<rparr>) s s' r"
proof -
  obtain t where t: "km_token s = Some t" "derivePasswordKey sdk (passwordSalt t) (passwordKdf t) (ac_password a) = Inr (pw_key sdk a t)"
    using key_inv_token [OF s] by blast
  have root: "km_rootPrimaryKey s = Some (ac_primary a)" using s by (simp add: key_defs)
  let ?a' = "a\<lparr>ac_profiles := km_profiles s\<rparr>"
  have a': "account_ok sdk ?a'" using s by (simp add: key_defs account_ok_def)
  from run show ?thesis
    unfolding republish_def t(1) root option.case prod.case
  proof (rule getFactor_then [OF sdk s e t(1)])
    fix s1 assume s1: "key_inv sdk a s1" "only_store s s1" and run1: "then_do (getFactor sdk e PresentationKey s1) (\<lambda>s2 pres.
        then_do (getFactor sdk e RecoveryKey s2) (\<lambda>s3 rcv. then_do (getFactor sdk e PrivilegedKey s3) (\<lambda>s4 priv.
        updateFactors sdk e (passwordSalt t) (factor_of sdk a t PasswordKey) pres rcv (ac_primary a) priv (km_profiles s4) s4))) = (s', r)"
    have t1: "km_token s1 = Some t" using s1(2) t(1) by (simp add: only_storeD)
    show "updated sdk a ?a' s1 s' r"
      by (rule three_factors_then [OF sdk s1(1) e t1 run1])
        (rule update_with [OF sdk s t(1) a' _ _ _ _ _ only_store_trans [OF s1(2)]], simp_all add: t(2))
  qed
qed

section \<open>Every operation keeps the promise\<close>

lemma updated_presentation:
  assumes "updated sdk a a' s s1 r"
    "then_do (s1, r) (\<lambda>s4 _. (s4\<lparr>km_presentationKey := (if km_presentationKey s4 = None then None else Some k)\<rparr>, Inr ())) = (s', r')"
  shows "updated sdk a a' s s' r'"
  using assms by (cases r) (auto simp: updated_defs key_defs)

lemma changePassword_ok:
  assumes sdk: "sdk_ok sdk" and s: "key_inv sdk a s" and e: "env_ok a e"
    and run: "changePassword sdk cfg e newPassword s = (s', r)"
  shows "updated sdk a (a\<lparr>ac_password := newPassword, ac_profiles := km_profiles s\<rparr>) s s' r"
proof -
  obtain t kdf where t: "km_token s = Some t" and kdf: "passwordKdf t = Some kdf" using s by (auto simp: key_defs)
  have s0: "opened s" "km_rootPrimaryKey s = Some (ac_primary a)" using s by (auto simp: key_defs opened_def)
  let ?a' = "a\<lparr>ac_password := newPassword, ac_profiles := km_profiles s\<rparr>"
  have a': "account_ok sdk ?a'" using s by (simp add: key_defs account_ok_def)
  show ?thesis
  proof (cases "derivePasswordKey sdk (ke_random e 0 32) (Some kdf) newPassword")
    case (Inl err)
    then show ?thesis using run t kdf s0 s by (auto simp: changePassword_def updated_defs Let_def)
  next
    case (Inr pw)
    have run': "then_do (getFactor sdk e RecoveryKey s) (\<lambda>s1 rcv. then_do (getFactor sdk e PresentationKey s1) (\<lambda>s2 pres.
        then_do (getFactor sdk e PrivilegedKey s2) (\<lambda>s3 priv.
        updateFactors sdk e (ke_random e 0 32) pw pres rcv (ac_primary a) priv (km_profiles s3) s3))) = (s', r)"
      using run t kdf s0 Inr by (simp add: changePassword_def Let_def)
    show ?thesis
      by (rule three_factors_then [OF sdk s e t run']) (rule update_with [OF sdk s t a'], simp_all add: kdf Inr)
  qed
qed

lemma changeRecoveryKey_ok:
  assumes sdk: "sdk_ok sdk" and s: "key_inv sdk a s" and e: "env_ok a e"
    and run: "changeRecoveryKey sdk e s = (s', r)"
  shows "updated sdk a (a\<lparr>ac_recovery := ke_random e 0 32, ac_profiles := km_profiles s\<rparr>) s s' r"
proof -
  obtain t where t: "km_token s = Some t" "derivePasswordKey sdk (passwordSalt t) (passwordKdf t) (ac_password a) = Inr (pw_key sdk a t)"
    using key_inv_token [OF s] by blast
  have s0: "opened s" "km_rootPrimaryKey s = Some (ac_primary a)" using s by (auto simp: key_defs opened_def)
  let ?a' = "a\<lparr>ac_recovery := ke_random e 0 32, ac_profiles := km_profiles s\<rparr>"
  have a': "account_ok sdk ?a'" using s e by (simp add: key_defs account_ok_def env_ok_def random_ok_def key32_def)
  have run': "then_do (getFactor sdk e PasswordKey s) (\<lambda>s1 pw. then_do (getFactor sdk e PresentationKey s1) (\<lambda>s2 pres.
      then_do (getFactor sdk e PrivilegedKey s2) (\<lambda>s3 priv.
      if \<not> ke_saved e then (s3, Inl (JsError ''recoveryKeySaver''))
      else updateFactors sdk e (passwordSalt t) pw pres (ke_random e 0 32) (ac_primary a) priv (km_profiles s3) s3))) = (s', r)"
    using run t s0 by (simp add: changeRecoveryKey_def)
  show ?thesis
  proof (rule three_factors_then [OF sdk s e t(1) run'])
    fix s3 assume s3: "key_inv sdk a s3" "only_store s s3" and u: "(if \<not> ke_saved e then (s3, Inl (JsError ''recoveryKeySaver''))
      else updateFactors sdk e (passwordSalt t) (factor_of sdk a t PasswordKey) (factor_of sdk a t PresentationKey) (ke_random e 0 32)
        (ac_primary a) (factor_of sdk a t PrivilegedKey) (km_profiles s3) s3) = (s', r)"
    show "updated sdk a ?a' s3 s' r"
    proof (cases "ke_saved e")
      case False
      then show ?thesis using u s3 by (auto simp: updated_defs)
    next
      case True
      show ?thesis by (rule update_with [OF sdk s t(1) a' _ _ _ _ s3, where pw = "pw_key sdk a t"]) (use u True t(2) in simp_all)
    qed
  qed
qed

lemma changePresentationKey_ok:
  assumes sdk: "sdk_ok sdk" and s: "key_inv sdk a s" and e: "env_ok a e" and k: "list_all is_byte newKey"
    and run: "changePresentationKey sdk e newKey s = (s', r)"
  shows "updated sdk a (a\<lparr>ac_presentation := newKey, ac_profiles := km_profiles s\<rparr>) s s' r"
proof -
  obtain t where t: "km_token s = Some t" "derivePasswordKey sdk (passwordSalt t) (passwordKdf t) (ac_password a) = Inr (pw_key sdk a t)"
    using key_inv_token [OF s] by blast
  have s0: "opened s" "km_rootPrimaryKey s = Some (ac_primary a)" using s by (auto simp: key_defs opened_def)
  let ?a' = "a\<lparr>ac_presentation := newKey, ac_profiles := km_profiles s\<rparr>"
  show ?thesis
  proof (cases "length newKey = 32")
    case False
    then show ?thesis using run t s0 s by (auto simp: changePresentationKey_def updated_defs)
  next
    case True
    then have a': "account_ok sdk ?a'" using s k by (simp add: key_defs account_ok_def key32_def)
    have run': "then_do (getFactor sdk e RecoveryKey s) (\<lambda>s1 rcv. then_do (getFactor sdk e PasswordKey s1) (\<lambda>s2 pw.
        then_do (getFactor sdk e PrivilegedKey s2) (\<lambda>s3 priv.
        then_do (updateFactors sdk e (passwordSalt t) pw newKey rcv (ac_primary a) priv (km_profiles s3) s3) (\<lambda>s4 _.
         (s4\<lparr>km_presentationKey := (if km_presentationKey s4 = None then None else Some newKey)\<rparr>, Inr ()))))) = (s', r)"
      using run t s0 True by (simp add: changePresentationKey_def)
    show ?thesis
    proof (rule three_factors_then [OF sdk s e t(1) run'])
      fix s3 assume s3: "key_inv sdk a s3" "only_store s s3" and u: "then_do (updateFactors sdk e (passwordSalt t)
          (factor_of sdk a t PasswordKey) newKey (factor_of sdk a t RecoveryKey) (ac_primary a) (factor_of sdk a t PrivilegedKey) (km_profiles s3) s3)
        (\<lambda>s4 _. (s4\<lparr>km_presentationKey := (if km_presentationKey s4 = None then None else Some newKey)\<rparr>, Inr ())) = (s', r)"
      obtain s4 r4 where u4: "updateFactors sdk e (passwordSalt t) (factor_of sdk a t PasswordKey) newKey (factor_of sdk a t RecoveryKey)
          (ac_primary a) (factor_of sdk a t PrivilegedKey) (km_profiles s3) s3 = (s4, r4)" by fastforce
      have "updated sdk a ?a' s3 s4 r4"
        by (rule update_with [OF sdk s t(1) a' _ _ _ _ s3, where pw = "pw_key sdk a t"]) (use u4 t(2) in simp_all)
      then show "updated sdk a ?a' s3 s' r"
        by (rule updated_presentation) (use u u4 in simp)
    qed
  qed
qed

lemma addProfile_ok:
  assumes sdk: "sdk_ok sdk" and s: "key_inv sdk a s" and e: "env_ok a e" "0 \<le> ke_now e"
    and n: "0 < length name" "length name \<le> 250" "length (km_profiles s) < 1000"
    and run: "addProfile sdk e name s = (s', r)"
  shows "outcome sdk a (a\<lparr>ac_profiles := km_profiles s'\<rparr>) s s' r"
proof -
  let ?p = "\<lparr>wp_name = name, wp_id = ke_random e 0 16, wp_primaryPad = ke_random e 1 32,
      wp_privilegedPad = ke_random e 2 32, wp_createdAt = ke_now e div 1000\<rparr>"
  let ?s1 = "s\<lparr>km_profiles := km_profiles s @ [?p]\<rparr>"
  have p: "profile_ok ?p" using n e by (simp add: profile_ok_def key32_def env_ok_def random_ok_def pos_imp_zdiv_nonneg_iff)
  have s1: "key_inv sdk a ?s1" using s p n(3) by (simp add: key_defs profiles_ok_def)
  show ?thesis
  proof (cases "\<not> opened s \<or> name = ''default'' \<or> list_ex (\<lambda>p. js_lower (wp_name p) = js_lower name) (km_profiles s)")
    case True
    then show ?thesis using run s by (auto simp: addProfile_def updated_defs split: if_splits)
  next
    case False
    obtain s2 r2 where rp: "republish sdk e ?s1 = (s2, r2)" by fastforce
    have "updated sdk a (a\<lparr>ac_profiles := km_profiles ?s1\<rparr>) ?s1 s2 r2" by (rule republish_ok [OF sdk s1 e(1) rp])
    moreover have "s' = s2" "(\<exists>x. r = Inr x) = (\<exists>x. r2 = Inr x)"
      using run False rp by (cases r2; auto simp: addProfile_def Let_def)+
    ultimately show ?thesis by (auto simp: updated_defs)
  qed
qed

lemma remove_first_subset: "remove_first P ps = Some qs \<Longrightarrow> set qs \<subseteq> set ps \<and> length qs < length ps"
proof (induction ps arbitrary: qs)
  case (Cons p ps)
  then show ?case by (cases "P p"; cases "remove_first P ps") auto
qed simp

lemma remove_first_ok: "remove_first P ps = Some qs \<Longrightarrow> profiles_ok ps \<Longrightarrow> profiles_ok qs"
  using remove_first_subset [of P ps qs] by (auto simp: profiles_ok_def list_all_iff)

lemma deleteProfile_ok:
  assumes sdk: "sdk_ok sdk" and s: "key_inv sdk a s" and e: "env_ok a e"
    and run: "deleteProfile sdk e i s = (s', r)"
  shows "outcome sdk a (a\<lparr>ac_profiles := km_profiles s'\<rparr>) s s' r"
proof (cases "\<not> opened s \<or> is_default i \<or> remove_first (\<lambda>p. id_matches (wp_id p) i) (km_profiles s) = None")
  case True
  then show ?thesis using run s by (auto simp: deleteProfile_def outcome_def split: if_splits)
next
  case False
  then obtain ps where ps: "remove_first (\<lambda>p. id_matches (wp_id p) i) (km_profiles s) = Some ps" by blast
  let ?s1 = "s\<lparr>km_profiles := ps\<rparr>"
  have s1: "key_inv sdk a ?s1" using s remove_first_ok [OF ps] by (simp add: key_defs)
  obtain s2 r2 where sw: "(if id_matches (km_activeProfileId ?s1) i then switchProfile e DEFAULT_PROFILE_ID ?s1 else (?s1, Inr ())) = (s2, r2)"
    by fastforce
  have s2: "key_inv sdk a s2" "km_token s2 = km_token s" "km_profiles s2 = ps"
    using sw s1 switchProfile_inv [of e DEFAULT_PROFILE_ID ?s1 s2 r2] switchProfile_keeps [of e DEFAULT_PROFILE_ID ?s1 s2 r2]
    by (auto split: if_splits)
  have run': "(s', r) = then_do (s2, r2) (\<lambda>s2 _. republish sdk e s2)"
    using run False ps sw by (simp add: deleteProfile_def Let_def)
  show ?thesis
  proof (cases r2)
    case (Inl err)
    then show ?thesis using run' s2 by (simp add: outcome_def)
  next
    case (Inr x)
    then have "republish sdk e s2 = (s', r)" using run' by simp
    then have "updated sdk a (a\<lparr>ac_profiles := km_profiles s2\<rparr>) s2 s' r" by (rule republish_ok [OF sdk s2(1) e])
    then show ?thesis using s2 by (auto simp: updated_defs)
  qed
qed

lemma setupRoot_inv:
  assumes sdk: "sdk_ok sdk" and a: "account_ok sdk a" "profiles_ok (ac_profiles a)"
    and t: "km_token s = Some t" "token_for sdk a t" "passwordKdf t \<noteq> None"
    and priv: "case priv of None \<Rightarrow> True | Some b \<Rightarrow> ks_key_of sdk b = ac_privileged a"
    and run: "setupRoot sdk (ac_primary a) priv s = (s', r)"
  shows "r = Inr () \<and> key_inv sdk a s' \<and> km_token s' = Some t \<and> km_profiles s' = ac_profiles a"
  using run a t t(2) priv
  by (auto simp: token_for_def setupRoot_def token_profiles_def Let_def key_defs pm_holds_def split: option.splits if_splits)

lemma open_with_inv:
  assumes sdk: "sdk_ok sdk" and a: "account_ok sdk a" "profiles_ok (ac_profiles a)" and t: "token_for sdk a t" "passwordKdf t \<noteq> None"
    and found: "ke_byPresentation e (ks_sha256 sdk (ac_presentation a)) = Inr (Some t)"
      "ke_byRecovery e (ks_sha256 sdk (ac_recovery a)) = Inr (Some t)"
    and run: "open_with sdk cfg e a mode = (s, Inr ())"
  shows "key_inv sdk a s"
proof -
  obtain q priv where q: "open_root sdk e (ac_primary a) priv q = (s, Inr ())" "km_token q = Some t"
      "mode \<noteq> PresentationPassword \<Longrightarrow> \<exists>b. priv = Some b \<and> ks_key_of sdk b = ac_privileged a"
      "mode = PresentationPassword \<Longrightarrow> priv = None"
    using open_with_root [OF a(1) token_for_keys [OF t(1)] found, of cfg mode] run by metis
  then have "case priv of None \<Rightarrow> True | Some b \<Rightarrow> ks_key_of sdk b = ac_privileged a" by (cases mode) auto
  moreover obtain s1 r1 where st: "setupRoot sdk (ac_primary a) priv q = (s1, r1)" by fastforce
  ultimately have "r1 = Inr ()" "key_inv sdk a s1" using setupRoot_inv [OF sdk a q(2) t _ st] by simp_all
  then show ?thesis using q(1) st switchProfile_inv by (auto simp: open_root_def)
qed

section \<open>Runs of an open manager\<close>

text \<open>The calls of an open manager; \<open>Forget\<close> is the timer of the privileged key store.\<close>

datatype key_op =
    ChangePassword string
  | ChangeRecoveryKey
  | ChangePresentationKey "int list"
  | AddProfile string
  | DeleteProfile "int list"
  | SwitchProfile "int list"
  | GetRecoveryKey
  | UsePrivilegedKey
  | Sync
  | Forget

fun succeeded :: "chain_error + 'a \<Rightarrow> bool" where
  "succeeded (Inl _) = False"
| "succeeded (Inr _) = True"

fun key_call :: "key_sdk \<Rightarrow> kdf_config \<Rightarrow> key_manager \<Rightarrow> key_env \<times> key_op \<Rightarrow> key_manager \<times> bool" where
  "key_call sdk cfg s (e, ChangePassword p) = map_prod id succeeded (changePassword sdk cfg e p s)"
| "key_call sdk cfg s (e, ChangeRecoveryKey) = map_prod id succeeded (changeRecoveryKey sdk e s)"
| "key_call sdk cfg s (e, ChangePresentationKey k) = map_prod id succeeded (changePresentationKey sdk e k s)"
| "key_call sdk cfg s (e, AddProfile n) = map_prod id succeeded (addProfile sdk e n s)"
| "key_call sdk cfg s (e, DeleteProfile i) = map_prod id succeeded (deleteProfile sdk e i s)"
| "key_call sdk cfg s (e, SwitchProfile i) = map_prod id succeeded (switchProfile e i s)"
| "key_call sdk cfg s (e, GetRecoveryKey) = map_prod id succeeded (getRecoveryKey sdk e s)"
| "key_call sdk cfg s (e, UsePrivilegedKey) = map_prod id succeeded (profilePrivilegedKey sdk e s)"
| "key_call sdk cfg s (e, Sync) = map_prod id succeeded (syncUMPToken sdk e s)"
| "key_call sdk cfg s (e, Forget) = (forget_privileged s, True)"

text \<open>The account after a call that succeeded or published a token: its new factor, and the manager's profiles.\<close>

fun account_after :: "key_env \<times> key_op \<Rightarrow> key_manager \<Rightarrow> account \<Rightarrow> account" where
  "account_after (e, ChangePassword p) s a = a\<lparr>ac_password := p, ac_profiles := km_profiles s\<rparr>"
| "account_after (e, ChangeRecoveryKey) s a = a\<lparr>ac_recovery := ke_random e 0 32, ac_profiles := km_profiles s\<rparr>"
| "account_after (e, ChangePresentationKey k) s a = a\<lparr>ac_presentation := k, ac_profiles := km_profiles s\<rparr>"
| "account_after (e, AddProfile n) s a = a\<lparr>ac_profiles := km_profiles s\<rparr>"
| "account_after (e, DeleteProfile i) s a = a\<lparr>ac_profiles := km_profiles s\<rparr>"
| "account_after _ s a = a"

definition manager_step :: "key_sdk \<Rightarrow> kdf_config \<Rightarrow> account \<Rightarrow> key_manager \<Rightarrow> account \<Rightarrow> key_env \<times> key_op \<Rightarrow> key_manager \<times> account" where
  "manager_step sdk cfg b s a ev = (let (s', ok) = key_call sdk cfg s ev in
     (s', if km_token s' \<noteq> km_token s \<and> snd ev = Sync then b
          else if ok \<or> km_token s' \<noteq> km_token s then account_after ev s' a else a))"

text \<open>What a call asks of the outside world: random bytes, a password that is not typed or is the one its manager's token
  was made with, names of new profiles of 1 to 250 characters and at most 1000 of them, a new presentation key of
  bytes; and a refresh finds no token but the one published last.\<close>

fun call_legal :: "ump_token \<Rightarrow> key_manager \<Rightarrow> account \<Rightarrow> key_env \<times> key_op \<Rightarrow> bool" where
  "call_legal t s a (e, op) = (env_ok a e \<and> (case op of
     AddProfile n \<Rightarrow> 0 < length n \<and> length n \<le> 250 \<and> length (km_profiles s) < 1000 \<and> 0 \<le> ke_now e
   | ChangePresentationKey k \<Rightarrow> list_all is_byte k
   | Sync \<Rightarrow> (\<forall>h t'. ke_byPresentation e h = Inr (Some t') \<or> ke_byRecovery e h = Inr (Some t') \<longrightarrow> t' = t)
   | _ \<Rightarrow> True))"

lemma call_result [simp]: "map_prod id succeeded c = (s', ok) \<longleftrightarrow> (\<exists>r. c = (s', r) \<and> ok = succeeded r)"
  by (cases c) auto

lemma outcome_step:
  assumes s: "key_inv sdk a s" and o1: "outcome sdk a a' s s' r" and a': "ac_primary a' = ac_primary a" "ac_privileged a' = ac_privileged a"
  shows "key_inv sdk (if succeeded r \<or> km_token s' \<noteq> km_token s then a' else a) s'"
proof (cases "succeeded r \<or> km_token s' \<noteq> km_token s")
  case True
  then show ?thesis using o1 by (cases r) (auto simp: outcome_def)
next
  case False
  then show ?thesis using o1 s a' by (auto simp: outcome_def key_defs)
qed

lemma getFactor_inv:
  assumes "sdk_ok sdk" "key_inv sdk a s" "env_ok a e" "getFactor sdk e f s = (s', r)"
  shows "key_inv sdk a s'"
proof -
  obtain t where "km_token s = Some t" using assms(2) by (auto simp: key_defs)
  from getFactor_ok [OF assms(1) key_inv_core [OF assms(2)] assms(3) this assms(4)] show ?thesis
    using only_store_inv [OF assms(2)] by blast
qed

lemma profilePrivilegedKey_inv:
  "sdk_ok sdk \<Longrightarrow> key_inv sdk a s \<Longrightarrow> env_ok a e \<Longrightarrow> profilePrivilegedKey sdk e s = (s', r) \<Longrightarrow> key_inv sdk a s'"
proof -
  assume h: "sdk_ok sdk" "key_inv sdk a s" "env_ok a e" "profilePrivilegedKey sdk e s = (s', r)"
  obtain s1 x where g: "getPrivilegedKey sdk e s = (s1, x)" by fastforce
  have "key_inv sdk a s1" using getPrivilegedKey_ok [OF h(1) key_inv_core [OF h(2)] h(3) g] only_store_inv [OF h(2)] by blast
  moreover have "s' = s \<or> s' = s1"
    using h(4) g by (cases x) (auto simp: profilePrivilegedKey_def split: option.splits)
  ultimately show "key_inv sdk a s'" using h(2) by blast
qed

definition same_root :: "account \<Rightarrow> account \<Rightarrow> bool" where
  "same_root a b \<longleftrightarrow> ac_primary a = ac_primary b \<and> ac_privileged a = ac_privileged b"

text \<open>A token that can be loaded for an account.\<close>

definition serves :: "key_sdk \<Rightarrow> account \<Rightarrow> ump_token \<Rightarrow> bool" where
  "serves sdk a t \<longleftrightarrow> token_for sdk a t \<and> passwordKdf t \<noteq> None \<and> account_ok sdk a \<and> profiles_ok (ac_profiles a)"

lemma syncUMPToken_inv:
  assumes sdk: "sdk_ok sdk" and s: "key_inv sdk a s" "profiles_ok (ac_profiles a)"
    and l: "\<And>h t'. ke_byPresentation e h = Inr (Some t') \<or> ke_byRecovery e h = Inr (Some t') \<Longrightarrow> t' = tn"
    and b: "serves sdk b tn" "same_root a b" and run: "syncUMPToken sdk e s = (s', r)"
  shows "key_inv sdk (if km_token s' \<noteq> km_token s then b else a) s'"
proof -
  obtain t where t: "km_token s = Some t" "km_rootPrimaryKey s = Some (ac_primary a)" "km_authenticated s" and a: "account_ok sdk a"
    using s(1) by (auto simp: key_defs)
  define q where "q = and_then (if presentationHash t = [] then Inr None else ke_byPresentation e (presentationHash t)) (\<lambda>r.
      if r = None \<and> recoveryHash t \<noteq> [] then ke_byRecovery e (recoveryHash t) else Inr r)"
  have run': "(s', r) = then_do (s, q) (\<lambda>s r. case r of
        None \<Rightarrow> (s, Inr False)
      | Some t' \<Rightarrow>
          if currentOutpoint t' \<noteq> None \<and> currentOutpoint t' \<noteq> Some [] \<and> currentOutpoint t' = currentOutpoint t
          then (s, Inr False)
          else then_do (setupRoot sdk (ac_primary a) None (s\<lparr>km_token := Some t'\<rparr>)) (\<lambda>s1 _.
            (s1, and_then (saveSnapshot sdk e s1) (\<lambda>_. Inr True))))"
    unfolding run [symmetric] by (simp only: syncUMPToken_def q_def option.case prod.case t not_True_eq_False if_False)
  show ?thesis
  proof (cases "\<exists>t'. q = Inr (Some t')")
    case False
    then have "s' = s" using run' by (cases q) (auto split: option.splits)
    then show ?thesis using s by simp
  next
    case True
    then obtain t' where q: "q = Inr (Some t')" by blast
    then have "ke_byPresentation e (presentationHash t) = Inr (Some t') \<or> ke_byRecovery e (recoveryHash t) = Inr (Some t')"
      by (auto simp: q_def and_then_Inr split: if_splits)
    then have t': "t' = tn" using l by blast
    obtain s1 r1 where st: "setupRoot sdk (ac_primary a) None (s\<lparr>km_token := Some t'\<rparr>) = (s1, r1)" by fastforce
    let ?c = "if t' \<noteq> t then b else a"
    have c: "account_ok sdk ?c" "profiles_ok (ac_profiles ?c)" "token_for sdk ?c t'" "passwordKdf t' \<noteq> None" "ac_primary ?c = ac_primary a"
      using b s t(1) t' by (auto simp: key_defs serves_def same_root_def)
    have "r1 = Inr ()" "key_inv sdk ?c s1" "km_token s1 = Some t'"
      using setupRoot_inv [OF sdk c(1,2) _ c(3,4), of "s\<lparr>km_token := Some t'\<rparr>" None s1 r1] st c(5) by simp_all
    then show ?thesis using run' q s st t(1) by (auto split: if_splits)
  qed
qed

lemma manager_step_inv:
  assumes sdk: "sdk_ok sdk" and s: "key_inv sdk a s" "profiles_ok (ac_profiles a)" and l: "call_legal tn s a (e, ev)"
    and b: "serves sdk b tn" "same_root a b" and st: "manager_step sdk cfg b s a (e, ev) = (s', a')"
  shows "key_inv sdk a' s' \<and> profiles_ok (ac_profiles a') \<and> same_root a' b"
proof -
  have e: "env_ok a e" using l by simp
  have a'_profiles: "profiles_ok (ac_profiles a')" if "key_inv sdk a' s'"
  proof -
    have "ac_profiles a' = ac_profiles a \<or> ac_profiles a' = km_profiles s' \<or> ac_profiles a' = ac_profiles b"
      using st by (cases ev) (auto simp: manager_step_def Let_def split: prod.splits if_splits)
    then show ?thesis using that s(2) b(1) by (auto simp: key_defs serves_def)
  qed
  have "key_inv sdk a' s'"
  proof (cases ev)
    case (ChangePassword p)
    obtain r where r: "changePassword sdk cfg e p s = (s', r)" "a' = (if succeeded r \<or> km_token s' \<noteq> km_token s then account_after (e, ev) s' a else a)"
      using st ChangePassword by (auto simp: manager_step_def Let_def split: prod.splits)
    have "updated sdk a (a\<lparr>ac_password := p, ac_profiles := km_profiles s\<rparr>) s s' r" by (rule changePassword_ok [OF sdk s(1) e r(1)])
    then show ?thesis using outcome_step [OF s(1), of _ s' r] r(2) ChangePassword by (simp add: updated_def)
  next
    case ChangeRecoveryKey
    obtain r where r: "changeRecoveryKey sdk e s = (s', r)" "a' = (if succeeded r \<or> km_token s' \<noteq> km_token s then account_after (e, ev) s' a else a)"
      using st ChangeRecoveryKey by (auto simp: manager_step_def Let_def split: prod.splits)
    have "updated sdk a (a\<lparr>ac_recovery := ke_random e 0 32, ac_profiles := km_profiles s\<rparr>) s s' r"
      by (rule changeRecoveryKey_ok [OF sdk s(1) e r(1)])
    then show ?thesis using outcome_step [OF s(1), of _ s' r] r(2) ChangeRecoveryKey by (simp add: updated_def)
  next
    case (ChangePresentationKey k)
    obtain r where r: "changePresentationKey sdk e k s = (s', r)" "a' = (if succeeded r \<or> km_token s' \<noteq> km_token s then account_after (e, ev) s' a else a)"
      using st ChangePresentationKey by (auto simp: manager_step_def Let_def split: prod.splits)
    have "updated sdk a (a\<lparr>ac_presentation := k, ac_profiles := km_profiles s\<rparr>) s s' r"
      by (rule changePresentationKey_ok [OF sdk s(1) e _ r(1)]) (use l ChangePresentationKey in simp)
    then show ?thesis using outcome_step [OF s(1), of _ s' r] r(2) ChangePresentationKey by (simp add: updated_def)
  next
    case (AddProfile n)
    obtain r where r: "addProfile sdk e n s = (s', r)" "a' = (if succeeded r \<or> km_token s' \<noteq> km_token s then account_after (e, ev) s' a else a)"
      using st AddProfile by (auto simp: manager_step_def Let_def split: prod.splits)
    have "outcome sdk a (a\<lparr>ac_profiles := km_profiles s'\<rparr>) s s' r"
      by (rule addProfile_ok [OF sdk s(1) e _ _ _ _ r(1)]) (use l AddProfile in simp_all)
    then show ?thesis using outcome_step [OF s(1), of _ s' r] r(2) AddProfile by simp
  next
    case (DeleteProfile i)
    obtain r where r: "deleteProfile sdk e i s = (s', r)" "a' = (if succeeded r \<or> km_token s' \<noteq> km_token s then account_after (e, ev) s' a else a)"
      using st DeleteProfile by (auto simp: manager_step_def Let_def split: prod.splits)
    have "outcome sdk a (a\<lparr>ac_profiles := km_profiles s'\<rparr>) s s' r" by (rule deleteProfile_ok [OF sdk s(1) e r(1)])
    then show ?thesis using outcome_step [OF s(1), of _ s' r] r(2) DeleteProfile by simp
  next
    case (SwitchProfile i)
    obtain r where "switchProfile e i s = (s', r)" "a' = a" using st SwitchProfile by (auto simp: manager_step_def Let_def split: prod.splits if_splits)
    then show ?thesis using switchProfile_inv s(1) by blast
  next
    case GetRecoveryKey
    obtain r where r: "getRecoveryKey sdk e s = (s', r)" "a' = a" using st GetRecoveryKey by (auto simp: manager_step_def Let_def split: prod.splits if_splits)
    then show ?thesis using getFactor_inv [OF sdk s(1) e, of RecoveryKey s' r] s(1) by (auto simp: getRecoveryKey_def split: if_splits)
  next
    case UsePrivilegedKey
    obtain r where r: "profilePrivilegedKey sdk e s = (s', r)" "a' = a" using st UsePrivilegedKey by (auto simp: manager_step_def Let_def split: prod.splits if_splits)
    then show ?thesis using profilePrivilegedKey_inv [OF sdk s(1) e] by blast
  next
    case Sync
    obtain r where r: "syncUMPToken sdk e s = (s', r)" "a' = (if km_token s' \<noteq> km_token s then b else a)"
      using st Sync by (auto simp: manager_step_def Let_def split: prod.splits if_splits)
    have "key_inv sdk (if km_token s' \<noteq> km_token s then b else a) s'"
      by (rule syncUMPToken_inv [OF sdk s _ b r(1)]) (use l Sync in auto)
    then show ?thesis using r(2) by simp
  next
    case Forget
    then have "s' = forget_privileged s" "a' = a" using st by (auto simp: manager_step_def Let_def)
    then show ?thesis using s(1) by (auto simp: forget_privileged_def key_defs pm_holds_def destroyKey_def)
  qed
  moreover have "same_root a' b"
    using st b(2) by (cases ev) (auto simp: manager_step_def same_root_def Let_def split: prod.splits if_splits)
  ultimately show ?thesis using a'_profiles by blast
qed

section \<open>All managers of an account\<close>

text \<open>An account may be open on several devices. Each manager is kept with the account as it knows it; \<open>kw_token\<close> is the
  token published last and \<open>kw_account\<close> the account as the manager that published it knows it. A manager that has not
  noticed another's change goes on with its older token until it refreshes.\<close>

record key_world =
  kw_managers :: "(key_manager \<times> account) list"
  kw_token :: ump_token
  kw_account :: account

datatype key_event =
    Call nat key_op
  | Open auth_mode

fun publishes :: "key_op \<Rightarrow> bool" where
  "publishes (ChangePassword p) = True"
| "publishes ChangeRecoveryKey = True"
| "publishes (ChangePresentationKey k) = True"
| "publishes (AddProfile n) = True"
| "publishes (DeleteProfile i) = True"
| "publishes _ = False"

fun key_step :: "key_sdk \<Rightarrow> kdf_config \<Rightarrow> key_world \<Rightarrow> key_env \<times> key_event \<Rightarrow> key_world" where
  "key_step sdk cfg w (e, Call i op) =
     (if i < length (kw_managers w) then
        (let (s, a) = kw_managers w ! i; (s', a') = manager_step sdk cfg (kw_account w) s a (e, op);
             w' = w\<lparr>kw_managers := (kw_managers w)[i := (s', a')]\<rparr> in
         case km_token s' of
           Some t \<Rightarrow> if publishes op \<and> (snd (key_call sdk cfg s (e, op)) \<or> km_token s' \<noteq> km_token s)
             then w'\<lparr>kw_token := t, kw_account := a'\<rparr> else w'
         | None \<Rightarrow> w')
      else w)"
| "key_step sdk cfg w (e, Open mode) = (case open_with sdk cfg e (kw_account w) mode of
     (s, Inr _) \<Rightarrow> w\<lparr>kw_managers := kw_managers w @ [(s, kw_account w)]\<rparr>
   | _ \<Rightarrow> w)"

text \<open>Whoever opens the account uses the factors in force, and the lookups by their hashes find the token published last.\<close>

fun key_legal :: "key_sdk \<Rightarrow> key_world \<Rightarrow> key_env \<times> key_event \<Rightarrow> bool" where
  "key_legal sdk w (e, Call i op) = (i < length (kw_managers w)
     \<and> (case kw_managers w ! i of (s, a) \<Rightarrow> call_legal (kw_token w) s a (e, op)))"
| "key_legal sdk w (e, Open mode) =
     (ke_byPresentation e (ks_sha256 sdk (ac_presentation (kw_account w))) = Inr (Some (kw_token w))
      \<and> ke_byRecovery e (ks_sha256 sdk (ac_recovery (kw_account w))) = Inr (Some (kw_token w)))"

definition key_world_ok :: "key_sdk \<Rightarrow> account \<Rightarrow> key_world \<Rightarrow> bool" where
  "key_world_ok sdk root w \<longleftrightarrow> serves sdk (kw_account w) (kw_token w) \<and> same_root (kw_account w) root
     \<and> (\<forall>(s, a) \<in> set (kw_managers w). key_inv sdk a s \<and> profiles_ok (ac_profiles a) \<and> same_root a root)"

lemma key_inv_serves: "key_inv sdk a s \<Longrightarrow> profiles_ok (ac_profiles a) \<Longrightarrow> km_token s = Some t \<Longrightarrow> serves sdk a t"
  by (auto simp: serves_def key_defs)

lemma key_step_ok:
  assumes sdk: "sdk_ok sdk" and w: "key_world_ok sdk root w" and l: "key_legal sdk w (e, ev)"
  shows "key_world_ok sdk root (key_step sdk cfg w (e, ev))"
proof (cases ev)
  case (Call i op)
  obtain s a where i: "i < length (kw_managers w)" "kw_managers w ! i = (s, a)" "call_legal (kw_token w) s a (e, op)"
    using l Call by (auto split: prod.splits)
  then have "(s, a) \<in> set (kw_managers w)" by (metis nth_mem)
  then have s: "key_inv sdk a s" "profiles_ok (ac_profiles a)" "same_root a root" using w by (auto simp: key_world_ok_def)
  obtain s' a' where st: "manager_step sdk cfg (kw_account w) s a (e, op) = (s', a')" by fastforce
  have b: "serves sdk (kw_account w) (kw_token w)" "same_root a (kw_account w)" "same_root (kw_account w) root"
    using w s(3) by (simp_all add: key_world_ok_def same_root_def)
  have s': "key_inv sdk a' s'" "profiles_ok (ac_profiles a')" "same_root a' root"
    using manager_step_inv [OF sdk s(1,2) i(3) b(1,2) st] b(3) by (simp_all add: same_root_def)
  have all: "\<forall>(s, a) \<in> set ((kw_managers w)[i := (s', a')]). key_inv sdk a s \<and> profiles_ok (ac_profiles a) \<and> same_root a root"
    using w s' set_update_subset_insert [of "kw_managers w" i "(s', a')"] by (fastforce simp: key_world_ok_def)
  obtain t where t: "km_token s' = Some t" using s'(1) by (auto simp: key_defs)
  show ?thesis
    using Call i(1,2) st t all b(1,3) s'(3) key_inv_serves [OF s'(1,2) t] by (simp add: key_world_ok_def Let_def)
next
  case (Open mode)
  show ?thesis
  proof (cases "open_with sdk cfg e (kw_account w) mode")
    case (Pair s r)
    have b: "account_ok sdk (kw_account w)" "profiles_ok (ac_profiles (kw_account w))" "token_for sdk (kw_account w) (kw_token w)"
        "passwordKdf (kw_token w) \<noteq> None"
      using w by (simp_all add: key_world_ok_def serves_def)
    have "key_inv sdk (kw_account w) s" if "r = Inr ()"
      using open_with_inv [OF sdk b, of e cfg mode s] Pair l Open that by simp
    then show ?thesis using Pair w Open b(2) by (cases r) (auto simp: key_world_ok_def)
  qed
qed

interpretation keys: guarded_machine "key_step sdk cfg" "key_legal sdk" "\<lambda>w. sdk_ok sdk \<and> key_world_ok sdk root w" for sdk cfg root
proof
  fix w ev assume "sdk_ok sdk \<and> key_world_ok sdk root w" "key_legal sdk w ev"
  then show "sdk_ok sdk \<and> key_world_ok sdk root (key_step sdk cfg w ev)"
    using key_step_ok [of sdk root w "fst ev" "snd ev" cfg] by simp
qed

end
