(* ===== verification/Key_Runs.thy ===== *)
theory Key_Runs
  imports Key_Account
begin

text \<open>
  Whole lives of an account: created, changed by any calls, opened again with two factors, saved and loaded; and two
  calls that lock the user out. The witnesses are in \<open>Key_Demo\<close>.
\<close>

section \<open>Two factors are enough\<close>

text \<open>C34. Any two of the three factors open the account: from a new manager, the two calls of each mode succeed and
  end with the account's root key, its profiles and the default wallet; and both modes with the recovery key
  also recover the privileged root key without asking for a password.\<close>

theorem two_factors_open_the_account:
  assumes sdk: "sdk_ok sdk" and a: "account_ok sdk a" and t: "token_for sdk a t"
    and found: "ke_byPresentation e (ks_sha256 sdk (ac_presentation a)) = Inr (Some t)"
      "ke_byRecovery e (ks_sha256 sdk (ac_recovery a)) = Inr (Some t)" and build: "\<And>w. ke_build e w"
  shows "let (s, r) = open_with sdk cfg e a mode in
     r = Inr () \<and> open_as a s \<and> km_token s = Some t
     \<and> (mode = PresentationPassword \<or> snd (getPrivilegedKey sdk (e\<lparr>ke_password := None\<rparr>) s) = Inr (ac_privileged a))"
proof -
  obtain q priv where q: "open_with sdk cfg e a mode = open_root sdk e (ac_primary a) priv q" "km_token q = Some t"
      "is_default (km_activeProfileId q)"
      "mode \<noteq> PresentationPassword \<Longrightarrow> \<exists>b. priv = Some b \<and> ks_key_of sdk b = ac_privileged a"
    using open_with_root [OF a token_for_keys [OF t] found] by metis
  have "token_profiles sdk (ac_primary a) t = Some (ac_profiles a)" using t by (simp add: token_for_def)
  then obtain s where s: "open_root sdk e (ac_primary a) priv q = (s, Inr ())" "open_as a s" "km_token s = Some t"
      "km_privileged s = Some \<lparr>pm_chunks = [], pm_pads = [], pm_oneTime = map_option (ks_key_of sdk) priv\<rparr>"
    using open_root_ok [OF q(2) _ q(3) build] by blast
  have "snd (getPrivilegedKey sdk e' s) = Inr (ac_privileged a)" if ne: "mode \<noteq> PresentationPassword" for e'
  proof -
    obtain b where "priv = Some b" "ac_privileged a = ks_key_of sdk b" using q(4) [OF ne] by auto
    then show ?thesis using getPrivilegedKey_oneTime [OF sdk, of s b] s(4) by simp
  qed
  then show ?thesis using q(1) s by auto
qed

section \<open>Creation\<close>

definition new_account :: "key_sdk \<Rightarrow> key_env \<Rightarrow> int list \<Rightarrow> string \<Rightarrow> account" where
  "new_account sdk e pres password = \<lparr>ac_presentation = pres, ac_password = password, ac_recovery = ke_random e 0 32,
     ac_primary = ke_random e 2 32, ac_privileged = ks_key_of sdk (ke_random e 3 32), ac_profiles = []\<rparr>"

text \<open>The two calls of a new user.\<close>

definition sign_up :: "key_sdk \<Rightarrow> kdf_config \<Rightarrow> key_env \<Rightarrow> int list \<Rightarrow> string \<Rightarrow> key_manager \<times> (chain_error + unit)" where
  "sign_up sdk cfg e pres password = then_do (providePresentationKey sdk e pres (fresh_manager PresentationPassword))
     (\<lambda>s _. providePassword sdk cfg e password s)"

lemma sign_up_ok:
  assumes sdk: "sdk_ok sdk" and r: "random_ok e" and new: "ke_byPresentation e (ks_sha256 sdk pres) = Inr None"
    and run: "sign_up sdk cfg e pres password = (s, Inr ())"
  shows "key_inv sdk (new_account sdk e pres password) s"
proof -
  let ?a = "new_account sdk e pres password"
  let ?s = "fresh_manager PresentationPassword\<lparr>km_flow := NewUser, km_presentationKey := Some pres\<rparr>"
  have k: "key32 pres" using run by (auto simp: sign_up_def providePresentationKey_def fresh_manager_def split: if_splits)
  have run1: "createNewUser sdk cfg e password ?s = (s, Inr ())"
    using run new k by (simp add: sign_up_def providePresentationKey_def fresh_manager_def providePassword_def Let_def)
  obtain pw n where pw: "derivePasswordKey sdk (ke_random e 1 32) (Some cfg) password = Inr pw"
    and n: "wrap_factors sdk e (ke_random e 1 32) pw pres (ke_random e 0 32) (ke_random e 2 32) (ke_random e 3 32) None (Some 3) (Some cfg) = Inr n"
    and rest: "then_do (setupRoot sdk (ke_random e 2 32) None (?s\<lparr>km_token := Some n\<rparr>)) (\<lambda>s1 _.
        then_do (switchProfile e DEFAULT_PROFILE_ID s1) (\<lambda>s2 _.
        if \<not> ke_funded e then (s2, Inl (JsError ''Failed to fund new wallet before publishing UMP token''))
        else case ke_publish e n None of
          Inl err \<Rightarrow> (s2, Inl err)
        | Inr outpoint \<Rightarrow> (s2\<lparr>km_token := Some (n\<lparr>currentOutpoint := Some outpoint\<rparr>)\<rparr>, Inr ()))) = (s, Inr ())"
    using run1 by (auto simp: createNewUser_def fresh_manager_def Let_def then_do_Inr and_then_Inr split: if_splits)
  have nk: "token_keys sdk ?a n" "passwordKdf n = Some cfg" "profilesEncrypted n = None"
    using wrap_factors_keys [OF sdk, of ?a "ke_random e 3 32" e "ke_random e 1 32" pw None "Some 3" "Some cfg" n] n pw
    by (simp_all add: new_account_def)
  have nt: "token_for sdk ?a n" using nk by (simp add: token_for_def token_profiles_def new_account_def)
  have a: "account_ok sdk ?a" using k r by (auto simp: account_ok_def new_account_def random_ok_def key32_def)
  obtain s1 where s1: "setupRoot sdk (ke_random e 2 32) None (?s\<lparr>km_token := Some n\<rparr>) = (s1, Inr ())"
    and rest1: "then_do (switchProfile e DEFAULT_PROFILE_ID s1) (\<lambda>s2 _.
        if \<not> ke_funded e then (s2, Inl (JsError ''Failed to fund new wallet before publishing UMP token''))
        else case ke_publish e n None of
          Inl err \<Rightarrow> (s2, Inl err)
        | Inr outpoint \<Rightarrow> (s2\<lparr>km_token := Some (n\<lparr>currentOutpoint := Some outpoint\<rparr>)\<rparr>, Inr ())) = (s, Inr ())"
    using rest by (auto simp: then_do_Inr)
  have "key_inv sdk ?a s1"
    using setupRoot_inv [OF sdk a _ _ nt, of "?s\<lparr>km_token := Some n\<rparr>" None s1 "Inr ()"] s1 nk(2)
    by (simp add: new_account_def profiles_ok_def)
  moreover obtain s2 where s2: "switchProfile e DEFAULT_PROFILE_ID s1 = (s2, Inr ())" using rest1 by (auto simp: then_do_Inr)
  ultimately have "key_inv sdk ?a s2" using switchProfile_inv by blast
  moreover obtain o1 where "s = s2\<lparr>km_token := Some (n\<lparr>currentOutpoint := Some o1\<rparr>)\<rparr>"
    using rest1 s2 by (auto split: if_splits sum.splits)
  ultimately show ?thesis using nt nk by (simp add: key_defs)
qed

text \<open>The account right after it has been created, open on one device.\<close>

definition first_world :: "key_manager \<Rightarrow> ump_token \<Rightarrow> account \<Rightarrow> key_world" where
  "first_world s t a = \<lparr>kw_managers = [(s, a)], kw_token = t, kw_account = a\<rparr>"

text \<open>C33. From its creation on, whatever calls follow on any number of devices, whichever of them fail and wherever the
  account is opened again: the token published last opens with any two of the factors that the account has
  after that publication, the root keys are still the ones drawn at its creation, and every open manager has them and
  holds a token that opens with the factors as it knows them. Conditions: names of added profiles have 1 to 250 characters
  and there are at most 1000 profiles (\<open>nameless_profile_locks_account\<close> shows what a longer or empty name does); a
  new presentation key consists of bytes; a password is only typed as the manager's token has it; a refresh finds no token
  but the one published last, and whoever opens the account finds that one with the factors in force (the promise of a
  lookup, C38).\<close>

theorem account_survives_every_run:
  assumes "sdk_ok sdk" "random_ok e" "ke_byPresentation e (ks_sha256 sdk pres) = Inr None"
    and "sign_up sdk cfg e pres password = (s0, Inr ())" "km_token s0 = Some t0"
    and "legal_run (key_legal sdk) (key_step sdk cfg) (first_world s0 t0 (new_account sdk e pres password)) es"
  shows "let w = fold_steps (key_step sdk cfg) (first_world s0 t0 (new_account sdk e pres password)) es; a = kw_account w in
     token_for sdk a (kw_token w) \<and> account_ok sdk a \<and> ac_primary a = ke_random e 2 32 \<and> ac_privileged a = ks_key_of sdk (ke_random e 3 32)
     \<and> (\<forall>(s, a') \<in> set (kw_managers w). km_authenticated s \<and> km_rootPrimaryKey s = Some (ke_random e 2 32)
         \<and> (case km_token s of None \<Rightarrow> False | Some t \<Rightarrow> token_for sdk a' t \<and> ac_privileged a' = ks_key_of sdk (ke_random e 3 32)))"
proof -
  let ?a0 = "new_account sdk e pres password" let ?w0 = "first_world s0 t0 ?a0"
  have "key_inv sdk ?a0 s0" by (rule sign_up_ok [OF assms(1-4)])
  moreover have "profiles_ok (ac_profiles ?a0)" by (simp add: new_account_def profiles_ok_def)
  ultimately have "key_world_ok sdk ?a0 ?w0"
    using key_inv_serves [of sdk ?a0 s0 t0] assms(5) by (simp add: key_world_ok_def first_world_def same_root_def)
  then have w: "key_world_ok sdk ?a0 (fold_steps (key_step sdk cfg) ?w0 es)"
    using keys.guarded_run_inv [where s = ?w0 and sdk = sdk and root = ?a0 and cfg = cfg and es = es] assms(1,6) by simp
  have open_manager: "km_authenticated s \<and> km_rootPrimaryKey s = Some (ac_primary a')
      \<and> (case km_token s of None \<Rightarrow> False | Some t \<Rightarrow> token_for sdk a' t)" if "key_inv sdk a' s" for a' s
    using that by (auto simp: key_defs)
  show ?thesis
    using w open_manager by (fastforce simp: key_world_ok_def serves_def same_root_def new_account_def Let_def split: option.splits)
qed

section \<open>Locked out\<close>

lemma updateFactors_success:
  assumes "updateFactors sdk e salt pw pres rcv root priv ps s = (s', Inr ())"
  obtains old n o1 where "km_token s = Some old"
    "wrap_factors sdk e salt pw pres rcv root priv (encrypt_profiles sdk e root ps)
       (if passwordKdf old = None then None else Some 3) (passwordKdf old) = Inr n"
    "km_token s' = Some (n\<lparr>currentOutpoint := Some o1\<rparr>)"
  using assms switchProfile_keeps
  by (fastforce simp: updateFactors_def Let_def then_do_Inr split: option.splits if_splits sum.splits)

lemma republish_success:
  assumes sdk: "sdk_ok sdk" and s: "key_core sdk a s" and e: "env_ok a e" and run: "republish sdk e s = (s', Inr ())"
  obtains n o1 where "token_keys sdk a n" "profilesEncrypted n = encrypt_profiles sdk e (ac_primary a) (km_profiles s)"
    "km_token s' = Some (n\<lparr>currentOutpoint := Some o1\<rparr>)"
proof -
  obtain t where t: "km_token s = Some t" "token_keys sdk a t" and root: "km_rootPrimaryKey s = Some (ac_primary a)"
    using s by (auto simp: key_core_def)
  have run': "then_do (getFactor sdk e PasswordKey s) (\<lambda>s1 pw. then_do (getFactor sdk e PresentationKey s1) (\<lambda>s2 pres.
       then_do (getFactor sdk e RecoveryKey s2) (\<lambda>s3 rcv. then_do (getFactor sdk e PrivilegedKey s3) (\<lambda>s4 priv.
       updateFactors sdk e (passwordSalt t) pw pres rcv (ac_primary a) priv (km_profiles s4) s4)))) = (s', Inr ())"
    using run t(1) root by (simp add: republish_def)
  obtain s1 where 1: "key_core sdk a s1" "only_store s s1" "km_token s1 = Some t"
      "then_do (getFactor sdk e PresentationKey s1) (\<lambda>s2 pres. then_do (getFactor sdk e RecoveryKey s2) (\<lambda>s3 rcv.
       then_do (getFactor sdk e PrivilegedKey s3) (\<lambda>s4 priv. updateFactors sdk e (passwordSalt t) (factor_of sdk a t PasswordKey)
         pres rcv (ac_primary a) priv (km_profiles s4) s4))) = (s', Inr ())"
    by (rule factor_success [OF sdk s e t(1) run'])
  obtain s2 where 2: "key_core sdk a s2" "only_store s1 s2" "km_token s2 = Some t"
      "then_do (getFactor sdk e RecoveryKey s2) (\<lambda>s3 rcv. then_do (getFactor sdk e PrivilegedKey s3) (\<lambda>s4 priv.
       updateFactors sdk e (passwordSalt t) (factor_of sdk a t PasswordKey) (factor_of sdk a t PresentationKey)
         rcv (ac_primary a) priv (km_profiles s4) s4)) = (s', Inr ())"
    by (rule factor_success [OF sdk 1(1) e 1(3,4)])
  obtain s3 where 3: "key_core sdk a s3" "only_store s2 s3" "km_token s3 = Some t"
      "then_do (getFactor sdk e PrivilegedKey s3) (\<lambda>s4 priv.
       updateFactors sdk e (passwordSalt t) (factor_of sdk a t PasswordKey) (factor_of sdk a t PresentationKey)
         (factor_of sdk a t RecoveryKey) (ac_primary a) priv (km_profiles s4) s4) = (s', Inr ())"
    by (rule factor_success [OF sdk 2(1) e 2(3,4)])
  obtain s4 where 4: "only_store s3 s4" "km_token s4 = Some t"
      "updateFactors sdk e (passwordSalt t) (factor_of sdk a t PasswordKey) (factor_of sdk a t PresentationKey)
         (factor_of sdk a t RecoveryKey) (ac_primary a) (factor_of sdk a t PrivilegedKey) (km_profiles s4) s4 = (s', Inr ())"
    by (rule factor_success [OF sdk 3(1) e 3(3,4)])
  have ps: "km_profiles s4 = km_profiles s" using 1(2) 2(2) 3(2) 4(1) by (simp add: only_storeD)
  obtain n o1 where n: "wrap_factors sdk e (passwordSalt t) (pw_key sdk a t) (ac_presentation a) (ac_recovery a) (ac_primary a)
       (ks_key_bytes sdk (ac_privileged a)) (encrypt_profiles sdk e (ac_primary a) (km_profiles s))
       (if passwordKdf t = None then None else Some 3) (passwordKdf t) = Inr n"
    "km_token s' = Some (n\<lparr>currentOutpoint := Some o1\<rparr>)"
    by (rule updateFactors_success [OF 4(3)]) (use 4(2) ps in simp)
  obtain b0 where b0: "ac_privileged a = ks_key_of sdk b0" using s by (auto simp: key_core_def account_ok_def)
  have kb: "ac_privileged a = ks_key_of sdk (ks_key_bytes sdk (ac_privileged a))"
    using sdk_okD(7) [OF sdk, of 0 b0] by (simp add: b0)
  have d: "derivePasswordKey sdk (passwordSalt t) (passwordKdf t) (ac_password a) = Inr (pw_key sdk a t)"
    using token_keysD(1) [OF t(2)] by (simp add: derive_for_def)
  show ?thesis
    using that [OF _ _ n(2)] wrap_factors_keys(1,4) [OF sdk kb n(1) d] by blast
qed

text \<open>\<open>addProfile\<close> does not check the name against the bounds that loading demands. After it has published a
  profile with an empty name, or one of more than 250 characters, the account cannot be opened any more: with
  all factors right, every mode fails while it loads the profiles, and nobody is authenticated.\<close>

theorem nameless_profile_locks_account:
  assumes sdk: "sdk_ok sdk" and s: "key_inv sdk a s" and e: "env_ok a e"
    and run: "addProfile sdk e name s = (s', Inr i)" and bad: "name = [] \<or> 250 < length name"
    and found: "ke_byPresentation e' (ks_sha256 sdk (ac_presentation a)) = Inr (km_token s')"
      "ke_byRecovery e' (ks_sha256 sdk (ac_recovery a)) = Inr (km_token s')"
  shows "let (q, r) = open_with sdk cfg e' a mode in
     r = Inl (JsError ''Failed to load profiles'') \<and> \<not> km_authenticated q"
proof -
  let ?p = "\<lparr>wp_name = name, wp_id = ke_random e 0 16, wp_primaryPad = ke_random e 1 32,
      wp_privilegedPad = ke_random e 2 32, wp_createdAt = ke_now e div 1000\<rparr>"
  let ?s1 = "s\<lparr>km_profiles := km_profiles s @ [?p]\<rparr>"
  have s1: "key_core sdk a ?s1" using s by (simp add: key_defs)
  have "republish sdk e ?s1 = (s', Inr ())"
    using run by (auto simp: addProfile_def Let_def then_do_Inr split: if_splits)
  then obtain n o1 where n: "token_keys sdk a n" "profilesEncrypted n = encrypt_profiles sdk e (ac_primary a) (km_profiles ?s1)"
      "km_token s' = Some (n\<lparr>currentOutpoint := Some o1\<rparr>)"
    by (rule republish_success [OF sdk s1 e])
  let ?t = "n\<lparr>currentOutpoint := Some o1\<rparr>"
  obtain enc where enc: "profilesEncrypted ?t = Some enc" "enc \<noteq> []" "load_profiles sdk (ac_primary a) enc = None"
  proof -
    have "\<not> profile_ok ?p" using bad by (auto simp: profile_ok_def)
    then show ?thesis
      using that n(2) sdk_okD(1,2,10) [OF sdk]
      by (simp add: encrypt_profiles_def load_profiles_def profile_valid comp_def)
  qed
  obtain q priv where q: "open_with sdk cfg e' a mode = open_root sdk e' (ac_primary a) priv q" "km_token q = Some ?t" "\<not> km_authenticated q"
    using open_with_root [of sdk a ?t e' cfg mode] s n(1) found n(3) by (simp add: key_defs) metis
  show ?thesis
    using q enc by (simp add: open_root_def setupRoot_def Let_def)
qed

text \<open>A wrong key is noticed.\<close>

definition sdk_strict :: "key_sdk \<Rightarrow> bool" where
  "sdk_strict sdk \<longleftrightarrow> (\<forall>k k' iv m. k \<noteq> k' \<longrightarrow> ks_decrypt sdk k' (ks_encrypt sdk k iv m) = None)"

lemma XOR_bytes_inj:
  assumes "XOR_bytes k b = Inr x" "XOR_bytes k' b = Inr x" "list_all is_byte k" "list_all is_byte k'" "length b = 32"
  shows "k = k'"
proof -
  have "key32 k" "key32 k'" using assms by (auto simp: XOR_bytes_def key32_def)
  then show ?thesis using XOR_bytes_cancel assms(1,2) by (metis sum.inject(2))
qed

lemma wrap_factors_fields:
  assumes "wrap_factors sdk e salt pw pres rcv root priv ps v kdf = Inr t"
  obtains k1 k3 where "XOR_bytes pres pw = Inr k1" "passwordPresentationPrimary t = ks_encrypt sdk k1 (ke_random e 10 32) root"
    "XOR_bytes rcv pw = Inr k3" "passwordRecoveryPrimary t = ks_encrypt sdk k3 (ke_random e 11 32) root"
    "passwordSalt t = salt" "passwordKdf t = kdf"
  using assms by (auto simp: wrap_factors_def Let_def and_then_Inr)

lemma wrong_password_key:
  assumes strict: "sdk_strict sdk" and k: "XOR_bytes f pw = Inr k" "list_all is_byte pw" "length f = 32"
    and other: "list_all is_byte pw'" "pw' \<noteq> pw"
  shows "\<exists>err. and_then (XOR_bytes f pw') (\<lambda>k'. decrypt_or_throw sdk k' (ks_encrypt sdk k iv root)) = Inl err"
proof (cases "XOR_bytes f pw'")
  case (Inr k')
  have "k' \<noteq> k"
  proof
    assume "k' = k"
    then have "XOR_bytes pw f = Inr k" "XOR_bytes pw' f = Inr k" using k(1) Inr by (simp_all add: XOR_bytes_commute)
    then show False using XOR_bytes_inj [OF _ _ k(2) other(1) k(3)] other(2) by blast
  qed
  then show ?thesis using Inr strict by (simp add: sdk_strict_def decrypt_or_throw_def)
qed simp

text \<open>C36. Changing the password of a legacy account (a token without key-derivation settings) derives the new key
  with the manager's settings but publishes a token without settings, from which every later login derives with
  PBKDF2 and 7777 rounds. No password whose PBKDF2 key differs from the key in use opens the account any more,
  the new one included, neither with the presentation key nor with the recovery key.\<close>

theorem password_change_locks_legacy_account:
  assumes sdk: "sdk_ok sdk" "sdk_strict sdk" and s: "key_core sdk a s" and e: "env_ok a e"
    and legacy: "km_token s = Some t" "passwordKdf t = None"
    and run: "changePassword sdk cfg e newPassword s = (s', Inr ())"
    and key: "derivePasswordKey sdk (ke_random e 0 32) (Some cfg) newPassword = Inr pw"
    and differ: "ks_pbkdf2 sdk (ks_utf8 sdk p) (ke_random e 0 32) 7777 32 \<noteq> pw"
    and found: "ke_byPresentation e' (ks_sha256 sdk (ac_presentation a)) = Inr (km_token s')"
      "ke_byRecovery e' (ks_sha256 sdk (ac_recovery a)) = Inr (km_token s')"
    and mode: "mode \<noteq> PresentationRecovery"
  shows "let (q, r) = open_with sdk cfg e' (a\<lparr>ac_password := p\<rparr>) mode in \<not> succeeded r \<and> \<not> km_authenticated q"
proof -
  have root: "km_rootPrimaryKey s = Some (ac_primary a)" and op: "opened s"
    and a: "key32 (ac_presentation a)" "key32 (ac_recovery a)"
    using s legacy by (auto simp: key_core_def opened_def account_ok_def)
  have run1: "then_do (getFactor sdk e RecoveryKey s) (\<lambda>s1 rcv. then_do (getFactor sdk e PresentationKey s1) (\<lambda>s2 pres.
      then_do (getFactor sdk e PrivilegedKey s2) (\<lambda>s3 priv.
      updateFactors sdk e (ke_random e 0 32) pw pres rcv (ac_primary a) priv (km_profiles s3) s3))) = (s', Inr ())"
    using run legacy root op key by (simp add: changePassword_def Let_def)
  obtain s1 where 1: "key_core sdk a s1" "km_token s1 = Some t"
      "then_do (getFactor sdk e PresentationKey s1) (\<lambda>s2 pres. then_do (getFactor sdk e PrivilegedKey s2) (\<lambda>s3 priv.
       updateFactors sdk e (ke_random e 0 32) pw pres (factor_of sdk a t RecoveryKey) (ac_primary a) priv (km_profiles s3) s3)) = (s', Inr ())"
    by (rule factor_success [OF sdk(1) s e legacy(1) run1])
  obtain s2 where 2: "key_core sdk a s2" "km_token s2 = Some t"
      "then_do (getFactor sdk e PrivilegedKey s2) (\<lambda>s3 priv. updateFactors sdk e (ke_random e 0 32) pw (factor_of sdk a t PresentationKey)
         (factor_of sdk a t RecoveryKey) (ac_primary a) priv (km_profiles s3) s3) = (s', Inr ())"
    by (rule factor_success [OF sdk(1) 1(1) e 1(2,3)])
  obtain s3 where 3: "km_token s3 = Some t"
      "updateFactors sdk e (ke_random e 0 32) pw (factor_of sdk a t PresentationKey)
         (factor_of sdk a t RecoveryKey) (ac_primary a) (factor_of sdk a t PrivilegedKey) (km_profiles s3) s3 = (s', Inr ())"
    by (rule factor_success [OF sdk(1) 2(1) e 2(2,3)])
  obtain n o1 where n: "wrap_factors sdk e (ke_random e 0 32) pw (ac_presentation a) (ac_recovery a) (ac_primary a)
       (ks_key_bytes sdk (ac_privileged a)) (encrypt_profiles sdk e (ac_primary a) (km_profiles s3)) None None = Inr n"
      "km_token s' = Some (n\<lparr>currentOutpoint := Some o1\<rparr>)"
    by (rule updateFactors_success [OF 3(2)]) (use 3(1) legacy(2) in simp)
  let ?t = "n\<lparr>currentOutpoint := Some o1\<rparr>" let ?k = "ks_pbkdf2 sdk (ks_utf8 sdk p) (ke_random e 0 32) 7777 32"
  obtain k1 k3 where k: "XOR_bytes (ac_presentation a) pw = Inr k1" "passwordPresentationPrimary n = ks_encrypt sdk k1 (ke_random e 10 32) (ac_primary a)"
      "XOR_bytes (ac_recovery a) pw = Inr k3" "passwordRecoveryPrimary n = ks_encrypt sdk k3 (ke_random e 11 32) (ac_primary a)"
      "passwordSalt n = ke_random e 0 32" "passwordKdf n = None"
    using wrap_factors_fields [OF n(1)] by metis
  have der: "derive_for sdk ?t p = Inr ?k" by (simp add: derive_for_def derivePasswordKey_def k(5,6))
  have bytes: "list_all is_byte pw" "list_all is_byte ?k"
    using derivePasswordKey_length(2) [OF sdk(1) key] sdk_okD(16) [OF sdk(1), of 7777] by simp_all
  obtain e1 e3 where wrong:
      "and_then (XOR_bytes (ac_presentation a) ?k) (\<lambda>k'. decrypt_or_throw sdk k' (passwordPresentationPrimary n)) = Inl e1"
      "and_then (XOR_bytes (ac_recovery a) ?k) (\<lambda>k'. decrypt_or_throw sdk k' (passwordRecoveryPrimary n)) = Inl e3"
    using wrong_password_key [OF sdk(2) k(1) bytes(1) _ bytes(2) differ] wrong_password_key [OF sdk(2) k(3) bytes(1) _ bytes(2) differ] a
    unfolding k(2,4) key32_def by metis
  show ?thesis
  proof (cases mode)
    case PresentationPassword
    let ?q = "fresh_manager mode\<lparr>km_flow := ExistingUser, km_presentationKey := Some (ac_presentation a), km_token := Some ?t\<rparr>"
    have "\<exists>err. unlockExisting sdk e' p ?q = (?q, Inl err)"
      using wrong(1) PresentationPassword by (cases "XOR_bytes (ac_presentation a) ?k")
        (auto simp: unlockExisting_def der fresh_manager_def and_then_assoc)
    then obtain err where "unlockExisting sdk e' p ?q = (?q, Inl err)" by blast
    then show ?thesis using PresentationPassword a(1) found n(2)
      by (simp add: open_with_def providePresentationKey_def providePassword_def fresh_manager_def Let_def)
  next
    case RecoveryPassword
    let ?q = "fresh_manager mode\<lparr>km_flow := ExistingUser, km_recoveryKey := Some (ac_recovery a), km_token := Some ?t\<rparr>"
    have "\<exists>err. unlockExisting sdk e' p ?q = (?q, Inl err)"
      using wrong(2) RecoveryPassword by (cases "XOR_bytes (ac_recovery a) ?k")
        (auto simp: unlockExisting_def der fresh_manager_def and_then_assoc)
    then obtain err where "unlockExisting sdk e' p ?q = (?q, Inl err)" by blast
    then show ?thesis using RecoveryPassword a(2) found n(2)
      by (simp add: open_with_def provideRecoveryKey_def providePassword_def fresh_manager_def Let_def)
  qed (use mode in simp)
qed

section \<open>Smaller observations\<close>

text \<open>A profile whose publication failed stays in the manager: the token is the old one, but the profile is listed and
  its name is taken. Its random pads exist nowhere else.\<close>

lemma failed_profile_stays:
  assumes "addProfile sdk e name s = (s', Inl err)" "opened s" "km_token s' = km_token s"
    and "name \<noteq> ''default''" "\<not> list_ex (\<lambda>p. js_lower (wp_name p) = js_lower name) (km_profiles s)"
    and "sdk_ok sdk" "key_inv sdk a s" "env_ok a e" "0 \<le> ke_now e" "0 < length name" "length name \<le> 250" "length (km_profiles s) < 1000"
  shows "\<exists>p. km_profiles s' = km_profiles s @ [p] \<and> wp_name p = name \<and> wp_primaryPad p = ke_random e 1 32"
    "opened s' \<Longrightarrow> snd (addProfile sdk e' name s') = Inl (JsError ''Profile name is already in use.'')"
proof -
  let ?p = "\<lparr>wp_name = name, wp_id = ke_random e 0 16, wp_primaryPad = ke_random e 1 32,
      wp_privilegedPad = ke_random e 2 32, wp_createdAt = ke_now e div 1000\<rparr>"
  let ?s1 = "s\<lparr>km_profiles := km_profiles s @ [?p]\<rparr>"
  have p: "profile_ok ?p" using assms(8-11) by (simp add: profile_ok_def key32_def env_ok_def random_ok_def pos_imp_zdiv_nonneg_iff)
  have s1: "key_inv sdk a ?s1" using assms(7,12) p by (simp add: key_defs profiles_ok_def)
  obtain s2 r2 where rp: "republish sdk e ?s1 = (s2, r2)" by fastforce
  have "s' = s2" using assms(1,2,4,5) rp by (cases r2) (auto simp: addProfile_def Let_def)
  moreover have "km_profiles s2 = km_profiles ?s1" using republish_ok [OF assms(6) s1 assms(8) rp] by (simp add: updated_def)
  ultimately have ps: "km_profiles s' = km_profiles s @ [?p]" by simp
  then show "\<exists>p. km_profiles s' = km_profiles s @ [p] \<and> wp_name p = name \<and> wp_primaryPad p = ke_random e 1 32" by auto
  show "opened s' \<Longrightarrow> snd (addProfile sdk e' name s') = Inl (JsError ''Profile name is already in use.'')"
    by (simp add: addProfile_def ps)
qed

text \<open>The constructor accepts any hash length up to 64, but a key that is not 32 bytes long cannot be combined with the
  others: signing up then always fails, after the user has been asked to save the recovery key.\<close>

lemma other_hash_length_never_signs_up:
  assumes "sdk_ok sdk" "random_ok e" "isValidKdfConfig (Some cfg)" "kdf_algorithm cfg = argon2id_name"
    and "setting (kdf_hashLength cfg) 32 \<noteq> 32" "ke_byPresentation e (ks_sha256 sdk pres) = Inr None"
  shows "\<not> succeeded (snd (sign_up sdk cfg e pres password))"
proof
  assume "succeeded (snd (sign_up sdk cfg e pres password))"
  then obtain s where run: "sign_up sdk cfg e pres password = (s, Inr ())"
    by (cases "sign_up sdk cfg e pres password"; cases "snd (sign_up sdk cfg e pres password)") auto
  have k: "key32 pres" using run by (auto simp: sign_up_def providePresentationKey_def fresh_manager_def split: if_splits)
  obtain pw where pw: "derivePasswordKey sdk (ke_random e 1 32) (Some cfg) password = Inr pw" "length pw = 32"
    using run k assms(6)
    by (auto simp: sign_up_def providePresentationKey_def fresh_manager_def providePassword_def createNewUser_def Let_def
        then_do_Inr and_then_Inr wrap_factors_def XOR_bytes_def key32_def split: if_splits)
  then show False
    using derivePasswordKey_length(1) [OF assms(1) pw(1)] assms(4,5) by auto
qed

text \<open>The privileged key of a profile is made from \<open>toArray()\<close> of the root key, which is shorter than the pad when the
  root key has a leading zero byte: such a user has no privileged key in any profile but the default one.\<close>

lemma leading_zero_key_has_no_profile_keys:
  assumes "km_underlying s = Some w" "bw_privilegedPad w = Some pad" "length pad = 32"
    and "getPrivilegedKey sdk e s = (s1, Inr k)" "length (ks_key_bytes sdk k) < 32"
  shows "profilePrivilegedKey sdk e s = (s1, Inl (JsError ''XOR length mismatch''))"
  using assms by (simp add: profilePrivilegedKey_def XOR_bytes_def ensure_def)

section \<open>Saving and loading\<close>

lemma saved_snapshot_reads_back:
  assumes sdk: "sdk_ok sdk" and r: "random_ok e" and t: "km_token s = Some t" "token_ok sdk t" "currentOutpoint t = Some o1" "outpoint_text_ok o1"
    and root: "km_rootPrimaryKey s = Some root" "length root = 32" and act: "length (km_activeProfileId s) = 16"
    and save: "saveSnapshot sdk e s = Inr snap" and bytes: "list_all is_byte snap"
  shows "read_snapshot sdk snap = Inr (root, t, km_activeProfileId s)"
proof -
  let ?key = "ke_random e 0 32"
  obtain b where b: "serializeUMPToken sdk t = Inr b" "deserializeUMPToken sdk b = Inr t"
    using snapshot_roundtrip [OF sdk t(2-4)] by (auto simp: and_then_Inr)
  let ?pre = "root @ ks_varint sdk (int (length b)) @ b"
  let ?enc = "ks_encrypt sdk ?key (ke_random e 10 32) ?pre"
  have snap: "snap = 2 # ?key @ km_activeProfileId s @ ?enc" "int (length snap) \<le> max_snapshot_bytes"
    using save t root b(1) by (auto simp: saveSnapshot_def Let_def outpoint_text_ok_def split: if_splits)
  have rd: "ks_read sdk 32 (?key @ x) = (?key, x)" "ks_read sdk 16 (km_activeProfileId s @ x) = (km_activeProfileId s, x)"
      "ks_read sdk 32 (root @ x) = (root, x)" "fst (ks_read sdk (length x) x) = x" for x
    using sdk_okD(13) [OF sdk, of ?key x] sdk_okD(13) [OF sdk, of "km_activeProfileId s" x] sdk_okD(13) [OF sdk, of root x]
      sdk_okD(13) [OF sdk, of x "[]"] r act root(2)
    by (simp_all add: random_ok_def)
  have vi: "ks_read_varint sdk (ks_varint sdk (int (length b)) @ b) = Some (int (length b), b)"
    using sdk_okD(12) [OF sdk, of "int (length b)" b] by simp
  show ?thesis
    unfolding read_snapshot_def using snap bytes
    by (simp add: rd vi b(2) decrypt_or_throw_def sdk_okD(1) [OF sdk] ensure_def Let_def)
qed

text \<open>A published token reads back: the fields pushed on the chain, followed by a signature that verifies, are
  accepted without it and decoded to the same token at its new place.\<close>

theorem published_token_reads_back:
  assumes "sdk_ok sdk" "token_ok sdk t" "verify (concat (tokenFields sdk t)) sig" "isLikelyDerSignatureField sig"
  shows "let fs = tokenFields sdk t in decodeAuthenticatedUMPFields verify (fs @ [sig]) = Inr fs
     \<and> parseOutput sdk fs outpoint = Some (t\<lparr>currentOutpoint := Some outpoint\<rparr>)"
  using publication_roundtrip [where verify = verify and sig = sig, OF assms] by (simp add: Let_def)

text \<open>A profile that is not on the token (\<open>failed_profile_stays\<close>) can be switched to and saved as the active one, but the
  snapshot cannot be loaded: the load throws and destroys the manager it was loaded into.\<close>

lemma orphan_profile_breaks_snapshot:
  assumes sdk: "sdk_ok sdk" and r: "random_ok e" and s: "km_rootPrimaryKey s = Some (ac_primary a)" "serves sdk a t"
    and t: "km_token s = Some t" "token_ok sdk t" "currentOutpoint t = Some o1" "outpoint_text_ok o1"
    and act: "length (km_activeProfileId s) = 16" "\<not> is_default (km_activeProfileId s)"
      "find (\<lambda>p. id_matches (wp_id p) (km_activeProfileId s)) (ac_profiles a) = None"
    and save: "saveSnapshot sdk e s = Inr snap" and bytes: "list_all is_byte snap"
  shows "loadSnapshot sdk e' snap s' = (fresh_manager PresentationPassword, Inl (JsError ''Failed to load snapshot''))"
proof -
  have root: "length (ac_primary a) = 32" and a: "account_ok sdk a" "profiles_ok (ac_profiles a)"
    and tf: "token_for sdk a t" "passwordKdf t \<noteq> None" using s(2) by (auto simp: serves_def account_ok_def key32_def)
  note rd = saved_snapshot_reads_back [OF sdk r t s(1) root act(1) save bytes]
  obtain s1 r1 where st: "setupRoot sdk (ac_primary a) None (s'\<lparr>km_token := Some t\<rparr>) = (s1, r1)" by fastforce
  have s1: "r1 = Inr ()" "key_inv sdk a s1" "km_profiles s1 = ac_profiles a"
    using setupRoot_inv [OF sdk a _ tf _ st] by simp_all
  then have "km_rootPrimaryKey s1 = Some (ac_primary a)" "km_privileged s1 \<noteq> None" "km_authenticated s1" by (auto simp: key_defs)
  then have "switchProfile e' (km_activeProfileId s) s1 = (s1, Inl (JsError ''Profile not found.''))"
    using act(2,3) s1(3) by (auto simp: switchProfile_def split: option.splits)
  then show ?thesis using st s1(1) by (simp add: loadSnapshot_def rd destroy_def)
qed

text \<open>C35. A saved manager comes back: loading the snapshot into a new manager restores the root key, the token, the
  profiles and the active profile with its wallet. Conditions: the manager is open on an account whose token has
  key-derivation settings and lists profiles with names of 1 to 250 characters (\<open>key_inv\<close>); the manager has exactly the
  profiles that are on its token, so no addition or deletion whose publication failed
  (\<open>orphan_profile_breaks_snapshot\<close> is that case); the token's fields and outpoint are within the bounds of the reader;
  and the wallet of the active profile can be built.\<close>

theorem saved_manager_comes_back:
  assumes sdk: "sdk_ok sdk" and r: "random_ok e" and s: "key_inv sdk a s" "km_profiles s = ac_profiles a"
    and t: "km_token s = Some t" "token_ok sdk t" "currentOutpoint t = Some o1" "outpoint_text_ok o1"
    and act: "length (km_activeProfileId s) = 16" "snd (switchProfile e' (km_activeProfileId s) s) = Inr ()"
    and save: "saveSnapshot sdk e s = Inr snap" and bytes: "list_all is_byte snap"
  shows "let (s', r') = loadSnapshot sdk e' snap (fresh_manager mode) in r' = Inr () \<and> key_inv sdk a s'
     \<and> km_token s' = Some t \<and> km_profiles s' = km_profiles s
     \<and> km_activeProfileId s' = km_activeProfileId (fst (switchProfile e' (km_activeProfileId s) s))
     \<and> km_underlying s' = km_underlying (fst (switchProfile e' (km_activeProfileId s) s))"
proof -
  have root: "km_rootPrimaryKey s = Some (ac_primary a)" "length (ac_primary a) = 32" and a: "account_ok sdk a" "profiles_ok (ac_profiles a)"
    and auth: "km_authenticated s" "km_privileged s \<noteq> None"
    and tf: "token_for sdk a t" "passwordKdf t \<noteq> None" using s t(1) by (auto simp: key_defs account_ok_def key32_def)
  note rd = saved_snapshot_reads_back [OF sdk r t root act(1) save bytes]
  let ?f = "fresh_manager mode\<lparr>km_token := Some t\<rparr>"
  obtain s1 r1 where st: "setupRoot sdk (ac_primary a) None ?f = (s1, r1)" by fastforce
  have s1: "r1 = Inr ()" "key_inv sdk a s1" "km_token s1 = Some t" "km_profiles s1 = ac_profiles a"
    using setupRoot_inv [OF sdk a _ tf _ st] by simp_all
  have like: "switchProfile e' i s1 = (s1\<lparr>km_activeProfileId := km_activeProfileId x, km_underlying := km_underlying x\<rparr>, Inr ())"
    if sw: "switchProfile e' i s = (x, Inr ())" for i x
  proof -
    have "km_rootPrimaryKey s1 = Some (ac_primary a)" "km_authenticated s1" "km_privileged s1 \<noteq> None" using s1(2) by (auto simp: key_defs)
    then show ?thesis
      using sw root(1) auth s1(4) s(2) by (auto simp: switchProfile_def Let_def split: if_splits option.splits sum.splits)
  qed
  obtain x where x: "switchProfile e' (km_activeProfileId s) s = (x, Inr ())" using act(2) by (metis prod.collapse)
  let ?s2 = "s1\<lparr>km_activeProfileId := km_activeProfileId x, km_underlying := km_underlying x\<rparr>"
  have load: "loadSnapshot sdk e' snap (fresh_manager mode) = (?s2\<lparr>km_flow := ExistingUser\<rparr>, Inr ())"
    using st s1(1) like [OF x] by (simp add: loadSnapshot_def rd)
  have "key_inv sdk a (?s2\<lparr>km_flow := ExistingUser\<rparr>)" using s1(2) by (simp add: key_defs)
  then show ?thesis unfolding load x using s1(3,4) s(2) by simp
qed

end
