(* ===== verification/Key_Demo.thy ===== *)
theory Key_Demo
  imports Key_Runs "HOL-Library.Countable"
begin

text \<open>A concrete SDK that keeps what \<open>sdk_ok\<close> asks for, a manager that has just signed up, and one of a legacy
  account. The witnesses of the key manager's properties evaluate on them.\<close>

section \<open>The SDK\<close>

instance json :: countable
  by countable_datatype

fun nat_bytes :: "nat \<Rightarrow> int list" where
  "nat_bytes n = (if n = 0 then [] else nat_bytes (n div 256) @ [int (n mod 256)])"

declare nat_bytes.simps [simp del]

definition bytes_nat :: "int list \<Rightarrow> nat" where
  "bytes_nat b = foldl (\<lambda>a x. 256 * a + nat x) 0 b"

lemma bytes_nat_back: "bytes_nat (nat_bytes n) = n"
proof (induction n rule: nat_bytes.induct)
  case (1 n)
  then show ?case by (subst nat_bytes.simps) (auto simp: bytes_nat_def)
qed

definition demo_cfg :: kdf_config where
  "demo_cfg = \<lparr>kdf_algorithm = argon2id_name, kdf_iterations = Some (JNum 7), kdf_memoryKiB = Some (JNum 131072),
     kdf_parallelism = Some (JNum 1), kdf_hashLength = Some (JNum 32)\<rparr>"

lemma demo_cfg_default: "constructor_kdf None \<lparr>kdf_algorithm = [], kdf_iterations = None, kdf_memoryKiB = None,
    kdf_parallelism = None, kdf_hashLength = None\<rparr> = Inr demo_cfg"
  by (simp add: constructor_kdf_def or_default_def isValidKdfConfig_def demo_cfg_def)

text \<open>The text of a JSON value: one byte for the settings above, a number in base 256 for any other value.\<close>

definition demo_json :: "json \<Rightarrow> int list" where
  "demo_json v = (if v = kdf_params demo_cfg then [7] else 8 # nat_bytes (to_nat v))"

fun demo_parse :: "int list \<Rightarrow> json option" where
  "demo_parse [] = None"
| "demo_parse (x # r) = (if x = 7 then Some (kdf_params demo_cfg) else Some (from_nat (bytes_nat r)))"

definition demo_sdk :: key_sdk where
  "demo_sdk = \<lparr>ks_sha256 = (\<lambda>b. take 32 (b @ replicate 32 0)),
     ks_encrypt = (\<lambda>k iv m. int (length k) # k @ m),
     ks_decrypt = (\<lambda>k c. if take (Suc (length k)) c = int (length k) # k then Some (drop (Suc (length k)) c) else None),
     ks_key_of = (\<lambda>b. if b = [] then 0 else last b mod 256), ks_key_bytes = (\<lambda>k. [k]),
     ks_wrap = (\<lambda>k iv m. k # m), ks_unwrap = (\<lambda>k c. case c of [] \<Rightarrow> None | x # r \<Rightarrow> if x = k then Some r else None),
     ks_pbkdf2 = (\<lambda>p s n l. take 32 (map (\<lambda>x. x mod 256) p @ replicate 32 1)),
     ks_argon2id = (\<lambda>p s i m q h. take (nat h) (map (\<lambda>x. x mod 256) p @ replicate (nat h) 2)),
     ks_utf8 = map (\<lambda>c. int (of_char c)), ks_text = map (\<lambda>n. char_of (nat n)),
     ks_json_bytes = demo_json, ks_json_parse = demo_parse,
     ks_varint = (\<lambda>n. [n mod 256, n div 256 mod 256, n div 65536]),
     ks_read_varint = (\<lambda>b. case b of x # y # z # r \<Rightarrow> Some (x + 256 * y + 65536 * z, r) | _ \<Rightarrow> None),
     ks_read = (\<lambda>n b. (take n b, drop n b))\<rparr>"

lemma demo_sdk_ok: "sdk_ok demo_sdk"
  unfolding sdk_ok_def
proof (intro conjI allI impI)
  show "ks_decrypt demo_sdk k (ks_encrypt demo_sdk k iv m) = Some m" "ks_encrypt demo_sdk k iv m \<noteq> []" for k iv m
    by (simp_all add: demo_sdk_def)
  show "ks_json_parse demo_sdk (ks_json_bytes demo_sdk v) = Some v" "ks_json_bytes demo_sdk v \<noteq> []" for v
    by (simp_all add: demo_sdk_def demo_json_def bytes_nat_back)
  show "ks_read_varint demo_sdk (ks_varint demo_sdk n @ r) = Some (n, r)" for n r
  proof -
    have sum: "256 * q + x = m \<Longrightarrow> 256 * s + y = q \<Longrightarrow> x + 256 * y + 65536 * s = m" for q x m s y :: int by linarith
    have "n div 65536 = n div 256 div 256" using zdiv_zmult2_eq [of 256 n 256] by simp
    then have "n mod 256 + 256 * (n div 256 mod 256) + 65536 * (n div 65536) = n"
      using sum [OF mult_div_mod_eq mult_div_mod_eq] by simp
    then show ?thesis by (simp add: demo_sdk_def)
  qed
qed (auto simp: demo_sdk_def comp_def list_all_iff is_byte_def min_def dest!: in_set_takeD)

lemma demo_sdk_strict: "sdk_strict demo_sdk"
  by (auto simp: sdk_strict_def demo_sdk_def)

section \<open>A new account\<close>

definition demo_world :: "ump_token option \<Rightarrow> string option \<Rightarrow> key_env" where
  "demo_world found typed = \<lparr>ke_random = (\<lambda>i n. replicate n (int i mod 256)), ke_password = typed, ke_build = (\<lambda>_. True),
     ke_byPresentation = (\<lambda>_. Inr found), ke_byRecovery = (\<lambda>_. Inr found), ke_publish = (\<lambda>_ _. Inr ''ab.0''),
     ke_saved = True, ke_funded = True, ke_now = 1700000000000\<rparr>"

lemma demo_random: "random_ok (demo_world found typed)"
proof -
  have "int i mod 256 \<le> 255" for i :: nat using pos_mod_bound [of 256 "int i"] by simp
  then show ?thesis by (simp add: random_ok_def demo_world_def list_all_iff is_byte_def)
qed

abbreviation demo_pres :: "int list" where
  "demo_pres \<equiv> replicate 32 9"

text \<open>The password key in this SDK, the token of the account and the manager after signing up.\<close>

abbreviation demo_pw :: "int list" where
  "demo_pw \<equiv> 112 # 119 # replicate 30 2"

definition demo_token :: ump_token where
  "demo_token = \<lparr>passwordPresentationPrimary = 32 # map2 js_xor demo_pres demo_pw @ replicate 32 2,
     passwordRecoveryPrimary = 32 # map2 js_xor (replicate 32 0) demo_pw @ replicate 32 2,
     presentationRecoveryPrimary = 32 # replicate 32 (js_xor 9 0) @ replicate 32 2,
     passwordPrimaryPrivileged = 32 # map2 js_xor (replicate 32 2) demo_pw @ replicate 32 3,
     presentationRecoveryPrivileged = 32 # replicate 32 (js_xor 9 0) @ replicate 32 3,
     presentationHash = demo_pres, passwordSalt = replicate 32 1, recoveryHash = replicate 32 0,
     presentationKeyEncrypted = 3 # demo_pres, recoveryKeyEncrypted = 3 # replicate 32 0, passwordKeyEncrypted = 3 # demo_pw,
     profilesEncrypted = None, umpVersion = Some 3, passwordKdf = Some demo_cfg, currentOutpoint = Some ''ab.0''\<rparr>"

definition demo_open :: key_manager where
  "demo_open = \<lparr>km_authenticated = True, km_mode = PresentationPassword, km_flow = NewUser, km_token = Some demo_token,
     km_presentationKey = Some demo_pres, km_recoveryKey = None, km_rootPrimaryKey = Some (replicate 32 2),
     km_activeProfileId = DEFAULT_PROFILE_ID, km_profiles = [],
     km_underlying = Some \<lparr>bw_primaryKey = replicate 32 2, bw_privilegedPad = None, bw_profileId = DEFAULT_PROFILE_ID\<rparr>,
     km_privileged = Some \<lparr>pm_chunks = [], pm_pads = [], pm_oneTime = None\<rparr>\<rparr>"

definition demo_account :: account where
  "demo_account = \<lparr>ac_presentation = demo_pres, ac_password = ''pw'', ac_recovery = replicate 32 0, ac_primary = replicate 32 2,
     ac_privileged = 3, ac_profiles = []\<rparr>"

lemmas demo_signing = sign_up_def providePresentationKey_def fresh_manager_def providePassword_def createNewUser_def demo_world_def
      demo_sdk_def demo_cfg_def derivePasswordKey_def isValidKdfConfig_def wrap_factors_def get32ByteRepresentation_def
      XOR_bytes_def setupRoot_def switchProfile_def key32_def list_all_iff is_byte_def Let_def

lemma demo_sign_up: "sign_up demo_sdk demo_cfg (demo_world None None) demo_pres ''pw'' = (demo_open, Inr ())"
  by (simp add: demo_open_def demo_token_def demo_signing)

lemma demo_new_account: "new_account demo_sdk (demo_world None None) demo_pres ''pw'' = demo_account"
  by (simp add: new_account_def demo_account_def demo_sdk_def demo_world_def)

lemma demo_found: "ke_byPresentation (demo_world found typed) h = Inr found" "ke_byRecovery (demo_world found typed) h = Inr found"
    "ke_build (demo_world found typed) w" "ke_password (demo_world found typed) = typed"
  by (simp_all add: demo_world_def)

lemma demo_inv: "key_inv demo_sdk demo_account demo_open"
  using sign_up_ok [OF demo_sdk_ok demo_random, of None None demo_pres demo_cfg "''pw''" demo_open]
  by (simp add: demo_found demo_sign_up demo_new_account)

lemma demo_token_for: "account_ok demo_sdk demo_account" "token_for demo_sdk demo_account demo_token"
  using demo_inv by (simp_all add: key_defs demo_open_def)

theorem two_factors_open_the_account_witness:
  "let (s, r) = open_with demo_sdk demo_cfg (demo_world (Some demo_token) None) demo_account RecoveryPassword in
     r = Inr () \<and> open_as demo_account s \<and> km_token s = Some demo_token
     \<and> snd (getPrivilegedKey demo_sdk ((demo_world (Some demo_token) None)\<lparr>ke_password := None\<rparr>) s) = Inr 3"
  using two_factors_open_the_account [OF demo_sdk_ok demo_token_for, of "demo_world (Some demo_token) None" demo_cfg RecoveryPassword]
  by (simp add: demo_found) (simp add: demo_account_def)

text \<open>When publishing fails, signing up fails, but the manager stays open: its keys are on no token, it cannot be saved, and
  the password is refused a second time.\<close>

lemma failed_sign_up_stays_open:
  "let (s, r) = sign_up demo_sdk demo_cfg (demo_world None None\<lparr>ke_publish := \<lambda>_ _. Inl (JsError ''offline'')\<rparr>) demo_pres ''pw'' in
     r = Inl (JsError ''offline'') \<and> km_authenticated s \<and> km_underlying s = km_underlying demo_open
     \<and> saveSnapshot demo_sdk e s = Inl (JsError ''UMP token cannot be saved without a current outpoint.'')
     \<and> snd (providePassword demo_sdk demo_cfg e ''pw'' s) = Inl (JsError ''User is already authenticated'')"
  by (simp add: demo_open_def saveSnapshot_def demo_signing)

section \<open>Changes\<close>

lemma demo_rep: "replicate 32 x = [x, x, x, x, x, x, x, x, x, x, x, x, x, x, x, x, x, x, x, x, x, x, x, x, x, x, x, x, x, x, x, x]"
  "replicate 31 x = [x, x, x, x, x, x, x, x, x, x, x, x, x, x, x, x, x, x, x, x, x, x, x, x, x, x, x, x, x, x, x]"
  "replicate 30 x = [x, x, x, x, x, x, x, x, x, x, x, x, x, x, x, x, x, x, x, x, x, x, x, x, x, x, x, x, x, x]"
  "replicate 29 x = [x, x, x, x, x, x, x, x, x, x, x, x, x, x, x, x, x, x, x, x, x, x, x, x, x, x, x, x, x]"
  "replicate 28 x = [x, x, x, x, x, x, x, x, x, x, x, x, x, x, x, x, x, x, x, x, x, x, x, x, x, x, x, x]"
  "replicate 16 x = [x, x, x, x, x, x, x, x, x, x, x, x, x, x, x, x]"
  by (simp_all add: numeral_eq_Suc)

lemmas demo_eval = demo_open_def demo_token_def demo_cfg_def demo_sdk_def demo_world_def opened_def derivePasswordKey_def
    isValidKdfConfig_def getFactor_def getPrivilegedKey_def fetch_privileged_def derive_for_def XOR_bytes_def get32ByteRepresentation_def
    store_key_def splitKeyIntoChunks_def byte_slice_def destroyKey_def reassembleKeyFromChunks_def updateFactors_def wrap_factors_def
    encrypt_profiles_def Let_def is_default_def list_all_iff js_xor_def js_i32_def demo_rep

lemma demo_world_ok: "ac_password a = ''pw'' \<Longrightarrow> env_ok a (demo_world found (Some ''pw''))" "env_ok a (demo_world found None)"
  by (simp_all add: env_ok_def demo_random demo_found)

text \<open>The password is changed on the first device, the account is then opened on a second one, and the first makes a new
  recovery key and refreshes.\<close>

abbreviation demo_first :: key_world where
  "demo_first \<equiv> first_world demo_open demo_token demo_account"

abbreviation demo_change :: "key_env \<times> key_event" where
  "demo_change \<equiv> (demo_world None (Some ''pw''), Call 0 (ChangePassword ''new''))"

definition demo_later :: "(key_env \<times> key_event) list" where
  "demo_later = (let w = key_step demo_sdk demo_cfg demo_first demo_change;
       ev = (demo_world (Some (kw_token w)) None, Open RecoveryPassword);
       ev' = (demo_world None None, Call 0 ChangeRecoveryKey);
       w' = key_step demo_sdk demo_cfg (key_step demo_sdk demo_cfg w ev) ev' in
     [ev, ev', (demo_world (Some (kw_token w')) None, Call 0 Sync)])"

lemma managers_grow: "length (kw_managers w) \<le> length (kw_managers (key_step sdk cfg w ev))"
  by (cases "(sdk, cfg, w, ev)" rule: key_step.cases) (auto simp: Let_def split: prod.splits option.splits sum.splits)

lemma first_stays: "kw_managers w \<noteq> [] \<Longrightarrow> kw_managers (key_step sdk cfg w ev) \<noteq> []"
  using managers_grow [of w sdk cfg ev] by auto

lemma demo_event_legal:
  "key_legal demo_sdk w (demo_world (Some (kw_token w)) None, Open mode)"
  "kw_managers w \<noteq> [] \<Longrightarrow> key_legal demo_sdk w (demo_world None None, Call 0 ChangeRecoveryKey)"
  "kw_managers w \<noteq> [] \<Longrightarrow> key_legal demo_sdk w (demo_world (Some (kw_token w)) None, Call 0 Sync)"
  "key_legal demo_sdk demo_first demo_change"
proof -
  have "env_ok demo_account (demo_world None (Some ''pw''))" by (rule demo_world_ok) (simp add: demo_account_def)
  then show "key_legal demo_sdk demo_first demo_change" by (simp add: first_world_def)
qed (auto simp: demo_found demo_world_ok split: prod.splits)

lemma demo_legal: "legal_run (key_legal demo_sdk) (key_step demo_sdk demo_cfg) demo_first (demo_change # demo_later)"
proof -
  have "kw_managers demo_first \<noteq> []" by (simp add: first_world_def)
  then show ?thesis
    unfolding demo_later_def Let_def by (simp add: demo_event_legal first_stays del: key_step.simps key_legal.simps)
qed

theorem account_survives_every_run_witness:
  "let w = fold_steps (key_step demo_sdk demo_cfg) demo_first (demo_change # demo_later); a = kw_account w in
     token_for demo_sdk a (kw_token w) \<and> account_ok demo_sdk a \<and> ac_primary a = replicate 32 2 \<and> ac_privileged a = 3
     \<and> (\<forall>(s, a') \<in> set (kw_managers w). km_authenticated s \<and> km_rootPrimaryKey s = Some (replicate 32 2)
         \<and> (case km_token s of None \<Rightarrow> False | Some t \<Rightarrow> token_for demo_sdk a' t \<and> ac_privileged a' = 3))"
proof -
  have t: "km_token demo_open = Some demo_token" by (simp add: demo_open_def)
  have keys: "ke_random (demo_world None None) 2 32 = replicate 32 2" "ks_key_of demo_sdk (ke_random (demo_world None None) 3 32) = 3"
    by (simp_all add: demo_world_def demo_sdk_def)
  show ?thesis
    using account_survives_every_run [OF demo_sdk_ok demo_random _ demo_sign_up t, of "demo_change # demo_later"] demo_legal
    unfolding demo_new_account keys by (simp only: demo_found simp_thms)
qed

lemma demo_nameless: "snd (addProfile demo_sdk (demo_world None (Some ''pw'')) [] demo_open) = Inr (replicate 16 0)"
  by (simp add: addProfile_def republish_def demo_eval)

theorem nameless_profile_locks_account_witness:
  "let s' = fst (addProfile demo_sdk (demo_world None (Some ''pw'')) [] demo_open);
       (q, r) = open_with demo_sdk demo_cfg (demo_world (km_token s') None) demo_account PresentationPassword in
     r = Inl (JsError ''Failed to load profiles'') \<and> \<not> km_authenticated q"
proof -
  let ?r = "addProfile demo_sdk (demo_world None (Some ''pw'')) [] demo_open"
  have run: "?r = (fst ?r, Inr (replicate 16 0))" using demo_nameless by (metis prod.collapse)
  have pw: "env_ok demo_account (demo_world None (Some ''pw''))" by (rule demo_world_ok) (simp add: demo_account_def)
  show ?thesis
    using nameless_profile_locks_account [OF demo_sdk_ok demo_inv pw run, of "demo_world (km_token (fst ?r)) None"]
    by (simp add: demo_found)
qed

section \<open>A legacy account\<close>

abbreviation demo_old :: "int list" where
  "demo_old \<equiv> 112 # 119 # replicate 30 1"

definition legacy_token :: ump_token where
  "legacy_token = demo_token\<lparr>passwordPresentationPrimary := 32 # map2 js_xor demo_pres demo_old @ replicate 32 2,
     passwordRecoveryPrimary := 32 # map2 js_xor (replicate 32 0) demo_old @ replicate 32 2,
     passwordPrimaryPrivileged := 32 # map2 js_xor (replicate 32 2) demo_old @ replicate 32 3,
     passwordKeyEncrypted := 3 # demo_old, umpVersion := None, passwordKdf := None\<rparr>"

definition legacy_open :: key_manager where
  "legacy_open = demo_open\<lparr>km_token := Some legacy_token\<rparr>"

lemma legacy_keys: "token_keys demo_sdk demo_account legacy_token"
proof -
  have "wrap_factors demo_sdk (demo_world None None) (replicate 32 1) demo_old demo_pres (replicate 32 0) (replicate 32 2) (replicate 32 3)
      None None None = Inr (legacy_token\<lparr>currentOutpoint := None\<rparr>)"
    by (simp add: legacy_token_def demo_eval)
  moreover have "derivePasswordKey demo_sdk (replicate 32 1) None ''pw'' = Inr demo_old" by (simp add: derivePasswordKey_def demo_sdk_def)
  moreover have "3 = ks_key_of demo_sdk (replicate 32 3)" by (simp add: demo_sdk_def)
  ultimately show ?thesis
    using wrap_factors_keys(1) [OF demo_sdk_ok, of demo_account "replicate 32 3" "demo_world None None" "replicate 32 1" demo_old None None None
        "legacy_token\<lparr>currentOutpoint := None\<rparr>"] by (simp add: demo_account_def)
qed

lemma legacy_core: "key_core demo_sdk demo_account legacy_open"
  using demo_inv legacy_keys by (auto simp: key_defs legacy_open_def)

lemma legacy_change:
  "succeeded (snd (changePassword demo_sdk demo_cfg (demo_world None (Some ''pw'')) ''new'' legacy_open))"
  by (simp add: changePassword_def legacy_open_def legacy_token_def demo_eval)

theorem password_change_locks_legacy_account_witness:
  "let s' = fst (changePassword demo_sdk demo_cfg (demo_world None (Some ''pw'')) ''new'' legacy_open);
       (q, r) = open_with demo_sdk demo_cfg (demo_world (km_token s') None) (demo_account\<lparr>ac_password := ''new''\<rparr>) RecoveryPassword in
     \<not> succeeded r \<and> \<not> km_authenticated q"
proof -
  let ?r = "changePassword demo_sdk demo_cfg (demo_world None (Some ''pw'')) ''new'' legacy_open"
  have run: "?r = (fst ?r, Inr ())" using legacy_change by (cases ?r; cases "snd ?r") auto
  have pw: "env_ok demo_account (demo_world None (Some ''pw''))" by (rule demo_world_ok) (simp add: demo_account_def)
  have key: "derivePasswordKey demo_sdk (ke_random (demo_world None (Some ''pw'')) 0 32) (Some demo_cfg) ''new'' = Inr (110 # 101 # 119 # replicate 29 2)"
    by (simp add: demo_eval)
  have differ: "ks_pbkdf2 demo_sdk (ks_utf8 demo_sdk ''new'') (ke_random (demo_world None (Some ''pw'')) 0 32) 7777 32 \<noteq> 110 # 101 # 119 # replicate 29 2"
    by (simp add: demo_sdk_def demo_rep)
  show ?thesis
    using password_change_locks_legacy_account [OF demo_sdk_ok demo_sdk_strict legacy_core pw _ _ run key differ,
        of legacy_token "demo_world (km_token (fst ?r)) None" RecoveryPassword]
    by (simp add: demo_found legacy_open_def legacy_token_def)
qed

section \<open>Tokens on the chain and in a snapshot\<close>

lemma demo_token_ok: "token_ok demo_sdk demo_token"
  by (simp add: token_ok_def standard_fields_def field_ok_def demo_json_def demo_eval)

theorem published_token_reads_back_witness:
  "let fs = tokenFields demo_sdk demo_token in
     decodeAuthenticatedUMPFields (\<lambda>_ _. True) (fs @ [[48, 6, 2, 1, 1, 2, 1, 1]]) = Inr fs
     \<and> parseOutput demo_sdk fs ''cd.1'' = Some (demo_token\<lparr>currentOutpoint := Some ''cd.1''\<rparr>)"
  using published_token_reads_back [OF demo_sdk_ok demo_token_ok, of "\<lambda>_ _. True" "[48, 6, 2, 1, 1, 2, 1, 1]" "''cd.1''"]
  by (simp add: isLikelyDerSignatureField_def)

lemma demo_saved: "case saveSnapshot demo_sdk (demo_world None None) demo_open of Inl _ \<Rightarrow> False | Inr snap \<Rightarrow> list_all is_byte snap"
  by (simp add: saveSnapshot_def serializeUMPToken_def write_array_def standard_fields_def demo_json_def is_byte_def demo_eval)

text \<open>A profile that could not be published, made the active one and saved: the snapshot does not load.\<close>

abbreviation demo_offline :: key_env where
  "demo_offline \<equiv> demo_world None (Some ''pw'')\<lparr>ke_publish := \<lambda>_ _. Inl (JsError ''offline''), ke_random := \<lambda>i n. replicate n 1\<rparr>"

abbreviation demo_orphan :: key_manager where
  "demo_orphan \<equiv> fst (switchProfile demo_offline (replicate 16 1) (fst (addProfile demo_sdk demo_offline ''x'' demo_open)))"

lemma demo_orphan_state:
  "snd (addProfile demo_sdk demo_offline ''x'' demo_open) = Inl (JsError ''offline'')"
  "snd (switchProfile demo_offline (replicate 16 1) (fst (addProfile demo_sdk demo_offline ''x'' demo_open))) = Inr ()"
  "km_token demo_orphan = Some demo_token" "km_activeProfileId demo_orphan = replicate 16 1"
  "km_rootPrimaryKey demo_orphan = Some (replicate 32 2)"
  by (simp_all add: addProfile_def republish_def switchProfile_def id_matches_def demo_eval)

lemma failed_profile_breaks_snapshot:
  "case saveSnapshot demo_sdk (demo_world None None) demo_orphan of Inl _ \<Rightarrow> False | Inr snap \<Rightarrow>
     loadSnapshot demo_sdk e' snap s' = (fresh_manager PresentationPassword, Inl (JsError ''Failed to load snapshot''))"
proof -
  have "case saveSnapshot demo_sdk (demo_world None None) demo_orphan of Inl _ \<Rightarrow> False | Inr snap \<Rightarrow> list_all is_byte snap"
    using demo_orphan_state(3-5)
    by (simp add: saveSnapshot_def serializeUMPToken_def write_array_def standard_fields_def demo_json_def is_byte_def demo_token_def
        demo_cfg_def demo_sdk_def demo_world_def list_all_iff js_xor_def js_i32_def demo_rep)
  then obtain snap where snap: "saveSnapshot demo_sdk (demo_world None None) demo_orphan = Inr snap" "list_all is_byte snap"
    by (auto split: sum.splits)
  have a: "serves demo_sdk demo_account demo_token" "ac_primary demo_account = replicate 32 2" "ac_profiles demo_account = []"
    using demo_inv by (simp_all add: serves_def key_defs demo_open_def demo_account_def profiles_ok_def)
  have o1: "currentOutpoint demo_token = Some ''ab.0''" "outpoint_text_ok ''ab.0''"
    by (simp_all add: demo_token_def outpoint_text_ok_def js_space_def js_digit_def)
  show ?thesis
    using orphan_profile_breaks_snapshot [OF demo_sdk_ok demo_random _ a(1) demo_orphan_state(3) demo_token_ok o1 _ _ _ snap, of e' s']
      demo_orphan_state(4,5) a(2,3) snap(1) by (simp add: is_default_def list_all_iff)
qed

theorem saved_manager_comes_back_witness:
  "case saveSnapshot demo_sdk (demo_world None None) demo_open of Inl _ \<Rightarrow> False | Inr snap \<Rightarrow>
     (let (s', r') = loadSnapshot demo_sdk (demo_world None None) snap (fresh_manager RecoveryPassword) in
       r' = Inr () \<and> km_token s' = Some demo_token \<and> km_underlying s' = km_underlying demo_open)"
proof -
  obtain snap where snap: "saveSnapshot demo_sdk (demo_world None None) demo_open = Inr snap" "list_all is_byte snap"
    using demo_saved by (auto split: sum.splits)
  have t: "km_token demo_open = Some demo_token" "currentOutpoint demo_token = Some ''ab.0''" by (simp_all add: demo_open_def demo_token_def)
  have same: "km_profiles demo_open = ac_profiles demo_account" "length (km_activeProfileId demo_open) = 16"
    by (simp_all add: demo_open_def demo_account_def)
  have sw: "switchProfile (demo_world None None) (km_activeProfileId demo_open) demo_open = (demo_open, Inr ())"
    by (simp add: switchProfile_def demo_open_def demo_found Let_def)
  show ?thesis
    using saved_manager_comes_back [OF demo_sdk_ok demo_random demo_inv same(1) t(1) demo_token_ok t(2) _ same(2) _ snap,
        of "demo_world None None" RecoveryPassword] sw snap(1)
    by (auto simp: outpoint_text_ok_def js_space_def js_digit_def split: prod.splits)
qed

end
