(* ===== verification/Ump_Lookup.thy ===== *)
theory Ump_Lookup
  imports Ump_Token
begin

text \<open>
  Finding and publishing UMP tokens (\<open>OverlayUMPTokenInteractor\<close> in
  \<open>packages/wallet-engine/src/CWIStyleWalletManager.ts\<close>): which token is taken when the hosts answer with several,
  and what the answer of a lookup is when they answer with none. A transaction is a tree, as \<open>Transaction.fromBEEF\<close>
  builds it: an input may carry its source transaction. Parameters: \<open>fromBEEF\<close> and \<open>decodeCanonicalPushDrop\<close>
  (\<open>None\<close> when they throw), signature verification under a locking key, the answers of the hosts, and the wallet's
  \<open>lock\<close>, \<open>getPublicKey\<close>, \<open>completeBoundAction\<close> and broadcast. Telemetry is left out. Hex texts of byte lists are
  compared as the lists. An answer is a list of outputs, and an output index is an integer.
\<close>

section \<open>Transactions\<close>

record tx_output =
  to_decoded :: "(int list list \<times> string) option"
  to_satoshis :: int
  to_script :: string

datatype ump_tx = UmpTx (ut_id: string) (ut_inputs: "ump_input list") (ut_outputs: "tx_output list")
  and ump_input = UmpInput (ui_txid: "string option") (ui_index: "int option") (ui_source: "ump_tx option")

definition outpoint_text :: "string \<Rightarrow> int \<Rightarrow> string" where
  "outpoint_text txid i = txid @ CHR ''.'' # show_int i"

definition out_at :: "'a list \<Rightarrow> int \<Rightarrow> 'a option" where
  "out_at os i = (if 0 \<le> i \<and> nat i < length os then Some (os ! nat i) else None)"

fun spend_of :: "ump_input \<Rightarrow> string option" where
  "spend_of (UmpInput h i src) = (case (if h = None then map_option ut_id src else h, i) of
     (Some t, Some n) \<Rightarrow> Some (outpoint_text t n)
   | _ \<Rightarrow> None)"

fun pushed :: "ump_input \<Rightarrow> ump_tx list" where
  "pushed (UmpInput h i src) = (case (src, i) of (Some t, Some n) \<Rightarrow> [t] | _ \<Rightarrow> [])"

definition spends :: "ump_tx \<Rightarrow> string list" where
  "spends t = List.map_filter spend_of (ut_inputs t)"

definition parents :: "ump_tx \<Rightarrow> ump_tx list" where
  "parents t = concat (map pushed (ut_inputs t))"

text \<open>\<open>pending\<close> is the stack with its top first.\<close>

lemma parents_size: "sum_list (map size (parents t)) < size t"
proof (cases t)
  case (UmpTx h ins outs)
  have "sum_list (map size (pushed i)) \<le> size i" for i by (cases i) (auto split: option.split)
  then have "sum_list (map size (concat (map pushed ins))) \<le> size_list size ins"
    by (induction ins) (simp_all add: add_mono trans_le_add1 le_Suc_eq)
  then show ?thesis by (simp add: UmpTx parents_def)
qed

function collectSpends :: "ump_tx list \<Rightarrow> string set \<Rightarrow> string set \<Rightarrow> string set" where
  "collectSpends [] visited spent = spent"
| "collectSpends (t # pending) visited spent =
     (if ut_id t \<in> visited then collectSpends pending visited spent
      else collectSpends (rev (parents t) @ pending) (insert (ut_id t) visited) (spent \<union> set (spends t)))"
  by pat_completeness auto
termination
proof (relation "measure (\<lambda>(pending, _, _). sum_list (map size pending))")
  fix t pending visited spent
  show "((rev (parents t) @ pending, insert (ut_id t) visited, spent \<union> set (spends t)), t # pending, visited, spent)
      \<in> measure (\<lambda>(pending, _, _). sum_list (map size pending))" if "ut_id t \<notin> visited"
    using parents_size [of t] by (simp add: rev_map [symmetric])
  show "((pending, visited, spent), t # pending, visited, spent) \<in> measure (\<lambda>(pending, _, _). sum_list (map size pending))"
    by (cases t) simp
qed simp

section \<open>The ancestry of a transaction\<close>

inductive ancestor :: "ump_tx \<Rightarrow> ump_tx \<Rightarrow> bool" where
  itself: "ancestor t t"
| earlier: "p \<in> set (parents t) \<Longrightarrow> ancestor p u \<Longrightarrow> ancestor t u"

inductive_cases ancestor_cases: "ancestor t u"

lemma ancestor_iff: "ancestor t u \<longleftrightarrow> u = t \<or> (\<exists>p \<in> set (parents t). ancestor p u)"
  by (auto intro: ancestor.intros elim: ancestor_cases)

definition one_tx_per_id :: "ump_tx set \<Rightarrow> bool" where
  "one_tx_per_id ts \<longleftrightarrow> (\<forall>s t u v. s \<in> ts \<longrightarrow> t \<in> ts \<longrightarrow> ancestor s u \<longrightarrow> ancestor t v \<longrightarrow> ut_id u = ut_id v \<longrightarrow> u = v)"

lemma one_tx_per_idD:
  "one_tx_per_id ts \<Longrightarrow> s \<in> ts \<Longrightarrow> t \<in> ts \<Longrightarrow> ancestor s u \<Longrightarrow> ancestor t v \<Longrightarrow> ut_id u = ut_id v \<Longrightarrow> u = v"
  unfolding one_tx_per_id_def by blast

lemma one_tx_per_id_from:
  assumes "one_tx_per_id ts" "\<And>s u. s \<in> ts' \<Longrightarrow> ancestor s u \<Longrightarrow> \<exists>t \<in> ts. ancestor t u"
  shows "one_tx_per_id ts'"
  unfolding one_tx_per_id_def using assms by (metis one_tx_per_idD)

lemma leaves_through_stack:
  assumes "ancestor w v" and closed: "\<And>w u. w \<in> W \<Longrightarrow> u \<in> set (parents w) \<Longrightarrow> u \<in> W \<or> u \<in> S"
    and "w \<in> W" "v \<notin> W"
  shows "\<exists>q \<in> S. q \<notin> W \<and> ancestor q v"
  using assms(1,3,4)
proof (induction rule: ancestor.induct)
  case (earlier p t u)
  then show ?case using closed [of t p] by (cases "p \<in> W") auto
qed simp

definition below :: "ump_tx list \<Rightarrow> ump_tx set \<Rightarrow> ump_tx set" where
  "below pending W = {u. (\<exists>s \<in> set pending. ancestor s u) \<and> u \<notin> W}"

lemma collectSpends_from:
  assumes "one_tx_per_id (W \<union> set pending)" and "\<And>w u. w \<in> W \<Longrightarrow> u \<in> set (parents w) \<Longrightarrow> u \<in> W \<or> u \<in> set pending"
  shows "collectSpends pending (ut_id ` W) spent = spent \<union> (\<Union>u \<in> below pending W. set (spends u))"
  using assms
proof (induction pending "ut_id ` W" spent arbitrary: W rule: collectSpends.induct)
  case (2 t pending spent)
  show ?case
  proof (cases "ut_id t \<in> ut_id ` W")
    case True
    then obtain w where "w \<in> W" "ut_id w = ut_id t" by auto
    then have t: "t \<in> W" using one_tx_per_idD [OF 2(3) _ _ itself itself, of w t] by auto
    then have closed: "u \<in> W \<or> u \<in> set pending" if "w \<in> W" "u \<in> set (parents w)" for w u using 2(4) [OF that] by auto
    have one: "one_tx_per_id (W \<union> set pending)" by (rule one_tx_per_id_from [OF 2(3)]) auto
    have rest: "collectSpends pending (ut_id ` W) spent = spent \<union> (\<Union>u \<in> below pending W. set (spends u))"
      by (rule 2(1) [OF True refl one]) (rule closed)
    have "\<exists>q \<in> set pending. ancestor q v" if "ancestor t v" "v \<notin> W" for v
      using leaves_through_stack [OF that(1) _ t that(2), of "set pending"] closed by blast
    then have "below (t # pending) W = below pending W" by (auto simp: below_def)
    then show ?thesis using True rest by simp
  next
    case False
    let ?W = "insert t W" let ?p = "rev (parents t) @ pending"
    have one: "one_tx_per_id (?W \<union> set ?p)"
    proof (rule one_tx_per_id_from [OF 2(3)])
      fix s u assume su: "s \<in> ?W \<union> set ?p" "ancestor s u"
      show "\<exists>s' \<in> W \<union> set (t # pending). ancestor s' u"
      proof (cases "s \<in> set (parents t)")
        case True
        then show ?thesis using su(2) earlier [of s t u] by auto
      next
        case False
        then show ?thesis using su by auto
      qed
    qed
    have closed: "u \<in> ?W \<or> u \<in> set ?p" if "w \<in> ?W" "u \<in> set (parents w)" for w u using 2(4) that by auto
    have "t \<notin> W" using False by auto
    then have "below (t # pending) W = insert t (below ?p ?W)" by (auto simp: below_def ancestor_iff [of t])
    moreover have "collectSpends ?p (ut_id ` ?W) (spent \<union> set (spends t))
        = spent \<union> set (spends t) \<union> (\<Union>u \<in> below ?p ?W. set (spends u))"
      by (rule 2(2) [OF False _ one]) (simp, rule closed)
    ultimately show ?thesis using False by (simp add: Un_assoc)
  qed
qed (simp add: below_def)

lemma collectSpends_ancestry:
  assumes "one_tx_per_id {t}"
  shows "collectSpends [t] {} spent = spent \<union> (\<Union>u \<in> {u. ancestor t u}. set (spends u))"
  using collectSpends_from [of "{}" "[t]" spent] assms by (simp add: below_def)

declare collectSpends.simps [simp del]

section \<open>Answers of the hosts\<close>

text \<open>\<open>lo_tx\<close> is \<open>Transaction.fromBEEF(output.beef)\<close>, \<open>lo_size\<close> the length of that proof. \<open>verify key data signature\<close>
  parses the signature and checks it under the locking key.\<close>

record lookup_output =
  lo_tx :: "ump_tx option"
  lo_index :: int
  lo_size :: nat

record lookup_resolution =
  lr_outputs :: "lookup_output list"
  lr_emptyHosts :: int

type_synonym verifier = "string \<Rightarrow> int list \<Rightarrow> int list \<Rightarrow> bool"

datatype lookup_kind = ByPresentation | ByRecovery

fun kind_hash :: "lookup_kind \<Rightarrow> ump_token \<Rightarrow> int list" where
  "kind_hash ByPresentation t = presentationHash t"
| "kind_hash ByRecovery t = recoveryHash t"

definition authenticated :: "verifier \<Rightarrow> tx_output \<Rightarrow> (int list list \<times> string) option" where
  "authenticated verify out = (case to_decoded out of None \<Rightarrow> None | Some (fs, key) \<Rightarrow>
     (case decodeAuthenticatedUMPFields (verify key) fs of Inl _ \<Rightarrow> None | Inr gs \<Rightarrow> Some (gs, key)))"

definition lookup_position :: "lookup_output \<Rightarrow> string option" where
  "lookup_position ans = map_option (\<lambda>tx. outpoint_text (ut_id tx) (lo_index ans)) (lo_tx ans)"

definition parse_lookup_output :: "key_sdk \<Rightarrow> verifier \<Rightarrow> lookup_output \<Rightarrow> ump_token option" where
  "parse_lookup_output sdk verify ans = (case lo_tx ans of None \<Rightarrow> None | Some tx \<Rightarrow>
     (case out_at (ut_outputs tx) (lo_index ans) of None \<Rightarrow> None | Some out \<Rightarrow>
       (case authenticated verify out of None \<Rightarrow> None | Some (fs, _) \<Rightarrow>
         parseOutput sdk fs (outpoint_text (ut_id tx) (lo_index ans)))))"

definition parseLookupAnswers :: "key_sdk \<Rightarrow> verifier \<Rightarrow> lookup_output list \<Rightarrow> ump_token list" where
  "parseLookupAnswers sdk verify outs = List.map_filter (parse_lookup_output sdk verify) outs"

fun input_identity :: "verifier \<Rightarrow> ump_token \<Rightarrow> ump_input \<Rightarrow> bool" where
  "input_identity verify t (UmpInput h i src) = (case (src, i) of
     (Some source, Some n) \<Rightarrow> (case out_at (ut_outputs source) n of None \<Rightarrow> False | Some out \<Rightarrow>
       (case authenticated verify out of None \<Rightarrow> False | Some (fs, _) \<Rightarrow>
         \<not> length fs < 11 \<and> length (fs ! 6) = 32 \<and> length (fs ! 7) = 32
         \<and> (fs ! 6 = presentationHash t \<or> fs ! 7 = recoveryHash t)))
   | _ \<Rightarrow> False)"

definition consumesIdentity :: "verifier \<Rightarrow> ump_tx \<Rightarrow> ump_token \<Rightarrow> bool" where
  "consumesIdentity verify tx t = list_ex (input_identity verify t) (ut_inputs tx)"

type_synonym evidence = "(string, ump_tx list \<times> string set) jsmap"

definition token_candidates :: "ump_token list \<Rightarrow> (string, ump_token) jsmap" where
  "token_candidates ts = fold (\<lambda>t m. case currentOutpoint t of None \<Rightarrow> m | Some p \<Rightarrow> jsmap_set p t m) ts []"

definition add_evidence :: "(string, ump_token) jsmap \<Rightarrow> lookup_output \<Rightarrow> evidence \<Rightarrow> evidence" where
  "add_evidence cands ans ev = (case lo_tx ans of None \<Rightarrow> ev | Some tx \<Rightarrow>
     let p = outpoint_text (ut_id tx) (lo_index ans) in
     if jsmap_get cands p = None then ev
     else let (txs, spent) = (case jsmap_get ev p of None \<Rightarrow> ([], {}) | Some e \<Rightarrow> e) in
       jsmap_set p (txs @ [tx], collectSpends [tx] {} spent) ev)"

definition unsuperseded :: "(string, ump_token) jsmap \<Rightarrow> evidence \<Rightarrow> string list" where
  "unsuperseded cands ev = filter (\<lambda>p. \<not> list_ex (\<lambda>(q, _, spent). q \<noteq> p \<and> p \<in> spent) ev) (map fst cands)"

definition provenContinuations :: "verifier \<Rightarrow> (string, ump_token) jsmap \<Rightarrow> evidence \<Rightarrow> string list \<Rightarrow> string list" where
  "provenContinuations verify cands ev survivors = filter (\<lambda>p. case (jsmap_get ev p, jsmap_get cands p) of
     (Some (txs, _), Some t) \<Rightarrow> list_ex (\<lambda>tx. consumesIdentity verify tx t) txs | _ \<Rightarrow> False) survivors"

definition resolveNewestToken :: "verifier \<Rightarrow> ump_token list \<Rightarrow> lookup_output list \<Rightarrow> ump_token option" where
  "resolveNewestToken verify tokens outs =
     (if list_ex (\<lambda>t. currentOutpoint t = None) tokens then None
      else let cands = token_candidates tokens; ev = fold (add_evidence cands) outs [];
               survivors = unsuperseded cands ev in
        if length ev \<noteq> length cands then None
        else case survivors of
          [p] \<Rightarrow> jsmap_get cands p
        | _ \<Rightarrow> (case provenContinuations verify cands ev survivors of [p] \<Rightarrow> jsmap_get cands p | _ \<Rightarrow> None))"

definition findToken :: "key_sdk \<Rightarrow> verifier \<Rightarrow> lookup_kind \<Rightarrow> int list \<Rightarrow> string option
    \<Rightarrow> chain_error + lookup_resolution \<Rightarrow> chain_error + ump_token option" where
  "findToken sdk verify kind wanted pinned answer = (case answer of
     Inl _ \<Rightarrow> Inl (JsError ''lookup-unavailable'')
   | Inr r \<Rightarrow> let matching = filter (\<lambda>t. kind_hash kind t = wanted) (parseLookupAnswers sdk verify (lr_outputs r)) in
       if length matching > 1 then (case resolveNewestToken verify matching (lr_outputs r) of
           Some t \<Rightarrow> Inr (Some t)
         | None \<Rightarrow> (case (if pinned = None \<or> pinned = Some [] then None
                       else find (\<lambda>t. currentOutpoint t = pinned) matching) of
             Some t \<Rightarrow> Inr (Some t)
           | None \<Rightarrow> Inl (JsError ''token-ambiguous'')))
       else case matching of
         t # _ \<Rightarrow> Inr (Some t)
       | [] \<Rightarrow> if lr_emptyHosts r > 0 then Inr None
           else Inl (JsError (if lr_outputs r \<noteq> [] then ''token-malformed'' else ''lookup-incomplete'')))"

section \<open>Publishing\<close>

text \<open>\<open>findByOutpoint\<close>: the text of an outpoint, then the deepest proof of exactly that output. Its errors carry the
  code's reason.\<close>

definition parse_outpoint :: "string \<Rightarrow> (string \<times> int) option" where
  "parse_outpoint s = (let h = take 64 s; ds = drop 65 s in
     if length h = 64 \<and> list_all (\<lambda>c. js_hex (js_lower_char c)) h \<and> take 1 (drop 64 s) = ''.''
       \<and> (ds = ''0'' \<or> ds \<noteq> [] \<and> hd ds \<noteq> CHR ''0'' \<and> list_all js_digit ds) \<and> int (nat_of_digits ds) \<le> 4294967295
     then Some (js_lower h, int (nat_of_digits ds)) else None)"

definition is_requested :: "string \<Rightarrow> lookup_output \<Rightarrow> bool" where
  "is_requested p ans = (0 \<le> lo_index ans \<and> lo_index ans \<le> 4294967295 \<and> (case lo_tx ans of None \<Rightarrow> False
     | Some tx \<Rightarrow> out_at (ut_outputs tx) (lo_index ans) \<noteq> None \<and> outpoint_text (ut_id tx) (lo_index ans) = p))"

definition findByOutpoint :: "(string \<Rightarrow> chain_error + lookup_resolution) \<Rightarrow> string \<Rightarrow> chain_error + lookup_output option" where
  "findByOutpoint query outpoint = (case parse_outpoint outpoint of
     None \<Rightarrow> Inl (JsError ''token-malformed'')
   | Some (h, i) \<Rightarrow> (case query outpoint of
       Inl _ \<Rightarrow> Inl (JsError ''lookup-unavailable'')
     | Inr r \<Rightarrow> if lr_outputs r = [] then (if lr_emptyHosts r = 0 then Inl (JsError ''lookup-incomplete'') else Inr None)
         else if \<not> list_all (is_requested (outpoint_text h i)) (lr_outputs r) then Inl (JsError ''token-malformed'')
         else Inr (Some (hd (sort_key (\<lambda>ans. - int (lo_size ans)) (lr_outputs r))))))"

text \<open>What publishing uses of the wallet: the locking script of the fields, the wallet's key, an action that spends the old
  token (if any) and has the script as an output, and the broadcast, which answers with a transaction id.\<close>

record ump_wallet =
  uw_lock :: "int list list \<Rightarrow> chain_error + string"
  uw_key :: "chain_error + string"
  uw_complete :: "string \<Rightarrow> (string \<times> lookup_output) option \<Rightarrow> chain_error + ump_tx"
  uw_broadcast :: "ump_tx \<Rightarrow> chain_error + string"
  uw_query :: "string \<Rightarrow> chain_error + lookup_resolution"

definition resolveOldInput :: "ump_wallet \<Rightarrow> ump_token option \<Rightarrow> chain_error + (ump_token \<times> string \<times> lookup_output) option" where
  "resolveOldInput w old = (case old of None \<Rightarrow> Inr None | Some t \<Rightarrow>
     (case currentOutpoint t of
        None \<Rightarrow> Inr None
      | Some p \<Rightarrow> if p = [] then Inr None else and_then (findByOutpoint (uw_query w) p) (\<lambda>found. case found of
          None \<Rightarrow> Inl (JsError ''Previous UMP token unavailable; update refused.'')
        | Some ans \<Rightarrow> Inr (Some (t, p, ans)))))"

definition assertOwnedUMPInput :: "verifier \<Rightarrow> ump_wallet \<Rightarrow> ump_token \<Rightarrow> lookup_output \<Rightarrow> chain_error + unit" where
  "assertOwnedUMPInput verify w old ans =
     (case (case lo_tx ans of None \<Rightarrow> None | Some tx \<Rightarrow> out_at (ut_outputs tx) (lo_index ans)) of
        None \<Rightarrow> Inl (JsError ''Previous UMP token source output is missing.'')
      | Some out \<Rightarrow> (case authenticated verify out of
          None \<Rightarrow> Inl (JsError ''UMP token is not authenticated'')
        | Some (fs, key) \<Rightarrow>
            if length (fs ! 6) \<noteq> 32 \<or> length (fs ! 7) \<noteq> 32 \<or> fs ! 6 \<noteq> presentationHash old \<or> fs ! 7 \<noteq> recoveryHash old
            then Inl (JsError ''Previous UMP token identity does not match its authenticated source.'')
            else and_then (uw_key w) (\<lambda>k. ensure (js_lower k = js_lower key)
              (JsError ''Previous UMP token is not controlled by this wallet.''))))"

definition broadcastUMPTransaction :: "ump_wallet \<Rightarrow> ump_tx \<Rightarrow> string \<Rightarrow> chain_error + string" where
  "broadcastUMPTransaction w tx script =
     (case filter (\<lambda>i. to_satoshis (ut_outputs tx ! i) = 1 \<and> js_lower (to_script (ut_outputs tx ! i)) = js_lower script)
        [0..<length (ut_outputs tx)] of
        [i] \<Rightarrow> and_then (uw_broadcast w tx) (\<lambda>txid. and_then
            (ensure (js_lower txid = js_lower (ut_id tx)) (JsError ''UMP token broadcast failed (transaction ID mismatch).''))
            (\<lambda>_. Inr (outpoint_text (ut_id tx) (int i))))
      | _ \<Rightarrow> Inl (JsError ''Final UMP transaction must contain exactly one requested token output.''))"

definition buildAndSend :: "key_sdk \<Rightarrow> verifier \<Rightarrow> ump_wallet \<Rightarrow> ump_token \<Rightarrow> ump_token option \<Rightarrow> chain_error + string" where
  "buildAndSend sdk verify w t old = and_then (uw_lock w (tokenFields sdk t)) (\<lambda>script.
     and_then (resolveOldInput w old) (\<lambda>input.
     and_then (case input of None \<Rightarrow> Inr () | Some (old', _, ans) \<Rightarrow> assertOwnedUMPInput verify w old' ans) (\<lambda>_.
     and_then (uw_complete w script (map_option snd input)) (\<lambda>tx. broadcastUMPTransaction w tx script))))"

end
