(* ===== verification/Ump_Find.thy ===== *)
theory Ump_Find
  imports Ump_Lookup
begin

text \<open>
  What a lookup finds: exactly the authenticated tokens of the hash asked for; the newest rendition of an account's
  token, however many older ones the hosts still serve; the token just published; and a forged token, when
  the account's own token is its first.
\<close>

section \<open>Parsing\<close>

lemma parseOutput_facts:
  assumes "parseOutput sdk fs p = Some t"
  shows "currentOutpoint t = Some p" "presentationHash t = fs ! 6" "recoveryHash t = fs ! 7"
    "length (fs ! 6) = 32" "length (fs ! 7) = 32" "11 \<le> length fs"
  using assms
  by (auto simp: parseOutput_def addProfilesField_def addPasswordKdf_def token_of_def Let_def split: if_splits option.splits)

lemma parse_position: "parse_lookup_output sdk verify a = Some t \<Longrightarrow> currentOutpoint t = lookup_position a"
  by (auto simp: parse_lookup_output_def lookup_position_def parseOutput_facts(1) split: option.splits)

lemma parse_has_position: "parse_lookup_output sdk verify a = Some t \<Longrightarrow> \<exists>p. lookup_position a = Some p \<and> currentOutpoint t = Some p"
  using parse_position [of sdk verify a t] by (auto simp: parse_lookup_output_def lookup_position_def split: option.splits)

lemma in_answers: "t \<in> set (parseLookupAnswers sdk verify outs) \<longleftrightarrow> (\<exists>a \<in> set outs. parse_lookup_output sdk verify a = Some t)"
  by (auto simp: parseLookupAnswers_def List.map_filter_def image_iff)

text \<open>Positions are read one way.\<close>

lemma outpoint_text_inj: "outpoint_text h i = outpoint_text h' i' \<Longrightarrow> length h = length h' \<Longrightarrow> h = h' \<and> i = i'"
  by (auto simp: outpoint_text_def dest: show_int_inj)

section \<open>Candidates and evidence\<close>

lemma candidates_wf: "jsmap_wf (token_candidates ts)"
proof -
  have "jsmap_wf m \<Longrightarrow> jsmap_wf (fold (\<lambda>t m. case currentOutpoint t of None \<Rightarrow> m | Some p \<Rightarrow> jsmap_set p t m) ts m)" for m
    by (induction ts arbitrary: m) (auto split: option.split)
  then show ?thesis by (simp add: token_candidates_def jsmap_wf_def)
qed

lemma candidates_snoc: "token_candidates (ts @ [t]) =
    (case currentOutpoint t of None \<Rightarrow> token_candidates ts | Some p \<Rightarrow> jsmap_set p t (token_candidates ts))"
  by (simp add: token_candidates_def split: option.split)

lemma candidates_none: "jsmap_get (token_candidates ts) p = None \<longleftrightarrow> (\<forall>t \<in> set ts. currentOutpoint t \<noteq> Some p)"
proof (induction ts rule: rev_induct)
  case Nil
  then show ?case by (simp add: token_candidates_def)
next
  case (snoc t ts)
  then show ?case by (auto simp: candidates_snoc split: option.split)
qed

lemma candidates_some: "jsmap_get (token_candidates ts) p = Some t \<Longrightarrow> t \<in> set ts \<and> currentOutpoint t = Some p"
proof (induction ts rule: rev_induct)
  case Nil
  then show ?case by (simp add: token_candidates_def)
next
  case (snoc t ts)
  then show ?case by (auto simp: candidates_snoc split: option.splits if_splits)
qed

definition copies :: "lookup_output list \<Rightarrow> string \<Rightarrow> ump_tx list" where
  "copies outs p = List.map_filter (\<lambda>a. if lookup_position a = Some p then lo_tx a else None) outs"

lemma in_copies: "tx \<in> set (copies outs p) \<longleftrightarrow> (\<exists>a \<in> set outs. lookup_position a = Some p \<and> lo_tx a = Some tx)"
  by (auto simp: copies_def List.map_filter_def image_iff split: if_splits)

lemma copies_snoc: "copies (outs @ [a]) p = copies outs p @ (case lo_tx a of None \<Rightarrow> [] | Some tx \<Rightarrow>
    if lookup_position a = Some p then [tx] else [])"
  by (auto simp: copies_def List.map_filter_def split: option.split)

lemma add_evidence_get: "jsmap_get (add_evidence cands a ev) p = (case lo_tx a of None \<Rightarrow> jsmap_get ev p | Some tx \<Rightarrow>
    if lookup_position a = Some p \<and> jsmap_get cands p \<noteq> None
    then Some (case jsmap_get ev p of None \<Rightarrow> ([tx], collectSpends [tx] {} {}) | Some (txs, spent) \<Rightarrow> (txs @ [tx], collectSpends [tx] {} spent))
    else jsmap_get ev p)"
  by (auto simp: add_evidence_def lookup_position_def Let_def split: option.split)

lemma evidence_of: "jsmap_get (fold (add_evidence cands) outs []) p =
    (if jsmap_get cands p = None \<or> copies outs p = [] then None
     else Some (copies outs p, fold (\<lambda>tx. collectSpends [tx] {}) (copies outs p) {}))"
proof (induction outs rule: rev_induct)
  case Nil
  then show ?case by (simp add: copies_def List.map_filter_def)
next
  case (snoc a outs)
  show ?case
    by (cases "lo_tx a"; cases "lookup_position a = Some p"; cases "copies outs p = []") (simp_all add: add_evidence_get snoc copies_snoc)
qed

lemma evidence_wf: "jsmap_wf (fold (add_evidence cands) outs [])"
proof (induction outs rule: rev_induct)
  case Nil
  then show ?case by (simp add: jsmap_wf_def)
next
  case (snoc a outs)
  then show ?case by (auto simp: add_evidence_def Let_def split: option.split prod.split)
qed

text \<open>The outpoints that the copies of an output show as spent.\<close>

definition spent_before :: "ump_tx \<Rightarrow> string \<Rightarrow> bool" where
  "spent_before tx p \<longleftrightarrow> (\<exists>u. ancestor tx u \<and> p \<in> set (spends u))"

lemma spent_by_itself: "p \<in> set (spends tx) \<Longrightarrow> spent_before tx p"
  using itself by (auto simp: spent_before_def)

lemma spent_by_parent: "u \<in> set (parents tx) \<Longrightarrow> spent_before u p \<Longrightarrow> spent_before tx p"
  using earlier by (auto simp: spent_before_def)

lemma merged_spends:
  "(\<And>tx. tx \<in> set txs \<Longrightarrow> one_tx_per_id {tx}) \<Longrightarrow>
    q \<in> fold (\<lambda>tx. collectSpends [tx] {}) txs s \<longleftrightarrow> q \<in> s \<or> (\<exists>tx \<in> set txs. spent_before tx q)"
proof (induction txs arbitrary: s)
  case (Cons tx txs)
  then show ?case using collectSpends_ancestry [of tx s] by (auto simp: spent_before_def)
qed simp

lemma jsmap_keys: "k \<in> fst ` set m \<longleftrightarrow> jsmap_get m k \<noteq> None"
  by (metis map_of_eq_None_iff)

lemma filter_only:
  "distinct xs \<Longrightarrow> p \<in> set xs \<Longrightarrow> (\<And>q. q \<in> set xs \<Longrightarrow> P q \<longleftrightarrow> q = p) \<Longrightarrow> filter P xs = [p]"
proof (induction xs)
  case (Cons x xs)
  then show ?case
    by (cases "x = p") (auto simp: filter_empty_conv)
qed simp

section \<open>The newest rendition\<close>

text \<open>What transaction ids commit to: equal ids mean equal outputs, in all answers, and the same transaction within the
  proof of one answer.\<close>

definition answers_ok :: "lookup_output list \<Rightarrow> bool" where
  "answers_ok outs \<longleftrightarrow> (\<forall>a tx. a \<in> set outs \<longrightarrow> lo_tx a = Some tx \<longrightarrow> length (ut_id tx) = 64 \<and> one_tx_per_id {tx})
     \<and> (\<forall>a b tx tx'. a \<in> set outs \<longrightarrow> b \<in> set outs \<longrightarrow> lo_tx a = Some tx \<longrightarrow> lo_tx b = Some tx' \<longrightarrow> ut_id tx = ut_id tx'
          \<longrightarrow> ut_outputs tx = ut_outputs tx')"

lemma same_position_same_token:
  assumes ok: "answers_ok outs" and a: "a \<in> set outs" "lookup_position a = Some p" and b: "b \<in> set outs" "lookup_position b = Some p"
  shows "parse_lookup_output sdk verify a = parse_lookup_output sdk verify b"
proof -
  obtain tx tx' where tx: "lo_tx a = Some tx" "lo_tx b = Some tx'" using a b by (auto simp: lookup_position_def)
  have len: "length (ut_id tx) = length (ut_id tx')" using ok a(1) b(1) tx by (simp add: answers_ok_def)
  have "outpoint_text (ut_id tx) (lo_index a) = outpoint_text (ut_id tx') (lo_index b)"
    using a(2) b(2) tx by (simp add: lookup_position_def)
  from outpoint_text_inj [OF this len] have eq: "ut_id tx = ut_id tx'" "lo_index a = lo_index b" by simp_all
  have "ut_outputs tx = ut_outputs tx'" using ok a(1) b(1) tx eq(1) unfolding answers_ok_def by blast
  then show ?thesis by (simp add: parse_lookup_output_def tx eq(2) eq(1) cong: option.case_cong)
qed

text \<open>The tokens a lookup chooses from.\<close>

definition matching_tokens :: "key_sdk \<Rightarrow> verifier \<Rightarrow> lookup_kind \<Rightarrow> int list \<Rightarrow> lookup_output list \<Rightarrow> ump_token list" where
  "matching_tokens sdk verify kind wanted outs = filter (\<lambda>t. kind_hash kind t = wanted) (parseLookupAnswers sdk verify outs)"

lemma in_matching: "t \<in> set (matching_tokens sdk verify kind wanted outs)
    \<longleftrightarrow> kind_hash kind t = wanted \<and> (\<exists>a \<in> set outs. parse_lookup_output sdk verify a = Some t)"
  by (auto simp: matching_tokens_def in_answers)

lemma matching_candidate:
  assumes "answers_ok outs" "t \<in> set (matching_tokens sdk verify kind wanted outs)" "currentOutpoint t = Some p"
  shows "jsmap_get (token_candidates (matching_tokens sdk verify kind wanted outs)) p = Some t"
proof -
  let ?ts = "matching_tokens sdk verify kind wanted outs"
  obtain t' where t': "jsmap_get (token_candidates ?ts) p = Some t'" using assms(2,3) candidates_none [of ?ts p] by fastforce
  then have "t' \<in> set ?ts" "currentOutpoint t' = Some p" using candidates_some by blast+
  then obtain a where a: "a \<in> set outs" "parse_lookup_output sdk verify a = Some t'" "lookup_position a = Some p"
    using parse_position by (auto simp: in_matching)
  obtain b where b: "b \<in> set outs" "parse_lookup_output sdk verify b = Some t" "lookup_position b = Some p"
    using assms(2,3) parse_position by (auto simp: in_matching)
  have "t' = t" using same_position_same_token [OF assms(1) a(1,3) b(1,3), of sdk verify] a(2) b(2) by simp
  then show ?thesis using t' by simp
qed

text \<open>The evidence for the candidates, and which of them survive.\<close>

lemma resolution:
  assumes ok: "answers_ok outs" and ts: "ts = matching_tokens sdk verify kind wanted outs"
  defines "ev \<equiv> fold (add_evidence (token_candidates ts)) outs []"
  shows "\<not> list_ex (\<lambda>t. currentOutpoint t = None) ts" "length ev = length (token_candidates ts)"
    "\<And>p. jsmap_get (token_candidates ts) p \<noteq> None \<Longrightarrow> jsmap_get ev p
        = Some (copies outs p, fold (\<lambda>tx. collectSpends [tx] {}) (copies outs p) {})"
    "distinct (map fst (token_candidates ts))"
    "\<And>p. p \<in> set (unsuperseded (token_candidates ts) ev) \<longleftrightarrow> jsmap_get (token_candidates ts) p \<noteq> None
        \<and> \<not> (\<exists>q tx. jsmap_get (token_candidates ts) q \<noteq> None \<and> q \<noteq> p \<and> tx \<in> set (copies outs q) \<and> spent_before tx p)"
proof -
  let ?c = "token_candidates ts"
  show "\<not> list_ex (\<lambda>t. currentOutpoint t = None) ts"
    using parse_has_position by (fastforce simp: ts list_ex_iff in_matching)
  have copy: "copies outs p \<noteq> []" if h: "jsmap_get ?c p \<noteq> None" for p
  proof -
    obtain t where "t \<in> set ts" "currentOutpoint t = Some p" using h by (auto simp: candidates_none)
    then obtain a where "a \<in> set outs" "lookup_position a = Some p" using parse_position by (auto simp: ts in_matching)
    then have "\<exists>tx. tx \<in> set (copies outs p)" by (auto simp: in_copies lookup_position_def)
    then show ?thesis by auto
  qed
  show ev: "jsmap_get ev p = Some (copies outs p, fold (\<lambda>tx. collectSpends [tx] {}) (copies outs p) {})"
    if "jsmap_get ?c p \<noteq> None" for p using that copy [OF that] by (simp add: ev_def evidence_of)
  have none: "jsmap_get ev p = None" if "jsmap_get ?c p = None" for p using that by (simp add: ev_def evidence_of)
  have "jsmap_get ev q \<noteq> None" if "jsmap_get ?c q \<noteq> None" for q unfolding ev [OF that] by (rule option.distinct)
  then have "jsmap_get ev q = None \<longleftrightarrow> jsmap_get ?c q = None" for q using none [of q] by blast
  then have "dom (map_of ev) = dom (map_of ?c)" unfolding dom_def by simp
  then have "fst ` set ev = fst ` set ?c" by (simp only: dom_map_of_conv_image_fst)
  moreover show c: "distinct (map fst ?c)" using candidates_wf by (simp add: jsmap_wf_def)
  moreover have e: "distinct (map fst ev)" using evidence_wf by (simp add: jsmap_wf_def ev_def)
  ultimately show "length ev = length ?c" by (metis distinct_card length_map set_map)
  fix p
  have mem: "(q, txs, spent) \<in> set ev \<longleftrightarrow> jsmap_get ev q = Some (txs, spent)" for q txs spent
    by (rule jsmap_get_in) (simp add: jsmap_wf_def e)
  have one: "tx \<in> set (copies outs q) \<Longrightarrow> one_tx_per_id {tx}" for tx q using ok by (auto simp: in_copies answers_ok_def)
  have merged: "p \<in> fold (\<lambda>tx. collectSpends [tx] {}) (copies outs q) {} \<longleftrightarrow> (\<exists>tx \<in> set (copies outs q). spent_before tx p)" for q
    using merged_spends [of "copies outs q" p "{}"] one by blast
  have "(\<exists>x \<in> set ev. case x of (q, _, spent) \<Rightarrow> q \<noteq> p \<and> p \<in> spent)
      \<longleftrightarrow> (\<exists>q tx. jsmap_get ?c q \<noteq> None \<and> q \<noteq> p \<and> tx \<in> set (copies outs q) \<and> spent_before tx p)"
  proof
    assume "\<exists>x \<in> set ev. case x of (q, _, spent) \<Rightarrow> q \<noteq> p \<and> p \<in> spent"
    then obtain q txs spent where q: "jsmap_get ev q = Some (txs, spent)" "q \<noteq> p" "p \<in> spent" using mem by auto
    then have c: "jsmap_get ?c q \<noteq> None" using none by force
    then show "\<exists>q tx. jsmap_get ?c q \<noteq> None \<and> q \<noteq> p \<and> tx \<in> set (copies outs q) \<and> spent_before tx p"
      using q(1,2,3) ev [OF c] merged [of q] c by auto
  next
    assume "\<exists>q tx. jsmap_get ?c q \<noteq> None \<and> q \<noteq> p \<and> tx \<in> set (copies outs q) \<and> spent_before tx p"
    then obtain q tx where q: "jsmap_get ?c q \<noteq> None" "q \<noteq> p" "tx \<in> set (copies outs q)" "spent_before tx p" by blast
    then have "(q, copies outs q, fold (\<lambda>tx. collectSpends [tx] {}) (copies outs q) {}) \<in> set ev" using ev mem by simp
    moreover have "p \<in> fold (\<lambda>tx. collectSpends [tx] {}) (copies outs q) {}"
      using q merged [of q] by blast
    ultimately show "\<exists>x \<in> set ev. case x of (q, _, spent) \<Rightarrow> q \<noteq> p \<and> p \<in> spent" using q(2) by fastforce
  qed
  then show "p \<in> set (unsuperseded ?c ev) \<longleftrightarrow> jsmap_get ?c p \<noteq> None
        \<and> \<not> (\<exists>q tx. jsmap_get ?c q \<noteq> None \<and> q \<noteq> p \<and> tx \<in> set (copies outs q) \<and> spent_before tx p)"
    by (simp only: unsuperseded_def set_filter list_ex_iff set_map mem_Collect_eq jsmap_keys)
qed

lemma resolved_candidate: "resolveNewestToken verify ts outs = Some t \<Longrightarrow> t \<in> set ts"
  using candidates_some by (fastforce simp: resolveNewestToken_def Let_def split: if_splits list.splits)

text \<open>The output an answer stands for, and what it shows when it is signed: the fields before the last one, with the
  key of its own script and a signature of it over them.\<close>

definition answered_output :: "lookup_output \<Rightarrow> tx_output option" where
  "answered_output a = (case lo_tx a of
       Some tx \<Rightarrow> if 0 \<le> lo_index a \<and> nat (lo_index a) < length (ut_outputs tx) then Some (ut_outputs tx ! nat (lo_index a)) else None
     | None \<Rightarrow> None)"

definition signed_fields :: "verifier \<Rightarrow> lookup_output \<Rightarrow> int list list \<Rightarrow> bool" where
  "signed_fields verify a fs = (\<exists>out sig key. answered_output a = Some out \<and> to_decoded out = Some (fs @ [sig], key) \<and>
     verify key (concat fs) sig \<and> isLikelyDerSignatureField sig)"

text \<open>The fields and position of an account token as they were published: its eleven fields in order, then the profiles,
  then the three KDF fields.\<close>

definition shows_token :: "key_sdk \<Rightarrow> int list list \<Rightarrow> ump_token \<Rightarrow> bool" where
  "shows_token sdk fs t = (take 11 fs = standard_fields t \<and> list_all (\<lambda>f. f \<noteq> []) (standard_fields t) \<and>
     length (presentationHash t) = 32 \<and> length (recoveryHash t) = 32 \<and>
     profilesEncrypted t = (if length fs = 11 \<or> length fs = 14 \<or> fs ! 11 = [] then None else Some (fs ! 11)) \<and>
     (case passwordKdf t of None \<Rightarrow> umpVersion t = None \<and> length fs \<le> 12
      | Some c \<Rightarrow> umpVersion t = Some 3 \<and> (length fs = 14 \<or> length fs = 15) \<and> fs ! (length fs - 3) = [3] \<and>
          (\<exists>j. ks_json_parse sdk (fs ! (length fs - 1)) = Some j \<and> c = kdf_from (ks_text sdk (fs ! (length fs - 2))) j)))"

lemma out_at_answered: "lo_tx a = Some tx \<Longrightarrow> out_at (ut_outputs tx) (lo_index a) = answered_output a"
  by (simp add: answered_output_def out_at_def)

lemma authenticated_signed:
  assumes "authenticated verify out = Some (fs, key)"
  obtains sig where "to_decoded out = Some (fs @ [sig], key)" "verify key (concat fs) sig" "isLikelyDerSignatureField sig"
    "length fs = 11 \<or> length fs = 12 \<or> length fs = 14 \<or> length fs = 15"
    "findKdfVersionFieldIndex fs = (if length fs \<le> 12 then - 1 else int (length fs) - 3)"
proof -
  obtain ds where d: "to_decoded out = Some (ds, key)" "decodeAuthenticatedUMPFields (verify key) ds = Inr fs"
    using assms by (auto simp: authenticated_def split: option.splits sum.splits)
  have f: "fs = stripVerifiedPushDropSignature (verify key) ds" "length ds \<in> set [12, 13, 15, 16]" "length fs = length ds - 1"
    and i: "\<not> (findKdfVersionFieldIndex fs = - 1 \<and> length fs > 12)" "findKdfVersionFieldIndex fs = 11 \<longrightarrow> length fs = 14"
      "findKdfVersionFieldIndex fs = 12 \<longrightarrow> length fs = 15"
    using d(2) by (auto simp: decodeAuthenticatedUMPFields_def Let_def split: if_splits)
  have "ds \<noteq> []" "length fs \<noteq> length ds" using f(2,3) by auto
  then have s: "isLikelyDerSignatureField (last ds)" "verify key (concat (butlast ds)) (last ds)" "fs = butlast ds"
    using f(1) by (auto simp: stripVerifiedPushDropSignature_def split: if_splits)
  have "ds = fs @ [last ds]" using s(3) \<open>ds \<noteq> []\<close> by simp
  moreover have "findKdfVersionFieldIndex fs = (if length fs \<le> 12 then - 1 else int (length fs) - 3)"
    using i f(2,3) by (auto simp: findKdfVersionFieldIndex_def split: if_splits)
  ultimately show ?thesis using that [of "last ds"] d(1) s f(2,3) by auto
qed

lemma eleven_fields:
  assumes "11 \<le> length fs"
  shows "take 11 fs = [fs ! 0, fs ! 1, fs ! 2, fs ! 3, fs ! 4, fs ! 5, fs ! 6, fs ! 7, fs ! 8, fs ! 9, fs ! 10]"
  by (rule nth_equalityI) (use assms in \<open>auto simp: less_Suc_eq numeral_eq_Suc\<close>)

lemma parsed_token_shown:
  assumes "parse_lookup_output sdk verify a = Some t"
  obtains tx fs where "lo_tx a = Some tx" "signed_fields verify a fs" "shows_token sdk fs t"
    "currentOutpoint t = Some (outpoint_text (ut_id tx) (lo_index a))"
proof -
  obtain tx out fs key where p: "lo_tx a = Some tx" "answered_output a = Some out" "authenticated verify out = Some (fs, key)"
    "parseOutput sdk fs (outpoint_text (ut_id tx) (lo_index a)) = Some t"
    using assms out_at_answered [of a] by (auto simp: parse_lookup_output_def split: option.splits)
  obtain sig where s: "to_decoded out = Some (fs @ [sig], key)" "verify key (concat fs) sig" "isLikelyDerSignatureField sig"
    and len: "length fs = 11 \<or> length fs = 12 \<or> length fs = 14 \<or> length fs = 15"
    and idx: "findKdfVersionFieldIndex fs = (if length fs \<le> 12 then - 1 else int (length fs) - 3)"
    using authenticated_signed [OF p(3)] by metis
  have "11 \<le> length fs" using len by auto
  note eleven = eleven_fields [OF this]
  have kdf: "12 < length fs \<longrightarrow> fs ! (length fs - 3) = [3]"
    using idx len by (auto simp: findKdfVersionFieldIndex_def split: if_splits)
  let ?i = "findKdfVersionFieldIndex fs"
  define t0 where t0: "t0 = token_of fs None None None (Some (outpoint_text (ut_id tx) (lo_index a)))"
  obtain t1 where q: "\<not> list_ex (\<lambda>f. f = [] \<or> int (length f) > max_snapshot_bytes) (take 11 fs)"
    "length (presentationHash t0) = 32" "length (recoveryHash t0) = 32" "addProfilesField t0 fs ?i = Some t1"
    "addPasswordKdf sdk t1 fs ?i = Some t"
    using p(4) unfolding parseOutput_def Let_def t0 by (simp split: if_splits option.splits)
  have f0: "take 11 fs = standard_fields t0" unfolding eleven by (simp add: t0 token_of_def standard_fields_def)
  have n0: "list_all (\<lambda>f. f \<noteq> []) (standard_fields t0)" using q(1) unfolding f0 by (auto simp: list_ex_iff list_all_iff)
  have r0: "umpVersion t0 = None" "passwordKdf t0 = None" "profilesEncrypted t0 = None" by (simp_all add: t0 token_of_def)
  have t1: "t1 = t0\<lparr>profilesEncrypted := (if length fs = 11 \<or> length fs = 14 \<or> fs ! 11 = [] then None else Some (fs ! 11))\<rparr>"
    using q(4) len idx r0(3) by (auto simp: addProfilesField_def split: if_splits)
  show ?thesis
  proof (cases "?i = - 1")
    case True
    then have "t = t1" "length fs \<le> 12" using q(5) idx len by (auto simp: addPasswordKdf_def)
    then have "shows_token sdk fs t"
      unfolding shows_token_def using f0 n0 q(2,3) r0 t1 by (simp add: standard_fields_def)
    then show ?thesis using that [of tx fs] p s parseOutput_facts(1) [OF p(4)] by (auto simp: signed_fields_def)
  next
    case False
    then have k: "length fs = 14 \<or> length fs = 15" "?i = int (length fs) - 3" using idx len by auto
    then have k3: "fs ! (length fs - 3) = [3]" using kdf by auto
    have ks: "nat ?i = length fs - 3" "nat ?i + 1 = length fs - 2" "nat ?i + 2 = length fs - 1" using k by auto
    obtain j where "ks_json_parse sdk (fs ! (nat ?i + 2)) = Some j"
      "t = t1\<lparr>umpVersion := Some 3, passwordKdf := Some (kdf_from (ks_text sdk (fs ! (nat ?i + 1))) j)\<rparr>"
      using q(5) False unfolding addPasswordKdf_def Let_def by (auto split: if_splits option.splits)
    note j = this [unfolded ks(2,3)]
    have "shows_token sdk fs t"
      unfolding shows_token_def using f0 n0 q(2,3) j t1 k(1) k3 by (simp add: standard_fields_def)
    then show ?thesis using that [of tx fs] p s parseOutput_facts(1) [OF p(4)] by (auto simp: signed_fields_def)
  qed
qed

lemma authentic_fields:
  assumes "sdk_ok sdk" "token_ok sdk t" "to_decoded out = Some (tokenFields sdk t @ [sig], key)"
    and "verify key (concat (tokenFields sdk t)) sig" "isLikelyDerSignatureField sig"
  shows "authenticated verify out = Some (tokenFields sdk t, key)"
  using publication_roundtrip(1) [where verify = "verify key" and sig = sig, OF assms(1,2,4,5)] assms(3)
  by (simp add: authenticated_def)

lemma shown_token_parsed:
  assumes "sdk_ok sdk" and "token_ok sdk t" and "signed_fields verify a (tokenFields sdk t)"
  shows "\<exists>p. parse_lookup_output sdk verify a = Some (t\<lparr>currentOutpoint := Some p\<rparr>)"
proof -
  obtain out sig key where o: "answered_output a = Some out" "to_decoded out = Some (tokenFields sdk t @ [sig], key)"
    "verify key (concat (tokenFields sdk t)) sig" "isLikelyDerSignatureField sig"
    using assms(3) by (auto simp: signed_fields_def)
  then obtain tx where tx: "lo_tx a = Some tx" by (auto simp: answered_output_def split: option.splits)
  have "parse_lookup_output sdk verify a = Some (t\<lparr>currentOutpoint := Some (outpoint_text (ut_id tx) (lo_index a))\<rparr>)"
    using authentic_fields [where verify = verify, OF assms(1,2) o(2-4)] out_at_answered [OF tx] o(1) tx
      publication_roundtrip(2) [where verify = "verify key" and sig = sig, OF assms(1,2) o(3,4)]
    by (simp add: parse_lookup_output_def)
  then show ?thesis by blast
qed

text \<open>C37. A lookup never makes up an account and never denies one it has seen. Whatever the hosts answer, a token it
  returns carries the hash asked for and is, field for field and at its position, what some answered output shows
  before a signature that verifies over these fields under the key of the output's own script; and it reports that
  there is no account only if some host gave a clean empty answer and no answered output shows a token of that hash
  published with such a signature.\<close>

theorem lookup_is_sound:
  "case findToken sdk verify kind wanted pinned (Inr r) of
     Inr (Some t) \<Rightarrow> kind_hash kind t = wanted \<and> (\<exists>a \<in> set (lr_outputs r). \<exists>tx out fs sig key.
       lo_tx a = Some tx \<and> currentOutpoint t = Some (outpoint_text (ut_id tx) (lo_index a)) \<and> answered_output a = Some out \<and>
       to_decoded out = Some (fs @ [sig], key) \<and> verify key (concat fs) sig \<and> isLikelyDerSignatureField sig \<and> shows_token sdk fs t)
   | Inr None \<Rightarrow> 0 < lr_emptyHosts r \<and> (sdk_ok sdk \<longrightarrow> \<not> (\<exists>a \<in> set (lr_outputs r). \<exists>t.
       token_ok sdk t \<and> kind_hash kind t = wanted \<and> signed_fields verify a (tokenFields sdk t)))
   | Inl _ \<Rightarrow> True"
proof -
  let ?ts = "matching_tokens sdk verify kind wanted (lr_outputs r)"
  have pin: "find (\<lambda>t. currentOutpoint t = pinned) ?ts = Some t \<Longrightarrow> t \<in> set ?ts" for t
    by (auto simp: find_Some_iff)
  have some: "t \<in> set ?ts" if "findToken sdk verify kind wanted pinned (Inr r) = Inr (Some t)" for t
    using that resolved_candidate [of verify ?ts] pin
    by (auto simp: findToken_def Let_def matching_tokens_def [symmetric] split: if_splits option.splits list.splits)
  have none: "?ts = [] \<and> 0 < lr_emptyHosts r" if "findToken sdk verify kind wanted pinned (Inr r) = Inr None"
    using that by (auto simp: findToken_def Let_def matching_tokens_def [symmetric] split: if_splits option.splits list.splits)
  show ?thesis
  proof (cases "findToken sdk verify kind wanted pinned (Inr r)")
    case (Inr res)
    show ?thesis
    proof (cases res)
      case None
      then have e: "\<forall>t. t \<notin> set ?ts" "0 < lr_emptyHosts r" using none Inr by auto
      have "\<not> (a \<in> set (lr_outputs r) \<and> token_ok sdk t \<and> kind_hash kind t = wanted \<and> signed_fields verify a (tokenFields sdk t))"
        if ok: "sdk_ok sdk" for a t
      proof
        assume h: "a \<in> set (lr_outputs r) \<and> token_ok sdk t \<and> kind_hash kind t = wanted \<and> signed_fields verify a (tokenFields sdk t)"
        then obtain p where "parse_lookup_output sdk verify a = Some (t\<lparr>currentOutpoint := Some p\<rparr>)"
          using shown_token_parsed [OF ok, of t verify a] by blast
        moreover have "kind_hash kind (t\<lparr>currentOutpoint := Some p\<rparr>) = wanted" using h by (cases kind) simp_all
        ultimately have "t\<lparr>currentOutpoint := Some p\<rparr> \<in> set ?ts" using h by (auto simp: in_matching)
        then show False using e(1) by blast
      qed
      then show ?thesis using Inr None e(2) by auto
    next
      case (Some t)
      then obtain a where a: "kind_hash kind t = wanted" "a \<in> set (lr_outputs r)" "parse_lookup_output sdk verify a = Some t"
        using some [of t] Inr by (auto simp: in_matching)
      then show ?thesis
        using Inr Some parsed_token_shown [OF a(3)] unfolding signed_fields_def by (simp, metis)
    qed
  qed simp
qed

text \<open>C38. The newest rendition is found. However many older renditions of the token the hosts still serve, in any order and
  with proofs of any depth: if no proof shows the newest one as spent, and some copy of it shows every other
  matching token as spent in its history, the lookup returns the newest.\<close>

theorem newest_rendition_is_found:
  assumes ok: "answers_ok (lr_outputs r)"
    and new: "a \<in> set (lr_outputs r)" "parse_lookup_output sdk verify a = Some t" "kind_hash kind t = wanted" "currentOutpoint t = Some p"
    and older: "\<And>b t' q. b \<in> set (lr_outputs r) \<Longrightarrow> parse_lookup_output sdk verify b = Some t' \<Longrightarrow> kind_hash kind t' = wanted
      \<Longrightarrow> currentOutpoint t' = Some q \<Longrightarrow> q \<noteq> p \<Longrightarrow> list_ex (\<lambda>tx. spent_before tx q) (copies (lr_outputs r) p)"
    and unspent: "\<And>b tx. b \<in> set (lr_outputs r) \<Longrightarrow> lo_tx b = Some tx \<Longrightarrow> \<not> spent_before tx p"
  shows "findToken sdk verify kind wanted pinned (Inr r) = Inr (Some t)"
proof -
  define ts where ts: "ts = matching_tokens sdk verify kind wanted (lr_outputs r)"
  let ?c = "token_candidates ts" let ?ev = "fold (add_evidence ?c) (lr_outputs r) []"
  note res = resolution [OF ok ts]
  have t: "t \<in> set ts" using new by (auto simp: ts in_matching)
  have c: "jsmap_get ?c p = Some t" using matching_candidate [OF ok _ new(4)] t by (simp add: ts)
  have "p \<in> set (unsuperseded ?c ?ev)" using c unspent by (auto simp: res(5) in_copies)
  moreover have "q = p" if "q \<in> set (unsuperseded ?c ?ev)" for q
  proof (rule ccontr)
    assume ne: "q \<noteq> p"
    obtain t' where "t' \<in> set ts" "currentOutpoint t' = Some q" using \<open>q \<in> _\<close> by (auto simp: res(5) candidates_none)
    then have "list_ex (\<lambda>tx. spent_before tx q) (copies (lr_outputs r) p)" using older ne by (auto simp: ts in_matching)
    then obtain tx where "tx \<in> set (copies (lr_outputs r) p)" "spent_before tx q" by (auto simp: list_ex_iff)
    moreover have "jsmap_get ?c p \<noteq> None" "p \<noteq> q" using c ne by simp_all
    ultimately show False using \<open>q \<in> _\<close> res(5) [of q] by blast
  qed
  moreover have "distinct (unsuperseded ?c ?ev)" using res(4) by (simp add: unsuperseded_def)
  ultimately have "unsuperseded ?c ?ev = [p]"
    using filter_only [of "unsuperseded ?c ?ev" p "\<lambda>_. True"] by (metis filter_True)
  then have "resolveNewestToken verify ts (lr_outputs r) = Some t"
    using res(1,2) c by (simp add: resolveNewestToken_def Let_def)
  moreover have "ts = [t]" if "\<not> 1 < length ts" using that t by (cases ts; cases "tl ts") auto
  ultimately show ?thesis by (auto simp: findToken_def Let_def matching_tokens_def [symmetric] ts [symmetric])
qed

section \<open>A forged renewal\<close>

lemma consumes_forged:
  assumes "sdk_ok sdk" "token_ok sdk fake" "kind_hash kind fake = kind_hash kind t"
    and "UmpInput h (Some j) (Some b) \<in> set (ut_inputs tx)" "out_at (ut_outputs b) j = Some out"
    and "to_decoded out = Some (tokenFields sdk fake @ [sig], key)" "verify key (concat (tokenFields sdk fake)) sig"
      "isLikelyDerSignatureField sig"
  shows "consumesIdentity verify tx t"
proof -
  have a: "authenticated verify out = Some (tokenFields sdk fake, key)" by (rule authentic_fields [where verify = verify, OF assms(1,2,6-8)])
  have f: "tokenFields sdk fake ! 6 = presentationHash fake" "tokenFields sdk fake ! 7 = recoveryHash fake" "11 \<le> length (tokenFields sdk fake)"
    by (simp_all add: tokenFields_def standard_fields_def nth_append)
  have "length (presentationHash fake) = 32" "length (recoveryHash fake) = 32" using assms(2) by (simp_all add: token_ok_def)
  then have "input_identity verify t (UmpInput h (Some j) (Some b))" using a f assms(3,5) by (cases kind) simp_all
  then show ?thesis unfolding consumesIdentity_def list_ex_iff using assms(4) by blast
qed

text \<open>C40. A forger takes over the lookup of an account whose token is still its first. The hash that identifies an account
  is published with its token, and a token is authenticated only by the key in its own script. Whoever publishes a
  fake token with the hash under a key of his own, and then renews it, is the sole proven continuation: the
  lookup returns the forged token and not the account's, in whatever order the hosts list them.\<close>

theorem forged_renewal_takes_over:
  assumes ok: "answers_ok (lr_outputs r)" and outs: "set (lr_outputs r) = {own, forged}"
    and own: "parse_lookup_output sdk verify own = Some t" "kind_hash kind t = wanted" "lo_tx own = Some v" "\<not> consumesIdentity verify v t"
    and forged: "parse_lookup_output sdk verify forged = Some t'" "kind_hash kind t' = wanted" "lo_tx forged = Some f"
    and fake: "sdk_ok sdk" "token_ok sdk fake" "kind_hash kind fake = wanted"
      "UmpInput h (Some j) (Some b) \<in> set (ut_inputs f)" "out_at (ut_outputs b) j = Some out"
      "to_decoded out = Some (tokenFields sdk fake @ [sig], key)" "verify key (concat (tokenFields sdk fake)) sig"
      "isLikelyDerSignatureField sig"
    and apart: "currentOutpoint t = Some p" "currentOutpoint t' = Some p'" "p \<noteq> p'" "\<not> spent_before v p'" "\<not> spent_before f p"
  shows "findToken sdk verify kind wanted pinned (Inr r) = Inr (Some t')"
proof -
  define ts where ts: "ts = matching_tokens sdk verify kind wanted (lr_outputs r)"
  let ?c = "token_candidates ts" let ?ev = "fold (add_evidence ?c) (lr_outputs r) []"
  note res = resolution [OF ok ts]
  have set: "set ts = {t, t'}" using outs own forged by (auto simp: ts in_matching)
  have pos: "lookup_position own = Some p" "lookup_position forged = Some p'" using own(1) forged(1) apart(1,2) parse_position by force+
  have c: "jsmap_get ?c p = Some t" "jsmap_get ?c p' = Some t'"
    using matching_candidate [OF ok _ apart(1)] matching_candidate [OF ok _ apart(2)] set unfolding ts by simp_all
  have keys: "jsmap_get ?c q \<noteq> None \<longleftrightarrow> q = p \<or> q = p'" for q
    using candidates_none [of ts q] apart(1,2) by (auto simp: set)
  have cp: "set (copies (lr_outputs r) p) = {v}" "set (copies (lr_outputs r) p') = {f}"
    using outs pos own(3) forged(3) apart(3) by (auto simp: in_copies)
  have surv: "set (unsuperseded ?c ?ev) = {p, p'}"
  proof -
    have "q \<in> set (unsuperseded ?c ?ev) \<longleftrightarrow> q = p \<or> q = p'" for q
      unfolding res(5) keys using cp apart(3-5) by auto
    then show ?thesis by auto
  qed
  have dist: "distinct (unsuperseded ?c ?ev)" using res(4) by (simp add: unsuperseded_def)
  have two: "\<not> (\<exists>q. unsuperseded ?c ?ev = [q])" using surv apart(3) by auto
  have "consumesIdentity verify f t'" by (rule consumes_forged [where verify = verify and kind = kind, OF fake(1,2) _ fake(4-8)]) (simp add: fake(3) forged(2))
  then have cont: "provenContinuations verify ?c ?ev (unsuperseded ?c ?ev) = [p']"
    unfolding provenContinuations_def using dist surv res(3) c cp own(4) apart(3)
    by (intro filter_only) (auto simp: list_ex_iff)
  have "resolveNewestToken verify ts (lr_outputs r) = Some t'"
    using res(1,2) two cont c(2) by (auto simp: resolveNewestToken_def Let_def split: list.split)
  moreover have "1 < length ts" using set apart(1-3) by (cases ts; cases "tl ts") auto
  ultimately show ?thesis by (simp add: findToken_def Let_def matching_tokens_def [symmetric] ts [symmetric])
qed

section \<open>Publish and find\<close>

lemma publish_steps:
  assumes "buildAndSend sdk verify w t old = Inr p"
  obtains script input tx where "uw_lock w (tokenFields sdk t) = Inr script" "resolveOldInput w old = Inr input"
    "case input of None \<Rightarrow> True | Some (old', _, a) \<Rightarrow> assertOwnedUMPInput verify w old' a = Inr ()"
    "uw_complete w script (map_option snd input) = Inr tx" "broadcastUMPTransaction w tx script = Inr p"
  using assms by (auto simp: buildAndSend_def and_then_Inr split: option.splits prod.splits)

lemma broadcast_output:
  assumes "broadcastUMPTransaction w tx script = Inr p"
  obtains i where "i < length (ut_outputs tx)" "p = outpoint_text (ut_id tx) (int i)"
    "js_lower (to_script (ut_outputs tx ! i)) = js_lower script" "to_satoshis (ut_outputs tx ! i) = 1"
proof -
  obtain i where i: "filter (\<lambda>i. to_satoshis (ut_outputs tx ! i) = 1 \<and> js_lower (to_script (ut_outputs tx ! i)) = js_lower script)
        [0..<length (ut_outputs tx)] = [i]" "p = outpoint_text (ut_id tx) (int i)"
    using assms by (auto simp: broadcastUMPTransaction_def and_then_Inr split: list.splits)
  then have "i \<in> set (filter (\<lambda>i. to_satoshis (ut_outputs tx ! i) = 1 \<and> js_lower (to_script (ut_outputs tx ! i)) = js_lower script)
        [0..<length (ut_outputs tx)])" by simp
  then show ?thesis using that [of i] i(2) by auto
qed

text \<open>C39. A token that was published is found. When publishing has returned an outpoint, and the hosts serve that output
  beside any number of older renditions that its history spends, a lookup by either hash returns exactly the token
  given to \<open>buildAndSend\<close>, at that outpoint.\<close>

theorem published_token_is_found:
  assumes sdk: "sdk_ok sdk" "token_ok sdk t" and run: "buildAndSend sdk verify w t old = Inr p"
    and lock: "uw_lock w (tokenFields sdk t) = Inr script"
      "\<And>out. out \<in> set (ut_outputs tx) \<Longrightarrow> js_lower (to_script out) = js_lower script \<Longrightarrow> to_decoded out = Some (tokenFields sdk t @ [sig], key)"
      "verify key (concat (tokenFields sdk t)) sig" "isLikelyDerSignatureField sig"
    and input: "resolveOldInput w old = Inr input" "uw_complete w script (map_option snd input) = Inr tx"
    and ok: "answers_ok (lr_outputs r)" and served: "a \<in> set (lr_outputs r)" "lo_tx a = Some tx" "lookup_position a = Some p"
    and older: "\<And>b t' q. b \<in> set (lr_outputs r) \<Longrightarrow> parse_lookup_output sdk verify b = Some t' \<Longrightarrow> kind_hash kind t' = kind_hash kind t
      \<Longrightarrow> currentOutpoint t' = Some q \<Longrightarrow> q \<noteq> p \<Longrightarrow> spent_before tx q"
    and unspent: "\<And>b tx'. b \<in> set (lr_outputs r) \<Longrightarrow> lo_tx b = Some tx' \<Longrightarrow> \<not> spent_before tx' p"
  shows "findToken sdk verify kind (kind_hash kind t) pinned (Inr r) = Inr (Some (t\<lparr>currentOutpoint := Some p\<rparr>))"
proof -
  have "broadcastUMPTransaction w tx script = Inr p"
    using run lock(1) input by (auto elim: publish_steps)
  then obtain i where i: "i < length (ut_outputs tx)" "p = outpoint_text (ut_id tx) (int i)"
      "js_lower (to_script (ut_outputs tx ! i)) = js_lower script" by (rule broadcast_output)
  have "outpoint_text (ut_id tx) (lo_index a) = outpoint_text (ut_id tx) (int i)" using served(2,3) i(2) by (simp add: lookup_position_def)
  then have idx: "lo_index a = int i" using outpoint_text_inj by blast
  have "authenticated verify (ut_outputs tx ! i) = Some (tokenFields sdk t, key)"
    by (rule authentic_fields [where verify = verify, OF sdk lock(2) [OF nth_mem [OF i(1)] i(3)] lock(3,4)])
  then have parse: "parse_lookup_output sdk verify a = Some (t\<lparr>currentOutpoint := Some p\<rparr>)"
    using served(2) i(1,2) idx publication_roundtrip(2) [where verify = "verify key" and sig = sig and outpoint = p, OF sdk lock(3,4)]
    by (simp add: parse_lookup_output_def out_at_def)
  have copy: "tx \<in> set (copies (lr_outputs r) p)" using served by (auto simp: in_copies)
  show ?thesis
  proof (rule newest_rendition_is_found [OF ok served(1) parse])
    show "list_ex (\<lambda>tx. spent_before tx q) (copies (lr_outputs r) p)"
      if "b \<in> set (lr_outputs r)" "parse_lookup_output sdk verify b = Some t'" "kind_hash kind t' = kind_hash kind t"
        "currentOutpoint t' = Some q" "q \<noteq> p" for b t' q
      using older [OF that] copy by (auto simp: list_ex_iff)
  qed (cases kind; use unspent in simp)+
qed

end
