(* ===== verification/Ump_Demo.thy ===== *)
theory Ump_Demo
  imports Key_Demo Ump_Find
begin

text \<open>Two renditions of a token and a forged pair, for the witnesses of the lookup's properties.\<close>

definition demo_sig :: "int list" where
  "demo_sig = [48, 6, 2, 1, 1, 2, 1, 1]"

definition demo_verify :: verifier where
  "demo_verify = (\<lambda>key data sig. sig = demo_sig)"

definition demo_id :: "char \<Rightarrow> string" where
  "demo_id c = replicate 64 c"

definition demo_output :: "string \<Rightarrow> ump_token \<Rightarrow> tx_output" where
  "demo_output key t = \<lparr>to_decoded = Some (tokenFields demo_sdk t @ [demo_sig], key), to_satoshis = 1, to_script = ''51''\<rparr>"

text \<open>\<open>salted x\<close> is the account's token with another salt.\<close>

definition salted :: "int \<Rightarrow> ump_token" where
  "salted x = demo_token\<lparr>passwordSalt := replicate 32 x\<rparr>"

abbreviation mint :: "char \<Rightarrow> string \<Rightarrow> int \<Rightarrow> ump_tx" where
  "mint c key x \<equiv> UmpTx (demo_id c) [] [demo_output key (salted x)]"

abbreviation renew :: "char \<Rightarrow> char \<Rightarrow> string \<Rightarrow> int \<Rightarrow> int \<Rightarrow> ump_tx" where
  "renew c d key x y \<equiv> UmpTx (demo_id d) [UmpInput (Some (demo_id c)) (Some 0) (Some (mint c key x))] [demo_output key (salted y)]"

abbreviation answer :: "ump_tx \<Rightarrow> lookup_output" where
  "answer tx \<equiv> \<lparr>lo_tx = Some tx, lo_index = 0, lo_size = 100\<rparr>"

lemma mint_ancestry [simp]: "ancestor (UmpTx h [] outs) u \<longleftrightarrow> u = UmpTx h [] outs"
  by (subst ancestor_iff) (simp add: parents_def)

lemma renew_ancestry [simp]: "ancestor (UmpTx d [UmpInput h (Some i) (Some (UmpTx c [] outs'))] outs) u
    \<longleftrightarrow> u = UmpTx d [UmpInput h (Some i) (Some (UmpTx c [] outs'))] outs \<or> u = UmpTx c [] outs'"
  by (subst ancestor_iff) (simp add: parents_def)

lemma demo_id_eq [simp]: "demo_id c = demo_id d \<longleftrightarrow> c = d" "length (demo_id c) = 64"
  by (simp_all add: demo_id_def)

lemma mint_ok [simp]: "one_tx_per_id {UmpTx h [] outs}"
  by (simp add: one_tx_per_id_def)

lemma renew_ok [simp]: "c \<noteq> d \<Longrightarrow> one_tx_per_id {renew c d key x y}"
  by (auto simp: one_tx_per_id_def)

lemma salted_ok: "token_ok demo_sdk (salted x)"
  using demo_token_ok unfolding token_ok_def by (auto simp: salted_def standard_fields_def field_ok_def split: option.splits)

lemma demo_parse_output: "parse_lookup_output demo_sdk demo_verify (answer (UmpTx h ins (demo_output key (salted x) # outs)))
    = Some ((salted x)\<lparr>currentOutpoint := Some (outpoint_text h 0)\<rparr>)"
proof -
  have d: "isLikelyDerSignatureField demo_sig" by (simp add: isLikelyDerSignatureField_def demo_sig_def)
  have "authenticated demo_verify (demo_output key (salted x)) = Some (tokenFields demo_sdk (salted x), key)"
    by (rule authentic_fields [OF demo_sdk_ok salted_ok _ _ d]) (simp_all add: demo_output_def demo_verify_def)
  then show ?thesis
    using publication_roundtrip(2) [where verify = "\<lambda>_ _. True" and outpoint = "outpoint_text h 0", OF demo_sdk_ok salted_ok _ d]
    by (simp add: parse_lookup_output_def out_at_def)
qed

lemma spends_renew [simp]: "spends (UmpTx d [UmpInput (Some c) (Some i) src] outs) = [outpoint_text c i]" "spends (UmpTx h [] outs) = []"
  by (simp_all add: spends_def List.map_filter_def)

lemma position_eq [simp]: "outpoint_text (demo_id c) i = outpoint_text (demo_id d) j \<longleftrightarrow> c = d \<and> i = j"
  using outpoint_text_inj [of "demo_id c" i "demo_id d" j] by auto

abbreviation first_tx :: ump_tx where
  "first_tx \<equiv> mint CHR ''a'' ''02ab'' 1"

abbreviation second_tx :: ump_tx where
  "second_tx \<equiv> renew CHR ''a'' CHR ''b'' ''02ab'' 1 4"

abbreviation forged_tx :: ump_tx where
  "forged_tx \<equiv> renew CHR ''e'' CHR ''f'' ''03cd'' 7 8"

definition demo_answers :: "ump_tx list \<Rightarrow> lookup_resolution" where
  "demo_answers txs = \<lparr>lr_outputs = map answer txs, lr_emptyHosts = 1\<rparr>"

abbreviation rendition :: "int \<Rightarrow> char \<Rightarrow> ump_token" where
  "rendition x c \<equiv> (salted x)\<lparr>currentOutpoint := Some (outpoint_text (demo_id c) 0)\<rparr>"

lemma demo_kind [simp]: "kind_hash ByPresentation (salted x) = demo_pres" "presentationHash (salted x) = demo_pres"
  by (simp_all add: salted_def demo_token_def)

lemma demo_fields [simp]: "lr_outputs (demo_answers txs) = map answer txs"
  by (simp add: demo_answers_def)

lemma demo_sig_ok: "isLikelyDerSignatureField demo_sig" "demo_verify key (concat fs) demo_sig"
  by (simp_all add: isLikelyDerSignatureField_def demo_sig_def demo_verify_def)

lemmas demo_lookup = demo_parse_output spent_before_def copies_def List.map_filter_def lookup_position_def list_ex_iff
    conj_disj_distribR ex_disj_distrib

lemma two_renditions_ok: "answers_ok (lr_outputs (demo_answers [first_tx, second_tx]))"
  by (auto simp: answers_ok_def)

lemma demo_single: "findToken demo_sdk demo_verify ByPresentation demo_pres None (Inr (demo_answers [first_tx]))
     = Inr (Some (rendition 1 CHR ''a''))"
  by (simp add: findToken_def parseLookupAnswers_def List.map_filter_def demo_parse_output Let_def)

theorem lookup_is_sound_witness:
  "findToken demo_sdk demo_verify ByPresentation demo_pres None (Inr (demo_answers [first_tx])) = Inr (Some (rendition 1 CHR ''a''))
   \<and> (\<exists>fs sig key. to_decoded (demo_output ''02ab'' (salted 1)) = Some (fs @ [sig], key) \<and> demo_verify key (concat fs) sig
       \<and> shows_token demo_sdk fs (rendition 1 CHR ''a''))
   \<and> findToken demo_sdk demo_verify ByPresentation demo_pres None (Inr (demo_answers [])) = Inr None"
proof -
  have "\<exists>fs sig key. to_decoded (demo_output ''02ab'' (salted 1)) = Some (fs @ [sig], key) \<and> demo_verify key (concat fs) sig
       \<and> shows_token demo_sdk fs (rendition 1 CHR ''a'')"
    using lookup_is_sound [where sdk = demo_sdk and verify = demo_verify and kind = ByPresentation and wanted = demo_pres
        and pinned = None and r = "demo_answers [first_tx]", unfolded demo_single]
    by (auto simp: answered_output_def)
  moreover have "findToken demo_sdk demo_verify ByPresentation demo_pres None (Inr (demo_answers [])) = Inr None"
    by (simp add: findToken_def demo_answers_def parseLookupAnswers_def List.map_filter_def)
  ultimately show ?thesis using demo_single by blast
qed

theorem newest_rendition_is_found_witness:
  "findToken demo_sdk demo_verify ByPresentation demo_pres None (Inr (demo_answers [first_tx, second_tx]))
     = Inr (Some (rendition 4 CHR ''b''))"
  by (rule newest_rendition_is_found [OF two_renditions_ok, of "answer second_tx"]) (auto simp: demo_lookup)

theorem forged_renewal_takes_over_witness:
  "findToken demo_sdk demo_verify ByPresentation demo_pres None (Inr (demo_answers [first_tx, forged_tx]))
     = Inr (Some (rendition 8 CHR ''f''))"
proof -
  have ok: "answers_ok (lr_outputs (demo_answers [first_tx, forged_tx]))" by (auto simp: answers_ok_def)
  show ?thesis
    by (rule forged_renewal_takes_over [where b = "mint CHR ''e'' ''03cd'' 7" and key = "''03cd''" and fake = "salted 7" and j = 0
            and sig = demo_sig, OF ok _ demo_parse_output _ _ _ demo_parse_output _ _ demo_sdk_ok salted_ok _ _ _ _ demo_sig_ok(2,1)])
      (auto simp: demo_lookup demo_output_def consumesIdentity_def out_at_def)
qed

definition demo_wallet :: ump_wallet where
  "demo_wallet = \<lparr>uw_lock = (\<lambda>_. Inr ''51''), uw_key = Inr ''02AB'', uw_complete = (\<lambda>_ _. Inr second_tx),
     uw_broadcast = (\<lambda>tx. Inr (ut_id tx)), uw_query = (\<lambda>_. Inr (demo_answers [first_tx]))\<rparr>"

lemma demo_position: "parse_outpoint (outpoint_text (demo_id CHR ''a'') 0) = Some (demo_id CHR ''a'', 0)"
  by (simp add: parse_outpoint_def outpoint_text_def demo_id_def show_int_def nat_digits.simps js_hex_def js_lower_char_def js_lower_def
      list_all_iff nat_of_digits_def digit_val_def)
    (simp add: char_of_def js_digit_def bit_Suc_0_iff)

lemma demo_input: "resolveOldInput demo_wallet (Some (rendition 1 CHR ''a''))
    = Inr (Some (rendition 1 CHR ''a'', outpoint_text (demo_id CHR ''a'') 0, answer first_tx))"
  by (simp add: resolveOldInput_def findByOutpoint_def demo_wallet_def demo_position is_requested_def out_at_def) (simp add: outpoint_text_def)

lemma demo_output_fields [simp]: "to_decoded (demo_output key t) = Some (tokenFields demo_sdk t @ [demo_sig], key)"
    "to_satoshis (demo_output key t) = 1" "to_script (demo_output key t) = ''51''"
  by (simp_all add: demo_output_def)

lemma demo_key: "js_lower ''02AB'' = js_lower ''02ab''"
  by code_simp

lemma demo_published: "buildAndSend demo_sdk demo_verify demo_wallet (salted 4) (Some (rendition 1 CHR ''a''))
    = Inr (outpoint_text (demo_id CHR ''b'') 0)"
proof -
  have a: "authenticated demo_verify (demo_output ''02ab'' (salted 1)) = Some (tokenFields demo_sdk (salted 1), ''02ab'')"
    by (rule authentic_fields [OF demo_sdk_ok salted_ok _ _ demo_sig_ok(1)]) (simp_all add: demo_output_def demo_verify_def)
  have "tokenFields demo_sdk (salted 1) ! 6 = demo_pres" "tokenFields demo_sdk (salted 1) ! 7 = recoveryHash (salted 1)"
    "length (recoveryHash (salted 1)) = 32"
    by (simp_all add: tokenFields_def standard_fields_def nth_append salted_def demo_token_def)
  then show ?thesis
    unfolding buildAndSend_def demo_input
    by (simp add: demo_wallet_def assertOwnedUMPInput_def out_at_def a broadcastUMPTransaction_def demo_key)
qed

theorem published_token_is_found_witness:
  "findToken demo_sdk demo_verify ByRecovery (replicate 32 0) None (Inr (demo_answers [first_tx, second_tx]))
     = Inr (Some (rendition 4 CHR ''b''))"
proof -
  have k: "kind_hash ByRecovery (salted x) = replicate 32 0" for x by (simp add: salted_def demo_token_def)
  have "findToken demo_sdk demo_verify ByRecovery (kind_hash ByRecovery (salted 4)) None (Inr (demo_answers [first_tx, second_tx]))
     = Inr (Some (rendition 4 CHR ''b''))"
    by (rule published_token_is_found [where script = "''51''" and sig = demo_sig and key = "''02ab''" and a = "answer second_tx" and tx = second_tx,
          OF demo_sdk_ok salted_ok demo_published _ _ demo_sig_ok(2,1) demo_input _ two_renditions_ok])
      (auto simp: demo_lookup demo_wallet_def k)
  then show ?thesis by (simp only: k)
qed

end
