(* ===== verification/Spec2Isabelle.thy ===== *)
theory Spec2Isabelle
  imports Dual_Layer Kernel_Fates Swap_Routing Swap_Intake Swap_World Funding_Plan Header_Proof Live_Runs Ump_Demo
begin

text \<open>
  A verification library for the core of the HandCash desktop wallet: the stores that say which
  coins are there and what became of every transaction, the decisions taken from incomplete
  evidence, the peer-to-peer swap protocol, the funding of an action in the wallet engine, the
  block header tracker that merkle proofs are checked against, and the key manager that opens an
  account with two of three factors.
  Paths are under \<open>src/\<close>; \<open>W\<close> is \<open>src/src/wallet\<close>, \<open>P\<close> is \<open>src/packages/wallet-engine/src\<close>, \<open>E\<close> is
  \<open>P/storage/methods\<close> and \<open>H\<close> is \<open>P/services/chaintracker/chaintracks\<close>.

  \<^bold>\<open>How the parts interact.\<close> A send soft-locks its coins in the UTXO overlay, broadcasts, and follows
  the answers of ARC through the transaction store; a mined record needs a verified merkle path.
  When evidence is missing the kernel decides what may be concluded. Swaps are offers that takers
  find and price (routing), makers check and admit (intake), and both sides settle with two
  hash-locked outputs (settlement). Below all this the engine selects coins, plans change and
  fees, and either answers with a balanced plan or refuses. The header tracker keeps the old headers
  in bulk files and the recent ones, with their forks, in a live store; the tip with the most work
  picks the active chain, and headers that have left the reorganization window move from the live
  store to the bulk files. When no tracker answers, single headers come from public services and are
  only checked against themselves. The key manager holds the keys all of this signs with: its token on
  the chain carries the root keys under each pair of factors, is found again by the hashes of two of them,
  and is spent and replaced at every change.

  \<^bold>\<open>Theories and code.\<close>
  \<^item> \<open>Wallet_Prelude\<close>: JavaScript strings, JSON values, insertion-ordered maps; the generic lemmas; the
    locale \<open>invariant_machine\<close> (a step function with a legality condition and an invariant).
  \<^item> \<open>Outpoint_Format\<close>: \<open>W/outpointFormat.ts\<close>.
  \<^item> \<open>Utxo_Overlay\<close> (C1-C4): \<open>W/utxoLifecycle.ts\<close> (\<open>utxo_lock\<close>, its JSON coercion and its predicates) and
    \<open>W/utxoLockManager.ts\<close>. The state \<open>overlay\<close> is the module's \<open>Map\<close> with the durable text; \<open>overlay_op\<close>
    lists every exported operation. C1 is the invariant of the rows, C2 that consumed coins stay
    consumed, C3 the behaviour of locking (the lemmas beside it: rollback, confirmation and expiry),
    C4 the round trip through the durable text.
  \<^item> \<open>Tx_Lifecycle\<close>: \<open>W/txLifecycle.ts\<close>, \<open>W/arcStatusMap.ts\<close>, \<open>W/protocolValidate.ts\<close> and the chart of
    \<open>W/txLifecycleMachine.ts\<close>; the chart refines the status graph.
  \<^item> \<open>Tx_Store\<close> (C5): \<open>W/txStore.ts\<close>. Runs of \<open>store_op\<close> follow the status graph, an ARC answer never
    mines, the memoised index is never stale, flushing and reloading loses nothing;
    \<open>reorg_keeps_header_proof\<close> states what a reorg leaves behind (a finding).
  \<^item> \<open>Dual_Layer\<close> (C6, C7): \<open>W/dualLayerSend.ts\<close> over both stores with \<open>W/spvFinality.ts\<close>. The awaits of a
    finality attempt split it into a start and an end that interleave with other operations. C6 ties a mined
    record to the attempt that read it and to the path of the txid it read; \<open>resigned_during_proof_is_mined\<close>
    is what a new signature in between does (a finding).
  \<^item> \<open>Kernel_Fates\<close> (C8): the decision files of \<open>W/kernel\<close> and \<open>W/spendVerdict/classify.ts\<close>, each with
    the exact evidence its drastic answers need.
  \<^item> \<open>Swap_Offer\<close> (C9, C10), \<open>Swap_Routing\<close> (C11), \<open>Swap_Settle\<close> (C12-C14), \<open>Swap_Intake\<close> (C15, C16): the
    files \<open>offer.ts\<close>, \<open>fee.ts\<close>, \<open>assets.ts\<close>, \<open>routing.ts\<close>, \<open>settle.ts\<close>, \<open>settleStore.ts\<close>, \<open>settleIntake.ts\<close> and the
    chart \<open>src/src/machines/swapSettleMachine.ts\<close>. What is signed binds the offer, a fill never beats
    its price, routing is sound and best, honest terms pass, coins move only in their windows and
    never wait past their lock time, an offer is never oversold, the chart takes every step. \<open>fund_coin\<close>
    (\<open>settleSteps.ts\<close>) is how a begun coin lock is resumed: it signs nothing. The intake of a take is two
    operations, before and after its await of \<open>canLock\<close>, and publishing, withdrawing and own takes come between;
    \<open>withdrawal_during_wait_is_lost\<close> is what its late write does (a finding). \<open>take_checked\<close> states the
    maker's check on its own: signature, price, fee, times and key.
  \<^item> \<open>Swap_World\<close> (C17, C18): both locks on their chains, one wallet following \<open>nextSettleStep\<close> and a
    counterparty that may do anything the scripts allow, as step relations with invariants (locale
    \<open>transition_invariant\<close>): the honest side is not robbed. In the maker's world (C18) the chains' clocks run up
    to \<open>wb_skew\<close> from the device's, a broadcast spend is pending for up to \<open>wb_delay\<close> and the two sides' spends race,
    and the maker takes a step every \<open>wb_period\<close>; \<open>displaced_refund_robs_maker\<close> and
    \<open>late_secret_forfeits_standing_lock\<close> show what it loses outside these bounds (findings).
  \<^item> \<open>Change_Selection\<close> (C19): \<open>E/actionPlanning.ts\<close>. The selector with its binary search is
    equivalent to the reference policy; random output indices are a permutation. The locale
    \<open>change_allocator\<close> is the contract between allocators and change generation.
  \<^item> \<open>Js_Number\<close>: rounding to doubles, for the two floating-point expressions of the fees.
  \<^item> \<open>Change_Generation\<close>: \<open>E/generateChange.ts\<close> with \<open>E/utils.ts\<close>; its theorems hold for every allocator
    that keeps the contract.
  \<^item> \<open>Funding_Plan\<close> (C20-C22): the planning part of \<open>E/createAction.ts\<close> (allocator over unsent change and
    candidates, tiers, compatibility retry, choice). Plans balance to the satoshi, a refusal means
    the money is not there (\<open>wallet_coins\<close>, which a protected action may not touch), and planning always answers.
  \<^item> \<open>Chain_Result\<close>, \<open>Height_Range\<close>: errors of the tracker, and \<open>H/util/HeightRange.ts\<close>, whose operations
    are exactly the operations on sets of heights.
  \<^item> \<open>Block_Header\<close> (C31, C32), \<open>Header_Work\<close> (C30): \<open>H/util/blockHeaderUtilities.ts\<close> with the dirty hashes
    and genesis headers. Writing and reading headers are inverse, parsed headers have the right types,
    the work of a header is \<open>2^256 / (target + 1)\<close> computed on 256 bits, and the buffer check accepts
    exactly the chains of mined headers and returns their summed work. The locale \<open>header_codec\<close> states
    what is used of the SDK.
  \<^item> \<open>Header_Proof\<close> (C29): \<open>W/blockHeaders.ts\<close>, the single headers fetched from public services, with
    cache, durable copy and cooldowns. What is returned hashes to its own hash field and is at most the
    target of its own bits (\<open>proves_itself\<close>, over its 80 wire bytes); a stored entry that cannot be read (\<open>bad\<close>) ends
    the hydration before its trim. \<open>unmined_header_is_accepted\<close> shows that the target itself is not bounded (a finding).
  \<^item> \<open>Bulk_Files\<close> (C28): \<open>H/util/BulkFileDataManager.ts\<close>. The files of the manager always follow each other
    in height, hash and work.
  \<^item> \<open>Header_Store\<close>, \<open>Live_Chain\<close>, \<open>Live_Insert\<close>, \<open>Chain_Demo\<close>, \<open>Live_Runs\<close> (C23-C27): \<open>H/Storage/ChaintracksStorageNoDb.ts\<close>
    and \<open>H/Storage/ChaintracksStorageBase.ts\<close>. \<open>Header_Store\<close> has the state and the operations, \<open>Live_Chain\<close> the
    invariant \<open>live_store_inv\<close> and the loops of a reorganization, \<open>Live_Insert\<close> that every operation keeps
    it, \<open>Chain_Demo\<close> a small SDK with concrete headers, \<open>Live_Runs\<close> the properties of runs: the tip is the
    first header with the most work, the active headers are one unbroken chain, bulk and live ranges
    adjoin; C26 and C27 show two ways the flags go wrong (findings).
  \<^item> \<open>Ump_Token\<close>: the first part of \<open>P/CWIStyleWalletManager.ts\<close>. The token (\<open>ump_token\<close>), its key-derivation
    settings, the fields it is published with and their authentication, and its binary form in a snapshot;
    both forms read back as the token. \<open>key_sdk\<close> is the SDK, \<open>sdk_ok\<close> what is used of it.
  \<^item> \<open>Key_Manager\<close>: the class \<open>CWIStyleWalletManager\<close> of that file (state \<open>key_manager\<close>, one definition per
    method, by the method's name) and \<open>P/sdk/PrivilegedKeyManager.ts\<close> (\<open>privileged_manager\<close>). An operation
    takes \<open>key_env\<close>, the answers of the outside world during the call.
  \<^item> \<open>Key_Account\<close>: the abstract account (\<open>account\<close>: its three factors, root keys and profiles), when a token
    is one for it (\<open>token_for\<close>), the invariant \<open>key_inv\<close> of an open manager, and that every operation keeps it
    and changes the account as it should, failed calls included (locale \<open>guarded_machine\<close>). \<open>key_world\<close> is one
    account open on any number of devices, with the token published last.
  \<^item> \<open>Key_Runs\<close>, \<open>Key_Demo\<close> (C33-C36): lives of an account. After any calls two factors open it (names of added
    profiles within their bounds), snapshots bring a manager back that has the profiles of its token, C36 and
    \<open>nameless_profile_locks_account\<close> are two calls that lock the user out, and \<open>failed_profile_breaks_snapshot\<close> one that
    makes a snapshot useless (findings). \<open>Key_Demo\<close> has a small SDK with concrete keys.
  \<^item> \<open>Ump_Lookup\<close>, \<open>Ump_Find\<close>, \<open>Ump_Demo\<close> (C37-C40): \<open>OverlayUMPTokenInteractor\<close> of the same file. A transaction is a
    tree with its ancestors; the search over it collects exactly the spends of the ancestry. A lookup
    returns only what some answered output shows under a signature of its own (\<open>shows_token\<close>, field by field), the
    newest of an account's renditions, and the one just published; C40 shows that a forger can win it (a finding).

  \<^bold>\<open>Conventions.\<close> Exceptions are \<open>Inl\<close> or a refusal constructor; a state is a record returned updated;
  \<open>async\<close> code is sequential between its awaits, and where another operation can come in between (the
  finality attempt, the intake of a take) the halves are separate operations. Satoshis and times are integers; the code's
  sums stay below \<open>2 ^ 53\<close>, where JavaScript numbers are exact. Where the code divides (fees and random
  shares) the doubles are modelled with their rounding. Stored texts are kept as the JSON values they
  parse to.

  \<^bold>\<open>Parameters.\<close> Code that is not in the repository is an argument: SHA-256 and signature checks
  (\<open>swap_crypto\<close>), the merkle path and header services of a finality attempt, random bytes, the SDK's parameter check (\<open>sdk_accepts\<close>), the weight of the
  serialized ancestry (\<open>beefLength\<close>), the hash of the block header SDK (\<open>header_sdk\<close>), the answers of the
  header services, the settings and clock of the bulk files (\<open>bulk_env\<close>), the ciphers and key-derivation
  functions of the key manager (\<open>key_sdk\<close>), the answers to its calls (\<open>key_env\<close>), and the proofs, signatures and
  wallet calls of the token lookup (\<open>lookup_output\<close>, \<open>verifier\<close>, \<open>ump_wallet\<close>). Hypotheses on them are stated in the properties that need them.

  \<^bold>\<open>Bounds and fuel.\<close> The overlay's cap is the code's \<open>MAX_ENTRIES\<close>. Change generation takes two fuels:
  the funding loop allocates a coin per round, so one more than the free coins is enough, and the
  starvation loop loses a change output per round, so the outputs plus the coins plus two are enough
  (C22 proves both). The walks of a reorganization stop, as in the code, after \<open>MAX_STORAGE_TRAVERSAL\<close>
  headers (\<open>room_ok\<close> says that the live window is smaller), and pruning deletes at least one header per
  round, so the number of headers to delete is fuel enough. All other recursions are structural or have a termination proof.

  \<^bold>\<open>Assumptions of the key manager.\<close> A cipher text decrypts to its plain text under its key, and in C36 under
  no other. Random draws have the length asked for. The password prompt answers with the password
  of the manager's token or not at all (\<open>env_ok\<close>), and calls of one manager do not overlap: a second call does not start
  before the first has ended. A refresh finds no token but the one published last (\<open>call_legal\<close>; C38 is that promise
  of the lookup), and so does whoever opens the account (\<open>key_legal\<close>). A transaction id commits to the outputs and inputs of its transaction
  (\<open>answers_ok\<close>).

  \<^bold>\<open>Assumptions of the live store.\<close> C23-C25 are about runs that insert headers whose bits follow one
  schedule of difficulty by height (\<open>scheduled\<close>), in which case the child of a heavier header is always
  the heavier one, while the store has ids left and no live header is 100000 above the bulk files (\<open>room_ok\<close>). C26 and C27 are runs outside it, and show what the store does there.

  \<^bold>\<open>Not modelled.\<close> React components, Electron and native glue, generated sidecar bundles, network and
  database access, scripts and signing (\<open>htlc.ts\<close>, \<open>claimTower.ts\<close>), the text of messages, display texts,
  the rest of the wallet engine (permissions, sync, monitors), the wallet methods that the key manager
  only passes on, telemetry, claiming the planned coins in the
  database, the other back ends and the network sources of the header tracker, and the large
  orchestration files (\<open>appActivity.ts\<close>, \<open>staleOutputRelease.ts\<close>, \<open>collectables.ts\<close>).

  \<^bold>\<open>Plan.\<close> Next: the bulk ingestion of headers (\<open>addBulkHeaders\<close>), the range reads over bulk files and
  live headers, the depth of a reorganization, the claim of a funding plan with its retries, the token
  arithmetic (\<open>tokens\<close>).
\<close>

end
